(* ===== verification/Prelude.thy ===== *)
theory Prelude
  imports Main "HOL-Library.Word"
begin

unbundle bit_operations_syntax

text \<open>
  Shared vocabulary of the development: the C types the modelled components use, the
  result codes of \<^verbatim>\<open>esp_err.h\<close>, byte-addressed memory with little-endian 32-bit
  access, flag words, 32-bit unsigned arithmetic on \<^typ>\<open>nat\<close>, alignment, and circular
  address ranges. The lemmas here are generic; the component theories only add facts
  about their own operations.

  Conventions. A \<^verbatim>\<open>size_t\<close> or \<^verbatim>\<open>uint32_t\<close> quantity that the code adds or
  subtracts is a \<^typ>\<open>nat\<close>, with the reduction modulo \<open>2 ^ 32\<close> written out
  (\<open>add32\<close>, \<open>sub32\<close>) wherever the C expression can wrap. Flag words keep their
  width (\<open>u32\<close>). An address is a \<^typ>\<open>nat\<close>, memory a function from addresses to
  bytes.
\<close>

section \<open>Types and error codes\<close>

type_synonym u8 = "8 word"
type_synonym u16 = "16 word"
type_synonym u32 = "32 word"
type_synonym memory = "nat \<Rightarrow> u8"

datatype esp_err =
    ESP_OK
  | ESP_FAIL
  | ESP_ERR_NO_MEM
  | ESP_ERR_INVALID_ARG
  | ESP_ERR_INVALID_STATE
  | ESP_ERR_INVALID_SIZE
  | ESP_ERR_NOT_FOUND
  | ESP_ERR_NOT_SUPPORTED
  | ESP_ERR_TIMEOUT
  | ESP_ERR_NOT_ALLOWED
  | ESP_ERR_IMAGE_INVALID
  | ESP_ERR_OTA_PARTITION_CONFLICT
  | ESP_ERR_OTA_VALIDATE_FAILED
  | ESP_ERR_OTA_SMALL_SEC_VER
  | ESP_ERR_OTA_ROLLBACK_FAILED
  | ESP_ERR_OTA_ROLLBACK_INVALID_STATE
  | ESP_ERR_FLASH_OP_FAIL
  | ESP_ERR_FLASH_OP_TIMEOUT
  | ESP_ERR_FLASH_NOT_INITIALISED
  | ESP_ERR_FLASH_PROTECTED

text \<open>Collections used by the component proofs.\<close>

named_theorems flag_simps \<open>evaluation of flag tests on flag words\<close>
named_theorems mem_simps \<open>reads after writes on byte memory\<close>
named_theorems u32_simps \<open>32-bit unsigned arithmetic on natural numbers\<close>

section \<open>32-bit unsigned arithmetic\<close>

definition add32 :: "nat \<Rightarrow> nat \<Rightarrow> nat" where
  "add32 a b = (a + b) mod 2 ^ 32"

definition sub32 :: "nat \<Rightarrow> nat \<Rightarrow> nat" where
  "sub32 a b = (a + (2 ^ 32 - b mod 2 ^ 32)) mod 2 ^ 32"

definition mul32 :: "nat \<Rightarrow> nat \<Rightarrow> nat" where
  "mul32 a b = (a * b) mod 2 ^ 32"

lemma add32_exact [u32_simps]: "a + b < 2 ^ 32 \<Longrightarrow> add32 a b = a + b"
  by (simp add: add32_def)

lemma add32_less [simp]: "add32 a b < 2 ^ 32"
  by (simp add: add32_def)

lemma mul32_exact [u32_simps]: "a * b < 2 ^ 32 \<Longrightarrow> mul32 a b = a * b"
  by (simp add: mul32_def)

lemma sub32_exact [u32_simps]:
  assumes "b \<le> a" and "a < 2 ^ 32"
  shows "sub32 a b = a - b"
proof -
  have "a + (2 ^ 32 - b mod 2 ^ 32) = (a - b) + 2 ^ 32"
    using assms by simp
  moreover have "((a - b) + 2 ^ 32) mod 2 ^ 32 = a - b"
    using assms by (subst mod_add_self2) (rule mod_less, linarith)
  ultimately show ?thesis
    unfolding sub32_def by (simp only:)
qed

lemma sub32_wraps [u32_simps]:
  assumes "a < b" and "b < 2 ^ 32"
  shows "sub32 a b = 2 ^ 32 - (b - a)"
  using assms by (simp add: sub32_def)

section \<open>Alignment\<close>

text \<open>\<^verbatim>\<open>(x + (a - 1)) & ~(a - 1)\<close> for a power of two \<^verbatim>\<open>a\<close>.\<close>

definition align_up :: "nat \<Rightarrow> nat \<Rightarrow> nat" where
  "align_up a x = ((x + (a - 1)) mod 2 ^ 32) div a * a"

lemma align_up_exact:
  assumes "0 < a" and "x + a \<le> 2 ^ 32"
  shows "align_up a x = (x + (a - 1)) div a * a"
  using assms by (simp add: align_up_def)

lemma align_up_bounds:
  assumes "0 < a" and "x + a \<le> 2 ^ 32"
  shows "x \<le> align_up a x" and "align_up a x < x + a" and "a dvd align_up a x"
proof -
  have e: "align_up a x = (x + (a - 1)) div a * a"
    using assms by (rule align_up_exact)
  have "(x + (a - 1)) div a * a + (x + (a - 1)) mod a = x + (a - 1)"
    by simp
  moreover have "(x + (a - 1)) mod a < a"
    using assms(1) by simp
  ultimately show "x \<le> align_up a x" and "align_up a x < x + a"
    using e assms(1) by linarith+
  show "a dvd align_up a x"
    by (simp add: e)
qed

lemma align_up_dvd:
  assumes "0 < a" and "x + a \<le> 2 ^ 32" and "a dvd x"
  shows "align_up a x = x"
proof -
  obtain k where x: "x = a * k"
    using assms(3) by blast
  have "(a * k + (a - 1)) div a = k"
    using assms(1) by (subst div_mult_self4) simp_all
  then show ?thesis
    using align_up_exact [OF assms(1,2)] x by (simp add: mult.commute)
qed

text \<open>The least multiple of \<open>a\<close> that is not below \<open>x\<close>.\<close>

lemma align_up_least:
  assumes "0 < a" and "x + a \<le> 2 ^ 32" and "x \<le> y" and "a dvd y"
  shows "align_up a x \<le> y"
proof -
  obtain k where y: "y = a * k"
    using assms(4) by blast
  obtain j where j: "align_up a x = a * j"
    using align_up_bounds(3) [OF assms(1,2)] by blast
  have "a * j < a * (k + 1)"
    using align_up_bounds(2) [OF assms(1,2)] assms(3) j y by simp
  then have "j < k + 1"
    by (rule mult_less_cancel1 [THEN iffD1, THEN conjunct2])
  then show ?thesis
    using j y by simp
qed

section \<open>Flag words\<close>

definition flag_set :: "u32 \<Rightarrow> u32 \<Rightarrow> bool" where
  "flag_set w f \<longleftrightarrow> w AND f \<noteq> 0"

lemma flag_set_0 [simp]: "\<not> flag_set 0 f"
  by (simp add: flag_set_def)

lemma flag_set_or [flag_simps]: "flag_set (w OR v) f \<longleftrightarrow> flag_set w f \<or> flag_set v f"
  by (simp add: flag_set_def bit.conj_disj_distrib2 or_eq_0_iff)

lemma flag_set_and [flag_simps]: "flag_set (w AND v) f \<longleftrightarrow> flag_set w (v AND f)"
  by (simp add: flag_set_def and.assoc)

lemma flag_set_mask_or [flag_simps]: "flag_set w (f OR g) \<longleftrightarrow> flag_set w f \<or> flag_set w g"
  by (simp add: flag_set_def bit.conj_disj_distrib or_eq_0_iff)

lemma flag_set_none [simp]: "\<not> flag_set w 0"
  by (simp add: flag_set_def)

lemma flag_set_numeral [flag_simps]:
  "flag_set (numeral m) (numeral n) \<longleftrightarrow> (numeral m AND numeral n :: u32) \<noteq> 0"
  by (simp add: flag_set_def)

lemma flag_set_one [flag_simps]:
  "flag_set 1 (numeral n) \<longleftrightarrow> (1 AND numeral n :: u32) \<noteq> 0"
  "flag_set (numeral m) 1 \<longleftrightarrow> (numeral m AND 1 :: u32) \<noteq> 0"
  "flag_set 1 1"
  by (simp_all add: flag_set_def)

lemma flag_set_3 [flag_simps]: "flag_set w 3 \<longleftrightarrow> flag_set w 1 \<or> flag_set w 2"
  using flag_set_mask_or [of w 1 2] by simp

section \<open>Byte memory\<close>

definition wr_bytes :: "memory \<Rightarrow> nat \<Rightarrow> u8 list \<Rightarrow> memory" where
  "wr_bytes m a bs = (\<lambda>i. if a \<le> i \<and> i < a + length bs then bs ! (i - a) else m i)"

definition rd_bytes :: "memory \<Rightarrow> nat \<Rightarrow> nat \<Rightarrow> u8 list" where
  "rd_bytes m a n = map m [a..<a + n]"

definition bytes_of_u32 :: "u32 \<Rightarrow> u8 list" where
  "bytes_of_u32 w = [ucast w, ucast (drop_bit 8 w), ucast (drop_bit 16 w), ucast (drop_bit 24 w)]"

definition rd32 :: "memory \<Rightarrow> nat \<Rightarrow> u32" where
  "rd32 m a = ucast (m a) OR push_bit 8 (ucast (m (a + 1))) OR
     push_bit 16 (ucast (m (a + 2))) OR push_bit 24 (ucast (m (a + 3)))"

definition wr32 :: "memory \<Rightarrow> nat \<Rightarrow> u32 \<Rightarrow> memory" where
  "wr32 m a w = wr_bytes m a (bytes_of_u32 w)"

lemma length_bytes_of_u32 [simp]: "length (bytes_of_u32 w) = 4"
  by (simp add: bytes_of_u32_def)

lemma length_rd_bytes [simp]: "length (rd_bytes m a n) = n"
  by (simp add: rd_bytes_def)

lemma wr_bytes_Nil [simp]: "wr_bytes m a [] = m"
  by (rule ext) (auto simp: wr_bytes_def)

lemma wr_bytes_outside [mem_simps]: "i < a \<or> a + length bs \<le> i \<Longrightarrow> wr_bytes m a bs i = m i"
  by (auto simp: wr_bytes_def)

lemma wr_bytes_inside: "a \<le> i \<Longrightarrow> i < a + length bs \<Longrightarrow> wr_bytes m a bs i = bs ! (i - a)"
  by (simp add: wr_bytes_def)

lemma rd_wr_bytes [mem_simps]: "rd_bytes (wr_bytes m a bs) a (length bs) = bs"
  by (rule nth_equalityI) (simp_all add: rd_bytes_def wr_bytes_def)

lemma rd_bytes_split: "k \<le> n \<Longrightarrow> rd_bytes m a n = rd_bytes m a k @ rd_bytes m (a + k) (n - k)"
  using upt_add_eq_append [of a "a + k" "n - k"] by (simp add: rd_bytes_def)

lemma rd_bytes_add: "rd_bytes m a (n + k) = rd_bytes m a n @ rd_bytes m (a + n) k"
  using rd_bytes_split [of n "n + k" m a] by simp

lemma rd_bytes_cong:
  "(\<And>i. a \<le> i \<Longrightarrow> i < a + n \<Longrightarrow> m i = m' i) \<Longrightarrow> rd_bytes m a n = rd_bytes m' a n"
  by (simp add: rd_bytes_def)

lemma rd_wr_bytes_disjoint [mem_simps]:
  "b + length bs \<le> a \<or> a + n \<le> b \<Longrightarrow> rd_bytes (wr_bytes m b bs) a n = rd_bytes m a n"
  by (rule rd_bytes_cong) (auto simp: wr_bytes_def)

lemma wr32_outside [mem_simps]: "i < a \<or> a + 4 \<le> i \<Longrightarrow> wr32 m a w i = m i"
  by (simp add: wr32_def wr_bytes_outside)

lemma rd32_cong:
  "(\<And>i. a \<le> i \<Longrightarrow> i < a + 4 \<Longrightarrow> m i = m' i) \<Longrightarrow> rd32 m a = rd32 m' a"
  by (simp add: rd32_def)

lemma rd32_bytes: 
  "ucast (ucast (w :: u32) :: u8) OR push_bit 8 (ucast (ucast (drop_bit 8 w) :: u8)) OR
    push_bit 16 (ucast (ucast (drop_bit 16 w) :: u8)) OR
    push_bit 24 (ucast (ucast (drop_bit 24 w) :: u8)) = (w :: u32)"
proof (rule bit_word_eqI)
  fix n assume "n < LENGTH(32)"
  then consider "n < 8" | "8 \<le> n \<and> n < 16" | "16 \<le> n \<and> n < 24" | "24 \<le> n \<and> n < 32"
    by (simp, linarith)
  then show "bit (ucast (ucast w :: u8) OR push_bit 8 (ucast (ucast (drop_bit 8 w) :: u8)) OR
    push_bit 16 (ucast (ucast (drop_bit 16 w) :: u8)) OR
    push_bit 24 (ucast (ucast (drop_bit 24 w) :: u8)) :: u32) n = bit w n"
    by cases (auto simp: bit_simps)
qed

lemma rd32_wr32 [mem_simps]: "rd32 (wr32 m a w) a = w"
  using rd32_bytes [of w]
  by (simp add: rd32_def wr32_def wr_bytes_def bytes_of_u32_def)

lemma rd32_wr32_disjoint [mem_simps]:
  "b + 4 \<le> a \<or> a + 4 \<le> b \<Longrightarrow> rd32 (wr32 m b w) a = rd32 m a"
  by (rule rd32_cong) (auto simp: wr32_outside)

lemma rd32_wr_bytes_disjoint [mem_simps]:
  "b + length bs \<le> a \<or> a + 4 \<le> b \<Longrightarrow> rd32 (wr_bytes m b bs) a = rd32 m a"
  by (rule rd32_cong) (auto simp: wr_bytes_outside)

lemma rd_bytes_wr32_disjoint [mem_simps]:
  "b + 4 \<le> a \<or> a + n \<le> b \<Longrightarrow> rd_bytes (wr32 m b w) a n = rd_bytes m a n"
  unfolding wr32_def by (rule rd_wr_bytes_disjoint) simp

end
