(* ===== verification/Ringbuf.thy ===== *)
theory Ringbuf
  imports Prelude
begin

text \<open>
  The ring buffer of \<^verbatim>\<open>components/esp_ringbuf/ringbuf.c\<close>: its control block, the item
  headers it keeps inside the byte storage, and every function of the file except the
  diagnostic printer. Definitions only, in the order of the source; the properties are in
  \<open>Ringbuf_Byte\<close>, \<open>Ringbuf_NoSplit\<close> and \<open>Ringbuf_Api\<close>.

  \<^item> The storage is part of the state (\<open>store\<close>); headers are read and written through
    it as two little-endian 32-bit words, so that data and headers share one memory.
  \<^item> \<^verbatim>\<open>configASSERT\<close> aborts: an operation that reaches a failing assertion is \<open>None\<close>.
    The two pointer-advancing loops are \<^theory_text>\<open>partial_function (option)\<close>; a loop that
    does not end is \<open>None\<close> as well, so \<open>Some\<close> always means \<open>returns, no assertion fails\<close>.
  \<^item> A function pointer of the control block is a constructor of a small datatype, applied
    by the \<open>call_\<close> functions.
  \<^item> The critical sections make each operation atomic. A blocking call is given the list of
    what happens at its successive waits (\<open>wake\<close>): the timeout, or being resumed in the
    state that other tasks have left.
  \<^item> The FreeRTOS scheduler is a parameter (\<open>kernel\<close>): where a blocked task is put in an
    event list, and whether an unblocked task preempts the caller.
\<close>

section \<open>Constants and the control block\<close>

abbreviation rbHEADER_SIZE :: nat where "rbHEADER_SIZE \<equiv> 8"

definition rbALIGN_SIZE :: "nat \<Rightarrow> nat" where
  "rbALIGN_SIZE xSize = align_up 4 xSize"

definition rbCHECK_ALIGNED :: "nat \<Rightarrow> bool" where
  "rbCHECK_ALIGNED p \<longleftrightarrow> p mod 4 = 0"

abbreviation rbALLOW_SPLIT_FLAG :: u32 where "rbALLOW_SPLIT_FLAG \<equiv> 1"
abbreviation rbBYTE_BUFFER_FLAG :: u32 where "rbBYTE_BUFFER_FLAG \<equiv> 2"
abbreviation rbBUFFER_FULL_FLAG :: u32 where "rbBUFFER_FULL_FLAG \<equiv> 4"
abbreviation rbBUFFER_STATIC_FLAG :: u32 where "rbBUFFER_STATIC_FLAG \<equiv> 8"

abbreviation rbITEM_FREE_FLAG :: u32 where "rbITEM_FREE_FLAG \<equiv> 1"
abbreviation rbITEM_DUMMY_DATA_FLAG :: u32 where "rbITEM_DUMMY_DATA_FLAG \<equiv> 2"
abbreviation rbITEM_SPLIT_FLAG :: u32 where "rbITEM_SPLIT_FLAG \<equiv> 4"
abbreviation rbITEM_WRITTEN_FLAG :: u32 where "rbITEM_WRITTEN_FLAG \<equiv> 8"

text \<open>\<^verbatim>\<open>ItemHeader_t\<close> at address \<open>a\<close>: the length word, then the flag word.\<close>

definition xItemLen :: "memory \<Rightarrow> nat \<Rightarrow> nat" where
  "xItemLen m a = unat (rd32 m a)"

definition uxItemFlags :: "memory \<Rightarrow> nat \<Rightarrow> u32" where
  "uxItemFlags m a = rd32 m (a + 4)"

definition set_ItemLen :: "memory \<Rightarrow> nat \<Rightarrow> nat \<Rightarrow> memory" where
  "set_ItemLen m a n = wr32 m a (of_nat n)"

definition set_ItemFlags :: "memory \<Rightarrow> nat \<Rightarrow> u32 \<Rightarrow> memory" where
  "set_ItemFlags m a f = wr32 m (a + 4) f"

datatype RingbufferType =
    RINGBUF_TYPE_NOSPLIT | RINGBUF_TYPE_ALLOWSPLIT | RINGBUF_TYPE_BYTEBUF | RINGBUF_TYPE_MAX

datatype CheckItemFitsFunction = CheckItemFitsDefault | CheckItemFitsByteBuffer
datatype CopyItemFunction = CopyItemNoSplit | CopyItemAllowSplit | CopyItemByteBuf
datatype GetItemFunction = GetItemDefault | GetItemByteBuf
datatype ReturnItemFunction = ReturnItemDefault | ReturnItemByteBuf
datatype GetCurMaxSizeFunction = GetCurMaxSizeNoSplit | GetCurMaxSizeAllowSplit | GetCurMaxSizeByteBuf

record Ringbuffer =
  xSize :: nat
  xMaxItemSize :: nat
  uxRingbufferFlags :: u32
  xCheckItemFits :: CheckItemFitsFunction
  vCopyItem :: CopyItemFunction
  pvGetItem :: GetItemFunction
  vReturnItem :: ReturnItemFunction
  xGetCurMaxSize :: GetCurMaxSizeFunction
  pucAcquire :: nat
  pucWrite :: nat
  pucRead :: nat
  pucFree :: nat
  pucHead :: nat
  pucTail :: nat
  xItemsWaiting :: int
  xTasksWaitingToSend :: "nat list"
  xTasksWaitingToReceive :: "nat list"
  xQueueSet :: "nat option"
  store :: memory

abbreviation is_full :: "Ringbuffer \<Rightarrow> bool" where
  "is_full rb \<equiv> flag_set (uxRingbufferFlags rb) rbBUFFER_FULL_FLAG"

text \<open>
  \<^verbatim>\<open>pucTail - p < rbHEADER_SIZE\<close>: the pointer difference is converted to the unsigned
  type of \<^verbatim>\<open>sizeof\<close>, so a pointer beyond the tail does not satisfy it.
\<close>

definition tail_rem_lt_header :: "Ringbuffer \<Rightarrow> nat \<Rightarrow> bool" where
  "tail_rem_lt_header rb p \<longleftrightarrow> p \<le> pucTail rb \<and> pucTail rb - p < rbHEADER_SIZE"

definition acquire_in_bounds :: "Ringbuffer \<Rightarrow> bool" where
  "acquire_in_bounds rb \<longleftrightarrow> pucHead rb \<le> pucAcquire rb \<and> pucAcquire rb < pucTail rb"

section \<open>Static functions\<close>

definition prvInitializeNewRingbuffer :: "nat \<Rightarrow> RingbufferType \<Rightarrow> nat \<Rightarrow> memory \<Rightarrow> Ringbuffer" where
  "prvInitializeNewRingbuffer xBufferSize xBufferType pucStorage m =
     (let rb = \<lparr> xSize = xBufferSize, xMaxItemSize = 0, uxRingbufferFlags = 0,
                 xCheckItemFits = CheckItemFitsDefault, vCopyItem = CopyItemNoSplit,
                 pvGetItem = GetItemDefault, vReturnItem = ReturnItemDefault,
                 xGetCurMaxSize = GetCurMaxSizeNoSplit,
                 pucAcquire = pucStorage, pucWrite = pucStorage, pucRead = pucStorage,
                 pucFree = pucStorage, pucHead = pucStorage, pucTail = pucStorage + xBufferSize,
                 xItemsWaiting = 0, xTasksWaitingToSend = [], xTasksWaitingToReceive = [],
                 xQueueSet = None, store = m \<rparr>
      in if xBufferType = RINGBUF_TYPE_NOSPLIT then
           rb\<lparr> xMaxItemSize := sub32 (rbALIGN_SIZE (xBufferSize div 2)) rbHEADER_SIZE \<rparr>
         else if xBufferType = RINGBUF_TYPE_ALLOWSPLIT then
           rb\<lparr> uxRingbufferFlags := uxRingbufferFlags rb OR rbALLOW_SPLIT_FLAG,
               vCopyItem := CopyItemAllowSplit,
               xMaxItemSize := sub32 xBufferSize (rbHEADER_SIZE * 2),
               xGetCurMaxSize := GetCurMaxSizeAllowSplit \<rparr>
         else
           rb\<lparr> uxRingbufferFlags := uxRingbufferFlags rb OR rbBYTE_BUFFER_FLAG,
               xCheckItemFits := CheckItemFitsByteBuffer, vCopyItem := CopyItemByteBuf,
               pvGetItem := GetItemByteBuf, vReturnItem := ReturnItemByteBuf,
               xMaxItemSize := xBufferSize,
               xGetCurMaxSize := GetCurMaxSizeByteBuf \<rparr>)"

definition prvGetFreeSize :: "Ringbuffer \<Rightarrow> nat option" where
  "prvGetFreeSize rb =
     (let xReturn =
        (if is_full rb then 0
         else (let d = int (pucFree rb) - int (pucAcquire rb)
               in nat (if d \<le> 0 then d + int (xSize rb) else d)))
      in if xReturn \<le> xSize rb then Some xReturn else None)"

definition prvCheckItemFitsDefault :: "Ringbuffer \<Rightarrow> nat \<Rightarrow> bool option" where
  "prvCheckItemFitsDefault rb xItemSize =
     (if \<not> (rbCHECK_ALIGNED (pucAcquire rb) \<and> acquire_in_bounds rb) then None
      else let xTotalItemSize = add32 (rbALIGN_SIZE xItemSize) rbHEADER_SIZE in
        if pucAcquire rb = pucFree rb then Some (\<not> is_full rb)
        else if pucFree rb > pucAcquire rb then
          Some (xTotalItemSize \<le> pucFree rb - pucAcquire rb)
        else if xTotalItemSize \<le> pucTail rb - pucAcquire rb then Some True
        else if flag_set (uxRingbufferFlags rb) rbALLOW_SPLIT_FLAG then
          Some (add32 xTotalItemSize rbHEADER_SIZE
                  \<le> sub32 (xSize rb) (pucAcquire rb - pucFree rb))
        else Some (xTotalItemSize \<le> pucFree rb - pucHead rb))"

definition prvCheckItemFitsByteBuffer :: "Ringbuffer \<Rightarrow> nat \<Rightarrow> bool option" where
  "prvCheckItemFitsByteBuffer rb xItemSize =
     (if \<not> acquire_in_bounds rb then None
      else if pucAcquire rb = pucFree rb then Some (\<not> is_full rb)
      else if pucFree rb > pucAcquire rb then Some (xItemSize \<le> pucFree rb - pucAcquire rb)
      else Some (xItemSize \<le> sub32 (xSize rb) (pucAcquire rb - pucFree rb)))"

text \<open>
  The end of \<^verbatim>\<open>prvAcquireItemNoSplit\<close> and of \<^verbatim>\<open>prvCopyItemAllowSplit\<close>: wrap the acquire
  pointer when no header fits behind it, and mark the buffer full when it meets
  \<^verbatim>\<open>pucFree\<close>.
\<close>

definition wrap_acquire :: "Ringbuffer \<Rightarrow> Ringbuffer" where
  "wrap_acquire rb =
     (if tail_rem_lt_header rb (pucAcquire rb) then rb\<lparr> pucAcquire := pucHead rb \<rparr> else rb)"

definition mark_full :: "Ringbuffer \<Rightarrow> Ringbuffer" where
  "mark_full rb =
     (if pucAcquire rb = pucFree rb
      then rb\<lparr> uxRingbufferFlags := uxRingbufferFlags rb OR rbBUFFER_FULL_FLAG \<rparr> else rb)"

definition prvAcquireItemNoSplit :: "Ringbuffer \<Rightarrow> nat \<Rightarrow> (Ringbuffer \<times> nat) option" where
  "prvAcquireItemNoSplit rb xItemSize =
     (let xAlignedItemSize = rbALIGN_SIZE xItemSize;
          xRemLen = pucTail rb - pucAcquire rb
      in if \<not> (rbCHECK_ALIGNED (pucAcquire rb) \<and> acquire_in_bounds rb \<and> rbHEADER_SIZE \<le> xRemLen)
         then None
         else
           let rb1 = (if xRemLen < add32 xAlignedItemSize rbHEADER_SIZE then
                  rb\<lparr> store := set_ItemLen (set_ItemFlags (store rb) (pucAcquire rb)
                                  rbITEM_DUMMY_DATA_FLAG) (pucAcquire rb) 0,
                      pucAcquire := pucHead rb \<rparr>
                else rb);
               rb2 = rb1\<lparr> store := set_ItemFlags (set_ItemLen (store rb1) (pucAcquire rb1) xItemSize)
                                 (pucAcquire rb1) 0 \<rparr>;
               item_address = pucAcquire rb2 + rbHEADER_SIZE;
               rb3 = rb2\<lparr> pucAcquire := pucAcquire rb2 + add32 rbHEADER_SIZE xAlignedItemSize \<rparr>
           in Some (mark_full (wrap_acquire rb3), item_address))"

text \<open>The loop of \<^verbatim>\<open>prvSendItemDoneNoSplit\<close> that advances \<^verbatim>\<open>pucWrite\<close>.\<close>

partial_function (option) advance_write :: "Ringbuffer \<Rightarrow> Ringbuffer option" where
  "advance_write rb =
     (let f = uxItemFlags (store rb) (pucWrite rb) in
      if flag_set f rbITEM_WRITTEN_FLAG \<or> flag_set f rbITEM_DUMMY_DATA_FLAG then
        let rb1 = (if flag_set f rbITEM_DUMMY_DATA_FLAG then
               rb\<lparr> store := set_ItemFlags (store rb) (pucWrite rb) (f OR rbITEM_WRITTEN_FLAG),
                   pucWrite := pucHead rb \<rparr>
             else
               rb\<lparr> pucWrite := pucWrite rb
                     + add32 (rbALIGN_SIZE (xItemLen (store rb) (pucWrite rb))) rbHEADER_SIZE \<rparr>)
        in if \<not> flag_set f rbITEM_DUMMY_DATA_FLAG \<and> pucHead rb + xSize rb < pucWrite rb1 then None
           else let rb2 = (if tail_rem_lt_header rb1 (pucWrite rb1)
                           then rb1\<lparr> pucWrite := pucHead rb1 \<rparr> else rb1)
                in if pucWrite rb2 = pucAcquire rb2 then Some rb2 else advance_write rb2
      else Some rb)"

definition prvSendItemDoneNoSplit :: "Ringbuffer \<Rightarrow> nat \<Rightarrow> Ringbuffer option" where
  "prvSendItemDoneNoSplit rb pucItem =
     (if \<not> (rbCHECK_ALIGNED pucItem \<and> pucHead rb \<le> pucItem \<and> pucItem \<le> pucTail rb) then None
      else let h = pucItem - rbHEADER_SIZE; f = uxItemFlags (store rb) h in
        if \<not> (xItemLen (store rb) h \<le> xMaxItemSize rb
              \<and> \<not> flag_set f rbITEM_DUMMY_DATA_FLAG \<and> \<not> flag_set f rbITEM_WRITTEN_FLAG) then None
        else advance_write
          (rb\<lparr> store := set_ItemFlags (store rb) h
                        ((f AND NOT rbITEM_SPLIT_FLAG) OR rbITEM_WRITTEN_FLAG),
               xItemsWaiting := xItemsWaiting rb + 1 \<rparr>))"

definition prvCopyItemNoSplit :: "Ringbuffer \<Rightarrow> u8 list \<Rightarrow> Ringbuffer option" where
  "prvCopyItemNoSplit rb pucItem =
     (case prvAcquireItemNoSplit rb (length pucItem) of
        None \<Rightarrow> None
      | Some (rb1, item_addr) \<Rightarrow>
          prvSendItemDoneNoSplit (rb1\<lparr> store := wr_bytes (store rb1) item_addr pucItem \<rparr>) item_addr)"

text \<open>
  The first half of \<^verbatim>\<open>prvCopyItemAllowSplit\<close>: when the item does not fit before the
  tail, its first part (or a dummy header) is written there. Returns the remaining data
  and the remaining aligned size.
\<close>

definition split_first_part :: "Ringbuffer \<Rightarrow> u8 list \<Rightarrow> nat \<Rightarrow> nat \<Rightarrow> Ringbuffer \<times> u8 list \<times> nat" where
  "split_first_part rb pucItem xAlignedItemSize xRemLen =
     (let a = pucAcquire rb;
          m = set_ItemLen (set_ItemFlags (store rb) a 0) a (xRemLen - rbHEADER_SIZE);
          rem = xRemLen - rbHEADER_SIZE
      in if rem > 0 then
           (rb\<lparr> store := set_ItemFlags (wr_bytes m (a + rbHEADER_SIZE) (take rem pucItem)) a
                           rbITEM_SPLIT_FLAG,
                xItemsWaiting := xItemsWaiting rb + 1,
                pucAcquire := pucHead rb \<rparr>,
            drop rem pucItem, xAlignedItemSize - rem)
         else
           (rb\<lparr> store := set_ItemFlags m a rbITEM_DUMMY_DATA_FLAG, pucAcquire := pucHead rb \<rparr>,
            pucItem, xAlignedItemSize))"

definition prvCopyItemAllowSplit :: "Ringbuffer \<Rightarrow> u8 list \<Rightarrow> Ringbuffer option" where
  "prvCopyItemAllowSplit rb pucItem =
     (let xAlignedItemSize = rbALIGN_SIZE (length pucItem);
          xRemLen = pucTail rb - pucAcquire rb
      in if \<not> (rbCHECK_ALIGNED (pucAcquire rb) \<and> acquire_in_bounds rb \<and> rbHEADER_SIZE \<le> xRemLen)
         then None
         else
           let (rb1, item1, aligned1) =
                 (if xRemLen < add32 xAlignedItemSize rbHEADER_SIZE
                  then split_first_part rb pucItem xAlignedItemSize xRemLen
                  else (rb, pucItem, xAlignedItemSize));
               a = pucAcquire rb1;
               rb2 = rb1\<lparr> store := wr_bytes (set_ItemFlags (set_ItemLen (store rb1) a (length item1)) a 0)
                                    (a + rbHEADER_SIZE) item1,
                          xItemsWaiting := xItemsWaiting rb1 + 1,
                          pucAcquire := a + rbHEADER_SIZE + aligned1 \<rparr>;
               rb3 = mark_full (wrap_acquire rb2)
           in Some (rb3\<lparr> pucWrite := pucAcquire rb3 \<rparr>))"

text \<open>
  \<^verbatim>\<open>memcpy\<close> at the acquire pointer with the update of the byte count and the pointer, and
  the end of \<^verbatim>\<open>prvCopyItemByteBuf\<close>: wrap \<^verbatim>\<open>pucAcquire\<close> at the tail, mark the buffer full,
  let \<^verbatim>\<open>pucWrite\<close> follow.
\<close>

definition put_bytes :: "Ringbuffer \<Rightarrow> u8 list \<Rightarrow> Ringbuffer" where
  "put_bytes rb bs =
     rb\<lparr> store := wr_bytes (store rb) (pucAcquire rb) bs,
         xItemsWaiting := xItemsWaiting rb + int (length bs),
         pucAcquire := pucAcquire rb + length bs \<rparr>"

definition finish_byte_copy :: "Ringbuffer \<Rightarrow> Ringbuffer" where
  "finish_byte_copy rb =
     (let rb1 = (if pucAcquire rb = pucTail rb then rb\<lparr> pucAcquire := pucHead rb \<rparr> else rb);
          rb2 = mark_full rb1
      in rb2\<lparr> pucWrite := pucAcquire rb2 \<rparr>)"

definition prvCopyItemByteBuf :: "Ringbuffer \<Rightarrow> u8 list \<Rightarrow> Ringbuffer option" where
  "prvCopyItemByteBuf rb pucItem =
     (if \<not> acquire_in_bounds rb then None
      else
        let xRemLen = pucTail rb - pucAcquire rb in
        if xRemLen < length pucItem then
          Some (finish_byte_copy
            (put_bytes ((put_bytes rb (take xRemLen pucItem))\<lparr> pucAcquire := pucHead rb \<rparr>)
               (drop xRemLen pucItem)))
        else Some (finish_byte_copy (put_bytes rb pucItem)))"

text \<open>\<^verbatim>\<open>(xItemsWaiting > 0) && ((pucRead != pucWrite) || FULL)\<close>, tested in three places.\<close>

definition items_to_read :: "Ringbuffer \<Rightarrow> bool" where
  "items_to_read rb \<longleftrightarrow> xItemsWaiting rb > 0 \<and> (pucRead rb \<noteq> pucWrite rb \<or> is_full rb)"

definition prvCheckItemAvail :: "Ringbuffer \<Rightarrow> bool" where
  "prvCheckItemAvail rb =
     (if flag_set (uxRingbufferFlags rb) rbBYTE_BUFFER_FLAG \<and> pucRead rb \<noteq> pucFree rb then False
      else if items_to_read rb then
        (if \<not> flag_set (uxRingbufferFlags rb) (rbBYTE_BUFFER_FLAG OR rbALLOW_SPLIT_FLAG)
            \<and> \<not> flag_set (uxItemFlags (store rb) (pucRead rb)) rbITEM_WRITTEN_FLAG
         then False else True)
      else False)"

text \<open>The item getters return the new state, the item's address, its size, and \<^verbatim>\<open>*pxIsSplit\<close>.\<close>

type_synonym got_item = "Ringbuffer \<times> nat \<times> nat \<times> bool"

definition prvGetItemDefault :: "Ringbuffer \<Rightarrow> got_item option" where
  "prvGetItemDefault rb =
     (let h = pucRead rb; m = store rb in
      if \<not> (items_to_read rb \<and> rbCHECK_ALIGNED h \<and> pucHead rb \<le> h \<and> h < pucTail rb
            \<and> (xItemLen m h \<le> xMaxItemSize rb \<or> flag_set (uxItemFlags m h) rbITEM_DUMMY_DATA_FLAG))
      then None
      else
        let wrapped = flag_set (uxItemFlags m h) rbITEM_DUMMY_DATA_FLAG;
            h1 = (if wrapped then pucHead rb else h);
            pcReturn = h1 + rbHEADER_SIZE
        in if wrapped \<and> \<not> xItemLen m h1 \<le> xMaxItemSize rb then None
           else if \<not> (pucHead rb \<le> pcReturn \<and>
                   (if xItemLen m h1 = 0 then pcReturn \<le> pucTail rb else pcReturn < pucTail rb)) then None
           else
             let r = h1 + add32 rbHEADER_SIZE (rbALIGN_SIZE (xItemLen m h1));
                 rb1 = rb\<lparr> xItemsWaiting := xItemsWaiting rb - 1,
                           pucRead := (if tail_rem_lt_header rb r then pucHead rb else r) \<rparr>
             in Some (rb1, pcReturn, xItemLen m h1, flag_set (uxItemFlags m h1) rbITEM_SPLIT_FLAG))"

definition prvGetItemByteBuf :: "Ringbuffer \<Rightarrow> nat \<Rightarrow> got_item option" where
  "prvGetItemByteBuf rb xMaxSize =
     (if \<not> (items_to_read rb \<and> pucHead rb \<le> pucRead rb \<and> pucRead rb < pucTail rb
            \<and> pucRead rb = pucFree rb) then None
      else
        let ret = pucRead rb in
        if pucRead rb > pucWrite rb \<or> is_full rb then
          (if xMaxSize = 0 \<or> pucTail rb - pucRead rb \<le> xMaxSize then
             Some (rb\<lparr> xItemsWaiting := xItemsWaiting rb - int (pucTail rb - pucRead rb),
                       pucRead := pucHead rb \<rparr>, ret, pucTail rb - pucRead rb, False)
           else
             Some (rb\<lparr> xItemsWaiting := xItemsWaiting rb - int xMaxSize,
                       pucRead := pucRead rb + xMaxSize \<rparr>, ret, xMaxSize, False))
        else
          (if xMaxSize = 0 \<or> pucWrite rb - pucRead rb \<le> xMaxSize then
             Some (rb\<lparr> xItemsWaiting := xItemsWaiting rb - int (pucWrite rb - pucRead rb),
                       pucRead := pucWrite rb \<rparr>, ret, pucWrite rb - pucRead rb, False)
           else
             Some (rb\<lparr> xItemsWaiting := xItemsWaiting rb - int xMaxSize,
                       pucRead := pucRead rb + xMaxSize \<rparr>, ret, xMaxSize, False)))"

text \<open>
  The loop of \<^verbatim>\<open>prvReturnItemDefault\<close> that advances \<^verbatim>\<open>pucFree\<close>; its first two
  arguments are \<^verbatim>\<open>allow_advance_free_pointer\<close> and \<^verbatim>\<open>freed_any\<close>.
\<close>

partial_function (option) advance_free :: "bool \<Rightarrow> bool \<Rightarrow> Ringbuffer \<Rightarrow> (Ringbuffer \<times> bool) option" where
  "advance_free allow_advance freed_any rb =
     (let f = uxItemFlags (store rb) (pucFree rb) in
      if flag_set f (rbITEM_FREE_FLAG OR rbITEM_DUMMY_DATA_FLAG)
         \<and> (pucFree rb \<noteq> pucRead rb \<or> allow_advance) then
        let rb1 = (if flag_set f rbITEM_DUMMY_DATA_FLAG then
               rb\<lparr> store := set_ItemFlags (store rb) (pucFree rb) (f OR rbITEM_FREE_FLAG),
                   pucFree := pucHead rb \<rparr>
             else
               rb\<lparr> pucFree := pucFree rb
                     + add32 (rbALIGN_SIZE (xItemLen (store rb) (pucFree rb))) rbHEADER_SIZE \<rparr>)
        in if \<not> flag_set f rbITEM_DUMMY_DATA_FLAG \<and> pucHead rb + xSize rb < pucFree rb1 then None
           else advance_free False True
                  (if tail_rem_lt_header rb1 (pucFree rb1)
                   then rb1\<lparr> pucFree := pucHead rb1 \<rparr> else rb1)
      else Some (rb, freed_any))"

definition prvReturnItemDefault :: "Ringbuffer \<Rightarrow> nat \<Rightarrow> Ringbuffer option" where
  "prvReturnItemDefault rb pucItem =
     (if \<not> (rbCHECK_ALIGNED pucItem \<and> pucHead rb \<le> pucItem \<and> pucItem \<le> pucTail rb) then None
      else let h = pucItem - rbHEADER_SIZE; f = uxItemFlags (store rb) h in
        if \<not> (xItemLen (store rb) h \<le> xMaxItemSize rb
              \<and> \<not> flag_set f rbITEM_DUMMY_DATA_FLAG \<and> \<not> flag_set f rbITEM_FREE_FLAG) then None
        else
          let rb1 = rb\<lparr> store := set_ItemFlags (store rb) h
                                ((f AND NOT rbITEM_SPLIT_FLAG) OR rbITEM_FREE_FLAG) \<rparr>
          in case advance_free (is_full rb1 \<or> xItemsWaiting rb1 = 0) False rb1 of
               None \<Rightarrow> None
             | Some (rb2, freed_any) \<Rightarrow>
                 Some (if is_full rb2 \<and> freed_any
                       then rb2\<lparr> uxRingbufferFlags := uxRingbufferFlags rb2 AND NOT rbBUFFER_FULL_FLAG \<rparr>
                       else rb2))"

definition prvReturnItemByteBuf :: "Ringbuffer \<Rightarrow> nat \<Rightarrow> Ringbuffer option" where
  "prvReturnItemByteBuf rb pucItem =
     (if \<not> (pucHead rb \<le> pucItem \<and> pucItem < pucTail rb) then None
      else let rb1 = rb\<lparr> pucFree := pucRead rb \<rparr>
        in Some (if is_full rb1
                 then rb1\<lparr> uxRingbufferFlags := uxRingbufferFlags rb1 AND NOT rbBUFFER_FULL_FLAG \<rparr>
                 else rb1))"

text \<open>
  \<^verbatim>\<open>xFreeSize\<close> is a signed 32-bit integer here; the comparison with
  \<^verbatim>\<open>xMaxItemSize\<close> is made only after the test for a negative value.
\<close>

definition clamp_free_size :: "Ringbuffer \<Rightarrow> int \<Rightarrow> nat" where
  "clamp_free_size rb xFreeSize =
     (if xFreeSize < 0 then 0
      else if xFreeSize > int (xMaxItemSize rb) then xMaxItemSize rb else nat xFreeSize)"

definition prvGetCurMaxSizeNoSplit :: "Ringbuffer \<Rightarrow> nat" where
  "prvGetCurMaxSizeNoSplit rb =
     (if is_full rb then 0
      else
        let xFreeSize =
          (if pucAcquire rb < pucFree rb then pucFree rb - pucAcquire rb
           else let xSize1 = pucTail rb - pucAcquire rb; xSize2 = pucFree rb - pucHead rb
                in if xSize1 > xSize2 then xSize1 else xSize2)
        in clamp_free_size rb (int xFreeSize - int rbHEADER_SIZE))"

definition prvGetCurMaxSizeAllowSplit :: "Ringbuffer \<Rightarrow> nat" where
  "prvGetCurMaxSizeAllowSplit rb =
     (if is_full rb then 0
      else clamp_free_size rb
        (if pucAcquire rb = pucHead rb \<and> pucFree rb = pucHead rb then
           int (xSize rb) - int rbHEADER_SIZE
         else if pucAcquire rb < pucFree rb then
           int (pucFree rb - pucAcquire rb) - int rbHEADER_SIZE
         else int (pucFree rb - pucHead rb) + int (pucTail rb - pucAcquire rb) - int (rbHEADER_SIZE * 2)))"

definition prvGetCurMaxSizeByteBuf :: "Ringbuffer \<Rightarrow> nat" where
  "prvGetCurMaxSizeByteBuf rb =
     (if is_full rb then 0
      else let d = int (pucFree rb) - int (pucAcquire rb)
           in nat (if d \<le> 0 then d + int (xSize rb) else d))"

text \<open>Calls through the function pointers of the control block.\<close>

definition call_CheckItemFits :: "Ringbuffer \<Rightarrow> nat \<Rightarrow> bool option" where
  "call_CheckItemFits rb n = (case xCheckItemFits rb of
       CheckItemFitsDefault \<Rightarrow> prvCheckItemFitsDefault rb n
     | CheckItemFitsByteBuffer \<Rightarrow> prvCheckItemFitsByteBuffer rb n)"

definition call_CopyItem :: "Ringbuffer \<Rightarrow> u8 list \<Rightarrow> Ringbuffer option" where
  "call_CopyItem rb bs = (case vCopyItem rb of
       CopyItemNoSplit \<Rightarrow> prvCopyItemNoSplit rb bs
     | CopyItemAllowSplit \<Rightarrow> prvCopyItemAllowSplit rb bs
     | CopyItemByteBuf \<Rightarrow> prvCopyItemByteBuf rb bs)"

definition call_GetItem :: "Ringbuffer \<Rightarrow> nat \<Rightarrow> got_item option" where
  "call_GetItem rb xMaxSize = (case pvGetItem rb of
       GetItemDefault \<Rightarrow> prvGetItemDefault rb
     | GetItemByteBuf \<Rightarrow> prvGetItemByteBuf rb xMaxSize)"

definition call_ReturnItem :: "Ringbuffer \<Rightarrow> nat \<Rightarrow> Ringbuffer option" where
  "call_ReturnItem rb p = (case vReturnItem rb of
       ReturnItemDefault \<Rightarrow> prvReturnItemDefault rb p
     | ReturnItemByteBuf \<Rightarrow> prvReturnItemByteBuf rb p)"

definition call_GetCurMaxSize :: "Ringbuffer \<Rightarrow> nat" where
  "call_GetCurMaxSize rb = (case xGetCurMaxSize rb of
       GetCurMaxSizeNoSplit \<Rightarrow> prvGetCurMaxSizeNoSplit rb
     | GetCurMaxSizeAllowSplit \<Rightarrow> prvGetCurMaxSizeAllowSplit rb
     | GetCurMaxSizeByteBuf \<Rightarrow> prvGetCurMaxSizeByteBuf rb)"

end
