(* ===== verification/Ringbuf_Api.thy ===== *)
theory Ringbuf_Api
  imports Ringbuf
begin

text \<open>
  The public functions of \<^verbatim>\<open>ringbuf.c\<close> and the two generic blocking routines behind
  them. Definitions only.

  A call yields an \<open>outcome\<close>: a failed assertion, still waiting at the end of the given
  \<open>wake\<close> list, or the value the function returns together with the new state.
  \<open>sent\<close> and \<open>received\<close> collect what the C functions return through pointers: the
  acquired address, the queue set that is notified after the critical section, and whether
  the call yields (or sets \<^verbatim>\<open>*pxHigherPriorityTaskWoken\<close>).
\<close>

record kernel =
  place_on_event_list :: "nat \<Rightarrow> nat list \<Rightarrow> nat list"
  preempts :: "nat \<Rightarrow> bool"

datatype wake = TimedOut | Resumed "Ringbuffer \<Rightarrow> Ringbuffer"

datatype 'a outcome = AssertFailed | StillBlocked | Returned 'a

datatype send_req = SendItem "u8 list" | AcquireItem nat

record sent =
  sent_rb :: Ringbuffer
  sent_ok :: bool
  sent_ptr :: "nat option"
  sent_notify :: "nat option"
  sent_yield :: bool

record received =
  recv_rb :: Ringbuffer
  recv_ok :: bool
  recv_item1 :: "(nat \<times> nat) option"
  recv_item2 :: "(nat \<times> nat) option"

section \<open>Generic send and receive\<close>

text \<open>\<^verbatim>\<open>listLIST_IS_EMPTY\<close>, then \<^verbatim>\<open>xTaskRemoveFromEventList\<close> on the highest-priority waiter.\<close>

definition unblock_first :: "kernel \<Rightarrow> nat list \<Rightarrow> nat list \<times> bool" where
  "unblock_first k ts = (case ts of [] \<Rightarrow> ([], False) | t # ts' \<Rightarrow> (ts', preempts k t))"

text \<open>
  What follows a copied item: a queue set is notified after the critical section, otherwise
  the first task waiting to receive is unblocked.
\<close>

definition notify_receivers :: "kernel \<Rightarrow> Ringbuffer \<Rightarrow> sent" where
  "notify_receivers k rb =
     (case xQueueSet rb of
        Some q \<Rightarrow> \<lparr> sent_rb = rb, sent_ok = True, sent_ptr = None, sent_notify = Some q, sent_yield = False \<rparr>
      | None \<Rightarrow>
          let (ts, y) = unblock_first k (xTasksWaitingToReceive rb)
          in \<lparr> sent_rb = rb\<lparr> xTasksWaitingToReceive := ts \<rparr>, sent_ok = True, sent_ptr = None,
               sent_notify = None, sent_yield = y \<rparr>)"

definition not_sent :: "Ringbuffer \<Rightarrow> sent" where
  "not_sent rb = \<lparr> sent_rb = rb, sent_ok = False, sent_ptr = None, sent_notify = None, sent_yield = False \<rparr>"

fun req_size :: "send_req \<Rightarrow> nat" where
  "req_size (SendItem bs) = length bs"
| "req_size (AcquireItem n) = n"

definition perform_send :: "kernel \<Rightarrow> Ringbuffer \<Rightarrow> send_req \<Rightarrow> sent outcome" where
  "perform_send k rb req =
     (case req of
        AcquireItem n \<Rightarrow>
          (case prvAcquireItemNoSplit rb n of None \<Rightarrow> AssertFailed
           | Some (rb', p) \<Rightarrow> Returned \<lparr> sent_rb = rb', sent_ok = True, sent_ptr = Some p,
                                        sent_notify = None, sent_yield = False \<rparr>)
      | SendItem bs \<Rightarrow>
          (case call_CopyItem rb bs of None \<Rightarrow> AssertFailed
           | Some rb' \<Rightarrow> Returned (notify_receivers k rb')))"

text \<open>
  The loop of \<^verbatim>\<open>prvSendAcquireGeneric\<close>. \<^verbatim>\<open>xTaskCheckForTimeOut\<close> reports a timeout or
  leaves a positive number of ticks, so the test for a zero block time is decided by the
  argument the function was called with.
\<close>

fun prvSendAcquireGeneric ::
    "kernel \<Rightarrow> nat \<Rightarrow> Ringbuffer \<Rightarrow> send_req \<Rightarrow> nat \<Rightarrow> wake list \<Rightarrow> sent outcome" where
  "prvSendAcquireGeneric k task rb req xTicksToWait env =
     (case call_CheckItemFits rb (req_size req) of
        None \<Rightarrow> AssertFailed
      | Some True \<Rightarrow> perform_send k rb req
      | Some False \<Rightarrow>
          if xTicksToWait = 0 then Returned (not_sent rb)
          else (case env of
                  [] \<Rightarrow> StillBlocked
                | TimedOut # _ \<Rightarrow> Returned (not_sent rb)
                | Resumed others # env' \<Rightarrow>
                    prvSendAcquireGeneric k task
                      (others (rb\<lparr> xTasksWaitingToSend :=
                                     place_on_event_list k task (xTasksWaitingToSend rb) \<rparr>))
                      req xTicksToWait env'))"

declare prvSendAcquireGeneric.simps [simp del]

text \<open>The body of the critical section of both receive routines.\<close>

definition retrieve_items :: "Ringbuffer \<Rightarrow> nat \<Rightarrow> received option" where
  "retrieve_items rb xMaxSize =
     (case call_GetItem rb (if flag_set (uxRingbufferFlags rb) rbBYTE_BUFFER_FLAG then xMaxSize else 0) of
        None \<Rightarrow> None
      | Some (rb1, p1, n1, xIsSplit) \<Rightarrow>
          if flag_set (uxRingbufferFlags rb1) rbALLOW_SPLIT_FLAG \<and> xIsSplit then
            (case call_GetItem rb1 0 of
               None \<Rightarrow> None
             | Some (rb2, p2, n2, split2) \<Rightarrow>
                 if p2 < p1 \<and> \<not> split2
                 then Some \<lparr> recv_rb = rb2, recv_ok = True, recv_item1 = Some (p1, n1), recv_item2 = Some (p2, n2) \<rparr>
                 else None)
          else Some \<lparr> recv_rb = rb1, recv_ok = True, recv_item1 = Some (p1, n1), recv_item2 = None \<rparr>)"

definition not_received :: "Ringbuffer \<Rightarrow> received" where
  "not_received rb = \<lparr> recv_rb = rb, recv_ok = False, recv_item1 = None, recv_item2 = None \<rparr>"

definition outcome_of :: "'a option \<Rightarrow> 'a outcome" where
  "outcome_of r = (case r of None \<Rightarrow> AssertFailed | Some x \<Rightarrow> Returned x)"

fun prvReceiveGeneric ::
    "kernel \<Rightarrow> nat \<Rightarrow> Ringbuffer \<Rightarrow> nat \<Rightarrow> nat \<Rightarrow> wake list \<Rightarrow> received outcome" where
  "prvReceiveGeneric k task rb xMaxSize xTicksToWait env =
     (if prvCheckItemAvail rb then outcome_of (retrieve_items rb xMaxSize)
      else if xTicksToWait = 0 then Returned (not_received rb)
      else (case env of
              [] \<Rightarrow> StillBlocked
            | TimedOut # _ \<Rightarrow> Returned (not_received rb)
            | Resumed others # env' \<Rightarrow>
                prvReceiveGeneric k task
                  (others (rb\<lparr> xTasksWaitingToReceive :=
                                 place_on_event_list k task (xTasksWaitingToReceive rb) \<rparr>))
                  xMaxSize xTicksToWait env'))"

declare prvReceiveGeneric.simps [simp del]

definition prvReceiveGenericFromISR :: "Ringbuffer \<Rightarrow> nat \<Rightarrow> received outcome" where
  "prvReceiveGenericFromISR rb xMaxSize =
     (if prvCheckItemAvail rb then outcome_of (retrieve_items rb xMaxSize)
      else Returned (not_received rb))"

section \<open>Creation and deletion\<close>

text \<open>
  The allocator is a parameter: the addresses it returns for the control block and for the
  storage, \<open>None\<close> for \<^verbatim>\<open>NULL\<close>. \<open>Returned None\<close> is the \<^verbatim>\<open>NULL\<close> handle; the list
  holds the addresses that are freed.
\<close>

definition xRingbufferCreate ::
    "nat option \<Rightarrow> nat option \<Rightarrow> memory \<Rightarrow> nat \<Rightarrow> RingbufferType \<Rightarrow> (Ringbuffer option \<times> nat list) outcome" where
  "xRingbufferCreate pxNew pucStorage m xBufferSize xBufferType =
     (if \<not> (xBufferSize > 0 \<and> xBufferType \<noteq> RINGBUF_TYPE_MAX) then AssertFailed
      else
        let sz = (if xBufferType \<noteq> RINGBUF_TYPE_BYTEBUF then rbALIGN_SIZE xBufferSize else xBufferSize)
        in case (pxNew, pucStorage) of
             (Some _, Some st) \<Rightarrow> Returned (Some (prvInitializeNewRingbuffer sz xBufferType st m), [])
           | (pn, ps) \<Rightarrow> Returned (None, (case pn of Some a \<Rightarrow> [a] | None \<Rightarrow> []) @
                                         (case ps of Some a \<Rightarrow> [a] | None \<Rightarrow> [])))"

definition xRingbufferCreateNoSplit ::
    "nat option \<Rightarrow> nat option \<Rightarrow> memory \<Rightarrow> nat \<Rightarrow> nat \<Rightarrow> (Ringbuffer option \<times> nat list) outcome" where
  "xRingbufferCreateNoSplit pxNew pucStorage m xItemSize xItemNum =
     xRingbufferCreate pxNew pucStorage m
       (mul32 (add32 (rbALIGN_SIZE xItemSize) rbHEADER_SIZE) xItemNum) RINGBUF_TYPE_NOSPLIT"

definition xRingbufferCreateStatic ::
    "nat \<Rightarrow> RingbufferType \<Rightarrow> nat option \<Rightarrow> nat option \<Rightarrow> memory \<Rightarrow> Ringbuffer outcome" where
  "xRingbufferCreateStatic xBufferSize xBufferType pucStorage pxStatic m =
     (case (pucStorage, pxStatic) of
        (Some st, Some _) \<Rightarrow>
          if \<not> (xBufferSize > 0 \<and> xBufferType \<noteq> RINGBUF_TYPE_MAX
                \<and> (xBufferType \<noteq> RINGBUF_TYPE_BYTEBUF \<longrightarrow> rbCHECK_ALIGNED xBufferSize))
          then AssertFailed
          else let rb = prvInitializeNewRingbuffer xBufferSize xBufferType st m
               in Returned (rb\<lparr> uxRingbufferFlags := uxRingbufferFlags rb OR rbBUFFER_STATIC_FLAG \<rparr>)
      | _ \<Rightarrow> AssertFailed)"

definition vRingbufferDelete :: "nat \<Rightarrow> Ringbuffer \<Rightarrow> nat list" where
  "vRingbufferDelete pxRingbuffer rb =
     (if \<not> flag_set (uxRingbufferFlags rb) rbBUFFER_STATIC_FLAG then [pucHead rb, pxRingbuffer] else [])"

definition xRingbufferGetStaticBuffer :: "nat \<Rightarrow> Ringbuffer \<Rightarrow> (nat \<times> nat) option" where
  "xRingbufferGetStaticBuffer pxRingbuffer rb =
     (if flag_set (uxRingbufferFlags rb) rbBUFFER_STATIC_FLAG then Some (pucHead rb, pxRingbuffer) else None)"

definition xRingbufferCreateWithCaps ::
    "nat option \<Rightarrow> nat option \<Rightarrow> memory \<Rightarrow> nat \<Rightarrow> RingbufferType \<Rightarrow> (Ringbuffer option \<times> nat list) outcome" where
  "xRingbufferCreateWithCaps pxStatic pucStorage m xBufferSize xBufferType =
     (let sz = (if xBufferType \<noteq> RINGBUF_TYPE_BYTEBUF then rbALIGN_SIZE xBufferSize else xBufferSize)
      in case (pxStatic, pucStorage) of
           (Some ps, Some st) \<Rightarrow>
             (case xRingbufferCreateStatic sz xBufferType (Some st) (Some ps) m of
                Returned rb \<Rightarrow> Returned (Some rb, [])
              | AssertFailed \<Rightarrow> AssertFailed
              | StillBlocked \<Rightarrow> StillBlocked)
         | (pn, ps) \<Rightarrow> Returned (None, (case pn of Some a \<Rightarrow> [a] | None \<Rightarrow> []) @
                                       (case ps of Some a \<Rightarrow> [a] | None \<Rightarrow> [])))"

definition vRingbufferDeleteWithCaps :: "nat \<Rightarrow> Ringbuffer \<Rightarrow> nat list outcome" where
  "vRingbufferDeleteWithCaps pxRingbuffer rb =
     (case xRingbufferGetStaticBuffer pxRingbuffer rb of
        None \<Rightarrow> AssertFailed
      | Some (st, ps) \<Rightarrow> Returned (vRingbufferDelete pxRingbuffer rb @ [ps, st]))"

section \<open>Sending\<close>

definition xRingbufferSendAcquire ::
    "kernel \<Rightarrow> nat \<Rightarrow> Ringbuffer \<Rightarrow> nat \<Rightarrow> nat \<Rightarrow> wake list \<Rightarrow> sent outcome" where
  "xRingbufferSendAcquire k task rb xItemSize xTicksToWait env =
     (if flag_set (uxRingbufferFlags rb) (rbBYTE_BUFFER_FLAG OR rbALLOW_SPLIT_FLAG) then AssertFailed
      else if xItemSize > xMaxItemSize rb then Returned (not_sent rb)
      else prvSendAcquireGeneric k task rb (AcquireItem xItemSize) xTicksToWait env)"

definition xRingbufferSendComplete :: "kernel \<Rightarrow> Ringbuffer \<Rightarrow> nat \<Rightarrow> sent outcome" where
  "xRingbufferSendComplete k rb pvItem =
     (if flag_set (uxRingbufferFlags rb) (rbBYTE_BUFFER_FLAG OR rbALLOW_SPLIT_FLAG) then AssertFailed
      else case prvSendItemDoneNoSplit rb pvItem of
             None \<Rightarrow> AssertFailed
           | Some rb' \<Rightarrow> Returned (notify_receivers k rb'))"

definition xRingbufferSend ::
    "kernel \<Rightarrow> nat \<Rightarrow> Ringbuffer \<Rightarrow> u8 list \<Rightarrow> nat \<Rightarrow> wake list \<Rightarrow> sent outcome" where
  "xRingbufferSend k task rb pvItem xTicksToWait env =
     (if length pvItem > xMaxItemSize rb then Returned (not_sent rb)
      else if flag_set (uxRingbufferFlags rb) rbBYTE_BUFFER_FLAG \<and> length pvItem = 0
      then Returned ((not_sent rb)\<lparr> sent_ok := True \<rparr>)
      else prvSendAcquireGeneric k task rb (SendItem pvItem) xTicksToWait env)"

definition xRingbufferSendFromISR :: "kernel \<Rightarrow> Ringbuffer \<Rightarrow> u8 list \<Rightarrow> sent outcome" where
  "xRingbufferSendFromISR k rb pvItem =
     (if length pvItem > xMaxItemSize rb then Returned (not_sent rb)
      else if flag_set (uxRingbufferFlags rb) rbBYTE_BUFFER_FLAG \<and> length pvItem = 0
      then Returned ((not_sent rb)\<lparr> sent_ok := True \<rparr>)
      else case call_CheckItemFits rb (length pvItem) of
             None \<Rightarrow> AssertFailed
           | Some False \<Rightarrow> Returned (not_sent rb)
           | Some True \<Rightarrow>
               (case call_CopyItem rb pvItem of
                  None \<Rightarrow> AssertFailed
                | Some rb' \<Rightarrow> Returned (notify_receivers k rb')))"

section \<open>Receiving and returning\<close>

definition xRingbufferReceive ::
    "kernel \<Rightarrow> nat \<Rightarrow> Ringbuffer \<Rightarrow> nat \<Rightarrow> wake list \<Rightarrow> received outcome" where
  "xRingbufferReceive k task rb xTicksToWait env =
     (if flag_set (uxRingbufferFlags rb) rbALLOW_SPLIT_FLAG then AssertFailed
      else prvReceiveGeneric k task rb 0 xTicksToWait env)"

definition xRingbufferReceiveFromISR :: "Ringbuffer \<Rightarrow> received outcome" where
  "xRingbufferReceiveFromISR rb =
     (if flag_set (uxRingbufferFlags rb) rbALLOW_SPLIT_FLAG then AssertFailed
      else prvReceiveGenericFromISR rb 0)"

definition xRingbufferReceiveSplit ::
    "kernel \<Rightarrow> nat \<Rightarrow> Ringbuffer \<Rightarrow> nat \<Rightarrow> wake list \<Rightarrow> received outcome" where
  "xRingbufferReceiveSplit k task rb xTicksToWait env =
     (if \<not> flag_set (uxRingbufferFlags rb) rbALLOW_SPLIT_FLAG then AssertFailed
      else prvReceiveGeneric k task rb 0 xTicksToWait env)"

definition xRingbufferReceiveSplitFromISR :: "Ringbuffer \<Rightarrow> received outcome" where
  "xRingbufferReceiveSplitFromISR rb =
     (if \<not> flag_set (uxRingbufferFlags rb) rbALLOW_SPLIT_FLAG then AssertFailed
      else prvReceiveGenericFromISR rb 0)"

definition xRingbufferReceiveUpTo ::
    "kernel \<Rightarrow> nat \<Rightarrow> Ringbuffer \<Rightarrow> nat \<Rightarrow> nat \<Rightarrow> wake list \<Rightarrow> received outcome" where
  "xRingbufferReceiveUpTo k task rb xTicksToWait xMaxSize env =
     (if \<not> flag_set (uxRingbufferFlags rb) rbBYTE_BUFFER_FLAG then AssertFailed
      else if xMaxSize = 0 then Returned (not_received rb)
      else prvReceiveGeneric k task rb xMaxSize xTicksToWait env)"

definition xRingbufferReceiveUpToFromISR :: "Ringbuffer \<Rightarrow> nat \<Rightarrow> received outcome" where
  "xRingbufferReceiveUpToFromISR rb xMaxSize =
     (if \<not> flag_set (uxRingbufferFlags rb) rbBYTE_BUFFER_FLAG then AssertFailed
      else if xMaxSize = 0 then Returned (not_received rb)
      else prvReceiveGenericFromISR rb xMaxSize)"

text \<open>
  \<^verbatim>\<open>vRingbufferReturnItem\<close> and its interrupt variant differ only in what they do with the
  flag that an unblocked task preempts: yield, or set \<^verbatim>\<open>*pxHigherPriorityTaskWoken\<close>.
\<close>

definition vRingbufferReturnItem :: "kernel \<Rightarrow> Ringbuffer \<Rightarrow> nat \<Rightarrow> (Ringbuffer \<times> bool) outcome" where
  "vRingbufferReturnItem k rb pvItem =
     (case call_ReturnItem rb pvItem of
        None \<Rightarrow> AssertFailed
      | Some rb' \<Rightarrow>
          let (ts, y) = unblock_first k (xTasksWaitingToSend rb')
          in Returned (rb'\<lparr> xTasksWaitingToSend := ts \<rparr>, y))"

definition vRingbufferReturnItemFromISR ::
    "kernel \<Rightarrow> Ringbuffer \<Rightarrow> nat \<Rightarrow> bool option \<Rightarrow> (Ringbuffer \<times> bool option) outcome" where
  "vRingbufferReturnItemFromISR k rb pvItem pxHigherPriorityTaskWoken =
     (case call_ReturnItem rb pvItem of
        None \<Rightarrow> AssertFailed
      | Some rb' \<Rightarrow>
          let (ts, y) = unblock_first k (xTasksWaitingToSend rb')
          in Returned (rb'\<lparr> xTasksWaitingToSend := ts \<rparr>,
                       map_option (\<lambda>w. if y then True else w) pxHigherPriorityTaskWoken))"

section \<open>Queries and queue sets\<close>

definition xRingbufferGetMaxItemSize :: "Ringbuffer \<Rightarrow> nat" where
  "xRingbufferGetMaxItemSize rb = xMaxItemSize rb"

definition xRingbufferGetCurFreeSize :: "Ringbuffer \<Rightarrow> nat" where
  "xRingbufferGetCurFreeSize rb = call_GetCurMaxSize rb"

definition xRingbufferAddToQueueSetRead :: "Ringbuffer \<Rightarrow> nat \<Rightarrow> Ringbuffer \<times> bool" where
  "xRingbufferAddToQueueSetRead rb qs =
     (if xQueueSet rb \<noteq> None \<or> prvCheckItemAvail rb then (rb, False)
      else (rb\<lparr> xQueueSet := Some qs \<rparr>, True))"

definition xRingbufferRemoveFromQueueSetRead :: "Ringbuffer \<Rightarrow> nat \<Rightarrow> Ringbuffer \<times> bool" where
  "xRingbufferRemoveFromQueueSetRead rb qs =
     (if xQueueSet rb \<noteq> Some qs \<or> prvCheckItemAvail rb then (rb, False)
      else (rb\<lparr> xQueueSet := None \<rparr>, True))"

definition vRingbufferGetInfo :: "Ringbuffer \<Rightarrow> nat \<times> nat \<times> nat \<times> nat \<times> int" where
  "vRingbufferGetInfo rb =
     (pucFree rb - pucHead rb, pucRead rb - pucHead rb, pucWrite rb - pucHead rb,
      pucAcquire rb - pucHead rb, xItemsWaiting rb)"

section \<open>The non-blocking client view\<close>

text \<open>
  Calls with a zero block time, as a client of the queue sees them: whether the item was
  accepted, the bytes that were handed out (none when nothing is available), and giving an
  item back. \<open>recv_now\<close> uses \<^verbatim>\<open>xRingbufferReceiveUpTo\<close> when a limit is given.
\<close>

definition send_now :: "kernel \<Rightarrow> nat \<Rightarrow> Ringbuffer \<Rightarrow> u8 list \<Rightarrow> (Ringbuffer \<times> bool) option" where
  "send_now k task rb bs =
     (case xRingbufferSend k task rb bs 0 [] of
        Returned r \<Rightarrow> Some (sent_rb r, sent_ok r) | _ \<Rightarrow> None)"

definition item_bytes :: "received \<Rightarrow> u8 list" where
  "item_bytes r = (case recv_item1 r of None \<Rightarrow> [] | Some (p, n) \<Rightarrow> rd_bytes (store (recv_rb r)) p n)"

definition recv_now :: "kernel \<Rightarrow> nat \<Rightarrow> Ringbuffer \<Rightarrow> nat \<Rightarrow> (Ringbuffer \<times> u8 list) option" where
  "recv_now k task rb xMaxSize =
     (case (if xMaxSize = 0 then xRingbufferReceive k task rb 0 []
            else xRingbufferReceiveUpTo k task rb 0 xMaxSize []) of
        Returned r \<Rightarrow> Some (recv_rb r, item_bytes r) | _ \<Rightarrow> None)"

definition return_now :: "kernel \<Rightarrow> Ringbuffer \<Rightarrow> nat \<Rightarrow> Ringbuffer option" where
  "return_now k rb p = (case vRingbufferReturnItem k rb p of Returned r \<Rightarrow> Some (fst r) | _ \<Rightarrow> None)"

end
