(* ===== verification/Fifo.thy ===== *)
theory Fifo
  imports Prelude
begin

text \<open>
  Two interfaces that the ring buffer proofs share. First, circular reads of a byte array:
  the bytes at \<open>n\<close> successive positions of a ring. Second, the contract of a bounded
  queue whose consumer borrows what it receives and gives it back later, as a locale: its
  client lemma says that along any sequence of calls, what was queued at the start followed
  by everything that was sent is what was received followed by what is queued at the end.
\<close>

section \<open>Circular reads\<close>

text \<open>The position \<open>x\<close> of a ring of size \<open>s\<close>, for \<open>x < 2 * s\<close>.\<close>

definition wrap :: "nat \<Rightarrow> nat \<Rightarrow> nat" where
  "wrap s x = (if x < s then x else x - s)"

lemma wrap_less: "x < 2 * s \<Longrightarrow> wrap s x < s"
  by (auto simp: wrap_def)

lemma wrap_shift:
  assumes "wrap s (r + w) = a" and "r < s" and "w + n \<le> s"
  shows "wrap s (a + n) = wrap s (r + (w + n))"
  using assms by (auto simp: wrap_def split: if_splits)

text \<open>
  A window of \<open>d \<le> s\<close> positions that starts at \<open>f\<close> and ends before \<open>a\<close>: how the length of
  the window follows from the two positions.
\<close>

lemma wrap_window:
  assumes "wrap s (f + d) = a" and "f < s" and "d \<le> s"
  shows "a = f \<longleftrightarrow> d = 0 \<or> d = s" and "a < f \<Longrightarrow> s - d = f - a" and "f < a \<Longrightarrow> d = a - f"
  using assms by (auto simp: wrap_def split: if_splits)

lemma wrap_trans:
  assumes "wrap s (f + h) = r" and "wrap s (r + w) = a" and "f < s" and "h + w \<le> s"
  shows "wrap s (f + (h + w)) = a"
  using assms by (auto simp: wrap_def split: if_splits)

lemma wrap_diff:
  assumes "r < s" and "f < s"
  shows "wrap s (f + wrap s (r + (s - f))) = r" and "wrap s (r + (s - f)) < s"
  using assms by (auto simp: wrap_def)

definition ring_bytes :: "memory \<Rightarrow> nat \<Rightarrow> nat \<Rightarrow> nat \<Rightarrow> nat \<Rightarrow> u8 list" where
  "ring_bytes m b s off n = map (\<lambda>i. m (b + wrap s (off + i))) [0..<n]"

lemma length_ring_bytes [simp]: "length (ring_bytes m b s off n) = n"
  by (simp add: ring_bytes_def)

lemma ring_bytes_0 [simp]: "ring_bytes m b s off 0 = []"
  by (simp add: ring_bytes_def)

lemma ring_bytes_cong:
  "(\<And>i. i < n \<Longrightarrow> m (b + wrap s (off + i)) = m' (b + wrap s (off + i))) \<Longrightarrow>
   ring_bytes m b s off n = ring_bytes m' b s off n"
  by (simp add: ring_bytes_def)

lemma ring_bytes_contiguous:
  "off + n \<le> s \<Longrightarrow> ring_bytes m b s off n = rd_bytes m (b + off) n"
  by (rule nth_equalityI) (simp_all add: ring_bytes_def rd_bytes_def wrap_def add.assoc)

lemma ring_bytes_split:
  assumes "off < s" and "n + k \<le> s"
  shows "ring_bytes m b s off (n + k) = ring_bytes m b s off n @ ring_bytes m b s (wrap s (off + n)) k"
proof (rule nth_equalityI)
  fix i assume "i < length (ring_bytes m b s off (n + k))"
  then have i: "i < n + k" by simp
  show "ring_bytes m b s off (n + k) ! i =
      (ring_bytes m b s off n @ ring_bytes m b s (wrap s (off + n)) k) ! i"
  proof (cases "i < n")
    case True
    with i show ?thesis by (simp add: ring_bytes_def nth_append)
  next
    case False
    then have "wrap s (off + i) = wrap s (wrap s (off + n) + (i - n))"
      using i assms by (auto simp: wrap_def)
    moreover have "i - n < k" using False i by simp
    ultimately show ?thesis using False i by (simp add: ring_bytes_def nth_append)
  qed
qed simp

text \<open>Writing one contiguous chunk right behind the \<open>n\<close> queued bytes appends it.\<close>

lemma ring_bytes_append_chunk:
  assumes off: "off < s" and fits: "n + length c \<le> s"
    and nowrap: "wrap s (off + n) + length c \<le> s"
  shows "ring_bytes (wr_bytes m (b + wrap s (off + n)) c) b s off (n + length c)
    = ring_bytes m b s off n @ c"
proof -
  let ?a = "wrap s (off + n)" let ?m = "wr_bytes m (b + wrap s (off + n)) c"
  have "ring_bytes ?m b s off n = ring_bytes m b s off n"
  proof (rule ring_bytes_cong)
    fix i assume "i < n"
    then have "wrap s (off + i) < ?a \<or> ?a + length c \<le> wrap s (off + i)"
      using off fits nowrap by (auto simp: wrap_def split: if_splits)
    then show "?m (b + wrap s (off + i)) = m (b + wrap s (off + i))"
      by (intro wr_bytes_outside) auto
  qed
  moreover have "ring_bytes ?m b s ?a (length c) = c"
    using nowrap by (simp add: ring_bytes_contiguous rd_wr_bytes)
  ultimately show ?thesis
    using ring_bytes_split [OF off fits] by simp
qed

section \<open>The borrow queue interface\<close>

datatype ('x, 'a, 'r) fifo_op = Send 'x | Recv 'a | Release 'r

text \<open>
  \<open>run_fifo\<close> executes a sequence of calls and collects the elements that were accepted and
  the elements that were handed out, in order. \<open>None\<close> if some call fails an assertion.
\<close>

fun run_fifo ::
    "('s \<Rightarrow> 'x \<Rightarrow> ('s \<times> bool) option) \<Rightarrow> ('s \<Rightarrow> 'a \<Rightarrow> ('s \<times> 'e list) option) \<Rightarrow>
     ('s \<Rightarrow> 'r \<Rightarrow> 's option) \<Rightarrow> ('x \<Rightarrow> 'e list) \<Rightarrow> 's \<Rightarrow> ('x, 'a, 'r) fifo_op list \<Rightarrow>
     ('s \<times> 'e list \<times> 'e list) option" where
  "run_fifo send recv release payload s [] = Some (s, [], [])"
| "run_fifo send recv release payload s (Send x # ops) =
     (case send s x of None \<Rightarrow> None
      | Some (s1, ok) \<Rightarrow>
          (case run_fifo send recv release payload s1 ops of None \<Rightarrow> None
           | Some (s2, ins, outs) \<Rightarrow> Some (s2, (if ok then payload x else []) @ ins, outs)))"
| "run_fifo send recv release payload s (Recv a # ops) =
     (case recv s a of None \<Rightarrow> None
      | Some (s1, es) \<Rightarrow>
          (case run_fifo send recv release payload s1 ops of None \<Rightarrow> None
           | Some (s2, ins, outs) \<Rightarrow> Some (s2, ins, es @ outs)))"
| "run_fifo send recv release payload s (Release r # ops) =
     (case release s r of None \<Rightarrow> None
      | Some s1 \<Rightarrow> run_fifo send recv release payload s1 ops)"

text \<open>A sequence of calls in which only borrowed elements are given back.\<close>

fun well_used ::
    "('s \<Rightarrow> 'x \<Rightarrow> ('s \<times> bool) option) \<Rightarrow> ('s \<Rightarrow> 'a \<Rightarrow> ('s \<times> 'e list) option) \<Rightarrow>
     ('s \<Rightarrow> 'r \<Rightarrow> 's option) \<Rightarrow> ('s \<Rightarrow> 'r \<Rightarrow> bool) \<Rightarrow> 's \<Rightarrow> ('x, 'a, 'r) fifo_op list \<Rightarrow> bool" where
  "well_used send recv release borrowed s [] = True"
| "well_used send recv release borrowed s (Send x # ops) =
     (case send s x of None \<Rightarrow> True
      | Some (s', _) \<Rightarrow> well_used send recv release borrowed s' ops)"
| "well_used send recv release borrowed s (Recv a # ops) =
     (case recv s a of None \<Rightarrow> True
      | Some (s', _) \<Rightarrow> well_used send recv release borrowed s' ops)"
| "well_used send recv release borrowed s (Release r # ops) =
     (borrowed s r \<and> (case release s r of None \<Rightarrow> True
                      | Some s' \<Rightarrow> well_used send recv release borrowed s' ops))"

locale borrow_queue =
  fixes inv :: "'s \<Rightarrow> bool" and queue :: "'s \<Rightarrow> 'e list"
    and send :: "'s \<Rightarrow> 'x \<Rightarrow> ('s \<times> bool) option" and payload :: "'x \<Rightarrow> 'e list"
    and recv :: "'s \<Rightarrow> 'a \<Rightarrow> ('s \<times> 'e list) option"
    and release :: "'s \<Rightarrow> 'r \<Rightarrow> 's option" and borrowed :: "'s \<Rightarrow> 'r \<Rightarrow> bool"
  assumes send_ok: "inv s \<Longrightarrow> \<exists>s' b. send s x = Some (s', b) \<and> inv s' \<and>
      queue s' = (if b then queue s @ payload x else queue s)"
    and recv_ok: "inv s \<Longrightarrow> \<exists>s' es. recv s a = Some (s', es) \<and> inv s' \<and> queue s = es @ queue s'"
    and release_ok: "inv s \<Longrightarrow> borrowed s r \<Longrightarrow>
      \<exists>s'. release s r = Some s' \<and> inv s' \<and> queue s' = queue s"
begin

lemma run_conserves:
  "inv s \<Longrightarrow> well_used send recv release borrowed s ops \<Longrightarrow>
   \<exists>s' ins outs. run_fifo send recv release payload s ops = Some (s', ins, outs) \<and> inv s' \<and>
     queue s @ ins = outs @ queue s'"
proof (induction ops arbitrary: s)
  case Nil
  then show ?case by simp
next
  case (Cons op ops)
  show ?case
  proof (cases op)
    case (Send x)
    obtain s1 b where 1: "send s x = Some (s1, b)" "inv s1"
        "queue s1 = (if b then queue s @ payload x else queue s)"
      using send_ok [OF Cons.prems(1)] by blast
    have "well_used send recv release borrowed s1 ops" using Cons.prems(2) Send 1(1) by simp
    from Cons.IH [OF 1(2) this] show ?thesis
      using Send 1 by (cases b) auto
  next
    case (Recv a)
    obtain s1 es where 1: "recv s a = Some (s1, es)" "inv s1" "queue s = es @ queue s1"
      using recv_ok [OF Cons.prems(1)] by blast
    have "well_used send recv release borrowed s1 ops" using Cons.prems(2) Recv 1(1) by simp
    from Cons.IH [OF 1(2) this] show ?thesis
      using Recv 1 by auto
  next
    case (Release r)
    obtain s1 where 1: "release s r = Some s1" "inv s1" "queue s1 = queue s"
      using release_ok [OF Cons.prems(1)] Cons.prems(2) Release by auto
    have "well_used send recv release borrowed s1 ops" using Cons.prems(2) Release 1(1) by simp
    from Cons.IH [OF 1(2) this] show ?thesis
      using Release 1 by auto
  qed
qed

end

end
