(* ===== verification/Ringbuf_Byte.thy ===== *)
theory Ringbuf_Byte
  imports Ringbuf_Api Fifo
begin

text \<open>
  Byte buffers (\<^verbatim>\<open>RINGBUF_TYPE_BYTEBUF\<close>): the invariant of the control block, the queue
  of bytes it represents, and the proof that the public calls implement a bounded FIFO of
  bytes with borrowing, by interpreting \<open>borrow_queue\<close>.
\<close>

section \<open>Invariant and abstraction\<close>

text \<open>Bytes not yet retrieved, and bytes retrieved but not yet returned.\<close>

definition bb_waiting :: "Ringbuffer \<Rightarrow> nat" where
  "bb_waiting rb = nat (xItemsWaiting rb)"

definition bb_held :: "Ringbuffer \<Rightarrow> nat" where
  "bb_held rb =
     (if is_full rb then xSize rb - bb_waiting rb
      else wrap (xSize rb) (pucRead rb - pucHead rb + (xSize rb - (pucFree rb - pucHead rb))))"

definition bb_queue :: "Ringbuffer \<Rightarrow> u8 list" where
  "bb_queue rb = ring_bytes (store rb) (pucHead rb) (xSize rb) (pucRead rb - pucHead rb) (bb_waiting rb)"

definition bb_typed :: "Ringbuffer \<Rightarrow> bool" where
  "bb_typed rb \<longleftrightarrow>
     flag_set (uxRingbufferFlags rb) rbBYTE_BUFFER_FLAG
     \<and> \<not> flag_set (uxRingbufferFlags rb) rbALLOW_SPLIT_FLAG
     \<and> xCheckItemFits rb = CheckItemFitsByteBuffer \<and> vCopyItem rb = CopyItemByteBuf
     \<and> pvGetItem rb = GetItemByteBuf \<and> vReturnItem rb = ReturnItemByteBuf
     \<and> xGetCurMaxSize rb = GetCurMaxSizeByteBuf \<and> xMaxItemSize rb = xSize rb"

definition bb_bounds :: "Ringbuffer \<Rightarrow> bool" where
  "bb_bounds rb \<longleftrightarrow>
     0 < xSize rb \<and> xSize rb < 2 ^ 32 \<and> pucTail rb = pucHead rb + xSize rb
     \<and> pucHead rb \<le> pucFree rb \<and> pucFree rb < pucTail rb
     \<and> pucHead rb \<le> pucRead rb \<and> pucRead rb < pucTail rb
     \<and> pucHead rb \<le> pucAcquire rb \<and> pucAcquire rb < pucTail rb
     \<and> pucWrite rb = pucAcquire rb \<and> 0 \<le> xItemsWaiting rb"

definition bb_inv :: "Ringbuffer \<Rightarrow> bool" where
  "bb_inv rb \<longleftrightarrow> bb_typed rb \<and> bb_bounds rb
     \<and> bb_held rb + bb_waiting rb \<le> xSize rb
     \<and> (is_full rb \<longleftrightarrow> bb_held rb + bb_waiting rb = xSize rb)
     \<and> wrap (xSize rb) (pucFree rb - pucHead rb + bb_held rb) = pucRead rb - pucHead rb
     \<and> wrap (xSize rb) (pucRead rb - pucHead rb + bb_waiting rb) = pucAcquire rb - pucHead rb"

lemmas bb_defs = bb_inv_def bb_typed_def bb_bounds_def bb_held_def bb_waiting_def

lemma flag_full_or [flag_simps]:
  "is_full (rb\<lparr> uxRingbufferFlags := uxRingbufferFlags rb OR rbBUFFER_FULL_FLAG \<rparr>)"
  by (simp add: flag_simps)

lemma bb_inv_init:
  assumes "0 < n" and "n < 2 ^ 32"
  shows "bb_inv (prvInitializeNewRingbuffer n RINGBUF_TYPE_BYTEBUF st m)"
  using assms
  by (simp add: bb_defs prvInitializeNewRingbuffer_def Let_def flag_simps wrap_def)

lemma bb_queue_init: "bb_queue (prvInitializeNewRingbuffer n RINGBUF_TYPE_BYTEBUF st m) = []"
  by (simp add: bb_queue_def bb_waiting_def prvInitializeNewRingbuffer_def Let_def)

section \<open>Sending\<close>

lemma bb_check_fits:
  assumes inv: "bb_inv rb" and n: "0 < n" "n \<le> xSize rb"
  shows "prvCheckItemFitsByteBuffer rb n = Some (n \<le> xSize rb - bb_held rb - bb_waiting rb)"
proof -
  define s f a d where "s = xSize rb" and "f = pucFree rb - pucHead rb"
    and "a = pucAcquire rb - pucHead rb" and "d = bb_held rb + bb_waiting rb"
  have b: "acquire_in_bounds rb" "f < s" "a < s" "s < 2 ^ 32" "d \<le> s" "is_full rb \<longleftrightarrow> d = s"
    and p: "pucFree rb = pucHead rb + f" "pucAcquire rb = pucHead rb + a"
    using inv by (auto simp: bb_inv_def bb_bounds_def acquire_in_bounds_def s_def f_def a_def d_def)
  have w: "wrap s (f + d) = a"
    using inv unfolding d_def
    by (intro wrap_trans) (auto simp: bb_inv_def bb_bounds_def s_def f_def a_def)
  note win = wrap_window [OF w b(2,5)]
  have sub: "sub32 s (a - f) = s - (a - f)"
    using b by (intro sub32_exact) auto
  have goal: "prvCheckItemFitsByteBuffer rb n = Some (n \<le> s - d)"
  proof -
    consider "a = f" | "a < f" | "f < a" by linarith
    then show ?thesis
      using b(1,6) p win sub n s_def
      by cases (auto simp: prvCheckItemFitsByteBuffer_def)
  qed
  then show ?thesis by (simp add: s_def d_def)
qed

text \<open>
  The effect of \<^verbatim>\<open>prvCopyItemByteBuf\<close>: the store gets the item in one or two chunks, the
  acquire and write pointers advance by its length, modulo the size.
\<close>

definition bb_sent :: "Ringbuffer \<Rightarrow> memory \<Rightarrow> nat \<Rightarrow> Ringbuffer" where
  "bb_sent rb m n =
     (let a = pucHead rb + wrap (xSize rb) (pucAcquire rb - pucHead rb + n) in
      rb\<lparr> store := m, xItemsWaiting := xItemsWaiting rb + int n, pucAcquire := a, pucWrite := a,
          uxRingbufferFlags := (if a = pucFree rb then uxRingbufferFlags rb OR rbBUFFER_FULL_FLAG
                                else uxRingbufferFlags rb) \<rparr>)"

lemma finish_byte_copy_at:
  assumes "(if pucAcquire rb = pucTail rb then pucHead rb else pucAcquire rb) = a"
  shows "finish_byte_copy rb =
      rb\<lparr> pucAcquire := a, pucWrite := a,
          uxRingbufferFlags := (if a = pucFree rb then uxRingbufferFlags rb OR rbBUFFER_FULL_FLAG
                                else uxRingbufferFlags rb) \<rparr>"
  unfolding assms [symmetric] by (simp add: finish_byte_copy_def mark_full_def Let_def)

lemma bb_copy_effect:
  assumes inv: "bb_inv rb" and room: "bs \<noteq> []" "length bs \<le> xSize rb - bb_held rb - bb_waiting rb"
  obtains m where "prvCopyItemByteBuf rb bs = Some (bb_sent rb m (length bs))"
    and "ring_bytes m (pucHead rb) (xSize rb) (pucRead rb - pucHead rb)
           (bb_waiting rb + length bs) = bb_queue rb @ bs"
proof -
  define s h r w a l where "s = xSize rb" and "h = pucHead rb" and "r = pucRead rb - pucHead rb"
    and "w = bb_waiting rb" and "a = pucAcquire rb - pucHead rb" and "l = length bs"
  have ab: "acquire_in_bounds rb" and b: "r < s" "a < s" "w + l \<le> s" "l \<le> s"
    and p: "pucTail rb = h + s" "pucAcquire rb = h + a"
    using inv room
    by (auto simp: bb_inv_def bb_bounds_def acquire_in_bounds_def s_def h_def r_def w_def a_def l_def)
  have wa: "wrap s (r + w) = a" using inv by (simp add: bb_inv_def s_def r_def w_def a_def)
  have q: "bb_queue rb = ring_bytes (store rb) h s r w"
    by (simp add: bb_queue_def s_def h_def r_def w_def)
  show ?thesis
  proof (cases "s - a < l")
    case False
    let ?m = "wr_bytes (store rb) (h + a) bs"
    have "ring_bytes ?m h s r (w + l) = bb_queue rb @ bs"
      using ring_bytes_append_chunk [of r s w bs "store rb" h] False wa b q l_def by simp
    moreover have "prvCopyItemByteBuf rb bs = Some (bb_sent rb ?m l)"
    proof -
      have fin: "a + l = s \<Longrightarrow> wrap s s = 0" "a + l \<noteq> s \<Longrightarrow> wrap s (a + l) = a + l"
        using False b by (auto simp: wrap_def)
      have "finish_byte_copy (put_bytes rb bs) = bb_sent rb ?m l"
        by (subst finish_byte_copy_at [where a = "h + wrap s (a + l)"])
          (simp_all add: put_bytes_def bb_sent_def Let_def p fin s_def [symmetric] h_def [symmetric]
            l_def [symmetric])
      moreover have "\<not> pucTail rb - pucAcquire rb < length bs" using False b p l_def by simp
      ultimately show ?thesis using ab unfolding prvCopyItemByteBuf_def Let_def by simp
    qed
    ultimately show ?thesis
      by (intro that) (simp_all add: s_def h_def r_def w_def l_def)
  next
    case True
    let ?c = "take (s - a) bs" let ?d = "drop (s - a) bs"
    let ?m1 = "wr_bytes (store rb) (h + a) ?c" let ?m = "wr_bytes ?m1 h ?d"
    have lens: "length ?c = s - a" "length ?d = l - (s - a)"
      using True by (auto simp: l_def)
    have 1: "ring_bytes ?m1 h s r (w + (s - a)) = bb_queue rb @ ?c"
      using ring_bytes_append_chunk [of r s w ?c "store rb" h] True wa b q lens by simp
    have w0: "wrap s (r + (w + (s - a))) = 0"
      using wrap_shift [OF wa b(1), of "s - a"] True b by (simp add: wrap_def)
    have "ring_bytes ?m h s r ((w + (s - a)) + length ?d) = (bb_queue rb @ ?c) @ ?d"
      using ring_bytes_append_chunk [of r s "w + (s - a)" ?d ?m1 h] w0 b True lens 1 by simp
    then have "ring_bytes ?m h s r (w + l) = bb_queue rb @ bs"
      using lens True by simp
    moreover have "prvCopyItemByteBuf rb bs = Some (bb_sent rb ?m l)"
    proof -
      obtain k where k: "length ?d = k" "wrap s (a + l) = k" "k \<noteq> s" "int (length ?c) + int k = int l"
      proof (rule that)
        show "length ?d = l - (s - a)" by (rule lens(2))
        show "wrap s (a + l) = l - (s - a)" "l - (s - a) \<noteq> s" using True b by (auto simp: wrap_def)
        show "int (length ?c) + int (l - (s - a)) = int l" using True unfolding lens(1) by simp
      qed
      then have "finish_byte_copy (put_bytes ((put_bytes rb ?c)\<lparr> pucAcquire := h \<rparr>) ?d) = bb_sent rb ?m l"
        by (subst finish_byte_copy_at [where a = "h + k"])
          (simp_all add: put_bytes_def bb_sent_def Let_def p s_def [symmetric] h_def [symmetric]
            add.assoc del: length_take length_drop)
      moreover have "pucTail rb - pucAcquire rb = s - a" using b p by simp
      ultimately show ?thesis using ab True unfolding prvCopyItemByteBuf_def Let_def
        by (simp add: h_def [symmetric] l_def [symmetric])
    qed
    ultimately show ?thesis
      by (intro that) (simp_all add: s_def h_def r_def w_def l_def)
  qed
qed

lemma bb_sent_sel [simp]:
  "xSize (bb_sent rb m n) = xSize rb" "pucHead (bb_sent rb m n) = pucHead rb"
  "pucTail (bb_sent rb m n) = pucTail rb" "pucRead (bb_sent rb m n) = pucRead rb"
  "pucFree (bb_sent rb m n) = pucFree rb" "store (bb_sent rb m n) = m"
  "pucAcquire (bb_sent rb m n) = pucHead rb + wrap (xSize rb) (pucAcquire rb - pucHead rb + n)"
  "pucWrite (bb_sent rb m n) = pucHead rb + wrap (xSize rb) (pucAcquire rb - pucHead rb + n)"
  "xItemsWaiting (bb_sent rb m n) = xItemsWaiting rb + int n"
  by (simp_all add: bb_sent_def Let_def)

lemma bb_sent_inv:
  assumes inv: "bb_inv rb" and n: "0 < n" "n \<le> xSize rb - bb_held rb - bb_waiting rb"
  shows "bb_inv (bb_sent rb m n)" and "bb_held (bb_sent rb m n) = bb_held rb"
    and "bb_waiting (bb_sent rb m n) = bb_waiting rb + n"
proof -
  let ?rb = "bb_sent rb m n"
  define s f r a h w where "s = xSize rb" and "f = pucFree rb - pucHead rb"
    and "r = pucRead rb - pucHead rb" and "a = pucAcquire rb - pucHead rb"
    and "h = bb_held rb" and "w = bb_waiting rb"
  have b: "bb_bounds rb" and t: "bb_typed rb" and hw: "h + w + n \<le> s" and nf: "\<not> is_full rb"
    and r: "wrap s (f + h) = r" and a: "wrap s (r + w) = a"
    using inv n by (auto simp: bb_inv_def s_def f_def r_def a_def h_def w_def)
  have lt: "f < s" "r < s" "a < s" and pf: "pucFree rb = pucHead rb + f"
    using b by (auto simp: bb_bounds_def s_def f_def r_def a_def)
  have a': "wrap s (a + n) = wrap s (r + (w + n))"
    using hw by (intro wrap_shift [OF a lt(2)]) linarith
  have "wrap s (f + (h + (w + n))) = wrap s (a + n)"
    using hw by (intro wrap_trans [OF r a' [symmetric] lt(1)]) linarith
  then have full: "wrap s (a + n) = f \<longleftrightarrow> h + w + n = s"
    using wrap_window(1) [OF _ lt(1), of "h + (w + n)" "wrap s (a + n)"] hw n by (auto simp: add.assoc)
  have full': "is_full ?rb \<longleftrightarrow> h + w + n = s"
    using full nf pf by (auto simp: bb_sent_def Let_def flag_simps s_def a_def)
  show w': "bb_waiting ?rb = bb_waiting rb + n"
    using b by (auto simp: bb_waiting_def bb_bounds_def)
  have "bb_held ?rb = (if h + w + n = s then s - (w + n) else h)"
    using nf unfolding bb_held_def [of ?rb] full' w' h_def bb_held_def [of rb]
    by (simp add: s_def w_def)
  then show h': "bb_held ?rb = bb_held rb" by (auto simp: h_def)
  have lt': "wrap s (a + n) < s" using lt hw by (intro wrap_less) linarith
  have "bb_bounds ?rb" using b lt' by (simp add: bb_bounds_def s_def a_def)
  moreover have "bb_typed ?rb"
    using t by (simp add: bb_typed_def) (simp add: bb_sent_def Let_def flag_simps)
  ultimately show "bb_inv ?rb"
    unfolding bb_inv_def h' w' full'
    using hw r a' by (simp add: s_def f_def r_def a_def h_def w_def add.assoc)
qed

lemma bb_queue_sent:
  "bb_waiting (bb_sent rb m n) = bb_waiting rb + n \<Longrightarrow>
   bb_queue (bb_sent rb m n) =
     ring_bytes m (pucHead rb) (xSize rb) (pucRead rb - pucHead rb) (bb_waiting rb + n)"
  by (simp add: bb_queue_def)

section \<open>Retrieving\<close>

lemma bb_avail:
  assumes inv: "bb_inv rb"
  shows "prvCheckItemAvail rb \<longleftrightarrow> bb_held rb = 0 \<and> 0 < bb_waiting rb"
proof -
  let ?s = "xSize rb" let ?f = "pucFree rb - pucHead rb" let ?r = "pucRead rb - pucHead rb"
  let ?a = "pucAcquire rb - pucHead rb" let ?h = "bb_held rb" let ?w = "bb_waiting rb"
  have b: "bb_bounds rb" "bb_typed rb" "?h + ?w \<le> ?s" "is_full rb \<longleftrightarrow> ?h + ?w = ?s"
    and r: "wrap ?s (?f + ?h) = ?r" and a: "wrap ?s (?r + ?w) = ?a"
    using inv by (auto simp: bb_inv_def)
  have lt: "?f < ?s" "?r < ?s" "?a < ?s" using b by (auto simp: bb_bounds_def)
  have ptr: "?h \<le> ?s" "?w \<le> ?s" "pucRead rb = pucFree rb \<longleftrightarrow> ?r = ?f" "pucRead rb = pucWrite rb \<longleftrightarrow> ?a = ?r"
    using b by (auto simp: bb_bounds_def)
  have rf: "pucRead rb = pucFree rb \<longleftrightarrow> ?h = 0 \<or> ?h = ?s"
    using wrap_window(1) [OF r lt(1) ptr(1)] ptr(3) by simp
  have rw: "pucRead rb = pucWrite rb \<longleftrightarrow> ?w = 0 \<or> ?w = ?s"
    using wrap_window(1) [OF a lt(2) ptr(2)] ptr(4) by simp
  have "0 < xItemsWaiting rb \<longleftrightarrow> 0 < ?w" by (auto simp: bb_waiting_def)
  then show ?thesis
    using rf rw b(2-4) lt(1) by (auto simp: prvCheckItemAvail_def items_to_read_def bb_typed_def flag_simps)
qed

text \<open>
  \<^verbatim>\<open>prvGetItemByteBuf\<close> hands out the bytes from the read pointer up to the write pointer
  or the tail, at most \<^verbatim>\<open>xMaxSize\<close> of them.
\<close>

definition bb_chunk :: "Ringbuffer \<Rightarrow> nat \<Rightarrow> nat" where
  "bb_chunk rb xMaxSize =
     (let n = min (bb_waiting rb) (pucTail rb - pucRead rb)
      in if xMaxSize = 0 then n else min n xMaxSize)"

definition bb_taken :: "Ringbuffer \<Rightarrow> nat \<Rightarrow> Ringbuffer" where
  "bb_taken rb n =
     rb\<lparr> xItemsWaiting := xItemsWaiting rb - int n,
         pucRead := pucHead rb + wrap (xSize rb) (pucRead rb - pucHead rb + n) \<rparr>"

lemma bb_get_effect:
  assumes inv: "bb_inv rb" and av: "bb_held rb = 0" "0 < bb_waiting rb"
  shows "prvGetItemByteBuf rb mx =
    Some (bb_taken rb (bb_chunk rb mx), pucRead rb, bb_chunk rb mx, False)"
proof -
  define s r w a where "s = xSize rb" and "r = pucRead rb - pucHead rb" and "w = bb_waiting rb"
    and "a = pucAcquire rb - pucHead rb"
  have b: "bb_bounds rb" "w \<le> s" "0 < w" "is_full rb \<longleftrightarrow> w = s" "r < s" "a < s"
    and wa: "wrap s (r + w) = a" and wf: "wrap s (pucFree rb - pucHead rb) = r"
    using inv av by (auto simp: bb_inv_def bb_bounds_def s_def r_def w_def a_def)
  have f: "pucFree rb = pucRead rb" "xItemsWaiting rb = int w"
  proof -
    have "pucFree rb - pucHead rb < s" using b(1) by (auto simp: bb_bounds_def s_def)
    then have "pucFree rb - pucHead rb = pucRead rb - pucHead rb" using wf by (simp add: wrap_def r_def)
    then show "pucFree rb = pucRead rb" using b(1) by (auto simp: bb_bounds_def)
    show "xItemsWaiting rb = int w" using b(1) by (simp add: bb_bounds_def w_def bb_waiting_def)
  qed
  have p: "pucRead rb = pucHead rb + r" "pucWrite rb = pucHead rb + a" "pucTail rb = pucHead rb + s"
    using b(1) by (auto simp: bb_bounds_def s_def r_def a_def)
  note win = wrap_window [OF wa b(5,2)]
  have items: "items_to_read rb"
    using win(1) b p f by (auto simp: items_to_read_def)
  have chunk: "bb_chunk rb mx = (if mx = 0 then min w (s - r) else min (min w (s - r)) mx)"
    using p by (simp add: bb_chunk_def w_def [symmetric] Let_def)
  show ?thesis
  proof (cases "a < r \<or> w = s")
    case True
    then have "min w (s - r) = s - r" using win b by auto
    then show ?thesis
      using True items p f b(3-5) unfolding chunk
      by (auto simp: prvGetItemByteBuf_def bb_taken_def Let_def wrap_def s_def [symmetric])
  next
    case False
    then have "w = a - r" "r < a" using win b by auto
    moreover from this have "min w (s - r) = a - r" using b by simp
    ultimately show ?thesis
      using False items p f b(3-6) unfolding chunk
      by (auto simp: prvGetItemByteBuf_def bb_taken_def Let_def wrap_def s_def [symmetric])
  qed
qed

lemma bb_taken_inv:
  assumes inv: "bb_inv rb" and av: "bb_held rb = 0" and n: "n \<le> bb_waiting rb"
  shows "bb_inv (bb_taken rb n)" and "bb_held (bb_taken rb n) = n"
    and "bb_queue rb = ring_bytes (store rb) (pucHead rb) (xSize rb) (pucRead rb - pucHead rb) n
           @ bb_queue (bb_taken rb n)"
proof -
  let ?rb = "bb_taken rb n"
  define s f r a w where "s = xSize rb" and "f = pucFree rb - pucHead rb"
    and "r = pucRead rb - pucHead rb" and "a = pucAcquire rb - pucHead rb" and "w = bb_waiting rb"
  have b: "bb_bounds rb" and t: "bb_typed rb" and w: "w \<le> s" and full: "is_full rb \<longleftrightarrow> w = s"
    and r: "wrap s f = r" and a: "wrap s (r + w) = a"
    using inv av by (auto simp: bb_inv_def s_def f_def r_def a_def w_def)
  have lt: "f < s" "r < s" "a < s"
    using b by (auto simp: bb_bounds_def s_def f_def r_def a_def)
  have fr: "f = r" using r lt by (simp add: wrap_def)
  have sel: "xSize ?rb = s" "pucHead ?rb = pucHead rb" "pucRead ?rb = pucHead rb + wrap s (r + n)"
      "pucFree ?rb = pucFree rb" "pucAcquire ?rb = pucAcquire rb" "store ?rb = store rb"
      "is_full ?rb = is_full rb"
    by (simp_all add: bb_taken_def s_def r_def)
  have w': "bb_waiting ?rb = w - n"
    by (simp add: bb_waiting_def bb_taken_def w_def nat_diff_distrib')
  have r': "wrap s (r + n) < s" using lt n w w_def by (intro wrap_less) linarith
  have a': "wrap s (wrap s (r + n) + (w - n)) = a"
    using wrap_shift [OF refl lt(2), of n "w - n"] a n w w_def by simp
  show h': "bb_held ?rb = n"
  proof (cases "w = s")
    case True
    then show ?thesis using full n unfolding bb_held_def w' sel by (simp add: w_def)
  next
    case False
    then have "n < s" using n w w_def by simp
    then have "wrap s (wrap s (r + n) + (s - f)) = n"
      using lt fr by (auto simp: wrap_def)
    then show ?thesis using False full unfolding bb_held_def w' sel by (simp add: f_def)
  qed
  have "bb_bounds ?rb"
    using b r' n w_def by (auto simp: bb_bounds_def bb_taken_def s_def r_def bb_waiting_def)
  moreover have "bb_typed ?rb" using t by (simp add: bb_typed_def bb_taken_def)
  ultimately show "bb_inv ?rb"
    unfolding bb_inv_def h' w' sel using full w n a' fr
    by (simp add: f_def a_def w_def)
  have "w = n + (w - n)" using n w_def by simp
  then show "bb_queue rb = ring_bytes (store rb) (pucHead rb) (xSize rb) (pucRead rb - pucHead rb) n
      @ bb_queue ?rb"
    using ring_bytes_split [OF lt(2), of n "w - n" "store rb" "pucHead rb"] w
    unfolding bb_queue_def w' sel by (simp add: s_def r_def w_def)
qed

lemma bb_chunk_bounds:
  assumes "bb_inv rb" and "0 < bb_waiting rb"
  shows "bb_chunk rb mx \<le> bb_waiting rb" and "bb_chunk rb mx \<le> pucTail rb - pucRead rb"
    and "0 < bb_chunk rb mx" and "0 < mx \<Longrightarrow> bb_chunk rb mx \<le> mx"
proof -
  have "0 < pucTail rb - pucRead rb" using assms by (simp add: bb_inv_def bb_bounds_def)
  then show "bb_chunk rb mx \<le> bb_waiting rb" "bb_chunk rb mx \<le> pucTail rb - pucRead rb"
      "0 < bb_chunk rb mx" "0 < mx \<Longrightarrow> bb_chunk rb mx \<le> mx"
    using assms(2) by (auto simp: bb_chunk_def Let_def min_def)
qed

section \<open>Returning\<close>

lemma bb_return_ok:
  assumes inv: "bb_inv rb" and held: "0 < bb_held rb" and p: "pucHead rb \<le> p" "p < pucTail rb"
  obtains rb' where "prvReturnItemByteBuf rb p = Some rb'" and "bb_inv rb'"
    and "bb_queue rb' = bb_queue rb" and "bb_held rb' = 0"
proof -
  define s f r a w where "s = xSize rb" and "f = pucFree rb - pucHead rb"
    and "r = pucRead rb - pucHead rb" and "a = pucAcquire rb - pucHead rb" and "w = bb_waiting rb"
  let ?fl = "if is_full rb then uxRingbufferFlags rb AND NOT rbBUFFER_FULL_FLAG else uxRingbufferFlags rb"
  let ?rb = "rb\<lparr> pucFree := pucRead rb, uxRingbufferFlags := ?fl \<rparr>"
  have b: "bb_bounds rb" and t: "bb_typed rb" and w: "w < s" and a: "wrap s (r + w) = a"
    using inv held by (auto simp: bb_inv_def s_def r_def a_def w_def)
  have lt: "r < s" using b by (auto simp: bb_bounds_def s_def r_def)
  have nf: "\<not> is_full ?rb" by (simp add: flag_simps)
  have w': "bb_waiting ?rb = w" by (simp add: bb_waiting_def w_def)
  have h': "bb_held ?rb = 0"
    using nf lt by (simp add: bb_held_def s_def r_def wrap_def)
  have "bb_bounds ?rb" using b by (simp add: bb_bounds_def)
  moreover have "bb_typed ?rb" using t by (simp add: bb_typed_def flag_simps)
  ultimately have "bb_inv ?rb"
    unfolding bb_inv_def h' w' using nf w a lt by (simp add: s_def r_def a_def wrap_def)
  moreover have "bb_queue ?rb = bb_queue rb" by (simp add: bb_queue_def w' w_def)
  moreover have "prvReturnItemByteBuf rb p = Some ?rb"
    using p by (simp add: prvReturnItemByteBuf_def Let_def)
  ultimately show ?thesis using h' that by blast
qed

section \<open>The public calls\<close>

text \<open>Fields outside the invariant: the waiting lists and the queue set.\<close>

lemma bb_inv_lists [simp]:
  "bb_inv (rb\<lparr> xTasksWaitingToReceive := ts \<rparr>) = bb_inv rb"
  "bb_inv (rb\<lparr> xTasksWaitingToSend := ts \<rparr>) = bb_inv rb"
  "bb_queue (rb\<lparr> xTasksWaitingToReceive := ts \<rparr>) = bb_queue rb"
  "bb_queue (rb\<lparr> xTasksWaitingToSend := ts \<rparr>) = bb_queue rb"
  "bb_held (rb\<lparr> xTasksWaitingToReceive := ts \<rparr>) = bb_held rb"
  "bb_held (rb\<lparr> xTasksWaitingToSend := ts \<rparr>) = bb_held rb"
  by (simp_all add: bb_defs bb_queue_def)

lemma notify_receivers_frame:
  "bb_inv rb \<Longrightarrow> bb_inv (sent_rb (notify_receivers k rb))"
  "bb_queue (sent_rb (notify_receivers k rb)) = bb_queue rb"
  "sent_ok (notify_receivers k rb)"
  by (auto simp: notify_receivers_def Let_def split: option.splits prod.splits)

lemma bb_call_typed:
  assumes "bb_inv rb"
  shows "call_CheckItemFits rb n = prvCheckItemFitsByteBuffer rb n"
    and "call_CopyItem rb bs = prvCopyItemByteBuf rb bs"
    and "call_GetItem rb mx = prvGetItemByteBuf rb mx"
    and "call_ReturnItem rb p = prvReturnItemByteBuf rb p"
    and "flag_set (uxRingbufferFlags rb) rbBYTE_BUFFER_FLAG"
    and "\<not> flag_set (uxRingbufferFlags rb) rbALLOW_SPLIT_FLAG" and "xMaxItemSize rb = xSize rb"
  using assms
  by (simp_all add: bb_inv_def bb_typed_def call_CheckItemFits_def call_CopyItem_def
      call_GetItem_def call_ReturnItem_def)

text \<open>A non-blocking send is accepted exactly when the bytes fit in the free space.\<close>

lemma bb_send_now:
  assumes inv: "bb_inv rb"
  shows "\<exists>rb'. send_now k task rb bs = Some (rb', length bs \<le> xSize rb - bb_held rb - bb_waiting rb)
    \<and> bb_inv rb' \<and> bb_queue rb' = (if length bs \<le> xSize rb - bb_held rb - bb_waiting rb
                                  then bb_queue rb @ bs else bb_queue rb)"
proof (cases "bs = [] \<or> length bs > xSize rb")
  case True
  then show ?thesis
    using inv bb_call_typed [OF inv]
    by (auto simp: send_now_def xRingbufferSend_def not_sent_def)
next
  case False
  let ?fits = "length bs \<le> xSize rb - bb_held rb - bb_waiting rb"
  have chk: "call_CheckItemFits rb (length bs) = Some ?fits"
    using False bb_call_typed(1) [OF inv] bb_check_fits [OF inv, of "length bs"] by auto
  show ?thesis
  proof (cases ?fits)
    case fits: True
    obtain m where m: "prvCopyItemByteBuf rb bs = Some (bb_sent rb m (length bs))"
        "ring_bytes m (pucHead rb) (xSize rb) (pucRead rb - pucHead rb)
           (bb_waiting rb + length bs) = bb_queue rb @ bs"
      using bb_copy_effect [OF inv _ fits] False by blast
    note s = bb_sent_inv [OF inv _ fits, of m]
    have q: "bb_queue (bb_sent rb m (length bs)) = bb_queue rb @ bs"
      using bb_queue_sent [OF s(3)] False m(2) by simp
    have "send_now k task rb bs =
        Some (sent_rb (notify_receivers k (bb_sent rb m (length bs))), True)"
      using False fits chk m(1) bb_call_typed(2,7) [OF inv]
      by (simp add: send_now_def xRingbufferSend_def prvSendAcquireGeneric.simps perform_send_def
          notify_receivers_frame)
    then show ?thesis
      using fits q s(1) False notify_receivers_frame(1,2) by simp
  next
    case nofit: False
    then have "send_now k task rb bs = Some (rb, False)"
      using False chk bb_call_typed(7) [OF inv]
      by (simp add: send_now_def xRingbufferSend_def prvSendAcquireGeneric.simps not_sent_def)
    then show ?thesis using nofit inv by simp
  qed
qed

text \<open>A non-blocking receive hands out the longest contiguous prefix of the queue, within the limit.\<close>

lemma bb_recv_now:
  assumes inv: "bb_inv rb"
  shows "if bb_held rb = 0 \<and> 0 < bb_waiting rb
    then recv_now k task rb mx = Some (bb_taken rb (bb_chunk rb mx), take (bb_chunk rb mx) (bb_queue rb))
    else recv_now k task rb mx = Some (rb, [])"
proof (cases "bb_held rb = 0 \<and> 0 < bb_waiting rb")
  case True
  let ?n = "bb_chunk rb mx"
  have b: "bb_bounds rb" using inv by (simp add: bb_inv_def)
  have n: "?n \<le> bb_waiting rb" "?n \<le> pucTail rb - pucRead rb"
    using bb_chunk_bounds [OF inv] True by blast+
  have "ring_bytes (store rb) (pucHead rb) (xSize rb) (pucRead rb - pucHead rb) ?n
      = rd_bytes (store rb) (pucRead rb) ?n"
    using n(2) b by (subst ring_bytes_contiguous) (auto simp: bb_bounds_def)
  then have tk: "rd_bytes (store rb) (pucRead rb) ?n = take ?n (bb_queue rb)"
    using bb_taken_inv(3) [OF inv _ n(1)] True by simp
  have av: "prvCheckItemAvail rb" using bb_avail [OF inv] True by simp
  have get: "prvGetItemByteBuf rb mx = Some (bb_taken rb ?n, pucRead rb, ?n, False)"
    using bb_get_effect [OF inv] True by simp
  have st: "store (bb_taken rb ?n) = store rb" by (simp add: bb_taken_def)
  show ?thesis
    using True av get tk st bb_call_typed(3,5,6) [OF inv]
    by (cases "mx = 0") (simp_all add: recv_now_def xRingbufferReceive_def
        xRingbufferReceiveUpTo_def prvReceiveGeneric.simps retrieve_items_def outcome_of_def
        item_bytes_def)
next
  case False
  then have "\<not> prvCheckItemAvail rb" using bb_avail [OF inv] by simp
  then show ?thesis
    using False bb_call_typed(5,6) [OF inv]
    by (auto simp: recv_now_def xRingbufferReceive_def xRingbufferReceiveUpTo_def
        prvReceiveGeneric.simps not_received_def item_bytes_def)
qed

text \<open>What a client may give back: some address inside the buffer, while bytes are held.\<close>

definition bb_borrowed :: "Ringbuffer \<Rightarrow> nat \<Rightarrow> bool" where
  "bb_borrowed rb p \<longleftrightarrow> 0 < bb_held rb \<and> pucHead rb \<le> p \<and> p < pucTail rb"

lemma bb_return_now:
  assumes inv: "bb_inv rb" and "bb_borrowed rb p"
  shows "\<exists>rb'. return_now k rb p = Some rb' \<and> bb_inv rb' \<and> bb_queue rb' = bb_queue rb \<and> bb_held rb' = 0"
proof -
  obtain rb' where "prvReturnItemByteBuf rb p = Some rb'" "bb_inv rb'" "bb_queue rb' = bb_queue rb"
      "bb_held rb' = 0"
    using bb_return_ok [OF inv] assms(2) unfolding bb_borrowed_def by blast
  then show ?thesis
    using bb_call_typed(4) [OF inv]
    by (simp add: return_now_def vRingbufferReturnItem_def Let_def split: prod.split)
qed

interpretation bytebuf: borrow_queue bb_inv bb_queue "send_now k task" "\<lambda>bs. bs" "recv_now k task"
  "return_now k" bb_borrowed for k task
proof unfold_locales
  fix s :: Ringbuffer and x :: "u8 list"
  assume "bb_inv s"
  from bb_send_now [OF this] show "\<exists>s' b. send_now k task s x = Some (s', b) \<and> bb_inv s' \<and>
      bb_queue s' = (if b then bb_queue s @ x else bb_queue s)"
    by metis
next
  fix s :: Ringbuffer and a :: nat
  assume inv: "bb_inv s"
  show "\<exists>s' es. recv_now k task s a = Some (s', es) \<and> bb_inv s' \<and> bb_queue s = es @ bb_queue s'"
  proof (cases "bb_held s = 0 \<and> 0 < bb_waiting s")
    case True
    then have n: "bb_chunk s a \<le> bb_waiting s" using bb_chunk_bounds [OF inv] by blast
    note t = bb_taken_inv [OF inv conjunct1 [OF True] n]
    have "take (bb_chunk s a) (bb_queue s) @ bb_queue (bb_taken s (bb_chunk s a)) = bb_queue s"
      using t(3) by simp
    then show ?thesis using bb_recv_now [OF inv] True t(1) by metis
  next
    case False
    then show ?thesis using bb_recv_now [OF inv] inv by auto
  qed
next
  fix s :: Ringbuffer and r :: nat
  assume "bb_inv s" "bb_borrowed s r"
  from bb_return_now [OF this] show "\<exists>s'. return_now k s r = Some s' \<and> bb_inv s' \<and> bb_queue s' = bb_queue s"
    by blast
qed

end
