(* ===== verification/Ringbuf_Chain.thy ===== *)
theory Ringbuf_Chain
  imports Ringbuf_Api Fifo
begin

text \<open>
  The storage of a no-split buffer (\<^verbatim>\<open>RINGBUF_TYPE_NOSPLIT\<close>). The used part, from
  \<^verbatim>\<open>pucFree\<close> to \<^verbatim>\<open>pucAcquire\<close>, is a chain of blocks: items behind their headers, and
  dummy headers that fill the rest of the storage up to the tail. This theory holds the
  geometry of such chains, the frame lemmas for writes outside them, and the relation
  \<open>ns_rel\<close> between a control block and its chain; \<open>Ringbuf_NoSplit\<close> shows that the
  operations keep it.
\<close>

section \<open>Geometry of the storage\<close>

text \<open>
  Alignment of the storage and the sizes for which \<^verbatim>\<open>xMaxItemSize\<close> does not wrap. The
  arguments are the head, the tail and the maximum item size.
\<close>

definition ns_geom :: "nat \<Rightarrow> nat \<Rightarrow> nat \<Rightarrow> bool" where
  "ns_geom H T mx \<longleftrightarrow> H mod 4 = 0 \<and> T mod 4 = 0 \<and> H + 12 \<le> T \<and> T < 2 ^ 32
     \<and> mx + 8 = rbALIGN_SIZE ((T - H) div 2)"

lemma align4:
  assumes "n + 4 \<le> 2 ^ 32"
  shows "n \<le> rbALIGN_SIZE n" and "rbALIGN_SIZE n < n + 4" and "rbALIGN_SIZE n mod 4 = 0"
  using align_up_bounds [of 4 n] assms by (auto simp: rbALIGN_SIZE_def)

lemma align4_mono:
  assumes "n \<le> k" and "k + 4 \<le> 2 ^ 32" and "k mod 4 = 0"
  shows "rbALIGN_SIZE n \<le> k"
  unfolding rbALIGN_SIZE_def using assms by (intro align_up_least) auto

lemma ns_geom_total:
  assumes "ns_geom H T mx" and "n \<le> mx"
  shows "n \<le> rbALIGN_SIZE n" and "rbALIGN_SIZE n < n + 4" and "rbALIGN_SIZE n mod 4 = 0"
    and "2 * (rbALIGN_SIZE n + 8) < (T - H) + 8" and "rbALIGN_SIZE n + 8 < 2 ^ 32"
    and "rbALIGN_SIZE n \<le> mx"
proof -
  have h: "(T - H) div 2 + 4 \<le> 2 ^ 32" using assms(1) by (auto simp: ns_geom_def)
  note a = align4 [OF h]
  have mx: "mx + 8 = rbALIGN_SIZE ((T - H) div 2)" using assms(1) by (simp add: ns_geom_def)
  have mx4: "mx mod 4 = 0" using a(3) mx by presburger
  have le: "mx + 8 < (T - H) div 2 + 4" "T < 2 ^ 32" using a mx assms(1) by (auto simp: ns_geom_def)
  have n: "n + 4 \<le> 2 ^ 32" "mx + 4 \<le> 2 ^ 32" using le assms(2) by auto
  show "n \<le> rbALIGN_SIZE n" "rbALIGN_SIZE n < n + 4" "rbALIGN_SIZE n mod 4 = 0"
    using align4 [OF n(1)] by auto
  show m: "rbALIGN_SIZE n \<le> mx" using align4_mono [OF assms(2) n(2) mx4] .
  show "2 * (rbALIGN_SIZE n + 8) < (T - H) + 8" "rbALIGN_SIZE n + 8 < 2 ^ 32"
    using m le by auto
qed

section \<open>Chains of blocks\<close>

datatype blk = Dummy | Item nat bool \<comment> \<open>length, returned by the application\<close>

definition blk_ok :: "nat \<Rightarrow> nat \<Rightarrow> nat \<Rightarrow> memory \<Rightarrow> nat \<Rightarrow> blk \<Rightarrow> bool" where
  "blk_ok H T mx m a k \<longleftrightarrow> a mod 4 = 0 \<and> H \<le> a \<and> a + 8 \<le> T
     \<and> flag_set (uxItemFlags m a) rbITEM_WRITTEN_FLAG
     \<and> (case k of
          Dummy \<Rightarrow> flag_set (uxItemFlags m a) rbITEM_DUMMY_DATA_FLAG
        | Item n fr \<Rightarrow> \<not> flag_set (uxItemFlags m a) rbITEM_DUMMY_DATA_FLAG
            \<and> xItemLen m a = n \<and> n \<le> mx \<and> a + 8 + rbALIGN_SIZE n \<le> T
            \<and> (flag_set (uxItemFlags m a) rbITEM_FREE_FLAG \<longleftrightarrow> fr))"

text \<open>The address of the next block, and the bytes up to it (unusable rest included).\<close>

definition ns_next :: "nat \<Rightarrow> nat \<Rightarrow> nat \<Rightarrow> nat" where
  "ns_next H T e = (if T - e < 8 then H else e)"

fun blk_next :: "nat \<Rightarrow> nat \<Rightarrow> nat \<Rightarrow> blk \<Rightarrow> nat" where
  "blk_next H T a Dummy = H"
| "blk_next H T a (Item n fr) = ns_next H T (a + 8 + rbALIGN_SIZE n)"

fun blk_ext :: "nat \<Rightarrow> nat \<Rightarrow> blk \<Rightarrow> nat" where
  "blk_ext T a Dummy = T - a"
| "blk_ext T a (Item n fr) = (if T - (a + 8 + rbALIGN_SIZE n) < 8 then T - a else 8 + rbALIGN_SIZE n)"

fun chain :: "nat \<Rightarrow> nat \<Rightarrow> nat \<Rightarrow> memory \<Rightarrow> nat \<Rightarrow> blk list \<Rightarrow> bool" where
  "chain H T mx m a [] = True"
| "chain H T mx m a (k # ks) = (blk_ok H T mx m a k \<and> chain H T mx m (blk_next H T a k) ks)"

fun chain_end :: "nat \<Rightarrow> nat \<Rightarrow> nat \<Rightarrow> blk list \<Rightarrow> nat" where
  "chain_end H T a [] = a"
| "chain_end H T a (k # ks) = chain_end H T (blk_next H T a k) ks"

fun chain_len :: "nat \<Rightarrow> nat \<Rightarrow> nat \<Rightarrow> blk list \<Rightarrow> nat" where
  "chain_len H T a [] = 0"
| "chain_len H T a (k # ks) = blk_ext T a k + chain_len H T (blk_next H T a k) ks"

lemma chain_append:
  "chain H T mx m a (ks @ js) \<longleftrightarrow> chain H T mx m a ks \<and> chain H T mx m (chain_end H T a ks) js"
  by (induction ks arbitrary: a) auto

lemma chain_end_append [simp]:
  "chain_end H T a (ks @ js) = chain_end H T (chain_end H T a ks) js"
  by (induction ks arbitrary: a) auto

lemma chain_len_append [simp]:
  "chain_len H T a (ks @ js) = chain_len H T a ks + chain_len H T (chain_end H T a ks) js"
  by (induction ks arbitrary: a) auto

text \<open>A valid position for a header.\<close>

definition hdr_pos :: "nat \<Rightarrow> nat \<Rightarrow> nat \<Rightarrow> bool" where
  "hdr_pos H T a \<longleftrightarrow> a mod 4 = 0 \<and> H \<le> a \<and> a + 8 \<le> T"

lemma blk_step:
  assumes "ns_geom H T mx" and "blk_ok H T mx m a k"
  shows "hdr_pos H T (blk_next H T a k)" and "blk_next H T a k - H = wrap (T - H) (a - H + blk_ext T a k)"
    and "8 \<le> blk_ext T a k" and "a + blk_ext T a k \<le> T"
proof -
  have g: "H mod 4 = 0" "T mod 4 = 0" "H + 12 \<le> T" and a: "a mod 4 = 0" "H \<le> a" "a + 8 \<le> T"
    using assms by (auto simp: ns_geom_def blk_ok_def)
  have "hdr_pos H T (blk_next H T a k) \<and> blk_next H T a k - H = wrap (T - H) (a - H + blk_ext T a k)
      \<and> 8 \<le> blk_ext T a k \<and> a + blk_ext T a k \<le> T"
  proof (cases k)
    case Dummy
    then show ?thesis using g a by (auto simp: hdr_pos_def wrap_def)
  next
    case (Item n fr)
    define e where "e = a + 8 + rbALIGN_SIZE n"
    have n: "n \<le> mx" "e \<le> T" using assms(2) Item by (auto simp: blk_ok_def e_def)
    have e4: "e mod 4 = 0"
      using ns_geom_total(3) [OF assms(1) n(1)] a(1) unfolding e_def by presburger
    show ?thesis
    proof (cases "T - e < 8")
      case True
      then show ?thesis using Item g a n(2) by (auto simp: hdr_pos_def wrap_def ns_next_def e_def)
    next
      case False
      then show ?thesis using Item g a n(2) e4 by (auto simp: hdr_pos_def wrap_def ns_next_def e_def)
    qed
  qed
  then show "hdr_pos H T (blk_next H T a k)" "blk_next H T a k - H = wrap (T - H) (a - H + blk_ext T a k)"
    "8 \<le> blk_ext T a k" "a + blk_ext T a k \<le> T" by auto
qed

lemma chain_end_pos:
  assumes "ns_geom H T mx"
  shows "chain H T mx m a ks \<Longrightarrow> hdr_pos H T a \<Longrightarrow> hdr_pos H T (chain_end H T a ks)"
  by (induction ks arbitrary: a) (auto dest: blk_step(1) [OF assms])

lemma wrap_add:
  assumes "x < s" and "y + z \<le> s"
  shows "wrap s (wrap s (x + y) + z) = wrap s (x + (y + z))"
  using assms by (auto simp: wrap_def)

lemma chain_end_wrap:
  assumes "ns_geom H T mx"
  shows "chain H T mx m a ks \<Longrightarrow> hdr_pos H T a \<Longrightarrow> chain_len H T a ks \<le> T - H \<Longrightarrow>
    chain_end H T a ks - H = wrap (T - H) (a - H + chain_len H T a ks)"
proof (induction ks arbitrary: a)
  case Nil
  then show ?case by (auto simp: wrap_def hdr_pos_def)
next
  case (Cons k ks)
  note st = blk_step [OF assms, of m a k]
  have "chain_end H T a (k # ks) - H =
      wrap (T - H) (wrap (T - H) (a - H + blk_ext T a k) + chain_len H T (blk_next H T a k) ks)"
    using Cons st by simp
  also have "\<dots> = wrap (T - H) (a - H + (blk_ext T a k + chain_len H T (blk_next H T a k) ks))"
    using Cons.prems(2,3) by (intro wrap_add) (auto simp: hdr_pos_def)
  finally show ?case by simp
qed

text \<open>Every block has a positive extent, so an empty chain is one of length zero.\<close>

lemma chain_len_0:
  assumes "ns_geom H T mx" and "chain H T mx m a ks"
  shows "chain_len H T a ks = 0 \<longleftrightarrow> ks = []"
  using assms blk_step(3) [OF assms(1)] by (cases ks) fastforce+

section \<open>Memory areas and frames\<close>

text \<open>The bytes of a block that matter: the header and, for an item, its data.\<close>

fun blk_area :: "nat \<Rightarrow> blk \<Rightarrow> nat set" where
  "blk_area a Dummy = {a..<a + 8}"
| "blk_area a (Item n fr) = {a..<a + 8 + n}"

fun chain_area :: "nat \<Rightarrow> nat \<Rightarrow> nat \<Rightarrow> blk list \<Rightarrow> nat set" where
  "chain_area H T a [] = {}"
| "chain_area H T a (k # ks) = blk_area a k \<union> chain_area H T (blk_next H T a k) ks"

text \<open>The items of a chain: address, bytes, and whether the application has returned it.\<close>

fun chain_items :: "nat \<Rightarrow> nat \<Rightarrow> memory \<Rightarrow> nat \<Rightarrow> blk list \<Rightarrow> (nat \<times> u8 list \<times> bool) list" where
  "chain_items H T m a [] = []"
| "chain_items H T m a (Dummy # ks) = chain_items H T m (blk_next H T a Dummy) ks"
| "chain_items H T m a (Item n fr # ks) =
     (a + 8, rd_bytes m (a + 8) n, fr) # chain_items H T m (blk_next H T a (Item n fr)) ks"

lemma chain_items_append:
  "chain_items H T m a (ks @ js) = chain_items H T m a ks @ chain_items H T m (chain_end H T a ks) js"
proof (induction ks arbitrary: a)
  case (Cons k ks)
  then show ?case by (cases k) auto
qed simp

lemma chain_area_append:
  "chain_area H T a (ks @ js) = chain_area H T a ks \<union> chain_area H T (chain_end H T a ks) js"
  by (induction ks arbitrary: a) auto

lemma hdr_cong:
  assumes "\<And>x. a \<le> x \<Longrightarrow> x < a + 8 \<Longrightarrow> m' x = m x"
  shows "uxItemFlags m' a = uxItemFlags m a" and "xItemLen m' a = xItemLen m a"
  using assms by (auto simp: uxItemFlags_def xItemLen_def intro!: rd32_cong arg_cong [of _ _ unat])

lemma blk_ok_cong:
  assumes "\<And>x. x \<in> blk_area a k \<Longrightarrow> m' x = m x"
  shows "blk_ok H T mx m' a k = blk_ok H T mx m a k"
proof -
  have "\<And>x. a \<le> x \<Longrightarrow> x < a + 8 \<Longrightarrow> m' x = m x" using assms by (cases k) auto
  from hdr_cong [OF this] show ?thesis by (auto simp: blk_ok_def split: blk.splits)
qed

lemma chain_cong:
  assumes "\<And>x. x \<in> chain_area H T a ks \<Longrightarrow> m' x = m x"
  shows "chain H T mx m' a ks = chain H T mx m a ks"
    and "chain_items H T m' a ks = chain_items H T m a ks"
proof -
  have "chain H T mx m' a ks = chain H T mx m a ks \<and> chain_items H T m' a ks = chain_items H T m a ks"
    using assms
  proof (induction ks arbitrary: a)
    case (Cons k ks)
    have b: "blk_ok H T mx m' a k = blk_ok H T mx m a k"
      using Cons.prems by (intro blk_ok_cong) auto
    have "rd_bytes m' (a + 8) n = rd_bytes m (a + 8) n" if "k = Item n fr" for n fr
      using Cons.prems that by (intro rd_bytes_cong) auto
    then show ?case using Cons b by (cases k) auto
  qed simp
  then show "chain H T mx m' a ks = chain H T mx m a ks"
    "chain_items H T m' a ks = chain_items H T m a ks" by auto
qed

lemma blk_area_ext:
  assumes "ns_geom H T mx" and "blk_ok H T mx m a k" and "x \<in> blk_area a k"
  shows "a \<le> x" and "x < a + blk_ext T a k"
proof -
  have "a \<le> x \<and> x < a + blk_ext T a k"
  proof (cases k)
    case Dummy
    then show ?thesis using assms(2,3) by (auto simp: blk_ok_def)
  next
    case (Item n fr)
    then have "n \<le> rbALIGN_SIZE n" "a + 8 + rbALIGN_SIZE n \<le> T"
      using assms(2) ns_geom_total(1) [OF assms(1), of n] by (auto simp: blk_ok_def)
    then show ?thesis using assms(3) Item by auto
  qed
  then show "a \<le> x" "x < a + blk_ext T a k" by auto
qed

text \<open>The area of a chain lies in the window of its length that starts at its first block.\<close>

lemma chain_area_window:
  assumes "ns_geom H T mx"
  shows "chain H T mx m a ks \<Longrightarrow> hdr_pos H T a \<Longrightarrow> chain_len H T a ks \<le> T - H \<Longrightarrow>
    x \<in> chain_area H T a ks \<Longrightarrow> \<exists>i < chain_len H T a ks. x = H + wrap (T - H) (a - H + i)"
proof (induction ks arbitrary: a)
  case (Cons k ks)
  let ?a = "blk_next H T a k" let ?e = "blk_ext T a k"
  have ok: "blk_ok H T mx m a k" and ch: "chain H T mx m ?a ks" using Cons.prems(1) by auto
  note st = blk_step [OF assms ok]
  have a: "H \<le> a" "a - H < T - H" using Cons.prems(2) by (auto simp: hdr_pos_def)
  show ?case
  proof (cases "x \<in> blk_area a k")
    case True
    from blk_area_ext [OF assms ok True] st(4) a
    have "x - a < chain_len H T a (k # ks)" "x = H + wrap (T - H) (a - H + (x - a))"
      by (auto simp: wrap_def)
    then show ?thesis by blast
  next
    case False
    then have "x \<in> chain_area H T ?a ks" using Cons.prems(4) by simp
    then obtain i where i: "i < chain_len H T ?a ks" "x = H + wrap (T - H) (?a - H + i)"
      using Cons.IH [OF ch st(1)] Cons.prems(3) by auto
    have "x = H + wrap (T - H) (a - H + (?e + i))"
      using i Cons.prems(3) a(2) unfolding i(2) st(2) by (subst wrap_add) auto
    then show ?thesis using i(1) by (intro exI [of _ "?e + i"]) simp
  qed
qed simp

lemma window_disjoint:
  assumes "off < s" and "i < l" and "l \<le> j" and "j < s"
  shows "wrap s (off + i) \<noteq> wrap s (off + j)"
  using assms by (auto simp: wrap_def)

text \<open>An address at or behind the end of a chain, within the storage once around, is outside it.\<close>

lemma outside_chain:
  assumes g: "ns_geom H T mx" and ch: "chain H T mx m a ks" and p: "hdr_pos H T a"
    and l: "chain_len H T a ks + j < T - H"
    and x: "x = H + wrap (T - H) (chain_end H T a ks - H + j)"
  shows "x \<notin> chain_area H T a ks"
proof
  assume "x \<in> chain_area H T a ks"
  then obtain i where i: "i < chain_len H T a ks" "x = H + wrap (T - H) (a - H + i)"
    using chain_area_window [OF g ch p] l by auto
  have a: "a - H < T - H" using p by (auto simp: hdr_pos_def)
  have "wrap (T - H) (chain_end H T a ks - H + j) = wrap (T - H) (a - H + (chain_len H T a ks + j))"
    using chain_end_wrap [OF g ch p] l a by (simp add: wrap_add)
  then show False
    using window_disjoint [OF a i(1), of "chain_len H T a ks + j"] l x i(2) by simp
qed

section \<open>Invariant\<close>

definition ns_typed :: "Ringbuffer \<Rightarrow> bool" where
  "ns_typed rb \<longleftrightarrow>
     \<not> flag_set (uxRingbufferFlags rb) rbBYTE_BUFFER_FLAG
     \<and> \<not> flag_set (uxRingbufferFlags rb) rbALLOW_SPLIT_FLAG
     \<and> xCheckItemFits rb = CheckItemFitsDefault \<and> vCopyItem rb = CopyItemNoSplit
     \<and> pvGetItem rb = GetItemDefault \<and> vReturnItem rb = ReturnItemDefault
     \<and> xGetCurMaxSize rb = GetCurMaxSizeNoSplit"

text \<open>A dummy block is always followed by an item, and no waiting item is marked as returned.\<close>

fun waiting_ok :: "blk list \<Rightarrow> bool" where
  "waiting_ok [] = True"
| "waiting_ok (Item n fr # ks) = (\<not> fr \<and> waiting_ok ks)"
| "waiting_ok (Dummy # Item n fr # ks) = (\<not> fr \<and> waiting_ok ks)"
| "waiting_ok (Dummy # ks) = False"

fun n_items :: "blk list \<Rightarrow> nat" where
  "n_items [] = 0"
| "n_items (Dummy # ks) = n_items ks"
| "n_items (Item n fr # ks) = Suc (n_items ks)"

lemma n_items_append [simp]: "n_items (ks @ js) = n_items ks + n_items js"
proof (induction ks)
  case (Cons k ks)
  then show ?case by (cases k) auto
qed simp

lemma waiting_ok_append: "waiting_ok ks \<Longrightarrow> waiting_ok js \<Longrightarrow> waiting_ok (ks @ js)"
  by (induction ks rule: waiting_ok.induct) auto

lemma n_items_0: "waiting_ok ks \<Longrightarrow> n_items ks = 0 \<longleftrightarrow> ks = []"
  by (induction ks rule: waiting_ok.induct) auto

abbreviation rb_chain :: "Ringbuffer \<Rightarrow> nat \<Rightarrow> blk list \<Rightarrow> bool" where
  "rb_chain rb \<equiv> chain (pucHead rb) (pucTail rb) (xMaxItemSize rb) (store rb)"
abbreviation rb_end :: "Ringbuffer \<Rightarrow> nat \<Rightarrow> blk list \<Rightarrow> nat" where
  "rb_end rb \<equiv> chain_end (pucHead rb) (pucTail rb)"
abbreviation rb_len :: "Ringbuffer \<Rightarrow> nat \<Rightarrow> blk list \<Rightarrow> nat" where
  "rb_len rb \<equiv> chain_len (pucHead rb) (pucTail rb)"
abbreviation rb_items :: "Ringbuffer \<Rightarrow> nat \<Rightarrow> blk list \<Rightarrow> (nat \<times> u8 list \<times> bool) list" where
  "rb_items rb \<equiv> chain_items (pucHead rb) (pucTail rb) (store rb)"

text \<open>
  \<open>ks1\<close> are the retrieved blocks between \<^verbatim>\<open>pucFree\<close> and \<^verbatim>\<open>pucRead\<close>, \<open>ks2\<close> the waiting
  ones between \<^verbatim>\<open>pucRead\<close> and \<^verbatim>\<open>pucAcquire\<close>.
\<close>

definition ns_rel :: "Ringbuffer \<Rightarrow> blk list \<Rightarrow> blk list \<Rightarrow> bool" where
  "ns_rel rb ks1 ks2 \<longleftrightarrow> ns_typed rb
     \<and> ns_geom (pucHead rb) (pucTail rb) (xMaxItemSize rb) \<and> pucTail rb = pucHead rb + xSize rb
     \<and> hdr_pos (pucHead rb) (pucTail rb) (pucFree rb)
     \<and> rb_chain rb (pucFree rb) (ks1 @ ks2)
     \<and> rb_end rb (pucFree rb) ks1 = pucRead rb \<and> rb_end rb (pucRead rb) ks2 = pucAcquire rb
     \<and> pucWrite rb = pucAcquire rb
     \<and> rb_len rb (pucFree rb) (ks1 @ ks2) \<le> xSize rb
     \<and> (is_full rb \<longleftrightarrow> rb_len rb (pucFree rb) (ks1 @ ks2) = xSize rb)
     \<and> xItemsWaiting rb = int (n_items ks2) \<and> waiting_ok ks2"

lemma ns_relD:
  assumes "ns_rel rb ks1 ks2"
  shows "ns_typed rb" and "ns_geom (pucHead rb) (pucTail rb) (xMaxItemSize rb)"
    and "pucTail rb = pucHead rb + xSize rb" and "hdr_pos (pucHead rb) (pucTail rb) (pucFree rb)"
    and "rb_chain rb (pucFree rb) (ks1 @ ks2)" and "rb_end rb (pucFree rb) (ks1 @ ks2) = pucAcquire rb"
    and "rb_len rb (pucFree rb) (ks1 @ ks2) \<le> xSize rb"
    and "is_full rb \<longleftrightarrow> rb_len rb (pucFree rb) (ks1 @ ks2) = xSize rb"
    and "hdr_pos (pucHead rb) (pucTail rb) (pucAcquire rb)"
    and "wrap (xSize rb) (pucFree rb - pucHead rb + rb_len rb (pucFree rb) (ks1 @ ks2))
           = pucAcquire rb - pucHead rb"
proof -
  show 1: "ns_typed rb" "ns_geom (pucHead rb) (pucTail rb) (xMaxItemSize rb)"
    "pucTail rb = pucHead rb + xSize rb" "hdr_pos (pucHead rb) (pucTail rb) (pucFree rb)"
    "rb_chain rb (pucFree rb) (ks1 @ ks2)" "rb_end rb (pucFree rb) (ks1 @ ks2) = pucAcquire rb"
    "rb_len rb (pucFree rb) (ks1 @ ks2) \<le> xSize rb"
    "is_full rb \<longleftrightarrow> rb_len rb (pucFree rb) (ks1 @ ks2) = xSize rb"
    using assms by (auto simp: ns_rel_def)
  show "hdr_pos (pucHead rb) (pucTail rb) (pucAcquire rb)"
    using chain_end_pos [OF 1(2,5,4)] 1(6) by simp
  show "wrap (xSize rb) (pucFree rb - pucHead rb + rb_len rb (pucFree rb) (ks1 @ ks2))
      = pucAcquire rb - pucHead rb"
    using chain_end_wrap [OF 1(2,5,4)] 1(3,6,7) by simp
qed

section \<open>Where an accepted item goes\<close>

text \<open>
  When \<^verbatim>\<open>prvCheckItemFitsDefault\<close> accepts an item of at most \<^verbatim>\<open>xMaxItemSize\<close> bytes, it
  either fits between \<^verbatim>\<open>pucAcquire\<close> and the tail, or at the head after a dummy block; in
  both cases the chain stays within the storage. For an empty buffer, where the function
  answers without looking at the size, this rests on \<^verbatim>\<open>xMaxItemSize\<close> being half the storage.
\<close>

lemma fits_arith:
  fixes H T acq free L tot :: nat
  assumes w: "wrap (T - H) (free - H + L) = acq - H" and L: "L \<le> T - H"
    and pa: "hdr_pos H T acq" and pf: "hdr_pos H T free" and g: "H mod 4 = 0" "T mod 4 = 0" "tot mod 4 = 0"
    and half: "2 * tot < (T - H) + 8" and nfull: "L < T - H"
    and fits: "acq = free \<or> (acq < free \<and> tot \<le> free - acq)
      \<or> (free < acq \<and> (tot \<le> T - acq \<or> tot \<le> free - H))"
  shows "(tot \<le> T - acq \<and> (if T - (acq + tot) < 8 then L + (T - acq) else L + tot) \<le> T - H) \<or>
    (T - acq < tot \<and> L + (T - acq) + tot \<le> T - H \<and> tot \<le> acq - H)"
proof -
  have f: "free - H < T - H" "H \<le> acq" "H \<le> free" "acq + 8 \<le> T" "free + 8 \<le> T"
    using pa pf by (auto simp: hdr_pos_def)
  note win = wrap_window [OF w f(1) L]
  consider "acq = free" | "acq < free" | "free < acq" by linarith
  then show ?thesis
  proof cases
    case 1
    then have "L = 0" using win(1) nfull by auto
    obtain i j t where q: "acq = H + 4 * i" "T = acq + 4 * j" "tot = 4 * t"
    proof -
      have "4 dvd acq - H" "4 dvd T - acq" "4 dvd tot"
        using g pa f by (auto simp: hdr_pos_def dvd_diff_nat mod_eq_0_iff_dvd)
      then show ?thesis using that f
        by (metis dvd_def le_add_diff_inverse le_trans le_add1)
    qed
    have "t \<le> i" if "j < t" using half q that by simp
    then show ?thesis using \<open>L = 0\<close> q f by (cases "j < t") auto
  next
    case 2
    then have "T - H - L = free - acq" using win(2) f by auto
    then show ?thesis using fits 2 f by auto
  next
    case 3
    then have "L = acq - free" using win(3) f by auto
    then show ?thesis using fits 3 f by (cases "tot \<le> T - acq") auto
  qed
qed

lemma ns_fits_place:
  assumes rel: "ns_rel rb ks1 ks2" and n: "n \<le> xMaxItemSize rb"
    and fits: "prvCheckItemFitsDefault rb n = Some True"
  defines "L \<equiv> rb_len rb (pucFree rb) (ks1 @ ks2)" and "tot \<equiv> 8 + rbALIGN_SIZE n"
  shows "(tot \<le> pucTail rb - pucAcquire rb \<and> L + blk_ext (pucTail rb) (pucAcquire rb) (Item n False) \<le> xSize rb) \<or>
    (pucTail rb - pucAcquire rb < tot \<and> L + (pucTail rb - pucAcquire rb) + tot \<le> xSize rb
     \<and> tot \<le> pucAcquire rb - pucHead rb)"
proof -
  note d = ns_relD [OF rel] note t = ns_geom_total [OF d(2) n]
  have S: "pucTail rb - pucHead rb = xSize rb" using d(3) by simp
  have add: "add32 (rbALIGN_SIZE n) 8 = tot" unfolding tot_def using t(5) by (simp add: add32_exact)
  have ns: "\<not> flag_set (uxRingbufferFlags rb) rbALLOW_SPLIT_FLAG" using d(1) by (simp add: ns_typed_def)
  have "pucAcquire rb = pucFree rb \<and> \<not> is_full rb \<or>
      (pucAcquire rb < pucFree rb \<and> tot \<le> pucFree rb - pucAcquire rb)
      \<or> (pucFree rb < pucAcquire rb \<and> (tot \<le> pucTail rb - pucAcquire rb \<or> tot \<le> pucFree rb - pucHead rb))"
    using fits ns unfolding prvCheckItemFitsDefault_def add Let_def
    by (auto split: if_splits)
  moreover have off: "pucFree rb - pucHead rb < xSize rb" "pucHead rb \<le> pucFree rb" "pucHead rb \<le> pucAcquire rb"
    using d(3,4,9) by (auto simp: hdr_pos_def)
  moreover have "pucAcquire rb \<noteq> pucFree rb \<Longrightarrow> L \<noteq> xSize rb"
    using wrap_window(1) [OF d(10) off(1) d(7)] off(2,3) unfolding L_def by auto
  ultimately have nf: "L < xSize rb" and
    f: "pucAcquire rb = pucFree rb \<or> (pucAcquire rb < pucFree rb \<and> tot \<le> pucFree rb - pucAcquire rb)
      \<or> (pucFree rb < pucAcquire rb \<and> (tot \<le> pucTail rb - pucAcquire rb \<or> tot \<le> pucFree rb - pucHead rb))"
    using d(7,8) unfolding L_def by auto
  have "tot mod 4 = 0" "2 * tot < (pucTail rb - pucHead rb) + 8"
    using t(3,4) unfolding tot_def by presburger+
  from fits_arith [OF _ _ d(9,4) _ _ this _ f, of L] show ?thesis
    using d(2,7,10) nf unfolding S L_def [symmetric]
    by (auto simp: ns_geom_def tot_def add.assoc [symmetric])
qed

end
