(* ===== verification/Ringbuf_NoSplit.thy ===== *)
theory Ringbuf_NoSplit
  imports Ringbuf_Chain
begin

text \<open>
  No-split buffers used through send, receive and return. The invariant \<open>ns_inv\<close> says
  that the storage is a chain of blocks (\<open>ns_rel\<close>), that \<^verbatim>\<open>pucRead\<close> stands between two
  of them, and that the bytes of every item the client still holds are where it received
  them. Sending, receiving and returning (in any order) keep it, and implement a FIFO of
  items by interpreting \<open>borrow_queue\<close>. All loops are shown to end and no assertion fails.
\<close>

section \<open>Sending\<close>

text \<open>The storage after an item has been written at \<open>p\<close> and marked as written.\<close>

definition item_mem :: "memory \<Rightarrow> nat \<Rightarrow> u8 list \<Rightarrow> memory" where
  "item_mem m p bs = set_ItemFlags (wr_bytes (set_ItemFlags (set_ItemLen m p (length bs)) p 0) (p + 8) bs) p
     rbITEM_WRITTEN_FLAG"

lemma item_mem:
  assumes "length bs < 2 ^ 32"
  shows "xItemLen (item_mem m p bs) p = length bs" and "uxItemFlags (item_mem m p bs) p = rbITEM_WRITTEN_FLAG"
    and "rd_bytes (item_mem m p bs) (p + 8) (length bs) = bs"
    and "x < p \<or> p + 8 + length bs \<le> x \<Longrightarrow> item_mem m p bs x = m x"
  using assms
  by (auto simp: item_mem_def xItemLen_def uxItemFlags_def set_ItemLen_def set_ItemFlags_def mem_simps
      unat_of_nat take_bit_nat_eq_self)

lemma hdr_set_flags [mem_simps]:
  "xItemLen (set_ItemFlags m p f) p = xItemLen m p" "uxItemFlags (set_ItemFlags m p f) p = f"
  "x < p \<or> p + 8 \<le> x \<Longrightarrow> set_ItemFlags m p f x = m x"
  by (auto simp: xItemLen_def uxItemFlags_def set_ItemFlags_def mem_simps)

lemma hdr_set_len [mem_simps]:
  "n < 2 ^ 32 \<Longrightarrow> xItemLen (set_ItemLen m p n) p = n" "uxItemFlags (set_ItemLen m p n) p = uxItemFlags m p"
  "x < p \<or> p + 8 \<le> x \<Longrightarrow> set_ItemLen m p n x = m x"
  by (auto simp: xItemLen_def uxItemFlags_def set_ItemLen_def mem_simps unat_of_nat take_bit_nat_eq_self)

lemma hdr_wr_bytes [mem_simps]:
  assumes "p + 8 \<le> a \<or> a + length bs \<le> p"
  shows "xItemLen (wr_bytes m a bs) p = xItemLen m p" and "uxItemFlags (wr_bytes m a bs) p = uxItemFlags m p"
  using assms by (auto simp: xItemLen_def uxItemFlags_def intro!: rd32_wr_bytes_disjoint arg_cong [of _ _ unat])

definition acquired :: "Ringbuffer \<Rightarrow> memory \<Rightarrow> nat \<Rightarrow> Ringbuffer" where
  "acquired rb m q = rb\<lparr> store := m, pucAcquire := q,
     uxRingbufferFlags := (if q = pucFree rb then uxRingbufferFlags rb OR rbBUFFER_FULL_FLAG
                           else uxRingbufferFlags rb) \<rparr>"

lemma acquire_tail:
  assumes "e \<le> pucTail rb"
  shows "mark_full (wrap_acquire (rb\<lparr> store := m, pucAcquire := e \<rparr>)) =
    acquired rb m (ns_next (pucHead rb) (pucTail rb) e)"
  using assms by (simp add: mark_full_def wrap_acquire_def acquired_def ns_next_def tail_rem_lt_header_def)

lemma advance_write_item:
  assumes "flag_set (uxItemFlags (store rb) (pucWrite rb)) rbITEM_WRITTEN_FLAG"
    and "\<not> flag_set (uxItemFlags (store rb) (pucWrite rb)) rbITEM_DUMMY_DATA_FLAG"
    and "xItemLen (store rb) (pucWrite rb) = n" and "rbALIGN_SIZE n + 8 < 2 ^ 32"
    and "pucWrite rb + 8 + rbALIGN_SIZE n \<le> pucTail rb" and "pucTail rb = pucHead rb + xSize rb"
    and "pucAcquire rb = ns_next (pucHead rb) (pucTail rb) (pucWrite rb + 8 + rbALIGN_SIZE n)"
  shows "advance_write rb = Some (rb\<lparr> pucWrite := pucAcquire rb \<rparr>)"
  using assms
  by (subst advance_write.simps)
     (auto simp: Let_def add32_exact tail_rem_lt_header_def ns_next_def ac_simps)

lemma advance_write_dummy:
  assumes "flag_set (uxItemFlags (store rb) (pucWrite rb)) rbITEM_DUMMY_DATA_FLAG"
    and "pucHead rb + 8 \<le> pucTail rb" and "pucAcquire rb \<noteq> pucHead rb"
  shows "advance_write rb = advance_write (rb\<lparr> store := set_ItemFlags (store rb) (pucWrite rb)
      (uxItemFlags (store rb) (pucWrite rb) OR rbITEM_WRITTEN_FLAG), pucWrite := pucHead rb \<rparr>)"
  using assms by (subst advance_write.simps) (auto simp: Let_def tail_rem_lt_header_def)

text \<open>The state after a copied item: \<open>m\<close> is the new storage, \<open>q\<close> the new acquire pointer.\<close>

definition copied :: "Ringbuffer \<Rightarrow> memory \<Rightarrow> nat \<Rightarrow> Ringbuffer" where
  "copied rb m q = (acquired rb m q)\<lparr> pucWrite := q, xItemsWaiting := xItemsWaiting rb + 1 \<rparr>"

definition dummy_mem :: "memory \<Rightarrow> nat \<Rightarrow> memory" where
  "dummy_mem m p = set_ItemLen (set_ItemFlags m p rbITEM_DUMMY_DATA_FLAG) p 0"

lemma send_done_flags: "((0::u32) AND NOT rbITEM_SPLIT_FLAG) OR rbITEM_WRITTEN_FLAG = rbITEM_WRITTEN_FLAG"
  by simp

lemma send_done_item:
  assumes g: "ns_geom H T mx" and p: "hdr_pos H T p" and n: "length bs \<le> mx" "p + 8 + length bs \<le> T"
    and rb: "pucHead rb = H" "pucTail rb = T" "xMaxItemSize rb = mx"
    and m: "store rb = wr_bytes (set_ItemFlags (set_ItemLen m p (length bs)) p 0) (p + 8) bs"
  shows "prvSendItemDoneNoSplit rb (p + 8) =
    advance_write (rb\<lparr> store := item_mem m p bs, xItemsWaiting := xItemsWaiting rb + 1 \<rparr>)"
proof -
  have "length bs < 2 ^ 32" using ns_geom_total(1,5) [OF g n(1)] by simp
  then have h: "xItemLen (store rb) p = length bs" "uxItemFlags (store rb) p = 0"
    unfolding m by (simp_all add: mem_simps)
  have "set_ItemFlags (store rb) p rbITEM_WRITTEN_FLAG = item_mem m p bs"
    unfolding m item_mem_def ..
  moreover have "rbCHECK_ALIGNED (p + 8)" "H \<le> p + 8" "p + 8 \<le> T"
    using p n by (auto simp: rbCHECK_ALIGNED_def hdr_pos_def mod_add_eq mod_add_right_eq[symmetric])
  ultimately show ?thesis
    using h n(1) rb unfolding prvSendItemDoneNoSplit_def by (simp add: send_done_flags)
qed

lemma copy_fits_tail:
  assumes g: "ns_geom (pucHead rb) (pucTail rb) (xMaxItemSize rb)" and T: "pucTail rb = pucHead rb + xSize rb"
    and a: "hdr_pos (pucHead rb) (pucTail rb) (pucAcquire rb)" and w: "pucWrite rb = pucAcquire rb"
    and n: "length bs \<le> xMaxItemSize rb" "8 + rbALIGN_SIZE (length bs) \<le> pucTail rb - pucAcquire rb"
  shows "prvCopyItemNoSplit rb bs = Some (copied rb (item_mem (store rb) (pucAcquire rb) bs)
    (ns_next (pucHead rb) (pucTail rb) (pucAcquire rb + 8 + rbALIGN_SIZE (length bs))))"
proof -
  let ?p = "pucAcquire rb" let ?q = "ns_next (pucHead rb) (pucTail rb) (?p + 8 + rbALIGN_SIZE (length bs))"
  let ?m = "set_ItemFlags (set_ItemLen (store rb) ?p (length bs)) ?p 0"
  note t = ns_geom_total [OF g n(1)]
  have ok: "rbCHECK_ALIGNED ?p" "acquire_in_bounds rb" "8 \<le> pucTail rb - ?p"
    using a by (auto simp: rbCHECK_ALIGNED_def acquire_in_bounds_def hdr_pos_def)
  have acq: "prvAcquireItemNoSplit rb (length bs) = Some (acquired rb ?m ?q, ?p + 8)"
    using ok n(2) t(5) acquire_tail [of "?p + 8 + rbALIGN_SIZE (length bs)" rb ?m]
    by (simp add: prvAcquireItemNoSplit_def Let_def add32_exact ac_simps)
  have len: "length bs < 2 ^ 32" using t(1,5) by simp
  let ?r = "(acquired rb ?m ?q)\<lparr> store := wr_bytes ?m (?p + 8) bs \<rparr>"
  have "prvSendItemDoneNoSplit ?r (?p + 8) =
      advance_write (?r\<lparr> store := item_mem (store rb) ?p bs, xItemsWaiting := xItemsWaiting ?r + 1 \<rparr>)"
    using n t(1) by (intro send_done_item [OF g a]) (auto simp: acquired_def)
  also have "\<dots> = Some (copied rb (item_mem (store rb) ?p bs) ?q)"
    using w n(2) a T t(5) item_mem(1,2) [OF len]
    by (subst advance_write_item [of _ "length bs"])
       (auto simp: acquired_def copied_def flag_simps hdr_pos_def)
  finally show ?thesis
    using acq by (simp add: prvCopyItemNoSplit_def acquired_def)
qed

lemma copy_fits_head:
  assumes g: "ns_geom (pucHead rb) (pucTail rb) (xMaxItemSize rb)" and T: "pucTail rb = pucHead rb + xSize rb"
    and a: "hdr_pos (pucHead rb) (pucTail rb) (pucAcquire rb)" and w: "pucWrite rb = pucAcquire rb"
    and n: "length bs \<le> xMaxItemSize rb" "pucTail rb - pucAcquire rb < 8 + rbALIGN_SIZE (length bs)"
      "8 + rbALIGN_SIZE (length bs) \<le> pucAcquire rb - pucHead rb"
  shows "prvCopyItemNoSplit rb bs = Some (copied rb
    (set_ItemFlags (item_mem (dummy_mem (store rb) (pucAcquire rb)) (pucHead rb) bs) (pucAcquire rb)
       (rbITEM_DUMMY_DATA_FLAG OR rbITEM_WRITTEN_FLAG))
    (pucHead rb + 8 + rbALIGN_SIZE (length bs)))"
proof -
  let ?p = "pucAcquire rb" let ?H = "pucHead rb" let ?d = "dummy_mem (store rb) ?p"
  let ?q = "?H + 8 + rbALIGN_SIZE (length bs)"
  let ?m = "set_ItemFlags (set_ItemLen ?d ?H (length bs)) ?H 0"
  let ?i = "item_mem ?d ?H bs"
  note t = ns_geom_total [OF g n(1)]
  have len: "length bs < 2 ^ 32" using t(1,5) by simp
  have H: "hdr_pos ?H (pucTail rb) ?H" using g by (auto simp: hdr_pos_def ns_geom_def)
  have nx: "ns_next ?H (pucTail rb) ?q = ?q" using a n(3) by (auto simp: ns_next_def hdr_pos_def)
  have ok: "rbCHECK_ALIGNED ?p" "acquire_in_bounds rb" "8 \<le> pucTail rb - ?p" "?p < pucTail rb" "?q \<le> pucTail rb"
    using a n(3) by (auto simp: rbCHECK_ALIGNED_def acquire_in_bounds_def hdr_pos_def)
  have acq: "prvAcquireItemNoSplit rb (length bs) = Some (acquired rb ?m ?q, ?H + 8)"
    using ok n(2) t(5) nx acquire_tail [of ?q rb ?m]
    by (simp add: prvAcquireItemNoSplit_def Let_def add32_exact ac_simps dummy_mem_def)
  let ?r = "(acquired rb ?m ?q)\<lparr> store := wr_bytes ?m (?H + 8) bs \<rparr>"
  let ?s = "?r\<lparr> store := ?i, xItemsWaiting := xItemsWaiting ?r + 1 \<rparr>"
  have 1: "prvSendItemDoneNoSplit ?r (?H + 8) = advance_write ?s"
    using n t(1) ok(5) by (intro send_done_item [OF g H]) (auto simp: acquired_def)
  have out: "uxItemFlags ?i ?p = uxItemFlags ?d ?p"
    using n(3) t(1) by (intro hdr_cong item_mem(4) [OF len]) auto
  have f: "uxItemFlags ?i ?p = rbITEM_DUMMY_DATA_FLAG"
    unfolding out by (simp add: dummy_mem_def mem_simps)
  let ?u = "?s\<lparr> store := set_ItemFlags ?i ?p (rbITEM_DUMMY_DATA_FLAG OR rbITEM_WRITTEN_FLAG), pucWrite := ?H \<rparr>"
  have 2: "advance_write ?s = advance_write ?u"
    using f w ok H by (subst advance_write_dummy) (auto simp: acquired_def flag_simps hdr_pos_def)
  have "uxItemFlags (set_ItemFlags ?i ?p v) ?H = uxItemFlags ?i ?H"
    "xItemLen (set_ItemFlags ?i ?p v) ?H = xItemLen ?i ?H" for v
    using n(3) by (intro hdr_cong hdr_set_flags(3); linarith)+
  then have "advance_write ?u = Some (?u\<lparr> pucWrite := ?q \<rparr>)"
    using nx ok(5) T t(5) item_mem(1,2) [OF len]
    by (subst advance_write_item [of _ "length bs"]) (auto simp: acquired_def flag_simps)
  then show ?thesis
    using acq 1 2 by (simp add: prvCopyItemNoSplit_def acquired_def copied_def)
qed

lemma full_flag_or [flag_simps]: "flag_set (w OR rbBUFFER_FULL_FLAG) rbBUFFER_FULL_FLAG"
  "flag_set (w OR rbBUFFER_FULL_FLAG) rbBYTE_BUFFER_FLAG = flag_set w rbBYTE_BUFFER_FLAG"
  "flag_set (w OR rbBUFFER_FULL_FLAG) rbALLOW_SPLIT_FLAG = flag_set w rbALLOW_SPLIT_FLAG"
  by (simp_all add: flag_simps)

text \<open>Appending blocks behind \<^verbatim>\<open>pucAcquire\<close> without touching the chain in front.\<close>

lemma ns_rel_extend:
  assumes rel: "ns_rel rb ks1 ks2"
    and m: "\<And>x. x \<in> chain_area (pucHead rb) (pucTail rb) (pucFree rb) (ks1 @ ks2) \<Longrightarrow> m x = store rb x"
    and js: "chain (pucHead rb) (pucTail rb) (xMaxItemSize rb) m (pucAcquire rb) js" "js \<noteq> []"
      "waiting_ok js" "n_items js = 1"
    and fit: "rb_len rb (pucFree rb) (ks1 @ ks2) + rb_len rb (pucAcquire rb) js \<le> xSize rb"
  defines "rb' \<equiv> copied rb m (rb_end rb (pucAcquire rb) js)"
  shows "ns_rel rb' ks1 (ks2 @ js)"
    and "rb_items rb' (pucFree rb) ks1 = rb_items rb (pucFree rb) ks1"
    and "rb_items rb' (pucRead rb) (ks2 @ js) = rb_items rb (pucRead rb) ks2 @
      chain_items (pucHead rb) (pucTail rb) m (pucAcquire rb) js"
proof -
  note d = ns_relD [OF rel]
  let ?q = "rb_end rb (pucAcquire rb) js"
  let ?L = "rb_len rb (pucFree rb) (ks1 @ ks2) + rb_len rb (pucAcquire rb) js"
  have rd: "rb_end rb (pucFree rb) ks1 = pucRead rb" "rb_end rb (pucRead rb) ks2 = pucAcquire rb"
    and wait: "xItemsWaiting rb = int (n_items ks2)" "waiting_ok ks2"
    using rel by (auto simp: ns_rel_def)
  have L: "?L = rb_len rb (pucFree rb) ((ks1 @ ks2) @ js)" "?q = rb_end rb (pucFree rb) ((ks1 @ ks2) @ js)"
    using d(6) by auto
  have f: "chain_area (pucHead rb) (pucTail rb) (pucFree rb) ks1 \<subseteq> chain_area (pucHead rb) (pucTail rb) (pucFree rb) (ks1 @ ks2)"
    "chain_area (pucHead rb) (pucTail rb) (pucRead rb) ks2 \<subseteq> chain_area (pucHead rb) (pucTail rb) (pucFree rb) (ks1 @ ks2)"
    using rd by (auto simp: chain_area_append)
  note c = chain_cong [of "pucHead rb" "pucTail rb" _ _ m "store rb"]
  have ch: "chain (pucHead rb) (pucTail rb) (xMaxItemSize rb) m (pucFree rb) ((ks1 @ ks2) @ js)"
    unfolding chain_append [of _ _ _ _ _ "ks1 @ ks2" js] d(6) using c(1) [OF m] d(5) js(1) by blast
  have "0 < rb_len rb (pucAcquire rb) js" using chain_len_0 [OF d(2) js(1)] js(2) by simp
  then have L0: "?L \<noteq> 0" "\<not> is_full rb" using fit d(8) by auto
  have off: "pucFree rb - pucHead rb < xSize rb" "pucHead rb \<le> pucFree rb" using d(3,4) by (auto simp: hdr_pos_def)
  have hp: "pucHead rb \<le> ?q" using chain_end_pos [OF d(2) js(1) d(9)] by (simp add: hdr_pos_def)
  have w: "wrap (xSize rb) (pucFree rb - pucHead rb + ?L) = ?q - pucHead rb"
    using chain_end_wrap [OF d(2) ch d(4)] fit d(3) unfolding L by simp
  have full: "?q = pucFree rb \<longleftrightarrow> ?L = xSize rb"
    using wrap_window(1) [OF w off(1) fit] L0(1) hp off(2) by auto
  have fs: "flag_set (uxRingbufferFlags rb') rbBUFFER_FULL_FLAG \<longleftrightarrow> ?L = xSize rb"
    "flag_set (uxRingbufferFlags rb') rbBYTE_BUFFER_FLAG = flag_set (uxRingbufferFlags rb) rbBYTE_BUFFER_FLAG"
    "flag_set (uxRingbufferFlags rb') rbALLOW_SPLIT_FLAG = flag_set (uxRingbufferFlags rb) rbALLOW_SPLIT_FLAG"
    using L0(2) full by (simp_all add: rb'_def copied_def acquired_def full_flag_or)
  have sel: "pucHead rb' = pucHead rb" "pucTail rb' = pucTail rb" "pucFree rb' = pucFree rb"
    "pucRead rb' = pucRead rb" "store rb' = m" "xMaxItemSize rb' = xMaxItemSize rb" "xSize rb' = xSize rb"
    "pucAcquire rb' = ?q" "pucWrite rb' = ?q" "xItemsWaiting rb' = xItemsWaiting rb + 1"
    by (simp_all add: rb'_def copied_def acquired_def)
  have ty: "ns_typed rb'"
    using d(1) fs(2,3) unfolding ns_typed_def by (simp add: rb'_def copied_def acquired_def)
  show "ns_rel rb' ks1 (ks2 @ js)"
    unfolding ns_rel_def sel fs using ty d(2,3,4) ch rd fit wait js(3,4) waiting_ok_append by (simp add: add.assoc)
  show "rb_items rb' (pucFree rb) ks1 = rb_items rb (pucFree rb) ks1"
    unfolding sel using f by (intro c(2) m) auto
  show "rb_items rb' (pucRead rb) (ks2 @ js) = rb_items rb (pucRead rb) ks2 @
      chain_items (pucHead rb) (pucTail rb) m (pucAcquire rb) js"
    unfolding sel using f rd by (subst c(2) [OF m, symmetric]) (auto simp: chain_items_append)
qed

lemma item_blk_ok:
  assumes "ns_geom H T mx" and "hdr_pos H T p" and "length bs \<le> mx" and "p + 8 + rbALIGN_SIZE (length bs) \<le> T"
    and "xItemLen m p = length bs" and "uxItemFlags m p = rbITEM_WRITTEN_FLAG"
  shows "blk_ok H T mx m p (Item (length bs) False)"
  using assms by (auto simp: blk_ok_def hdr_pos_def flag_simps)


text \<open>The storage when the item goes to the head \<open>h\<close> and a dummy header is left at \<open>a\<close>.\<close>

lemma ns_head_mem:
  fixes m :: memory
  assumes len: "length bs < 2 ^ 32" and "h + 8 + length bs \<le> a"
  defines "m' \<equiv> set_ItemFlags (item_mem (dummy_mem m a) h bs) a (rbITEM_DUMMY_DATA_FLAG OR rbITEM_WRITTEN_FLAG)"
  shows "xItemLen m' h = length bs" and "uxItemFlags m' h = rbITEM_WRITTEN_FLAG"
    and "rd_bytes m' (h + 8) (length bs) = bs"
    and "uxItemFlags m' a = rbITEM_DUMMY_DATA_FLAG OR rbITEM_WRITTEN_FLAG"
    and "x < h \<or> h + 8 + length bs \<le> x \<Longrightarrow> x < a \<or> a + 8 \<le> x \<Longrightarrow> m' x = m x"
proof -
  note im = item_mem [where m = "dummy_mem m a" and p = h, OF len]
  have o: "m' x = item_mem (dummy_mem m a) h bs x" if "x < a" for x
    unfolding m'_def using that by (intro hdr_set_flags(3)) simp
  show "xItemLen m' h = length bs" "uxItemFlags m' h = rbITEM_WRITTEN_FLAG"
    using hdr_cong [of h m' "item_mem (dummy_mem m a) h bs"] o assms(2) im(1,2) by auto
  show "rd_bytes m' (h + 8) (length bs) = bs"
    using rd_bytes_cong [of "h + 8" "length bs" m' "item_mem (dummy_mem m a) h bs"] o assms(2) im(3) by auto
  show "uxItemFlags m' a = rbITEM_DUMMY_DATA_FLAG OR rbITEM_WRITTEN_FLAG"
    unfolding m'_def by (simp add: mem_simps)
  show "m' x = m x" if "x < h \<or> h + 8 + length bs \<le> x" "x < a \<or> a + 8 \<le> x"
    unfolding m'_def using that im(4) [OF that(1)] by (simp add: hdr_set_flags) (simp add: dummy_mem_def mem_simps)
qed

lemma wrap_at:
  fixes H T a x :: nat
  assumes "H \<le> a"
  shows "a \<le> x \<Longrightarrow> x < T \<Longrightarrow> H + wrap (T - H) (a - H + (x - a)) = x"
    and "H \<le> x \<Longrightarrow> a \<le> T \<Longrightarrow> x < T \<Longrightarrow> H + wrap (T - H) (a - H + (T - a + (x - H))) = x"
proof -
  show "H + wrap (T - H) (a - H + (x - a)) = x" if "a \<le> x" "x < T"
  proof -
    have "a - H + (x - a) = x - H" "x - H < T - H" using that assms by linarith+
    then show ?thesis using that assms by (simp add: wrap_def)
  qed
  show "H + wrap (T - H) (a - H + (T - a + (x - H))) = x" if "H \<le> x" "a \<le> T" "x < T"
  proof -
    have "a - H + (T - a + (x - H)) = (T - H) + (x - H)" using that assms by linarith
    moreover have "wrap (T - H) ((T - H) + (x - H)) = x - H" by (simp only: wrap_def) simp
    ultimately show ?thesis using that(1) by (simp only: le_add_diff_inverse)
  qed
qed

text \<open>The free part of the storage, behind \<^verbatim>\<open>pucAcquire\<close> or from the head, is outside the chain.\<close>

lemma ns_outside:
  assumes rel: "ns_rel rb ks1 ks2"
    and x: "pucAcquire rb \<le> x \<and> x < pucTail rb \<and> rb_len rb (pucFree rb) (ks1 @ ks2) + (x - pucAcquire rb) < xSize rb \<or>
      pucHead rb \<le> x \<and> x < pucTail rb \<and>
        rb_len rb (pucFree rb) (ks1 @ ks2) + (pucTail rb - pucAcquire rb + (x - pucHead rb)) < xSize rb"
  shows "x \<notin> chain_area (pucHead rb) (pucTail rb) (pucFree rb) (ks1 @ ks2)"
proof -
  note d = ns_relD [OF rel]
  have H: "pucHead rb \<le> pucAcquire rb" "pucAcquire rb \<le> pucTail rb" and S: "pucTail rb - pucHead rb = xSize rb"
    using d(3,9) by (auto simp: hdr_pos_def)
  note o = outside_chain [OF d(2,5,4), unfolded d(6) S] and w = wrap_at [OF H(1), of x "pucTail rb", unfolded S]
  from x show ?thesis using o w H(2) by (metis (no_types))
qed

text \<open>
  The effect of \<^verbatim>\<open>prvCopyItemNoSplit\<close> on an item that was found to fit: it returns, the
  blocks in front are untouched, and the item is appended (behind a dummy block where the
  rest of the storage was too short).
\<close>

lemma ns_copy_tail:
  assumes rel: "ns_rel rb ks1 ks2" and n: "length bs \<le> xMaxItemSize rb"
    and tot: "8 + rbALIGN_SIZE (length bs) \<le> pucTail rb - pucAcquire rb"
    and L: "rb_len rb (pucFree rb) (ks1 @ ks2) + blk_ext (pucTail rb) (pucAcquire rb) (Item (length bs) False) \<le> xSize rb"
  defines "m \<equiv> item_mem (store rb) (pucAcquire rb) bs" and "js \<equiv> [Item (length bs) False]"
  defines "rb' \<equiv> copied rb m (rb_end rb (pucAcquire rb) js)"
  shows "prvCopyItemNoSplit rb bs = Some rb'" and "ns_rel rb' ks1 (ks2 @ js)"
    and "rb_items rb' (pucFree rb) ks1 = rb_items rb (pucFree rb) ks1"
    and "rb_items rb' (pucRead rb) (ks2 @ js) = rb_items rb (pucRead rb) ks2 @ [(pucAcquire rb + 8, bs, False)]"
proof -
  note d = ns_relD [OF rel]
  have wr: "pucWrite rb = pucAcquire rb" using rel by (simp add: ns_rel_def)
  note t = ns_geom_total [OF d(2) n]
  have len: "length bs < 2 ^ 32" using t(1,5) by simp
  note im = item_mem [OF len]
  have pa: "pucHead rb \<le> pucAcquire rb" "pucAcquire rb + 8 \<le> pucTail rb"
    using d(9) by (auto simp: hdr_pos_def)
  have b: "blk_ok (pucHead rb) (pucTail rb) (xMaxItemSize rb) m (pucAcquire rb) (Item (length bs) False)"
    using tot pa im(1,2) d(2,9) n unfolding m_def by (intro item_blk_ok) auto
  have fr: "m x = store rb x" if "x \<in> chain_area (pucHead rb) (pucTail rb) (pucFree rb) (ks1 @ ks2)" for x
  proof (rule ccontr)
    assume ne: "m x \<noteq> store rb x"
    then have "\<not> (x < pucAcquire rb \<or> pucAcquire rb + 8 + length bs \<le> x)" unfolding m_def using im(4) by blast
    then have x: "pucAcquire rb \<le> x" "x < pucAcquire rb + 8 + length bs" by linarith+
    have "x - pucAcquire rb < 8 + length bs" "x < pucTail rb" using x tot pa(2) t(1) by linarith+
    moreover have "8 + length bs \<le> blk_ext (pucTail rb) (pucAcquire rb) (Item (length bs) False)"
      using tot t(1) by auto
    ultimately have "rb_len rb (pucFree rb) (ks1 @ ks2) + (x - pucAcquire rb) < xSize rb" "x < pucTail rb"
      using L by linarith+
    then show False using ns_outside [OF rel, of x] that x(1) by blast
  qed
  show "prvCopyItemNoSplit rb bs = Some rb'"
    using copy_fits_tail [OF d(2,3,9) wr n tot] unfolding rb'_def m_def js_def by simp
  show "ns_rel rb' ks1 (ks2 @ js)" "rb_items rb' (pucFree rb) ks1 = rb_items rb (pucFree rb) ks1"
    "rb_items rb' (pucRead rb) (ks2 @ js) = rb_items rb (pucRead rb) ks2 @ [(pucAcquire rb + 8, bs, False)]"
    using ns_rel_extend [OF rel fr, of js] b L im(3) unfolding rb'_def m_def js_def by simp_all
qed

lemma ns_copy_head:
  assumes rel: "ns_rel rb ks1 ks2" and n: "length bs \<le> xMaxItemSize rb"
    and tot: "pucTail rb - pucAcquire rb < 8 + rbALIGN_SIZE (length bs)"
      "8 + rbALIGN_SIZE (length bs) \<le> pucAcquire rb - pucHead rb"
    and L: "rb_len rb (pucFree rb) (ks1 @ ks2) + (pucTail rb - pucAcquire rb) + (8 + rbALIGN_SIZE (length bs)) \<le> xSize rb"
  defines "m \<equiv> set_ItemFlags (item_mem (dummy_mem (store rb) (pucAcquire rb)) (pucHead rb) bs) (pucAcquire rb)
       (rbITEM_DUMMY_DATA_FLAG OR rbITEM_WRITTEN_FLAG)" and "js \<equiv> [Dummy, Item (length bs) False]"
  defines "rb' \<equiv> copied rb m (rb_end rb (pucAcquire rb) js)"
  shows "prvCopyItemNoSplit rb bs = Some rb'" and "ns_rel rb' ks1 (ks2 @ js)"
    and "rb_items rb' (pucFree rb) ks1 = rb_items rb (pucFree rb) ks1"
    and "rb_items rb' (pucRead rb) (ks2 @ js) = rb_items rb (pucRead rb) ks2 @ [(pucHead rb + 8, bs, False)]"
proof -
  note d = ns_relD [OF rel]
  have wr: "pucWrite rb = pucAcquire rb" using rel by (simp add: ns_rel_def)
  note t = ns_geom_total [OF d(2) n]
  have len: "length bs < 2 ^ 32" using t(1,5) by simp
  have pa: "pucHead rb \<le> pucAcquire rb" "pucAcquire rb + 8 \<le> pucTail rb"
    and pH: "hdr_pos (pucHead rb) (pucTail rb) (pucHead rb)"
    using d(2,9) by (auto simp: hdr_pos_def ns_geom_def)
  have nx: "ns_next (pucHead rb) (pucTail rb) (pucHead rb + 8 + rbALIGN_SIZE (length bs)) =
      pucHead rb + 8 + rbALIGN_SIZE (length bs)"
    using pa tot(2) by (auto simp: ns_next_def)
  have b: "blk_ok (pucHead rb) (pucTail rb) (xMaxItemSize rb) m (pucHead rb) (Item (length bs) False)"
    and itm: "rd_bytes m (pucHead rb + 8) (length bs) = bs"
    and dm: "blk_ok (pucHead rb) (pucTail rb) (xMaxItemSize rb) m (pucAcquire rb) Dummy"
    and out: "x < pucHead rb \<or> pucHead rb + 8 + length bs \<le> x \<Longrightarrow>
      x < pucAcquire rb \<or> pucAcquire rb + 8 \<le> x \<Longrightarrow> m x = store rb x" for x
    unfolding m_def using ns_head_mem [where m = "store rb" and h = "pucHead rb" and a = "pucAcquire rb", OF len] tot t(1) pa pH n d(2,9)
    by (auto simp: blk_ok_def hdr_pos_def flag_simps intro!: item_blk_ok)
  have fr: "m x = store rb x" if "x \<in> chain_area (pucHead rb) (pucTail rb) (pucFree rb) (ks1 @ ks2)" for x
  proof (rule ccontr)
    assume ne: "m x \<noteq> store rb x"
    then consider "pucAcquire rb \<le> x" "x < pucAcquire rb + 8" | "pucHead rb \<le> x" "x < pucHead rb + 8 + length bs"
      using out [of x] by linarith
    then have "pucAcquire rb \<le> x \<and> x < pucTail rb \<and> rb_len rb (pucFree rb) (ks1 @ ks2) + (x - pucAcquire rb) < xSize rb \<or>
      pucHead rb \<le> x \<and> x < pucTail rb \<and>
        rb_len rb (pucFree rb) (ks1 @ ks2) + (pucTail rb - pucAcquire rb + (x - pucHead rb)) < xSize rb"
      using L tot t(1) pa by cases linarith+
    then show False using ns_outside [OF rel, of x] that by blast
  qed
  show "prvCopyItemNoSplit rb bs = Some rb'"
    using copy_fits_head [OF d(2,3,9) wr n tot] nx unfolding rb'_def m_def js_def by simp
  show "ns_rel rb' ks1 (ks2 @ js)" "rb_items rb' (pucFree rb) ks1 = rb_items rb (pucFree rb) ks1"
    "rb_items rb' (pucRead rb) (ks2 @ js) = rb_items rb (pucRead rb) ks2 @ [(pucHead rb + 8, bs, False)]"
    using ns_rel_extend [OF rel fr, of js] b dm L itm pa tot(2) unfolding rb'_def js_def by (simp_all add: add.assoc)
qed

section \<open>Receiving\<close>

lemma ns_avail:
  assumes rel: "ns_rel rb ks1 ks2"
  shows "prvCheckItemAvail rb \<longleftrightarrow> ks2 \<noteq> []" and "items_to_read rb \<longleftrightarrow> ks2 \<noteq> []"
proof -
  note d = ns_relD [OF rel]
  have r: "xItemsWaiting rb = int (n_items ks2)" "waiting_ok ks2" "rb_end rb (pucRead rb) ks2 = pucAcquire rb"
    "rb_end rb (pucFree rb) ks1 = pucRead rb" "pucWrite rb = pucAcquire rb"
    using rel by (auto simp: ns_rel_def)
  have c: "rb_chain rb (pucRead rb) ks2" "hdr_pos (pucHead rb) (pucTail rb) (pucRead rb)"
    using d(5) r(4) chain_end_pos [OF d(2) _ d(4), of "store rb" ks1] by (auto simp: chain_append)
  have l: "rb_len rb (pucFree rb) ks1 + rb_len rb (pucRead rb) ks2 \<le> xSize rb" using d(7) r(4) by simp
  have off: "pucRead rb - pucHead rb < xSize rb" using c(2) d(3) by (auto simp: hdr_pos_def)
  have w: "wrap (xSize rb) (pucRead rb - pucHead rb + rb_len rb (pucRead rb) ks2) = pucAcquire rb - pucHead rb"
    using chain_end_wrap [OF d(2) c] l d(3) r(3) by simp
  have "rb_len rb (pucRead rb) ks2 = xSize rb" if "pucRead rb = pucAcquire rb" "ks2 \<noteq> []"
    using wrap_window(1) [OF w off] l that chain_len_0 [OF d(2) c(1)] by auto
  then have full: "is_full rb" if "pucRead rb = pucAcquire rb" "ks2 \<noteq> []"
    using that d(8) r(4) l by auto
  show it: "items_to_read rb \<longleftrightarrow> ks2 \<noteq> []"
    using full n_items_0 [OF r(2)] r by (auto simp: items_to_read_def)
  have "flag_set (uxItemFlags (store rb) (pucRead rb)) rbITEM_WRITTEN_FLAG" if "ks2 \<noteq> []"
    using c(1) that by (cases ks2) (auto simp: blk_ok_def)
  then show "prvCheckItemAvail rb \<longleftrightarrow> ks2 \<noteq> []"
    using d(1) it by (auto simp: prvCheckItemAvail_def ns_typed_def)
qed

lemma waiting_front:
  assumes "waiting_ok ks" and "ks \<noteq> []"
  obtains ds n ks' where "ks = ds @ Item n False # ks'" and "ds = [] \<or> ds = [Dummy]" and "waiting_ok ks'"
proof (cases ks rule: waiting_ok.cases)
  case (2 n fr ks')
  then show ?thesis using that [of "[]" n ks'] assms by simp
next
  case (3 n fr ks')
  then show ?thesis using that [of "[Dummy]" n ks'] assms by simp
qed (use assms in auto)

lemma ns_get:
  assumes rel: "ns_rel rb ks1 (ds @ Item n False # ks)" and ds: "ds = [] \<or> ds = [Dummy]"
  defines "a \<equiv> rb_end rb (pucRead rb) ds"
  defines "rb' \<equiv> rb\<lparr> xItemsWaiting := xItemsWaiting rb - 1, pucRead := blk_next (pucHead rb) (pucTail rb) a (Item n False) \<rparr>"
  shows "\<exists>sp. prvGetItemDefault rb = Some (rb', a + 8, n, sp)" and "ns_rel rb' (ks1 @ ds @ [Item n False]) ks"
proof -
  note d = ns_relD [OF rel]
  have r: "xItemsWaiting rb = int (Suc (n_items ks))" "waiting_ok ks"
    "rb_end rb (pucFree rb) ks1 = pucRead rb" "rb_end rb (blk_next (pucHead rb) (pucTail rb) a (Item n False)) ks = pucAcquire rb"
    "pucWrite rb = pucAcquire rb"
    using rel ds by (auto simp: ns_rel_def a_def)
  have c: "rb_chain rb (pucRead rb) ds" "blk_ok (pucHead rb) (pucTail rb) (xMaxItemSize rb) (store rb) a (Item n False)"
    using d(5) r(3) by (auto simp: chain_append a_def)
  have pr: "hdr_pos (pucHead rb) (pucTail rb) (pucRead rb)"
    using d(5) r(3) chain_end_pos [OF d(2) _ d(4), of "store rb" ks1] by (auto simp: chain_append)
  show "ns_rel rb' (ks1 @ ds @ [Item n False]) ks"
    using rel r by (auto simp: ns_rel_def rb'_def ns_typed_def a_def split: if_splits)
  have b: "xItemLen (store rb) a = n" "n \<le> xMaxItemSize rb" "a + 8 + rbALIGN_SIZE n \<le> pucTail rb"
    "pucHead rb \<le> a" "\<not> flag_set (uxItemFlags (store rb) a) rbITEM_DUMMY_DATA_FLAG"
    using c(2) by (auto simp: blk_ok_def)
  note t = ns_geom_total [OF d(2) b(2)]
  have al: "rbCHECK_ALIGNED (pucRead rb)" "pucHead rb \<le> pucRead rb" "pucRead rb < pucTail rb"
    using pr by (auto simp: hdr_pos_def rbCHECK_ALIGNED_def)
  have h: "(if flag_set (uxItemFlags (store rb) (pucRead rb)) rbITEM_DUMMY_DATA_FLAG then pucHead rb else pucRead rb) = a"
    using ds c(1) b(5) by (auto simp: blk_ok_def a_def)
  have "0 < n \<longrightarrow> a + 8 < pucTail rb" using b(3) t(1) by auto
  moreover have "items_to_read rb" using ns_avail(2) [OF rel] by simp
  moreover have "xItemLen (store rb) (pucRead rb) \<le> xMaxItemSize rb \<or>
      flag_set (uxItemFlags (store rb) (pucRead rb)) rbITEM_DUMMY_DATA_FLAG"
    using h b by (auto split: if_splits)
  ultimately show "\<exists>sp. prvGetItemDefault rb = Some (rb', a + 8, n, sp)"
    using al b t(5) unfolding prvGetItemDefault_def Let_def h
    by (simp add: rb'_def add32_exact tail_rem_lt_header_def ns_next_def ac_simps)
qed

section \<open>Returning\<close>

text \<open>The items the application holds: those not marked as returned.\<close>

definition held :: "(nat \<times> u8 list \<times> bool) list \<Rightarrow> (nat \<times> u8 list) list" where
  "held its = map (\<lambda>(p, bs, fr). (p, bs)) (filter (\<lambda>(p, bs, fr). \<not> fr) its)"

lemma held_simps [simp]: "held [] = []" "held ((p, bs, fr) # its) = (if fr then held its else (p, bs) # held its)"
  "held (its @ its') = held its @ held its'"
  by (auto simp: held_def)

lemma held_split:
  assumes "i < length (held (chain_items H T m a ks))"
  shows "\<exists>as n bs. ks = as @ Item n False # bs \<and>
    held (chain_items H T m a ks) ! i = (chain_end H T a as + 8, rd_bytes m (chain_end H T a as + 8) n) \<and>
    held (chain_items H T m a as) = take i (held (chain_items H T m a ks)) \<and>
    held (chain_items H T m (blk_next H T (chain_end H T a as) (Item n False)) bs) =
      drop (Suc i) (held (chain_items H T m a ks))"
  using assms
proof (induction ks arbitrary: a i)
  case (Cons k ks)
  define a' where "a' = blk_next H T a k"
  have it: "held (chain_items H T m a (k # js)) =
      (if \<exists>n. k = Item n False then [(a + 8, rd_bytes m (a + 8) (case k of Item n fr \<Rightarrow> n | Dummy \<Rightarrow> 0))] else [])
        @ held (chain_items H T m a' js)" for js
    unfolding a'_def by (cases k) auto
  show ?case
  proof (cases "\<exists>n. k = Item n False")
    case True
    then obtain n where k: "k = Item n False" by blast
    show ?thesis
    proof (cases i)
      case 0
      show ?thesis
        by (rule exI [of _ "[]"], rule exI [of _ n], rule exI [of _ ks]) (use 0 k in simp)
    next
      case (Suc j)
      then have "j < length (held (chain_items H T m a' ks))" using Cons.prems it [of ks] k by simp
      from Cons.IH [OF this] obtain as n' bs where
        *: "ks = as @ Item n' False # bs"
         "held (chain_items H T m a' ks) ! j = (chain_end H T a' as + 8, rd_bytes m (chain_end H T a' as + 8) n')"
          "held (chain_items H T m a' as) = take j (held (chain_items H T m a' ks))"
          "held (chain_items H T m (blk_next H T (chain_end H T a' as) (Item n' False)) bs) =
             drop (Suc j) (held (chain_items H T m a' ks))" by blast
      show ?thesis
        by (rule exI [of _ "k # as"], rule exI [of _ n'], rule exI [of _ bs])
           (use Suc *(1) *(2-4) [unfolded a'_def] True in \<open>simp add: it [unfolded a'_def]\<close>)
    qed
  next
    case False
    then have "i < length (held (chain_items H T m a' ks))" using Cons.prems it [of ks] by simp
    from Cons.IH [OF this] obtain as n' bs where
      *: "ks = as @ Item n' False # bs"
       "held (chain_items H T m a' ks) ! i = (chain_end H T a' as + 8, rd_bytes m (chain_end H T a' as + 8) n')"
        "held (chain_items H T m a' as) = take i (held (chain_items H T m a' ks))"
        "held (chain_items H T m (blk_next H T (chain_end H T a' as) (Item n' False)) bs) =
           drop (Suc i) (held (chain_items H T m a' ks))" by blast
    show ?thesis
      by (rule exI [of _ "k # as"], rule exI [of _ n'], rule exI [of _ bs])
         (use *(1) *(2-4) [unfolded a'_def] False in \<open>simp add: it [unfolded a'_def]\<close>)
  qed
qed simp

text \<open>The header of a block of a chain lies outside the other blocks.\<close>

lemma header_disjoint:
  assumes g: "ns_geom H T mx" and ch: "chain H T mx m a (as @ k # bs)" and p: "hdr_pos H T a"
    and l: "chain_len H T a (as @ k # bs) \<le> T - H"
  defines "b \<equiv> chain_end H T a as"
  assumes x: "b \<le> x" "x < b + 8"
  shows "x \<notin> chain_area H T a as" and "x \<notin> chain_area H T (blk_next H T b k) bs"
proof -
  have as: "chain H T mx m a as" and ok: "blk_ok H T mx m b k" and bs: "chain H T mx m (blk_next H T b k) bs"
    using ch by (auto simp: chain_append b_def)
  have pb: "hdr_pos H T b" using chain_end_pos [OF g as p] by (simp add: b_def)
  note st = blk_step [OF g ok]
  have lens: "chain_len H T a as + (blk_ext T b k + chain_len H T (blk_next H T b k) bs) \<le> T - H"
    using l by (simp add: b_def)
  have bH: "H \<le> b" "x < T" "b - H < T - H" using pb x by (auto simp: hdr_pos_def)
  have xw: "x = H + wrap (T - H) (b - H + (x - b))" using wrap_at(1) [OF bH(1) x(1) bH(2)] by simp
  show "x \<notin> chain_area H T a as"
    using outside_chain [OF g as p _ xw [unfolded b_def]] lens st(3) x by (simp add: b_def)
  show "x \<notin> chain_area H T (blk_next H T b k) bs"
  proof
    assume "x \<in> chain_area H T (blk_next H T b k) bs"
    then obtain i where i: "i < chain_len H T (blk_next H T b k) bs"
      "x = H + wrap (T - H) (blk_next H T b k - H + i)"
      using chain_area_window [OF g bs st(1)] lens by auto
    have "wrap (T - H) (blk_next H T b k - H + i) = wrap (T - H) (b - H + (blk_ext T b k + i))"
      unfolding st(2) using i(1) lens bH(3) by (intro wrap_add) auto
    moreover have "wrap (T - H) (b - H + (x - b)) \<noteq> wrap (T - H) (b - H + (blk_ext T b k + i))"
      using window_disjoint [OF bH(3), of "x - b" "blk_ext T b k" "blk_ext T b k + i"] i(1) lens st(3) x by simp
    ultimately show False using i(2) xw by (metis add_left_cancel)
  qed
qed

text \<open>Setting the free flag of one item.\<close>

lemma mark_free:
  assumes g: "ns_geom H T mx" and ch: "chain H T mx m a (as @ Item n False # bs)" and p: "hdr_pos H T a"
    and l: "chain_len H T a (as @ Item n False # bs) \<le> T - H"
  defines "b \<equiv> chain_end H T a as"
  defines "m' \<equiv> set_ItemFlags m b ((uxItemFlags m b AND NOT rbITEM_SPLIT_FLAG) OR rbITEM_FREE_FLAG)"
  shows "chain H T mx m' a (as @ Item n True # bs)"
    and "chain_items H T m' a as = chain_items H T m a as"
    and "chain_items H T m' (blk_next H T b (Item n True)) bs = chain_items H T m (blk_next H T b (Item n False)) bs"
proof -
  have c: "chain H T mx m a as" "blk_ok H T mx m b (Item n False)" "chain H T mx m (blk_next H T b (Item n False)) bs"
    using ch by (auto simp: chain_append b_def)
  have out: "m' x = m x" if "x < b \<or> b + 8 \<le> x" for x
    unfolding m'_def using that by (rule hdr_set_flags(3))
  note dj = header_disjoint [OF g ch p l, folded b_def]
  have fr: "m' x = m x" if "x \<in> chain_area H T a as \<or> x \<in> chain_area H T (blk_next H T b (Item n False)) bs" for x
    using that dj out by (metis not_le)
  have "blk_ok H T mx m' b (Item n True)"
    using c(2) unfolding blk_ok_def m'_def by (auto simp: mem_simps flag_simps)
  then show "chain H T mx m' a (as @ Item n True # bs)"
    using c chain_cong(1) [of H T _ _ m' m] fr by (simp add: chain_append b_def [symmetric])
  show "chain_items H T m' a as = chain_items H T m a as"
    "chain_items H T m' (blk_next H T b (Item n True)) bs = chain_items H T m (blk_next H T b (Item n False)) bs"
    using chain_cong(2) [of H T _ _ m' m] fr by simp_all
qed

fun removable :: "blk \<Rightarrow> bool" where
  "removable Dummy = True"
| "removable (Item n fr) = fr"

definition free_rel :: "Ringbuffer \<Rightarrow> blk list \<Rightarrow> blk list \<Rightarrow> bool" where
  "free_rel rb ks1 ks2 \<longleftrightarrow> ns_geom (pucHead rb) (pucTail rb) (xMaxItemSize rb) \<and> pucTail rb = pucHead rb + xSize rb
     \<and> hdr_pos (pucHead rb) (pucTail rb) (pucFree rb) \<and> rb_chain rb (pucFree rb) (ks1 @ ks2)
     \<and> rb_end rb (pucFree rb) ks1 = pucRead rb \<and> rb_len rb (pucFree rb) (ks1 @ ks2) \<le> xSize rb"

definition free_front :: "Ringbuffer \<Rightarrow> blk \<Rightarrow> Ringbuffer" where
  "free_front rb k = rb\<lparr> store := (if k = Dummy then set_ItemFlags (store rb) (pucFree rb)
       (uxItemFlags (store rb) (pucFree rb) OR rbITEM_FREE_FLAG) else store rb),
     pucFree := blk_next (pucHead rb) (pucTail rb) (pucFree rb) k \<rparr>"

lemma advance_free_stop:
  assumes "\<not> (flag_set (uxItemFlags (store rb) (pucFree rb)) rbITEM_FREE_FLAG \<or>
      flag_set (uxItemFlags (store rb) (pucFree rb)) rbITEM_DUMMY_DATA_FLAG) \<or> (pucFree rb = pucRead rb \<and> \<not> allow)"
  shows "advance_free allow fa rb = Some (rb, fa)"
  using assms by (subst advance_free.simps) (auto simp: Let_def flag_simps)

lemma advance_free_step:
  assumes rel: "free_rel rb (k # ks1) ks2" and k: "removable k" and go: "pucFree rb \<noteq> pucRead rb \<or> allow"
  shows "advance_free allow fa rb = advance_free False True (free_front rb k)"
proof (cases k)
  case Dummy
  then have "flag_set (uxItemFlags (store rb) (pucFree rb)) rbITEM_DUMMY_DATA_FLAG" "8 \<le> pucTail rb - pucHead rb"
    using rel by (auto simp: free_rel_def blk_ok_def)
  then show ?thesis
    using go Dummy by (subst advance_free.simps) (auto simp: Let_def flag_simps tail_rem_lt_header_def free_front_def)
next
  case (Item n fr)
  have b: "xItemLen (store rb) (pucFree rb) = n" "n \<le> xMaxItemSize rb"
    "pucFree rb + 8 + rbALIGN_SIZE n \<le> pucTail rb" "pucTail rb = pucHead rb + xSize rb"
    "flag_set (uxItemFlags (store rb) (pucFree rb)) rbITEM_FREE_FLAG"
    "\<not> flag_set (uxItemFlags (store rb) (pucFree rb)) rbITEM_DUMMY_DATA_FLAG"
    and g: "ns_geom (pucHead rb) (pucTail rb) (xMaxItemSize rb)"
    using rel Item k by (auto simp: free_rel_def blk_ok_def)
  then show ?thesis
    using go Item ns_geom_total(5) [OF g b(2)] 
    by (subst advance_free.simps)
       (auto simp: Let_def flag_simps tail_rem_lt_header_def free_front_def ns_next_def add32_exact ac_simps)
qed

lemma free_front_rel:
  assumes rel: "free_rel rb (k # ks1) ks2"
  shows "free_rel (free_front rb k) ks1 ks2"
    and "rb_items (free_front rb k) (pucFree (free_front rb k)) ks1 = rb_items rb (blk_next (pucHead rb) (pucTail rb) (pucFree rb) k) ks1"
    and "rb_items (free_front rb k) (pucRead rb) ks2 = rb_items rb (pucRead rb) ks2"
    and "rb_len rb (pucFree (free_front rb k)) (ks1 @ ks2) < rb_len rb (pucFree rb) (k # ks1 @ ks2)"
proof -
  have r: "ns_geom (pucHead rb) (pucTail rb) (xMaxItemSize rb)" "pucTail rb = pucHead rb + xSize rb"
    "hdr_pos (pucHead rb) (pucTail rb) (pucFree rb)" "rb_chain rb (pucFree rb) ([] @ k # ks1 @ ks2)"
    "rb_len rb (pucFree rb) ([] @ k # ks1 @ ks2) \<le> pucTail rb - pucHead rb"
    and rd: "rb_end rb (blk_next (pucHead rb) (pucTail rb) (pucFree rb) k) ks1 = pucRead rb"
    using rel by (auto simp: free_rel_def)
  let ?n = "blk_next (pucHead rb) (pucTail rb) (pucFree rb) k"
  have st: "hdr_pos (pucHead rb) (pucTail rb) ?n" "8 \<le> blk_ext (pucTail rb) (pucFree rb) k"
    using blk_step [OF r(1)] r(4) by auto
  note dj = header_disjoint(2) [OF r(1,4,3,5)]
  have fr: "store (free_front rb k) x = store rb x"
    if "x \<in> chain_area (pucHead rb) (pucTail rb) ?n (ks1 @ ks2)" for x
  proof -
    have "x < pucFree rb \<or> pucFree rb + 8 \<le> x" using that dj [of x] not_le by auto
    then show ?thesis unfolding free_front_def by (simp add: hdr_set_flags(3))
  qed
  note c = chain_cong [of "pucHead rb" "pucTail rb" _ _ "store (free_front rb k)" "store rb"]
  have sel: "pucHead (free_front rb k) = pucHead rb" "pucTail (free_front rb k) = pucTail rb"
    "pucFree (free_front rb k) = ?n" "pucRead (free_front rb k) = pucRead rb" "xSize (free_front rb k) = xSize rb"
    "xMaxItemSize (free_front rb k) = xMaxItemSize rb"
    by (simp_all add: free_front_def)
  show "free_rel (free_front rb k) ks1 ks2"
    using r rd st c(1) [OF fr] unfolding free_rel_def sel by simp
  show "rb_items (free_front rb k) (pucFree (free_front rb k)) ks1 = rb_items rb ?n ks1"
    "rb_items (free_front rb k) (pucRead rb) ks2 = rb_items rb (pucRead rb) ks2"
    unfolding sel using fr rd by (auto intro!: c(2) simp: chain_area_append)
  show "rb_len rb (pucFree (free_front rb k)) (ks1 @ ks2) < rb_len rb (pucFree rb) (k # ks1 @ ks2)"
    using st(2) by (simp add: sel)
qed

lemma free_eq_read:
  assumes "free_rel rb ks1 ks2" and "rb_len rb (pucFree rb) ks1 < xSize rb"
  shows "pucFree rb = pucRead rb \<longleftrightarrow> ks1 = []"
proof -
  have r: "ns_geom (pucHead rb) (pucTail rb) (xMaxItemSize rb)" "hdr_pos (pucHead rb) (pucTail rb) (pucFree rb)"
    "rb_chain rb (pucFree rb) ks1" "rb_end rb (pucFree rb) ks1 = pucRead rb" "pucTail rb = pucHead rb + xSize rb"
    using assms by (auto simp: free_rel_def chain_append)
  have w: "wrap (xSize rb) (pucFree rb - pucHead rb + rb_len rb (pucFree rb) ks1) = pucRead rb - pucHead rb"
    using chain_end_wrap [OF r(1,3,2)] r(4,5) assms(2) by simp
  have o: "pucFree rb - pucHead rb < xSize rb" "pucHead rb \<le> pucFree rb" "pucHead rb \<le> pucRead rb"
    using r(2,5) chain_end_pos [OF r(1,3,2)] r(4) by (auto simp: hdr_pos_def)
  show ?thesis
    using wrap_window(1) [OF w o(1)] o(2,3) assms(2) chain_len_0 [OF r(1,3)] by auto
qed

lemma advance_free_loop:
  assumes "free_rel rb ks1 ks2" and "allow \<longrightarrow> ks1 \<noteq> []"
    and "\<not> allow \<longrightarrow> rb_len rb (pucFree rb) ks1 < xSize rb"
  shows "\<exists>m f. let rb' = rb\<lparr> store := m, pucFree := f \<rparr>; ks = dropWhile removable ks1 in
    advance_free allow fa rb = Some (rb', fa \<or> ks \<noteq> ks1) \<and> free_rel rb' ks ks2 \<and>
    held (rb_items rb' f ks) = held (rb_items rb (pucFree rb) ks1) \<and>
    rb_items rb' (pucRead rb) ks2 = rb_items rb (pucRead rb) ks2 \<and>
    (if ks = ks1 then f = pucFree rb else rb_len rb f (ks @ ks2) < rb_len rb (pucFree rb) (ks1 @ ks2))"
  using assms
proof (induction ks1 arbitrary: rb allow fa)
  case Nil
  then have "advance_free allow fa rb = Some (rb, fa)"
    by (intro advance_free_stop) (auto simp: free_rel_def)
  then show ?case
    using Nil by (intro exI [of _ "store rb"] exI [of _ "pucFree rb"]) simp
next
  case (Cons k ks1)
  show ?case
  proof (cases "removable k")
    case False
    then obtain n where "k = Item n False" by (cases k) auto
    then have "advance_free allow fa rb = Some (rb, fa)"
      using Cons.prems(1) by (intro advance_free_stop) (auto simp: free_rel_def blk_ok_def)
    then show ?thesis
      using Cons.prems(1) False by (intro exI [of _ "store rb"] exI [of _ "pucFree rb"]) simp
  next
    case True
    let ?r = "free_front rb k"
    note ff = free_front_rel [OF Cons.prems(1)]
    have "pucFree rb \<noteq> pucRead rb \<or> allow" using free_eq_read [OF Cons.prems(1)] Cons.prems(3) by auto
    from advance_free_step [OF Cons.prems(1) True this]
    have step: "advance_free allow fa rb = advance_free False True ?r" by simp
    have sel: "pucHead ?r = pucHead rb" "pucTail ?r = pucTail rb" "pucRead ?r = pucRead rb" "xSize ?r = xSize rb"
      "?r\<lparr> store := m, pucFree := f \<rparr> = rb\<lparr> store := m, pucFree := f \<rparr>" for m f
      by (simp_all add: free_front_def)
    have "rb_len rb (pucFree ?r) ks1 < xSize rb"
    proof -
      have "rb_len rb (pucFree rb) (k # ks1 @ ks2) \<le> xSize rb" using Cons.prems(1) unfolding free_rel_def append_Cons by blast
      then have "rb_len rb (pucFree ?r) (ks1 @ ks2) < xSize rb" using ff(4) by linarith
      then show ?thesis unfolding chain_len_append by linarith
    qed
    then obtain m f where IH: "let rb' = rb\<lparr> store := m, pucFree := f \<rparr>; ks = dropWhile removable ks1 in
      advance_free False True ?r = Some (rb', True) \<and> free_rel rb' ks ks2 \<and>
      held (rb_items rb' f ks) = held (rb_items ?r (pucFree ?r) ks1) \<and>
      rb_items rb' (pucRead rb) ks2 = rb_items ?r (pucRead rb) ks2 \<and>
      (if ks = ks1 then f = pucFree ?r else rb_len rb f (ks @ ks2) < rb_len rb (pucFree ?r) (ks1 @ ks2))"
      using Cons.IH [OF ff(1), of False True] unfolding sel Let_def by auto
    have h: "held (rb_items rb (pucFree rb) (k # ks1)) = held (rb_items ?r (pucFree ?r) ks1)"
      unfolding ff(2) using True by (cases k) auto
    have ne: "dropWhile removable ks1 \<noteq> k # ks1"
      by (metis length_dropWhile_le impossible_Cons)
    show ?thesis
      using IH True step ne h ff(3,4) by (intro exI [of _ m] exI [of _ f]) (auto simp: Let_def split: if_splits)
  qed
qed

lemma is_full_clear [flag_simps]: "\<not> flag_set (w AND NOT rbBUFFER_FULL_FLAG) rbBUFFER_FULL_FLAG"
  "flag_set (w AND NOT rbBUFFER_FULL_FLAG) rbBYTE_BUFFER_FLAG = flag_set w rbBYTE_BUFFER_FLAG"
  "flag_set (w AND NOT rbBUFFER_FULL_FLAG) rbALLOW_SPLIT_FLAG = flag_set w rbALLOW_SPLIT_FLAG"
  by (simp_all add: flag_simps)

lemma length_chain_items: "length (chain_items H T m a ks) = n_items ks"
proof (induction ks arbitrary: a)
  case (Cons k ks)
  then show ?case by (cases k) auto
qed simp

lemma ns_rel_cleared:
  assumes rel: "free_rel rb ks1 ks2" and ty: "ns_typed rb"
    and full: "is_full rb \<and> \<not> freed \<longleftrightarrow> rb_len rb (pucFree rb) (ks1 @ ks2) = xSize rb"
    and w: "pucWrite rb = pucAcquire rb" "rb_end rb (pucRead rb) ks2 = pucAcquire rb"
      "xItemsWaiting rb = int (n_items ks2)" "waiting_ok ks2"
  shows "ns_rel (if is_full rb \<and> freed
    then rb\<lparr> uxRingbufferFlags := uxRingbufferFlags rb AND NOT rbBUFFER_FULL_FLAG \<rparr> else rb) ks1 ks2"
proof (cases "is_full rb \<and> freed")
  case True
  then have "rb_len rb (pucFree rb) (ks1 @ ks2) \<noteq> xSize rb" using full by blast
  then show ?thesis
    using True rel ty w by (auto simp: ns_rel_def free_rel_def ns_typed_def flag_simps)
next
  case False
  then show ?thesis
    using rel ty w full by (auto simp: ns_rel_def free_rel_def)
qed

text \<open>
  Returning an item, in any order: the call succeeds, the queue of waiting items and every
  other held item keep their place and their bytes.
\<close>

lemma ns_return:
  assumes rel: "ns_rel rb (as @ Item n False # bs) ks2"
  defines "b \<equiv> rb_end rb (pucFree rb) as"
  shows "\<exists>rb' ks1. prvReturnItemDefault rb (b + 8) = Some rb' \<and> ns_rel rb' ks1 ks2 \<and>
    held (rb_items rb' (pucFree rb') ks1) = held (rb_items rb (pucFree rb) as) @
      held (rb_items rb (blk_next (pucHead rb) (pucTail rb) b (Item n False)) bs) \<and>
    rb_items rb' (pucRead rb') ks2 = rb_items rb (pucRead rb) ks2"
proof -
  note d = ns_relD [OF rel]
  have S: "pucTail rb - pucHead rb = xSize rb" using d(3) by simp
  have ch: "rb_chain rb (pucFree rb) (as @ Item n False # bs @ ks2)"
    and l: "rb_len rb (pucFree rb) (as @ Item n False # bs @ ks2) \<le> pucTail rb - pucHead rb"
    using d(5,7) S by simp_all
  have r: "xItemsWaiting rb = int (n_items ks2)" "waiting_ok ks2"
    "rb_end rb (blk_next (pucHead rb) (pucTail rb) b (Item n False)) bs = pucRead rb" "pucWrite rb = pucAcquire rb"
    "rb_end rb (pucRead rb) ks2 = pucAcquire rb"
    using rel by (auto simp: ns_rel_def b_def)
  define m1 where "m1 = set_ItemFlags (store rb) b ((uxItemFlags (store rb) b AND NOT rbITEM_SPLIT_FLAG) OR rbITEM_FREE_FLAG)"
  note mf = mark_free [OF d(2) ch d(4) l, folded b_def, folded m1_def]
  let ?r = "rb\<lparr> store := m1 \<rparr>" let ?k = "as @ Item n True # bs"
  have fr: "free_rel ?r ?k ks2"
    using mf(1) d(2,3,4) l r(3) S unfolding free_rel_def by (simp add: b_def)
  have its: "rb_items ?r (blk_next (pucHead rb) (pucTail rb) b (Item n True)) bs =
      rb_items rb (blk_next (pucHead rb) (pucTail rb) b (Item n False)) bs"
    "rb_items ?r (pucRead rb) ks2 = rb_items rb (pucRead rb) ks2"
    using mf(3) r(3) by (auto simp: chain_items_append length_chain_items)
  have hd: "held (rb_items ?r (pucFree rb) ?k) = held (rb_items rb (pucFree rb) as) @
      held (rb_items rb (blk_next (pucHead rb) (pucTail rb) b (Item n False)) bs)"
    using mf(2) its(1) by (simp add: chain_items_append b_def)
  have L: "rb_len rb (pucFree rb) (?k @ ks2) = rb_len rb (pucFree rb) ((as @ Item n False # bs) @ ks2)" by simp
  let ?allow = "is_full ?r \<or> xItemsWaiting ?r = 0"
  have "rb_len ?r (pucFree ?r) ?k < xSize ?r" if "\<not> ?allow"
    using that d(7,8) unfolding L [symmetric] chain_len_append [of _ _ _ ?k ks2] by simp
  then obtain m f where lp: "let rb' = ?r\<lparr> store := m, pucFree := f \<rparr>; ks = dropWhile removable ?k in
    advance_free ?allow False ?r = Some (rb', ks \<noteq> ?k) \<and> free_rel rb' ks ks2 \<and>
    held (rb_items rb' f ks) = held (rb_items ?r (pucFree ?r) ?k) \<and>
    rb_items rb' (pucRead ?r) ks2 = rb_items ?r (pucRead ?r) ks2 \<and>
    (if ks = ?k then f = pucFree ?r else rb_len ?r f (ks @ ks2) < rb_len ?r (pucFree ?r) (?k @ ks2))"
    using advance_free_loop [OF fr, of ?allow False] by auto
  define ks where "ks = dropWhile removable ?k"
  define rb2 where "rb2 = rb\<lparr> store := m, pucFree := f \<rparr>"
  define rb' where "rb' = (if is_full rb2 \<and> ks \<noteq> ?k
    then rb2\<lparr> uxRingbufferFlags := uxRingbufferFlags rb2 AND NOT rbBUFFER_FULL_FLAG \<rparr> else rb2)"
  have lp': "advance_free ?allow False ?r = Some (rb2, ks \<noteq> ?k)" "free_rel rb2 ks ks2"
    "held (rb_items rb2 f ks) = held (rb_items ?r (pucFree rb) ?k)"
    "rb_items rb2 (pucRead rb) ks2 = rb_items rb (pucRead rb) ks2"
    "if ks = ?k then f = pucFree rb else rb_len rb f (ks @ ks2) < rb_len rb (pucFree rb) (?k @ ks2)"
    using lp its(2) by (auto simp: Let_def ks_def rb2_def)
  have "prvReturnItemDefault rb (b + 8) = Some rb'"
  proof -
    have bo: "blk_ok (pucHead rb) (pucTail rb) (xMaxItemSize rb) (store rb) b (Item n False)"
      using ch by (simp add: chain_append b_def)
    then have "rbCHECK_ALIGNED (b + 8)" "pucHead rb \<le> b + 8" "b + 8 \<le> pucTail rb"
      by (auto simp: blk_ok_def rbCHECK_ALIGNED_def dvd_eq_mod_eq_0 [symmetric])
    then show ?thesis
      using bo lp'(1) unfolding prvReturnItemDefault_def rb'_def by (auto simp: blk_ok_def Let_def m1_def)
  qed
  moreover have "ns_rel rb' ks ks2"
    unfolding rb'_def
  proof (rule ns_rel_cleared [OF lp'(2)])
    show "is_full rb2 \<and> \<not> ks \<noteq> ?k \<longleftrightarrow> rb_len rb2 (pucFree rb2) (ks @ ks2) = xSize rb2"
    proof -
      have "is_full rb2 = is_full rb" "xSize rb2 = xSize rb" "rb_len rb2 (pucFree rb2) (ks @ ks2) = rb_len rb f (ks @ ks2)"
        by (simp_all add: rb2_def)
      then show ?thesis using d(7,8) lp'(5) unfolding L [symmetric] by (metis less_le_not_le)
    qed
  qed (use d(1) r in \<open>auto simp: rb2_def ns_typed_def\<close>)
  ultimately show ?thesis
    using lp' hd by (auto simp: rb'_def rb2_def)
qed

section \<open>The queue of items\<close>

text \<open>
  The client's view of a no-split buffer: the control block and the items it has received
  and not yet returned, oldest first, with the bytes it was given. Items are given back in
  any order, by their position in that list.
\<close>

type_synonym ns_state = "Ringbuffer \<times> (nat \<times> u8 list) list"

definition ns_send :: "kernel \<Rightarrow> nat \<Rightarrow> ns_state \<Rightarrow> u8 list \<Rightarrow> (ns_state \<times> bool) option" where
  "ns_send k task s bs =
     (case send_now k task (fst s) bs of None \<Rightarrow> None | Some (rb', ok) \<Rightarrow> Some ((rb', snd s), ok))"

definition ns_recv :: "kernel \<Rightarrow> nat \<Rightarrow> ns_state \<Rightarrow> unit \<Rightarrow> (ns_state \<times> u8 list list) option" where
  "ns_recv k task s u =
     (case xRingbufferReceive k task (fst s) 0 [] of
        Returned r \<Rightarrow>
          (case recv_item1 r of
             None \<Rightarrow> Some ((recv_rb r, snd s), [])
           | Some (p, n) \<Rightarrow> Some ((recv_rb r, snd s @ [(p, item_bytes r)]), [item_bytes r]))
      | _ \<Rightarrow> None)"

definition ns_release :: "kernel \<Rightarrow> ns_state \<Rightarrow> nat \<Rightarrow> ns_state option" where
  "ns_release k s i =
     (if i < length (snd s) then
        map_option (\<lambda>rb'. (rb', take i (snd s) @ drop (Suc i) (snd s))) (return_now k (fst s) (fst (snd s ! i)))
      else None)"

definition ns_borrowed :: "ns_state \<Rightarrow> nat \<Rightarrow> bool" where
  "ns_borrowed s i \<longleftrightarrow> i < length (snd s)"

text \<open>The waiting items, by walking \<^verbatim>\<open>xItemsWaiting\<close> headers from \<^verbatim>\<open>pucRead\<close>.\<close>

fun ns_walk :: "nat \<Rightarrow> nat \<Rightarrow> memory \<Rightarrow> nat \<Rightarrow> nat \<Rightarrow> u8 list list" where
  "ns_walk H T m a 0 = []"
| "ns_walk H T m a (Suc c) =
     (let h = (if flag_set (uxItemFlags m a) rbITEM_DUMMY_DATA_FLAG then H else a); n = xItemLen m h
      in rd_bytes m (h + 8) n # ns_walk H T m (ns_next H T (h + 8 + rbALIGN_SIZE n)) c)"

definition ns_queue :: "ns_state \<Rightarrow> u8 list list" where
  "ns_queue s = ns_walk (pucHead (fst s)) (pucTail (fst s)) (store (fst s)) (pucRead (fst s)) (nat (xItemsWaiting (fst s)))"

definition ns_inv :: "ns_state \<Rightarrow> bool" where
  "ns_inv s \<longleftrightarrow> (\<exists>ks1 ks2. ns_rel (fst s) ks1 ks2 \<and> snd s = held (rb_items (fst s) (pucFree (fst s)) ks1))"

lemma ns_walk_chain:
  "chain H T mx m a ks \<Longrightarrow> waiting_ok ks \<Longrightarrow>
   ns_walk H T m a (n_items ks) = map (\<lambda>(p, bs, fr). bs) (chain_items H T m a ks)"
  by (induction ks arbitrary: a rule: waiting_ok.induct) (auto simp: blk_ok_def Let_def)

lemma ns_queue_items:
  assumes "ns_rel rb ks1 ks2"
  shows "ns_queue (rb, hs) = map (\<lambda>(p, bs, fr). bs) (rb_items rb (pucRead rb) ks2)"
proof -
  have "rb_chain rb (pucRead rb) ks2" "waiting_ok ks2" "xItemsWaiting rb = int (n_items ks2)"
    using assms by (auto simp: ns_rel_def chain_append)
  then show ?thesis using ns_walk_chain by (simp add: ns_queue_def)
qed

lemma ns_rel_lists [simp]:
  "ns_rel (rb\<lparr> xTasksWaitingToReceive := ts \<rparr>) ks1 ks2 = ns_rel rb ks1 ks2"
  "ns_rel (rb\<lparr> xTasksWaitingToSend := ts \<rparr>) ks1 ks2 = ns_rel rb ks1 ks2"
  by (simp_all add: ns_rel_def ns_typed_def)

lemma notify_receivers_rb:
  "\<exists>ts. sent_rb (notify_receivers k rb) = rb\<lparr> xTasksWaitingToReceive := ts \<rparr> \<and> sent_ok (notify_receivers k rb)"
proof (cases "xQueueSet rb")
  case None
  then show ?thesis by (auto simp: notify_receivers_def Let_def split: prod.splits)
next
  case (Some q)
  then show ?thesis by (intro exI [of _ "xTasksWaitingToReceive rb"]) (simp add: notify_receivers_def)
qed

lemma ns_check_fits:
  assumes "ns_rel rb ks1 ks2"
  shows "\<exists>b. prvCheckItemFitsDefault rb n = Some b"
  using ns_relD(9) [OF assms]
  by (auto simp: prvCheckItemFitsDefault_def Let_def hdr_pos_def rbCHECK_ALIGNED_def acquire_in_bounds_def)

lemma ns_copy:
  assumes rel: "ns_rel rb ks1 ks2" and n: "length bs \<le> xMaxItemSize rb"
    and fits: "prvCheckItemFitsDefault rb (length bs) = Some True"
  shows "\<exists>rb' ks2' p. prvCopyItemNoSplit rb bs = Some rb' \<and> ns_rel rb' ks1 ks2' \<and>
    rb_items rb' (pucFree rb') ks1 = rb_items rb (pucFree rb) ks1 \<and>
    rb_items rb' (pucRead rb') ks2' = rb_items rb (pucRead rb) ks2 @ [(p, bs, False)]"
proof -
  have sel: "pucFree (copied rb m q) = pucFree rb" "pucRead (copied rb m q) = pucRead rb" for m q
    by (simp_all add: copied_def acquired_def)
  from ns_fits_place [OF rel n fits] consider
      (tail) "8 + rbALIGN_SIZE (length bs) \<le> pucTail rb - pucAcquire rb"
        "rb_len rb (pucFree rb) (ks1 @ ks2) + blk_ext (pucTail rb) (pucAcquire rb) (Item (length bs) False) \<le> xSize rb"
    | (head) "pucTail rb - pucAcquire rb < 8 + rbALIGN_SIZE (length bs)"
        "8 + rbALIGN_SIZE (length bs) \<le> pucAcquire rb - pucHead rb"
        "rb_len rb (pucFree rb) (ks1 @ ks2) + (pucTail rb - pucAcquire rb) + (8 + rbALIGN_SIZE (length bs)) \<le> xSize rb"
    by blast
  then show ?thesis
  proof cases
    case tail
    note c = ns_copy_tail [OF rel n tail]
    show ?thesis using c(1) by (intro exI conjI, assumption) (use c(2-4) in \<open>simp_all add: sel\<close>)
  next
    case head
    note c = ns_copy_head [OF rel n head]
    show ?thesis using c(1) by (intro exI conjI, assumption) (use c(2-4) in \<open>simp_all add: sel\<close>)
  qed
qed

lemma ns_send_ok:
  assumes "ns_inv s"
  shows "\<exists>s' b. ns_send k task s bs = Some (s', b) \<and> ns_inv s' \<and>
    ns_queue s' = (if b then ns_queue s @ [bs] else ns_queue s)"
proof -
  obtain rb hs where s: "s = (rb, hs)" by (cases s)
  obtain ks1 ks2 where rel: "ns_rel rb ks1 ks2" and hs: "hs = held (rb_items rb (pucFree rb) ks1)"
    using assms by (auto simp: ns_inv_def s)
  have ty: "\<not> flag_set (uxRingbufferFlags rb) rbBYTE_BUFFER_FLAG" "xCheckItemFits rb = CheckItemFitsDefault"
    "vCopyItem rb = CopyItemNoSplit"
    using ns_relD(1) [OF rel] by (auto simp: ns_typed_def)
  obtain b where b: "prvCheckItemFitsDefault rb (length bs) = Some b" using ns_check_fits [OF rel] by blast
  show ?thesis
  proof (cases "length bs \<le> xMaxItemSize rb \<and> b")
    case False
    then have "ns_send k task s bs = Some (s, False)"
      using b ty by (auto simp: ns_send_def send_now_def xRingbufferSend_def prvSendAcquireGeneric.simps
          call_CheckItemFits_def not_sent_def s split: if_splits)
    then show ?thesis using assms by auto
  next
    case True
    then obtain rb' ks2' p where c: "prvCopyItemNoSplit rb bs = Some rb'" "ns_rel rb' ks1 ks2'"
      "rb_items rb' (pucFree rb') ks1 = rb_items rb (pucFree rb) ks1"
      "rb_items rb' (pucRead rb') ks2' = rb_items rb (pucRead rb) ks2 @ [(p, bs, False)]"
      using ns_copy [OF rel, of bs] b by auto
    obtain ts where nt: "sent_rb (notify_receivers k rb') = rb'\<lparr> xTasksWaitingToReceive := ts \<rparr>"
      "sent_ok (notify_receivers k rb')" using notify_receivers_rb by blast
    let ?s = "(rb'\<lparr> xTasksWaitingToReceive := ts \<rparr>, hs)"
    have "ns_send k task s bs = Some (?s, True)"
      using True b ty c(1) nt by (simp add: ns_send_def send_now_def xRingbufferSend_def prvSendAcquireGeneric.simps
          call_CheckItemFits_def call_CopyItem_def perform_send_def s)
    moreover have "ns_inv ?s" using c hs by (auto simp: ns_inv_def)
    moreover have "ns_queue ?s = ns_queue s @ [bs]"
      using ns_queue_items [of "rb'\<lparr> xTasksWaitingToReceive := ts \<rparr>"] ns_queue_items [OF rel] c(2,4) by (simp add: s)
    ultimately show ?thesis by auto
  qed
qed

lemma ns_recv_ok:
  assumes "ns_inv s"
  shows "\<exists>s' es. ns_recv k task s u = Some (s', es) \<and> ns_inv s' \<and> ns_queue s = es @ ns_queue s'"
proof -
  obtain rb hs where s: "s = (rb, hs)" by (cases s)
  obtain ks1 ks2 where rel: "ns_rel rb ks1 ks2" and hs: "hs = held (rb_items rb (pucFree rb) ks1)"
    using assms by (auto simp: ns_inv_def s)
  have ty: "\<not> flag_set (uxRingbufferFlags rb) rbBYTE_BUFFER_FLAG" "\<not> flag_set (uxRingbufferFlags rb) rbALLOW_SPLIT_FLAG"
    "pvGetItem rb = GetItemDefault"
    using ns_relD(1) [OF rel] by (auto simp: ns_typed_def)
  show ?thesis
  proof (cases "ks2 = []")
    case True
    then have "ns_recv k task s u = Some (s, [])"
      using ns_avail(1) [OF rel] ty by (simp add: ns_recv_def xRingbufferReceive_def prvReceiveGeneric.simps not_received_def s)
    then show ?thesis using assms by auto
  next
    case False
    then obtain ds n ks where ks2: "ks2 = ds @ Item n False # ks" and ds: "ds = [] \<or> ds = [Dummy]"
      using waiting_front rel by (metis ns_rel_def)
    define a where "a = rb_end rb (pucRead rb) ds"
    define rb' where "rb' = rb\<lparr> xItemsWaiting := xItemsWaiting rb - 1,
      pucRead := blk_next (pucHead rb) (pucTail rb) a (Item n False) \<rparr>"
    note g = ns_get [OF rel [unfolded ks2] ds, folded a_def, folded rb'_def]
    obtain sp where sp: "prvGetItemDefault rb = Some (rb', a + 8, n, sp)" using g(1) by blast
    let ?bs = "rd_bytes (store rb) (a + 8) n"
    have r: "\<not> flag_set (uxRingbufferFlags rb') rbALLOW_SPLIT_FLAG" "store rb' = store rb" using ty by (simp_all add: rb'_def)
    have "ns_recv k task s u = Some ((rb', hs @ [(a + 8, ?bs)]), [?bs])"
      using ns_avail(1) [OF rel] False ty sp r
      by (simp add: ns_recv_def xRingbufferReceive_def prvReceiveGeneric.simps retrieve_items_def outcome_of_def
          call_GetItem_def item_bytes_def s)
    moreover have e: "rb_end rb (pucFree rb) ks1 = pucRead rb" using rel unfolding ns_rel_def by blast
    have "ns_inv (rb', hs @ [(a + 8, ?bs)])"
    proof -
      have it: "rb_items rb' (pucFree rb') (ks1 @ ds @ [Item n False]) =
          rb_items rb (pucFree rb) ks1 @ [(a + 8, ?bs, False)]"
        using ds e by (auto simp: chain_items_append rb'_def a_def)
      show ?thesis
        unfolding ns_inv_def by (rule exI [of _ "ks1 @ ds @ [Item n False]"], rule exI [of _ ks]) (use it g(2) hs in simp)
    qed
    moreover have "ns_queue s = [?bs] @ ns_queue (rb', hs @ [(a + 8, ?bs)])"
      unfolding s ns_queue_items [OF rel] ns_queue_items [OF g(2)] ks2
      using ds by (auto simp: chain_items_append rb'_def a_def)
    ultimately show ?thesis by blast
  qed
qed

lemma ns_release_ok:
  assumes "ns_inv s" and "ns_borrowed s i"
  shows "\<exists>s'. ns_release k s i = Some s' \<and> ns_inv s' \<and> ns_queue s' = ns_queue s"
proof -
  obtain rb hs where s: "s = (rb, hs)" by (cases s)
  obtain ks1 ks2 where rel: "ns_rel rb ks1 ks2" and hs: "hs = held (rb_items rb (pucFree rb) ks1)"
    using assms(1) by (auto simp: ns_inv_def s)
  have i: "i < length hs" using assms(2) by (simp add: ns_borrowed_def s)
  from held_split [OF i [unfolded hs]] obtain as n bs where ks1: "ks1 = as @ Item n False # bs"
    and h: "fst (hs ! i) = rb_end rb (pucFree rb) as + 8"
      "held (rb_items rb (pucFree rb) as) @
       held (rb_items rb (blk_next (pucHead rb) (pucTail rb) (rb_end rb (pucFree rb) as) (Item n False)) bs)
         = take i hs @ drop (Suc i) hs"
    unfolding hs by force
  obtain rb' ks1' where r: "prvReturnItemDefault rb (fst (hs ! i)) = Some rb'" "ns_rel rb' ks1' ks2"
    "held (rb_items rb' (pucFree rb') ks1') = take i hs @ drop (Suc i) hs"
    "rb_items rb' (pucRead rb') ks2 = rb_items rb (pucRead rb) ks2"
    using ns_return [OF rel [unfolded ks1]] unfolding h by blast
  obtain ts y where un: "unblock_first k (xTasksWaitingToSend rb') = (ts, y)" by fastforce
  let ?s = "(rb'\<lparr> xTasksWaitingToSend := ts \<rparr>, take i hs @ drop (Suc i) hs)"
  have "vReturnItem rb = ReturnItemDefault" using ns_relD(1) [OF rel] by (simp add: ns_typed_def)
  then have "ns_release k s i = Some ?s"
    using i r(1) un by (simp add: ns_release_def return_now_def vRingbufferReturnItem_def call_ReturnItem_def s)
  moreover have "ns_inv ?s" using r by (auto simp: ns_inv_def)
  moreover have "ns_queue ?s = ns_queue s"
    using ns_queue_items [of "rb'\<lparr> xTasksWaitingToSend := ts \<rparr>"] ns_queue_items [OF rel] r(2,4) by (simp add: s)
  ultimately show ?thesis by blast
qed

interpretation nosplit: borrow_queue ns_inv ns_queue "ns_send k task" "\<lambda>bs. [bs]" "ns_recv k task" "ns_release k" ns_borrowed
  for k task
  by unfold_locales (rule ns_send_ok ns_recv_ok ns_release_ok; assumption)+

section \<open>A new buffer\<close>

lemma ns_init_geom:
  assumes "12 \<le> S" and "S mod 4 = 0" and "st mod 4 = 0" and "st + S < 2 ^ 32"
  shows "ns_geom st (st + S) (sub32 (rbALIGN_SIZE (S div 2)) 8)"
proof -
  have a: "S div 2 \<le> rbALIGN_SIZE (S div 2)" "rbALIGN_SIZE (S div 2) < S div 2 + 4" "rbALIGN_SIZE (S div 2) mod 4 = 0"
    using align4 [of "S div 2"] assms by auto
  have "6 \<le> rbALIGN_SIZE (S div 2)" using assms(1) a(1) by linarith
  then have 8: "8 \<le> rbALIGN_SIZE (S div 2)" using a(3) by presburger
  have "rbALIGN_SIZE (S div 2) < 2 ^ 32" using a(2) assms(4) by simp
  then show ?thesis
    using assms 8 by (auto simp: ns_geom_def sub32_exact mod_add_eq)
qed

lemma ns_rel_init:
  assumes "12 \<le> S" and "S mod 4 = 0" and "st mod 4 = 0" and "st + S < 2 ^ 32"
  shows "ns_rel (prvInitializeNewRingbuffer S RINGBUF_TYPE_NOSPLIT st m) [] []"
  using assms ns_init_geom [OF assms]
  by (auto simp: ns_rel_def ns_typed_def prvInitializeNewRingbuffer_def Let_def hdr_pos_def)

lemma ns_inv_init:
  assumes "12 \<le> S" and "S mod 4 = 0" and "st mod 4 = 0" and "st + S < 2 ^ 32"
  shows "ns_inv (prvInitializeNewRingbuffer S RINGBUF_TYPE_NOSPLIT st m, [])"
    and "ns_queue (prvInitializeNewRingbuffer S RINGBUF_TYPE_NOSPLIT st m, []) = []"
  using ns_rel_init [OF assms, of m] ns_queue_items [OF ns_rel_init [OF assms, of m]]
  by (auto simp: ns_inv_def intro!: exI [of _ "[]"])

text \<open>The bytes of a held item are where the client received them.\<close>

lemma held_bytes: "(p, bs) \<in> set (held (chain_items H T m a ks)) \<Longrightarrow> rd_bytes m p (length bs) = bs"
proof (induction ks arbitrary: a)
  case (Cons k ks)
  then show ?case by (cases k) (auto split: if_splits)
qed simp

lemma ns_inv_held: "ns_inv s \<Longrightarrow> (p, bs) \<in> set (snd s) \<Longrightarrow> rd_bytes (store (fst s)) p (length bs) = bs"
  by (auto simp: ns_inv_def dest: held_bytes)

section \<open>The reported free size\<close>

lemma clamp_free_size:
  assumes "0 < n"
  shows "n \<le> clamp_free_size rb (int f - int rbHEADER_SIZE) \<longleftrightarrow> n + 8 \<le> f \<and> n \<le> xMaxItemSize rb"
  using assms by (auto simp: clamp_free_size_def)

lemma align_le:
  assumes "ns_geom H T mx" and "n \<le> mx" and "f mod 4 = 0"
  shows "n + 8 \<le> f \<longleftrightarrow> 8 + rbALIGN_SIZE n \<le> f"
proof -
  note t = ns_geom_total [OF assms(1,2)]
  show ?thesis using t(1-3) assms(3) by presburger
qed

lemma max_item_fits_empty:
  assumes "ns_geom H T mx" and "hdr_pos H T a" and "n \<le> mx"
  shows "n + 8 \<le> max (T - a) (a - H)"
proof -
  note t = ns_geom_total [OF assms(1,3)]
  obtain i j where q: "a = H + 4 * i" "T = a + 4 * j"
  proof -
    have "4 dvd a - H" "4 dvd T - a" "H \<le> a" "a \<le> T"
      using assms(1,2) by (auto simp: ns_geom_def hdr_pos_def dvd_diff_nat mod_eq_0_iff_dvd)
    then show ?thesis using that by (metis dvd_def le_add_diff_inverse)
  qed
  obtain k where "rbALIGN_SIZE n = 4 * k" using t(3) by blast
  then have k: "2 * k + 3 \<le> i + j" "n + 8 \<le> 4 * (k + 2)" using t(1,4) q by simp_all
  have "k + 2 \<le> i \<or> k + 2 \<le> j" using k(1) by presburger
  then show ?thesis
  proof
    assume "k + 2 \<le> i"
    then have "n + 8 \<le> a - H" using k(2) q by simp
    then show ?thesis by (simp add: le_max_iff_disj)
  next
    assume "k + 2 \<le> j"
    then have "n + 8 \<le> T - a" using k(2) q by simp
    then show ?thesis by (simp add: le_max_iff_disj)
  qed
qed

lemma ns_curmax:
  assumes rel: "ns_rel rb ks1 ks2" and n: "0 < n"
  shows "n \<le> prvGetCurMaxSizeNoSplit rb \<longleftrightarrow> n \<le> xMaxItemSize rb \<and> prvCheckItemFitsDefault rb n = Some True"
proof (cases "n \<le> xMaxItemSize rb")
  case False
  then show ?thesis
    using clamp_free_size [OF n] by (auto simp: prvGetCurMaxSizeNoSplit_def Let_def n)
next
  case True
  define H T acq f where "H = pucHead rb" and "T = pucTail rb" and "acq = pucAcquire rb" and "f = pucFree rb"
  note abb = H_def T_def acq_def f_def
  note d = ns_relD [OF rel]
  note t = ns_geom_total [OF d(2) True]
  have add: "add32 (rbALIGN_SIZE n) 8 = 8 + rbALIGN_SIZE n" using t(5) by (simp add: add32_exact)
  have ns: "\<not> flag_set (uxRingbufferFlags rb) rbALLOW_SPLIT_FLAG" using d(1) by (simp add: ns_typed_def)
  have ok: "rbCHECK_ALIGNED acq" "acquire_in_bounds rb"
    using d(9) by (auto simp: abb hdr_pos_def rbCHECK_ALIGNED_def acquire_in_bounds_def)
  have m4: "(f - acq) mod 4 = 0" "(T - acq) mod 4 = 0" "(f - H) mod 4 = 0"
    using d(2,4,9) by (auto simp: abb ns_geom_def hdr_pos_def mod_eq_0_iff_dvd dvd_diff_nat)
  note al = align_le [OF d(2) True]
  have full: "is_full rb \<Longrightarrow> acq = f"
  proof -
    have o: "pucFree rb - pucHead rb < xSize rb" "pucHead rb \<le> pucFree rb" "pucHead rb \<le> pucAcquire rb"
      using d(3,4,9) by (auto simp: hdr_pos_def)
    show "is_full rb \<Longrightarrow> acq = f" using wrap_window(1) [OF d(10) o(1) d(7)] o(2,3) d(8) by (auto simp: abb)
  qed
  have fit: "prvCheckItemFitsDefault rb n = Some (if acq = f then \<not> is_full rb else if acq < f then n + 8 \<le> f - acq
      else n + 8 \<le> T - acq \<or> n + 8 \<le> f - H)"
    using ok ns al [OF m4(1)] al [OF m4(2)] al [OF m4(3)]
    unfolding prvCheckItemFitsDefault_def add Let_def by (auto simp: abb)
  have emp: "n + 8 \<le> max (T - acq) (acq - H)" using max_item_fits_empty [OF d(2,9) True] by (simp add: abb)
  have "n \<le> prvGetCurMaxSizeNoSplit rb \<longleftrightarrow>
      \<not> is_full rb \<and> n + 8 \<le> (if acq < f then f - acq else max (T - acq) (f - H))"
  proof (cases "is_full rb")
    case False
    then show ?thesis
      using True unfolding prvGetCurMaxSizeNoSplit_def Let_def abb
      by (simp only: if_False clamp_free_size [OF n] simp_thms max_def not_le split: if_split) linarith
  qed (use n in \<open>simp add: prvGetCurMaxSizeNoSplit_def\<close>)
  then show ?thesis
    unfolding fit using True full emp by (auto simp: max_def split: if_splits)
qed

end
