(* ===== verification/Ringbuf_Props.thy ===== *)
theory Ringbuf_Props
  imports Ringbuf_Byte Ringbuf_NoSplit "HOL-Library.Monad_Syntax"
begin

text \<open>
  What the ring buffer promises its users, stated over the public functions: byte streams
  and item queues are conserved in order, the reported free size is exactly what can be
  sent, creation and deletion balance, and queue sets are notified. Two theorems record
  behaviours of the code that its documentation does not intend.
\<close>

section \<open>Evaluation on concrete buffers\<close>

text \<open>A scheduler with FIFO event lists and no preemption, for the concrete runs below.\<close>

definition fifo_kernel :: kernel where
  "fifo_kernel = \<lparr> place_on_event_list = (\<lambda>t ts. ts @ [t]), preempts = (\<lambda>t. False) \<rparr>"

lemmas api_eval = fifo_kernel_def prvInitializeNewRingbuffer_def send_now_def recv_now_def return_now_def
  xRingbufferSend_def prvSendAcquireGeneric.simps call_CheckItemFits_def call_CopyItem_def
  call_GetItem_def call_ReturnItem_def perform_send_def notify_receivers_def unblock_first_def
  not_sent_def acquire_in_bounds_def mark_full_def xRingbufferReceive_def xRingbufferReceiveUpTo_def
  prvReceiveGeneric.simps prvCheckItemAvail_def items_to_read_def retrieve_items_def outcome_of_def
  item_bytes_def not_received_def vRingbufferReturnItem_def Let_def flag_simps add32_def sub32_def

lemmas byte_eval = api_eval prvCheckItemFitsByteBuffer_def prvCopyItemByteBuf_def put_bytes_def
  finish_byte_copy_def prvGetItemByteBuf_def prvReturnItemByteBuf_def bb_borrowed_def bb_held_def
  bb_waiting_def wrap_def

lemmas item_eval = api_eval xRingbufferSendAcquire_def xRingbufferSendComplete_def
  prvCheckItemFitsDefault_def prvAcquireItemNoSplit_def prvSendItemDoneNoSplit_def prvCopyItemNoSplit_def
  wrap_acquire_def tail_rem_lt_header_def rbALIGN_SIZE_def align_up_def rbCHECK_ALIGNED_def
  set_ItemLen_def set_ItemFlags_def xItemLen_def uxItemFlags_def prvGetItemDefault_def
  prvReturnItemDefault_def advance_write.simps advance_free.simps mem_simps

section \<open>Byte buffers\<close>

text \<open>
  C6: a byte buffer is a byte stream. From a newly created buffer, along any sequence of
  sends, receives (with or without a size limit) and returns in which only held data is
  returned, no assertion fails, and the bytes accepted by the sends are exactly the bytes
  handed out by the receives, in order, followed by the bytes still queued.
\<close>

theorem bytebuf_stream:
  assumes "xRingbufferCreate (Some cb) (Some st) m n RINGBUF_TYPE_BYTEBUF = Returned (Some rb, [])"
    and "n < 2 ^ 32"
    and "well_used (send_now k task) (recv_now k task) (return_now k) bb_borrowed rb ops"
  shows "\<exists>rb' ins outs. run_fifo (send_now k task) (recv_now k task) (return_now k) (\<lambda>bs. bs) rb ops
      = Some (rb', ins, outs) \<and> ins = outs @ bb_queue rb'"
proof -
  have "rb = prvInitializeNewRingbuffer n RINGBUF_TYPE_BYTEBUF st m" "0 < n"
    using assms(1) by (auto simp: xRingbufferCreate_def split: if_splits)
  then have "bb_inv rb" "bb_queue rb = []" using bb_inv_init bb_queue_init assms(2) by auto
  then show ?thesis using bytebuf.run_conserves [OF _ assms(3)] by fastforce
qed

definition demo_bytes :: "(u8 list, nat, nat) fifo_op list" where
  "demo_bytes = [Send [1, 2, 3, 4, 5], Recv 3, Release 100, Send [6, 7, 8, 9], Recv 0, Release 103, Recv 0]"

theorem bytebuf_stream_witness:
  "\<exists>rb' ins outs. run_fifo (send_now fifo_kernel 0) (recv_now fifo_kernel 0) (return_now fifo_kernel) (\<lambda>bs. bs)
      (prvInitializeNewRingbuffer 8 RINGBUF_TYPE_BYTEBUF 100 (\<lambda>_. 0)) demo_bytes
      = Some (rb', ins, outs) \<and> ins = outs @ bb_queue rb'"
  by (rule bytebuf_stream [of 50 100 "\<lambda>_. 0" 8 _ fifo_kernel 0])
     (simp_all add: xRingbufferCreate_def demo_bytes_def byte_eval)

text \<open>
  On a byte buffer a non-blocking send is accepted exactly when the data is no longer
  than \<^verbatim>\<open>xRingbufferGetCurFreeSize\<close> reports; accepted bytes are appended to the stream,
  a refused send changes nothing that a receiver can see.
\<close>

theorem bytebuf_send_exact:
  assumes "bb_inv rb"
  shows "\<exists>rb'. send_now k task rb bs = Some (rb', length bs \<le> xRingbufferGetCurFreeSize rb)
    \<and> bb_inv rb' \<and> bb_queue rb' = (if length bs \<le> xRingbufferGetCurFreeSize rb
                                  then bb_queue rb @ bs else bb_queue rb)"
proof -
  define s f a d where "s = xSize rb" and "f = pucFree rb - pucHead rb"
    and "a = pucAcquire rb - pucHead rb" and "d = bb_held rb + bb_waiting rb"
  have b: "f < s" "a < s" "d \<le> s" "is_full rb \<longleftrightarrow> d = s" "xGetCurMaxSize rb = GetCurMaxSizeByteBuf"
    and p: "pucFree rb = pucHead rb + f" "pucAcquire rb = pucHead rb + a"
    using assms by (auto simp: bb_inv_def bb_bounds_def bb_typed_def s_def f_def a_def d_def)
  have w: "wrap s (f + d) = a"
    using assms unfolding d_def by (intro wrap_trans) (auto simp: bb_inv_def bb_bounds_def s_def f_def a_def)
  note win = wrap_window [OF w b(1,3)]
  have "xRingbufferGetCurFreeSize rb = s - d"
  proof (cases "is_full rb")
    case False
    then have "prvGetCurMaxSizeByteBuf rb = nat (if int f - int a \<le> 0 then int f - int a + int s else int f - int a)"
      unfolding prvGetCurMaxSizeByteBuf_def Let_def p s_def by simp
    also have "\<dots> = s - d" using False b(1-4) win by (cases "a < f"; cases "a = f") auto
    finally show ?thesis by (simp add: xRingbufferGetCurFreeSize_def call_GetCurMaxSize_def b(5))
  qed (use b in \<open>simp add: xRingbufferGetCurFreeSize_def call_GetCurMaxSize_def prvGetCurMaxSizeByteBuf_def\<close>)
  then have e: "xSize rb - bb_held rb - bb_waiting rb = xRingbufferGetCurFreeSize rb" by (simp add: s_def d_def)
  show ?thesis using bb_send_now [OF assms, of k task bs] unfolding e .
qed

theorem bytebuf_send_exact_witness:
  "\<exists>rb'. send_now fifo_kernel 0 (prvInitializeNewRingbuffer 4 RINGBUF_TYPE_BYTEBUF 100 (\<lambda>_. 0)) [7, 8, 9] = Some (rb', True)
     \<and> bb_queue rb' = [7, 8, 9]"
  using bytebuf_send_exact [OF bb_inv_init [of 4 100 "\<lambda>_. 0"], of fifo_kernel 0 "[7, 8, 9]"]
  by (auto simp: xRingbufferGetCurFreeSize_def call_GetCurMaxSize_def prvGetCurMaxSizeByteBuf_def
      prvInitializeNewRingbuffer_def bb_queue_def bb_waiting_def flag_simps)

text \<open>
  A non-blocking receive on a byte buffer hands out the longest contiguous run of
  queued bytes, up to the limit: when nothing is held and bytes are queued it returns a
  non-empty prefix of the queue of at most \<open>mx\<close> bytes (if \<open>mx > 0\<close>) and holds it;
  otherwise, in particular while earlier data is still held, it returns nothing and changes
  nothing.
\<close>

theorem bytebuf_recv_prefix:
  assumes "bb_inv rb"
  shows "if bb_held rb = 0 \<and> bb_queue rb \<noteq> []
    then \<exists>rb' bs. recv_now k task rb mx = Some (rb', bs) \<and> bs \<noteq> []
           \<and> length bs = (let n = min (length (bb_queue rb)) (pucTail rb - pucRead rb) in if mx = 0 then n else min n mx)
           \<and> bb_queue rb = bs @ bb_queue rb' \<and> bb_inv rb' \<and> bb_held rb' = length bs
    else recv_now k task rb mx = Some (rb, [])"
proof -
  have q: "bb_queue rb \<noteq> [] \<longleftrightarrow> 0 < bb_waiting rb"
    by (metis bb_queue_def length_greater_0_conv length_ring_bytes)
  show ?thesis
  proof (cases "bb_held rb = 0 \<and> bb_queue rb \<noteq> []")
    case True
    then have h: "bb_held rb = 0 \<and> 0 < bb_waiting rb" using q by simp
    define c where "c = bb_chunk rb mx"
    have len: "length (bb_queue rb) = bb_waiting rb" by (simp add: bb_queue_def)
    have ch: "0 < c" "c \<le> bb_waiting rb"
      "c = (let n = min (length (bb_queue rb)) (pucTail rb - pucRead rb) in if mx = 0 then n else min n mx)"
      using bb_chunk_bounds [OF assms] h unfolding c_def len by (auto simp: bb_chunk_def)
    note t = bb_taken_inv [OF assms conjunct1 [OF h] ch(2)]
    have "bb_queue rb = take c (bb_queue rb) @ bb_queue (bb_taken rb c)" using t(3) by simp
    moreover have "length (take c (bb_queue rb)) = c" using len ch(2) by simp
    moreover have "recv_now k task rb mx = Some (bb_taken rb c, take c (bb_queue rb))"
      using bb_recv_now [OF assms, of k task mx] h by (simp add: c_def)
    ultimately show ?thesis
      using True t(1,2) ch(1,3) by (metis list.size(3) less_irrefl)
  next
    case False
    then show ?thesis using bb_recv_now [OF assms, of k task mx] q by auto
  qed
qed

theorem bytebuf_recv_prefix_witness:
  "\<exists>rb' bs. recv_now fifo_kernel 0 (fst (the (send_now fifo_kernel 0
       (prvInitializeNewRingbuffer 8 RINGBUF_TYPE_BYTEBUF 100 (\<lambda>_. 0)) [1, 2, 3, 4, 5]))) 2 = Some (rb', bs) \<and> bs \<noteq> []"
proof -
  let ?b = "prvInitializeNewRingbuffer 8 RINGBUF_TYPE_BYTEBUF 100 (\<lambda>_. 0)"
  obtain rb where rb: "send_now fifo_kernel 0 ?b [1, 2, 3, 4, 5] = Some (rb, True)" "bb_inv rb" "bb_queue rb = [1, 2, 3, 4, 5]"
    "bb_held rb = 0"
    using bb_send_now [OF bb_inv_init [of 8 100 "\<lambda>_. 0"], of fifo_kernel 0 "[1, 2, 3, 4, 5]"]
    by (auto simp: byte_eval bb_queue_def)
  show ?thesis using bytebuf_recv_prefix [OF rb(2), of fifo_kernel 0 2] rb by auto
qed

section \<open>No-split buffers\<close>

text \<open>
  C2: a no-split buffer is a FIFO of whole items, and received items are borrowed safely.
  From a newly created buffer, along any sequence of sends, receives and returns (received
  items being returned in any order), no assertion fails and every loop ends; the accepted
  items are exactly the items handed out, in order and byte for byte, followed by those
  still queued; and the bytes of every item the application has not returned yet are still
  where it received them.
\<close>

theorem nosplit_queue:
  assumes "xRingbufferCreate (Some cb) (Some st) m n RINGBUF_TYPE_NOSPLIT = Returned (Some rb, [])"
    and "9 \<le> n" and "st mod 4 = 0" and "st + n + 3 < 2 ^ 32"
    and "well_used (ns_send k task) (ns_recv k task) (ns_release k) ns_borrowed (rb, []) ops"
  shows "\<exists>rb' hs ins outs. run_fifo (ns_send k task) (ns_recv k task) (ns_release k) (\<lambda>bs. [bs]) (rb, []) ops
      = Some ((rb', hs), ins, outs) \<and> ins = outs @ ns_queue (rb', hs)
      \<and> (\<forall>(p, bs) \<in> set hs. rd_bytes (store rb') p (length bs) = bs)"
proof -
  let ?S = "rbALIGN_SIZE n"
  have a: "n \<le> ?S" "?S < n + 4" "?S mod 4 = 0" using align4 [of n] assms(4) by auto
  have S: "12 \<le> ?S" "st + ?S < 2 ^ 32" using a assms(2,4) by presburger+
  have "rb = prvInitializeNewRingbuffer ?S RINGBUF_TYPE_NOSPLIT st m"
    using assms(1) by (auto simp: xRingbufferCreate_def split: if_splits)
  then have i: "ns_inv (rb, [])" "ns_queue (rb, []) = []"
    using ns_inv_init [OF S(1) a(3) assms(3) S(2)] by auto
  from nosplit.run_conserves [OF i(1) assms(5)] obtain s' ins outs where
    r: "run_fifo (ns_send k task) (ns_recv k task) (ns_release k) (\<lambda>bs. [bs]) (rb, []) ops = Some (s', ins, outs)"
      "ns_inv s'" "ins = outs @ ns_queue s'" using i(2) by auto
  then show ?thesis using ns_inv_held [OF r(2)] by (cases s') fastforce
qed

definition demo_items :: "(u8 list, unit, nat) fifo_op list" where
  "demo_items = [Send [1, 2, 3], Send [4], Recv (), Recv (), Release 1, Release 0, Send [5, 6]]"

theorem nosplit_queue_witness:
  "\<exists>rb' hs ins outs. run_fifo (ns_send fifo_kernel 0) (ns_recv fifo_kernel 0) (ns_release fifo_kernel) (\<lambda>bs. [bs])
      (prvInitializeNewRingbuffer 32 RINGBUF_TYPE_NOSPLIT 100 (\<lambda>_. 0), []) demo_items
      = Some ((rb', hs), ins, outs) \<and> ins = outs @ ns_queue (rb', hs)
      \<and> (\<forall>(p, bs) \<in> set hs. rd_bytes (store rb') p (length bs) = bs)"
  by (rule nosplit_queue [of 50 100 "\<lambda>_. 0" 32 _ fifo_kernel 0])
     (simp_all add: xRingbufferCreate_def demo_items_def item_eval ns_send_def ns_recv_def ns_release_def ns_borrowed_def)

text \<open>
  C32: on a no-split buffer the reported free size is exact: a non-empty item is accepted by
  a non-blocking send if and only if it is no longer than \<^verbatim>\<open>xRingbufferGetCurFreeSize\<close>, for
  every layout of the storage that sends, receives and returns lead to (wrapped or not, with items
  held by receivers or not), on a buffer of more than 8 bytes. Layouts with an item that was acquired
  with \<^verbatim>\<open>xRingbufferSendAcquire\<close> and is not complete yet are not covered.
\<close>

theorem nosplit_free_size_exact:
  assumes "ns_inv (rb, hs)" and "bs \<noteq> []"
  shows "\<exists>rb'. send_now k task rb bs = Some (rb', length bs \<le> xRingbufferGetCurFreeSize rb)"
proof -
  obtain ks1 ks2 where rel: "ns_rel rb ks1 ks2" using assms(1) by (auto simp: ns_inv_def)
  have ty: "\<not> flag_set (uxRingbufferFlags rb) rbBYTE_BUFFER_FLAG" "xCheckItemFits rb = CheckItemFitsDefault"
    "vCopyItem rb = CopyItemNoSplit" "xGetCurMaxSize rb = GetCurMaxSizeNoSplit"
    using ns_relD(1) [OF rel] by (auto simp: ns_typed_def)
  have n: "0 < length bs" using assms(2) by simp
  obtain b where b: "prvCheckItemFitsDefault rb (length bs) = Some b" using ns_check_fits [OF rel] by blast
  have iff: "length bs \<le> xRingbufferGetCurFreeSize rb \<longleftrightarrow> length bs \<le> xMaxItemSize rb \<and> b"
    using ns_curmax [OF rel n] b ty by (simp add: xRingbufferGetCurFreeSize_def call_GetCurMaxSize_def)
  show ?thesis
  proof (cases "length bs \<le> xMaxItemSize rb \<and> b")
    case True
    then obtain rb' where "prvCopyItemNoSplit rb bs = Some rb'" using ns_copy [OF rel, of bs] b by auto
    then show ?thesis unfolding iff
      using True b ty notify_receivers_rb [of k rb'] by (auto simp: send_now_def xRingbufferSend_def
          prvSendAcquireGeneric.simps call_CheckItemFits_def call_CopyItem_def perform_send_def)
  next
    case False
    then show ?thesis unfolding iff using b ty
      by (auto simp: send_now_def xRingbufferSend_def prvSendAcquireGeneric.simps call_CheckItemFits_def not_sent_def)
  qed
qed

theorem nosplit_free_size_exact_witness:
  "\<exists>rb'. send_now fifo_kernel 0 (prvInitializeNewRingbuffer 32 RINGBUF_TYPE_NOSPLIT 100 (\<lambda>_. 0)) [1, 2, 3] = Some (rb', True)"
  using nosplit_free_size_exact [OF ns_inv_init(1) [of 32 100 "\<lambda>_. 0"], of "[1, 2, 3]" fifo_kernel 0]
  by (simp add: xRingbufferGetCurFreeSize_def call_GetCurMaxSize_def prvGetCurMaxSizeNoSplit_def clamp_free_size_def
      prvInitializeNewRingbuffer_def rbALIGN_SIZE_def align_up_def sub32_def)

section \<open>Creation, deletion, queue sets\<close>

fun allocated :: "nat option \<Rightarrow> nat list" where
  "allocated None = []"
| "allocated (Some a) = [a]"

text \<open>
  \<^verbatim>\<open>xRingbufferCreateWithCaps\<close> does not leak. When one of its two allocations fails it
  returns \<^verbatim>\<open>NULL\<close> and frees whatever was allocated; when it succeeds, deleting the buffer
  with \<^verbatim>\<open>vRingbufferDeleteWithCaps\<close> frees exactly the control block and the storage, each
  once; the only failing assertion is on the type or on a size that is (or wraps to) zero.
\<close>

theorem create_with_caps_balanced:
  "case xRingbufferCreateWithCaps ps st m n t of
     Returned (None, freed) \<Rightarrow> (ps = None \<or> st = None) \<and> freed = allocated ps @ allocated st
   | Returned (Some rb, freed) \<Rightarrow> freed = [] \<and>
       (\<exists>a b. ps = Some a \<and> st = Some b \<and> vRingbufferDeleteWithCaps a rb = Returned [a, b])
   | AssertFailed \<Rightarrow> t = RINGBUF_TYPE_MAX \<or> n = 0 \<or> rbALIGN_SIZE n = 0
   | StillBlocked \<Rightarrow> False"
proof -
  have al: "rbCHECK_ALIGNED (rbALIGN_SIZE n)" by (simp add: rbCHECK_ALIGNED_def rbALIGN_SIZE_def align_up_def)
  show ?thesis
    by (cases ps; cases st)
       (auto simp: xRingbufferCreateWithCaps_def xRingbufferCreateStatic_def Let_def al flag_simps
          vRingbufferDeleteWithCaps_def xRingbufferGetStaticBuffer_def vRingbufferDelete_def
          prvInitializeNewRingbuffer_def split: if_splits)
qed

definition same_waiters :: "Ringbuffer \<Rightarrow> Ringbuffer \<Rightarrow> bool" where
  "same_waiters rb rb' \<longleftrightarrow> xQueueSet rb' = xQueueSet rb \<and> xTasksWaitingToReceive rb' = xTasksWaitingToReceive rb"

lemma advance_write_waiters:
  assumes "advance_write rb = Some rb'"
  shows "same_waiters rb rb'"
proof (rule advance_write.raw_induct [OF _ assms])
  fix aw rb rb'
  assume IH: "\<And>x y. aw x = Some y \<Longrightarrow> same_waiters x y"
    and eq: "(let f = uxItemFlags (store rb) (pucWrite rb) in
      if flag_set f rbITEM_WRITTEN_FLAG \<or> flag_set f rbITEM_DUMMY_DATA_FLAG then
        let rb1 = (if flag_set f rbITEM_DUMMY_DATA_FLAG then
               rb\<lparr> store := set_ItemFlags (store rb) (pucWrite rb) (f OR rbITEM_WRITTEN_FLAG),
                   pucWrite := pucHead rb \<rparr>
             else
               rb\<lparr> pucWrite := pucWrite rb
                     + add32 (rbALIGN_SIZE (xItemLen (store rb) (pucWrite rb))) rbHEADER_SIZE \<rparr>)
        in if \<not> flag_set f rbITEM_DUMMY_DATA_FLAG \<and> pucHead rb + xSize rb < pucWrite rb1 then None
           else let rb2 = (if tail_rem_lt_header rb1 (pucWrite rb1)
                           then rb1\<lparr> pucWrite := pucHead rb1 \<rparr> else rb1)
                in if pucWrite rb2 = pucAcquire rb2 then Some rb2 else aw rb2
      else Some rb) = Some rb'"
  from eq show "same_waiters rb rb'"
    by (auto simp: Let_def same_waiters_def split: if_splits dest!: IH)
qed

lemma stage_waiters [simp]:
  "xQueueSet (mark_full rb) = xQueueSet rb" "xTasksWaitingToReceive (mark_full rb) = xTasksWaitingToReceive rb"
  "xQueueSet (wrap_acquire rb) = xQueueSet rb" "xTasksWaitingToReceive (wrap_acquire rb) = xTasksWaitingToReceive rb"
  "xQueueSet (put_bytes rb bs) = xQueueSet rb" "xTasksWaitingToReceive (put_bytes rb bs) = xTasksWaitingToReceive rb"
  "xQueueSet (finish_byte_copy rb) = xQueueSet rb"
  "xTasksWaitingToReceive (finish_byte_copy rb) = xTasksWaitingToReceive rb"
  by (simp_all add: mark_full_def wrap_acquire_def put_bytes_def finish_byte_copy_def Let_def)

lemma split_first_part_waiters: "split_first_part rb bs n r = (rb', bs', n') \<Longrightarrow> same_waiters rb rb'"
  by (auto simp: split_first_part_def Let_def same_waiters_def split: if_splits)

lemma copy_allow_split_waiters:
  assumes "prvCopyItemAllowSplit rb bs = Some rb'"
  shows "same_waiters rb rb'"
proof -
  let ?al = "rbALIGN_SIZE (length bs)" and ?rem = "pucTail rb - pucAcquire rb"
  obtain rb1 bs1 al1 where e: "(if ?rem < add32 ?al rbHEADER_SIZE then split_first_part rb bs ?al ?rem
      else (rb, bs, ?al)) = (rb1, bs1, al1)"
    using prod_cases3 by blast
  have "same_waiters rb rb1"
    using e split_first_part_waiters by (auto simp: same_waiters_def split: if_splits)
  then show ?thesis
    using assms unfolding prvCopyItemAllowSplit_def Let_def e same_waiters_def by (auto split: if_splits)
qed

lemma copy_item_waiters:
  assumes "call_CopyItem rb bs = Some rb'"
  shows "same_waiters rb rb'"
proof (cases "vCopyItem rb")
  case CopyItemNoSplit
  then show ?thesis
    using assms by (auto simp: call_CopyItem_def prvCopyItemNoSplit_def prvSendItemDoneNoSplit_def
        prvAcquireItemNoSplit_def Let_def same_waiters_def
        dest!: advance_write_waiters split: option.splits if_splits prod.splits)
next
  case CopyItemAllowSplit
  then show ?thesis
    using assms copy_allow_split_waiters by (simp add: call_CopyItem_def)
next
  case CopyItemByteBuf
  then show ?thesis
    using assms by (auto simp: call_CopyItem_def prvCopyItemByteBuf_def Let_def same_waiters_def split: if_splits)
qed

text \<open>
  A buffer that was added to a queue set for reading notifies that queue set on every
  accepted send, blocking or not, and then wakes no task of its own receive list; a send
  that is not accepted notifies nobody.
\<close>

theorem queue_set_notified:
  assumes "xRingbufferAddToQueueSetRead rb0 qs = (rb, True)"
    and "xRingbufferSend k task rb bs ticks [] = Returned r" and "bs \<noteq> []"
  shows "sent_notify r = (if sent_ok r then Some qs else None) \<and>
    xTasksWaitingToReceive (sent_rb r) = xTasksWaitingToReceive rb"
proof -
  have q: "xQueueSet rb = Some qs"
    using assms(1) by (auto simp: xRingbufferAddToQueueSetRead_def split: if_splits)
  show ?thesis
    using assms(2,3) q copy_item_waiters [of rb bs]
    by (auto simp: same_waiters_def xRingbufferSend_def prvSendAcquireGeneric.simps perform_send_def not_sent_def
        notify_receivers_def split: if_splits option.splits bool.splits)
qed

theorem queue_set_notified_witness:
  "\<exists>r. xRingbufferSend fifo_kernel 0
      (fst (xRingbufferAddToQueueSetRead (prvInitializeNewRingbuffer 8 RINGBUF_TYPE_BYTEBUF 100 (\<lambda>_. 0)) 9)) [1] 0 [] = Returned r
     \<and> sent_notify r = Some 9"
proof -
  let ?b = "prvInitializeNewRingbuffer 8 RINGBUF_TYPE_BYTEBUF 100 (\<lambda>_. 0)"
  have 1: "xRingbufferAddToQueueSetRead ?b 9 = (?b\<lparr> xQueueSet := Some 9 \<rparr>, True)"
    by (simp add: xRingbufferAddToQueueSetRead_def byte_eval)
  obtain r where 2: "xRingbufferSend fifo_kernel 0 (?b\<lparr> xQueueSet := Some 9 \<rparr>) [1] 0 [] = Returned r" "sent_ok r"
    by (simp add: byte_eval)
  show ?thesis using queue_set_notified [OF 1 2(1)] 1 2 by simp
qed

section \<open>Behaviours outside the contract\<close>

text \<open>Calls that must succeed, for the scenario below.\<close>

definition do_acquire :: "Ringbuffer \<Rightarrow> nat \<Rightarrow> (Ringbuffer \<times> nat) option" where
  "do_acquire rb n = (case xRingbufferSendAcquire fifo_kernel 0 rb n 0 [] of
     Returned r \<Rightarrow> map_option (Pair (sent_rb r)) (sent_ptr r) | _ \<Rightarrow> None)"

definition do_complete :: "Ringbuffer \<Rightarrow> nat \<Rightarrow> Ringbuffer option" where
  "do_complete rb p = (case xRingbufferSendComplete fifo_kernel rb p of Returned r \<Rightarrow> Some (sent_rb r) | _ \<Rightarrow> None)"

definition do_receive :: "Ringbuffer \<Rightarrow> (Ringbuffer \<times> nat) option" where
  "do_receive rb = (case xRingbufferReceive fifo_kernel 0 rb 0 [] of
     Returned r \<Rightarrow> map_option (\<lambda>(p, n). (recv_rb r, p)) (recv_item1 r) | _ \<Rightarrow> None)"

text \<open>
  An 80-byte buffer, first emptied with its free pointer in the middle. Then \<open>a\<close> is acquired
  behind it, \<open>b\<close> wraps to the head (leaving a dummy header), \<open>c\<close> follows \<open>b\<close>; \<open>a\<close> and \<open>c\<close> are
  completed, \<open>b\<close> is not; \<open>a\<close> is received. The result is the state and the address of \<open>b\<close>.
\<close>

definition out_of_order_run :: "(Ringbuffer \<times> nat) option" where
  "out_of_order_run = do {
     (rb, x) \<leftarrow> do_acquire (prvInitializeNewRingbuffer 80 RINGBUF_TYPE_NOSPLIT 100 (\<lambda>_. 0)) 32;
     rb \<leftarrow> do_complete rb x; (rb, x) \<leftarrow> do_receive rb; rb \<leftarrow> return_now fifo_kernel rb x;
     (rb, a) \<leftarrow> do_acquire rb 8; (rb, b) \<leftarrow> do_acquire rb 20; (rb, c) \<leftarrow> do_acquire rb 0;
     rb \<leftarrow> do_complete rb a; rb \<leftarrow> do_complete rb c; (rb, _) \<leftarrow> do_receive rb;
     Some (rb, b) }"

text \<open>
  \<^verbatim>\<open>xRingbufferReceive\<close> can hand out an item that is acquired but not completed. When
  items are completed out of order across a wrap-around, \<^verbatim>\<open>prvCheckItemAvail\<close> looks at the
  written flag of the dummy header and not at that of the item behind it, so the receiver
  gets the unwritten item \<open>b\<close>.
\<close>

theorem receive_unwritten_item:
  "\<exists>rb b rb'. out_of_order_run = Some (rb, b) \<and> do_receive rb = Some (rb', b)
     \<and> \<not> flag_set (uxItemFlags (store rb) (b - rbHEADER_SIZE)) rbITEM_WRITTEN_FLAG"
proof -
  have "do { (rb, b) \<leftarrow> out_of_order_run; (rb', p) \<leftarrow> do_receive rb;
      Some (p = b, flag_set (uxItemFlags (store rb) (b - rbHEADER_SIZE)) rbITEM_WRITTEN_FLAG) } = Some (True, False)"
    by (simp add: out_of_order_run_def do_acquire_def do_complete_def do_receive_def item_eval)
  then show ?thesis by (auto simp: bind_eq_Some_conv split: prod.splits)
qed

text \<open>
  For a no-split buffer whose size is below twelve bytes after alignment,
  \<^verbatim>\<open>xMaxItemSize\<close> wraps around to a value near \<open>2 ^ 32\<close>, and an empty buffer then accepts
  an item of any size, far larger than its storage.
\<close>

theorem tiny_nosplit_accepts_anything:
  assumes "n \<le> 8" and "0 < n" and "xRingbufferCreate (Some cb) (Some st) m n RINGBUF_TYPE_NOSPLIT = Returned (Some rb, [])"
    and "st mod 4 = 0"
  shows "2 ^ 32 - 8 \<le> xRingbufferGetMaxItemSize rb \<and> pucTail rb = pucHead rb + rbALIGN_SIZE n \<and>
    prvCheckItemFitsDefault rb sz = Some True"
proof -
  have "n \<in> {1, 2, 3, 4, 5, 6, 7, 8}" using assms(1,2) by auto
  then have S: "rbALIGN_SIZE n = 4 \<or> rbALIGN_SIZE n = 8" by (auto simp: rbALIGN_SIZE_def align_up_def)
  have rb: "rb = prvInitializeNewRingbuffer (rbALIGN_SIZE n) RINGBUF_TYPE_NOSPLIT st m"
    using assms(3) by (auto simp: xRingbufferCreate_def split: if_splits)
  have "2 ^ 32 - 8 \<le> xRingbufferGetMaxItemSize rb"
    using S unfolding rb xRingbufferGetMaxItemSize_def prvInitializeNewRingbuffer_def
    by (auto simp: rbALIGN_SIZE_def align_up_def sub32_def)
  moreover have "pucTail rb = pucHead rb + rbALIGN_SIZE n"
    unfolding rb prvInitializeNewRingbuffer_def by (simp add: Let_def)
  moreover have "prvCheckItemFitsDefault rb sz = Some True"
    using S assms(4) unfolding rb prvInitializeNewRingbuffer_def
    by (auto simp: prvCheckItemFitsDefault_def rbCHECK_ALIGNED_def acquire_in_bounds_def Let_def)
  ultimately show ?thesis by blast
qed

theorem tiny_nosplit_witness:
  "\<exists>rb. xRingbufferCreate (Some 1) (Some 100) (\<lambda>_. 0) 8 RINGBUF_TYPE_NOSPLIT = Returned (Some rb, [])
     \<and> prvCheckItemFitsDefault rb 1000 = Some True"
proof -
  have "xRingbufferCreate (Some 1) (Some 100) (\<lambda>_. 0) 8 RINGBUF_TYPE_NOSPLIT =
      Returned (Some (prvInitializeNewRingbuffer (rbALIGN_SIZE 8) RINGBUF_TYPE_NOSPLIT 100 (\<lambda>_. 0)), [])"
    by (simp add: xRingbufferCreate_def Let_def)
  from this tiny_nosplit_accepts_anything [OF _ _ this, of 1000] show ?thesis by simp
qed

end
