(* ===== verification/Esp_Flash.thy ===== *)
theory Esp_Flash
  imports Prelude
begin

text \<open>
  The SPI flash driver API of \<^verbatim>\<open>components/spi_flash/esp_flash_api.c\<close>: reading, erasing,
  writing and encrypted writing of a NOR flash chip, with the argument checks, the loops that
  cut a request into sectors, chunks or encryption rows, and the error paths.

  \<^item> A chip is a record: its geometry, the memory cells, and the hooks the code calls through
    pointers. Build configuration: \<^verbatim>\<open>CONFIG_SPI_FLASH_ROM_IMPL\<close> off, a target after the
    ESP32, dangerous writes fail instead of aborting; \<^verbatim>\<open>CONFIG_SPI_FLASH_VERIFY_WRITE\<close> is the
    field \<open>verify_write\<close>.
  \<^item> Cells follow NOR rules: erasing sets bytes to \<open>0xFF\<close>, programming can only clear bits.
  \<^item> Every call into the chip driver, the operating system hooks or the MMU may fail. The
    results of the successive calls are the list \<open>drv_results\<close> (an exhausted list means
    success); a failing erase or program operation leaves whatever memory its entry says.
  \<^item> Flash encryption is a parameter of the chip: a block cipher per 16-byte block and
    address. \<open>flash_view\<close> is what the cache mapping shows.
\<close>

section \<open>Chip, memory cells and driver calls\<close>

record flash =
  is_default_chip :: bool
  chip_size :: nat
  sector_size :: nat
  block_erase_size :: nat
  protectable_regions :: "((nat \<times> nat) \<times> bool) list"
  region_protected :: "nat \<Rightarrow> nat \<Rightarrow> esp_err"
  temp_buffer :: "nat \<Rightarrow> nat option"
  verify_write :: bool
  xts_block_max :: nat
  enc_enabled :: bool
  xts_enc :: "nat \<Rightarrow> u8 list \<Rightarrow> u8 list"
  xts_dec :: "nat \<Rightarrow> u8 list \<Rightarrow> u8 list"
  flash_mem :: memory
  drv_results :: "(esp_err \<times> (memory \<Rightarrow> memory)) list"

definition erase_mem :: "nat \<Rightarrow> nat \<Rightarrow> memory \<Rightarrow> memory" where
  "erase_mem a n m = (\<lambda>i. if a \<le> i \<and> i < a + n then 0xFF else m i)"

definition program_mem :: "nat \<Rightarrow> u8 list \<Rightarrow> memory \<Rightarrow> memory" where
  "program_mem a bs m = (\<lambda>i. if a \<le> i \<and> i < a + length bs then m i AND bs ! (i - a) else m i)"

text \<open>A call that does not touch the cells (yield, bus start and end, cache flush, mapping).\<close>

definition drv_status :: "flash \<Rightarrow> esp_err \<times> flash" where
  "drv_status f = (case drv_results f of
       [] \<Rightarrow> (ESP_OK, f) | (e, _) # rs \<Rightarrow> (e, f\<lparr> drv_results := rs \<rparr>))"

text \<open>A call that performs \<open>op\<close> on the cells when it succeeds.\<close>

definition drv_op :: "(memory \<Rightarrow> memory) \<Rightarrow> flash \<Rightarrow> esp_err \<times> flash" where
  "drv_op op f = (case drv_results f of
       [] \<Rightarrow> (ESP_OK, f\<lparr> flash_mem := op (flash_mem f) \<rparr>)
     | (e, damage) # rs \<Rightarrow>
         (e, f\<lparr> flash_mem := (if e = ESP_OK then op else damage) (flash_mem f), drv_results := rs \<rparr>))"

text \<open>\<^verbatim>\<open>CHECK_WRITE_ADDRESS\<close>: the result the macro returns early with, if any.\<close>

definition check_write_address :: "flash \<Rightarrow> nat \<Rightarrow> nat \<Rightarrow> esp_err option" where
  "check_write_address f addr n =
     (let ret = region_protected f addr n in
      if ret = ESP_ERR_NOT_ALLOWED then Some ret
      else if ret \<noteq> ESP_OK then Some ESP_ERR_INVALID_ARG else None)"

definition flash_end_flush_cache :: "flash \<Rightarrow> esp_err \<Rightarrow> bool \<Rightarrow> esp_err \<times> flash" where
  "flash_end_flush_cache f err bus_acquired =
     (case (if bus_acquired then (ESP_OK, f) else drv_status f) of (acquire_err, f1) \<Rightarrow>
        if acquire_err \<noteq> ESP_OK then (if err = ESP_OK then acquire_err else err, f1)
        else case drv_status f1 of (flush_err, f2) \<Rightarrow>
          let err1 = (if err = ESP_OK then flush_err else err) in
          case drv_status f2 of (end_err, f3) \<Rightarrow> (if err1 = ESP_OK then end_err else err1, f3))"

section \<open>Erasing\<close>

definition regions_overlap :: "nat \<Rightarrow> nat \<Rightarrow> nat \<Rightarrow> nat \<Rightarrow> bool" where
  "regions_overlap a_start a_len b_start b_len \<longleftrightarrow> add32 a_start a_len > b_start \<and> add32 b_start b_len > a_start"

text \<open>The result of a loop: returned directly, or left with the flag \<^verbatim>\<open>bus_acquired\<close>.\<close>

type_synonym loop_exit = "esp_err \<times> flash \<times> bool option"

function erase_loop :: "flash \<Rightarrow> nat \<Rightarrow> nat \<Rightarrow> loop_exit" where
  "erase_loop f erase_addr len_remain =
     (case drv_status f of (e1, f1) \<Rightarrow>
        if e1 \<noteq> ESP_OK then (e1, f1, None)
        else case drv_status f1 of (e2, f2) \<Rightarrow>
          if e2 \<noteq> ESP_OK then (e2, f2, Some False)
          else
            let blk = block_erase_size f;
                n = (if blk > 0 \<and> len_remain \<ge> blk \<and> erase_addr mod blk = 0 then blk else sector_size f)
            in case drv_op (erase_mem erase_addr n) f2 of (e3, f3) \<Rightarrow>
                 if e3 \<noteq> ESP_OK \<or> len_remain \<le> n \<or> n = 0 then (e3, f3, Some True)
                 else case drv_status f3 of (e4, f4) \<Rightarrow>
                   if e4 \<noteq> ESP_OK then (e4, f4, Some True)
                   else erase_loop f4 (erase_addr + n) (len_remain - n))"
  by pat_completeness auto
termination
  by (relation "measure (\<lambda>(f, a, n). n)") (auto simp: Let_def split: if_splits)

declare erase_loop.simps [simp del]

definition esp_flash_erase_region :: "flash \<Rightarrow> nat \<Rightarrow> nat \<Rightarrow> esp_err \<times> flash" where
  "esp_flash_erase_region f start len =
     (case check_write_address f start len of
        Some e \<Rightarrow> (e, f)
      | None \<Rightarrow>
          if sector_size f = 0 \<or> block_erase_size f mod sector_size f \<noteq> 0 then (ESP_ERR_FLASH_NOT_INITIALISED, f)
          else if start > chip_size f \<or> len > chip_size f - start then (ESP_ERR_INVALID_ARG, f)
          else if start mod sector_size f \<noteq> 0 \<or> len mod sector_size f \<noteq> 0 then (ESP_ERR_INVALID_ARG, f)
          else if len = 0 then (ESP_OK, f)
          else
            case (if protectable_regions f = [] then (ESP_OK, f)
                  else case drv_status f of (e1, f1) \<Rightarrow>
                    if e1 \<noteq> ESP_OK then (e1, f1)
                    else case drv_status f1 of (e2, f2) \<Rightarrow>
                      let e3 = (if e2 = ESP_OK \<and> (\<exists>((off, n), p) \<in> set (protectable_regions f). p \<and> regions_overlap start len off n)
                                then ESP_ERR_FLASH_PROTECTED else e2)
                      in case drv_status f2 of (end_err, f3) \<Rightarrow> (if e3 = ESP_OK then end_err else e3, f3)) of
              (e, f1) \<Rightarrow>
                if e \<noteq> ESP_OK then (e, f1)
                else case erase_loop f1 start len of
                       (e, f2, None) \<Rightarrow> (e, f2)
                     | (e, f2, Some bus) \<Rightarrow> flash_end_flush_cache f2 e bus)"

section \<open>Reading\<close>

text \<open>
  The cache mapping shows decrypted memory when flash encryption is enabled.
\<close>

definition flash_view :: "flash \<Rightarrow> memory" where
  "flash_view f =
     (if enc_enabled f
      then (\<lambda>i. xts_dec f (16 * (i div 16)) (rd_bytes (flash_mem f) (16 * (i div 16)) 16) ! (i mod 16))
      else flash_mem f)"

definition MAX_READ_CHUNK :: nat where "MAX_READ_CHUNK = 16384"

function read_loop :: "flash \<Rightarrow> nat \<Rightarrow> nat \<Rightarrow> nat \<Rightarrow> esp_err \<times> u8 list \<times> flash" where
  "read_loop f chunk address len =
     (case drv_status f of (e1, f1) \<Rightarrow>
        if e1 \<noteq> ESP_OK then (e1, [], f1)
        else
          let n = min chunk len in
          case drv_status f1 of (e2, f2) \<Rightarrow>
            if e2 \<noteq> ESP_OK then (e2, [], snd (drv_status f2))
            else case drv_status f2 of (e3, f3) \<Rightarrow>
              let bs = rd_bytes (flash_mem f3) address n in
              if e3 \<noteq> ESP_OK \<or> len \<le> n \<or> n = 0 then (e3, bs, f3)
              else case read_loop f3 chunk (address + n) (len - n) of (e, rest, f4) \<Rightarrow> (e, bs @ rest, f4))"
  by pat_completeness auto
termination
  by (relation "measure (\<lambda>(f, c, a, n). n)") auto

declare read_loop.simps [simp del]

text \<open>
  \<open>direct\<close>: the destination is in DRAM or the host supports it. The bytes returned are those
  stored to the buffer (complete when the result is \<^verbatim>\<open>ESP_OK\<close>). The range check adds two
  32-bit numbers.
\<close>

definition esp_flash_read :: "flash \<Rightarrow> bool \<Rightarrow> nat \<Rightarrow> nat \<Rightarrow> esp_err \<times> u8 list \<times> flash" where
  "esp_flash_read f direct address len =
     (if address > chip_size f \<or> add32 address len > chip_size f then (ESP_ERR_INVALID_ARG, [], f)
      else if len = 0 then (ESP_OK, [], f)
      else if direct then read_loop f (min MAX_READ_CHUNK len) address len
      else case temp_buffer f (min MAX_READ_CHUNK len) of
             None \<Rightarrow> (ESP_ERR_NO_MEM, [], f)
           | Some actual_len \<Rightarrow> read_loop f actual_len address len)"

definition spi_flash_mmap :: "flash \<Rightarrow> nat \<Rightarrow> nat \<Rightarrow> esp_err \<times> u8 list \<times> flash" where
  "spi_flash_mmap f src len =
     (case drv_status f of (e, f1) \<Rightarrow> (e, if e = ESP_OK then rd_bytes (flash_view f1) src len else [], f1))"

definition SPI_FLASH_MMU_PAGE_SIZE :: nat where "SPI_FLASH_MMU_PAGE_SIZE = 65536"

definition esp_flash_read_encrypted :: "flash \<Rightarrow> nat \<Rightarrow> nat \<Rightarrow> esp_err \<times> u8 list \<times> flash" where
  "esp_flash_read_encrypted f address len =
     (if add32 address len > chip_size f then (ESP_ERR_INVALID_SIZE, [], f)
      else if len = 0 then (ESP_OK, [], f)
      else
        let map_src = address - address mod SPI_FLASH_MMU_PAGE_SIZE
        in case spi_flash_mmap f map_src (len + (address - map_src)) of (e, bs, f1) \<Rightarrow>
             if e \<noteq> ESP_OK then (e, [], f1) else (ESP_OK, take len (drop (address - map_src) bs), f1))"

section \<open>Writing\<close>

text \<open>\<^verbatim>\<open>s_verify_write\<close>: only whole 32-bit words of each 64-byte piece are compared.\<close>

function s_verify_write :: "flash \<Rightarrow> nat \<Rightarrow> u8 list \<Rightarrow> bool \<Rightarrow> esp_err \<times> flash" where
  "s_verify_write f verify_address expected is_encrypted =
     (if expected = [] then (ESP_OK, f)
      else
        let n = min (length expected) 64; w = 4 * (n div 4) in
        case (if is_encrypted then esp_flash_read_encrypted f verify_address n
              else case drv_status f of (e, f1) \<Rightarrow> (e, rd_bytes (flash_mem f1) verify_address n, f1)) of
          (e, buf, f1) \<Rightarrow>
            if e \<noteq> ESP_OK then (e, f1)
            else if take w buf \<noteq> take w expected then (ESP_FAIL, f1)
            else s_verify_write f1 (verify_address + n) (drop n expected) is_encrypted)"
  by pat_completeness auto
termination
  by (relation "measure (\<lambda>(f, a, ex, b). length ex)") auto

declare s_verify_write.simps [simp del]

definition MAX_WRITE_CHUNK :: nat where "MAX_WRITE_CHUNK = 8192"

function write_loop :: "flash \<Rightarrow> bool \<Rightarrow> nat \<Rightarrow> u8 list \<Rightarrow> loop_exit" where
  "write_loop f direct write_addr buffer =
     (let write_len = min (length buffer) (if direct then MAX_WRITE_CHUNK else 32);
          write_buf = take write_len buffer
      in case drv_status f of (e1, f1) \<Rightarrow>
        if e1 \<noteq> ESP_OK then (e1, f1, None)
        else case drv_status f1 of (e2, f2) \<Rightarrow>
          if e2 \<noteq> ESP_OK then (e2, f2, Some False)
          else case drv_op (program_mem write_addr write_buf) f2 of (e3, f3) \<Rightarrow>
            if e3 \<noteq> ESP_OK then (e3, f3, Some True)
            else case (if verify_write f then s_verify_write f3 write_addr write_buf False else (ESP_OK, f3)) of (e4, f4) \<Rightarrow>
              if e4 \<noteq> ESP_OK \<or> length buffer \<le> write_len then (e4, f4, Some True)
              else case drv_status f4 of (e5, f5) \<Rightarrow>
                if e5 \<noteq> ESP_OK then (e5, f5, Some True)
                else write_loop f5 direct (write_addr + write_len) (drop write_len buffer))"
  by pat_completeness auto
termination
  by (relation "measure (\<lambda>(f, d, a, b). length b)") (auto simp: MAX_WRITE_CHUNK_def split: if_splits)

declare write_loop.simps [simp del]

text \<open>
  On the error path the cache is restored and the first error is returned, whatever the
  restoration says.
\<close>

definition finish_write :: "loop_exit \<Rightarrow> esp_err \<times> flash" where
  "finish_write r = (case r of
       (e, f, None) \<Rightarrow> (e, f)
     | (e, f, Some bus) \<Rightarrow>
         (case flash_end_flush_cache f e bus of (e', f') \<Rightarrow> (if e = ESP_OK then e' else e, f')))"

definition esp_flash_write :: "flash \<Rightarrow> bool \<Rightarrow> u8 list \<Rightarrow> nat \<Rightarrow> esp_err \<times> flash" where
  "esp_flash_write f direct buffer address =
     (case check_write_address f address (length buffer) of
        Some e \<Rightarrow> (e, f)
      | None \<Rightarrow>
          if address > chip_size f \<or> length buffer > chip_size f - address then (ESP_ERR_INVALID_ARG, f)
          else if buffer = [] then (ESP_OK, f)
          else finish_write (write_loop f direct address buffer))"

text \<open>The ciphertext of whole 16-byte blocks that start at an address.\<close>

function xts_cipher :: "(nat \<Rightarrow> u8 list \<Rightarrow> u8 list) \<Rightarrow> nat \<Rightarrow> u8 list \<Rightarrow> u8 list" where
  "xts_cipher enc a bs =
     (if length bs < 16 then [] else enc a (take 16 bs) @ xts_cipher enc (a + 16) (drop 16 bs))"
  by pat_completeness auto
termination
  by (relation "measure (\<lambda>(enc, a, bs). length bs)") auto

declare xts_cipher.simps [simp del]

definition enc_row_size :: "flash \<Rightarrow> nat \<Rightarrow> nat \<Rightarrow> nat" where
  "enc_row_size f row_addr remaining =
     (if row_addr mod 64 = 0 \<and> remaining \<ge> 64 \<and> xts_block_max f = 64 then 64
      else if row_addr mod 32 = 0 \<and> remaining \<ge> 32 then 32 else 16)"

text \<open>
  The row loop. \<open>lock_once\<close>: the buffer is in DRAM, and the bus stays locked between rows.
\<close>

function enc_loop :: "flash \<Rightarrow> bool \<Rightarrow> nat \<Rightarrow> u8 list \<Rightarrow> esp_err \<times> flash" where
  "enc_loop f lock_once row_addr ssrc =
     (if ssrc = [] then (ESP_OK, f)
      else
        let n = enc_row_size f row_addr (length ssrc); row = take n ssrc in
        case (if lock_once then (ESP_OK, f) else drv_status f) of (e1, f1) \<Rightarrow>
          if e1 \<noteq> ESP_OK then (e1, f1)
          else case drv_op (program_mem row_addr (xts_cipher (xts_enc f) row_addr row)) f1 of (e2, f2) \<Rightarrow>
            if e2 \<noteq> ESP_OK then (e2, f2)
            else case (if lock_once then (ESP_OK, f2) else drv_status f2) of (e3, f3) \<Rightarrow>
              if e3 \<noteq> ESP_OK then (e3, f3)
              else case (if verify_write f then
                           (case (if lock_once then drv_status f3 else (ESP_OK, f3)) of (e4, f4) \<Rightarrow>
                              if e4 \<noteq> ESP_OK then (e4, f4)
                              else case s_verify_write f4 row_addr row True of (e5, f5) \<Rightarrow>
                                if e5 \<noteq> ESP_OK then (e5, f5)
                                else (if lock_once then drv_status f5 else (ESP_OK, f5)))
                         else (ESP_OK, f3)) of (e6, f6) \<Rightarrow>
                if e6 \<noteq> ESP_OK then (e6, f6)
                else enc_loop f6 lock_once (row_addr + n) (drop n ssrc))"
  by pat_completeness auto
termination
  by (relation "measure (\<lambda>(f, l, a, b). length b)") (auto simp: Let_def enc_row_size_def split: if_splits)

declare enc_loop.simps [simp del]

text \<open>\<^verbatim>\<open>restore_cache\<close>: unlock, then flush; the error that led here is returned.\<close>

definition restore_cache :: "esp_err \<Rightarrow> flash \<Rightarrow> esp_err \<times> flash" where
  "restore_cache e f = (e, snd (flash_end_flush_cache (snd (drv_status f)) e False))"

definition esp_flash_write_encrypted :: "flash \<Rightarrow> bool \<Rightarrow> nat \<Rightarrow> u8 list \<Rightarrow> esp_err \<times> flash" where
  "esp_flash_write_encrypted f in_dram address buffer =
     (if \<not> is_default_chip f then (ESP_ERR_NOT_SUPPORTED, f)
      else case check_write_address f address (length buffer) of
        Some e \<Rightarrow> (e, f)
      | None \<Rightarrow>
          if address > chip_size f \<or> length buffer > chip_size f - address then (ESP_ERR_INVALID_ARG, f)
          else if address mod 16 \<noteq> 0 then (ESP_ERR_INVALID_ARG, f)
          else if buffer = [] then (ESP_OK, f)
          else if length buffer mod 16 \<noteq> 0 then (ESP_ERR_INVALID_SIZE, f)
          else case (if in_dram then drv_status f else (ESP_OK, f)) of (e0, f0) \<Rightarrow>
            if e0 \<noteq> ESP_OK then (e0, f0)
            else case enc_loop f0 in_dram address buffer of (e1, f1) \<Rightarrow>
              if e1 \<noteq> ESP_OK then restore_cache e1 f1
              else case (if in_dram then drv_status f1 else (ESP_OK, f1)) of (e2, f2) \<Rightarrow>
                if e2 \<noteq> ESP_OK then restore_cache e2 f2
                else flash_end_flush_cache f2 ESP_OK False)"

end
