(* ===== verification/Esp_Flash_Correct.thy ===== *)
theory Esp_Flash_Correct
  imports Esp_Flash
begin

text \<open>
  Correctness of the flash driver API. An operation that returns \<^verbatim>\<open>ESP_OK\<close> has done
  exactly what was asked, whatever driver calls failed and were retried in between; an
  operation that fails can only have disturbed its own range; without faults the operations
  succeed. Together: what is written to erased flash, plainly or encrypted, is what is read
  back.
\<close>

section \<open>What the operations do to the cells\<close>

text \<open>Everything of a chip except its cells and the pending driver results.\<close>

definition chip_cfg :: "flash \<Rightarrow> flash" where
  "chip_cfg f = f\<lparr> flash_mem := (\<lambda>_. 0), drv_results := [] \<rparr>"

lemma chip_cfg_sel:
  assumes "chip_cfg f' = chip_cfg f"
  shows "chip_size f' = chip_size f" "sector_size f' = sector_size f" "block_erase_size f' = block_erase_size f"
    "enc_enabled f' = enc_enabled f" "xts_enc f' = xts_enc f" "xts_dec f' = xts_dec f"
    "verify_write f' = verify_write f" "xts_block_max f' = xts_block_max f"
    "is_default_chip f' = is_default_chip f" "region_protected f' = region_protected f"
    "protectable_regions f' = protectable_regions f" "temp_buffer f' = temp_buffer f"
  using assms by (cases f; cases f'; simp add: chip_cfg_def)+

text \<open>
  \<open>f'\<close> is the same chip as \<open>f\<close>, some driver results later, with the cells \<open>m\<close>. The
  successive calls of an operation compose through it.
\<close>

definition later :: "flash \<Rightarrow> memory \<Rightarrow> flash \<Rightarrow> bool" where
  "later f m f' \<longleftrightarrow> flash_mem f' = m \<and> chip_cfg f' = chip_cfg f \<and> set (drv_results f') \<subseteq> set (drv_results f)"

lemma later_refl [simp]: "later f (flash_mem f) f"
  by (simp add: later_def)

lemma later_trans: "later f m f1 \<Longrightarrow> later f1 m' f2 \<Longrightarrow> later f m' f2"
  by (auto simp: later_def)

lemma later_status: "drv_status f = (e, f') \<Longrightarrow> later f (flash_mem f) f'"
  by (auto simp: later_def drv_status_def chip_cfg_def split: list.splits)

lemma later_op: "drv_op op f = (ESP_OK, f') \<Longrightarrow> later f (op (flash_mem f)) f'"
  by (auto simp: later_def drv_op_def chip_cfg_def split: list.splits)

lemma later_step: "later f m f1 \<Longrightarrow> drv_status f1 = (e, f2) \<Longrightarrow> later f m f2"
  using later_status later_trans by (metis later_def)

lemma later_flush: "flash_end_flush_cache f e bus = (e', f') \<Longrightarrow> later f (flash_mem f) f' \<and> (e' = ESP_OK \<longrightarrow> e = ESP_OK)"
  by (auto simp: flash_end_flush_cache_def Let_def split: if_splits prod.splits
      intro: later_step [OF later_step] later_step later_status)

lemma drv_ok [simp]:
  "drv_results f = [] \<Longrightarrow> drv_status f = (ESP_OK, f)"
  "drv_results f = [] \<Longrightarrow> drv_op op f = (ESP_OK, f\<lparr> flash_mem := op (flash_mem f) \<rparr>)"
  "drv_results f = [] \<Longrightarrow> flash_end_flush_cache f e bus = (e, f)"
  by (simp_all add: drv_status_def drv_op_def flash_end_flush_cache_def)

lemma erase_mem_append:
  "erase_mem (a + n) k (erase_mem a n m) = erase_mem a (n + k) m"
  by (rule ext) (auto simp: erase_mem_def)

lemma program_mem_append:
  "program_mem (a + length bs) cs (program_mem a bs m) = program_mem a (bs @ cs) m"
  by (rule ext) (auto simp: program_mem_def nth_append)

text \<open>Erasing: success means that exactly the requested range was erased.\<close>

lemma erase_loop_ok:
  assumes "erase_loop f a n = (ESP_OK, f', x)" and "0 < sector_size f" and "sector_size f dvd n"
    and "sector_size f dvd block_erase_size f" and "0 < n"
  shows "later f (erase_mem a n (flash_mem f)) f'"
  using assms
proof (induction n arbitrary: f a f' rule: less_induct)
  case (less n)
  define k where "k = (if 0 < block_erase_size f \<and> block_erase_size f \<le> n \<and> a mod block_erase_size f = 0
    then block_erase_size f else sector_size f)"
  have k: "0 < k" "k \<le> n" "sector_size f dvd k"
    using less.prems(2-5) by (auto simp: k_def dvd_imp_le)
  obtain e1 f1 e2 f2 e3 f3 where d: "drv_status f = (e1, f1)" "drv_status f1 = (e2, f2)" "drv_op (erase_mem a k) f2 = (e3, f3)"
    by (metis surj_pair)
  have e: "e1 = ESP_OK" "e2 = ESP_OK" "e3 = ESP_OK"
    using less.prems(1) d unfolding erase_loop.simps [of f a n] k_def [symmetric] Let_def
    by (auto split: if_splits prod.splits)
  have l3: "later f (erase_mem a k (flash_mem f)) f3"
    using later_op [of "erase_mem a k" f2 f3] later_step [OF later_status [OF d(1)] d(2)] d(3) e(3)
    by (auto simp: later_def)
  show ?case
  proof (cases "n = k")
    case True
    then show ?thesis
      using less.prems(1) d e l3 k unfolding erase_loop.simps [of f a n] k_def [symmetric] Let_def by auto
  next
    case False
    obtain e4 f4 where d4: "drv_status f3 = (e4, f4)" by (metis surj_pair)
    have r: "e4 = ESP_OK" "erase_loop f4 (a + k) (n - k) = (ESP_OK, f', x)"
      using less.prems(1) d e d4 k False unfolding erase_loop.simps [of f a n] k_def [symmetric] Let_def
      by (auto split: if_splits)
    have l4: "later f (erase_mem a k (flash_mem f)) f4" using later_step [OF l3 d4] .
    then have c: "sector_size f4 = sector_size f" "block_erase_size f4 = block_erase_size f"
      by (auto simp: later_def dest: chip_cfg_sel)
    have "later f4 (erase_mem (a + k) (n - k) (flash_mem f4)) f'"
      using less.IH [of "n - k" f4 "a + k" f'] r(2) k False less.prems(2-4) c by (auto simp: dvd_diff_nat)
    then show ?thesis
      using l4 later_trans [OF l4] erase_mem_append [of a k "n - k" "flash_mem f"] k by (auto simp: later_def)
  qed
qed

lemma empty_mem_op [simp]: "erase_mem a 0 m = m" "program_mem a [] m = m"
  by (rule ext, auto simp: erase_mem_def program_mem_def)+

lemma erase_region_ok:
  assumes "esp_flash_erase_region f start len = (ESP_OK, f')"
  shows "later f (erase_mem start len (flash_mem f)) f'"
proof -
  have c: "check_write_address f start len = None"
    using assms by (auto simp: esp_flash_erase_region_def check_write_address_def Let_def split: if_splits option.splits)
  have s: "0 < sector_size f" "sector_size f dvd block_erase_size f" "sector_size f dvd len"
    using assms c by (auto simp: esp_flash_erase_region_def split: if_splits)
  show ?thesis
  proof (cases "len = 0")
    case True
    then have "f' = f" using assms c s by (auto simp: esp_flash_erase_region_def split: if_splits)
    then show ?thesis using True by simp
  next
    case False
    define pre where "pre = (if protectable_regions f = [] then (ESP_OK, f)
                  else case drv_status f of (e1, f1) \<Rightarrow>
                    if e1 \<noteq> ESP_OK then (e1, f1)
                    else case drv_status f1 of (e2, f2) \<Rightarrow>
                      let e3 = (if e2 = ESP_OK \<and> (\<exists>((off, n), p) \<in> set (protectable_regions f). p \<and> regions_overlap start len off n)
                                then ESP_ERR_FLASH_PROTECTED else e2)
                      in case drv_status f2 of (end_err, f3) \<Rightarrow> (if e3 = ESP_OK then end_err else e3, f3))"
    obtain e0 f0 where p: "pre = (e0, f0)" by (cases pre)
    obtain e2 f2 x where l: "erase_loop f0 start len = (e2, f2, x)" using prod_cases3 by blast
    have e0: "e0 = ESP_OK" and fin: "case x of None \<Rightarrow> (e2, f2) = (ESP_OK, f') | Some bus \<Rightarrow> flash_end_flush_cache f2 e2 bus = (ESP_OK, f')"
      using assms c s False p l unfolding esp_flash_erase_region_def pre_def [symmetric]
      by (auto split: if_splits option.splits)
    have l0: "later f (flash_mem f) f0"
      using p unfolding pre_def
      by (auto simp: Let_def split: if_splits prod.splits intro: later_status later_step [OF later_step [OF later_status]])
    have e2: "e2 = ESP_OK" "later f2 (flash_mem f2) f'"
      using fin later_flush by (auto split: option.splits)
    have "later f0 (erase_mem start len (flash_mem f0)) f2"
      using erase_loop_ok [of f0 start len f2 x] l e2 s False chip_cfg_sel [of f0 f] l0 by (auto simp: later_def)
    then show ?thesis using l0 e2(2) later_trans by (metis later_def)
  qed
qed

lemma mmap_later: "spi_flash_mmap f a n = (e, bs, f') \<Longrightarrow> later f (flash_mem f) f'"
  by (auto simp: spi_flash_mmap_def split: prod.splits intro: later_status)

lemma read_encrypted_later: "esp_flash_read_encrypted f a n = (e, bs, f') \<Longrightarrow> later f (flash_mem f) f'"
  by (auto simp: esp_flash_read_encrypted_def Let_def split: if_splits prod.splits intro: mmap_later)

text \<open>Verification reads back and leaves the cells alone.\<close>

lemma verify_write_later: "s_verify_write f a ex enc = (e, f') \<Longrightarrow> later f (flash_mem f) f'"
proof (induction "length ex" arbitrary: f a ex f' rule: less_induct)
  case less
  let ?n = "min (length ex) 64"
  obtain e1 buf f1 where r: "(if enc then esp_flash_read_encrypted f a ?n
      else case drv_status f of (e, f1) \<Rightarrow> (e, rd_bytes (flash_mem f1) a ?n, f1)) = (e1, buf, f1)"
    using prod_cases3 by blast
  have l1: "later f (flash_mem f) f1"
  proof (cases enc)
    case True
    then have "esp_flash_read_encrypted f a ?n = (e1, buf, f1)" using r by (simp only: if_True)
    then show ?thesis by (rule read_encrypted_later)
  next
    case False
    then show ?thesis using r later_status [of f] by (cases "drv_status f") auto
  qed
  show ?case
  proof (cases "ex = [] \<or> e1 \<noteq> ESP_OK \<or> take (4 * (?n div 4)) buf \<noteq> take (4 * (?n div 4)) ex")
    case True
    then show ?thesis
      using less.prems l1 unfolding s_verify_write.simps [of f a ex enc] Let_def r by (auto split: if_splits)
  next
    case False
    then have "s_verify_write f1 (a + ?n) (drop ?n ex) enc = (e, f')"
      using less.prems unfolding s_verify_write.simps [of f a ex enc] Let_def r by auto
    then have "later f1 (flash_mem f1) f'"
      using less.hyps [of "drop ?n ex"] False by auto
    then show ?thesis using l1 later_trans by (metis later_def)
  qed
qed

text \<open>Writing: success means that exactly the given bytes were programmed.\<close>

lemma write_loop_ok:
  assumes "write_loop f direct a bs = (ESP_OK, f', x)" and "bs \<noteq> []"
  shows "later f (program_mem a bs (flash_mem f)) f'"
  using assms
proof (induction "length bs" arbitrary: f a bs rule: less_induct)
  case less
  define n where "n = min (length bs) (if direct then MAX_WRITE_CHUNK else 32)"
  have n: "0 < n" "n \<le> length bs" using less.prems(2) by (auto simp: n_def MAX_WRITE_CHUNK_def)
  obtain e1 f1 e2 f2 e3 f3 where d: "drv_status f = (e1, f1)" "drv_status f1 = (e2, f2)"
    "drv_op (program_mem a (take n bs)) f2 = (e3, f3)" by (metis surj_pair)
  obtain e4 f4 where v: "(if verify_write f then s_verify_write f3 a (take n bs) False else (ESP_OK, f3)) = (e4, f4)"
    by (metis surj_pair)
  have e: "e1 = ESP_OK" "e2 = ESP_OK" "e3 = ESP_OK" "e4 = ESP_OK"
    using less.prems(1) d v unfolding write_loop.simps [of f direct a bs] Let_def n_def [symmetric]
    by (auto split: if_splits prod.splits)
  have l3: "later f (program_mem a (take n bs) (flash_mem f)) f3"
    using later_op [of "program_mem a (take n bs)" f2 f3] later_step [OF later_status [OF d(1)] d(2)] d(3) e(3)
    by (auto simp: later_def)
  have l4: "later f (program_mem a (take n bs) (flash_mem f)) f4"
    using v l3 later_trans [OF l3] verify_write_later [of f3 a "take n bs" False e4 f4]
    by (cases "verify_write f") (auto simp: later_def)
  show ?case
  proof (cases "length bs \<le> n")
    case True
    then show ?thesis
      using less.prems(1) d v e l4 n unfolding write_loop.simps [of f direct a bs] Let_def n_def [symmetric] by auto
  next
    case False
    obtain e5 f5 where d5: "drv_status f4 = (e5, f5)" by (metis surj_pair)
    have r: "write_loop f5 direct (a + n) (drop n bs) = (ESP_OK, f', x)"
      using less.prems(1) d v e d5 False unfolding write_loop.simps [of f direct a bs] Let_def n_def [symmetric]
      by (auto split: if_splits)
    have l5: "later f (program_mem a (take n bs) (flash_mem f)) f5" using later_step [OF l4 d5] .
    have "later f5 (program_mem (a + n) (drop n bs) (flash_mem f5)) f'"
      using less.hyps [OF _ r] n False by simp
    then show ?thesis
      using l5 later_trans [OF l5] program_mem_append [of a "take n bs" "drop n bs" "flash_mem f"] n
      by (auto simp: later_def)
  qed
qed

lemma finish_write_ok:
  assumes "finish_write (e, f, x) = (ESP_OK, f')"
  shows "e = ESP_OK" and "later f (flash_mem f) f'"
  using assms later_flush by (auto simp: finish_write_def split: option.splits prod.splits if_splits)

lemma write_ok:
  assumes "esp_flash_write f direct bs a = (ESP_OK, f')"
  shows "later f (program_mem a bs (flash_mem f)) f'" and "a + length bs \<le> chip_size f"
proof -
  have c: "check_write_address f a (length bs) = None"
    using assms by (auto simp: esp_flash_write_def check_write_address_def Let_def split: if_splits option.splits)
  show "a + length bs \<le> chip_size f" using assms c by (auto simp: esp_flash_write_def split: if_splits)
  obtain e1 f1 x where w: "write_loop f direct a bs = (e1, f1, x)" using prod_cases3 by blast
  show "later f (program_mem a bs (flash_mem f)) f'"
  proof (cases "bs = []")
    case True
    then have "f' = f" using assms c by (auto simp: esp_flash_write_def split: if_splits)
    then show ?thesis using True by simp
  next
    case False
    then have "finish_write (e1, f1, x) = (ESP_OK, f')"
      using assms c w by (auto simp: esp_flash_write_def split: if_splits)
    from finish_write_ok [OF this] have "e1 = ESP_OK" "later f1 (flash_mem f1) f'" .
    then show ?thesis
      using write_loop_ok [OF w [unfolded \<open>e1 = ESP_OK\<close>] False] later_trans by (metis later_def)
  qed
qed

section \<open>Encryption\<close>

text \<open>
  What is required of the block cipher: blocks of 16 bytes, and decryption at the same
  address inverts encryption.
\<close>

definition cipher_ok :: "flash \<Rightarrow> bool" where
  "cipher_ok f \<longleftrightarrow> (\<forall>a b. length b = 16 \<longrightarrow> length (xts_enc f a b) = 16 \<and> xts_dec f a (xts_enc f a b) = b)"

lemma xts_cipher_Nil [simp]: "xts_cipher enc a [] = []"
  by (subst xts_cipher.simps) simp

lemma xts_cipher_append:
  assumes "16 dvd length bs"
  shows "xts_cipher enc a (bs @ cs) = xts_cipher enc a bs @ xts_cipher enc (a + length bs) cs"
  using assms
proof (induction "length bs" arbitrary: a bs rule: less_induct)
  case less
  show ?case
  proof (cases "bs = []")
    case False
    then have l: "16 \<le> length bs" using less.prems by (auto dest: dvd_imp_le)
    have "xts_cipher enc (a + 16) (drop 16 bs @ cs) =
        xts_cipher enc (a + 16) (drop 16 bs) @ xts_cipher enc (a + 16 + length (drop 16 bs)) cs"
      using less l by (intro less.hyps) (auto simp: dvd_diff_nat)
    then show ?thesis
      using l by (subst (1 2) xts_cipher.simps) (simp add: add.assoc)
  qed simp
qed

lemma xts_cipher_length:
  assumes "\<And>a b. length b = 16 \<Longrightarrow> length (enc a b) = 16" and "16 dvd length bs"
  shows "length (xts_cipher enc a bs) = length bs"
  using assms(2)
proof (induction "length bs" arbitrary: a bs rule: less_induct)
  case less
  show ?case
  proof (cases "bs = []")
    case False
    then have l: "16 \<le> length bs" using less.prems by (auto dest: dvd_imp_le)
    have "length (xts_cipher enc (a + 16) (drop 16 bs)) = length (drop 16 bs)"
      using less l by (intro less.hyps) (auto simp: dvd_diff_nat)
    then show ?thesis using l assms(1) by (subst xts_cipher.simps) simp
  qed simp
qed

text \<open>The ciphertext block that holds position \<open>i\<close>.\<close>

lemma xts_cipher_block:
  assumes "\<And>a b. length b = 16 \<Longrightarrow> length (enc a b) = 16" and "16 dvd length bs" and "16 * j + 16 \<le> length bs"
  shows "take 16 (drop (16 * j) (xts_cipher enc a bs)) = enc (a + 16 * j) (take 16 (drop (16 * j) bs))"
proof -
  let ?h = "take (16 * j) bs" let ?t = "drop (16 * j) bs"
  have h: "length ?h = 16 * j" using assms(3) by simp
  have t: "16 \<le> length ?t" using assms(3) unfolding length_drop by linarith
  have "xts_cipher enc a bs = xts_cipher enc a ?h @ xts_cipher enc (a + 16 * j) ?t"
    using xts_cipher_append [of ?h enc a ?t] h by simp
  moreover have "length (xts_cipher enc a ?h) = 16 * j" using xts_cipher_length [of enc ?h a] assms(1) h by simp
  moreover have "xts_cipher enc (a + 16 * j) ?t = enc (a + 16 * j) (take 16 ?t) @ xts_cipher enc (a + 16 * j + 16) (drop 16 ?t)"
    using t by (subst xts_cipher.simps) simp
  ultimately show ?thesis using assms(1) t by simp
qed

lemma enc_row_props:
  assumes "16 dvd n" and "0 < n"
  shows "16 dvd enc_row_size f a n" and "0 < enc_row_size f a n" and "enc_row_size f a n \<le> n"
  using assms by (auto simp: enc_row_size_def dvd_imp_le)

lemma enc_loop_ok:
  assumes "enc_loop f lock a bs = (ESP_OK, f')" and "16 dvd length bs"
    and "\<And>a b. length b = 16 \<Longrightarrow> length (xts_enc f a b) = 16"
  shows "later f (program_mem a (xts_cipher (xts_enc f) a bs) (flash_mem f)) f'"
  using assms
proof (induction "length bs" arbitrary: f a bs rule: less_induct)
  case less
  show ?case
  proof (cases "bs = []")
    case True
    then show ?thesis using less.prems(1) by (auto simp: enc_loop.simps)
  next
    case False
    define n where "n = enc_row_size f a (length bs)"
    have n: "16 dvd n" "0 < n" "n \<le> length bs"
      using enc_row_props [OF less.prems(2)] False by (auto simp: n_def)
    let ?c = "xts_cipher (xts_enc f) a (take n bs)"
    obtain e1 f1 where d1: "(if lock then (ESP_OK, f) else drv_status f) = (e1, f1)" by (rule prod.exhaust)
    obtain e2 f2 where d2: "drv_op (program_mem a ?c) f1 = (e2, f2)" by (rule prod.exhaust)
    obtain e3 f3 where d3: "(if lock then (ESP_OK, f2) else drv_status f2) = (e3, f3)" by (rule prod.exhaust)
    obtain e6 f6 where d6: "(if verify_write f then
                           (case (if lock then drv_status f3 else (ESP_OK, f3)) of (e4, f4) \<Rightarrow>
                              if e4 \<noteq> ESP_OK then (e4, f4)
                              else case s_verify_write f4 a (take n bs) True of (e5, f5) \<Rightarrow>
                                if e5 \<noteq> ESP_OK then (e5, f5)
                                else (if lock then drv_status f5 else (ESP_OK, f5)))
                         else (ESP_OK, f3)) = (e6, f6)" by (rule prod.exhaust)
    have e: "e1 = ESP_OK" "e2 = ESP_OK" "e3 = ESP_OK" "e6 = ESP_OK"
      and r: "enc_loop f6 lock (a + n) (drop n bs) = (ESP_OK, f')"
      using less.prems(1) False d1 d2 d3 d6 unfolding enc_loop.simps [of f lock a bs] Let_def n_def [symmetric]
      by (auto split: if_splits)
    have l1: "later f (flash_mem f) f1" using d1 later_status by (auto split: if_splits)
    then have l2: "later f (program_mem a ?c (flash_mem f)) f2"
      using later_op [of "program_mem a ?c" f1 f2] d2 e(2) by (auto simp: later_def)
    then have l3: "later f (program_mem a ?c (flash_mem f)) f3"
      using d3 later_step [OF l2] by (auto split: if_splits)
    have "later f3 (flash_mem f3) f6"
    proof (cases "verify_write f")
      case True
      obtain e4 f4 where d4: "(if lock then drv_status f3 else (ESP_OK, f3)) = (e4, f4)" by (rule prod.exhaust)
      obtain e5 f5 where d5: "s_verify_write f4 a (take n bs) True = (e5, f5)" by (rule prod.exhaust)
      have "e4 = ESP_OK" "e5 = ESP_OK" "(if lock then drv_status f5 else (ESP_OK, f5)) = (ESP_OK, f6)"
        using d6 e(4) True unfolding d4 by (auto simp: d5 split: if_splits)
      moreover have "later f3 (flash_mem f3) f4" using d4 later_status by (auto split: if_splits)
      moreover have "later f4 (flash_mem f4) f5" using verify_write_later [OF d5] .
      ultimately show ?thesis
        using later_status [of f5 ESP_OK f6] by (cases lock) (auto simp: later_def)
    qed (use d6 in simp)
    then have l6: "later f (program_mem a ?c (flash_mem f)) f6" using l3 later_trans by (metis later_def)
    then have c6: "xts_enc f6 = xts_enc f" by (auto simp: later_def dest: chip_cfg_sel)
    have "later f6 (program_mem (a + n) (xts_cipher (xts_enc f6) (a + n) (drop n bs)) (flash_mem f6)) f'"
      using less.hyps [OF _ r] n less.prems(2,3) c6 by (auto simp: dvd_diff_nat)
    moreover have "xts_cipher (xts_enc f) a bs = ?c @ xts_cipher (xts_enc f) (a + n) (drop n bs)"
      using xts_cipher_append [of "take n bs" "xts_enc f" a "drop n bs"] n by simp
    moreover have "length ?c = n" using xts_cipher_length [of "xts_enc f" "take n bs" a] less.prems(3) n by simp
    ultimately show ?thesis
      using l6 c6 later_trans [OF l6] program_mem_append [of a ?c] by (auto simp: later_def)
  qed
qed

lemma write_encrypted_ok:
  assumes "esp_flash_write_encrypted f dram a bs = (ESP_OK, f')" and "cipher_ok f"
  shows "later f (program_mem a (xts_cipher (xts_enc f) a bs) (flash_mem f)) f'"
    and "a mod 16 = 0" and "16 dvd length bs" and "a + length bs \<le> chip_size f"
proof -
  have c: "check_write_address f a (length bs) = None" "is_default_chip f"
    using assms by (auto simp: esp_flash_write_encrypted_def check_write_address_def Let_def split: if_splits option.splits)
  show g: "a mod 16 = 0" "16 dvd length bs" "a + length bs \<le> chip_size f"
    using assms c by (auto simp: esp_flash_write_encrypted_def split: if_splits)
  show "later f (program_mem a (xts_cipher (xts_enc f) a bs) (flash_mem f)) f'"
  proof (cases "bs = []")
    case True
    then show ?thesis using assms c by (auto simp: esp_flash_write_encrypted_def split: if_splits)
  next
    case False
    obtain e0 f0 where d0: "(if dram then drv_status f else (ESP_OK, f)) = (e0, f0)" by (rule prod.exhaust)
    obtain e1 f1 where d1: "enc_loop f0 dram a bs = (e1, f1)" by (rule prod.exhaust)
    obtain e2 f2 where d2: "(if dram then drv_status f1 else (ESP_OK, f1)) = (e2, f2)" by (rule prod.exhaust)
    have e: "e0 = ESP_OK" "e1 = ESP_OK" "e2 = ESP_OK" "flash_end_flush_cache f2 ESP_OK False = (ESP_OK, f')"
      using assms(1) c g False d0 d1 d2 unfolding esp_flash_write_encrypted_def
      by (auto simp: restore_cache_def split: if_splits)
    have l0: "later f (flash_mem f) f0" using d0 later_status by (auto split: if_splits)
    then have x0: "xts_enc f0 = xts_enc f" by (auto simp: later_def dest: chip_cfg_sel)
    have "later f0 (program_mem a (xts_cipher (xts_enc f0) a bs) (flash_mem f0)) f1"
      using enc_loop_ok [of f0 dram a bs f1] d1 e(2) g(2) assms(2) x0 by (auto simp: cipher_ok_def)
    then have "later f (program_mem a (xts_cipher (xts_enc f) a bs) (flash_mem f)) f1"
      using l0 x0 later_trans [OF l0] by (auto simp: later_def)
    moreover have "later f1 (flash_mem f1) f2" using d2 later_status by (auto split: if_splits)
    moreover have "later f2 (flash_mem f2) f'" using later_flush [OF e(4)] by simp
    ultimately show ?thesis by (auto simp: later_def)
  qed
qed

text \<open>Programming erased cells stores the bytes; other cells keep theirs.\<close>

definition erased :: "memory \<Rightarrow> nat \<Rightarrow> nat \<Rightarrow> bool" where
  "erased m a n \<longleftrightarrow> (\<forall>i. a \<le> i \<longrightarrow> i < a + n \<longrightarrow> m i = 0xFF)"

lemma erased_erase [simp]: "erased (erase_mem a n m) a n"
  by (simp add: erased_def erase_mem_def)

lemma and_ff: "(0xFF :: u8) AND b = b"
proof -
  have ff: "(0xFF :: u8) = - 1" by simp
  show ?thesis unfolding ff by (rule and.left_neutral)
qed

lemma program_erased:
  assumes "erased m a (length bs)"
  shows "program_mem a bs m = wr_bytes m a bs"
  using assms by (auto simp: program_mem_def wr_bytes_def erased_def and_ff intro!: ext)

lemma mem_op_outside:
  "i < a \<or> a + n \<le> i \<Longrightarrow> erase_mem a n m i = m i"
  "i < a \<or> a + length bs \<le> i \<Longrightarrow> program_mem a bs m i = m i"
  by (auto simp: erase_mem_def program_mem_def)

lemma view_cong:
  assumes "\<And>x. 16 * (i div 16) \<le> x \<Longrightarrow> x < 16 * (i div 16) + 16 \<Longrightarrow> flash_mem f' x = flash_mem f x"
    and "chip_cfg f' = chip_cfg f"
  shows "flash_view f' i = flash_view f i"
proof -
  have "rd_bytes (flash_mem f') (16 * (i div 16)) 16 = rd_bytes (flash_mem f) (16 * (i div 16)) 16"
    using assms(1) by (intro rd_bytes_cong) auto
  moreover have "flash_mem f' i = flash_mem f i" using assms(1) [of i] by simp
  ultimately show ?thesis using chip_cfg_sel [OF assms(2)] by (simp add: flash_view_def)
qed

lemma view_outside:
  assumes m: "\<And>x. x < a \<or> a + n \<le> x \<Longrightarrow> flash_mem f' x = flash_mem f x" and "chip_cfg f' = chip_cfg f"
    and "a mod 16 = 0" and "n mod 16 = 0" and i: "i < a \<or> a + n \<le> i"
  shows "flash_view f' i = flash_view f i"
proof (rule view_cong)
  obtain j where j: "a = 16 * j" using assms(3) by blast
  obtain k where k: "n = 16 * k" using assms(4) by blast
  have "i div 16 < j \<or> j + k \<le> i div 16"
    using i unfolding j k by (auto simp: less_mult_imp_div_less less_eq_div_iff_mult_less_eq mult.commute)
  moreover fix x assume "16 * (i div 16) \<le> x" "x < 16 * (i div 16) + 16"
  ultimately have "x < a \<or> a + n \<le> x" unfolding j k by linarith
  then show "flash_mem f' x = flash_mem f x" by (rule m)
qed (rule assms(2))

text \<open>What was written encrypted into erased flash is what the mapping shows.\<close>

lemma view_encrypted:
  assumes ok: "cipher_ok f" and en: "enc_enabled f" and a: "a mod 16 = 0" and l: "16 dvd length bs"
    and er: "erased (flash_mem f) a (length bs)"
    and f': "later f (program_mem a (xts_cipher (xts_enc f) a bs) (flash_mem f)) f'"
  shows "rd_bytes (flash_view f') a (length bs) = bs"
proof (rule nth_equalityI)
  have len: "length (xts_cipher (xts_enc f) a bs) = length bs"
    using xts_cipher_length [of "xts_enc f"] ok l by (auto simp: cipher_ok_def)
  have m: "flash_mem f' = wr_bytes (flash_mem f) a (xts_cipher (xts_enc f) a bs)"
    using f' program_erased [of "flash_mem f" a] er len by (simp add: later_def)
  have c: "xts_dec f' = xts_dec f" "enc_enabled f'" using f' en by (auto simp: later_def dest: chip_cfg_sel)
  fix i assume "i < length (rd_bytes (flash_view f') a (length bs))"
  then have i: "i < length bs" by simp
  obtain A where A: "a = 16 * A" using a by blast
  obtain K where K: "length bs = 16 * K" using l by blast
  define j where "j = i div 16"
  have j: "16 * j + 16 \<le> length bs" "16 * ((a + i) div 16) = a + 16 * j" "(a + i) mod 16 = i mod 16" "i = 16 * j + i mod 16"
  proof -
    have "i div 16 < K" using i K by (simp add: div_less_iff_less_mult mult.commute)
    then show "16 * j + 16 \<le> length bs" using K by (simp add: j_def)
  qed (auto simp: A j_def)
  have "rd_bytes (flash_mem f') (a + 16 * j) 16 = take 16 (drop (16 * j) (xts_cipher (xts_enc f) a bs))"
    using j(1) len by (intro nth_equalityI) (auto simp: m rd_bytes_def wr_bytes_def)
  also have "\<dots> = xts_enc f (a + 16 * j) (take 16 (drop (16 * j) bs))"
    using ok l j(1) by (intro xts_cipher_block) (auto simp: cipher_ok_def)
  finally have "xts_dec f (a + 16 * j) (rd_bytes (flash_mem f') (a + 16 * j) 16) = take 16 (drop (16 * j) bs)"
    using ok j(1) by (simp add: cipher_ok_def)
  then have "flash_view f' (a + i) = take 16 (drop (16 * j) bs) ! (i mod 16)"
    unfolding flash_view_def using c j(2,3) by simp
  also have "\<dots> = bs ! i" using j(1,4) by (simp add: nth_drop)
  finally show "rd_bytes (flash_view f') a (length bs) ! i = bs ! i" using i by (simp add: rd_bytes_def)
qed simp

section \<open>Reading\<close>

lemma read_loop_ok:
  assumes "read_loop f chunk a n = (ESP_OK, bs, f')" and "0 < chunk" and "0 < n"
  shows "bs = rd_bytes (flash_mem f) a n \<and> later f (flash_mem f) f'"
  using assms
proof (induction n arbitrary: f a bs rule: less_induct)
  case (less n)
  define k where "k = min chunk n"
  have k: "0 < k" "k \<le> n" using less.prems by (auto simp: k_def)
  obtain e1 f1 where d1: "drv_status f = (e1, f1)" by (rule prod.exhaust)
  obtain e2 f2 where d2: "drv_status f1 = (e2, f2)" by (rule prod.exhaust)
  obtain e3 f3 where d3: "drv_status f2 = (e3, f3)" by (rule prod.exhaust)
  have e: "e1 = ESP_OK" "e2 = ESP_OK" "e3 = ESP_OK"
    using less.prems(1) d1 d2 d3 unfolding read_loop.simps [of f chunk a n] Let_def k_def [symmetric]
    by (auto split: if_splits prod.splits)
  have l3: "later f (flash_mem f) f3" using later_step [OF later_step [OF later_status [OF d1] d2] d3] .
  show ?case
  proof (cases "n \<le> k")
    case True
    then show ?thesis
      using less.prems(1) d1 d2 d3 e l3 k unfolding read_loop.simps [of f chunk a n] Let_def k_def [symmetric]
      by (auto simp: later_def)
  next
    case False
    obtain e4 rest f4 where r: "read_loop f3 chunk (a + k) (n - k) = (e4, rest, f4)" using prod_cases3 by blast
    have b: "e4 = ESP_OK" "bs = rd_bytes (flash_mem f3) a k @ rest" "f4 = f'"
      using less.prems(1) d1 d2 d3 e r False k unfolding read_loop.simps [of f chunk a n] Let_def k_def [symmetric]
      by auto
    have "rest = rd_bytes (flash_mem f3) (a + k) (n - k) \<and> later f3 (flash_mem f3) f'"
      using less.IH [of "n - k" f3 "a + k" rest] r b(1,3) less.prems(2) k False by auto
    moreover have "rd_bytes m a n = rd_bytes m a k @ rd_bytes m (a + k) (n - k)" for m
    proof -
      have "[a..<a + n] = [a..<a + k] @ [a + k..<a + n]"
        using upt_add_eq_append [of a "a + k" "n - k"] k by simp
      then show ?thesis using k by (simp add: rd_bytes_def)
    qed
    ultimately show ?thesis using l3 b(2) later_trans [OF l3] by (auto simp: later_def)
  qed
qed

lemma read_ok:
  assumes "esp_flash_read f direct a n = (ESP_OK, bs, f')" and "a + n < 2 ^ 32"
    and "\<forall>k actual. temp_buffer f k = Some actual \<longrightarrow> 0 < actual"
  shows "bs = rd_bytes (flash_mem f) a n" and "later f (flash_mem f) f'" and "a + n \<le> chip_size f"
proof -
  have "bs = rd_bytes (flash_mem f) a n \<and> later f (flash_mem f) f'"
    using assms read_loop_ok [of f _ a n bs f']
    by (auto simp: esp_flash_read_def MAX_READ_CHUNK_def rd_bytes_def split: if_splits option.splits)
  then show "bs = rd_bytes (flash_mem f) a n" "later f (flash_mem f) f'" by auto
  show "a + n \<le> chip_size f" using assms by (auto simp: esp_flash_read_def add32_exact split: if_splits)
qed

lemma rd_bytes_part: "i + n \<le> k \<Longrightarrow> take n (drop i (rd_bytes m a k)) = rd_bytes m (a + i) n"
  by (rule nth_equalityI) (auto simp: rd_bytes_def add.assoc)

lemma read_encrypted_ok:
  assumes "esp_flash_read_encrypted f a n = (ESP_OK, bs, f')"
  shows "bs = rd_bytes (flash_view f) a n" and "later f (flash_mem f) f'"
proof -
  show l: "later f (flash_mem f) f'" using read_encrypted_later [OF assms] .
  let ?s = "a - a mod SPI_FLASH_MMU_PAGE_SIZE"
  have v: "flash_view f1 = flash_view f" if "drv_status f = (e, f1)" for e f1
    using later_status [OF that] by (intro ext view_cong) (auto simp: later_def)
  show "bs = rd_bytes (flash_view f) a n"
  proof (cases "n = 0")
    case False
    have "take n (drop (a - ?s) (rd_bytes (flash_view f) ?s (n + (a - ?s)))) = rd_bytes (flash_view f) (?s + (a - ?s)) n"
      by (rule rd_bytes_part) simp
    moreover have "?s + (a - ?s) = a" by simp
    ultimately show ?thesis
      using assms False v unfolding esp_flash_read_encrypted_def spi_flash_mmap_def Let_def
      by (auto split: if_splits prod.splits)
  qed (use assms in \<open>auto simp: esp_flash_read_encrypted_def rd_bytes_def split: if_splits\<close>)
qed

section \<open>Failing operations stay inside their range\<close>

definition confined :: "nat \<Rightarrow> nat \<Rightarrow> flash \<Rightarrow> bool" where
  "confined A B f \<longleftrightarrow> (\<forall>(e, d) \<in> set (drv_results f). \<forall>m i. i < A \<or> B \<le> i \<longrightarrow> d m i = m i)"

definition within :: "nat \<Rightarrow> nat \<Rightarrow> flash \<Rightarrow> flash \<Rightarrow> bool" where
  "within A B f f' \<longleftrightarrow> (\<forall>i. i < A \<or> B \<le> i \<longrightarrow> flash_mem f' i = flash_mem f i)
     \<and> chip_cfg f' = chip_cfg f \<and> set (drv_results f') \<subseteq> set (drv_results f)"

lemma within_later: "later f (flash_mem f) f' \<Longrightarrow> within A B f f'"
  by (simp add: within_def later_def)

lemma within_refl [simp]: "within A B f f"
  by (simp add: within_def)

lemma within_trans: "within A B f f1 \<Longrightarrow> within A B f1 f2 \<Longrightarrow> within A B f f2"
  by (auto simp: within_def)

lemma within_status: "drv_status f = (e, f') \<Longrightarrow> within A B f f'"
  by (rule within_later) (rule later_status)

lemma within_op:
  assumes "drv_op op f = (e, f')" and "confined A B f" and "\<And>m i. i < A \<or> B \<le> i \<Longrightarrow> op m i = m i"
  shows "within A B f f'"
  using assms by (auto simp: within_def confined_def drv_op_def chip_cfg_def split: list.splits)

lemma confined_mono: "confined A B f \<Longrightarrow> within A B f f' \<Longrightarrow> confined A B f'"
  unfolding confined_def within_def by blast

lemma within_flush: "flash_end_flush_cache f e bus = (e', f') \<Longrightarrow> within A B f f'"
  using later_flush within_later by blast

lemma write_loop_within:
  assumes "write_loop f direct a bs = (e, f', x)" and "confined A B f" and "A \<le> a" and "a + length bs \<le> B"
  shows "within A B f f'"
  using assms
proof (induction "length bs" arbitrary: f a bs rule: less_induct)
  case less
  define n where "n = min (length bs) (if direct then MAX_WRITE_CHUNK else 32)"
  have n: "n \<le> length bs" by (simp add: n_def)
  obtain e1 f1 where d1: "drv_status f = (e1, f1)" by (rule prod.exhaust)
  obtain e2 f2 where d2: "drv_status f1 = (e2, f2)" by (rule prod.exhaust)
  obtain e3 f3 where d3: "drv_op (program_mem a (take n bs)) f2 = (e3, f3)" by (rule prod.exhaust)
  obtain e4 f4 where d4: "(if verify_write f then s_verify_write f3 a (take n bs) False else (ESP_OK, f3)) = (e4, f4)"
    by (rule prod.exhaust)
  obtain e5 f5 where d5: "drv_status f4 = (e5, f5)" by (rule prod.exhaust)
  have step: "write_loop f direct a bs =
      (if e1 \<noteq> ESP_OK then (e1, f1, None) else if e2 \<noteq> ESP_OK then (e2, f2, Some False)
       else if e3 \<noteq> ESP_OK then (e3, f3, Some True)
       else if e4 \<noteq> ESP_OK \<or> length bs \<le> n then (e4, f4, Some True)
       else if e5 \<noteq> ESP_OK then (e5, f5, Some True) else write_loop f5 direct (a + n) (drop n bs))"
    unfolding write_loop.simps [of f direct a bs] Let_def n_def [symmetric] by (simp add: d1 d2 d3 d4 d5)
  have w2: "within A B f f1" "within A B f f2"
    using within_status [OF d1] within_status [OF d2] within_trans by blast+
  have "within A B f2 f3"
    using less.prems(3,4) n by (intro within_op [OF d3 confined_mono [OF less.prems(2) w2(2)]] mem_op_outside(2)) auto
  then have w3: "within A B f f3" using w2(2) within_trans by blast
  have "within A B f3 f4"
    using d4 verify_write_later [of f3 a "take n bs" False e4 f4] within_later by (auto split: if_splits)
  then have w4: "within A B f f4" "within A B f f5"
    using w3 within_trans within_status [OF d5] by blast+
  show ?case
  proof (cases "e1 = ESP_OK \<and> e2 = ESP_OK \<and> e3 = ESP_OK \<and> e4 = ESP_OK \<and> \<not> length bs \<le> n \<and> e5 = ESP_OK")
    case False
    then have "f' \<in> {f1, f2, f3, f4, f5}"
      using less.prems(1) unfolding step by (auto split: if_splits)
    then show ?thesis using w2 w3 w4 by auto
  next
    case True
    then have r: "write_loop f5 direct (a + n) (drop n bs) = (e, f', x)" "0 < n"
      using less.prems(1) unfolding step by (auto simp: n_def MAX_WRITE_CHUNK_def)
    then have "within A B f5 f'"
      using less.hyps [OF _ r(1) confined_mono [OF less.prems(2) w4(2)]] less.prems(3,4) True n by auto
    then show ?thesis using w4(2) within_trans by blast
  qed
qed

lemma write_within:
  assumes "esp_flash_write f direct bs a = (e, f')" and "confined a (a + length bs) f"
  shows "within a (a + length bs) f f'"
proof -
  obtain e1 f1 x where w: "write_loop f direct a bs = (e1, f1, x)" using prod_cases3 by blast
  have "within a (a + length bs) f f1" using write_loop_within [OF w assms(2)] by simp
  moreover have "within a (a + length bs) f1 (snd (finish_write (e1, f1, x)))"
    by (auto simp: finish_write_def split: option.splits prod.splits intro: within_flush)
  ultimately have "within a (a + length bs) f (snd (finish_write (write_loop f direct a bs)))"
    unfolding w by (rule within_trans)
  then show ?thesis
    using assms(1) by (auto simp: esp_flash_write_def split: option.splits if_splits)
qed

lemma erase_loop_within:
  assumes "erase_loop f a n = (e, f', x)" and "confined A B f" and "A \<le> a" and "a + n \<le> B"
    and "0 < sector_size f" and "sector_size f dvd n" and "sector_size f dvd block_erase_size f" and "0 < n"
  shows "within A B f f'"
  using assms
proof (induction n arbitrary: f a rule: less_induct)
  case (less n)
  define k where "k = (if 0 < block_erase_size f \<and> block_erase_size f \<le> n \<and> a mod block_erase_size f = 0
    then block_erase_size f else sector_size f)"
  have k: "0 < k" "k \<le> n" "sector_size f dvd k" using less.prems by (auto simp: k_def dvd_imp_le)
  obtain e1 f1 where d1: "drv_status f = (e1, f1)" by (rule prod.exhaust)
  obtain e2 f2 where d2: "drv_status f1 = (e2, f2)" by (rule prod.exhaust)
  obtain e3 f3 where d3: "drv_op (erase_mem a k) f2 = (e3, f3)" by (rule prod.exhaust)
  obtain e4 f4 where d4: "drv_status f3 = (e4, f4)" by (rule prod.exhaust)
  have step: "erase_loop f a n =
      (if e1 \<noteq> ESP_OK then (e1, f1, None) else if e2 \<noteq> ESP_OK then (e2, f2, Some False)
       else if e3 \<noteq> ESP_OK \<or> n \<le> k \<or> k = 0 then (e3, f3, Some True)
       else if e4 \<noteq> ESP_OK then (e4, f4, Some True) else erase_loop f4 (a + k) (n - k))"
    unfolding erase_loop.simps [of f a n] Let_def k_def [symmetric] by (simp add: d1 d2 d3 d4)
  have w2: "within A B f f1" "within A B f f2"
    using within_status [OF d1] within_status [OF d2] within_trans by blast+
  have "within A B f2 f3"
    using less.prems(3,4) k by (intro within_op [OF d3 confined_mono [OF less.prems(2) w2(2)]] mem_op_outside(1)) auto
  then have w3: "within A B f f3" "within A B f f4" using w2(2) within_trans within_status [OF d4] by blast+
  show ?case
  proof (cases "e1 = ESP_OK \<and> e2 = ESP_OK \<and> e3 = ESP_OK \<and> \<not> n \<le> k \<and> e4 = ESP_OK")
    case False
    then have "f' \<in> {f1, f2, f3, f4}" using less.prems(1) k(1) unfolding step by (auto split: if_splits)
    then show ?thesis using w2 w3 by auto
  next
    case True
    have c: "sector_size f4 = sector_size f" "block_erase_size f4 = block_erase_size f"
      using w3(2) chip_cfg_sel [of f4 f] by (auto simp: within_def)
    have "within A B f4 f'"
      using less.IH [of "n - k" f4 "a + k"] less.prems confined_mono [OF less.prems(2) w3(2)] True k c
      unfolding step by (auto simp: dvd_diff_nat)
    then show ?thesis using w3(2) within_trans by blast
  qed
qed

section \<open>Without faults the operations succeed\<close>

lemma write_loop_live:
  assumes "drv_results f = []" and "\<not> verify_write f"
  shows "write_loop f direct a bs = (ESP_OK, f\<lparr> flash_mem := program_mem a bs (flash_mem f) \<rparr>, Some True)"
  using assms
proof (induction "length bs" arbitrary: f a bs rule: less_induct)
  case less
  define n where "n = min (length bs) (if direct then MAX_WRITE_CHUNK else 32)"
  have n: "n \<le> length bs" by (simp add: n_def)
  let ?f = "f\<lparr> flash_mem := program_mem a (take n bs) (flash_mem f) \<rparr>"
  have step: "write_loop f direct a bs =
      (if length bs \<le> n then (ESP_OK, ?f, Some True) else write_loop ?f direct (a + n) (drop n bs))"
    unfolding write_loop.simps [of f direct a bs] Let_def n_def [symmetric] using less.prems by simp
  show ?case
  proof (cases "length bs \<le> n")
    case False
    then have "length (drop n bs) < length bs" by (auto simp: n_def MAX_WRITE_CHUNK_def split: if_splits)
    then show ?thesis
      using less.hyps [of "drop n bs" ?f "a + n"] less.prems False n program_mem_append [of a "take n bs" "drop n bs"]
      unfolding step by simp
  qed (use step in simp)
qed

lemma erase_loop_live:
  assumes "drv_results f = []" and "0 < sector_size f" and "sector_size f dvd n"
    and "sector_size f dvd block_erase_size f" and "0 < n"
  shows "erase_loop f a n = (ESP_OK, f\<lparr> flash_mem := erase_mem a n (flash_mem f) \<rparr>, Some True)"
  using assms
proof (induction n arbitrary: f a rule: less_induct)
  case (less n)
  define k where "k = (if 0 < block_erase_size f \<and> block_erase_size f \<le> n \<and> a mod block_erase_size f = 0
    then block_erase_size f else sector_size f)"
  have k: "0 < k" "k \<le> n" "sector_size f dvd k" using less.prems by (auto simp: k_def dvd_imp_le)
  let ?f = "f\<lparr> flash_mem := erase_mem a k (flash_mem f) \<rparr>"
  have step: "erase_loop f a n =
      (if n \<le> k \<or> k = 0 then (ESP_OK, ?f, Some True) else erase_loop ?f (a + k) (n - k))"
    unfolding erase_loop.simps [of f a n] Let_def k_def [symmetric] using less.prems(1) by simp
  show ?case
  proof (cases "n \<le> k")
    case False
    then show ?thesis
      using less.IH [of "n - k" ?f "a + k"] less.prems k erase_mem_append [of a k "n - k" "flash_mem f"]
      unfolding step by (simp add: dvd_diff_nat)
  qed (use step k in simp)
qed

lemma erase_region_live:
  assumes "drv_results f = []" and "region_protected f start len = ESP_OK" and "protectable_regions f = []"
    and "0 < sector_size f" and "sector_size f dvd block_erase_size f" and "sector_size f dvd start"
    and "sector_size f dvd len" and "start + len \<le> chip_size f"
  shows "esp_flash_erase_region f start len = (ESP_OK, f\<lparr> flash_mem := erase_mem start len (flash_mem f) \<rparr>)"
  using assms erase_loop_live [of f len start]
  by (cases "len = 0") (auto simp: esp_flash_erase_region_def check_write_address_def)

lemma write_live:
  assumes "drv_results f = []" and "region_protected f a (length bs) = ESP_OK" and "\<not> verify_write f"
    and "a + length bs \<le> chip_size f"
  shows "esp_flash_write f direct bs a = (ESP_OK, f\<lparr> flash_mem := program_mem a bs (flash_mem f) \<rparr>)"
  using assms by (cases "bs = []") (auto simp: esp_flash_write_def check_write_address_def write_loop_live finish_write_def)

lemma enc_loop_live:
  assumes "drv_results f = []" and "\<not> verify_write f" and "16 dvd length bs"
    and "\<And>a b. length b = 16 \<Longrightarrow> length (xts_enc f a b) = 16"
  shows "enc_loop f lock a bs = (ESP_OK, f\<lparr> flash_mem := program_mem a (xts_cipher (xts_enc f) a bs) (flash_mem f) \<rparr>)"
  using assms
proof (induction "length bs" arbitrary: f a bs rule: less_induct)
  case less
  show ?case
  proof (cases "bs = []")
    case False
    define n where "n = enc_row_size f a (length bs)"
    have n: "16 dvd n" "0 < n" "n \<le> length bs" using enc_row_props [OF less.prems(3)] False by (auto simp: n_def)
    let ?c = "xts_cipher (xts_enc f) a (take n bs)" let ?f = "f\<lparr> flash_mem := program_mem a ?c (flash_mem f) \<rparr>"
    have step: "enc_loop f lock a bs = enc_loop ?f lock (a + n) (drop n bs)"
      unfolding enc_loop.simps [of f lock a bs] Let_def n_def [symmetric] using less.prems(1,2) False by simp
    have "xts_cipher (xts_enc f) a bs = ?c @ xts_cipher (xts_enc f) (a + n) (drop n bs)"
      using xts_cipher_append [of "take n bs" "xts_enc f" a "drop n bs"] n by simp
    moreover have "length ?c = n" using xts_cipher_length [of "xts_enc f" "take n bs" a] less.prems(4) n by simp
    ultimately show ?thesis
      using less.hyps [of "drop n bs" ?f "a + n"] less.prems n program_mem_append [of a ?c]
      unfolding step by (simp add: dvd_diff_nat)
  qed (simp add: enc_loop.simps)
qed

lemma write_encrypted_live:
  assumes "drv_results f = []" and "region_protected f a (length bs) = ESP_OK" and "\<not> verify_write f"
    and "a + length bs \<le> chip_size f" and "a mod 16 = 0" and "16 dvd length bs" and "cipher_ok f" and "is_default_chip f"
  shows "esp_flash_write_encrypted f dram a bs =
    (ESP_OK, f\<lparr> flash_mem := program_mem a (xts_cipher (xts_enc f) a bs) (flash_mem f) \<rparr>)"
proof -
  have e: "enc_loop f dram a bs =
      (ESP_OK, f\<lparr> flash_mem := program_mem a (xts_cipher (xts_enc f) a bs) (flash_mem f) \<rparr>)"
    using assms by (intro enc_loop_live) (auto simp: cipher_ok_def)
  show ?thesis
    using assms e by (cases "bs = []") (auto simp: esp_flash_write_encrypted_def check_write_address_def)
qed

section \<open>Properties\<close>

text \<open>A chip for the concrete instances below, with a cipher that adds the block address.\<close>

definition demo_chip :: flash where
  "demo_chip = \<lparr> is_default_chip = True, chip_size = 131072, sector_size = 4096, block_erase_size = 65536,
     protectable_regions = [], region_protected = (\<lambda>_ _. ESP_OK), temp_buffer = (\<lambda>_. Some 512), verify_write = False,
     xts_block_max = 64, enc_enabled = True,
     xts_enc = (\<lambda>a b. map (\<lambda>x. x + of_nat a + 1) b), xts_dec = (\<lambda>a b. map (\<lambda>x. x - of_nat a - 1) b),
     flash_mem = (\<lambda>_. 0), drv_results = [] \<rparr>"

lemma demo_chip_cipher: "cipher_ok (demo_chip\<lparr> flash_mem := m \<rparr>)"
  by (auto simp: cipher_ok_def demo_chip_def comp_def)

text \<open>
  C19: erase, write, read. If erasing a range, writing bytes inside it and reading them back
  all return \<^verbatim>\<open>ESP_OK\<close>, the bytes read are the bytes written, whatever the flash held before
  and however the driver cut the requests into blocks, sectors and chunks; nothing outside
  the erased range has changed.
\<close>

theorem flash_write_read_back:
  assumes "esp_flash_erase_region f a n = (ESP_OK, f1)" and "esp_flash_write f1 d bs b = (ESP_OK, f2)"
    and "a \<le> b" and "b + length bs \<le> a + n" and "b + length bs < 2 ^ 32"
    and "\<forall>k actual. temp_buffer f k = Some actual \<longrightarrow> 0 < actual"
    and "esp_flash_read f2 d' b (length bs) = (ESP_OK, cs, f3)"
  shows "cs = bs \<and> (\<forall>i. i < a \<or> a + n \<le> i \<longrightarrow> flash_mem f3 i = flash_mem f i)"
proof -
  have l1: "later f (erase_mem a n (flash_mem f)) f1" using erase_region_ok [OF assms(1)] .
  have l2: "later f1 (program_mem b bs (flash_mem f1)) f2" using write_ok(1) [OF assms(2)] .
  have tb: "temp_buffer f2 = temp_buffer f" using l1 l2 chip_cfg_sel [of f2 f] by (simp add: later_def)
  have r: "cs = rd_bytes (flash_mem f2) b (length bs)" "flash_mem f3 = flash_mem f2"
    using read_ok [OF assms(7,5)] assms(6) tb by (auto simp: later_def)
  have "erased (flash_mem f1) b (length bs)"
    using l1 assms(3,4) by (auto simp: later_def erased_def erase_mem_def)
  then have m2: "flash_mem f2 = wr_bytes (erase_mem a n (flash_mem f)) b bs"
    using l1 l2 program_erased by (simp add: later_def)
  have "flash_mem f3 i = flash_mem f i" if "i < a \<or> a + n \<le> i" for i
    using that assms(3,4) r(2) m2 by (auto simp: wr_bytes_def erase_mem_def)
  then show ?thesis using r m2 by (simp add: rd_wr_bytes)
qed

theorem flash_write_read_back_witness:
  "\<exists>f1 f2 f3. esp_flash_erase_region demo_chip 4096 8192 = (ESP_OK, f1) \<and>
     esp_flash_write f1 False [1, 2, 3] 5000 = (ESP_OK, f2) \<and> esp_flash_read f2 True 5000 3 = (ESP_OK, [1, 2, 3], f3)"
proof -
  let ?f1 = "demo_chip\<lparr> flash_mem := erase_mem 4096 8192 (flash_mem demo_chip) \<rparr>"
  let ?f2 = "?f1\<lparr> flash_mem := program_mem 5000 [1, 2, 3] (flash_mem ?f1) \<rparr>"
  have 1: "esp_flash_erase_region demo_chip 4096 8192 = (ESP_OK, ?f1)"
    by (rule erase_region_live) (simp_all add: demo_chip_def)
  have 2: "esp_flash_write ?f1 False [1, 2, 3] 5000 = (ESP_OK, ?f2)"
    by (rule write_live) (simp_all add: demo_chip_def)
  obtain cs f3 where 3: "esp_flash_read ?f2 True 5000 (length [1, 2, 3 :: u8]) = (ESP_OK, cs, f3)"
    by (simp add: demo_chip_def esp_flash_read_def read_loop.simps add32_def MAX_READ_CHUNK_def Let_def)
  have "cs = [1, 2, 3]" using flash_write_read_back [OF 1 2 _ _ _ _ 3] by (simp add: demo_chip_def)
  moreover have "length [1, 2, 3 :: u8] = 3" by simp
  ultimately show ?thesis using 1 2 3 by metis
qed

text \<open>
  C20: the same through flash encryption. With a block cipher whose decryption inverts its
  encryption at the same address, what \<^verbatim>\<open>esp_flash_write_encrypted\<close> wrote into an erased
  range in rows of 16, 32 and 64 bytes is what \<^verbatim>\<open>esp_flash_read_encrypted\<close> returns, and the
  mapped contents outside the erased range are unchanged.
\<close>

theorem flash_encrypted_read_back:
  assumes "cipher_ok f" and "enc_enabled f" and "a mod 16 = 0" and "n mod 16 = 0"
    and "esp_flash_erase_region f a n = (ESP_OK, f1)" and "esp_flash_write_encrypted f1 d b bs = (ESP_OK, f2)"
    and "a \<le> b" and "b + length bs \<le> a + n"
    and "esp_flash_read_encrypted f2 b (length bs) = (ESP_OK, cs, f3)"
  shows "cs = bs \<and> (\<forall>i. i < a \<or> a + n \<le> i \<longrightarrow> flash_view f3 i = flash_view f i)"
proof -
  have l1: "later f (erase_mem a n (flash_mem f)) f1" using erase_region_ok [OF assms(5)] .
  then have c1: "cipher_ok f1" "enc_enabled f1" "xts_enc f1 = xts_enc f"
    using assms(1,2) chip_cfg_sel [of f1 f] by (auto simp: later_def cipher_ok_def)
  note w = write_encrypted_ok [OF assms(6) c1(1)]
  have er: "erased (flash_mem f1) b (length bs)"
    using l1 assms(7,8) by (auto simp: later_def erased_def erase_mem_def)
  note r = read_encrypted_ok [OF assms(9)]
  have "rd_bytes (flash_view f2) b (length bs) = bs" using view_encrypted [OF c1(1,2) w(2,3) er w(1)] .
  moreover have "flash_view f3 i = flash_view f i" if i: "i < a \<or> a + n \<le> i" for i
  proof (rule view_outside [OF _ _ assms(3,4) i])
    have "length (xts_cipher (xts_enc f1) b bs) = length bs"
      using xts_cipher_length [of "xts_enc f1" bs b] c1(1) w(3) by (auto simp: cipher_ok_def)
    then show "flash_mem f3 x = flash_mem f x" if "x < a \<or> a + n \<le> x" for x
      using that l1 w(1) r(2) assms(7,8) by (auto simp: later_def mem_op_outside)
    show "chip_cfg f3 = chip_cfg f" using l1 w(1) r(2) by (simp add: later_def)
  qed
  ultimately show ?thesis using r(1) by simp
qed

theorem flash_encrypted_read_back_witness:
  "\<exists>f1 f2 f3. esp_flash_erase_region demo_chip 4096 4096 = (ESP_OK, f1) \<and>
     esp_flash_write_encrypted f1 True 4112 (replicate 16 7) = (ESP_OK, f2) \<and>
     esp_flash_read_encrypted f2 4112 16 = (ESP_OK, replicate 16 7, f3)"
proof -
  let ?bs = "replicate 16 (7 :: u8)"
  let ?f1 = "demo_chip\<lparr> flash_mem := erase_mem 4096 4096 (flash_mem demo_chip) \<rparr>"
  let ?f2 = "?f1\<lparr> flash_mem := program_mem 4112 (xts_cipher (xts_enc ?f1) 4112 ?bs) (flash_mem ?f1) \<rparr>"
  have 1: "esp_flash_erase_region demo_chip 4096 4096 = (ESP_OK, ?f1)"
    by (rule erase_region_live) (simp_all add: demo_chip_def)
  have 2: "esp_flash_write_encrypted ?f1 True 4112 ?bs = (ESP_OK, ?f2)"
    by (rule write_encrypted_live) (simp_all add: demo_chip_cipher, simp_all add: demo_chip_def)
  obtain cs where 3: "esp_flash_read_encrypted ?f2 4112 (length ?bs) = (ESP_OK, cs, ?f2)"
    by (simp add: demo_chip_def esp_flash_read_encrypted_def spi_flash_mmap_def add32_def Let_def)
  have "cs = ?bs"
    using flash_encrypted_read_back [OF demo_chip_cipher [of "flash_mem demo_chip", simplified] _ _ _ 1 2 _ _ 3]
    by (simp add: demo_chip_def)
  with 1 2 3 show ?thesis by auto
qed

text \<open>
  C21: a write that fails at any point (a driver call that reports an error, a failed
  verification) can only have changed cells of its own range, provided a failing driver call
  itself damages no cell outside that range.
\<close>

theorem flash_write_failure_confined:
  assumes "esp_flash_write f direct bs a = (e, f')"
    and "\<forall>(err, damage) \<in> set (drv_results f). \<forall>m i. i < a \<or> a + length bs \<le> i \<longrightarrow> damage m i = m i"
  shows "\<forall>i. i < a \<or> a + length bs \<le> i \<longrightarrow> flash_mem f' i = flash_mem f i"
  using write_within [OF assms(1)] assms(2) by (auto simp: confined_def within_def)

theorem flash_write_failure_confined_witness:
  "\<exists>e f'. esp_flash_write (demo_chip\<lparr> drv_results := [(ESP_OK, id), (ESP_OK, id), (ESP_FAIL, (\<lambda>m. m(100 := 9)))] \<rparr>)
      True [1, 2] 100 = (e, f') \<and> flash_mem f' 99 = 0"
proof -
  let ?f = "demo_chip\<lparr> drv_results := [(ESP_OK, id), (ESP_OK, id), (ESP_FAIL, (\<lambda>m. m(100 := 9)))] \<rparr>"
  obtain e f' where w: "esp_flash_write ?f True [1, 2] 100 = (e, f')" by (rule prod.exhaust)
  have "flash_mem f' 99 = flash_mem ?f 99" using flash_write_failure_confined [OF w] by simp
  then show ?thesis using w by (auto simp: demo_chip_def)
qed

text \<open>
  The range check of \<^verbatim>\<open>esp_flash_read\<close> adds address and length in 32 bits. For every
  non-zero address on the chip there is a length far larger than the chip for which the
  check passes and the read is carried out (the checks of the write and erase functions
  subtract instead and do not have this problem).
\<close>

theorem flash_read_check_wraps:
  assumes "0 < address" and "address \<le> chip_size f" and "chip_size f < 2 ^ 31" and "drv_results f = []"
  shows "chip_size f < 2 ^ 32 - address \<and>
    fst (esp_flash_read f True address (2 ^ 32 - address)) \<noteq> ESP_ERR_INVALID_ARG"
proof -
  have l: "fst (read_loop g c a n) = ESP_OK" if "drv_results g = []" for g c a n
    using that
  proof (induction n arbitrary: a rule: less_induct)
    case (less n)
    show ?case
      using less.prems less.IH [of "n - min c n" "a + min c n"]
      by (subst read_loop.simps) (auto simp: Let_def split: prod.splits)
  qed
  have "add32 address (2 ^ 32 - address) = 0" using assms(2,3) by (simp add: add32_def)
  then have "esp_flash_read f True address (2 ^ 32 - address) =
      read_loop f (min MAX_READ_CHUNK (2 ^ 32 - address)) address (2 ^ 32 - address)"
    using assms(2,3) by (simp add: esp_flash_read_def)
  then show ?thesis using l [OF assms(4)] assms(2,3) by simp
qed

theorem flash_read_check_wraps_witness:
  "fst (esp_flash_read demo_chip True 4096 (2 ^ 32 - 4096)) \<noteq> ESP_ERR_INVALID_ARG"
  using flash_read_check_wraps [of 4096 demo_chip] by (simp add: demo_chip_def)

end
