(* ===== verification/Part_Table.thy ===== *)
theory Part_Table
  imports Prelude
begin

text \<open>
  The partition table as it lies in flash: 32-byte entries (\<^verbatim>\<open>esp_partition_info_t\<close> of
  \<^verbatim>\<open>esp_flash_partitions.h\<close>) and \<^verbatim>\<open>esp_partition_table_verify\<close> of
  \<^verbatim>\<open>bootloader_support/src/flash_partitions.c\<close>, which the bootloader and the OTA code use to
  check a table. The MD5 routine is in ROM and is a parameter.
\<close>

section \<open>Entries\<close>

abbreviation (input) ESP_PARTITION_MAGIC :: nat where "ESP_PARTITION_MAGIC \<equiv> 0x50AA"
abbreviation (input) ESP_PARTITION_MAGIC_MD5 :: nat where "ESP_PARTITION_MAGIC_MD5 \<equiv> 0xEBEB"
abbreviation (input) PART_TYPE_APP :: nat where "PART_TYPE_APP \<equiv> 0x00"
abbreviation (input) PART_TYPE_DATA :: nat where "PART_TYPE_DATA \<equiv> 0x01"
abbreviation (input) PART_TYPE_BOOTLOADER :: nat where "PART_TYPE_BOOTLOADER \<equiv> 0x02"
abbreviation (input) PART_TYPE_PARTITION_TABLE :: nat where "PART_TYPE_PARTITION_TABLE \<equiv> 0x03"
abbreviation (input) PART_TYPE_END :: nat where "PART_TYPE_END \<equiv> 0xff"
abbreviation (input) PART_SUBTYPE_FACTORY :: nat where "PART_SUBTYPE_FACTORY \<equiv> 0x00"
abbreviation (input) PART_SUBTYPE_OTA_FLAG :: nat where "PART_SUBTYPE_OTA_FLAG \<equiv> 0x10"
abbreviation (input) PART_SUBTYPE_TEST :: nat where "PART_SUBTYPE_TEST \<equiv> 0x20"
abbreviation (input) PART_SUBTYPE_DATA_OTA :: nat where "PART_SUBTYPE_DATA_OTA \<equiv> 0x00"
abbreviation (input) PART_SUBTYPE_END :: nat where "PART_SUBTYPE_END \<equiv> 0xff"
abbreviation (input) PART_FLAG_ENCRYPTED :: u32 where "PART_FLAG_ENCRYPTED \<equiv> 1"
abbreviation (input) PART_FLAG_READONLY :: u32 where "PART_FLAG_READONLY \<equiv> 2"

record esp_partition_pos_t =
  pos_offset :: nat
  pos_size :: nat

record esp_partition_info_t =
  i_magic :: nat
  i_type :: nat
  i_subtype :: nat
  i_pos :: esp_partition_pos_t
  i_label :: "u8 list"
  i_flags :: u32

definition rd16 :: "memory \<Rightarrow> nat \<Rightarrow> nat" where
  "rd16 m a = unat (m a) + 256 * unat (m (a + 1))"

definition rd_info :: "memory \<Rightarrow> nat \<Rightarrow> esp_partition_info_t" where
  "rd_info m a = \<lparr> i_magic = rd16 m a, i_type = unat (m (a + 2)), i_subtype = unat (m (a + 3)),
     i_pos = \<lparr> pos_offset = unat (rd32 m (a + 4)), pos_size = unat (rd32 m (a + 8)) \<rparr>,
     i_label = rd_bytes m (a + 12) 16, i_flags = rd32 m (a + 28) \<rparr>"

section \<open>Verification\<close>

text \<open>
  The loop of \<^verbatim>\<open>esp_partition_table_verify\<close>: \<open>n\<close> entries are left, the next one has number
  \<open>i\<close>. Returns the result and \<^verbatim>\<open>*num_partitions\<close>.
\<close>

fun verify_entries :: "(u8 list \<Rightarrow> u8 list) \<Rightarrow> nat \<Rightarrow> memory \<Rightarrow> nat \<Rightarrow> nat \<Rightarrow> nat \<Rightarrow> bool \<Rightarrow> esp_err \<times> nat" where
  "verify_entries md5 chip_size m base 0 i md5_found = (ESP_ERR_INVALID_STATE, 0)"
| "verify_entries md5 chip_size m base (Suc n) i md5_found =
     (let part = rd_info m (base + 32 * i); pos = i_pos part in
      if i_magic part = ESP_PARTITION_MAGIC then
        (if pos_offset pos > chip_size \<or> add32 (pos_offset pos) (pos_size pos) > chip_size
         then (ESP_ERR_INVALID_SIZE, 0)
         else verify_entries md5 chip_size m base n (Suc i) md5_found)
      else if i_magic part = ESP_PARTITION_MAGIC_MD5 then
        (if md5_found then (ESP_ERR_INVALID_STATE, 0)
         else if rd_bytes m (base + 32 * i + 16) 16 \<noteq> md5 (rd_bytes m base (32 * i)) then (ESP_ERR_INVALID_STATE, 0)
         else verify_entries md5 chip_size m base n (Suc i) True)
      else if i \<noteq> 0 \<and> i_magic part = 0xFFFF \<and> i_type part = PART_TYPE_END \<and> i_subtype part = PART_SUBTYPE_END
      then (ESP_OK, i - (if md5_found then 1 else 0))
      else (ESP_ERR_INVALID_STATE, 0))"

definition ESP_PARTITION_TABLE_MAX_LEN :: nat where "ESP_PARTITION_TABLE_MAX_LEN = 0xC00"
definition ESP_PARTITION_TABLE_MAX_ENTRIES :: nat where "ESP_PARTITION_TABLE_MAX_ENTRIES = 96"

definition esp_partition_table_verify :: "(u8 list \<Rightarrow> u8 list) \<Rightarrow> nat \<Rightarrow> memory \<Rightarrow> nat \<Rightarrow> esp_err \<times> nat" where
  "esp_partition_table_verify md5 chip_size m base =
     verify_entries md5 chip_size m base ESP_PARTITION_TABLE_MAX_ENTRIES 0 False"

section \<open>Properties\<close>

text \<open>
  What acceptance means: the table ends with a terminating entry \<open>k\<close> behind at least one
  other entry, everything before it is a partition within the chip (as far as the 32-bit sum
  tells) or the one MD5 record, whose digest covers exactly the entries in front of it.
\<close>

definition entry_ok :: "(u8 list \<Rightarrow> u8 list) \<Rightarrow> nat \<Rightarrow> memory \<Rightarrow> nat \<Rightarrow> nat \<Rightarrow> bool" where
  "entry_ok md5 chip_size m base i \<longleftrightarrow>
     (let p = rd_info m (base + 32 * i) in
      (i_magic p = ESP_PARTITION_MAGIC \<and> pos_offset (i_pos p) \<le> chip_size
         \<and> add32 (pos_offset (i_pos p)) (pos_size (i_pos p)) \<le> chip_size)
      \<or> (i_magic p = ESP_PARTITION_MAGIC_MD5 \<and> rd_bytes m (base + 32 * i + 16) 16 = md5 (rd_bytes m base (32 * i))))"

definition md5_entry :: "memory \<Rightarrow> nat \<Rightarrow> nat \<Rightarrow> bool" where
  "md5_entry m base i \<longleftrightarrow> i_magic (rd_info m (base + 32 * i)) = ESP_PARTITION_MAGIC_MD5"

definition end_entry :: "memory \<Rightarrow> nat \<Rightarrow> nat \<Rightarrow> bool" where
  "end_entry m base i \<longleftrightarrow>
     (let p = rd_info m (base + 32 * i)
      in i_magic p = 0xFFFF \<and> i_type p = PART_TYPE_END \<and> i_subtype p = PART_SUBTYPE_END)"

lemma none_between: "card {j. i \<le> j \<and> j < i \<and> P j} = 0" for i :: nat
proof -
  have "{j. i \<le> j \<and> j < i \<and> P j} = {}" by auto
  then show ?thesis by (simp only: card.empty)
qed

lemma verify_entries_ok:
  assumes "verify_entries md5 cs m base n i fnd = (ESP_OK, num)"
  shows "\<exists>k. i \<le> k \<and> k < i + n \<and> 0 < k \<and> end_entry m base k \<and> (\<forall>j. i \<le> j \<and> j < k \<longrightarrow> entry_ok md5 cs m base j)
    \<and> (card {j. i \<le> j \<and> j < k \<and> md5_entry m base j} + (if fnd then 1 else 0) \<le> 1)
    \<and> num = k - (card {j. i \<le> j \<and> j < k \<and> md5_entry m base j} + (if fnd then 1 else 0))"
  using assms
proof (induction n arbitrary: i fnd)
  case (Suc n)
  let ?p = "rd_info m (base + 32 * i)"
  have split: "{j. i \<le> j \<and> j < k \<and> md5_entry m base j} =
      (if md5_entry m base i then {i} else {}) \<union> {j. Suc i \<le> j \<and> j < k \<and> md5_entry m base j}" if "i < k" for k
    using that by (auto simp: Suc_le_eq le_less)
  have card: "card {j. i \<le> j \<and> j < k \<and> md5_entry m base j} =
      (if md5_entry m base i then 1 else 0) + card {j. Suc i \<le> j \<and> j < k \<and> md5_entry m base j}" if "i < k" for k
    unfolding split [OF that] by (subst card_Un_disjoint) auto
  have rng: "(\<forall>j. i \<le> j \<and> j < k \<longrightarrow> P j) \<longleftrightarrow> P i \<and> (\<forall>j. Suc i \<le> j \<and> j < k \<longrightarrow> P j)" if "i < k" for k and P :: "nat \<Rightarrow> bool"
    using that by (metis Suc_le_eq le_neq_implies_less order_refl less_imp_le)
  consider (part) "i_magic ?p = ESP_PARTITION_MAGIC" | (md5) "i_magic ?p = ESP_PARTITION_MAGIC_MD5"
    | (last) "i_magic ?p \<noteq> ESP_PARTITION_MAGIC" "i_magic ?p \<noteq> ESP_PARTITION_MAGIC_MD5" by blast
  then show ?case
  proof cases
    case part
    then have r: "verify_entries md5 cs m base n (Suc i) fnd = (ESP_OK, num)"
      and ok: "entry_ok md5 cs m base i" "\<not> md5_entry m base i"
      using Suc.prems by (auto simp: Let_def entry_ok_def md5_entry_def split: if_splits)
    from Suc.IH [OF r] obtain k where "Suc i \<le> k" "k < Suc i + n" "0 < k" "end_entry m base k"
      "\<forall>j. Suc i \<le> j \<and> j < k \<longrightarrow> entry_ok md5 cs m base j"
      "card {j. Suc i \<le> j \<and> j < k \<and> md5_entry m base j} + (if fnd then 1 else 0) \<le> 1"
      "num = k - (card {j. Suc i \<le> j \<and> j < k \<and> md5_entry m base j} + (if fnd then 1 else 0))" by blast
    then show ?thesis using ok card [of k] rng [of k] by (intro exI [of _ k]) auto
  next
    case md5
    then have r: "verify_entries md5 cs m base n (Suc i) True = (ESP_OK, num)"
      and ok: "entry_ok md5 cs m base i" "md5_entry m base i" "\<not> fnd"
      using Suc.prems by (auto simp: Let_def entry_ok_def md5_entry_def split: if_splits)
    from Suc.IH [OF r] obtain k where "Suc i \<le> k" "k < Suc i + n" "0 < k" "end_entry m base k"
      "\<forall>j. Suc i \<le> j \<and> j < k \<longrightarrow> entry_ok md5 cs m base j"
      "card {j. Suc i \<le> j \<and> j < k \<and> md5_entry m base j} + 1 \<le> 1"
      "num = k - (card {j. Suc i \<le> j \<and> j < k \<and> md5_entry m base j} + 1)" by auto
    then show ?thesis using ok card [of k] rng [of k] by (intro exI [of _ k]) auto
  next
    case last
    then have "i \<noteq> 0" "end_entry m base i" "num = i - (if fnd then 1 else 0)"
      using Suc.prems by (auto simp: Let_def end_entry_def split: if_splits)
    then show ?thesis by (intro exI [of _ i]) (auto simp: none_between)
  qed
qed simp

text \<open>The converse: such a table is accepted.\<close>

definition table_accepted :: "(u8 list \<Rightarrow> u8 list) \<Rightarrow> nat \<Rightarrow> memory \<Rightarrow> nat \<Rightarrow> nat \<Rightarrow> nat \<Rightarrow> bool \<Rightarrow> nat \<Rightarrow> bool" where
  "table_accepted md5 cs m base i n fnd k \<longleftrightarrow>
     i \<le> k \<and> k < i + n \<and> 0 < k \<and> end_entry m base k \<and> (\<forall>j. i \<le> j \<and> j < k \<longrightarrow> entry_ok md5 cs m base j)
     \<and> card {j. i \<le> j \<and> j < k \<and> md5_entry m base j} + (if fnd then 1 else 0) \<le> 1"

lemma verify_entries_accepts:
  assumes "table_accepted md5 cs m base i n fnd k"
  shows "verify_entries md5 cs m base n i fnd =
    (ESP_OK, k - (card {j. i \<le> j \<and> j < k \<and> md5_entry m base j} + (if fnd then 1 else 0)))"
  using assms
proof (induction n arbitrary: i fnd)
  case 0
  then show ?case by (auto simp: table_accepted_def)
next
  case (Suc n)
  show ?case
  proof (cases "i = k")
    case True
    then show ?thesis using Suc.prems by (auto simp: none_between table_accepted_def end_entry_def Let_def)
  next
    case False
    then have ik: "i < k" and ok: "entry_ok md5 cs m base i" using Suc.prems by (auto simp: table_accepted_def)
    have "{j. i \<le> j \<and> j < k \<and> md5_entry m base j} =
        (if md5_entry m base i then {i} else {}) \<union> {j. Suc i \<le> j \<and> j < k \<and> md5_entry m base j}"
      using ik by (auto simp: Suc_le_eq le_less)
    then have card: "card {j. i \<le> j \<and> j < k \<and> md5_entry m base j} =
        (if md5_entry m base i then 1 else 0) + card {j. Suc i \<le> j \<and> j < k \<and> md5_entry m base j}"
      by (simp add: card_insert_if)
    let ?f = "fnd \<or> md5_entry m base i"
    have "table_accepted md5 cs m base (Suc i) n ?f k"
      using Suc.prems ik card by (auto simp: table_accepted_def split: if_splits)
    from Suc.IH [OF this] have r: "verify_entries md5 cs m base n (Suc i) ?f = (ESP_OK,
        k - (card {j. Suc i \<le> j \<and> j < k \<and> md5_entry m base j} + (if ?f then 1 else 0)))" .
    show ?thesis
    proof (cases "md5_entry m base i")
      case md5: True
      then have "\<not> fnd" using Suc.prems card by (auto simp: table_accepted_def split: if_splits)
      then show ?thesis using r ok md5 card by (auto simp: entry_ok_def md5_entry_def Let_def)
    next
      case part: False
      then show ?thesis using r ok card by (auto simp: entry_ok_def md5_entry_def Let_def)
    qed
  qed
qed

section \<open>Concrete tables\<close>

definition demo_entry :: "u8 list \<Rightarrow> u8 list" where
  "demo_entry sz = [0xAA, 0x50, 0x00, 0x10, 0x00, 0x00, 0x01, 0x00] @ sz @ replicate 20 0"

definition md5_record :: "u8 list \<Rightarrow> u8 list" where
  "md5_record digest = [0xEB, 0xEB] @ replicate 14 0xFF @ digest"

definition table_mem :: "u8 list list \<Rightarrow> memory" where
  "table_mem es a = (if a < 32 * length es then (es ! (a div 32)) ! (a mod 32) else 0xFF)"

text \<open>One step of the loop per kind of entry.\<close>

lemma verify_part:
  "i_magic (rd_info m (base + 32 * i)) = ESP_PARTITION_MAGIC \<Longrightarrow> entry_ok md5 cs m base i \<Longrightarrow>
   verify_entries md5 cs m base (Suc n) i f = verify_entries md5 cs m base n (Suc i) f"
  by (auto simp: entry_ok_def Let_def)

lemma verify_md5:
  "i_magic (rd_info m (base + 32 * i)) = ESP_PARTITION_MAGIC_MD5 \<Longrightarrow> entry_ok md5 cs m base i \<Longrightarrow> 
   verify_entries md5 cs m base (Suc n) i False = verify_entries md5 cs m base n (Suc i) True"
  by (auto simp: entry_ok_def Let_def)

lemma verify_end:
  "0 < i \<Longrightarrow> end_entry m base i \<Longrightarrow> verify_entries md5 cs m base (Suc n) i f = (ESP_OK, i - (if f then 1 else 0))"
  by (auto simp: end_entry_def Let_def)

lemma verify_start:
  obtains n where "\<And>md5 cs m. esp_partition_table_verify md5 cs m 0 = verify_entries md5 cs m 0 (Suc (Suc (Suc (Suc n)))) 0 False"
proof (rule that)
  show "esp_partition_table_verify md5 cs m 0 = verify_entries md5 cs m 0 (Suc (Suc (Suc (Suc 92)))) 0 False" for md5 cs m
    by (simp add: esp_partition_table_verify_def ESP_PARTITION_TABLE_MAX_ENTRIES_def)
qed

lemma nth_table [simp]: "a < 32 * length es \<Longrightarrow> table_mem es a = (es ! (a div 32)) ! (a mod 32)"
  by (simp add: table_mem_def)

lemma nth_table_end [simp]: "32 * length es \<le> a \<Longrightarrow> table_mem es a = 0xFF"
  by (simp add: table_mem_def)

lemma rd_demo_entry:
  assumes "k < length es" and "es ! k = demo_entry sz" and "length sz = 4"
  shows "i_magic (rd_info (table_mem es) (32 * k)) = 0x50AA"
    and "i_pos (rd_info (table_mem es) (32 * k)) = \<lparr> pos_offset = 0x10000, pos_size = unat (rd32 (\<lambda>i. sz ! i) 0) \<rparr>"
proof -
  have t: "table_mem es (32 * k + j) = demo_entry sz ! j" if "j < 32" for j
    using assms that by (simp add: table_mem_def)
  note t [of 0, simp] t [of 1, simp] t [of 4, simp] t [of 5, simp] t [of 6, simp] t [of 7, simp]
    t [of 8, simp] t [of 9, simp] t [of 10, simp] t [of 11, simp]
  have "32 * k + 4 + j = 32 * k + (4 + j)" "32 * k + 8 + j = 32 * k + (8 + j)" for j by simp_all
  then have o: "table_mem es (32 * k + 4 + j) = demo_entry sz ! (4 + j)" "table_mem es (32 * k + 8 + j) = demo_entry sz ! (8 + j)" if "j < 4" for j
    using that by (simp_all only: t)
  show "i_magic (rd_info (table_mem es) (32 * k)) = 0x50AA"
    using t [of 0] t [of 1] by (simp add: rd_info_def rd16_def demo_entry_def)
  show "i_pos (rd_info (table_mem es) (32 * k)) = \<lparr> pos_offset = 0x10000, pos_size = unat (rd32 (\<lambda>i. sz ! i) 0) \<rparr>"
    using o(1) [of 0] o(1) [of 1] o(1) [of 2] o(1) [of 3] o(2) [of 0] o(2) [of 1] o(2) [of 2] o(2) [of 3] assms(3)
    by (simp add: rd_info_def rd32_def demo_entry_def nth_append numeral_2_eq_2 [symmetric])
qed

lemma rd_md5_record:
  assumes "k < length es" and "es ! k = md5_record d" and "length d = 16"
  shows "i_magic (rd_info (table_mem es) (32 * k)) = 0xEBEB" and "rd_bytes (table_mem es) (32 * k + 16) 16 = d"
proof -
  have t: "table_mem es (32 * k + j) = md5_record d ! j" if "j < 32" for j
    using assms that by (simp add: table_mem_def)
  show "i_magic (rd_info (table_mem es) (32 * k)) = 0xEBEB"
    using t [of 0] t [of 1] by (simp add: rd_info_def rd16_def md5_record_def)
  show "rd_bytes (table_mem es) (32 * k + 16) 16 = d"
    using assms(3) by (intro nth_equalityI) (simp_all add: rd_bytes_def add.assoc t, simp add: md5_record_def nth_append)
qed

lemma table_end [simp]: "end_entry (table_mem es) 0 (length es)"
  by (simp add: end_entry_def rd_info_def rd16_def Let_def)

text \<open>
  C30: \<^verbatim>\<open>esp_partition_table_verify\<close> accepts exactly the tables in which a terminating entry \<open>k\<close>
  follows at least one record, every record before it is a partition that lies within the chip (by the
  32-bit sum) or an MD5 record whose digest covers exactly the records in front of it, and there is at
  most one MD5 record; the reported number of partitions leaves the MD5 record out.
\<close>

theorem table_verify_iff:
  "esp_partition_table_verify md5 cs m base = (ESP_OK, num) \<longleftrightarrow>
     (\<exists>k. 0 < k \<and> k < ESP_PARTITION_TABLE_MAX_ENTRIES \<and> end_entry m base k
        \<and> (\<forall>j<k. entry_ok md5 cs m base j) \<and> card {j. j < k \<and> md5_entry m base j} \<le> 1
        \<and> num = k - card {j. j < k \<and> md5_entry m base j})"
  (is "?l \<longleftrightarrow> ?r")
proof
  assume ?l
  then show ?r using verify_entries_ok [of md5 cs m base ESP_PARTITION_TABLE_MAX_ENTRIES 0 False num]
    by (auto simp: esp_partition_table_verify_def)
next
  assume ?r
  then obtain k where k: "table_accepted md5 cs m base 0 ESP_PARTITION_TABLE_MAX_ENTRIES False k"
      "num = k - card {j. j < k \<and> md5_entry m base j}"
    by (auto simp: table_accepted_def)
  then show ?l using verify_entries_accepts [OF k(1)] by (simp add: esp_partition_table_verify_def)
qed

theorem table_verify_iff_witness:
  "esp_partition_table_verify (\<lambda>_. replicate 16 0) 0x400000 (table_mem [demo_entry [0, 0, 0x10, 0]]) 0 = (ESP_OK, 1)"
proof -
  let ?es = "[demo_entry [0, 0, 0x10, 0]]"
  have p: "i_magic (rd_info (table_mem ?es) 0) = 0x50AA"
      "i_pos (rd_info (table_mem ?es) 0) = \<lparr> pos_offset = 0x10000, pos_size = 0x100000 \<rparr>"
    using rd_demo_entry [of 0 ?es "[0, 0, 0x10, 0]"] by (simp_all add: rd32_def)
  have "\<not> md5_entry (table_mem ?es) 0 0" by (simp add: md5_entry_def p(1))
  moreover have "entry_ok (\<lambda>_. replicate 16 0) 0x400000 (table_mem ?es) 0 0"
    by (simp add: entry_ok_def p add32_def)
  moreover have "end_entry (table_mem ?es) 0 1" using table_end [of ?es] by simp
  moreover have "{j. j < 1 \<and> md5_entry m 0 j} = (if md5_entry m 0 0 then {0} else {})" for m by auto
  ultimately show ?thesis
    unfolding table_verify_iff by (intro exI [of _ 1]) (simp add: ESP_PARTITION_TABLE_MAX_ENTRIES_def)
qed

text \<open>
  The check of a partition's end adds offset and size in 32 bits, so a partition whose end passes
  \<open>2 ^ 32\<close> is accepted although it reaches far beyond the chip.
\<close>

theorem table_end_wraps:
  "let m = table_mem [demo_entry [0x00, 0x00, 0xFF, 0xFF]] in
     esp_partition_table_verify md5 0x400000 m 0 = (ESP_OK, 1)
     \<and> i_pos (rd_info m 0) = \<lparr> pos_offset = 0x10000, pos_size = 0xFFFF0000 \<rparr>
     \<and> pos_offset (i_pos (rd_info m 0)) + pos_size (i_pos (rd_info m 0)) > 0x400000"
proof -
  obtain n where n: "\<And>md5 cs m. esp_partition_table_verify md5 cs m 0 = verify_entries md5 cs m 0 (Suc (Suc (Suc (Suc n)))) 0 False"
    using verify_start by blast
  define es where "es = [demo_entry [0x00, 0x00, 0xFF, 0xFF]]"
  have p: "i_magic (rd_info (table_mem es) 0) = 0x50AA"
      "i_pos (rd_info (table_mem es) 0) = \<lparr> pos_offset = 0x10000, pos_size = 0xFFFF0000 \<rparr>"
    using rd_demo_entry [of 0 es "[0, 0, 0xFF, 0xFF]"] by (simp_all add: es_def rd32_def)
  have e: "end_entry (table_mem es) 0 1" using table_end [of es] by (simp add: es_def)
  have "entry_ok md5 0x400000 (table_mem es) 0 0" by (simp add: entry_ok_def p add32_def)
  then have "esp_partition_table_verify md5 0x400000 (table_mem es) 0 = (ESP_OK, 1)"
    using e p(1) verify_end [of 1 "table_mem es" 0] verify_part [of "table_mem es" 0 0] unfolding n
    by (simp del: verify_entries.simps)
  then show ?thesis unfolding es_def [symmetric] by (simp add: p)
qed

text \<open>
  An MD5 record may stand in the middle of an accepted table. The record behind it is then not
  covered by the digest (any size is accepted there), and the reported number of partitions is short by
  that record: the first two entries, which is what a reader of the table takes, are a partition and the
  MD5 record itself.
\<close>

theorem table_digest_in_the_middle:
  assumes "\<And>bs. length (md5 bs) = 16" and "length sz = 4" and "unat (rd32 (\<lambda>i. sz ! i) 0) \<le> 0x3F0000"
  shows "let e = demo_entry [0x00, 0x00, 0x10, 0x00];
             m = table_mem [e, md5_record (md5 e), demo_entry sz]
         in esp_partition_table_verify md5 0x400000 m 0 = (ESP_OK, 2)
            \<and> i_magic (rd_info m 32) = ESP_PARTITION_MAGIC_MD5
            \<and> i_magic (rd_info m 64) = ESP_PARTITION_MAGIC
            \<and> pos_size (i_pos (rd_info m 64)) = unat (rd32 (\<lambda>i. sz ! i) 0)"
proof -
  define e where "e = demo_entry [0x00, 0x00, 0x10, 0x00]"
  obtain n where n: "\<And>md5 cs m. esp_partition_table_verify md5 cs m 0 = verify_entries md5 cs m 0 (Suc (Suc (Suc (Suc n)))) 0 False"
    using verify_start by blast
  define es where "es = [e, md5_record (md5 e), demo_entry sz]"
  have p0: "i_magic (rd_info (table_mem es) 0) = 0x50AA"
      "i_pos (rd_info (table_mem es) 0) = \<lparr> pos_offset = 0x10000, pos_size = 0x100000 \<rparr>"
    using rd_demo_entry [of 0 es "[0, 0, 0x10, 0]"] by (simp_all add: es_def e_def rd32_def)
  have p1: "i_magic (rd_info (table_mem es) 32) = 0xEBEB" "rd_bytes (table_mem es) 48 16 = md5 e"
    using rd_md5_record [of 1 es "md5 e"] assms(1) by (simp_all add: es_def)
  have p2: "i_magic (rd_info (table_mem es) 64) = 0x50AA"
      "i_pos (rd_info (table_mem es) 64) = \<lparr> pos_offset = 0x10000, pos_size = unat (rd32 (\<lambda>i. sz ! i) 0) \<rparr>"
    using rd_demo_entry [of 2 es sz] assms(2) by (simp_all add: es_def)
  have d: "rd_bytes (table_mem es) 0 32 = e"
    by (rule nth_equalityI) (simp_all add: es_def rd_bytes_def e_def demo_entry_def)
  have ok: "entry_ok md5 0x400000 (table_mem es) 0 0" "entry_ok md5 0x400000 (table_mem es) 0 1"
      "entry_ok md5 0x400000 (table_mem es) 0 2"
    using assms(3) by (simp_all add: entry_ok_def p0 p1 p2 d add32_def)
  have "end_entry (table_mem es) 0 3" using table_end [of es] by (simp add: es_def numeral_3_eq_3)
  then have "esp_partition_table_verify md5 0x400000 (table_mem es) 0 = (ESP_OK, 2)"
    unfolding n using ok p0(1) p1(1) p2(1)
      verify_part [of "table_mem es" 0 0] verify_md5 [of "table_mem es" 0 1] verify_part [of "table_mem es" 0 2] verify_end [of 3 "table_mem es" 0]
    by (simp add: numeral_2_eq_2 numeral_3_eq_3 del: verify_entries.simps)
  then show ?thesis unfolding Let_def e_def [symmetric] es_def [symmetric] by (simp add: p1 p2)
qed
theorem table_digest_in_the_middle_witness:
  "let m = table_mem [demo_entry [0x00, 0x00, 0x10, 0x00], md5_record (replicate 16 0), demo_entry [0, 0, 0x20, 0]]
   in esp_partition_table_verify (\<lambda>_. replicate 16 0) 0x400000 m 0 = (ESP_OK, 2)
      \<and> i_magic (rd_info m 32) = ESP_PARTITION_MAGIC_MD5 \<and> i_magic (rd_info m 64) = ESP_PARTITION_MAGIC"
  using table_digest_in_the_middle [of "\<lambda>_. replicate 16 0" "[0, 0, 0x20, 0]"]
  by (simp add: rd32_def Let_def del: nth_table)

end
