(* ===== verification/Partition.thy ===== *)
theory Partition
  imports Esp_Flash Part_Table
begin

text \<open>
  The partition API: the list of partitions of \<^verbatim>\<open>components/esp_partition/partition.c\<close> (loading
  the table, searching, registering external partitions, copying) and the access functions of
  \<^verbatim>\<open>partition_target.c\<close> on top of the flash driver.

  \<^item> A partition object is immutable once it is in the list, so a \<^verbatim>\<open>const esp_partition_t *\<close> is
    the record together with its heap address \<open>p_self\<close>; a NULL pointer is \<open>None\<close>.
  \<^item> A flash chip is named by a number, \<open>0\<close> being \<^verbatim>\<open>esp_flash_default_chip\<close>.
  \<^item> The results of successive \<^verbatim>\<open>malloc\<close> and \<^verbatim>\<open>calloc\<close> calls are the list \<open>allocs\<close> (an exhausted
    list means success), those of \<^verbatim>\<open>spi_flash_mmap_get_free_pages\<close> the list \<open>free_pages\<close>.
  \<^item> Build options and the MD5 routine in ROM are the record \<open>config\<close>;
    \<^verbatim>\<open>CONFIG_EFUSE_VIRTUAL_KEEP_IN_FLASH\<close> is off, the MMU page is 64 KB.
  \<^item> A failed assertion is the value \<open>None\<close> of the functions that have one.
\<close>

section \<open>State\<close>

record esp_partition_t =
  p_self :: nat
  p_flash_chip :: nat
  p_address :: nat
  p_size :: nat
  p_erase_size :: nat
  p_type :: nat
  p_subtype :: nat
  p_label :: "u8 list"
  p_encrypted :: bool
  p_readonly :: bool

record partition_list_item_t =
  item_info :: esp_partition_t
  user_registered :: bool

record config =
  table_offset :: nat
  table_md5 :: bool
  nvs_pre_v4_3_flag :: bool
  encrypted_rw :: bool
  rom_md5 :: "u8 list \<Rightarrow> u8 list"

record pstate =
  chips :: "nat \<Rightarrow> flash"
  part_list :: "partition_list_item_t list"
  heap_next :: nat
  allocs :: "bool list"
  free_pages :: "nat list"

abbreviation (input) SPI_FLASH_SEC_SIZE :: nat where "SPI_FLASH_SEC_SIZE \<equiv> 4096"
abbreviation (input) TYPE_ANY :: nat where "TYPE_ANY \<equiv> 0xFF"
abbreviation (input) SUBTYPE_ANY :: nat where "SUBTYPE_ANY \<equiv> 0xFF"
abbreviation (input) SUBTYPE_DATA_NVS :: nat where "SUBTYPE_DATA_NVS \<equiv> 0x02"
abbreviation (input) SUBTYPE_DATA_NVS_KEYS :: nat where "SUBTYPE_DATA_NVS_KEYS \<equiv> 0x04"
abbreviation (input) SUBTYPE_DATA_TEE_OTA :: nat where "SUBTYPE_DATA_TEE_OTA \<equiv> 0x90"
abbreviation (input) SIZE_MAX :: nat where "SIZE_MAX \<equiv> 0xFFFFFFFF"

definition heap_alloc :: "pstate \<Rightarrow> nat option \<times> pstate" where
  "heap_alloc s = (case allocs s of
       False # as \<Rightarrow> (None, s\<lparr> allocs := as \<rparr>)
     | as \<Rightarrow> (Some (heap_next s), s\<lparr> heap_next := Suc (heap_next s), allocs := tl as \<rparr>))"

definition on_chip :: "nat \<Rightarrow> (flash \<Rightarrow> 'a \<times> flash) \<Rightarrow> pstate \<Rightarrow> 'a \<times> pstate" where
  "on_chip c op s = (case op (chips s c) of (r, f) \<Rightarrow> (r, s\<lparr> chips := (chips s)(c := f) \<rparr>))"

section \<open>Loading the table\<close>

definition is_partition_encrypted :: "pstate \<Rightarrow> bool \<Rightarrow> nat \<Rightarrow> nat \<Rightarrow> bool" where
  "is_partition_encrypted s encryption_config type subtype =
     (if \<not> enc_enabled (chips s 0) then False
      else if type = PART_TYPE_APP \<or> type = PART_TYPE_BOOTLOADER \<or> type = PART_TYPE_PARTITION_TABLE
        \<or> (type = PART_TYPE_DATA \<and> subtype = PART_SUBTYPE_DATA_OTA)
        \<or> (type = PART_TYPE_DATA \<and> subtype = SUBTYPE_DATA_TEE_OTA)
        \<or> (type = PART_TYPE_DATA \<and> subtype = SUBTYPE_DATA_NVS_KEYS) then True
      else encryption_config)"

text \<open>\<^verbatim>\<open>strncpy\<close> of at most \<open>n\<close> characters into a zeroed buffer: the string up to its first NUL.\<close>

definition cstr :: "nat \<Rightarrow> u8 list \<Rightarrow> u8 list" where
  "cstr n bs = takeWhile (\<lambda>c. c \<noteq> 0) (take n bs)"

definition new_item :: "config \<Rightarrow> pstate \<Rightarrow> nat \<Rightarrow> esp_partition_info_t \<Rightarrow> partition_list_item_t" where
  "new_item cfg s ptr entry =
     (let enc = flag_set (i_flags entry) PART_FLAG_ENCRYPTED;
          enc' = (if nvs_pre_v4_3_flag cfg \<and> i_type entry = PART_TYPE_DATA \<and> i_subtype entry = SUBTYPE_DATA_NVS \<and> enc
                  then False else is_partition_encrypted s enc (i_type entry) (i_subtype entry))
      in \<lparr> item_info = \<lparr> p_self = ptr, p_flash_chip = 0, p_address = pos_offset (i_pos entry), p_size = pos_size (i_pos entry),
             p_erase_size = SPI_FLASH_SEC_SIZE, p_type = i_type entry, p_subtype = i_subtype entry,
             p_label = cstr 16 (i_label entry), p_encrypted = enc',
             p_readonly = flag_set (i_flags entry) PART_FLAG_READONLY \<rparr>,
           user_registered = False \<rparr>)"

text \<open>
  The loop over the entries: \<open>n\<close> are left in the mapped sector, the next one is at \<open>p_entry\<close>.
  Returns the error, the new list, the address of the MD5 record and the bytes given to the
  hash.
\<close>

fun load_entries :: "config \<Rightarrow> memory \<Rightarrow> nat \<Rightarrow> nat \<Rightarrow> pstate \<Rightarrow>
    esp_err \<times> partition_list_item_t list \<times> nat option \<times> u8 list \<times> pstate" where
  "load_entries cfg m p_entry 0 s = (ESP_OK, [], None, [], s)"
| "load_entries cfg m p_entry (Suc n) s =
     (let entry = rd_info m p_entry in
      if table_md5 cfg \<and> i_magic entry = ESP_PARTITION_MAGIC_MD5 then (ESP_OK, [], Some p_entry, [], s)
      else if i_magic entry \<noteq> ESP_PARTITION_MAGIC then (ESP_OK, [], None, [], s)
      else case heap_alloc s of
             (None, s1) \<Rightarrow> (ESP_ERR_NO_MEM, [], None, rd_bytes m p_entry 32, s1)
           | (Some ptr, s1) \<Rightarrow>
               (case load_entries cfg m (p_entry + 32) n s1 of (e, items, md5_part, hashed, s2) \<Rightarrow>
                  (e, new_item cfg s ptr entry # items, md5_part, rd_bytes m p_entry 32 @ hashed, s2)))"

text \<open>The MMU maps whole pages, so the table can be read at its own address of the mapped view.\<close>

definition load_partitions :: "config \<Rightarrow> pstate \<Rightarrow> esp_err \<times> pstate" where
  "load_partitions cfg s =
     (case on_chip 0 drv_status s of (e0, s0) \<Rightarrow>
        if e0 \<noteq> ESP_OK then (e0, s0)
        else
          let m = flash_view (chips s0 0) in
          case load_entries cfg m (table_offset cfg) 128 s0 of (e1, items, md5_part, hashed, s1) \<Rightarrow>
            let err = (if table_md5 cfg then
                         (case md5_part of
                            None \<Rightarrow> ESP_ERR_NOT_FOUND
                          | Some a \<Rightarrow> if rom_md5 cfg hashed \<noteq> rd_bytes m (a + 16) 16 then ESP_ERR_INVALID_STATE else e1)
                       else e1)
            in if err = ESP_OK then (err, s1\<lparr> part_list := items \<rparr>) else (err, s1))"

definition esp_partition_unload_all :: "pstate \<Rightarrow> pstate" where
  "esp_partition_unload_all s = s\<lparr> part_list := [] \<rparr>"

definition ensure_partitions_loaded :: "config \<Rightarrow> pstate \<Rightarrow> esp_err \<times> pstate" where
  "ensure_partitions_loaded cfg s = (if part_list s = [] then load_partitions cfg s else (ESP_OK, s))"

section \<open>Searching\<close>

text \<open>
  \<open>it_next\<close> is the linked list from \<^verbatim>\<open>next_item\<close> on, as it is when the iterator is advanced to
  that item; no function here changes the list while it holds an iterator.
\<close>

record esp_partition_iterator_opaque_t =
  it_type :: nat
  it_subtype :: nat
  it_label :: "u8 list option"
  it_next :: "partition_list_item_t list"
  it_info :: "esp_partition_t option"

definition iterator_create :: "nat \<Rightarrow> nat \<Rightarrow> u8 list option \<Rightarrow> pstate \<Rightarrow> esp_partition_iterator_opaque_t option \<times> pstate" where
  "iterator_create type subtype label s =
     (case heap_alloc s of
        (None, s1) \<Rightarrow> (None, s1)
      | (Some _, s1) \<Rightarrow> (Some \<lparr> it_type = type, it_subtype = subtype, it_label = label, it_next = part_list s1, it_info = None \<rparr>, s1))"

definition it_matches :: "esp_partition_iterator_opaque_t \<Rightarrow> esp_partition_t \<Rightarrow> bool" where
  "it_matches it p \<longleftrightarrow>
     \<not> (it_type it \<noteq> TYPE_ANY \<and> it_type it \<noteq> p_type p)
     \<and> \<not> (it_subtype it \<noteq> SUBTYPE_ANY \<and> it_subtype it \<noteq> p_subtype p)
     \<and> (case it_label it of None \<Rightarrow> True | Some l \<Rightarrow> l = p_label p)"

definition esp_partition_next :: "esp_partition_iterator_opaque_t \<Rightarrow> esp_partition_iterator_opaque_t option" where
  "esp_partition_next it =
     (case dropWhile (\<lambda>i. \<not> it_matches it (item_info i)) (it_next it) of
        [] \<Rightarrow> None
      | i # rest \<Rightarrow> Some (it\<lparr> it_info := Some (item_info i), it_next := rest \<rparr>))"

definition esp_partition_find :: "config \<Rightarrow> nat \<Rightarrow> nat \<Rightarrow> u8 list option \<Rightarrow> pstate \<Rightarrow> esp_partition_iterator_opaque_t option \<times> pstate" where
  "esp_partition_find cfg type subtype label s =
     (case ensure_partitions_loaded cfg s of (e, s1) \<Rightarrow>
        if e \<noteq> ESP_OK then (None, s1)
        else if type = TYPE_ANY \<and> subtype \<noteq> SUBTYPE_ANY then (None, s1)
        else case iterator_create type subtype label s1 of
               (None, s2) \<Rightarrow> (None, s2)
             | (Some it, s2) \<Rightarrow> (esp_partition_next it, s2))"

definition esp_partition_find_first :: "config \<Rightarrow> nat \<Rightarrow> nat \<Rightarrow> u8 list option \<Rightarrow> pstate \<Rightarrow> esp_partition_t option \<times> pstate" where
  "esp_partition_find_first cfg type subtype label s =
     (case esp_partition_find cfg type subtype label s of
        (None, s1) \<Rightarrow> (None, s1)
      | (Some it, s1) \<Rightarrow> (it_info it, s1))"

text \<open>The loop of \<^verbatim>\<open>esp_partition_verify\<close> over the matching partitions.\<close>

lemma next_shrinks: "esp_partition_next it = Some it' \<Longrightarrow> length (it_next it') < length (it_next it)"
  using length_dropWhile_le [of "\<lambda>i. \<not> it_matches it (item_info i)" "it_next it"]
  by (auto simp: esp_partition_next_def split: list.splits)

function verify_loop :: "esp_partition_t \<Rightarrow> esp_partition_iterator_opaque_t option \<Rightarrow> esp_partition_t option" where
  "verify_loop q None = None"
| "verify_loop q (Some it) =
     (case it_info it of
        None \<Rightarrow> None
      | Some p \<Rightarrow>
          if p_flash_chip p = p_flash_chip q \<and> p_address p = p_address q \<and> p_size q = p_size p \<and> p_encrypted q = p_encrypted p
          then Some p else verify_loop q (esp_partition_next it))"
  by pat_completeness auto
termination
proof (relation "measure (\<lambda>(q, it). case it of None \<Rightarrow> 0 | Some i \<Rightarrow> Suc (length (it_next i)))", goal_cases)
  case (2 q it p)
  then show ?case using next_shrinks [of it] by (auto split: option.splits)
qed simp

definition esp_partition_verify :: "config \<Rightarrow> esp_partition_t \<Rightarrow> pstate \<Rightarrow> esp_partition_t option \<times> pstate" where
  "esp_partition_verify cfg q s =
     (let label = (if p_label q \<noteq> [] then Some (p_label q) else None) in
      case esp_partition_find cfg (p_type q) (p_subtype q) label s of (it, s1) \<Rightarrow> (verify_loop q it, s1))"

section \<open>External partitions\<close>

text \<open>
  \<^verbatim>\<open>intptr_t\<close> is a signed 32-bit integer. \<open>None\<close>: one of the two assertions of
  \<^verbatim>\<open>bootloader_util_regions_overlap\<close> fails.
\<close>

definition intptr :: "nat \<Rightarrow> int" where
  "intptr x = (if x < 2 ^ 31 then int x else int x - 2 ^ 32)"

definition bootloader_util_regions_overlap :: "nat \<Rightarrow> nat \<Rightarrow> nat \<Rightarrow> nat \<Rightarrow> bool option" where
  "bootloader_util_regions_overlap start1 end1 start2 end2 =
     (if \<not> intptr end1 > intptr start1 \<or> \<not> intptr end2 > intptr start2 then None
      else Some (intptr end1 > intptr start2 \<and> intptr end2 > intptr start1))"

fun overlap_scan :: "nat \<Rightarrow> nat \<Rightarrow> nat \<Rightarrow> partition_list_item_t list \<Rightarrow> bool option" where
  "overlap_scan c offset len [] = Some False"
| "overlap_scan c offset len (it # its) =
     (let p = item_info it in
      if p_flash_chip p = c then
        (case bootloader_util_regions_overlap offset (add32 offset len) (p_address p) (add32 (p_address p) (p_size p)) of
           None \<Rightarrow> None
         | Some True \<Rightarrow> Some True
         | Some False \<Rightarrow> overlap_scan c offset len its)
      else overlap_scan c offset len its)"

definition esp_partition_register_external :: "config \<Rightarrow> nat option \<Rightarrow> nat \<Rightarrow> nat \<Rightarrow> u8 list \<Rightarrow> nat \<Rightarrow> nat \<Rightarrow> pstate \<Rightarrow>
    ((esp_err \<times> esp_partition_t option) \<times> pstate) option" where
  "esp_partition_register_external cfg chip_arg offset len label type subtype s =
     (let c = (case chip_arg of None \<Rightarrow> 0 | Some c \<Rightarrow> c) in
      if add32 offset len > chip_size (chips s c) then Some ((ESP_ERR_INVALID_SIZE, None), s)
      else case ensure_partitions_loaded cfg s of (e, s1) \<Rightarrow>
        if e \<noteq> ESP_OK then Some ((e, None), s1)
        else case heap_alloc s1 of
               (None, s2) \<Rightarrow> Some ((ESP_ERR_NO_MEM, None), s2)
             | (Some ptr, s2) \<Rightarrow>
                 let p = \<lparr> p_self = ptr, p_flash_chip = c, p_address = offset, p_size = len, p_erase_size = SPI_FLASH_SEC_SIZE,
                           p_type = type, p_subtype = subtype, p_label = cstr 16 label,
                           p_encrypted = (if c = 0 then is_partition_encrypted s2 False type subtype else False),
                           p_readonly = False \<rparr>
                 in case overlap_scan c offset len (part_list s2) of
                      None \<Rightarrow> None
                    | Some True \<Rightarrow> Some ((ESP_ERR_INVALID_ARG, None), s2)
                    | Some False \<Rightarrow>
                        Some ((ESP_OK, Some p), s2\<lparr> part_list := part_list s2 @ [\<lparr> item_info = p, user_registered = True \<rparr>] \<rparr>))"

fun deregister_scan :: "nat \<Rightarrow> partition_list_item_t list \<Rightarrow> esp_err \<times> partition_list_item_t list" where
  "deregister_scan ptr [] = (ESP_ERR_NOT_FOUND, [])"
| "deregister_scan ptr (it # its) =
     (if p_self (item_info it) = ptr then
        (if \<not> user_registered it then (ESP_ERR_INVALID_ARG, it # its) else (ESP_OK, its))
      else case deregister_scan ptr its of (e, its') \<Rightarrow> (e, it # its'))"

definition esp_partition_deregister_external :: "nat \<Rightarrow> pstate \<Rightarrow> esp_err \<times> pstate" where
  "esp_partition_deregister_external ptr s =
     (case deregister_scan ptr (part_list s) of (e, l) \<Rightarrow> (e, s\<lparr> part_list := l \<rparr>))"

section \<open>Access\<close>

text \<open>\<open>dram\<close> tells whether the caller's buffer can be used with the cache disabled.\<close>

definition esp_partition_mmap :: "esp_partition_t \<Rightarrow> nat \<Rightarrow> nat \<Rightarrow> pstate \<Rightarrow> (esp_err \<times> u8 list) \<times> pstate" where
  "esp_partition_mmap p offset len s =
     (if offset > p_size p then ((ESP_ERR_INVALID_ARG, []), s)
      else if len > p_size p - offset then ((ESP_ERR_INVALID_SIZE, []), s)
      else if p_flash_chip p \<noteq> 0 then ((ESP_ERR_NOT_SUPPORTED, []), s)
      else
        let phys_addr = add32 (p_address p) offset;
            region_offset = phys_addr mod SPI_FLASH_MMU_PAGE_SIZE;
            mmap_addr = phys_addr - region_offset
        in on_chip (p_flash_chip p)
             (\<lambda>f. case spi_flash_mmap f mmap_addr (add32 len region_offset) of (rc, bs, f1) \<Rightarrow>
                    ((rc, drop region_offset bs), f1)) s)"

definition esp_partition_read_raw :: "esp_partition_t \<Rightarrow> bool \<Rightarrow> nat \<Rightarrow> nat \<Rightarrow> pstate \<Rightarrow> (esp_err \<times> u8 list) \<times> pstate" where
  "esp_partition_read_raw p dram src_offset len s =
     (if src_offset > p_size p then ((ESP_ERR_INVALID_ARG, []), s)
      else if len > p_size p - src_offset then ((ESP_ERR_INVALID_SIZE, []), s)
      else on_chip (p_flash_chip p)
             (\<lambda>f. case esp_flash_read f dram (add32 (p_address p) src_offset) len of (e, bs, f1) \<Rightarrow> ((e, bs), f1)) s)"

definition esp_partition_read :: "config \<Rightarrow> esp_partition_t \<Rightarrow> bool \<Rightarrow> nat \<Rightarrow> nat \<Rightarrow> pstate \<Rightarrow> (esp_err \<times> u8 list) \<times> pstate" where
  "esp_partition_read cfg p dram src_offset len s =
     (if src_offset > p_size p then ((ESP_ERR_INVALID_ARG, []), s)
      else if len > p_size p - src_offset then ((ESP_ERR_INVALID_SIZE, []), s)
      else if \<not> p_encrypted p then
        on_chip (p_flash_chip p)
          (\<lambda>f. case esp_flash_read f dram (add32 (p_address p) src_offset) len of (e, bs, f1) \<Rightarrow> ((e, bs), f1)) s
      else if \<not> encrypted_rw cfg then ((ESP_ERR_NOT_SUPPORTED, []), s)
      else if p_flash_chip p \<noteq> 0 then ((ESP_ERR_NOT_SUPPORTED, []), s)
      else case esp_partition_mmap p src_offset len s of ((e, buf), s1) \<Rightarrow>
        if e \<noteq> ESP_OK then ((e, []), s1) else ((ESP_OK, take len buf), s1))"

definition esp_partition_write_raw :: "esp_partition_t \<Rightarrow> bool \<Rightarrow> nat \<Rightarrow> u8 list \<Rightarrow> pstate \<Rightarrow> esp_err \<times> pstate" where
  "esp_partition_write_raw p dram dst_offset src s =
     (if p_readonly p then (ESP_ERR_NOT_ALLOWED, s)
      else if dst_offset > p_size p then (ESP_ERR_INVALID_ARG, s)
      else if length src > p_size p - dst_offset then (ESP_ERR_INVALID_SIZE, s)
      else on_chip (p_flash_chip p) (\<lambda>f. esp_flash_write f dram src (add32 (p_address p) dst_offset)) s)"

definition esp_partition_write :: "config \<Rightarrow> esp_partition_t \<Rightarrow> bool \<Rightarrow> nat \<Rightarrow> u8 list \<Rightarrow> pstate \<Rightarrow> esp_err \<times> pstate" where
  "esp_partition_write cfg p dram dst_offset src s =
     (if p_readonly p then (ESP_ERR_NOT_ALLOWED, s)
      else if dst_offset > p_size p then (ESP_ERR_INVALID_ARG, s)
      else if length src > p_size p - dst_offset then (ESP_ERR_INVALID_SIZE, s)
      else
        let dst = add32 (p_address p) dst_offset in
        if \<not> p_encrypted p then on_chip (p_flash_chip p) (\<lambda>f. esp_flash_write f dram src dst) s
        else if \<not> encrypted_rw cfg then (ESP_ERR_NOT_SUPPORTED, s)
        else if p_flash_chip p \<noteq> 0 then (ESP_ERR_NOT_SUPPORTED, s)
        else on_chip (p_flash_chip p) (\<lambda>f. esp_flash_write_encrypted f dram dst src) s)"

definition esp_partition_erase_range :: "esp_partition_t \<Rightarrow> nat \<Rightarrow> nat \<Rightarrow> pstate \<Rightarrow> esp_err \<times> pstate" where
  "esp_partition_erase_range p offset len s =
     (if p_readonly p then (ESP_ERR_NOT_ALLOWED, s)
      else if offset > p_size p then (ESP_ERR_INVALID_ARG, s)
      else if len > p_size p - offset then (ESP_ERR_INVALID_SIZE, s)
      else if len mod SPI_FLASH_SEC_SIZE \<noteq> 0 then (ESP_ERR_INVALID_SIZE, s)
      else if offset mod SPI_FLASH_SEC_SIZE \<noteq> 0 then (ESP_ERR_INVALID_ARG, s)
      else on_chip (p_flash_chip p) (\<lambda>f. esp_flash_erase_region f (add32 (p_address p) offset) len) s)"

text \<open>The digest of a partition is computed by the bootloader support code: a parameter.\<close>

type_synonym sha_fn = "nat \<Rightarrow> nat \<Rightarrow> nat \<Rightarrow> pstate \<Rightarrow> (esp_err \<times> u8 list) \<times> pstate"

definition esp_partition_get_sha256 :: "sha_fn \<Rightarrow> esp_partition_t \<Rightarrow> pstate \<Rightarrow> (esp_err \<times> u8 list) \<times> pstate" where
  "esp_partition_get_sha256 sha p s = sha (p_address p) (p_size p) (p_type p) s"

definition esp_partition_check_identity :: "sha_fn \<Rightarrow> esp_partition_t \<Rightarrow> esp_partition_t \<Rightarrow> pstate \<Rightarrow> bool \<times> pstate" where
  "esp_partition_check_identity sha p1 p2 s =
     (case esp_partition_get_sha256 sha p1 s of ((e1, h1), s1) \<Rightarrow>
        if e1 \<noteq> ESP_OK then (False, s1)
        else case esp_partition_get_sha256 sha p2 s1 of ((e2, h2), s2) \<Rightarrow> (e2 = ESP_OK \<and> h1 = h2, s2))"

function writable_loop :: "nat \<Rightarrow> nat \<Rightarrow> esp_partition_iterator_opaque_t option \<Rightarrow> bool" where
  "writable_loop addr len None = True"
| "writable_loop addr len (Some it) =
     (case it_info it of
        None \<Rightarrow> True
      | Some p \<Rightarrow>
          if p_readonly p \<and> addr \<ge> p_address p \<and> addr < add32 (p_address p) (p_size p) then False
          else if p_readonly p \<and> addr < p_address p \<and> add32 addr len > p_address p then False
          else writable_loop addr len (esp_partition_next it))"
  by pat_completeness auto
termination
proof (relation "measure (\<lambda>(a, n, it). case it of None \<Rightarrow> 0 | Some i \<Rightarrow> Suc (length (it_next i)))", goal_cases)
  case (2 a n it p)
  then show ?case using next_shrinks [of it] by (auto split: option.splits)
qed simp

definition esp_partition_is_flash_region_writable :: "config \<Rightarrow> nat \<Rightarrow> nat \<Rightarrow> pstate \<Rightarrow> bool \<times> pstate" where
  "esp_partition_is_flash_region_writable cfg addr len s =
     (case esp_partition_find cfg TYPE_ANY SUBTYPE_ANY None s of (it, s1) \<Rightarrow> (writable_loop addr len it, s1))"

text \<open>\<open>running\<close> is the result of \<^verbatim>\<open>esp_ota_get_running_partition\<close>.\<close>

definition esp_partition_main_flash_region_safe :: "config \<Rightarrow> esp_partition_t \<Rightarrow> nat \<Rightarrow> nat \<Rightarrow> bool" where
  "esp_partition_main_flash_region_safe cfg running addr len =
     (if addr \<le> table_offset cfg + ESP_PARTITION_TABLE_MAX_LEN then False
      else if addr \<ge> p_address running \<and> addr < add32 (p_address running) (p_size running) then False
      else if addr < p_address running \<and> add32 addr len > p_address running then False
      else True)"

section \<open>Copying\<close>

text \<open>
  The copy loop: \<open>None\<close> if it never ends. The mapped source is in flash, so the write goes
  through the bounce buffer of the driver.
\<close>

definition get_free_pages :: "pstate \<Rightarrow> nat \<times> pstate" where
  "get_free_pages s = (case free_pages s of [] \<Rightarrow> (1, s) | n # ns \<Rightarrow> (n, s\<lparr> free_pages := ns \<rparr>))"

partial_function (option) copy_loop :: "config \<Rightarrow> esp_partition_t \<Rightarrow> esp_partition_t \<Rightarrow> nat \<Rightarrow> nat \<Rightarrow> nat \<Rightarrow> nat \<Rightarrow> nat \<Rightarrow> esp_err \<Rightarrow> pstate \<Rightarrow>
    (esp_err \<times> pstate) option" where
  "copy_loop cfg dest src dest_cur src_cur remaining pages attempts err s =
     (if remaining = 0 then Some (err, s)
      else
        let chunk = min remaining (mul32 pages SPI_FLASH_MMU_PAGE_SIZE) in
        case esp_partition_mmap src src_cur chunk s of ((e, data), s1) \<Rightarrow>
          if e = ESP_OK then
            (case esp_partition_write cfg dest False dest_cur (take chunk data) s1 of (e2, s2) \<Rightarrow>
               if e2 \<noteq> ESP_OK then Some (e2, s2)
               else copy_loop cfg dest src (add32 dest_cur chunk) (add32 src_cur chunk) (remaining - chunk) pages 0 e2 s2)
          else
            (case get_free_pages s1 of (pages', s2) \<Rightarrow>
               if Suc attempts \<ge> 3 then Some (e, s2)
               else copy_loop cfg dest src dest_cur src_cur remaining pages' (Suc attempts) e s2))"

definition esp_partition_copy :: "config \<Rightarrow> esp_partition_t option \<Rightarrow> nat \<Rightarrow> esp_partition_t option \<Rightarrow> nat \<Rightarrow> nat \<Rightarrow> pstate \<Rightarrow> (esp_err \<times> pstate) option" where
  "esp_partition_copy cfg dest_part dest_offset src_part src_offset size_arg s =
     (case (src_part, dest_part) of
        (Some src, Some dest) \<Rightarrow>
          if p_self src = p_self dest then Some (ESP_ERR_INVALID_ARG, s)
          else if src_offset > p_size src \<or> dest_offset > p_size dest then Some (ESP_ERR_INVALID_SIZE, s)
          else if p_flash_chip src \<noteq> 0 then Some (ESP_ERR_NOT_SUPPORTED, s)
          else
            let n = (if size_arg = SIZE_MAX then p_size src - src_offset else size_arg);
                dest_erase_size = (if size_arg = SIZE_MAX then p_size dest - dest_offset else size_arg)
            in if (src_offset + n \<ge> 2 ^ 32 \<or> src_offset + n > p_size src) \<or> (dest_offset + n \<ge> 2 ^ 32 \<or> dest_offset + n > p_size dest)
               then Some (ESP_ERR_INVALID_SIZE, s)
               else case esp_partition_erase_range dest dest_offset (align_up SPI_FLASH_SEC_SIZE dest_erase_size) s of (e, s1) \<Rightarrow>
                 if e \<noteq> ESP_OK then Some (e, s1)
                 else case get_free_pages s1 of (pages, s2) \<Rightarrow>
                   copy_loop cfg dest src dest_offset src_offset n pages 0 e s2
      | _ \<Rightarrow> Some (ESP_ERR_INVALID_ARG, s))"

end
