(* ===== verification/Nor_Store.thy ===== *)
theory Nor_Store
  imports Prelude
begin

text \<open>
  The interface between the flash layers and their clients: a store of bytes that is erased in
  ranges and written only where it is blank. The flash driver provides it for plain and for
  encrypted access, the partition API provides it again on top of either, and the code that
  keeps data in partitions relies on nothing else.

  A client names cells by offsets; \<open>contents\<close> and \<open>blank\<close> are indexed by absolute addresses,
  which start at \<open>base\<close> for this client, so that the laws also say what happens to everyone
  else's cells. Only successful operations are described: a failing one may leave its range
  in any state.
\<close>

text \<open>Writing consecutive pieces, stopping at the first error.\<close>

fun write_chunks :: "(nat \<Rightarrow> u8 list \<Rightarrow> 's \<Rightarrow> esp_err \<times> 's) \<Rightarrow> nat \<Rightarrow> u8 list list \<Rightarrow> 's \<Rightarrow> esp_err \<times> 's" where
  "write_chunks wr off [] s = (ESP_OK, s)"
| "write_chunks wr off (b # bs) s =
     (case wr off b s of (e, s1) \<Rightarrow> if e \<noteq> ESP_OK then (e, s1) else write_chunks wr (off + length b) bs s1)"

locale nor_store =
  fixes inv :: "'s \<Rightarrow> bool"
    and base :: nat
    and contents :: "'s \<Rightarrow> nat \<Rightarrow> u8"
    and blank :: "'s \<Rightarrow> nat \<Rightarrow> bool"
    and er :: "nat \<Rightarrow> nat \<Rightarrow> 's \<Rightarrow> esp_err \<times> 's"
    and wr :: "nat \<Rightarrow> u8 list \<Rightarrow> 's \<Rightarrow> esp_err \<times> 's"
    and rd :: "nat \<Rightarrow> nat \<Rightarrow> 's \<Rightarrow> (esp_err \<times> u8 list) \<times> 's"
  assumes er_inv: "inv s \<Longrightarrow> er off n s = (ESP_OK, s') \<Longrightarrow> inv s'"
    and er_blank: "inv s \<Longrightarrow> er off n s = (ESP_OK, s') \<Longrightarrow> base + off \<le> a \<Longrightarrow> a < base + off + n \<Longrightarrow> blank s' a"
    and er_frame: "inv s \<Longrightarrow> er off n s = (ESP_OK, s') \<Longrightarrow> a < base + off \<or> base + off + n \<le> a \<Longrightarrow>
      contents s' a = contents s a \<and> (blank s' a = blank s a)"
    and wr_inv: "inv s \<Longrightarrow> wr off bs s = (ESP_OK, s') \<Longrightarrow> inv s'"
    and wr_contents: "inv s \<Longrightarrow> wr off bs s = (ESP_OK, s') \<Longrightarrow>
      (\<And>a. base + off \<le> a \<Longrightarrow> a < base + off + length bs \<Longrightarrow> blank s a) \<Longrightarrow>
      i < length bs \<Longrightarrow> contents s' (base + off + i) = bs ! i"
    and wr_frame: "inv s \<Longrightarrow> wr off bs s = (ESP_OK, s') \<Longrightarrow> a < base + off \<or> base + off + length bs \<le> a \<Longrightarrow>
      contents s' a = contents s a \<and> (blank s' a = blank s a)"
    and rd_inv: "inv s \<Longrightarrow> rd off n s = ((e, bs), s') \<Longrightarrow> inv s'"
    and rd_frame: "inv s \<Longrightarrow> rd off n s = ((e, bs), s') \<Longrightarrow> contents s' = contents s \<and> blank s' = blank s"
    and rd_contents: "inv s \<Longrightarrow> rd off n s = ((ESP_OK, bs), s') \<Longrightarrow> base + off + n < 2 ^ 32 \<Longrightarrow>
      bs = map (contents s) [base + off..<base + off + n]"
begin

text \<open>Consecutive writes into a blank range are one write of the concatenation.\<close>

lemma write_chunks_ok:
  assumes "inv s" and "write_chunks wr off bss s = (ESP_OK, s')"
    and "\<And>a. base + off \<le> a \<Longrightarrow> a < base + off + length (concat bss) \<Longrightarrow> blank s a"
  shows "inv s' \<and> (\<forall>i < length (concat bss). contents s' (base + off + i) = concat bss ! i)
    \<and> (\<forall>a. a < base + off \<or> base + off + length (concat bss) \<le> a \<longrightarrow>
          contents s' a = contents s a \<and> (blank s' a = blank s a))"
  using assms
proof (induction bss arbitrary: off s)
  case Nil
  then show ?case by simp
next
  case (Cons b bss)
  let ?n = "length (concat bss)"
  obtain s1 where w: "wr off b s = (ESP_OK, s1)" and r: "write_chunks wr (off + length b) bss s1 = (ESP_OK, s')"
    using Cons.prems(2) by (auto split: prod.splits if_splits)
  have i1: "inv s1" by (rule wr_inv [OF Cons.prems(1) w])
  have f1: "contents s1 a = contents s a \<and> (blank s1 a = blank s a)"
    if "a < base + off \<or> base + off + length b \<le> a" for a using wr_frame [OF Cons.prems(1) w that] .
  have bl: "blank s1 a" if "base + (off + length b) \<le> a" "a < base + (off + length b) + ?n" for a
    using f1 [of a] Cons.prems(3) [of a] that by simp
  note IH = Cons.IH [OF i1 r bl]
  have c1: "contents s1 (base + off + i) = b ! i" if "i < length b" for i
    using wr_contents [OF Cons.prems(1) w _ that] Cons.prems(3) by simp
  have "contents s' (base + off + i) = concat (b # bss) ! i" if "i < length (concat (b # bss))" for i
  proof (cases "i < length b")
    case True
    then show ?thesis using IH c1 [OF True] by (simp add: nth_append)
  next
    case False
    then have "i - length b < ?n" using that by auto
    then have "contents s' (base + (off + length b) + (i - length b)) = concat bss ! (i - length b)"
      using IH by blast
    moreover have "base + (off + length b) + (i - length b) = base + off + i" using False by simp
    ultimately show ?thesis using False by (simp add: nth_append)
  qed
  moreover have "contents s' a = contents s a \<and> (blank s' a = blank s a)"
    if "a < base + off \<or> base + off + length (concat (b # bss)) \<le> a" for a
    using IH f1 [of a] that by auto
  ultimately show ?case using IH by blast
qed

lemma rd_chunk:
  assumes "inv s" and "rd off (length bs) s = ((ESP_OK, cs), s')" and "base + off + length bs < 2 ^ 32"
    and "\<And>i. i < length bs \<Longrightarrow> contents s (base + off + i) = bs ! i"
  shows "cs = bs"
  using rd_contents [OF assms(1-3)] assms(4) by (intro nth_equalityI) (auto simp: add.assoc)

text \<open>Erase a range, write pieces into it one after the other, read them back.\<close>

lemma store_and_load:
  assumes "inv s" and "er off n s = (ESP_OK, s1)" and "write_chunks wr o2 bss s1 = (ESP_OK, s2)"
    and "off \<le> o2" and "o2 + length (concat bss) \<le> off + n" and "base + off + n < 2 ^ 32"
    and "rd o2 (length (concat bss)) s2 = ((ESP_OK, cs), s3)"
  shows "cs = concat bss \<and> inv s3 \<and> (\<forall>a. a < base + off \<or> base + off + n \<le> a \<longrightarrow> contents s3 a = contents s a)"
proof -
  have i1: "inv s1" by (rule er_inv [OF assms(1,2)])
  have bl: "blank s1 a" if "base + o2 \<le> a" "a < base + o2 + length (concat bss)" for a
    using er_blank [OF assms(1,2)] that assms(4,5) by simp
  note w = write_chunks_ok [OF i1 assms(3) bl]
  have i2: "inv s2" using w by blast
  have fr: "contents s3 = contents s2" "inv s3"
    using rd_frame [OF i2 assms(7)] rd_inv [OF i2 assms(7)] by auto
  have "cs = concat bss"
    by (rule rd_chunk [OF i2 assms(7)]) (use w assms(4-6) in auto)
  moreover have "contents s3 a = contents s a" if "a < base + off \<or> base + off + n \<le> a" for a
    using er_frame [OF assms(1,2) that] w that assms(4,5) fr by auto
  ultimately show ?thesis using fr by blast
qed

text \<open>Replacing the beginning of an erased range by one record.\<close>

lemma replace_record:
  assumes "inv s" and "er off n s = (ESP_OK, s1)" and "wr off bs s1 = (ESP_OK, s2)" and "length bs \<le> n"
  shows "inv s2" and "\<And>i. i < length bs \<Longrightarrow> contents s2 (base + off + i) = bs ! i"
    and "\<And>a. a < base + off \<or> base + off + n \<le> a \<Longrightarrow> contents s2 a = contents s a"
proof -
  have i1: "inv s1" by (rule er_inv [OF assms(1,2)])
  show "inv s2" by (rule wr_inv [OF i1 assms(3)])
  show "contents s2 (base + off + i) = bs ! i" if "i < length bs" for i
    using wr_contents [OF i1 assms(3) _ that] er_blank [OF assms(1,2)] assms(4) by simp
  show "contents s2 a = contents s a" if "a < base + off \<or> base + off + n \<le> a" for a
    using er_frame [OF assms(1,2) that] wr_frame [OF i1 assms(3), of a] that assms(4) by auto
qed

end

end
