(* ===== verification/Flash_Store.thy ===== *)
theory Flash_Store
  imports Esp_Flash_Correct Nor_Store
begin

text \<open>
  The flash driver provides the store interface twice: with plain access, where the contents
  are the cells, and with encrypted access, where they are what the cache mapping shows.
\<close>

section \<open>Facts about any outcome\<close>

lemma read_loop_later: "read_loop f c a n = (e, bs, f') \<Longrightarrow> later f (flash_mem f) f'"
proof (induction n arbitrary: f a bs e f' rule: less_induct)
  case (less n)
  obtain e1 f1 where d1: "drv_status f = (e1, f1)" by (rule prod.exhaust)
  obtain e2 f2 where d2: "drv_status f1 = (e2, f2)" by (rule prod.exhaust)
  obtain e3 f3 where d3: "drv_status f2 = (e3, f3)" by (rule prod.exhaust)
  obtain e4 bs4 f4 where r: "read_loop f3 c (a + min c n) (n - min c n) = (e4, bs4, f4)" using prod_cases3 by blast
  note l1 = later_status [OF d1]
  note l2 = later_step [OF l1 d2]
  note l3 = later_step [OF l2 d3]
  have l4: "later f (flash_mem f) f4" if "\<not> n \<le> min c n" "min c n \<noteq> 0"
    using less.IH [OF _ r] that l3 later_trans [OF l3] by (auto simp: later_def)
  show ?case
    using less.prems d1 d2 d3 r l1 l2 l3 l4 unfolding read_loop.simps [of f c a n] Let_def
    by (auto split: if_splits)
qed

lemma read_later:
  assumes "esp_flash_read f d a n = (e, bs, f')"
  shows "later f (flash_mem f) f'"
  using assms read_loop_later [of f _ a n e bs f']
  by (auto simp: esp_flash_read_def split: if_splits option.splits)

lemma later_view: "later f (flash_mem f) f' \<Longrightarrow> flash_view f' = flash_view f"
  by (rule ext, rule view_cong) (auto simp: later_def)

lemma erase_region_aligned:
  assumes "esp_flash_erase_region f a n = (ESP_OK, f')"
  shows "sector_size f dvd a" and "sector_size f dvd n"
proof -
  have "check_write_address f a n = None"
    using assms by (auto simp: esp_flash_erase_region_def check_write_address_def Let_def split: if_splits option.splits)
  then show "sector_size f dvd a" and "sector_size f dvd n"
    using assms by (auto simp: esp_flash_erase_region_def dvd_eq_mod_eq_0 split: if_splits)
qed

section \<open>The two interpretations\<close>

definition flash_ok :: "flash \<Rightarrow> bool" where
  "flash_ok f \<longleftrightarrow> (\<forall>k actual. temp_buffer f k = Some actual \<longrightarrow> 0 < actual)"

definition xts_ok :: "flash \<Rightarrow> bool" where
  "xts_ok f \<longleftrightarrow> cipher_ok f \<and> enc_enabled f \<and> 16 dvd sector_size f"

definition flash_erased :: "flash \<Rightarrow> nat \<Rightarrow> bool" where
  "flash_erased f a \<longleftrightarrow> flash_mem f a = 0xFF"

lemma later_ok: "later f m f' \<Longrightarrow> flash_ok f' = flash_ok f \<and> xts_ok f' = xts_ok f"
  using chip_cfg_sel [of f' f] by (simp add: later_def flash_ok_def xts_ok_def cipher_ok_def)

definition flash_rd :: "bool \<Rightarrow> nat \<Rightarrow> nat \<Rightarrow> flash \<Rightarrow> (esp_err \<times> u8 list) \<times> flash" where
  "flash_rd d a n f = (case esp_flash_read f d a n of (e, bs, f1) \<Rightarrow> ((e, bs), f1))"

definition flash_rd_enc :: "nat \<Rightarrow> nat \<Rightarrow> flash \<Rightarrow> (esp_err \<times> u8 list) \<times> flash" where
  "flash_rd_enc a n f = (case esp_flash_read_encrypted f a n of (e, bs, f1) \<Rightarrow> ((e, bs), f1))"

interpretation plain: nor_store flash_ok 0 flash_mem flash_erased
  "\<lambda>a n f. esp_flash_erase_region f a n" "\<lambda>a bs f. esp_flash_write f dw bs a" "flash_rd dr" for dw dr
proof unfold_locales
  fix s s' off n assume e: "esp_flash_erase_region s off n = (ESP_OK, s')"
  note l = erase_region_ok [OF e]
  show "flash_ok s'" if "flash_ok s" using later_ok [OF l] that by simp
  show "flash_erased s' a" if "0 + off \<le> a" "a < 0 + off + n" for a
    using l that by (simp add: later_def flash_erased_def erase_mem_def)
  show "flash_mem s' a = flash_mem s a \<and> flash_erased s' a = flash_erased s a" if "a < 0 + off \<or> 0 + off + n \<le> a" for a
    using l that by (auto simp: later_def flash_erased_def mem_op_outside)
next
  fix s s' off bs assume w: "esp_flash_write s dw bs off = (ESP_OK, s')"
  note l = write_ok(1) [OF w]
  show "flash_ok s'" if "flash_ok s" using later_ok [OF l] that by simp
  show "flash_mem s' (0 + off + i) = bs ! i"
    if "\<And>a. 0 + off \<le> a \<Longrightarrow> a < 0 + off + length bs \<Longrightarrow> flash_erased s a" "i < length bs" for i
    using l program_erased [of "flash_mem s" off bs] that by (auto simp: later_def flash_erased_def erased_def wr_bytes_def)
  show "flash_mem s' a = flash_mem s a \<and> flash_erased s' a = flash_erased s a"
    if "a < 0 + off \<or> 0 + off + length bs \<le> a" for a
    using l that by (auto simp: later_def flash_erased_def mem_op_outside)
next
  fix s s' off n e bs assume "flash_rd dr off n s = ((e, bs), s')"
  then have r: "esp_flash_read s dr off n = (e, bs, s')" by (auto simp: flash_rd_def split: prod.splits)
  note l = read_later [OF r]
  show "flash_ok s'" if "flash_ok s" using later_ok [OF l] that by simp
  show "flash_mem s' = flash_mem s \<and> flash_erased s' = flash_erased s" using l by (auto simp: later_def flash_erased_def)
next
  fix s s' off n bs assume "flash_ok s" "flash_rd dr off n s = ((ESP_OK, bs), s')" "0 + off + n < 2 ^ 32"
  then show "bs = map (flash_mem s) [0 + off..<0 + off + n]"
    using read_ok(1) [of s dr off n bs s'] by (auto simp: flash_rd_def flash_ok_def rd_bytes_def split: prod.splits)
qed

interpretation xts: nor_store xts_ok 0 flash_view flash_erased
  "\<lambda>a n f. esp_flash_erase_region f a n" "\<lambda>a bs f. esp_flash_write_encrypted f dw a bs" flash_rd_enc for dw
proof unfold_locales
  fix s s' off n assume ok: "xts_ok s" and e: "esp_flash_erase_region s off n = (ESP_OK, s')"
  note l = erase_region_ok [OF e]
  show "xts_ok s'" using later_ok [OF l] ok by simp
  show "flash_erased s' a" if "0 + off \<le> a" "a < 0 + off + n" for a
    using l that by (simp add: later_def flash_erased_def erase_mem_def)
  have sec: "16 dvd sector_size s" using ok by (simp add: xts_ok_def)
  have "16 dvd off" "16 dvd n"
    using dvd_trans [OF sec erase_region_aligned(1) [OF e]] dvd_trans [OF sec erase_region_aligned(2) [OF e]] by auto
  then have al: "off mod 16 = 0" "n mod 16 = 0" by simp_all
  show "flash_view s' a = flash_view s a \<and> flash_erased s' a = flash_erased s a" if "a < 0 + off \<or> 0 + off + n \<le> a" for a
    using l that view_outside [of off n s' s a] al by (auto simp: later_def flash_erased_def mem_op_outside)
next
  fix s s' off bs assume ok: "xts_ok s" and w: "esp_flash_write_encrypted s dw off bs = (ESP_OK, s')"
  have c: "cipher_ok s" "enc_enabled s" using ok by (auto simp: xts_ok_def)
  note e = write_encrypted_ok [OF w c(1)]
  show "xts_ok s'" using later_ok [OF e(1)] ok by simp
  show "flash_view s' (0 + off + i) = bs ! i"
    if "\<And>a. 0 + off \<le> a \<Longrightarrow> a < 0 + off + length bs \<Longrightarrow> flash_erased s a" "i < length bs" for i
  proof -
    have "rd_bytes (flash_view s') off (length bs) = bs"
      using view_encrypted [OF c e(2,3) _ e(1)] that by (auto simp: erased_def flash_erased_def)
    then show ?thesis using nth_map_upt [of i "off + length bs" off "flash_view s'"] that(2) by (simp add: rd_bytes_def)
  qed
  have len: "length (xts_cipher (xts_enc s) off bs) = length bs"
    using xts_cipher_length [of "xts_enc s"] c(1) e(3) by (auto simp: cipher_ok_def)
  show "flash_view s' a = flash_view s a \<and> flash_erased s' a = flash_erased s a"
    if "a < 0 + off \<or> 0 + off + length bs \<le> a" for a
    using e that view_outside [of off "length bs" s' s a] len
    by (auto simp: later_def flash_erased_def mem_op_outside dvd_eq_mod_eq_0)
next
  fix s s' off n e bs assume "flash_rd_enc off n s = ((e, bs), s')"
  then have r: "esp_flash_read_encrypted s off n = (e, bs, s')" by (auto simp: flash_rd_enc_def split: prod.splits)
  note l = read_encrypted_later [OF r]
  show "xts_ok s'" if "xts_ok s" using later_ok [OF l] that by simp
  show "flash_view s' = flash_view s \<and> flash_erased s' = flash_erased s"
    using l later_view [OF l] by (auto simp: later_def flash_erased_def)
next
  fix s s' off n bs assume "flash_rd_enc off n s = ((ESP_OK, bs), s')"
  then show "bs = map (flash_view s) [0 + off..<0 + off + n]"
    using read_encrypted_ok(1) [of s off n bs s'] by (auto simp: flash_rd_enc_def rd_bytes_def split: prod.splits)
qed

section \<open>Failing operations, continued\<close>

lemma write_within_range:
  assumes "esp_flash_write f direct bs a = (e, f')" and "confined A B f" and "A \<le> a" and "a + length bs \<le> B"
  shows "within A B f f'"
proof -
  obtain e1 f1 x where w: "write_loop f direct a bs = (e1, f1, x)" using prod_cases3 by blast
  have "within A B f f1" using write_loop_within [OF w assms(2-4)] by simp
  moreover have "within A B f1 (snd (finish_write (e1, f1, x)))"
    by (auto simp: finish_write_def split: option.splits prod.splits intro: within_flush)
  ultimately have "within A B f (snd (finish_write (write_loop f direct a bs)))"
    unfolding w by (rule within_trans)
  then show ?thesis
    using assms(1) by (auto simp: esp_flash_write_def split: option.splits if_splits)
qed

lemma erase_region_within:
  assumes "esp_flash_erase_region f a n = (e, f')" and "confined A B f" and "A \<le> a" and "a + n \<le> B"
  shows "within A B f f'"
proof (cases "check_write_address f a n = None \<and> sector_size f \<noteq> 0 \<and> block_erase_size f mod sector_size f = 0
    \<and> \<not> (a > chip_size f \<or> n > chip_size f - a) \<and> a mod sector_size f = 0 \<and> n mod sector_size f = 0 \<and> n \<noteq> 0")
  case False
  then have "f' = f" using assms(1) by (auto simp: esp_flash_erase_region_def split: option.splits if_splits)
  then show ?thesis by simp
next
  case True
  obtain e1 f1 where d1: "drv_status f = (e1, f1)" by (rule prod.exhaust)
  obtain e2 f2 where d2: "drv_status f1 = (e2, f2)" by (rule prod.exhaust)
  obtain e3 f3 where d3: "drv_status f2 = (e3, f3)" by (rule prod.exhaust)
  note w1 = within_status [OF d1, of A B]
  note w2 = within_trans [OF w1 within_status [OF d2]]
  note w3 = within_trans [OF w2 within_status [OF d3]]
  obtain ep g where pre: "(if protectable_regions f = [] then (ESP_OK, f)
      else case drv_status f of (e1, f1) \<Rightarrow>
        if e1 \<noteq> ESP_OK then (e1, f1)
        else case drv_status f1 of (e2, f2) \<Rightarrow>
          let e3 = (if e2 = ESP_OK \<and> (\<exists>((off, len), p) \<in> set (protectable_regions f). p \<and> regions_overlap a n off len)
                    then ESP_ERR_FLASH_PROTECTED else e2)
          in case drv_status f2 of (end_err, f3) \<Rightarrow> (if e3 = ESP_OK then end_err else e3, f3)) = (ep, g)"
    by (rule prod.exhaust)
  have "g \<in> {f, f1, f3}" using pre by (auto simp: d1 d2 d3 Let_def split: if_splits)
  then have g: "within A B f g" using w1 w3 by auto
  obtain el fl x where l: "erase_loop g a n = (el, fl, x)" using prod_cases3 by blast
  have cfg: "sector_size g = sector_size f" "block_erase_size g = block_erase_size f"
    using g chip_cfg_sel [of g f] by (auto simp: within_def)
  have "within A B g fl"
    using True cfg by (intro erase_loop_within [OF l confined_mono [OF assms(2) g] assms(3,4)]) auto
  then have wl: "within A B f fl" using g within_trans by blast
  have fl: "within A B f (snd (flash_end_flush_cache fl el bus))" for bus
    using wl within_flush [of fl el bus] within_trans by (metis prod.collapse)
  have r: "(if ep \<noteq> ESP_OK then (ep, g) else case x of None \<Rightarrow> (el, fl) | Some bus \<Rightarrow> flash_end_flush_cache fl el bus) = (e, f')"
    using assms(1) True pre l unfolding esp_flash_erase_region_def by (simp split: option.splits if_splits)
  show ?thesis
  proof (cases "ep = ESP_OK")
    case False
    then show ?thesis using r g by simp
  next
    case True
    then show ?thesis using r wl fl by (cases x) (auto, metis snd_conv)
  qed
qed

lemma xts_cipher_length_le: "(\<And>a b. length b = 16 \<Longrightarrow> length (enc a b) = 16) \<Longrightarrow> length (xts_cipher enc a bs) \<le> length bs"
proof (induction "length bs" arbitrary: a bs rule: less_induct)
  case less
  show ?case
  proof (cases "length bs < 16")
    case False
    then have "length (drop 16 bs) < length bs" by simp
    from less.hyps [OF this less.prems] have "length (xts_cipher enc (a + 16) (drop 16 bs)) \<le> length bs - 16" by simp
    then show ?thesis using False less.prems by (subst xts_cipher.simps) simp
  qed (subst xts_cipher.simps, simp)
qed

lemma enc_loop_within:
  assumes "enc_loop f lock a bs = (e, f')" and "confined A B f" and "A \<le> a" and "a + length bs \<le> B"
    and "\<And>a b. length b = 16 \<Longrightarrow> length (xts_enc f a b) = 16"
  shows "within A B f f'"
  using assms
proof (induction "length bs" arbitrary: f a bs rule: less_induct)
  case less
  define n where "n = enc_row_size f a (length bs)"
  define row where "row = take n bs"
  define ops where "ops = xts_cipher (xts_enc f) a row"
  have n: "0 < n" by (simp add: n_def enc_row_size_def)
  obtain e1 f1 where d1: "(if lock then (ESP_OK, f) else drv_status f) = (e1, f1)" by (rule prod.exhaust)
  obtain e2 f2 where d2: "drv_op (program_mem a ops) f1 = (e2, f2)" by (rule prod.exhaust)
  obtain e3 f3 where d3: "(if lock then (ESP_OK, f2) else drv_status f2) = (e3, f3)" by (rule prod.exhaust)
  obtain e4 f4 where d4: "(if lock then drv_status f3 else (ESP_OK, f3)) = (e4, f4)" by (rule prod.exhaust)
  obtain e5 f5 where d5: "s_verify_write f4 a row True = (e5, f5)" by (rule prod.exhaust)
  obtain e6 f6 where d6: "(if lock then drv_status f5 else (ESP_OK, f5)) = (e6, f6)" by (rule prod.exhaust)
  have step: "enc_loop f lock a bs = (if bs = [] then (ESP_OK, f) else if e1 \<noteq> ESP_OK then (e1, f1)
      else if e2 \<noteq> ESP_OK then (e2, f2) else if e3 \<noteq> ESP_OK then (e3, f3)
      else if verify_write f \<and> e4 \<noteq> ESP_OK then (e4, f4) else if verify_write f \<and> e5 \<noteq> ESP_OK then (e5, f5)
      else if verify_write f \<and> e6 \<noteq> ESP_OK then (e6, f6)
      else enc_loop (if verify_write f then f6 else f3) lock (a + n) (drop n bs))"
    unfolding enc_loop.simps [of f lock a bs] Let_def n_def [symmetric] row_def [symmetric] ops_def [symmetric]
    by (simp add: d1 d2 d3 d4 d5 d6)
  have st: "within A B g g'" if "(if lock then (ESP_OK, g) else drv_status g) = (x, g')
      \<or> (if lock then drv_status g else (ESP_OK, g)) = (x, g')" for g g' x
    using that within_status by (auto split: if_splits)
  have w1: "within A B f f1" using st d1 by blast
  have "length ops \<le> length row" unfolding ops_def by (rule xts_cipher_length_le) (rule less.prems(5))
  then have "a + length ops \<le> B" using less.prems(4) by (simp add: row_def)
  then have "within A B f1 f2"
    using less.prems(3) by (intro within_op [OF d2 confined_mono [OF less.prems(2) w1]] mem_op_outside(2)) auto
  then have w2: "within A B f f2" using w1 within_trans by blast
  then have w3: "within A B f f3" using st d3 within_trans by blast
  then have w4: "within A B f f4" using st d4 within_trans by blast
  have w5: "within A B f f5" using w4 within_later [OF verify_write_later [OF d5]] within_trans by blast
  have w6: "within A B f f6" using w5 st d6 within_trans by blast
  show ?case
  proof (cases "enc_loop f lock a bs = enc_loop (if verify_write f then f6 else f3) lock (a + n) (drop n bs) \<and> bs \<noteq> []")
    case False
    then have "f' \<in> {f, f1, f2, f3, f4, f5, f6}" using less.prems(1) unfolding step by (auto split: if_splits)
    then show ?thesis using w1 w2 w3 w4 w5 w6 by auto
  next
    case True
    define g where "g = (if verify_write f then f6 else f3)"
    have wg: "within A B f g" using w3 w6 by (simp add: g_def)
    have x: "xts_enc g = xts_enc f" using wg chip_cfg_sel [of g f] by (simp add: within_def)
    show ?thesis
    proof (cases "length bs \<le> n")
      case last: True
      then have "f' = g" using True less.prems(1) unfolding g_def [symmetric] by (simp add: enc_loop.simps [of g])
      then show ?thesis using wg by simp
    next
      case False
      have "within A B g f'"
        using True less.prems False n x unfolding g_def [symmetric]
        by (intro less.hyps [of "drop n bs" g "a + n"] confined_mono [OF less.prems(2) wg]) auto
      then show ?thesis using wg within_trans by blast
    qed
  qed
qed

lemma write_encrypted_within:
  assumes "esp_flash_write_encrypted f d a bs = (e, f')" and "confined A B f" and "A \<le> a" and "a + length bs \<le> B"
    and "\<And>a b. length b = 16 \<Longrightarrow> length (xts_enc f a b) = 16"
  shows "within A B f f'"
proof -
  obtain e0 f0 where d0: "(if d then drv_status f else (ESP_OK, f)) = (e0, f0)" by (rule prod.exhaust)
  obtain e1 f1 where d1: "enc_loop f0 d a bs = (e1, f1)" by (rule prod.exhaust)
  obtain e2 f2 where d2: "(if d then drv_status f1 else (ESP_OK, f1)) = (e2, f2)" by (rule prod.exhaust)
  have w0: "within A B f f0" using d0 within_status by (auto split: if_splits)
  have x: "xts_enc f0 = xts_enc f" using w0 chip_cfg_sel [of f0 f] by (simp add: within_def)
  have w1: "within A B f f1"
    using enc_loop_within [OF d1 confined_mono [OF assms(2) w0] assms(3,4)] assms(5) x w0 within_trans by metis
  have w2: "within A B f f2" using w1 d2 within_status within_trans by (auto split: if_splits)
  have rc: "within A B g (snd (restore_cache er g))" for er g
    using within_status within_flush within_trans unfolding restore_cache_def by (metis prod.collapse snd_conv)
  have fl: "within A B f2 (snd (flash_end_flush_cache f2 ESP_OK False))" using within_flush by (metis prod.collapse)
  have "f' \<in> {f, f0, snd (restore_cache e1 f1), snd (restore_cache e2 f2), snd (flash_end_flush_cache f2 ESP_OK False)}"
    using assms(1) unfolding esp_flash_write_encrypted_def
    by (auto simp: d0 d1 d2 split: option.splits if_splits)
  moreover note within_trans [OF w1 rc, of e1] within_trans [OF w2 rc, of e2] within_trans [OF w2 fl]
  ultimately show ?thesis using w0 by auto
qed

end
