(* ===== verification/Partition_Correct.thy ===== *)
theory Partition_Correct
  imports Partition Flash_Store
begin

text \<open>
  Correctness of the partition API: the access functions provide the store interface on every
  partition, searching enumerates the matching partitions, the list keeps registered
  partitions apart, access is confined to the partition, and copying copies.
\<close>

section \<open>Access functions provide the store interface\<close>

lemma on_chip_eq:
  "on_chip c op s = (r, s') \<longleftrightarrow> (\<exists>f. op (chips s c) = (r, f) \<and> s' = s\<lparr> chips := (chips s)(c := f) \<rparr>)"
  by (auto simp: on_chip_def split: prod.splits)

definition part_view :: "esp_partition_t \<Rightarrow> pstate \<Rightarrow> memory" where
  "part_view p s = (if p_encrypted p then flash_view (chips s (p_flash_chip p)) else flash_mem (chips s (p_flash_chip p)))"

definition part_blank :: "esp_partition_t \<Rightarrow> pstate \<Rightarrow> nat \<Rightarrow> bool" where
  "part_blank p s = flash_erased (chips s (p_flash_chip p))"

definition part_ok :: "esp_partition_t \<Rightarrow> pstate \<Rightarrow> bool" where
  "part_ok p s \<longleftrightarrow> p_address p + p_size p < 2 ^ 32
     \<and> (if p_encrypted p then xts_ok (chips s (p_flash_chip p)) else flash_ok (chips s (p_flash_chip p)))"

lemma part_erase_ok:
  assumes "esp_partition_erase_range p off n s = (ESP_OK, s')" and "p_address p + p_size p < 2 ^ 32"
  shows "esp_flash_erase_region (chips s (p_flash_chip p)) (p_address p + off) n = (ESP_OK, chips s' (p_flash_chip p))"
    and "off + n \<le> p_size p" and "\<not> p_readonly p"
    and "s' = s\<lparr> chips := (chips s)(p_flash_chip p := chips s' (p_flash_chip p)) \<rparr>"
  using assms by (auto simp: esp_partition_erase_range_def on_chip_eq add32_exact split: if_splits)

lemma part_write_ok:
  assumes "esp_partition_write cfg p d off bs s = (ESP_OK, s')" and "p_address p + p_size p < 2 ^ 32"
  shows "if p_encrypted p
     then esp_flash_write_encrypted (chips s (p_flash_chip p)) d (p_address p + off) bs = (ESP_OK, chips s' (p_flash_chip p))
     else esp_flash_write (chips s (p_flash_chip p)) d bs (p_address p + off) = (ESP_OK, chips s' (p_flash_chip p))"
    and "off + length bs \<le> p_size p" and "\<not> p_readonly p"
    and "s' = s\<lparr> chips := (chips s)(p_flash_chip p := chips s' (p_flash_chip p)) \<rparr>"
  using assms by (auto simp: esp_partition_write_def on_chip_eq add32_exact Let_def split: if_splits)

lemma part_mmap_later:
  assumes "esp_partition_mmap p off n s = ((e, bs), s')"
  shows "later (chips s (p_flash_chip p)) (flash_mem (chips s (p_flash_chip p))) (chips s' (p_flash_chip p))"
    and "s' = s\<lparr> chips := (chips s)(p_flash_chip p := chips s' (p_flash_chip p)) \<rparr>"
  using assms by (auto simp: esp_partition_mmap_def on_chip_eq Let_def dest: mmap_later split: if_splits prod.splits)

lemma part_mmap_ok:
  assumes "esp_partition_mmap p off n s = ((ESP_OK, bs), s')" and "p_address p + p_size p < 2 ^ 32"
  shows "take n bs = rd_bytes (flash_view (chips s (p_flash_chip p))) (p_address p + off) n"
    and "off + n \<le> p_size p" and "p_flash_chip p = 0"
proof -
  show b: "off + n \<le> p_size p" "p_flash_chip p = 0" using assms by (auto simp: esp_partition_mmap_def split: if_splits)
  define a where "a = p_address p + off"
  define r where "r = a mod SPI_FLASH_MMU_PAGE_SIZE"
  have r: "r \<le> a" by (simp add: r_def)
  have a: "add32 (p_address p) off = a" "add32 n r = n + r"
    using assms(2) b r by (auto simp: a_def intro!: add32_exact)
  obtain e f where d: "drv_status (chips s 0) = (e, f)" by (rule prod.exhaust)
  have v: "flash_view f = flash_view (chips s 0)" by (rule later_view [OF later_status [OF d]])
  have nb: "\<not> off > p_size p" "\<not> n > p_size p - off" using b by auto
  have "e = ESP_OK \<and> bs = drop r (rd_bytes (flash_view f) (a - r) (n + r))"
    using assms(1) b(2) nb d by (auto simp: esp_partition_mmap_def a r_def [symmetric] on_chip_eq spi_flash_mmap_def Let_def)
  then have "take n bs = take n (drop r (rd_bytes (flash_view f) (a - r) (n + r)))" by simp
  also have "\<dots> = rd_bytes (flash_view f) (a - r + r) n" by (rule rd_bytes_part) simp
  finally show "take n bs = rd_bytes (flash_view (chips s (p_flash_chip p))) (p_address p + off) n"
    using v b r by (simp add: a_def)
qed

lemma part_read_later:
  assumes "esp_partition_read cfg p d off n s = ((e, bs), s')"
  shows "later (chips s (p_flash_chip p)) (flash_mem (chips s (p_flash_chip p))) (chips s' (p_flash_chip p))"
    and "s' = s\<lparr> chips := (chips s)(p_flash_chip p := chips s' (p_flash_chip p)) \<rparr>"
  using assms
  by (auto simp: esp_partition_read_def on_chip_eq dest: read_later part_mmap_later split: if_splits prod.splits)

lemma part_read_ok:
  assumes "esp_partition_read cfg p d off n s = ((ESP_OK, bs), s')" and "part_ok p s"
  shows "bs = rd_bytes (part_view p s) (p_address p + off) n" and "off + n \<le> p_size p"
proof -
  have p: "p_address p + p_size p < 2 ^ 32" using assms(2) by (simp add: part_ok_def)
  show b: "off + n \<le> p_size p" using assms(1) by (auto simp: esp_partition_read_def split: if_splits)
  show "bs = rd_bytes (part_view p s) (p_address p + off) n"
  proof (cases "p_encrypted p")
    case True
    then obtain buf s1 where "esp_partition_mmap p off n s = ((ESP_OK, buf), s1)" "bs = take n buf"
      using assms(1) by (auto simp: esp_partition_read_def split: if_splits prod.splits)
    then show ?thesis using part_mmap_ok(1) p True by (simp add: part_view_def)
  next
    case False
    then have "esp_flash_read (chips s (p_flash_chip p)) d (p_address p + off) n = (ESP_OK, bs, chips s' (p_flash_chip p))"
      using assms p b by (auto simp: esp_partition_read_def on_chip_eq add32_exact split: if_splits prod.splits)
    then show ?thesis
      using read_ok(1) [of "chips s (p_flash_chip p)" d "p_address p + off" n] assms(2) b False
      by (auto simp: part_ok_def flash_ok_def part_view_def)
  qed
qed

interpretation part: nor_store "part_ok p" "p_address p" "part_view p" "part_blank p"
  "esp_partition_erase_range p" "esp_partition_write cfg p dw" "esp_partition_read cfg p dr" for p cfg dw dr
proof unfold_locales
  let ?c = "p_flash_chip p"
  fix s s' off n assume ok: "part_ok p s" and e: "esp_partition_erase_range p off n s = (ESP_OK, s')"
  have a: "p_address p + p_size p < 2 ^ 32" using ok by (simp add: part_ok_def)
  note f = part_erase_ok [OF e a]
  show "part_ok p s'"
    using ok plain.er_inv [OF _ f(1)] xts.er_inv [OF _ f(1)] by (auto simp: part_ok_def)
  show "part_blank p s' b" if "p_address p + off \<le> b" "b < p_address p + off + n" for b
    using erase_region_ok [OF f(1)] that by (simp add: part_blank_def later_def flash_erased_def erase_mem_def)
  show "part_view p s' b = part_view p s b \<and> part_blank p s' b = part_blank p s b"
    if "b < p_address p + off \<or> p_address p + off + n \<le> b" for b
    using ok that plain.er_frame [OF _ f(1), of b] xts.er_frame [OF _ f(1), of b]
    by (auto simp: part_ok_def part_view_def part_blank_def)
next
  fix s s' off bs assume ok: "part_ok p s" and w: "esp_partition_write cfg p dw off bs s = (ESP_OK, s')"
  have a: "p_address p + p_size p < 2 ^ 32" using ok by (simp add: part_ok_def)
  note f = part_write_ok [OF w a]
  show "part_ok p s'"
    using ok f(1) plain.wr_inv xts.wr_inv by (auto simp: part_ok_def split: if_splits)
  show "part_view p s' (p_address p + off + i) = bs ! i"
    if "\<And>b. p_address p + off \<le> b \<Longrightarrow> b < p_address p + off + length bs \<Longrightarrow> part_blank p s b" "i < length bs" for i
  proof (cases "p_encrypted p")
    case True
    then show ?thesis using xts.wr_contents [of "chips s (p_flash_chip p)" dw "p_address p + off" bs _ i] that ok f(1)
      by (simp add: part_ok_def part_view_def part_blank_def)
  next
    case False
    then show ?thesis using plain.wr_contents [of "chips s (p_flash_chip p)" dw bs "p_address p + off" _ i] that ok f(1)
      by (simp add: part_ok_def part_view_def part_blank_def)
  qed
  show "part_view p s' b = part_view p s b \<and> part_blank p s' b = part_blank p s b"
    if "b < p_address p + off \<or> p_address p + off + length bs \<le> b" for b
    using ok f(1) that plain.wr_frame [of "chips s (p_flash_chip p)" dw bs "p_address p + off" _ b]
      xts.wr_frame [of "chips s (p_flash_chip p)" dw "p_address p + off" bs _ b]
    by (auto simp: part_ok_def part_view_def part_blank_def)
next
  fix s s' off n e bs assume ok: "part_ok p s" and r: "esp_partition_read cfg p dr off n s = ((e, bs), s')"
  note l = part_read_later [OF r]
  show "part_ok p s'" using ok later_ok [OF l(1)] by (auto simp: part_ok_def)
  show "part_view p s' = part_view p s \<and> part_blank p s' = part_blank p s"
    using l(1) later_view [OF l(1)] by (auto simp: part_view_def part_blank_def later_def flash_erased_def)
next
  fix s s' off n bs assume ok: "part_ok p s" and r: "esp_partition_read cfg p dr off n s = ((ESP_OK, bs), s')"
  show "bs = map (part_view p s) [p_address p + off..<p_address p + off + n]"
    using part_read_ok(1) [OF r ok] by (simp add: rd_bytes_def)
qed

section \<open>Searching\<close>

definition part_matches :: "nat \<Rightarrow> nat \<Rightarrow> u8 list option \<Rightarrow> esp_partition_t \<Rightarrow> bool" where
  "part_matches type subtype label p \<longleftrightarrow> (type = TYPE_ANY \<or> p_type p = type)
     \<and> (subtype = SUBTYPE_ANY \<or> p_subtype p = subtype) \<and> (label = None \<or> label = Some (p_label p))"

definition it_pred :: "esp_partition_iterator_opaque_t \<Rightarrow> esp_partition_t \<Rightarrow> bool" where
  "it_pred it = part_matches (it_type it) (it_subtype it) (it_label it)"

lemma it_matches_eq: "it_matches it p = it_pred it p"
  by (auto simp: it_matches_def it_pred_def part_matches_def split: option.splits)

text \<open>The partitions an iterator visits, by repeated \<^verbatim>\<open>esp_partition_next\<close>.\<close>

function it_collect :: "esp_partition_iterator_opaque_t option \<Rightarrow> esp_partition_t list" where
  "it_collect None = []"
| "it_collect (Some it) = (case it_info it of None \<Rightarrow> [] | Some p \<Rightarrow> p # it_collect (esp_partition_next it))"
  by pat_completeness auto
termination
proof (relation "measure (\<lambda>it. case it of None \<Rightarrow> 0 | Some i \<Rightarrow> Suc (length (it_next i)))", goal_cases)
  case (2 it p)
  then show ?case using next_shrinks [of it] by (auto split: option.splits)
qed simp

lemma filter_dropWhile: "filter P xs = filter P (dropWhile (\<lambda>x. \<not> P x) xs)"
  by (induction xs) auto

lemma it_collect_next: "it_collect (esp_partition_next it) = filter (it_pred it) (map item_info (it_next it))"
proof (induction "length (it_next it)" arbitrary: it rule: less_induct)
  case less
  let ?D = "dropWhile (\<lambda>i. \<not> it_pred it (item_info i)) (it_next it)"
  have f: "filter (it_pred it) (map item_info (it_next it)) = map item_info (filter (\<lambda>i. it_pred it (item_info i)) ?D)"
    using filter_dropWhile [of "\<lambda>i. it_pred it (item_info i)" "it_next it"] by (simp add: filter_map comp_def)
  show ?case
  proof (cases ?D)
    case Nil
    then have "esp_partition_next it = None" unfolding esp_partition_next_def it_matches_eq Nil by simp
    then show ?thesis using f Nil by (simp del: dropWhile_eq_Nil_conv)
  next
    case (Cons i rest)
    have m: "it_pred it (item_info i)" using hd_dropWhile [of "\<lambda>i. \<not> it_pred it (item_info i)" "it_next it"] Cons by simp
    have n: "esp_partition_next it = Some (it\<lparr> it_info := Some (item_info i), it_next := rest \<rparr>)" (is "_ = Some ?it")
      unfolding esp_partition_next_def it_matches_eq Cons by simp
    have "it_collect (esp_partition_next ?it) = filter (it_pred ?it) (map item_info (it_next ?it))"
      using less [of ?it] next_shrinks [OF n] by simp
    then show ?thesis using f Cons m n by (simp add: it_pred_def filter_map comp_def)
  qed
qed

lemma next_info: "esp_partition_next it = Some it' \<Longrightarrow> \<exists>ps. it_collect (Some it') = the (it_info it') # ps \<and> it_info it' \<noteq> None"
  by (auto simp: esp_partition_next_def split: list.splits)

lemma find_loaded:
  assumes "part_list s \<noteq> []" and "allocs s = []"
  shows "esp_partition_find cfg t st l s =
    (if t = TYPE_ANY \<and> st \<noteq> SUBTYPE_ANY then (None, s)
     else (esp_partition_next \<lparr> it_type = t, it_subtype = st, it_label = l, it_next = part_list s, it_info = None \<rparr>,
           s\<lparr> heap_next := Suc (heap_next s) \<rparr>))"
  using assms by (simp add: esp_partition_find_def ensure_partitions_loaded_def iterator_create_def heap_alloc_def)

lemma find_collects:
  assumes "part_list s \<noteq> []" and "allocs s = []" and "\<not> (t = TYPE_ANY \<and> st \<noteq> SUBTYPE_ANY)"
  shows "it_collect (fst (esp_partition_find cfg t st l s)) = filter (part_matches t st l) (map item_info (part_list s))"
  using find_loaded [OF assms(1,2), of cfg t st l] assms(3)
    it_collect_next [of "\<lparr> it_type = t, it_subtype = st, it_label = l, it_next = part_list s, it_info = None \<rparr>"]
  by (auto simp: it_pred_def)

lemma find_first_hd:
  assumes "esp_partition_find cfg t st l s = (it, s1)" and "it = None \<or> (\<exists>it0. esp_partition_next it0 = it)"
  shows "fst (esp_partition_find_first cfg t st l s) = (case it_collect it of [] \<Rightarrow> None | p # _ \<Rightarrow> Some p)"
  using assms next_info by (cases it) (fastforce simp: esp_partition_find_first_def)+

text \<open>
  C33: with the table loaded and memory for the iterator, \<^verbatim>\<open>esp_partition_find\<close> followed by
  \<^verbatim>\<open>esp_partition_next\<close> until NULL visits exactly the partitions that match type, subtype and
  label (each optional), in table order, and stops; \<^verbatim>\<open>esp_partition_find_first\<close> returns the first
  of them; a subtype without a type finds nothing.
\<close>

theorem find_enumerates:
  assumes "part_list s \<noteq> []" and "allocs s = []"
  shows "let ms = (if t = TYPE_ANY \<and> st \<noteq> SUBTYPE_ANY then []
                   else filter (part_matches t st l) (map item_info (part_list s)))
         in it_collect (fst (esp_partition_find cfg t st l s)) = ms
            \<and> fst (esp_partition_find_first cfg t st l s) = (case ms of [] \<Rightarrow> None | p # _ \<Rightarrow> Some p)
            \<and> part_list (snd (esp_partition_find_first cfg t st l s)) = part_list s"
proof (cases "t = TYPE_ANY \<and> st \<noteq> SUBTYPE_ANY")
  case True
  then show ?thesis using find_loaded [OF assms, of cfg t st l] by (simp add: esp_partition_find_first_def)
next
  case False
  note f = find_loaded [OF assms, of cfg t st l, simplified if_not_P [OF False]]
  have "part_list (snd (esp_partition_find_first cfg t st l s)) = part_list s"
    using f by (simp add: esp_partition_find_first_def split: option.splits)
  then show ?thesis
    using find_collects [OF assms False, of cfg l] find_first_hd [OF f] False f by (auto simp: Let_def)
qed

definition same_region :: "esp_partition_t \<Rightarrow> esp_partition_t \<Rightarrow> bool" where
  "same_region q p \<longleftrightarrow> p_flash_chip p = p_flash_chip q \<and> p_address p = p_address q \<and> p_size q = p_size p \<and> p_encrypted q = p_encrypted p"

lemma verify_loop_find: "verify_loop q it = find (same_region q) (it_collect it)"
proof (induction q it rule: verify_loop.induct)
  case (2 q it)
  then show ?case by (cases "it_info it") (auto simp: same_region_def)
qed simp

text \<open>
  \<^verbatim>\<open>esp_partition_verify\<close> returns the first partition of the list with the type, the subtype
  and (when the caller's is not empty) the label of its argument that has the same chip,
  address, size and encryption; so it returns a list entry for every partition that is in
  the list, and NULL when no entry agrees.
\<close>

theorem partition_verify_finds:
  assumes "part_list s \<noteq> []" and "allocs s = []" and "p_type q \<noteq> TYPE_ANY"
  shows "fst (esp_partition_verify cfg q s) =
    find (\<lambda>p. p_type p = p_type q \<and> (p_subtype q = SUBTYPE_ANY \<or> p_subtype p = p_subtype q)
            \<and> (p_label q = [] \<or> p_label p = p_label q) \<and> same_region q p) (map item_info (part_list s))"
proof -
  have ff: "find P (filter Q xs) = find (\<lambda>x. Q x \<and> P x) xs" for P Q and xs :: "esp_partition_t list"
    by (induction xs) auto
  let ?l = "if p_label q \<noteq> [] then Some (p_label q) else None"
  have "it_collect (fst (esp_partition_find cfg (p_type q) (p_subtype q) ?l s)) =
      filter (part_matches (p_type q) (p_subtype q) ?l) (map item_info (part_list s))"
    using find_collects [OF assms(1,2), of "p_type q" "p_subtype q" cfg ?l] assms(3) by blast
  then have "fst (esp_partition_verify cfg q s) =
      find (\<lambda>p. part_matches (p_type q) (p_subtype q) ?l p \<and> same_region q p) (map item_info (part_list s))"
    by (auto simp: esp_partition_verify_def verify_loop_find ff Let_def split: prod.splits)
  also have "(\<lambda>p. part_matches (p_type q) (p_subtype q) ?l p \<and> same_region q p) =
      (\<lambda>p. p_type p = p_type q \<and> (p_subtype q = SUBTYPE_ANY \<or> p_subtype p = p_subtype q)
            \<and> (p_label q = [] \<or> p_label p = p_label q) \<and> same_region q p)"
    using assms(3) by (auto simp: part_matches_def intro!: ext)
  finally show ?thesis .
qed

section \<open>Access stays inside the partition\<close>

definition untouched_outside :: "esp_partition_t \<Rightarrow> pstate \<Rightarrow> pstate \<Rightarrow> bool" where
  "untouched_outside p s s' \<longleftrightarrow> part_list s' = part_list s \<and>
     (\<forall>c a. c \<noteq> p_flash_chip p \<or> a < p_address p \<or> p_address p + p_size p \<le> a \<longrightarrow>
        flash_mem (chips s' c) a = flash_mem (chips s c) a)"

lemma untouched_within:
  "p_flash_chip p = c \<Longrightarrow> within (p_address p) (p_address p + p_size p) (chips s c) f \<Longrightarrow>
   untouched_outside p s (s\<lparr> chips := (chips s)(c := f) \<rparr>)"
  by (auto simp: untouched_outside_def within_def)

lemma untouched_refl [simp]: "untouched_outside p s s"
  by (simp add: untouched_outside_def)

text \<open>
  C18: whatever a write (through encryption or raw) or an erase on a partition returns, it has
  changed no cell outside the partition and no other chip, provided the partition does not
  wrap and a failing driver call damages no cell outside of it; on a read-only partition it
  returns \<^verbatim>\<open>ESP_ERR_NOT_ALLOWED\<close> and changes nothing.
\<close>

theorem partition_access_confined:
  assumes "p_address p + p_size p < 2 ^ 32"
    and "\<forall>(err, damage) \<in> set (drv_results (chips s (p_flash_chip p))). \<forall>m a.
           a < p_address p \<or> p_address p + p_size p \<le> a \<longrightarrow> damage m a = m a"
    and "\<forall>a b. length b = 16 \<longrightarrow> length (xts_enc (chips s (p_flash_chip p)) a b) = 16"
    and "(e, s') \<in> {esp_partition_write cfg p dram off bs s, esp_partition_write_raw p dram off bs s, esp_partition_erase_range p off n s}"
  shows "untouched_outside p s s' \<and> (p_readonly p \<longrightarrow> e = ESP_ERR_NOT_ALLOWED \<and> s' = s)"
proof -
  let ?c = "p_flash_chip p" and ?A = "p_address p" and ?B = "p_address p + p_size p"
  have co: "confined ?A ?B (chips s c)" if "p_flash_chip p = c" for c using assms(2) that by (simp add: confined_def)
  have wr: "untouched_outside p s s'" if "esp_partition_write cfg p dram off bs s = (e, s')"
    using that assms(1,3)
    by (auto simp: esp_partition_write_def on_chip_eq add32_exact Let_def split: if_splits
        intro!: untouched_within intro: write_within_range [OF _ co [OF refl]] write_encrypted_within [OF _ co])
  have raw: "untouched_outside p s s'" if "esp_partition_write_raw p dram off bs s = (e, s')"
    using that assms(1)
    by (auto simp: esp_partition_write_raw_def on_chip_eq add32_exact split: if_splits
        intro!: untouched_within intro: write_within_range [OF _ co [OF refl]])
  have er: "untouched_outside p s s'" if "esp_partition_erase_range p off n s = (e, s')"
    using that assms(1)
    by (auto simp: esp_partition_erase_range_def on_chip_eq add32_exact split: if_splits
        intro!: untouched_within intro: erase_region_within [OF _ co [OF refl]])
  have "p_readonly p \<longrightarrow> e = ESP_ERR_NOT_ALLOWED \<and> s' = s"
    using assms(4) by (auto simp: esp_partition_write_def esp_partition_write_raw_def esp_partition_erase_range_def)
  then show ?thesis using assms(4) wr raw er by auto
qed

text \<open>
  C17: an image stored in a partition. If erasing a range of a partition, writing any number of
  consecutive pieces into it and reading the whole back all succeed, the bytes read are the
  concatenation of the pieces, and what the partition API shows outside the erased range has
  not changed. This holds for plain and for encrypted partitions.
\<close>

theorem partition_image_read_back:
  assumes "part_ok p s" and "esp_partition_erase_range p off n s = (ESP_OK, s1)"
    and "write_chunks (esp_partition_write cfg p dw) o2 pieces s1 = (ESP_OK, s2)"
    and "off \<le> o2" and "o2 + length (concat pieces) \<le> off + n"
    and "esp_partition_read cfg p dr o2 (length (concat pieces)) s2 = ((ESP_OK, bs), s3)"
  shows "bs = concat pieces \<and>
    (\<forall>a. a < p_address p + off \<or> p_address p + off + n \<le> a \<longrightarrow> part_view p s3 a = part_view p s a)"
proof -
  have "off + n \<le> p_size p" using part_erase_ok(2) [OF assms(2)] assms(1) by (simp add: part_ok_def)
  then have "p_address p + off + n < 2 ^ 32" using assms(1) by (simp add: part_ok_def)
  from part.store_and_load [OF assms(1-5) this assms(6)] show ?thesis by blast
qed

section \<open>Region checks\<close>

definition touches :: "nat \<Rightarrow> nat \<Rightarrow> esp_partition_t \<Rightarrow> bool" where
  "touches addr n p \<longleftrightarrow> (\<exists>a. addr \<le> a \<and> a < addr + n \<and> p_address p \<le> a \<and> a < p_address p + p_size p)"

lemma touches_eq:
  assumes "0 < n"
  shows "touches addr n p \<and> 0 < p_size p \<longleftrightarrow> (addr \<ge> p_address p \<and> addr < p_address p + p_size p) \<or> (addr < p_address p \<and> addr + n > p_address p \<and> 0 < p_size p)"
proof -
  have "touches addr n p" if "p_address p \<le> addr" "addr < p_address p + p_size p"
    unfolding touches_def using that assms by (intro exI [of _ addr]) simp
  moreover have "touches addr n p" if "addr < p_address p" "addr + n > p_address p" "0 < p_size p"
    unfolding touches_def using that by (intro exI [of _ "p_address p"]) simp
  ultimately show ?thesis by (auto simp: touches_def)
qed

lemma writable_loop_eq:
  "writable_loop addr n it \<longleftrightarrow> (\<forall>p \<in> set (it_collect it). p_readonly p \<longrightarrow>
     \<not> (addr \<ge> p_address p \<and> addr < add32 (p_address p) (p_size p)) \<and> \<not> (addr < p_address p \<and> add32 addr n > p_address p))"
proof (induction addr n it rule: writable_loop.induct)
  case (2 addr n it)
  then show ?case by (cases "it_info it") auto
qed simp

text \<open>
  \<^verbatim>\<open>esp_partition_is_flash_region_writable\<close> on a loaded list allows a non-empty region exactly
  when it shares no byte with a read-only partition (for regions and partitions that do not
  wrap; the partitions of all chips count).
\<close>

theorem region_writable_iff:
  assumes "part_list s \<noteq> []" and "allocs s = []" and "0 < n" and "addr + n < 2 ^ 32"
    and "\<forall>x \<in> set (part_list s). 0 < p_size (item_info x) \<and> p_address (item_info x) + p_size (item_info x) < 2 ^ 32"
  shows "fst (esp_partition_is_flash_region_writable cfg addr n s) \<longleftrightarrow>
    (\<forall>x \<in> set (part_list s). p_readonly (item_info x) \<longrightarrow> \<not> touches addr n (item_info x))"
proof -
  have all: "filter (part_matches TYPE_ANY SUBTYPE_ANY None) xs = xs" for xs
    by (rule filter_True) (simp add: part_matches_def)
  have "it_collect (fst (esp_partition_find cfg TYPE_ANY SUBTYPE_ANY None s)) = map item_info (part_list s)"
    using find_collects [OF assms(1,2), of TYPE_ANY SUBTYPE_ANY cfg None] by (simp add: all)
  then have "fst (esp_partition_is_flash_region_writable cfg addr n s) \<longleftrightarrow>
      (\<forall>x \<in> set (part_list s). p_readonly (item_info x) \<longrightarrow>
         \<not> (addr \<ge> p_address (item_info x) \<and> addr < add32 (p_address (item_info x)) (p_size (item_info x)))
         \<and> \<not> (addr < p_address (item_info x) \<and> add32 addr n > p_address (item_info x)))"
    by (auto simp: esp_partition_is_flash_region_writable_def writable_loop_eq split: prod.splits)
  also have "\<dots> \<longleftrightarrow> (\<forall>x \<in> set (part_list s). p_readonly (item_info x) \<longrightarrow> \<not> touches addr n (item_info x))"
  proof (rule ball_cong [OF refl])
    fix x assume "x \<in> set (part_list s)"
    then have "0 < p_size (item_info x)" "add32 (p_address (item_info x)) (p_size (item_info x)) = p_address (item_info x) + p_size (item_info x)"
      "add32 addr n = addr + n" using assms(4,5) by (simp_all add: add32_exact)
    then show "(p_readonly (item_info x) \<longrightarrow>
         \<not> (addr \<ge> p_address (item_info x) \<and> addr < add32 (p_address (item_info x)) (p_size (item_info x)))
         \<and> \<not> (addr < p_address (item_info x) \<and> add32 addr n > p_address (item_info x))) \<longleftrightarrow>
        (p_readonly (item_info x) \<longrightarrow> \<not> touches addr n (item_info x))"
      using touches_eq [OF assms(3), of addr "item_info x"] by auto
  qed
  finally show ?thesis .
qed

text \<open>
  \<^verbatim>\<open>esp_partition_main_flash_region_safe\<close> accepts a non-empty region that starts behind the
  partition table exactly when it shares no byte with the running partition, and nothing that
  starts in the bootloader or the table.
\<close>

theorem region_safe_iff:
  assumes "0 < n" and "addr + n < 2 ^ 32" and "0 < p_size r" and "p_address r + p_size r < 2 ^ 32"
  shows "esp_partition_main_flash_region_safe cfg r addr n \<longleftrightarrow>
    table_offset cfg + ESP_PARTITION_TABLE_MAX_LEN < addr \<and> \<not> touches addr n r"
  using touches_eq [OF assms(1), of addr r] assms
  by (auto simp: esp_partition_main_flash_region_safe_def add32_exact)

end
