(* ===== verification/Partition_List.thy ===== *)
theory Partition_List
  imports Partition_Correct
begin

text \<open>
  The list of partitions over its lifetime: what loading, searching, registering and
  deregistering keep true, and two ranges that registering should reject.
\<close>

section \<open>The partition list\<close>

text \<open>
  The byte at an address of the chip belongs to a partition; the addresses of a partition are
  taken in 32 bits, as the code does.
\<close>

definition part_byte :: "esp_partition_t \<Rightarrow> nat \<Rightarrow> bool" where
  "part_byte p a \<longleftrightarrow> a < 2 ^ 32 \<and> sub32 a (p_address p) < p_size p"

definition disjoint_parts :: "esp_partition_t \<Rightarrow> esp_partition_t \<Rightarrow> bool" where
  "disjoint_parts p q \<longleftrightarrow> (\<forall>a. \<not> (part_byte p a \<and> part_byte q a))"

definition word_part :: "esp_partition_t \<Rightarrow> bool" where
  "word_part p \<longleftrightarrow> p_address p < 2 ^ 32 \<and> p_size p < 2 ^ 32"

text \<open>
  Heap addresses are fresh and unique, addresses and sizes are 32 bits wide, and a registered
  partition ends within its chip, as far as 32 bits tell, and is disjoint from every partition that
  was in the list before it on the same chip.
\<close>

definition apart :: "partition_list_item_t \<Rightarrow> partition_list_item_t \<Rightarrow> bool" where
  "apart x y \<longleftrightarrow> (user_registered y \<longrightarrow> p_flash_chip (item_info x) = p_flash_chip (item_info y) \<longrightarrow>
     disjoint_parts (item_info x) (item_info y))"

definition on_its_chip :: "pstate \<Rightarrow> partition_list_item_t \<Rightarrow> bool" where
  "on_its_chip s x \<longleftrightarrow> (user_registered x \<longrightarrow>
     add32 (p_address (item_info x)) (p_size (item_info x)) \<le> chip_size (chips s (p_flash_chip (item_info x))))"

definition plist_inv :: "pstate \<Rightarrow> bool" where
  "plist_inv s \<longleftrightarrow> distinct (map (p_self \<circ> item_info) (part_list s))
     \<and> (\<forall>x \<in> set (part_list s). p_self (item_info x) < heap_next s \<and> word_part (item_info x) \<and> on_its_chip s x)
     \<and> sorted_wrt apart (part_list s)"

lemma heap_alloc_frame:
  "heap_alloc s = (r, s') \<Longrightarrow> chips s' = chips s \<and> part_list s' = part_list s \<and> free_pages s' = free_pages s
     \<and> (case r of None \<Rightarrow> heap_next s' = heap_next s | Some ptr \<Rightarrow> ptr = heap_next s \<and> heap_next s' = Suc (heap_next s))"
  by (auto simp: heap_alloc_def split: list.splits bool.splits)

lemma load_entries_frame:
  assumes "load_entries cfg m a n s = (e, items, md, h, s')"
  shows "chips s' = chips s \<and> part_list s' = part_list s \<and> heap_next s \<le> heap_next s'
    \<and> distinct (map (p_self \<circ> item_info) items) \<and> (\<forall>x \<in> set items. \<not> user_registered x \<and> word_part (item_info x)
        \<and> heap_next s \<le> p_self (item_info x) \<and> p_self (item_info x) < heap_next s')"
  using assms
proof (induction n arbitrary: a s e items md h s')
  case (Suc n)
  obtain r s1 where h: "heap_alloc s = (r, s1)" by (rule prod.exhaust)
  note hf = heap_alloc_frame [OF h]
  show ?case
  proof (cases "i_magic (rd_info m a) = ESP_PARTITION_MAGIC \<and> r \<noteq> None")
    case False
    then show ?thesis using Suc.prems h hf by (auto simp: Let_def split: if_splits option.splits prod.splits)
  next
    case True
    then obtain ptr where r: "r = Some ptr" by auto
    obtain e2 items2 md2 h2 s2 where l: "load_entries cfg m (a + 32) n s1 = (e2, items2, md2, h2, s2)"
      using prod_cases5 by blast
    have x: "items = new_item cfg s ptr (rd_info m a) # items2" "s' = s2"
      using Suc.prems h l True r by (auto simp: Let_def)
    have p: "p_self (item_info (new_item cfg s ptr (rd_info m a))) = ptr" "\<not> user_registered (new_item cfg s ptr (rd_info m a))"
      "word_part (item_info (new_item cfg s ptr (rd_info m a)))"
      using unsigned_less [where ?'a = nat, of "rd32 m (a + 4)"] unsigned_less [where ?'a = nat, of "rd32 m (a + 8)"]
      by (simp_all add: new_item_def rd_info_def word_part_def Let_def)
    show ?thesis using Suc.IH [OF l] hf r x p by auto
  qed
qed simp

lemma status_chip: "on_chip 0 drv_status s = (e, s') \<Longrightarrow> part_list s' = part_list s \<and> heap_next s' = heap_next s
    \<and> (\<forall>c. chip_size (chips s' c) = chip_size (chips s c))"
  using later_status [of "chips s 0" e "chips s' 0"] chip_cfg_sel [of "chips s' 0" "chips s 0"]
  by (auto simp: on_chip_eq later_def)

lemma ensure_loaded_frame:
  assumes "ensure_partitions_loaded cfg s = (e, s')"
  shows "(part_list s' = part_list s \<or> distinct (map (p_self \<circ> item_info) (part_list s'))
      \<and> (\<forall>x \<in> set (part_list s'). \<not> user_registered x \<and> word_part (item_info x) \<and> p_self (item_info x) < heap_next s'))
    \<and> heap_next s \<le> heap_next s' \<and> (\<forall>c. chip_size (chips s' c) = chip_size (chips s c))"
proof (cases "part_list s = []")
  case True
  then have l: "load_partitions cfg s = (e, s')" using assms by (simp add: ensure_partitions_loaded_def)
  obtain e0 s0 where d: "on_chip 0 drv_status s = (e0, s0)" by (rule prod.exhaust)
  obtain e1 items md h s1 where le: "load_entries cfg (flash_view (chips s0 0)) (table_offset cfg) 128 s0 = (e1, items, md, h, s1)"
    using prod_cases5 by blast
  show ?thesis
    using l d le status_chip [OF d] load_entries_frame [OF le] unfolding load_partitions_def Let_def
    by (auto split: if_splits)
qed (use assms in \<open>auto simp: ensure_partitions_loaded_def\<close>)

lemma plist_inv_ensure:
  assumes "plist_inv s" and e: "ensure_partitions_loaded cfg s = (e, s')"
  shows "plist_inv s'"
proof -
  have sorted: "sorted_wrt apart (part_list s')" if "\<forall>x \<in> set (part_list s'). \<not> user_registered x"
    using that by (induction "part_list s'" rule: rev_induct) (auto simp: sorted_wrt_append apart_def sorted_wrt_iff_nth_less)
  show ?thesis
    using ensure_loaded_frame [OF e] assms(1) sorted by (fastforce simp: plist_inv_def on_its_chip_def)
qed

text \<open>
  The overlap check compares signed ends, and insists on regions whose end is above their start: a
  range that wraps around is such a region when it starts in the upper half, and its bytes lie
  between its signed ends.
\<close>

lemma part_byte_signed:
  assumes "p_address p < 2 ^ 32" "p_size p < 2 ^ 32" "intptr (p_address p) < intptr (add32 (p_address p) (p_size p))" "part_byte p a"
  shows "intptr (p_address p) \<le> intptr a \<and> intptr a < intptr (add32 (p_address p) (p_size p))"
proof -
  define o1 n where "o1 = p_address p" and "n = p_size p"
  have b: "o1 < 4294967296" "n < 4294967296" "a < 4294967296" using assms(1,2,4) by (simp_all add: o1_def n_def part_byte_def)
  have e: "add32 o1 n = (if o1 + n < 4294967296 then o1 + n else o1 + n - 4294967296)" using b by (simp add: add32_def mod_if)
  have d: "sub32 a o1 = (if o1 \<le> a then a - o1 else a + 4294967296 - o1)" using b by (simp add: sub32_def mod_if)
  have "sub32 a o1 < n" using assms(4) by (simp add: part_byte_def o1_def n_def)
  then show ?thesis using assms(3) b unfolding o1_def [symmetric] n_def [symmetric] d e intptr_def by (simp split: if_splits) linarith+
qed

lemma overlap_disjoint:
  assumes "bootloader_util_regions_overlap (p_address q) (add32 (p_address q) (p_size q)) (p_address p) (add32 (p_address p) (p_size p)) = Some False"
    and "word_part p" "word_part q"
  shows "disjoint_parts p q"
proof -
  have o: "intptr (p_address q) < intptr (add32 (p_address q) (p_size q))" "intptr (p_address p) < intptr (add32 (p_address p) (p_size p))"
    "intptr (add32 (p_address q) (p_size q)) \<le> intptr (p_address p) \<or> intptr (add32 (p_address p) (p_size p)) \<le> intptr (p_address q)"
    using assms(1) by (auto simp: bootloader_util_regions_overlap_def split: if_splits)
  have "False" if a: "part_byte p a" "part_byte q a" for a
    using part_byte_signed [OF _ _ o(2) a(1)] part_byte_signed [OF _ _ o(1) a(2)] o(3) assms(2,3) unfolding word_part_def by linarith
  then show ?thesis by (auto simp: disjoint_parts_def)
qed

lemma overlap_scan_disjoint:
  assumes "overlap_scan (p_flash_chip q) (p_address q) (p_size q) l = Some False" and "word_part q"
    and "\<forall>x \<in> set l. word_part (item_info x)" and "x \<in> set l" and "p_flash_chip (item_info x) = p_flash_chip q"
  shows "disjoint_parts (item_info x) q"
  using assms
proof (induction l)
  case (Cons y l)
  then show ?case using overlap_disjoint [of q "item_info y"] by (auto simp: Let_def split: if_splits option.splits bool.splits)
qed simp

lemma register_ok:
  assumes "esp_partition_register_external cfg ch off n l t st s = Some ((ESP_OK, r), s')"
  obtains e s1 ptr s2 p where "ensure_partitions_loaded cfg s = (ESP_OK, s1)" and "heap_alloc s1 = (Some ptr, s2)"
    and "r = Some p" and "s' = s2\<lparr> part_list := part_list s2 @ [\<lparr> item_info = p, user_registered = True \<rparr>] \<rparr>"
    and "p_self p = ptr" and "p_address p = off" and "p_size p = n" and "p_flash_chip p = (case ch of None \<Rightarrow> 0 | Some c \<Rightarrow> c)"
    and "overlap_scan (p_flash_chip p) off n (part_list s2) = Some False"
    and "add32 off n \<le> chip_size (chips s (p_flash_chip p))"
  using assms
  by (auto simp: esp_partition_register_external_def Let_def split: if_splits option.splits bool.splits prod.splits)

lemma register_not_ok:
  assumes "esp_partition_register_external cfg ch off n l t st s = Some ((e, r), s')" and "e \<noteq> ESP_OK"
  shows "s' = s \<or> (\<exists>e1 s1. ensure_partitions_loaded cfg s = (e1, s1) \<and> part_list s' = part_list s1
    \<and> chips s' = chips s1 \<and> heap_next s1 \<le> heap_next s')"
proof -
  obtain e1 s1 where l: "ensure_partitions_loaded cfg s = (e1, s1)" by (rule prod.exhaust)
  obtain x s2 where h: "heap_alloc s1 = (x, s2)" by (rule prod.exhaust)
  have "s' = s \<or> s' = s1 \<or> s' = s2"
    using assms l h
    by (auto simp: esp_partition_register_external_def Let_def split: if_splits option.splits bool.splits)
  moreover have "part_list s2 = part_list s1" "chips s2 = chips s1" "heap_next s1 \<le> heap_next s2"
    using heap_alloc_frame [OF h] by (auto split: option.splits)
  ultimately show ?thesis using l by auto
qed

lemma plist_inv_same:
  "plist_inv s \<Longrightarrow> part_list s' = part_list s \<Longrightarrow> (\<And>c. chip_size (chips s' c) = chip_size (chips s c)) \<Longrightarrow>
   heap_next s \<le> heap_next s' \<Longrightarrow> plist_inv s'"
  by (fastforce simp: plist_inv_def on_its_chip_def)

lemma plist_inv_append:
  assumes "plist_inv s" and "p_self p = heap_next s" and "word_part p" and "on_its_chip s \<lparr> item_info = p, user_registered = u \<rparr>"
    and "\<forall>x \<in> set (part_list s). apart x \<lparr> item_info = p, user_registered = u \<rparr>"
  shows "plist_inv (s\<lparr> heap_next := Suc (heap_next s), part_list := part_list s @ [\<lparr> item_info = p, user_registered = u \<rparr>] \<rparr>)"
proof -
  have "p_self p \<notin> set (map (p_self \<circ> item_info) (part_list s))" using assms(1,2) by (fastforce simp: plist_inv_def)
  then show ?thesis using assms by (auto simp: plist_inv_def on_its_chip_def sorted_wrt_append less_Suc_eq)
qed

lemma plist_inv_register:
  assumes inv: "plist_inv s" and r: "esp_partition_register_external cfg ch off n l t st s = Some ((e, r), s')"
    and w: "off < 2 ^ 32" "n < 2 ^ 32"
  shows "plist_inv s' \<and> (\<forall>c. chip_size (chips s' c) = chip_size (chips s c))"
proof (cases "e = ESP_OK")
  case False
  from register_not_ok [OF r False] show ?thesis
  proof (elim disjE exE conjE)
    fix e1 s1 assume l: "ensure_partitions_loaded cfg s = (e1, s1)" and f: "part_list s' = part_list s1" "chips s' = chips s1" "heap_next s1 \<le> heap_next s'"
    show ?thesis using plist_inv_same [OF plist_inv_ensure [OF inv l] f(1) _ f(3)] f(2) ensure_loaded_frame [OF l] by simp
  qed (use inv in simp)
next
  case True
  obtain s1 ptr s2 p where l: "ensure_partitions_loaded cfg s = (ESP_OK, s1)" and h: "heap_alloc s1 = (Some ptr, s2)"
    and s': "s' = s2\<lparr> part_list := part_list s2 @ [\<lparr> item_info = p, user_registered = True \<rparr>] \<rparr>"
    and p: "p_self p = ptr" "p_address p = off" "p_size p = n"
    and sc: "overlap_scan (p_flash_chip p) (p_address p) (p_size p) (part_list s2) = Some False"
    and cs: "add32 (p_address p) (p_size p) \<le> chip_size (chips s (p_flash_chip p))"
    using register_ok [OF r [unfolded True]] by metis
  have i1: "plist_inv s1" by (rule plist_inv_ensure [OF inv l])
  note hf = heap_alloc_frame [OF h, simplified] and lf = ensure_loaded_frame [OF l]
  have wp: "word_part p" using p w by (simp add: word_part_def)
  have "apart x \<lparr> item_info = p, user_registered = True \<rparr>" if "x \<in> set (part_list s1)" for x
    using overlap_scan_disjoint [OF sc wp, of x] that i1 hf by (auto simp: apart_def plist_inv_def)
  then have "plist_inv (s1\<lparr> heap_next := Suc (heap_next s1), part_list := part_list s1 @ [\<lparr> item_info = p, user_registered = True \<rparr>] \<rparr>)"
    using plist_inv_append [OF i1, of p True] p hf cs lf wp by (auto simp: on_its_chip_def)
  then show ?thesis using s' hf lf by (auto intro: plist_inv_same)
qed

lemma deregister_scan_cases:
  "deregister_scan ptr l = (e, l') \<Longrightarrow> (e \<noteq> ESP_OK \<and> l' = l) \<or>
     (e = ESP_OK \<and> (\<exists>xs x ys. l = xs @ x # ys \<and> l' = xs @ ys \<and> user_registered x \<and> p_self (item_info x) = ptr))"
proof (induction l arbitrary: l' e)
  case (Cons y l)
  obtain e1 l1 where r: "deregister_scan ptr l = (e1, l1)" by (rule prod.exhaust)
  show ?case
  proof (cases "p_self (item_info y) = ptr")
    case True
    then show ?thesis using Cons.prems by (auto split: if_splits intro: exI [of _ "[]"])
  next
    case False
    then have e: "e1 = e" "l' = y # l1" using Cons.prems r by auto
    from Cons.IH [OF r] show ?thesis
    proof (elim disjE conjE exE)
      fix xs x ys assume "e1 = ESP_OK" "l = xs @ x # ys" "l1 = xs @ ys" "user_registered x" "p_self (item_info x) = ptr"
      then show ?thesis using e by (auto intro!: exI [of _ "y # xs"])
    qed (use e in auto)
  qed
qed simp

lemma plist_inv_deregister:
  assumes "plist_inv s" and "esp_partition_deregister_external ptr s = (e, s')"
  shows "plist_inv s'"
proof -
  obtain l where l: "deregister_scan ptr (part_list s) = (e, l)" "s' = s\<lparr> part_list := l \<rparr>"
    using assms(2) by (auto simp: esp_partition_deregister_external_def split: prod.splits)
  from deregister_scan_cases [OF l(1)] show ?thesis
  proof (elim disjE conjE exE)
    fix xs x ys assume "part_list s = xs @ x # ys" "l = xs @ ys"
    then show ?thesis using assms(1) l(2) by (auto simp: plist_inv_def on_its_chip_def sorted_wrt_append)
  qed (use assms(1) l(2) in \<open>simp add: plist_inv_def on_its_chip_def\<close>)
qed

text \<open>
  The life of the list: loading on demand, searching, unloading, registering and removing, whatever
  they return, with any table in flash. The arguments of a registration are 32 bits wide.
\<close>

inductive plist_step :: "config \<Rightarrow> pstate \<Rightarrow> pstate \<Rightarrow> bool" for cfg where
  step_load: "ensure_partitions_loaded cfg s = (e, s') \<Longrightarrow> plist_step cfg s s'"
| step_find: "esp_partition_find cfg t st l s = (it, s') \<Longrightarrow> plist_step cfg s s'"
| step_unload: "plist_step cfg s (esp_partition_unload_all s)"
| step_register: "esp_partition_register_external cfg ch off n l t st s = Some (r, s') \<Longrightarrow> off < 2 ^ 32 \<Longrightarrow> n < 2 ^ 32 \<Longrightarrow> plist_step cfg s s'"
| step_deregister: "esp_partition_deregister_external ptr s = (e, s') \<Longrightarrow> plist_step cfg s s'"

lemma ensure_loaded_id: "part_list s \<noteq> [] \<Longrightarrow> ensure_partitions_loaded cfg s = (ESP_OK, s)"
  by (simp add: ensure_partitions_loaded_def)

lemma find_frame:
  assumes "esp_partition_find cfg t st l s = (it, s')" and e: "ensure_partitions_loaded cfg s = (e, s1)"
  shows "part_list s' = part_list s1 \<and> chips s' = chips s1 \<and> heap_next s1 \<le> heap_next s'"
proof -
  obtain x s2 where h: "heap_alloc s1 = (x, s2)" by (rule prod.exhaust)
  have "s' = s1 \<or> s' = s2"
    using assms h by (auto simp: esp_partition_find_def iterator_create_def split: if_splits option.splits)
  then show ?thesis using heap_alloc_frame [OF h] by (auto split: option.splits)
qed

lemma plist_step_inv:
  assumes "plist_step cfg s s'" and "plist_inv s"
  shows "plist_inv s' \<and> (\<forall>c. chip_size (chips s' c) = chip_size (chips s c))"
  using assms
proof (cases rule: plist_step.cases)
  case (step_load e)
  then show ?thesis using plist_inv_ensure assms(2) ensure_loaded_frame by metis
next
  case (step_find t st l it)
  obtain e s1 where e: "ensure_partitions_loaded cfg s = (e, s1)" by (rule prod.exhaust)
  note f = find_frame [OF step_find(1) e]
  have "plist_inv s'" using plist_inv_same [OF plist_inv_ensure [OF assms(2) e], of s'] f by simp
  then show ?thesis using f ensure_loaded_frame [OF e] by simp
next
  case step_unload
  then show ?thesis by (simp add: esp_partition_unload_all_def plist_inv_def)
next
  case (step_register ch off n l t st r)
  obtain e p where r: "r = (e, p)" by (rule prod.exhaust)
  show ?thesis by (rule plist_inv_register [OF assms(2) step_register(1) [unfolded r] step_register(2,3)])
next
  case (step_deregister ptr e)
  then show ?thesis using plist_inv_deregister [OF assms(2) step_deregister(1)]
    by (auto simp: esp_partition_deregister_external_def split: prod.splits)
qed

text \<open>
  C16: from an empty list, along any sequence of loading, searching, unloading, registering and
  deregistering, with any table in flash and any 32-bit arguments, no registered partition shares a
  byte with another partition of its chip that was in the list before it, and the addresses of the
  list items are distinct. The end of a registered partition, computed in 32 bits, is within its
  chip; so a registered partition that does not wrap around lies within its chip.
\<close>

theorem plist_reachable_inv:
  assumes "(plist_step cfg)\<^sup>*\<^sup>* s s'" and "part_list s = []"
  shows "distinct (map (p_self \<circ> item_info) (part_list s')) \<and>
    (\<forall>i j. i < j \<and> j < length (part_list s') \<and> user_registered (part_list s' ! j)
       \<and> p_flash_chip (item_info (part_list s' ! i)) = p_flash_chip (item_info (part_list s' ! j)) \<longrightarrow>
         disjoint_parts (item_info (part_list s' ! i)) (item_info (part_list s' ! j))) \<and>
    (\<forall>x \<in> set (part_list s'). user_registered x \<longrightarrow>
       add32 (p_address (item_info x)) (p_size (item_info x)) \<le> chip_size (chips s (p_flash_chip (item_info x)))
       \<and> (p_address (item_info x) + p_size (item_info x) < 2 ^ 32 \<longrightarrow>
            p_address (item_info x) + p_size (item_info x) \<le> chip_size (chips s (p_flash_chip (item_info x)))))"
proof -
  have "plist_inv s' \<and> (\<forall>c. chip_size (chips s' c) = chip_size (chips s c))"
    using assms(1)
  proof (induction rule: rtranclp_induct)
    case base
    then show ?case using assms(2) by (simp add: plist_inv_def)
  next
    case (step y z)
    then show ?case using plist_step_inv [OF step(2)] by auto
  qed
  then show ?thesis by (auto simp: plist_inv_def on_its_chip_def sorted_wrt_iff_nth_less apart_def add32_exact)
qed

lemma overlap_scan_other: "\<forall>x \<in> set l. p_flash_chip (item_info x) \<noteq> c \<Longrightarrow> overlap_scan c off n l = Some False"
  by (induction l) (auto simp: Let_def)

lemma overlap_scan_append:
  "overlap_scan c off n xs = Some False \<Longrightarrow> overlap_scan c off n (xs @ ys) = overlap_scan c off n ys"
  by (induction xs) (auto simp: Let_def split: if_splits option.splits bool.splits)

lemma register_empty_chip:
  assumes "part_list s \<noteq> []" and "allocs s = []" and "\<forall>x \<in> set (part_list s). p_flash_chip (item_info x) \<noteq> c"
    and "add32 off n \<le> chip_size (chips s c)"
  shows "\<exists>p. esp_partition_register_external cfg (Some c) off n l t st s = Some ((ESP_OK, Some p),
      s\<lparr> heap_next := Suc (heap_next s), part_list := part_list s @ [\<lparr> item_info = p, user_registered = True \<rparr>] \<rparr>)
    \<and> p_flash_chip p = c \<and> p_address p = off \<and> p_size p = n"
  using assms overlap_scan_other [OF assms(3)]
  by (simp add: esp_partition_register_external_def ensure_loaded_id heap_alloc_def Let_def)

text \<open>
  Registering adds offset and size in 32 bits. On a chip that has no partition yet, a range
  that starts inside the chip and wraps around is registered although it is larger than the
  chip.
\<close>

theorem register_end_wraps:
  assumes "part_list s \<noteq> []" and "allocs s = []" and "\<forall>x \<in> set (part_list s). p_flash_chip (item_info x) \<noteq> c"
    and "0 < off" and "off \<le> chip_size (chips s c)" and "chip_size (chips s c) < 2 ^ 31"
  shows "\<exists>p s'. esp_partition_register_external cfg (Some c) off (2 ^ 32 - off) l t st s = Some ((ESP_OK, Some p), s')
    \<and> p_size p > chip_size (chips s c)"
proof -
  have "add32 off (2 ^ 32 - off) \<le> chip_size (chips s c)" using assms(4-6) by (simp add: add32_def)
  then show ?thesis using register_empty_chip [OF assms(1-3), of off "2 ^ 32 - off" cfg l t st] assms(5,6) by fastforce
qed

text \<open>
  A partition of size zero can be registered on a chip that has none yet, and from then on
  every registration on that chip that passes the size check fails an assertion, because
  \<^verbatim>\<open>bootloader_util_regions_overlap\<close> insists on non-empty regions.
\<close>

theorem register_empty_partition_blocks_chip:
  assumes "part_list s \<noteq> []" and "allocs s = []" and "\<forall>x \<in> set (part_list s). p_flash_chip (item_info x) \<noteq> c"
    and "off \<le> chip_size (chips s c)" and "chip_size (chips s c) < 2 ^ 31"
  shows "\<exists>p s'. esp_partition_register_external cfg (Some c) off 0 l t st s = Some ((ESP_OK, Some p), s')
    \<and> (\<forall>off2 n2 l2 t2 st2. add32 off2 n2 \<le> chip_size (chips s c) \<longrightarrow>
         esp_partition_register_external cfg (Some c) off2 n2 l2 t2 st2 s' = None)"
proof -
  have "add32 off 0 = off" using assms(4,5) by (intro add32_exact [of off 0, simplified]) simp
  then obtain p where r: "esp_partition_register_external cfg (Some c) off 0 l t st s = Some ((ESP_OK, Some p),
      s\<lparr> heap_next := Suc (heap_next s), part_list := part_list s @ [\<lparr> item_info = p, user_registered = True \<rparr>] \<rparr>)"
      and p: "p_flash_chip p = c" "p_address p = off" "p_size p = 0"
    using register_empty_chip [OF assms(1-3), of off 0 cfg l t st] assms(4) by auto
  let ?s = "s\<lparr> heap_next := Suc (heap_next s), part_list := part_list s @ [\<lparr> item_info = p, user_registered = True \<rparr>] \<rparr>"
  have "overlap_scan c off2 n2 (part_list ?s) = None" for off2 n2
    using overlap_scan_append [OF overlap_scan_other [OF assms(3)]] p \<open>add32 off 0 = off\<close>
    by (simp add: bootloader_util_regions_overlap_def)
  then have "esp_partition_register_external cfg (Some c) off2 n2 l2 t2 st2 ?s = None"
    if "add32 off2 n2 \<le> chip_size (chips s c)" for off2 n2 l2 t2 st2
    using that assms(2) by (simp add: esp_partition_register_external_def ensure_loaded_id heap_alloc_def Let_def)
  then show ?thesis using r by blast
qed

section \<open>The loader and the table check agree\<close>

text \<open>What a list item takes from the table entry.\<close>

definition item_of_entry :: "partition_list_item_t \<Rightarrow> esp_partition_info_t \<Rightarrow> bool" where
  "item_of_entry x en \<longleftrightarrow> p_address (item_info x) = pos_offset (i_pos en) \<and> p_size (item_info x) = pos_size (i_pos en)
     \<and> p_type (item_info x) = i_type en \<and> p_subtype (item_info x) = i_subtype en \<and> p_label (item_info x) = cstr 16 (i_label en)
     \<and> p_flash_chip (item_info x) = 0 \<and> \<not> user_registered x"

lemma load_entries_table:
  assumes "allocs s = []" and "table_md5 cfg" and "i \<le> k" and "k - i < n"
    and "\<forall>j. i \<le> j \<and> j < k \<longrightarrow> i_magic (rd_info m (base + 32 * j)) = ESP_PARTITION_MAGIC" and "md5_entry m base k"
  shows "\<exists>items s'. load_entries cfg m (base + 32 * i) n s = (ESP_OK, items, Some (base + 32 * k), rd_bytes m (base + 32 * i) (32 * (k - i)), s')
    \<and> list_all2 item_of_entry items (map (\<lambda>j. rd_info m (base + 32 * j)) [i..<k]) \<and> allocs s' = []"
  using assms
proof (induction n arbitrary: i s)
  case (Suc n)
  show ?case
  proof (cases "i = k")
    case True
    then show ?thesis using Suc.prems by (simp add: md5_entry_def rd_bytes_def)
  next
    case False
    then have ik: "i < k" using Suc.prems(3) by simp
    let ?s = "s\<lparr> heap_next := Suc (heap_next s), allocs := [] \<rparr>"
    have mg: "i_magic (rd_info m (base + 32 * i)) = ESP_PARTITION_MAGIC" using Suc.prems(5) ik by simp
    have "\<exists>items s'. load_entries cfg m (base + 32 * Suc i) n ?s =
        (ESP_OK, items, Some (base + 32 * k), rd_bytes m (base + 32 * Suc i) (32 * (k - Suc i)), s')
        \<and> list_all2 item_of_entry items (map (\<lambda>j. rd_info m (base + 32 * j)) [Suc i..<k]) \<and> allocs s' = []"
      using Suc.prems ik by (intro Suc.IH) auto
    then obtain items s' where l: "load_entries cfg m (base + 32 * Suc i) n ?s =
        (ESP_OK, items, Some (base + 32 * k), rd_bytes m (base + 32 * Suc i) (32 * (k - Suc i)), s')"
      and la: "list_all2 item_of_entry items (map (\<lambda>j. rd_info m (base + 32 * j)) [Suc i..<k])" "allocs s' = []" by blast
    have "rd_bytes m (base + 32 * i) 32 @ rd_bytes m (base + 32 * Suc i) (32 * (k - Suc i)) = rd_bytes m (base + 32 * i) (32 * (k - i))"
    proof -
      have "32 * (k - i) = 32 + 32 * (k - Suc i)" using ik by simp
      then show ?thesis
        using upt_add_eq_append [of "base + 32 * i" "base + 32 * i + 32" "32 * (k - Suc i)"]
        by (simp add: rd_bytes_def ac_simps)
    qed
    moreover have "item_of_entry (new_item cfg s (heap_next s) (rd_info m (base + 32 * i))) (rd_info m (base + 32 * i))"
      by (simp add: item_of_entry_def new_item_def Let_def)
    moreover have "load_entries cfg m (base + 32 * i) (Suc n) s = (ESP_OK, new_item cfg s (heap_next s) (rd_info m (base + 32 * i)) # items,
        Some (base + 32 * k), rd_bytes m (base + 32 * i) 32 @ rd_bytes m (base + 32 * Suc i) (32 * (k - Suc i)), s')"
      using l mg Suc.prems(1) by (simp add: Let_def heap_alloc_def add.commute add.left_commute)
    ultimately show ?thesis using la ik by (simp add: upt_conv_Cons)
  qed
qed simp

text \<open>Without an MD5 record the loader stops at the first entry that is no partition.\<close>

lemma load_entries_no_digest:
  assumes "allocs s = []" and "i \<le> k" and "k - i < n" and "\<forall>j. i \<le> j \<and> j < k \<longrightarrow> i_magic (rd_info m (base + 32 * j)) = ESP_PARTITION_MAGIC"
    and "i_magic (rd_info m (base + 32 * k)) \<notin> {ESP_PARTITION_MAGIC, ESP_PARTITION_MAGIC_MD5}"
  shows "\<exists>items h s'. load_entries cfg m (base + 32 * i) n s = (ESP_OK, items, None, h, s')"
  using assms
proof (induction n arbitrary: i s)
  case (Suc n)
  show ?case
  proof (cases "i = k")
    case True
    then show ?thesis using Suc.prems by simp
  next
    case False
    then have ik: "i < k" using Suc.prems(2) by simp
    let ?s = "s\<lparr> heap_next := Suc (heap_next s), allocs := [] \<rparr>"
    have mg: "i_magic (rd_info m (base + 32 * i)) = ESP_PARTITION_MAGIC" using Suc.prems(4) ik by simp
    have "\<exists>items h s'. load_entries cfg m (base + 32 * Suc i) n ?s = (ESP_OK, items, None, h, s')"
      using Suc.prems ik by (intro Suc.IH) auto
    then show ?thesis using mg Suc.prems(1) by (auto simp: Let_def heap_alloc_def add.commute add.left_commute)
  qed
qed simp

text \<open>The entries of an accepted table: partitions, at most one MD5 record, and the end.\<close>

lemma verified_entries:
  assumes "esp_partition_table_verify md5 cs m base = (ESP_OK, num)"
  obtains (digest) q where "q \<le> num" "num < 95" "\<forall>j < q. i_magic (rd_info m (base + 32 * j)) = ESP_PARTITION_MAGIC"
      "{j. j \<le> num \<and> md5_entry m base j} = {q}" "rd_bytes m (base + 32 * q + 16) 16 = md5 (rd_bytes m base (32 * q))"
  | (plain) "num < 96" "\<forall>j < num. i_magic (rd_info m (base + 32 * j)) = ESP_PARTITION_MAGIC" "end_entry m base num"
      "{j. j \<le> num \<and> md5_entry m base j} = {}"
proof -
  obtain k where k: "0 < k" "k < 96" "end_entry m base k" "\<forall>j < k. entry_ok md5 cs m base j"
      and c: "card {j. j < k \<and> md5_entry m base j} \<le> 1" and num: "num = k - card {j. j < k \<and> md5_entry m base j}"
    using verify_entries_ok [of md5 cs m base 96 0 False num] assms
    by (auto simp: esp_partition_table_verify_def ESP_PARTITION_TABLE_MAX_ENTRIES_def)
  have magic: "i_magic (rd_info m (base + 32 * j)) = ESP_PARTITION_MAGIC" if "j < k" "\<not> md5_entry m base j" for j
    using k(4) that by (auto simp: entry_ok_def md5_entry_def Let_def)
  have fin: "finite {j. j < k \<and> md5_entry m base j}" by simp
  have ke: "\<not> md5_entry m base k" using k(3) by (auto simp: md5_entry_def end_entry_def Let_def)
  show thesis
  proof (cases "{j. j < k \<and> md5_entry m base j} = {}")
    case True
    then have n: "num = k" using num unfolding True by simp
    have "{j. j \<le> k \<and> md5_entry m base j} = {}" using True ke by (auto simp: le_less)
    then show thesis using plain k(2,3) magic True n by blast
  next
    case False
    then have "card {j. j < k \<and> md5_entry m base j} \<noteq> 0" using fin by simp
    then have c1: "card {j. j < k \<and> md5_entry m base j} = 1" using c by linarith
    then have n: "Suc num = k" using num k(1) by simp
    obtain q where q: "{j. j < k \<and> md5_entry m base j} = {q}" using c1 by (rule card_1_singletonE)
    have eq: "{j. j \<le> num \<and> md5_entry m base j} = {q}" using q unfolding n [symmetric] less_Suc_eq_le .
    have qn: "q \<le> num" "md5_entry m base q" using eq by blast+
    have "\<not> md5_entry m base j" if "j < q" for j using that eq qn(1) by auto
    then have "\<forall>j < q. i_magic (rd_info m (base + 32 * j)) = ESP_PARTITION_MAGIC" using magic n qn(1) by simp
    moreover have "rd_bytes m (base + 32 * q + 16) 16 = md5 (rd_bytes m base (32 * q))"
    proof -
      have "entry_ok md5 cs m base q" using k(4) qn(1) n by simp
      then show ?thesis using qn(2) by (auto simp: entry_ok_def md5_entry_def Let_def)
    qed
    ultimately show thesis using digest [of q] qn(1) eq k(2) n by simp
  qed
qed

lemma load_verified:
  assumes "table_md5 cfg" and "allocs s = []" and "drv_results (chips s 0) = []"
    and v: "esp_partition_table_verify (rom_md5 cfg) cs (flash_view (chips s 0)) (table_offset cfg) = (ESP_OK, num)"
    and q: "q \<le> num" "md5_entry (flash_view (chips s 0)) (table_offset cfg) q"
  shows "\<exists>s'. load_partitions cfg s = (ESP_OK, s') \<and> list_all2 item_of_entry (part_list s')
      (map (\<lambda>j. rd_info (flash_view (chips s 0)) (table_offset cfg + 32 * j)) [0..<q])
    \<and> allocs s' = [] \<and> chips s' = chips s"
proof -
  let ?m = "flash_view (chips s 0)" and ?b = "table_offset cfg"
  have mem: "q \<in> {j. j \<le> num \<and> md5_entry ?m ?b j}" using q by blast
  have p: "num < 95" "\<forall>j < q. i_magic (rd_info ?m (?b + 32 * j)) = ESP_PARTITION_MAGIC" "rd_bytes ?m (?b + 32 * q + 16) 16 = rom_md5 cfg (rd_bytes ?m ?b (32 * q))"
  proof (atomize (full), cases rule: verified_entries [OF v])
    case (1 q')
    then show "num < 95 \<and> (\<forall>j < q. i_magic (rd_info ?m (?b + 32 * j)) = ESP_PARTITION_MAGIC) \<and> rd_bytes ?m (?b + 32 * q + 16) 16 = rom_md5 cfg (rd_bytes ?m ?b (32 * q))"
      using mem by simp
  qed (use mem in blast)
  have d: "on_chip 0 drv_status s = (ESP_OK, s)" using assms(3) by (simp add: on_chip_def drv_status_def)
  obtain items s' where l: "load_entries cfg ?m ?b 128 s = (ESP_OK, items, Some (?b + 32 * q), rd_bytes ?m ?b (32 * q), s')"
      and la: "list_all2 item_of_entry items (map (\<lambda>j. rd_info ?m (?b + 32 * j)) [0..<q])" "allocs s' = []"
    using load_entries_table [OF assms(2,1), of 0 q 128 ?m ?b] p(1,2) q by auto
  have "load_partitions cfg s = (ESP_OK, s'\<lparr> part_list := items \<rparr>)"
    using assms(1) p(3) by (simp add: load_partitions_def d l Let_def)
  then show ?thesis using la load_entries_frame [OF l] by auto
qed

lemma load_without_digest:
  assumes "table_md5 cfg" and "allocs s = []" and "drv_results (chips s 0) = []"
    and v: "esp_partition_table_verify (rom_md5 cfg) cs (flash_view (chips s 0)) (table_offset cfg) = (ESP_OK, num)"
    and q: "\<forall>q \<le> num. \<not> md5_entry (flash_view (chips s 0)) (table_offset cfg) q"
  shows "\<exists>s'. load_partitions cfg s = (ESP_ERR_NOT_FOUND, s') \<and> part_list s' = part_list s"
proof -
  let ?m = "flash_view (chips s 0)" and ?b = "table_offset cfg"
  have none: "{j. j \<le> num \<and> md5_entry ?m ?b j} = {}" using q by blast
  have p: "num < 96" "\<forall>j < num. i_magic (rd_info ?m (?b + 32 * j)) = ESP_PARTITION_MAGIC" "end_entry ?m ?b num"
  proof (atomize (full), cases rule: verified_entries [OF v])
    case 2
    then show "num < 96 \<and> (\<forall>j < num. i_magic (rd_info ?m (?b + 32 * j)) = ESP_PARTITION_MAGIC) \<and> end_entry ?m ?b num" by blast
  qed (use none in simp)
  have d: "on_chip 0 drv_status s = (ESP_OK, s)" using assms(3) by (simp add: on_chip_def drv_status_def)
  have "i_magic (rd_info ?m (?b + 32 * num)) \<notin> {ESP_PARTITION_MAGIC, ESP_PARTITION_MAGIC_MD5}" using p(3) by (simp add: end_entry_def Let_def)
  then obtain items h s' where l: "load_entries cfg ?m ?b 128 s = (ESP_OK, items, None, h, s')"
    using load_entries_no_digest [OF assms(2), of 0 num 128 ?m ?b cfg] p(1,2) by auto
  then show ?thesis using assms(1) load_entries_frame [OF l] by (simp add: load_partitions_def d l Let_def)
qed

text \<open>
  C31: what the application's loader makes of a table that \<^verbatim>\<open>esp_partition_table_verify\<close> accepts (MD5 checks
  enabled, the same MD5 routine, working flash and enough memory). With an MD5 record behind \<open>q\<close>
  partitions \<^verbatim>\<open>load_partitions\<close> succeeds, and the list holds exactly these \<open>q\<close> partitions, in table order,
  with their addresses, sizes, types and labels: all of the counted ones when the record follows
  them, as the tools write it. Without an MD5 record the table is refused, and the list is kept.
\<close>

theorem load_reads_verified_table:
  assumes "table_md5 cfg" and "allocs s = []" and "drv_results (chips s 0) = []"
    and "esp_partition_table_verify (rom_md5 cfg) cs (flash_view (chips s 0)) (table_offset cfg) = (ESP_OK, num)"
  shows "(\<forall>q \<le> num. md5_entry (flash_view (chips s 0)) (table_offset cfg) q \<longrightarrow>
      (\<exists>s'. load_partitions cfg s = (ESP_OK, s') \<and> list_all2 item_of_entry (part_list s')
         (map (\<lambda>j. rd_info (flash_view (chips s 0)) (table_offset cfg + 32 * j)) [0..<q])))
    \<and> ((\<forall>q \<le> num. \<not> md5_entry (flash_view (chips s 0)) (table_offset cfg) q) \<longrightarrow>
      (\<exists>s'. load_partitions cfg s = (ESP_ERR_NOT_FOUND, s') \<and> part_list s' = part_list s))"
  using load_verified [OF assms] load_without_digest [OF assms] by blast

end
