(* ===== verification/Partition_Copy.thy ===== *)
theory Partition_Copy
  imports Partition_Correct
begin

text \<open>
  \<^verbatim>\<open>esp_partition_copy\<close>: the loop ends, and what it leaves in the destination.
\<close>

section \<open>The loop ends\<close>

definition pages_ok :: "pstate \<Rightarrow> bool" where
  "pages_ok s \<longleftrightarrow> (\<forall>n \<in> set (free_pages s). 0 < n \<and> n < 65536)"

lemma get_free_pages_ok:
  "get_free_pages s = (n, s') \<Longrightarrow> pages_ok s \<Longrightarrow> 0 < n \<and> n < 65536 \<and> pages_ok s' \<and> chips s' = chips s"
  by (auto simp: get_free_pages_def pages_ok_def split: list.splits)

lemma chunk_pos: "0 < pages \<Longrightarrow> pages < 65536 \<Longrightarrow> 0 < remaining \<Longrightarrow> 0 < min remaining (mul32 pages SPI_FLASH_MMU_PAGE_SIZE)"
  by (simp add: mul32_def SPI_FLASH_MMU_PAGE_SIZE_def)

lemma pages_ok_chips: "s' = s\<lparr> chips := x \<rparr> \<Longrightarrow> pages_ok s' = pages_ok s"
  by (simp add: pages_ok_def)

lemma part_write_chips: "esp_partition_write cfg p d off bs s = (e, s') \<Longrightarrow> \<exists>x. s' = s\<lparr> chips := x \<rparr>"
  by (cases s) (auto simp: esp_partition_write_def on_chip_eq Let_def split: if_splits)

lemma copy_loop_returns:
  assumes "pages_ok s" and "0 < pages" and "pages < 65536" and "attempts < 3"
  shows "\<exists>r. copy_loop cfg dest src dc sc remaining pages attempts err s = Some r"
  using assms
proof (induction remaining arbitrary: dc sc pages attempts err s rule: less_induct)
  case (less remaining)
  note outer = less.IH
  show ?case
    using less.prems
  proof (induction "3 - attempts" arbitrary: attempts pages err s rule: less_induct)
    case (less attempts)
    define chunk where "chunk = min remaining (mul32 pages SPI_FLASH_MMU_PAGE_SIZE)"
    obtain e data s1 where m: "esp_partition_mmap src sc chunk s = ((e, data), s1)" by (metis surj_pair)
    have p1: "pages_ok s1" using part_mmap_later(2) [OF m] less.prems(1) pages_ok_chips by blast
    obtain e2 s2 where w: "esp_partition_write cfg dest False dc (take chunk data) s1 = (e2, s2)" by (rule prod.exhaust)
    have p2: "pages_ok s2" using part_write_chips [OF w] p1 pages_ok_chips by blast
    obtain np s3 where g: "get_free_pages s1 = (np, s3)" by (rule prod.exhaust)
    note p3 = get_free_pages_ok [OF g p1]
    show ?case
    proof (cases "remaining = 0")
      case True
      then show ?thesis by (subst copy_loop.simps) simp
    next
      case False
      then have "0 < chunk" unfolding chunk_def using chunk_pos less.prems by blast
      then have smaller: "remaining - chunk < remaining" using False by simp
      have ok: "\<exists>r. copy_loop cfg dest src (add32 dc chunk) (add32 sc chunk) (remaining - chunk) pages 0 e2 s2 = Some r"
        using outer [OF smaller p2 less.prems(2,3)] by simp
      have again: "\<exists>r. copy_loop cfg dest src dc sc remaining np (Suc attempts) e s3 = Some r" if "\<not> 3 \<le> Suc attempts"
        using less.hyps [of "Suc attempts" s3 np e] that p3 by simp
      show ?thesis
        using False ok again
        by (subst copy_loop.simps) (auto simp: Let_def chunk_def [symmetric] m w g)
    qed
  qed
qed

text \<open>
  C35: \<^verbatim>\<open>esp_partition_copy\<close> returns, whatever fails on the way, as long as the MMU never reports
  zero free pages (or a number of pages whose size does not fit 32 bits): each mapped chunk
  then makes progress and the third failing attempt to map ends the loop.
\<close>

theorem partition_copy_returns:
  assumes "\<forall>n \<in> set (free_pages s). 0 < n \<and> n < 65536"
  shows "\<exists>r. esp_partition_copy cfg dest dest_offset src src_offset n s = Some r"
proof (cases "\<exists>p q. src = Some p \<and> dest = Some q")
  case False
  then show ?thesis by (auto simp: esp_partition_copy_def split: option.splits)
next
  case True
  then obtain p q where pq: "src = Some p" "dest = Some q" by blast
  define m where "m = (if n = SIZE_MAX then p_size p - src_offset else n)"
  define k where "k = align_up SPI_FLASH_SEC_SIZE (if n = SIZE_MAX then p_size q - dest_offset else n)"
  obtain e s1 where er: "esp_partition_erase_range q dest_offset k s = (e, s1)" by (rule prod.exhaust)
  have "pages_ok s1" using er assms
    by (auto simp: esp_partition_erase_range_def on_chip_eq pages_ok_def split: if_splits)
  moreover obtain np s2 where g: "get_free_pages s1 = (np, s2)" by (rule prod.exhaust)
  ultimately have "\<exists>r. copy_loop cfg q p dest_offset src_offset m np 0 e s2 = Some r"
    using get_free_pages_ok [OF g] by (intro copy_loop_returns) auto
  then show ?thesis
    unfolding esp_partition_copy_def pq by (auto simp: Let_def m_def [symmetric] k_def [symmetric] er g)
qed

section \<open>What is copied\<close>

lemma part_chips:
  assumes "chips s' = chips s"
  shows "part_ok p s' = part_ok p s" and "part_view p s' = part_view p s" and "part_blank p s' = part_blank p s"
  using assms by (simp_all add: part_ok_def part_view_def part_blank_def)

lemma part_write_other: "esp_partition_write cfg p d off bs s = (e, s') \<Longrightarrow> c \<noteq> p_flash_chip p \<Longrightarrow> chips s' c = chips s c"
  by (auto simp: esp_partition_write_def on_chip_eq Let_def split: if_splits)

lemma part_write_raw_frame:
  assumes "esp_partition_write cfg p d off bs s = (ESP_OK, s')" and "part_ok p s"
  shows "a < p_address p + off \<or> p_address p + off + length bs \<le> a \<Longrightarrow>
      flash_mem (chips s' (p_flash_chip p)) a = flash_mem (chips s (p_flash_chip p)) a"
    and "chip_cfg (chips s' (p_flash_chip p)) = chip_cfg (chips s (p_flash_chip p))"
proof -
  let ?c = "p_flash_chip p"
  have a: "p_address p + p_size p < 2 ^ 32" using assms(2) by (simp add: part_ok_def)
  note w = part_write_ok [OF assms(1) a]
  have "\<exists>cs. length cs = length bs \<and> later (chips s ?c) (program_mem (p_address p + off) cs (flash_mem (chips s ?c))) (chips s' ?c)"
  proof (cases "p_encrypted p")
    case True
    then have c: "cipher_ok (chips s ?c)" and e: "esp_flash_write_encrypted (chips s ?c) d (p_address p + off) bs = (ESP_OK, chips s' ?c)"
      using assms(2) w(1) by (auto simp: part_ok_def xts_ok_def)
    note e' = write_encrypted_ok [OF e c]
    show ?thesis using e'(1,3) xts_cipher_length [of "xts_enc (chips s ?c)" bs "p_address p + off"] c
      by (intro exI [of _ "xts_cipher (xts_enc (chips s ?c)) (p_address p + off) bs"]) (auto simp: cipher_ok_def)
  next
    case False
    then show ?thesis using write_ok(1) w(1) by auto
  qed
  then obtain cs where cs: "length cs = length bs"
    "later (chips s ?c) (program_mem (p_address p + off) cs (flash_mem (chips s ?c))) (chips s' ?c)" by blast
  show "flash_mem (chips s' ?c) a = flash_mem (chips s ?c) a" if "a < p_address p + off \<or> p_address p + off + length bs \<le> a"
    using cs that by (auto simp: later_def mem_op_outside)
  show "chip_cfg (chips s' ?c) = chip_cfg (chips s ?c)" using cs by (simp add: later_def)
qed


text \<open>
  One round of the loop. \<open>R\<close> is the erased range of the destination, which the source must not
  meet; then the source shows the same bytes for as long as the loop runs.
\<close>

definition apart_from :: "esp_partition_t \<Rightarrow> nat \<Rightarrow> nat \<Rightarrow> esp_partition_t \<Rightarrow> nat \<Rightarrow> nat \<Rightarrow> bool" where
  "apart_from dest R E src sc n \<longleftrightarrow> p_flash_chip dest \<noteq> 0 \<or>
     (R mod 16 = 0 \<and> E mod 16 = 0 \<and> (p_address src + sc + n \<le> R \<or> R + E \<le> p_address src + sc))"

lemma source_unchanged:
  assumes "esp_partition_write cfg dest d dc bs s = (ESP_OK, s')" and "part_ok dest s"
    and "R \<le> p_address dest + dc" and "p_address dest + dc + length bs \<le> R + E"
    and "apart_from dest R E src sc n" and "i < n"
  shows "flash_view (chips s' 0) (p_address src + sc + i) = flash_view (chips s 0) (p_address src + sc + i)"
proof (cases "p_flash_chip dest = 0")
  case True
  show ?thesis
  proof (rule view_outside)
    show "flash_mem (chips s' 0) x = flash_mem (chips s 0) x" if "x < R \<or> R + E \<le> x" for x
      using part_write_raw_frame(1) [OF assms(1,2), of x] that assms(3,4) True by auto
    show "chip_cfg (chips s' 0) = chip_cfg (chips s 0)" using part_write_raw_frame(2) [OF assms(1,2)] True by simp
    show "R mod 16 = 0" "E mod 16 = 0" "p_address src + sc + i < R \<or> R + E \<le> p_address src + sc + i"
      using assms(5,6) True by (auto simp: apart_from_def)
  qed
next
  case False
  then show ?thesis using part_write_other [OF assms(1)] by simp
qed

definition copied :: "esp_partition_t \<Rightarrow> esp_partition_t \<Rightarrow> nat \<Rightarrow> nat \<Rightarrow> nat \<Rightarrow> pstate \<Rightarrow> pstate \<Rightarrow> bool" where
  "copied dest src dc sc n s s' \<longleftrightarrow>
     (\<forall>i < n. part_view dest s' (p_address dest + dc + i) = flash_view (chips s 0) (p_address src + sc + i))
     \<and> (\<forall>a. a < p_address dest + dc \<or> p_address dest + dc + n \<le> a \<longrightarrow> part_view dest s' a = part_view dest s a)"

lemma copied_step:
  assumes w: "esp_partition_write cfg dest d dc bs s = (ESP_OK, s1)" and ok: "part_ok dest s"
    and bl: "\<And>a. p_address dest + dc \<le> a \<Longrightarrow> a < p_address dest + dc + length bs \<Longrightarrow> part_blank dest s a"
    and bs: "bs = rd_bytes (flash_view (chips s 0)) (p_address src + sc) (length bs)"
    and R: "R \<le> p_address dest + dc" "p_address dest + dc + length bs \<le> R + E" and ap: "apart_from dest R E src sc n"
    and k: "length bs \<le> n" and rest: "copied dest src (dc + length bs) (sc + length bs) (n - length bs) s1 s'"
  shows "copied dest src dc sc n s s'"
proof -
  let ?k = "length bs"
  have "part_view dest s' (p_address dest + dc + i) = flash_view (chips s 0) (p_address src + sc + i)" if i: "i < n" for i
  proof (cases "i < ?k")
    case True
    have "part_view dest s' (p_address dest + dc + i) = part_view dest s1 (p_address dest + dc + i)"
      using rest True by (simp add: copied_def)
    also have "\<dots> = bs ! i" using part.wr_contents [OF ok w bl True] .
    also have "\<dots> = rd_bytes (flash_view (chips s 0)) (p_address src + sc) ?k ! i" using bs by simp
    also have "\<dots> = flash_view (chips s 0) (p_address src + sc + i)" using True by (simp add: rd_bytes_def)
    finally show ?thesis .
  next
    case False
    define j where "j = i - ?k"
    have j: "i = ?k + j" "j < n - ?k" using False i by (auto simp: j_def)
    have "part_view dest s' (p_address dest + (dc + ?k) + j) = flash_view (chips s1 0) (p_address src + (sc + ?k) + j)"
      using rest j(2) unfolding copied_def by blast
    then have "part_view dest s' (p_address dest + dc + i) = flash_view (chips s1 0) (p_address src + sc + i)"
      unfolding j(1) by (simp add: add.assoc)
    then show ?thesis using source_unchanged [OF w ok R ap i] by simp
  qed
  moreover have "part_view dest s' a = part_view dest s a" if "a < p_address dest + dc \<or> p_address dest + dc + n \<le> a" for a
    using rest part.wr_frame [OF ok w, of a] that k by (auto simp: copied_def)
  ultimately show ?thesis by (simp add: copied_def)
qed

lemma view_mmap:
  assumes "esp_partition_mmap p off n s = ((e, bs), s')"
  shows "part_ok q s' = part_ok q s" and "part_view q s' = part_view q s" and "part_blank q s' = part_blank q s"
    and "flash_view (chips s' c) = flash_view (chips s c)"
proof -
  note l = part_mmap_later [OF assms]
  have "chips s' d = chips s d" if "d \<noteq> p_flash_chip p" for d
    using assms that by (auto simp: esp_partition_mmap_def on_chip_eq Let_def split: if_splits)
  then have c: "later (chips s d) (flash_mem (chips s d)) (chips s' d)" for d
    using l(1) by (cases "d = p_flash_chip p") auto
  show "part_ok q s' = part_ok q s" using later_ok [OF c] by (simp add: part_ok_def)
  show "part_view q s' = part_view q s" using later_view [OF c] c by (auto simp: part_view_def later_def)
  show "part_blank q s' = part_blank q s" using c [of "p_flash_chip q"] by (auto simp: part_blank_def later_def flash_erased_def)
  show "flash_view (chips s' c) = flash_view (chips s c)" using later_view [OF c] .
qed

definition copy_pre :: "esp_partition_t \<Rightarrow> esp_partition_t \<Rightarrow> nat \<Rightarrow> nat \<Rightarrow> nat \<Rightarrow> nat \<Rightarrow> nat \<Rightarrow> pstate \<Rightarrow> bool" where
  "copy_pre dest src R E dc sc n s \<longleftrightarrow> part_ok dest s \<and> p_address src + p_size src < 2 ^ 32 \<and> dc + n \<le> p_size dest \<and> sc + n \<le> p_size src
     \<and> (\<forall>a. p_address dest + dc \<le> a \<and> a < p_address dest + dc + n \<longrightarrow> part_blank dest s a)
     \<and> R \<le> p_address dest + dc \<and> p_address dest + dc + n \<le> R + E \<and> apart_from dest R E src sc n"

lemma copy_loop_copies:
  assumes "copy_loop cfg dest src dc sc n pages attempts err s = Some r"
  shows "fst r = ESP_OK \<longrightarrow> copy_pre dest src R E dc sc n s \<longrightarrow> copied dest src dc sc n s (snd r)"
proof (rule copy_loop.raw_induct [OF _ assms], intro impI, goal_cases)
  case (1 rec cfg dest src dc sc n pages attempts err s r)
  define chunk where "chunk = min n (mul32 pages SPI_FLASH_MMU_PAGE_SIZE)"
  have ck: "chunk \<le> n" by (simp add: chunk_def)
  obtain e data s1 where m: "esp_partition_mmap src sc chunk s = ((e, data), s1)" by (metis surj_pair)
  obtain e2 s2 where w: "esp_partition_write cfg dest False dc (take chunk data) s1 = (e2, s2)" by (rule prod.exhaust)
  obtain np s3 where g: "get_free_pages s1 = (np, s3)" by (rule prod.exhaust)
  note v = view_mmap [OF m]
  have s3: "chips s3 = chips s1" using g by (auto simp: get_free_pages_def split: list.splits)
  note pre = 1(4) [unfolded copy_pre_def]
  have step: "(if n = 0 then Some (err, s) else if e = ESP_OK
      then (if e2 \<noteq> ESP_OK then Some (e2, s2) else rec cfg dest src (add32 dc chunk) (add32 sc chunk) (n - chunk) pages 0 e2 s2)
      else (if 3 \<le> Suc attempts then Some (e, s3) else rec cfg dest src dc sc n np (Suc attempts) e s3)) = Some r"
    using 1(2) unfolding Let_def chunk_def [symmetric] m w g prod.case .
  consider (zero) "n = 0" "r = (err, s)" | (failed) "r = (e, s3)" "e \<noteq> ESP_OK" | (wfail) "r = (e2, s2)" "e2 \<noteq> ESP_OK"
    | (go) "n \<noteq> 0" "e = ESP_OK" "e2 = ESP_OK" "rec cfg dest src (add32 dc chunk) (add32 sc chunk) (n - chunk) pages 0 ESP_OK s2 = Some r"
    | (again) "n \<noteq> 0" "e \<noteq> ESP_OK" "rec cfg dest src dc sc n np (Suc attempts) e s3 = Some r"
    using step by (cases "n = 0"; cases "e = ESP_OK"; cases "e2 = ESP_OK"; cases "3 \<le> Suc attempts"; simp)
  then show ?case
  proof cases
    case zero
    then show ?thesis by (simp add: copied_def)
  next
    case again
    have same: "part_ok dest s3 = part_ok dest s" "part_view dest s3 = part_view dest s" "part_blank dest s3 = part_blank dest s"
      "flash_view (chips s3 0) = flash_view (chips s 0)"
      using v(1-3) [of dest] v(4) [of 0] part_chips [OF s3, of dest] s3 by simp_all
    have "copied dest src dc sc n s3 (snd r)" using 1(1) [OF again(3)] 1(3,4) same by (simp add: copy_pre_def)
    then show ?thesis using same by (simp add: copied_def)
  next
    case go
    note a = pre [THEN conjunct1] pre [THEN conjunct2, THEN conjunct1]
    have data: "take chunk data = rd_bytes (flash_view (chips s 0)) (p_address src + sc) chunk"
      using part_mmap_ok [OF m [unfolded go(2)] a(2)] by simp
    then have len: "length (take chunk data) = chunk" by simp
    have adds: "add32 dc chunk = dc + chunk" "add32 sc chunk = sc + chunk"
      using pre ck a by (auto simp: part_ok_def intro!: add32_exact)
    have ok1: "part_ok dest s1" using a(1) v(1) by simp
    have bl1: "part_blank dest s1 a" if "p_address dest + dc \<le> a" "a < p_address dest + dc + n" for a
      using pre that v(3) by simp
    note w' = w [unfolded go(3)]
    have "part_ok dest s2" using part.wr_inv [OF ok1 w'] .
    moreover have "part_blank dest s2 a" if "p_address dest + dc + chunk \<le> a" "a < p_address dest + dc + n" for a
      using part.wr_frame [OF ok1 w', of a] bl1 [of a] that len by simp
    moreover have "apart_from dest R E src (sc + chunk) (n - chunk)" using pre ck by (auto simp: apart_from_def)
    ultimately have "copy_pre dest src R E (dc + chunk) (sc + chunk) (n - chunk) s2"
      using pre ck by (simp add: copy_pre_def)
    then have "copied dest src (dc + chunk) (sc + chunk) (n - chunk) s2 (snd r)"
      using 1(1) [OF go(4)] 1(3) adds by simp
    then have "copied dest src dc sc n s1 (snd r)"
      using len data v(4) pre ck bl1 by (intro copied_step [OF w' ok1, of src sc R E]) (auto simp: add.assoc)
    then show ?thesis using v by (simp add: copied_def)
  qed (use 1(3) in auto)
qed

text \<open>
  C34: when \<^verbatim>\<open>esp_partition_copy\<close> succeeds, the destination shows, from \<open>dest_offset\<close> on, the bytes the
  mapping showed of the source before the call, for the requested number of bytes or, with
  \<^verbatim>\<open>SIZE_MAX\<close>, up to the end of the source; outside the erased sectors the destination's view is
  unchanged. The source must not meet the erased sectors of the destination.
\<close>

theorem partition_copy_copies:
  assumes "esp_partition_copy cfg (Some dest) doff (Some src) soff size_arg s = Some (ESP_OK, s')"
    and "part_ok dest s" and "p_address src + p_size src < 2 ^ 32"
    and "n = (if size_arg = SIZE_MAX then p_size src - soff else size_arg)"
    and "k = align_up SPI_FLASH_SEC_SIZE (if size_arg = SIZE_MAX then p_size dest - doff else size_arg)"
    and "p_size dest + SPI_FLASH_SEC_SIZE \<le> 2 ^ 32" and "apart_from dest (p_address dest + doff) k src soff n"
  shows "(\<forall>i < n. part_view dest s' (p_address dest + doff + i) = flash_view (chips s 0) (p_address src + soff + i))
    \<and> (\<forall>a. a < p_address dest + doff \<or> p_address dest + doff + k \<le> a \<longrightarrow> part_view dest s' a = part_view dest s a)"
proof -
  obtain e s1 where er: "esp_partition_erase_range dest doff k s = (e, s1)" by (rule prod.exhaust)
  obtain np s2 where g: "get_free_pages s1 = (np, s2)" by (rule prod.exhaust)
  have s2: "chips s2 = chips s1" using g by (auto simp: get_free_pages_def split: list.splits)
  have c: "e = ESP_OK" "copy_loop cfg dest src doff soff n np 0 ESP_OK s2 = Some (ESP_OK, s')"
      "soff + n \<le> p_size src" "doff + n \<le> p_size dest"
    using assms(1) unfolding esp_partition_copy_def by (auto simp: Let_def assms(4,5) [symmetric] er g split: if_splits)
  note e = er [unfolded c(1)]
  define x where "x = (if size_arg = SIZE_MAX then p_size dest - doff else size_arg)"
  have "n \<le> x" "x \<le> p_size dest" using c(4) assms(4) by (auto simp: x_def)
  then have nk: "n \<le> k" using align_up_bounds(1) [of SPI_FLASH_SEC_SIZE x] assms(5,6) unfolding x_def [symmetric] by simp
  have same: "part_ok dest s2 = part_ok dest s1" "part_view dest s2 = part_view dest s1" "part_blank dest s2 = part_blank dest s1"
    using part_chips [OF s2, of dest] by simp_all
  have bl: "part_blank dest s2 a" if "p_address dest + doff \<le> a" "a < p_address dest + doff + n" for a
    using part.er_blank [OF assms(2) e] that nk same by simp
  have "copy_pre dest src (p_address dest + doff) k doff soff n s2"
    using part.er_inv [OF assms(2) e] same assms(3,7) nk bl c by (simp add: copy_pre_def)
  then have cp: "copied dest src doff soff n s2 s'"
    using copy_loop_copies [OF c(2), of "p_address dest + doff" k] by simp
  have src: "flash_view (chips s2 0) (p_address src + soff + i) = flash_view (chips s 0) (p_address src + soff + i)" if "i < n" for i
  proof (cases "p_flash_chip dest = 0")
    case True
    have a: "p_address dest + p_size dest < 2 ^ 32" using assms(2) by (simp add: part_ok_def)
    note l = erase_region_ok [OF part_erase_ok(1) [OF e a]]
    show ?thesis
      using l True assms(7) that s2
      by (intro view_outside [of "p_address dest + doff" k]) (auto simp: later_def mem_op_outside apart_from_def)
  next
    case False
    then have "chips s1 0 = chips s 0" using e by (auto simp: esp_partition_erase_range_def on_chip_eq split: if_splits)
    then show ?thesis using s2 by simp
  qed
  show ?thesis
  proof (intro conjI allI impI)
    fix i assume "i < n"
    then show "part_view dest s' (p_address dest + doff + i) = flash_view (chips s 0) (p_address src + soff + i)"
      using cp src by (simp add: copied_def)
  next
    fix a assume "a < p_address dest + doff \<or> p_address dest + doff + k \<le> a"
    then show "part_view dest s' a = part_view dest s a"
      using cp part.er_frame [OF assms(2) e, of a] same nk by (auto simp: copied_def)
  qed
qed

end
