(* ===== verification/Partition_Examples.thy ===== *)
theory Partition_Examples
  imports Partition_List Partition_Copy
begin

text \<open>
  Concrete instances of the partition properties on a small device: a chip of 128 KB with two
  partitions, one of them read-only, and a chip that boots from a table with one partition.
\<close>

section \<open>A small device\<close>

definition demo_cfg :: config where
  "demo_cfg = \<lparr> table_offset = 0, table_md5 = True, nvs_pre_v4_3_flag = False, encrypted_rw = True, rom_md5 = (\<lambda>_. replicate 16 0) \<rparr>"

definition demo_part :: esp_partition_t where
  "demo_part = \<lparr> p_self = 1, p_flash_chip = 0, p_address = 65536, p_size = 32768, p_erase_size = 4096, p_type = 1, p_subtype = 0x81,
     p_label = [0x61], p_encrypted = False, p_readonly = True \<rparr>"

definition demo_part2 :: esp_partition_t where
  "demo_part2 = demo_part\<lparr> p_self := 2, p_address := 98304, p_label := [0x62], p_readonly := False \<rparr>"

definition demo_state :: pstate where
  "demo_state = \<lparr> chips = (\<lambda>_. demo_chip\<lparr> enc_enabled := False \<rparr>),
     part_list = [\<lparr> item_info = demo_part, user_registered = False \<rparr>, \<lparr> item_info = demo_part2, user_registered = False \<rparr>],
     heap_next = 10, allocs = [], free_pages = [] \<rparr>"

lemmas demo_defs = demo_cfg_def demo_part_def demo_part2_def demo_state_def demo_chip_def

theorem find_enumerates_witness:
  "fst (esp_partition_find_first demo_cfg 1 TYPE_ANY (Some [0x62]) demo_state) = Some demo_part2"
  using find_enumerates [of demo_state 1 TYPE_ANY "Some [0x62]" demo_cfg]
  by (simp add: Let_def part_matches_def demo_defs)

theorem partition_verify_finds_witness:
  "fst (esp_partition_verify demo_cfg (demo_part2\<lparr> p_self := 77 \<rparr>) demo_state) = Some demo_part2"
  using partition_verify_finds [of demo_state "demo_part2\<lparr> p_self := 77 \<rparr>" demo_cfg]
  by (simp add: same_region_def demo_defs)

theorem register_end_wraps_witness:
  "\<exists>p s'. esp_partition_register_external demo_cfg (Some 1) 4096 (2 ^ 32 - 4096) [] 1 2 demo_state = Some ((ESP_OK, Some p), s')
     \<and> p_size p > 131072"
  using register_end_wraps [of demo_state 1 4096 demo_cfg "[]" 1 2] by (simp add: demo_defs)

theorem register_empty_partition_blocks_chip_witness:
  "\<exists>p s'. esp_partition_register_external demo_cfg (Some 1) 4096 0 [] 1 2 demo_state = Some ((ESP_OK, Some p), s')
     \<and> esp_partition_register_external demo_cfg (Some 1) 8192 4096 [] 1 2 s' = None"
proof -
  obtain p s' where "esp_partition_register_external demo_cfg (Some 1) 4096 0 [] 1 2 demo_state = Some ((ESP_OK, Some p), s')"
    and "\<forall>off2 n2 l2 t2 st2. add32 off2 n2 \<le> chip_size (chips demo_state 1) \<longrightarrow>
         esp_partition_register_external demo_cfg (Some 1) off2 n2 l2 t2 st2 s' = None"
    using register_empty_partition_blocks_chip [of demo_state 1 4096 demo_cfg "[]" 1 2] by (auto simp: demo_defs)
  moreover have "add32 8192 4096 \<le> chip_size (chips demo_state 1)" by (simp add: add32_def demo_defs)
  ultimately show ?thesis by blast
qed

theorem partition_access_confined_witness:
  "\<exists>e s'. esp_partition_write demo_cfg demo_part2 True 16 [1, 2, 3] demo_state = (e, s') \<and> untouched_outside demo_part2 demo_state s'"
proof -
  obtain e s' where w: "esp_partition_write demo_cfg demo_part2 True 16 [1, 2, 3] demo_state = (e, s')" by (rule prod.exhaust)
  have "untouched_outside demo_part2 demo_state s'"
    using partition_access_confined [of demo_part2 demo_state e s' demo_cfg True 16 "[1, 2, 3]" 0] w
    by (simp add: demo_defs)
  then show ?thesis using w by blast
qed

lemma demo_erase:
  assumes "c = chips s 0" and "chips s 0 = demo_chip\<lparr> enc_enabled := False, flash_mem := m \<rparr>" and "4096 dvd off" and "4096 dvd n" and "off + n \<le> 32768"
  shows "esp_partition_erase_range demo_part2 off n s = (ESP_OK, s\<lparr> chips := (chips s)(0 := demo_chip\<lparr> enc_enabled := False, flash_mem := erase_mem (98304 + off) n m \<rparr>) \<rparr>)"
proof -
  have "esp_flash_erase_region (chips s 0) (98304 + off) n = (ESP_OK, (chips s 0)\<lparr> flash_mem := erase_mem (98304 + off) n (flash_mem (chips s 0)) \<rparr>)"
    using assms by (intro erase_region_live) (auto simp: demo_chip_def)
  then show ?thesis
    using assms by (auto simp: esp_partition_erase_range_def on_chip_def demo_part2_def demo_part_def add32_def)
qed

lemma demo_write:
  assumes "chips s 0 = demo_chip\<lparr> enc_enabled := False, flash_mem := m \<rparr>" and "off + length bs \<le> 32768"
  shows "esp_partition_write cfg demo_part2 d off bs s = (ESP_OK, s\<lparr> chips := (chips s)(0 := demo_chip\<lparr> enc_enabled := False, flash_mem := program_mem (98304 + off) bs m \<rparr>) \<rparr>)"
proof -
  have "esp_flash_write (chips s 0) d bs (98304 + off) = (ESP_OK, (chips s 0)\<lparr> flash_mem := program_mem (98304 + off) bs (flash_mem (chips s 0)) \<rparr>)"
    using assms by (intro write_live) (auto simp: demo_chip_def)
  then show ?thesis
    using assms by (auto simp: esp_partition_write_def on_chip_def demo_part2_def demo_part_def add32_def)
qed

theorem partition_image_read_back_witness:
  "\<exists>s1 s2 s3. esp_partition_erase_range demo_part2 4096 4096 demo_state = (ESP_OK, s1)
     \<and> write_chunks (esp_partition_write demo_cfg demo_part2 True) 4096 [[1, 2], [3]] s1 = (ESP_OK, s2)
     \<and> esp_partition_read demo_cfg demo_part2 True 4096 3 s2 = ((ESP_OK, [1, 2, 3]), s3)"
proof -
  obtain s1 where 1: "esp_partition_erase_range demo_part2 4096 4096 demo_state = (ESP_OK, s1)"
      and c1: "\<exists>m. chips s1 0 = demo_chip\<lparr> enc_enabled := False, flash_mem := m \<rparr>"
    using demo_erase [of _ demo_state "\<lambda>_. 0" 4096 4096] by (auto simp: demo_state_def demo_chip_def)
  obtain s2 where 2: "write_chunks (esp_partition_write demo_cfg demo_part2 True) 4096 [[1, 2], [3]] s1 = (ESP_OK, s2)"
      and c2: "\<exists>m. chips s2 0 = demo_chip\<lparr> enc_enabled := False, flash_mem := m \<rparr>"
  proof -
    obtain m where "chips s1 0 = demo_chip\<lparr> enc_enabled := False, flash_mem := m \<rparr>" using c1 by blast
    then show ?thesis using that by (simp add: demo_write) blast
  qed
  obtain bs s3 where 3: "esp_partition_read demo_cfg demo_part2 True 4096 (length (concat [[1, 2], [3 :: u8]])) s2 = ((ESP_OK, bs), s3)"
    using c2 by (auto simp: esp_partition_read_def on_chip_def demo_part2_def demo_part_def demo_chip_def add32_def esp_flash_read_def
        read_loop.simps MAX_READ_CHUNK_def Let_def)
  have "part_ok demo_part2 demo_state" by (simp add: part_ok_def flash_ok_def demo_defs)
  from partition_image_read_back [OF this 1 2 _ _ 3] have "bs = [1, 2, 3]" by simp
  moreover have "length (concat [[1, 2], [3 :: u8]]) = 3" by simp
  ultimately show ?thesis using 1 2 3 by metis
qed

theorem region_writable_iff_witness:
  "fst (esp_partition_is_flash_region_writable demo_cfg 98304 4096 demo_state)"
  using region_writable_iff [of demo_state 4096 98304 demo_cfg] by (simp add: demo_defs touches_def)

theorem region_safe_iff_witness:
  "esp_partition_main_flash_region_safe demo_cfg demo_part 98304 4096 \<and> \<not> esp_partition_main_flash_region_safe demo_cfg demo_part 61440 8192"
proof -
  have "touches 61440 8192 demo_part" unfolding touches_def by (rule exI [of _ 65536]) (simp add: demo_defs)
  then show ?thesis
    using region_safe_iff [of 4096 98304 demo_part demo_cfg] region_safe_iff [of 8192 61440 demo_part demo_cfg]
    by (simp add: demo_defs touches_def ESP_PARTITION_TABLE_MAX_LEN_def)
qed

theorem partition_copy_returns_witness:
  "\<exists>r. esp_partition_copy demo_cfg (Some demo_part2) 0 (Some demo_part) 0 100 (demo_state\<lparr> free_pages := [3] \<rparr>) = Some r"
  by (rule partition_copy_returns) (simp add: demo_state_def)

lemma mmap_live:
  assumes "drv_results (chips s 0) = []" and "off + n \<le> p_size p" and "p_flash_chip p = 0"
    and "add32 (p_address p) off mod SPI_FLASH_MMU_PAGE_SIZE = r" and "a = add32 (p_address p) off - r" and "k = add32 n r"
  shows "esp_partition_mmap p off n s = ((ESP_OK, drop r (rd_bytes (flash_view (chips s 0)) a k)), s)"
  using assms by (simp add: esp_partition_mmap_def on_chip_def spi_flash_mmap_def drv_status_def Let_def)

theorem partition_copy_copies_witness:
  "\<exists>s'. esp_partition_copy demo_cfg (Some demo_part2) 4096 (Some demo_part) 8 100 demo_state = Some (ESP_OK, s')
     \<and> part_view demo_part2 s' 102410 = 0"
proof -
  let ?e = "demo_state\<lparr> chips := (chips demo_state)(0 := demo_chip\<lparr> enc_enabled := False, flash_mem := erase_mem 102400 4096 (\<lambda>_. 0) \<rparr>) \<rparr>"
  have al: "align_up 4096 100 = 4096" by (simp add: align_up_def)
  have 1: "esp_partition_erase_range demo_part2 4096 4096 demo_state = (ESP_OK, ?e)"
    using demo_erase [of _ demo_state "\<lambda>_. 0" 4096 4096] by (simp add: demo_state_def demo_chip_def)
  define data where "data = drop 8 (rd_bytes (flash_view (chips ?e 0)) 65536 108)"
  have len: "length data = 100" by (simp add: data_def)
  have 2: "esp_partition_mmap demo_part 8 100 ?e = ((ESP_OK, data), ?e)"
    unfolding data_def by (rule mmap_live) (simp_all add: demo_part_def demo_chip_def add32_def SPI_FLASH_MMU_PAGE_SIZE_def)
  have ce: "chips ?e 0 = demo_chip\<lparr> enc_enabled := False, flash_mem := erase_mem 102400 4096 (\<lambda>_. 0) \<rparr>" by simp
  have bound: "4096 + length data \<le> 32768" by (simp add: len)
  obtain s' where 3: "esp_partition_write demo_cfg demo_part2 False 4096 data ?e = (ESP_OK, s')"
    using demo_write [OF ce bound] by blast
  have l0: "copy_loop c d p dc sc 0 pg at er s = Some (er, s)" for c d p dc sc pg at er s by (subst copy_loop.simps) simp
  have "copy_loop demo_cfg demo_part2 demo_part 4096 8 100 1 0 ESP_OK ?e = Some (ESP_OK, s')"
    using 2 3 len by (subst copy_loop.simps) (simp add: mul32_def SPI_FLASH_MMU_PAGE_SIZE_def l0)
  moreover have "get_free_pages ?e = (1, ?e)" by (simp add: get_free_pages_def demo_state_def)
  ultimately have c: "esp_partition_copy demo_cfg (Some demo_part2) 4096 (Some demo_part) 8 100 demo_state = Some (ESP_OK, s')"
    using 1 al by (simp add: esp_partition_copy_def demo_part_def demo_part2_def)
  have "part_ok demo_part2 demo_state" by (simp add: part_ok_def flash_ok_def demo_defs)
  from partition_copy_copies [OF c this _ refl refl] al
  have "\<forall>i < 100. part_view demo_part2 s' (98304 + 4096 + i) = flash_view (chips demo_state 0) (65536 + 8 + i)"
    by (simp add: demo_part_def demo_part2_def apart_from_def)
  from this [rule_format, of 10] have "part_view demo_part2 s' 102410 = 0" by (simp add: flash_view_def demo_state_def demo_chip_def)
  then show ?thesis using c by blast
qed

definition demo_table :: memory where
  "demo_table = table_mem [demo_entry [0, 0x80, 0, 0], md5_record (replicate 16 0)]"

definition demo_boot :: pstate where
  "demo_boot = demo_state\<lparr> chips := (\<lambda>_. demo_chip\<lparr> enc_enabled := False, flash_mem := demo_table \<rparr>), part_list := [] \<rparr>"

lemma demo_table_entry:
  "i_magic (rd_info demo_table 0) = 0x50AA" "i_pos (rd_info demo_table 0) = \<lparr> pos_offset = 0x10000, pos_size = 0x8000 \<rparr>"
  "i_magic (rd_info demo_table 32) = 0xEBEB" "rd_bytes demo_table 48 16 = replicate 16 0"
  "end_entry demo_table 0 2" "md5_entry demo_table 0 1" "\<not> md5_entry demo_table 0 0"
  "entry_ok (\<lambda>_. replicate 16 0) 131072 demo_table 0 0" "entry_ok (\<lambda>_. replicate 16 0) 131072 demo_table 0 1"
proof -
  let ?es = "[demo_entry [0, 0x80, 0, 0], md5_record (replicate 16 0)]"
  show a: "i_magic (rd_info demo_table 0) = 0x50AA" "i_pos (rd_info demo_table 0) = \<lparr> pos_offset = 0x10000, pos_size = 0x8000 \<rparr>"
    using rd_demo_entry [of 0 ?es "[0, 0x80, 0, 0]"] by (simp_all add: demo_table_def rd32_def)
  show b: "i_magic (rd_info demo_table 32) = 0xEBEB" "rd_bytes demo_table 48 16 = replicate 16 0"
    using rd_md5_record [of 1 ?es "replicate 16 0"] by (simp_all add: demo_table_def)
  show "end_entry demo_table 0 2" using table_end [of ?es] by (simp add: demo_table_def numeral_2_eq_2)
  show "md5_entry demo_table 0 1" "\<not> md5_entry demo_table 0 0" by (simp_all add: md5_entry_def a b)
  show "entry_ok (\<lambda>_. replicate 16 0) 131072 demo_table 0 0" "entry_ok (\<lambda>_. replicate 16 0) 131072 demo_table 0 1"
    by (simp_all add: entry_ok_def a b add32_def)
qed

lemma demo_boot_view: "flash_view (chips demo_boot 0) = demo_table" "drv_results (chips demo_boot 0) = []" "allocs demo_boot = []"
    "part_list demo_boot = []" "table_offset demo_cfg = 0" "table_md5 demo_cfg" "rom_md5 demo_cfg = (\<lambda>_. replicate 16 0)"
  by (simp_all add: demo_boot_def demo_state_def demo_chip_def flash_view_def demo_cfg_def)

lemma demo_table_verified: "esp_partition_table_verify (\<lambda>_. replicate 16 0) 131072 demo_table 0 = (ESP_OK, 1)"
proof -
  obtain n where n: "\<And>md5 cs m. esp_partition_table_verify md5 cs m 0 = verify_entries md5 cs m 0 (Suc (Suc (Suc (Suc n)))) 0 False"
    using verify_start by blast
  show ?thesis
    unfolding n using demo_table_entry verify_part [of demo_table 0 0] verify_md5 [of demo_table 0 1] verify_end [of 2 demo_table 0]
    by (simp add: numeral_2_eq_2 del: verify_entries.simps)
qed

theorem load_reads_verified_table_witness:
  "\<exists>s' x. load_partitions demo_cfg demo_boot = (ESP_OK, s') \<and> part_list s' = [x] \<and> p_address (item_info x) = 65536"
proof -
  obtain s' where l: "load_partitions demo_cfg demo_boot = (ESP_OK, s')"
    and la: "list_all2 item_of_entry (part_list s') (map (\<lambda>j. rd_info demo_table (0 + 32 * j)) [0..<1])"
    using load_reads_verified_table [of demo_cfg demo_boot 131072 1, THEN conjunct1, THEN spec, of 1] demo_boot_view demo_table_verified demo_table_entry(6) by auto
  from la obtain x where "part_list s' = [x]" "item_of_entry x (rd_info demo_table 0)" by (auto simp: list_all2_Cons2)
  then show ?thesis using l demo_table_entry(2) by (auto simp: item_of_entry_def)
qed

lemma demo_boot_loads:
  "\<exists>s1 x. ensure_partitions_loaded demo_cfg demo_boot = (ESP_OK, s1) \<and> part_list s1 = [x] \<and> p_address (item_info x) = 65536
     \<and> p_size (item_info x) = 32768 \<and> p_flash_chip (item_info x) = 0 \<and> allocs s1 = [] \<and> chips s1 = chips demo_boot"
proof -
  obtain s1 where l: "load_partitions demo_cfg demo_boot = (ESP_OK, s1)" and a: "allocs s1 = []" "chips s1 = chips demo_boot"
    and la: "list_all2 item_of_entry (part_list s1) (map (\<lambda>j. rd_info demo_table (0 + 32 * j)) [0..<1])"
    using load_verified [of demo_cfg demo_boot 131072 1 1] demo_boot_view demo_table_verified demo_table_entry(6) by auto
  from la obtain x where "part_list s1 = [x]" "item_of_entry x (rd_info demo_table 0)" by (auto simp: list_all2_Cons2)
  then show ?thesis
    using l a demo_table_entry(2) demo_boot_view(4) by (auto simp: item_of_entry_def ensure_partitions_loaded_def)
qed

theorem plist_reachable_inv_witness:
  "\<exists>s'. (plist_step demo_cfg)\<^sup>*\<^sup>* demo_boot s' \<and> length (part_list s') = 2 \<and> disjoint_parts (item_info (part_list s' ! 0)) (item_info (part_list s' ! 1))
     \<and> p_address (item_info (part_list s' ! 1)) + p_size (item_info (part_list s' ! 1)) \<le> 131072"
proof -
  obtain s1 x where l: "ensure_partitions_loaded demo_cfg demo_boot = (ESP_OK, s1)" and x: "part_list s1 = [x]"
      "p_address (item_info x) = 65536" "p_size (item_info x) = 32768" "p_flash_chip (item_info x) = 0" and a: "allocs s1 = []" "chips s1 = chips demo_boot"
    using demo_boot_loads by blast
  have cs: "chip_size (chips demo_boot c) = 131072" for c by (simp add: demo_boot_def demo_chip_def)
  obtain r s2 p where r: "esp_partition_register_external demo_cfg None 98304 4096 [] 1 2 s1 = Some (r, s2)" and n: "part_list s2 = [x, \<lparr> item_info = p, user_registered = True \<rparr>]"
      "p_flash_chip p = 0" "p_address p = 98304" "p_size p = 4096"
    using x a cs by (simp add: esp_partition_register_external_def ensure_loaded_id heap_alloc_def bootloader_util_regions_overlap_def intptr_def add32_def Let_def)
  have "plist_step demo_cfg demo_boot s1" "plist_step demo_cfg s1 s2" using step_load [OF l] step_register [OF r] by simp_all
  then have reach: "(plist_step demo_cfg)\<^sup>*\<^sup>* demo_boot s2" by (meson converse_rtranclp_into_rtranclp rtranclp.rtrancl_refl)
  note c = plist_reachable_inv [OF reach demo_boot_view(4)]
  have "disjoint_parts (item_info (part_list s2 ! 0)) (item_info (part_list s2 ! 1))"
    using c [THEN conjunct2, THEN conjunct1, THEN spec, of 0, THEN spec, of 1] n x(4) by simp
  moreover have "p_address p + p_size p \<le> chip_size (chips demo_boot 0)" using c [THEN conjunct2, THEN conjunct2] n by simp
  ultimately show ?thesis using reach n cs by auto
qed

end
