(* ===== verification/Ota_Data.thy ===== *)
theory Ota_Data
  imports Part_Table
begin

text \<open>
  \<^verbatim>\<open>bootloader_support/src/bootloader_common_loader.c\<close>, shared by the bootloader and the
  application: the two OTA selection records and the choice between them, the chip revision
  checks, and the memory that survives a reset. The CRC routine in ROM is a parameter, as are
  the values read from eFuses.
\<close>

section \<open>OTA selection records\<close>

type_synonym crc_fn = "u32 \<Rightarrow> u8 list \<Rightarrow> u32"

abbreviation (input) UINT32_MAX :: u32 where "UINT32_MAX \<equiv> - 1"
abbreviation (input) ESP_OTA_IMG_NEW :: u32 where "ESP_OTA_IMG_NEW \<equiv> 0"
abbreviation (input) ESP_OTA_IMG_PENDING_VERIFY :: u32 where "ESP_OTA_IMG_PENDING_VERIFY \<equiv> 1"
abbreviation (input) ESP_OTA_IMG_VALID :: u32 where "ESP_OTA_IMG_VALID \<equiv> 2"
abbreviation (input) ESP_OTA_IMG_INVALID :: u32 where "ESP_OTA_IMG_INVALID \<equiv> 3"
abbreviation (input) ESP_OTA_IMG_ABORTED :: u32 where "ESP_OTA_IMG_ABORTED \<equiv> 4"
abbreviation (input) ESP_OTA_IMG_UNDEFINED :: u32 where "ESP_OTA_IMG_UNDEFINED \<equiv> - 1"

record esp_ota_select_entry_t =
  ota_seq :: u32
  seq_label :: "u8 list"
  ota_state :: u32
  ota_crc :: u32

text \<open>The 32-byte record in memory and back.\<close>

definition select_bytes :: "esp_ota_select_entry_t \<Rightarrow> u8 list" where
  "select_bytes s = bytes_of_u32 (ota_seq s) @ seq_label s @ bytes_of_u32 (ota_state s) @ bytes_of_u32 (ota_crc s)"

definition rd_select :: "memory \<Rightarrow> nat \<Rightarrow> esp_ota_select_entry_t" where
  "rd_select m a = \<lparr> ota_seq = rd32 m a, seq_label = rd_bytes m (a + 4) 20, ota_state = rd32 m (a + 24), ota_crc = rd32 m (a + 28) \<rparr>"

definition bootloader_common_ota_select_crc :: "crc_fn \<Rightarrow> esp_ota_select_entry_t \<Rightarrow> u32" where
  "bootloader_common_ota_select_crc crc s = crc UINT32_MAX (bytes_of_u32 (ota_seq s))"

definition bootloader_common_ota_select_invalid :: "esp_ota_select_entry_t \<Rightarrow> bool" where
  "bootloader_common_ota_select_invalid s \<longleftrightarrow>
     ota_seq s = UINT32_MAX \<or> ota_state s = ESP_OTA_IMG_INVALID \<or> ota_state s = ESP_OTA_IMG_ABORTED"

definition bootloader_common_ota_select_valid :: "crc_fn \<Rightarrow> esp_ota_select_entry_t \<Rightarrow> bool" where
  "bootloader_common_ota_select_valid crc s \<longleftrightarrow>
     \<not> bootloader_common_ota_select_invalid s \<and> ota_crc s = bootloader_common_ota_select_crc crc s"

text \<open>An array of two is a pair; a NULL pointer is \<open>None\<close>. The result is an index or \<open>- 1\<close>.\<close>

type_synonym two_otadata = "esp_ota_select_entry_t \<times> esp_ota_select_entry_t"

definition bootloader_common_select_otadata :: "two_otadata option \<Rightarrow> (bool \<times> bool) option \<Rightarrow> bool \<Rightarrow> int" where
  "bootloader_common_select_otadata two_otadata valid_two_otadata mx =
     (case (two_otadata, valid_two_otadata) of
        (Some (d0, d1), Some (v0, v1)) \<Rightarrow>
          if v0 \<and> v1 then
            let condition = (if mx then max (ota_seq d0) (ota_seq d1) else min (ota_seq d0) (ota_seq d1))
            in if condition = ota_seq d0 then 0 else 1
          else if v0 then 0 else if v1 then 1 else - 1
      | _ \<Rightarrow> - 1)"

definition bootloader_common_get_active_otadata :: "crc_fn \<Rightarrow> two_otadata option \<Rightarrow> int" where
  "bootloader_common_get_active_otadata crc two_otadata =
     (case two_otadata of
        None \<Rightarrow> - 1
      | Some (d0, d1) \<Rightarrow>
          bootloader_common_select_otadata (Some (d0, d1))
            (Some (bootloader_common_ota_select_valid crc d0, bootloader_common_ota_select_valid crc d1)) True)"

section \<open>Chip revisions\<close>

text \<open>The fields of the image header that the code reads.\<close>

record esp_image_header_t =
  hdr_magic :: u8
  hdr_segment_count :: nat
  hdr_entry_addr :: nat
  hdr_hash_appended :: bool
  hdr_chip_id :: nat
  hdr_min_chip_rev_full :: nat
  hdr_max_chip_rev_full :: nat

record efuse_revisions =
  chip_revision :: nat
  disable_wafer_version_major :: bool
  blk_version :: nat
  disable_blk_version_major :: bool

definition IS_FIELD_SET :: "nat \<Rightarrow> bool" where
  "IS_FIELD_SET rev_full \<longleftrightarrow> rev_full \<noteq> 65535 \<and> rev_full \<noteq> 0"

definition bootloader_common_check_chip_revision_validity :: "efuse_revisions \<Rightarrow> esp_image_header_t option \<Rightarrow> bool \<Rightarrow> bool" where
  "bootloader_common_check_chip_revision_validity ef img_hdr check_max_revision =
     (case img_hdr of
        None \<Rightarrow> False
      | Some h \<Rightarrow>
          if \<not> hdr_min_chip_rev_full h \<le> chip_revision ef then False
          else if check_max_revision \<and> IS_FIELD_SET (hdr_max_chip_rev_full h) \<and> chip_revision ef > hdr_max_chip_rev_full h
            \<and> \<not> disable_wafer_version_major ef then False
          else True)"

definition bootloader_common_check_efuse_blk_validity :: "efuse_revisions \<Rightarrow> nat \<Rightarrow> nat \<Rightarrow> esp_err" where
  "bootloader_common_check_efuse_blk_validity ef min_rev_full max_rev_full =
     (let revision = blk_version ef;
          err1 = (if IS_FIELD_SET min_rev_full \<and> \<not> min_rev_full \<le> revision then ESP_FAIL else ESP_OK)
      in if IS_FIELD_SET max_rev_full \<and> revision > max_rev_full \<and> \<not> disable_blk_version_major ef then ESP_FAIL else err1)"

datatype esp_image_type = ESP_IMAGE_BOOTLOADER | ESP_IMAGE_APPLICATION

text \<open>\<open>chip_id\<close> is \<^verbatim>\<open>CONFIG_IDF_FIRMWARE_CHIP_ID\<close>.\<close>

definition bootloader_common_check_chip_validity :: "nat \<Rightarrow> efuse_revisions \<Rightarrow> esp_image_header_t \<Rightarrow> esp_image_type \<Rightarrow> esp_err" where
  "bootloader_common_check_chip_validity chip_id ef img_hdr type =
     (if chip_id \<noteq> hdr_chip_id img_hdr then ESP_FAIL
      else if type = ESP_IMAGE_APPLICATION \<and> \<not> bootloader_common_check_chip_revision_validity ef (Some img_hdr) True then ESP_FAIL
      else if type = ESP_IMAGE_BOOTLOADER \<and> \<not> bootloader_common_check_chip_revision_validity ef (Some img_hdr) False then ESP_FAIL
      else ESP_OK)"

section \<open>Memory that survives a reset\<close>

record rtc_retain_mem_t =
  rt_partition :: esp_partition_pos_t
  rt_reboot_counter :: u16
  rt_flags :: u8
  rt_reserve :: u8
  rt_custom :: "u8 list"
  rt_crc :: u32

text \<open>
  The bytes the checksum covers; \<open>custom_in_crc\<close> is
  \<^verbatim>\<open>CONFIG_BOOTLOADER_CUSTOM_RESERVE_RTC_IN_CRC\<close> (\<open>rt_custom\<close> is empty when no custom memory is
  reserved).
\<close>

definition rtc_retain_bytes :: "bool \<Rightarrow> rtc_retain_mem_t \<Rightarrow> u8 list" where
  "rtc_retain_bytes custom_in_crc r =
     bytes_of_u32 (of_nat (pos_offset (rt_partition r))) @ bytes_of_u32 (of_nat (pos_size (rt_partition r)))
     @ [ucast (rt_reboot_counter r), ucast (drop_bit 8 (rt_reboot_counter r)), rt_flags r, rt_reserve r]
     @ (if custom_in_crc then rt_custom r else [])"

definition is_retain_mem_valid :: "crc_fn \<Rightarrow> bool \<Rightarrow> rtc_retain_mem_t \<Rightarrow> bool" where
  "is_retain_mem_valid crc cc r \<longleftrightarrow> crc UINT32_MAX (rtc_retain_bytes cc r) = rt_crc r \<and> rt_crc r \<noteq> UINT32_MAX"

definition update_rtc_retain_mem_crc :: "crc_fn \<Rightarrow> bool \<Rightarrow> rtc_retain_mem_t \<Rightarrow> rtc_retain_mem_t" where
  "update_rtc_retain_mem_crc crc cc r = r\<lparr> rt_crc := crc UINT32_MAX (rtc_retain_bytes cc r) \<rparr>"

definition bootloader_common_reset_rtc_retain_mem :: "rtc_retain_mem_t \<Rightarrow> rtc_retain_mem_t" where
  "bootloader_common_reset_rtc_retain_mem r =
     \<lparr> rt_partition = \<lparr> pos_offset = 0, pos_size = 0 \<rparr>, rt_reboot_counter = 0, rt_flags = 0, rt_reserve = 0,
       rt_custom = replicate (length (rt_custom r)) 0, rt_crc = 0 \<rparr>"

definition bootloader_common_get_rtc_retain_mem_reboot_counter :: "crc_fn \<Rightarrow> bool \<Rightarrow> rtc_retain_mem_t \<Rightarrow> u16" where
  "bootloader_common_get_rtc_retain_mem_reboot_counter crc cc r = (if is_retain_mem_valid crc cc r then rt_reboot_counter r else 0)"

definition bootloader_common_set_rtc_retain_mem_factory_reset_state :: "crc_fn \<Rightarrow> bool \<Rightarrow> rtc_retain_mem_t \<Rightarrow> rtc_retain_mem_t" where
  "bootloader_common_set_rtc_retain_mem_factory_reset_state crc cc r =
     (let r1 = (if \<not> is_retain_mem_valid crc cc r then bootloader_common_reset_rtc_retain_mem r else r)
      in update_rtc_retain_mem_crc crc cc (r1\<lparr> rt_flags := rt_flags r1 OR 1 \<rparr>))"

definition bootloader_common_get_rtc_retain_mem_factory_reset_state :: "crc_fn \<Rightarrow> bool \<Rightarrow> rtc_retain_mem_t \<Rightarrow> bool \<times> rtc_retain_mem_t" where
  "bootloader_common_get_rtc_retain_mem_factory_reset_state crc cc r =
     (if is_retain_mem_valid crc cc r then
        (if bit (rt_flags r) 0 then (True, update_rtc_retain_mem_crc crc cc (r\<lparr> rt_flags := rt_flags r AND 0xFE \<rparr>)) else (False, r))
      else (False, r))"

definition bootloader_common_get_rtc_retain_mem_partition :: "crc_fn \<Rightarrow> bool \<Rightarrow> rtc_retain_mem_t \<Rightarrow> esp_partition_pos_t option" where
  "bootloader_common_get_rtc_retain_mem_partition crc cc r = (if is_retain_mem_valid crc cc r then Some (rt_partition r) else None)"

definition bootloader_common_update_rtc_retain_mem :: "crc_fn \<Rightarrow> bool \<Rightarrow> esp_partition_pos_t option \<Rightarrow> bool \<Rightarrow> rtc_retain_mem_t \<Rightarrow> rtc_retain_mem_t" where
  "bootloader_common_update_rtc_retain_mem crc cc part reboot_counter r =
     (let r1 = (if reboot_counter then
                  (let r0 = (if \<not> is_retain_mem_valid crc cc r then bootloader_common_reset_rtc_retain_mem r else r);
                       c = rt_reboot_counter r0 + 1
                   in r0\<lparr> rt_reboot_counter := (if c = 0 then c - 1 else c) \<rparr>)
                else r);
          r2 = (case part of None \<Rightarrow> r1 | Some p \<Rightarrow> r1\<lparr> rt_partition := p \<rparr>)
      in update_rtc_retain_mem_crc crc cc r2)"

section \<open>Properties\<close>

lemma length_select_bytes: "length (seq_label s) = 20 \<Longrightarrow> length (select_bytes s) = 32"
  by (simp add: select_bytes_def)

lemma rd32_at:
  assumes "\<And>i. i < 4 \<Longrightarrow> m (a + i) = bytes_of_u32 w ! i"
  shows "rd32 m a = w"
  using rd32_bytes [of w] assms [of 0] assms [of 1] assms [of 2] assms [of 3] by (simp add: rd32_def bytes_of_u32_def)

text \<open>Reading back a record from memory that holds its bytes.\<close>

lemma rd_select_bytes:
  assumes "\<And>i. i < 32 \<Longrightarrow> m (a + i) = select_bytes s ! i" and "length (seq_label s) = 20"
  shows "rd_select m a = s"
proof -
  have l: "length (bytes_of_u32 w) = 4" for w by simp
  have "rd32 m a = ota_seq s"
    by (rule rd32_at) (use assms in \<open>simp add: select_bytes_def nth_append\<close>)
  moreover have "rd32 m (a + 24) = ota_state s"
  proof (rule rd32_at)
    fix i :: nat assume "i < 4"
    then show "m (a + 24 + i) = bytes_of_u32 (ota_state s) ! i"
      using assms(1) [of "24 + i"] assms(2) by (simp add: select_bytes_def nth_append add.assoc)
  qed
  moreover have "rd32 m (a + 28) = ota_crc s"
  proof (rule rd32_at)
    fix i :: nat assume "i < 4"
    then show "m (a + 28 + i) = bytes_of_u32 (ota_crc s) ! i"
      using assms(1) [of "28 + i"] assms(2) by (simp add: select_bytes_def nth_append add.assoc)
  qed
  moreover have "rd_bytes m (a + 4) 20 = seq_label s"
  proof (rule nth_equalityI)
    fix i assume "i < length (rd_bytes m (a + 4) 20)"
    then have "i < 20" by simp
    then show "rd_bytes m (a + 4) 20 ! i = seq_label s ! i"
      using assms(1) [of "4 + i"] assms(2) by (simp add: rd_bytes_def select_bytes_def nth_append add.assoc)
  qed (simp add: assms(2))
  ultimately show ?thesis by (simp add: rd_select_def)
qed

text \<open>The record at an index of the pair.\<close>

definition otadata_at :: "two_otadata \<Rightarrow> int \<Rightarrow> esp_ota_select_entry_t" where
  "otadata_at d i = (if i = 0 then fst d else snd d)"

lemma active_otadata_cases:
  "bootloader_common_get_active_otadata crc (Some d) =
     (let v0 = bootloader_common_ota_select_valid crc (fst d); v1 = bootloader_common_ota_select_valid crc (snd d) in
      if v0 \<and> (v1 \<longrightarrow> ota_seq (snd d) \<le> ota_seq (fst d)) then 0 else if v1 then 1 else - 1)"
  by (cases d) (auto simp: bootloader_common_get_active_otadata_def bootloader_common_select_otadata_def Let_def max_def)

lemma active_range: "bootloader_common_get_active_otadata crc (Some d) \<in> {- 1, 0, 1}"
  by (auto simp: active_otadata_cases Let_def)

text \<open>
  C36: the active record is the valid one with the greatest sequence number (the first copy on a
  tie), and there is none exactly when neither copy is valid: neither erased, nor marked
  invalid or aborted, nor with a wrong checksum.
\<close>

theorem active_otadata_is_newest_valid:
  "let i = bootloader_common_get_active_otadata crc (Some d); valid = bootloader_common_ota_select_valid crc in
     (i = - 1 \<longleftrightarrow> \<not> valid (fst d) \<and> \<not> valid (snd d)) \<and>
     (i \<noteq> - 1 \<longrightarrow> i \<in> {0, 1} \<and> valid (otadata_at d i) \<and>
        (\<forall>j \<in> {0, 1}. valid (otadata_at d j) \<longrightarrow> ota_seq (otadata_at d j) \<le> ota_seq (otadata_at d i)))"
  by (auto simp: active_otadata_cases Let_def otadata_at_def)

definition demo_select :: "u32 \<Rightarrow> u32 \<Rightarrow> esp_ota_select_entry_t" where
  "demo_select seq st = \<lparr> ota_seq = seq, seq_label = replicate 20 0xFF, ota_state = st, ota_crc = seq \<rparr>"

definition demo_crc :: crc_fn where
  "demo_crc i bs = rd32 (\<lambda>k. bs ! k) 0"

lemma demo_select_valid: "bootloader_common_ota_select_crc demo_crc (demo_select seq st) = seq"
  by (simp add: bootloader_common_ota_select_crc_def demo_crc_def demo_select_def) (rule rd32_at, simp)

theorem active_otadata_is_newest_valid_witness:
  "let d = (demo_select 5 2, demo_select 6 4); i = bootloader_common_get_active_otadata demo_crc (Some d)
   in i \<noteq> - 1 \<and> bootloader_common_ota_select_valid demo_crc (otadata_at d i)"
proof -
  have "bootloader_common_ota_select_valid demo_crc (demo_select 5 2)"
    using demo_select_valid [of 5 2] by (simp add: bootloader_common_ota_select_valid_def bootloader_common_ota_select_invalid_def demo_select_def)
  then show ?thesis
    using active_otadata_is_newest_valid [of demo_crc "(demo_select 5 2, demo_select 6 4)"] unfolding Let_def by auto
qed

lemma updated_valid:
  "rt_crc (update_rtc_retain_mem_crc crc cc r) \<noteq> UINT32_MAX \<Longrightarrow> is_retain_mem_valid crc cc (update_rtc_retain_mem_crc crc cc r)"
  by (simp add: is_retain_mem_valid_def update_rtc_retain_mem_crc_def rtc_retain_bytes_def)

lemma update_crc_fields [simp]:
  "rt_flags (update_rtc_retain_mem_crc crc cc r) = rt_flags r"
  "rt_reboot_counter (update_rtc_retain_mem_crc crc cc r) = rt_reboot_counter r"
  "rt_partition (update_rtc_retain_mem_crc crc cc r) = rt_partition r"
  by (simp_all add: update_rtc_retain_mem_crc_def)

text \<open>
  The factory-reset flag is delivered once. After it is set, on whatever the memory held, the
  next query returns true and the query after that false, unless the checksum happens to be
  the reserved value.
\<close>

theorem factory_reset_state_once:
  assumes "bootloader_common_set_rtc_retain_mem_factory_reset_state crc cc r = r1" and "rt_crc r1 \<noteq> UINT32_MAX"
    and "bootloader_common_get_rtc_retain_mem_factory_reset_state crc cc r1 = (b1, r2)"
    and "bootloader_common_get_rtc_retain_mem_factory_reset_state crc cc r2 = (b2, r3)"
  shows "b1 \<and> \<not> b2 \<and> r3 = r2"
proof -
  obtain r0 where r1: "r1 = update_rtc_retain_mem_crc crc cc (r0\<lparr> rt_flags := rt_flags r0 OR 1 \<rparr>)"
    using assms(1) by (auto simp: bootloader_common_set_rtc_retain_mem_factory_reset_state_def Let_def)
  have "is_retain_mem_valid crc cc r1" using updated_valid assms(2) r1 by blast
  moreover have "bit (rt_flags r1) 0" by (simp add: r1 bit_simps)
  ultimately have 2: "b1" "r2 = update_rtc_retain_mem_crc crc cc (r1\<lparr> rt_flags := rt_flags r1 AND 0xFE \<rparr>)"
    using assms(3) by (auto simp: bootloader_common_get_rtc_retain_mem_factory_reset_state_def)
  have "\<not> bit (rt_flags r2) 0" by (simp add: 2 bit_simps)
  then show ?thesis using assms(4) 2(1) by (auto simp: bootloader_common_get_rtc_retain_mem_factory_reset_state_def split: if_splits)
qed

definition demo_retain :: rtc_retain_mem_t where
  "demo_retain = \<lparr> rt_partition = \<lparr> pos_offset = 1, pos_size = 2 \<rparr>, rt_reboot_counter = 7, rt_flags = 0, rt_reserve = 0, rt_custom = [], rt_crc = 9 \<rparr>"

theorem factory_reset_state_once_witness:
  "fst (bootloader_common_get_rtc_retain_mem_factory_reset_state (\<lambda>_ _. 1) False
     (bootloader_common_set_rtc_retain_mem_factory_reset_state (\<lambda>_ _. 1) False demo_retain))"
proof -
  let ?r1 = "bootloader_common_set_rtc_retain_mem_factory_reset_state (\<lambda>_ _. 1) False demo_retain"
  obtain b1 r2 where 1: "bootloader_common_get_rtc_retain_mem_factory_reset_state (\<lambda>_ _. 1) False ?r1 = (b1, r2)" by (rule prod.exhaust)
  obtain b2 r3 where 2: "bootloader_common_get_rtc_retain_mem_factory_reset_state (\<lambda>_ _. 1) False r2 = (b2, r3)" by (rule prod.exhaust)
  have "rt_crc ?r1 \<noteq> UINT32_MAX"
    by (simp add: bootloader_common_set_rtc_retain_mem_factory_reset_state_def update_rtc_retain_mem_crc_def Let_def)
  from factory_reset_state_once [OF refl this 1 2] show ?thesis using 1 by simp
qed

lemma update_ends_with_crc: "\<exists>q. bootloader_common_update_rtc_retain_mem crc cc p b r = update_rtc_retain_mem_crc crc cc q"
  unfolding bootloader_common_update_rtc_retain_mem_def Let_def by (rule exI) (rule refl)

text \<open>The saturating counter as a natural number.\<close>

lemma counter_step:
  assumes "bootloader_common_update_rtc_retain_mem crc cc p True r = r1"
  shows "unat (rt_reboot_counter r1) =
    min (unat (bootloader_common_get_rtc_retain_mem_reboot_counter crc cc r) + 1) 65535"
proof -
  define c where "c = bootloader_common_get_rtc_retain_mem_reboot_counter crc cc r"
  have "rt_reboot_counter r1 = (if c + 1 = 0 then - 1 else c + 1)"
    using assms by (auto simp: bootloader_common_update_rtc_retain_mem_def c_def
        bootloader_common_get_rtc_retain_mem_reboot_counter_def bootloader_common_reset_rtc_retain_mem_def Let_def split: option.splits)
  moreover have "unat (if c + 1 = 0 then - 1 else c + 1) = min (unat c + 1) 65535"
  proof (cases "c = - 1")
    case True
    then show ?thesis by (simp add: unsigned_minus_1_eq_mask mask_eq_exp_minus_1)
  next
    case False
    then have nz: "c + 1 \<noteq> 0" by (metis add_eq_0_iff add.commute)
    then have "unat (c + 1) = Suc (unat c)" using unatSuc [of c] by (simp add: add.commute)
    moreover have "unat c < 65535"
    proof -
      have "unat (c + 1) < 2 ^ 16" using unsigned_less [of "c + 1", where ?'a = nat] by simp
      then show ?thesis using \<open>unat (c + 1) = Suc (unat c)\<close> by simp
    qed
    ultimately show ?thesis using nz by simp
  qed
  ultimately show ?thesis by (simp add: c_def)
qed

text \<open>
  The reboot counter counts the boots since power-on and stops at 65535 instead of wrapping:
  after \<open>n\<close> updates it is the old count (zero for memory that was not valid) plus \<open>n\<close>, or 65535,
  as long as no checksum on the way is the reserved value.
\<close>

theorem reboot_counter_saturates:
  assumes "\<forall>k \<le> n. 0 < k \<longrightarrow> rt_crc ((bootloader_common_update_rtc_retain_mem crc cc p True ^^ k) r) \<noteq> UINT32_MAX"
  shows "unat (bootloader_common_get_rtc_retain_mem_reboot_counter crc cc ((bootloader_common_update_rtc_retain_mem crc cc p True ^^ n) r)) =
    min (unat (bootloader_common_get_rtc_retain_mem_reboot_counter crc cc r) + n) 65535"
  using assms
proof (induction n)
  case 0
  have "unat w \<le> 65535" for w :: u16 using unsigned_less [of w, where ?'a = nat] by simp
  then show ?case by simp
next
  case (Suc n)
  let ?f = "bootloader_common_update_rtc_retain_mem crc cc p True"
  let ?r = "(?f ^^ n) r"
  have "rt_crc (?f ?r) \<noteq> UINT32_MAX" using Suc.prems [rule_format, of "Suc n"] by simp
  then have "is_retain_mem_valid crc cc (?f ?r)"
    using update_ends_with_crc [of crc cc p True ?r] updated_valid by metis
  then show ?case using counter_step [OF refl, of crc cc p ?r] Suc
    by (simp add: bootloader_common_get_rtc_retain_mem_reboot_counter_def [of crc cc "?f ?r"])
qed

theorem reboot_counter_saturates_witness:
  "unat (bootloader_common_get_rtc_retain_mem_reboot_counter (\<lambda>_ _. 1) False
     ((bootloader_common_update_rtc_retain_mem (\<lambda>_ _. 1) False None True ^^ 70000) demo_retain)) = 65535"
proof -
  have "rt_crc ((bootloader_common_update_rtc_retain_mem (\<lambda>_ _. 1) False None True ^^ k) demo_retain) \<noteq> UINT32_MAX" if "0 < k" for k
    using that by (cases k) (simp_all add: bootloader_common_update_rtc_retain_mem_def update_rtc_retain_mem_crc_def Let_def)
  then show ?thesis using reboot_counter_saturates [of 70000 "\<lambda>_ _. 1" False None demo_retain]
    by (simp add: min_def)
qed

end
