(* ===== verification/Efuse_Version.thy ===== *)
theory Efuse_Version
  imports Prelude
begin

text \<open>
  The secure version in one-time programmable bits (\<^verbatim>\<open>components/efuse/src/esp_efuse_fields.c\<close>):
  the version is the number of bits burnt in the field, so it can only grow. \<open>size\<close> is the
  usable width of the field, \<open>burnt\<close> tells whether the write into the eFuse block succeeded
  (its result is ignored by the code). The field uses no coding scheme when \<open>plain_coding\<close>.
\<close>

definition esp_efuse_read_secure_version :: "nat \<Rightarrow> u32 \<Rightarrow> nat" where
  "esp_efuse_read_secure_version sz field = length (filter (bit field) [0..<sz])"

definition esp_efuse_check_secure_version :: "nat \<Rightarrow> u32 \<Rightarrow> nat \<Rightarrow> bool" where
  "esp_efuse_check_secure_version sz field secure_version \<longleftrightarrow> secure_version \<ge> esp_efuse_read_secure_version sz field"

definition esp_efuse_update_secure_version :: "nat \<Rightarrow> bool \<Rightarrow> bool \<Rightarrow> nat \<Rightarrow> u32 \<Rightarrow> esp_err \<times> u32" where
  "esp_efuse_update_secure_version sz plain_coding burnt secure_version field =
     (if sz < secure_version then (ESP_ERR_INVALID_ARG, field)
      else if \<not> plain_coding then (ESP_ERR_NOT_SUPPORTED, field)
      else
        let sec_ver_hw = esp_efuse_read_secure_version sz field in
        if sec_ver_hw < secure_version then
          let num_bit_hw = of_nat (2 ^ sec_ver_hw - 1) :: u32;
              num_bit_app = of_nat (2 ^ secure_version - 1) :: u32;
              new_bits = num_bit_app - num_bit_hw
          in (ESP_OK, if burnt then field OR take_bit sz new_bits else field)
        else if sec_ver_hw > secure_version then (ESP_FAIL, field)
        else (ESP_OK, field))"

section \<open>Properties\<close>

lemma read_mask: "k \<le> sz \<Longrightarrow> sz \<le> 32 \<Longrightarrow> esp_efuse_read_secure_version sz (mask k) = k"
proof -
  assume "k \<le> sz" "sz \<le> 32"
  then have "filter (bit (mask k :: u32)) [0..<sz] = filter (\<lambda>i. i < k) [0..<sz]"
    by (intro filter_cong) (auto simp: bit_mask_iff)
  also have "\<dots> = [0..<k]"
    using \<open>k \<le> sz\<close> upt_add_eq_append [of 0 k "sz - k"] by simp
  finally show ?thesis by (simp add: esp_efuse_read_secure_version_def)
qed

lemma mask_diff:
  assumes "k \<le> v"
  shows "(of_nat (2 ^ v - 1) - of_nat (2 ^ k - 1) :: u32) = mask v AND NOT (mask k)"
proof -
  have m: "(of_nat (2 ^ n - 1) :: u32) = mask n" for n by (simp add: mask_eq_exp_minus_1)
  have "(mask k :: u32) AND (mask v AND NOT (mask k)) = 0" by (intro bit_word_eqI) (auto simp: bit_simps)
  then have "(mask k :: u32) + (mask v AND NOT (mask k)) = mask k OR (mask v AND NOT (mask k))"
    by (rule disjunctive_add_eq_or)
  also have "\<dots> = mask v" using assms by (intro bit_word_eqI) (auto simp: bit_simps)
  finally have "(mask v :: u32) - mask k = mask v AND NOT (mask k)" by (metis add_diff_cancel_left')
  then show ?thesis by (simp only: m)
qed

lemma new_bits_mask:
  assumes "k \<le> v" and "v \<le> sz"
  shows "(mask k :: u32) OR take_bit sz (of_nat (2 ^ v - 1) - of_nat (2 ^ k - 1)) = mask v"
  unfolding mask_diff [OF assms(1)] using assms by (intro bit_word_eqI) (auto simp: bit_simps)

lemma read_mono: "(\<And>i. bit f i \<Longrightarrow> bit g i) \<Longrightarrow> esp_efuse_read_secure_version sz f \<le> esp_efuse_read_secure_version sz g"
proof -
  assume a: "\<And>i. bit f i \<Longrightarrow> bit g i"
  have "length (filter (bit f) xs) \<le> length (filter (bit g) xs)" for xs using a by (induction xs) auto
  then show ?thesis by (simp add: esp_efuse_read_secure_version_def)
qed

text \<open>
  C37: anti-rollback is monotone. On a field whose \<open>k\<close> lowest bits are burnt, updating to a version
  the field can hold succeeds exactly for versions that are not older, and then the field reads
  as that version; afterwards every older version is refused.
\<close>

theorem secure_version_update:
  assumes "k \<le> sz" and "sz \<le> 32" and "v \<le> sz"
    and "esp_efuse_update_secure_version sz True True v (mask k) = (e, field)"
  shows "(e = ESP_OK \<longleftrightarrow> k \<le> v) \<and> field = mask (max k v) \<and> esp_efuse_read_secure_version sz field = max k v
    \<and> (\<forall>w. esp_efuse_check_secure_version sz field w \<longleftrightarrow> max k v \<le> w)"
proof -
  have r: "esp_efuse_read_secure_version sz (mask k) = k" using read_mask assms(1,2) .
  have "field = mask (max k v)" "e = ESP_OK \<longleftrightarrow> k \<le> v"
    using assms(3,4) r new_bits_mask [of k v sz] by (auto simp: esp_efuse_update_secure_version_def Let_def max_def split: if_splits)
  then show ?thesis using read_mask [of "max k v" sz] assms(1-3) by (simp add: esp_efuse_check_secure_version_def)
qed

theorem secure_version_update_witness:
  "esp_efuse_update_secure_version 16 True True 5 (mask 3) = (ESP_OK, mask 5) \<and> \<not> esp_efuse_check_secure_version 16 (mask 5) 4"
proof -
  obtain e f where u: "esp_efuse_update_secure_version 16 True True 5 (mask 3) = (e, f)" by (rule prod.exhaust)
  have "f = mask 5" "e = ESP_OK" "\<not> esp_efuse_check_secure_version 16 f 4"
    using secure_version_update [OF _ _ _ u] by auto
  then show ?thesis using u by simp
qed

text \<open>Whatever the field holds, whichever version is asked for and whether or not burning works.\<close>

lemma secure_version_never_decreases:
  "esp_efuse_read_secure_version sz field \<le> esp_efuse_read_secure_version sz (snd (esp_efuse_update_secure_version sz pc burnt v field))"
  by (rule read_mono) (simp add: esp_efuse_update_secure_version_def Let_def bit_simps)

end
