(* ===== verification/Ota_Ops.thy ===== *)
theory Ota_Ops
  imports Partition Ota_Data Efuse_Version "HOL-Library.Monad_Syntax"
begin

text \<open>
  The over-the-air update API of \<^verbatim>\<open>components/app_update/esp_ota_ops.c\<close>, complete: writing an
  image through a handle, switching the boot partition by rewriting one of the two OTA selection
  records, confirming or rejecting the running image, and the queries.

  \<^item> The state is the partition state together with the static variables of the file, the eFuse
    field of the secure version, and two settings of other modules that the code changes.
  \<^item> A function maps a state to a result and a new state; \<open>None\<close> is a failed assertion or an
    abort.
  \<^item> Build options, ROM and eFuse routines and the image verifier (\<^verbatim>\<open>esp_image_verify\<close>, which only
    reads) are the fields of \<open>ota_env\<close>. NULL pointers are \<open>None\<close>; out-parameters are results.
\<close>

section \<open>State and environment\<close>

record ota_ops_entry_t =
  e_handle :: nat
  e_staging :: esp_partition_t
  e_final :: esp_partition_t
  e_finalize_with_copy :: bool
  e_need_erase :: bool
  e_wrote_size :: nat
  e_partial_bytes :: nat
  e_ota_resumption :: bool
  e_partial_data :: "u8 list"

record ota_state =
  ps :: pstate
  s_ota_ops_entries :: "ota_ops_entry_t list"
  s_ota_ops_last_handle :: nat
  curr_partition :: "esp_partition_t option"
  secure_version_field :: u32
  bootloader_offset :: nat
  dangerous_write_protection :: bool
  revoked_digests :: "nat list"
  restarted :: bool

record ota_env =
  cfg :: config
  rollback_enable :: bool
  anti_rollback :: bool
  crc32_le :: crc_fn
  image_verify :: "nat \<Rightarrow> nat \<Rightarrow> pstate \<Rightarrow> esp_err"
  cache2phys :: "nat option"
  sec_ver_size :: nat
  bootloader_offset_in_flash :: nat
  secure_boot_enabled :: bool
  read_key_digests :: "esp_err \<times> bool list"
  verify_with_digest :: "nat \<Rightarrow> nat \<Rightarrow> nat \<Rightarrow> pstate \<Rightarrow> esp_err"
  set_digest_revoke :: "nat \<Rightarrow> esp_err"

type_synonym 'a ota = "ota_state \<Rightarrow> ('a \<times> ota_state) option"

abbreviation (input) OTA_SIZE_UNKNOWN :: nat where "OTA_SIZE_UNKNOWN \<equiv> 0xFFFFFFFF"
abbreviation (input) OTA_WITH_SEQUENTIAL_WRITES :: nat where "OTA_WITH_SEQUENTIAL_WRITES \<equiv> 0xFFFFFFFE"
abbreviation (input) SUBTYPE_APP_FACTORY :: nat where "SUBTYPE_APP_FACTORY \<equiv> 0x00"
abbreviation (input) SUBTYPE_APP_OTA_MIN :: nat where "SUBTYPE_APP_OTA_MIN \<equiv> 0x10"
abbreviation (input) SUBTYPE_APP_OTA_MAX :: nat where "SUBTYPE_APP_OTA_MAX \<equiv> 0x20"
abbreviation (input) SUBTYPE_APP_TEST :: nat where "SUBTYPE_APP_TEST \<equiv> 0x20"

text \<open>A call into the partition layer.\<close>

definition part_call :: "(pstate \<Rightarrow> 'a \<times> pstate) \<Rightarrow> 'a ota" where
  "part_call op s = (case op (ps s) of (r, p) \<Rightarrow> Some (r, s\<lparr> ps := p \<rparr>))"

definition find_first :: "ota_env \<Rightarrow> nat \<Rightarrow> nat \<Rightarrow> esp_partition_t option ota" where
  "find_first env type subtype = part_call (esp_partition_find_first (cfg env) type subtype None)"

definition SUB_TYPE_ID :: "nat \<Rightarrow> nat" where
  "SUB_TYPE_ID i = i mod 16"

definition is_ota_partition :: "esp_partition_t option \<Rightarrow> bool" where
  "is_ota_partition p = (case p of None \<Rightarrow> False
     | Some q \<Rightarrow> p_type q = PART_TYPE_APP \<and> p_subtype q \<ge> SUBTYPE_APP_OTA_MIN \<and> p_subtype q < SUBTYPE_APP_OTA_MAX)"

section \<open>Reading the OTA data\<close>

text \<open>The partition is mapped as whole MMU pages, which are then read at the two record positions.\<close>

definition read_otadata :: "ota_env \<Rightarrow> (esp_partition_t \<times> two_otadata) option ota" where
  "read_otadata env s = do {
     (p, s1) \<leftarrow> find_first env PART_TYPE_DATA PART_SUBTYPE_DATA_OTA s;
     case p of
       None \<Rightarrow> Some (None, s1)
     | Some part \<Rightarrow> do {
         (r, s2) \<leftarrow> part_call (esp_partition_mmap part 0 (p_size part)) s1;
         if fst r \<noteq> ESP_OK then Some (None, s2)
         else
           let m = flash_view (chips (ps s2) 0)
           in Some (Some (part, rd_select m (p_address part), rd_select m (p_address part + p_erase_size part)), s2)
       }
   }"

definition image_validate :: "ota_env \<Rightarrow> esp_partition_t \<Rightarrow> ota_state \<Rightarrow> esp_err" where
  "image_validate env p s = (if image_verify env (p_address p) (p_size p) (ps s) \<noteq> ESP_OK then ESP_ERR_OTA_VALIDATE_FAILED else ESP_OK)"

definition set_new_state_otadata :: "ota_env \<Rightarrow> u32" where
  "set_new_state_otadata env = (if rollback_enable env then ESP_OTA_IMG_NEW else ESP_OTA_IMG_UNDEFINED)"

function count_loop :: "ota_env \<Rightarrow> nat \<Rightarrow> nat ota" where
  "count_loop env n s =
     (case find_first env PART_TYPE_APP (SUBTYPE_APP_OTA_MIN + n) s of
        None \<Rightarrow> None
      | Some (None, s1) \<Rightarrow> Some (n, s1)
      | Some (Some _, s1) \<Rightarrow> if \<not> n < 16 then None else count_loop env (Suc n) s1)"
  by pat_completeness auto
termination
  by (relation "measure (\<lambda>(env, n, s). 17 - n)") auto

declare count_loop.simps [simp del]

definition esp_ota_get_app_partition_count :: "ota_env \<Rightarrow> nat ota" where
  "esp_ota_get_app_partition_count env = count_loop env 0"

text \<open>\<^verbatim>\<open>(ota_seq - 1) % ota_app_count\<close> on 32-bit unsigned numbers.\<close>

definition ota_slot :: "esp_ota_select_entry_t \<Rightarrow> nat \<Rightarrow> nat" where
  "ota_slot d n = unat (ota_seq d - 1) mod n"

section \<open>The running partition\<close>

function running_loop :: "nat \<Rightarrow> esp_partition_iterator_opaque_t option \<Rightarrow> esp_partition_t option" where
  "running_loop phys_offs None = None"
| "running_loop phys_offs (Some it) =
     (case it_info it of
        None \<Rightarrow> None
      | Some p \<Rightarrow>
          if p_address p \<le> phys_offs \<and> add32 (p_address p) (p_size p) > phys_offs then Some p
          else running_loop phys_offs (esp_partition_next it))"
  by pat_completeness auto
termination
proof (relation "measure (\<lambda>(a, it). case it of None \<Rightarrow> 0 | Some i \<Rightarrow> Suc (length (it_next i)))", goal_cases)
  case (2 a it p)
  then show ?case using next_shrinks [of it] by (auto split: option.splits)
qed simp

definition esp_ota_get_running_partition :: "ota_env \<Rightarrow> esp_partition_t ota" where
  "esp_ota_get_running_partition env s =
     (case curr_partition s of
        Some p \<Rightarrow> Some (p, s)
      | None \<Rightarrow>
          (case cache2phys env of
             None \<Rightarrow> None
           | Some phys_offs \<Rightarrow> do {
               (it, s1) \<leftarrow> part_call (esp_partition_find (cfg env) PART_TYPE_APP SUBTYPE_ANY None) s;
               p \<leftarrow> running_loop phys_offs it;
               Some (p, s1\<lparr> curr_partition := Some p \<rparr>)
             }))"

section \<open>Rewriting the OTA data\<close>

definition rewrite_ota_seq :: "ota_env \<Rightarrow> two_otadata option \<Rightarrow> u32 \<Rightarrow> nat \<Rightarrow> esp_partition_t \<Rightarrow> esp_err ota" where
  "rewrite_ota_seq env two_otadata seq sec_id part s =
     (case two_otadata of
        None \<Rightarrow> Some (ESP_ERR_INVALID_ARG, s)
      | Some d \<Rightarrow>
          if sec_id > 1 then Some (ESP_ERR_INVALID_ARG, s)
          else
            let d1 = (otadata_at d (int sec_id))\<lparr> ota_seq := seq \<rparr>;
                d2 = d1\<lparr> ota_crc := bootloader_common_ota_select_crc (crc32_le env) d1 \<rparr>
            in do {
              (ret, s1) \<leftarrow> part_call (esp_partition_erase_range part (mul32 sec_id (p_erase_size part)) (p_erase_size part)) s;
              if ret \<noteq> ESP_OK then Some (ret, s1)
              else part_call (esp_partition_write (cfg env) part True (mul32 (p_erase_size part) sec_id) (select_bytes d2)) s1
            })"

text \<open>\<open>otadata[i].ota_state = st\<close>\<close>

definition set_state :: "two_otadata \<Rightarrow> int \<Rightarrow> u32 \<Rightarrow> two_otadata" where
  "set_state d i st = (if i = 0 then ((fst d)\<lparr> ota_state := st \<rparr>, snd d) else (fst d, (snd d)\<lparr> ota_state := st \<rparr>))"

text \<open>
  \<^verbatim>\<open>while (seq > base + i * n) i++\<close> in 32-bit arithmetic; \<open>None\<close> if it never ends.
\<close>

partial_function (option) seq_loop :: "nat \<Rightarrow> nat \<Rightarrow> nat \<Rightarrow> nat \<Rightarrow> nat option" where
  "seq_loop seq base n i = (if seq > add32 base (mul32 i n) then seq_loop seq base n (add32 i 1) else Some i)"

definition esp_rewrite_ota_data :: "ota_env \<Rightarrow> nat \<Rightarrow> esp_err ota" where
  "esp_rewrite_ota_data env subtype s = do {
     (od, s1) \<leftarrow> read_otadata env s;
     case od of
       None \<Rightarrow> Some (ESP_ERR_NOT_FOUND, s1)
     | Some (part, otadata) \<Rightarrow> do {
         (n, s2) \<leftarrow> esp_ota_get_app_partition_count env s1;
         if SUB_TYPE_ID subtype \<ge> n then Some (ESP_ERR_INVALID_ARG, s2)
         else
           let active = bootloader_common_get_active_otadata (crc32_le env) (Some otadata) in
           if active \<noteq> - 1 then do {
             i \<leftarrow> seq_loop (unat (ota_seq (otadata_at otadata active))) ((SUB_TYPE_ID subtype + 1) mod n) n 0;
             rewrite_ota_seq env (Some (set_state otadata (1 - active) (set_new_state_otadata env)))
               (of_nat (add32 ((SUB_TYPE_ID subtype + 1) mod n) (mul32 i n))) (nat (1 - active)) part s2
           }
           else rewrite_ota_seq env (Some (set_state otadata 0 (set_new_state_otadata env))) (of_nat (SUB_TYPE_ID subtype + 1)) 0 part s2
       }
   }"

section \<open>Descriptions and the secure version\<close>

text \<open>The image and segment headers in front of a description take 32 bytes.\<close>

definition esp_ota_get_partition_description :: "ota_env \<Rightarrow> esp_partition_t option \<Rightarrow> (esp_err \<times> u8 list) ota" where
  "esp_ota_get_partition_description env p s =
     (case p of
        None \<Rightarrow> Some ((ESP_ERR_INVALID_ARG, []), s)
      | Some part \<Rightarrow>
          if p_type part \<noteq> PART_TYPE_APP then Some ((ESP_ERR_NOT_SUPPORTED, []), s)
          else do {
            (r, s1) \<leftarrow> part_call (esp_partition_read (cfg env) part True 32 256) s;
            if fst r \<noteq> ESP_OK then Some (r, s1)
            else if rd32 (\<lambda>i. snd r ! i) 0 \<noteq> 0xABCD5432 then Some ((ESP_ERR_NOT_FOUND, snd r), s1)
            else Some ((ESP_OK, snd r), s1)
          })"

definition app_secure_version :: "u8 list \<Rightarrow> nat" where
  "app_secure_version desc = unat (rd32 (\<lambda>i. desc ! i) 4)"

definition esp_ota_get_bootloader_description :: "ota_env \<Rightarrow> esp_partition_t option \<Rightarrow> (esp_err \<times> u8 list) ota" where
  "esp_ota_get_bootloader_description env p s =
     (let part = (case p of
          None \<Rightarrow> \<lparr> p_self = 0, p_flash_chip = 0, p_address = bootloader_offset_in_flash env,
                    p_size = sub32 (table_offset (cfg env)) (bootloader_offset_in_flash env), p_erase_size = 0, p_type = 0, p_subtype = 0,
                    p_label = [], p_encrypted = enc_enabled (chips (ps s) 0), p_readonly = False \<rparr>
        | Some q \<Rightarrow> q)
      in do {
        (r, s1) \<leftarrow> part_call (esp_partition_read (cfg env) part True 32 80) s;
        if fst r \<noteq> ESP_OK then Some (r, s1)
        else if snd r ! 0 \<noteq> 80 then Some ((ESP_ERR_NOT_FOUND, snd r), s1)
        else Some ((ESP_OK, snd r), s1)
      })"

definition esp_ota_set_anti_rollback :: "ota_env \<Rightarrow> esp_err ota" where
  "esp_ota_set_anti_rollback env s = do {
     (p, s1) \<leftarrow> esp_ota_get_running_partition env s;
     (r, s2) \<leftarrow> esp_ota_get_partition_description env (Some p) s1;
     if fst r = ESP_OK then
       (case esp_efuse_update_secure_version (sec_ver_size env) True True (app_secure_version (snd r)) (secure_version_field s2) of
          (e, f) \<Rightarrow> Some (e, s2\<lparr> secure_version_field := f \<rparr>))
     else Some (fst r, s2)
   }"

section \<open>Choosing the boot partition\<close>

definition esp_ota_set_boot_partition :: "ota_env \<Rightarrow> esp_partition_t option \<Rightarrow> esp_err ota" where
  "esp_ota_set_boot_partition env p s =
     (case p of
        None \<Rightarrow> Some (ESP_ERR_INVALID_ARG, s)
      | Some part \<Rightarrow>
          if image_validate env part s \<noteq> ESP_OK then Some (ESP_ERR_OTA_VALIDATE_FAILED, s)
          else if p_type part = PART_TYPE_APP then
            (if p_subtype part = SUBTYPE_APP_FACTORY then do {
               (od, s1) \<leftarrow> find_first env PART_TYPE_DATA PART_SUBTYPE_DATA_OTA s;
               case od of
                 Some q \<Rightarrow> part_call (esp_partition_erase_range q 0 (p_size q)) s1
               | None \<Rightarrow> Some (ESP_ERR_NOT_FOUND, s1)
             }
             else if anti_rollback env then do {
               (r, s1) \<leftarrow> esp_ota_get_partition_description env (Some part) s;
               if fst r \<noteq> ESP_OK then Some (fst r, s1)
               else if \<not> esp_efuse_check_secure_version (sec_ver_size env) (secure_version_field s1) (app_secure_version (snd r)) then do {
                 (e, s2) \<leftarrow> part_call (esp_partition_erase_range part 0 (p_size part)) s1;
                 if e \<noteq> ESP_OK then Some (e, s2) else Some (ESP_ERR_OTA_SMALL_SEC_VER, s2)
               }
               else esp_rewrite_ota_data env (p_subtype part) s1
             }
             else esp_rewrite_ota_data env (p_subtype part) s)
          else Some (ESP_ERR_INVALID_ARG, s))"

fun find_first_of :: "ota_env \<Rightarrow> nat list \<Rightarrow> esp_partition_t option ota" where
  "find_first_of env [] s = Some (None, s)"
| "find_first_of env (t # ts) s = do {
     (p, s1) \<leftarrow> find_first env PART_TYPE_APP t s;
     case p of Some q \<Rightarrow> Some (Some q, s1) | None \<Rightarrow> find_first_of env ts s1
   }"

text \<open>Factory, then the OTA slots in order, then the test slot.\<close>

definition find_default_boot_partition :: "ota_env \<Rightarrow> esp_partition_t option ota" where
  "find_default_boot_partition env = find_first_of env (SUBTYPE_APP_FACTORY # [SUBTYPE_APP_OTA_MIN..<SUBTYPE_APP_OTA_MAX] @ [SUBTYPE_APP_TEST])"

definition esp_ota_get_boot_partition :: "ota_env \<Rightarrow> esp_partition_t option ota" where
  "esp_ota_get_boot_partition env s = do {
     (od, s1) \<leftarrow> read_otadata env s;
     case od of
       None \<Rightarrow> Some (None, s1)
     | Some (part, otadata) \<Rightarrow> do {
         (n, s2) \<leftarrow> esp_ota_get_app_partition_count env s1;
         if (bootloader_common_ota_select_invalid (fst otadata) \<and> bootloader_common_ota_select_invalid (snd otadata)) \<or> n = 0
         then find_default_boot_partition env s2
         else
           let active = bootloader_common_get_active_otadata (crc32_le env) (Some otadata) in
           if active \<noteq> - 1
           then find_first env PART_TYPE_APP (SUBTYPE_APP_OTA_MIN + ota_slot (otadata_at otadata active) n) s2
           else find_default_boot_partition env s2
       }
   }"

fun next_loop :: "ota_env \<Rightarrow> esp_partition_t \<Rightarrow> nat list \<Rightarrow> esp_partition_t option \<Rightarrow> bool \<Rightarrow> esp_partition_t option ota" where
  "next_loop env start_from [] default_ota next_is_result s = Some (default_ota, s)"
| "next_loop env start_from (t # ts) default_ota next_is_result s = do {
     (q, s1) \<leftarrow> find_first env PART_TYPE_APP t s;
     case q of
       None \<Rightarrow> next_loop env start_from ts default_ota next_is_result s1
     | Some p \<Rightarrow>
         let default' = (case default_ota of None \<Rightarrow> Some p | Some d \<Rightarrow> Some d) in
         if p_self p = p_self start_from then next_loop env start_from ts default' True s1
         else if next_is_result then Some (Some p, s1)
         else next_loop env start_from ts default' next_is_result s1
   }"

definition esp_ota_get_next_update_partition :: "ota_env \<Rightarrow> esp_partition_t option \<Rightarrow> esp_partition_t option ota" where
  "esp_ota_get_next_update_partition env start s = do {
     (sf, s1) \<leftarrow> (case start of
         None \<Rightarrow> map_option (\<lambda>(p, s'). (Some p, s')) (esp_ota_get_running_partition env s)
       | Some p \<Rightarrow> part_call (esp_partition_verify (cfg env) p) s);
     start_from \<leftarrow> sf;
     next_loop env start_from [SUBTYPE_APP_OTA_MIN..<SUBTYPE_APP_OTA_MAX] None False s1
   }"

section \<open>State of the images\<close>

definition esp_ota_get_state_partition :: "ota_env \<Rightarrow> esp_partition_t option \<Rightarrow> (esp_err \<times> u32 option) ota" where
  "esp_ota_get_state_partition env p s =
     (case p of
        None \<Rightarrow> Some ((ESP_ERR_INVALID_ARG, None), s)
      | Some part \<Rightarrow>
          if \<not> is_ota_partition p then Some ((ESP_ERR_NOT_SUPPORTED, None), s)
          else do {
            (n, s1) \<leftarrow> esp_ota_get_app_partition_count env s;
            (od, s2) \<leftarrow> read_otadata env s1;
            case od of
              None \<Rightarrow> Some ((ESP_ERR_NOT_FOUND, None), s2)
            | Some (_, otadata) \<Rightarrow>
                if n = 0 then Some ((ESP_ERR_NOT_FOUND, None), s2)
                else
                  let req_ota_slot = p_subtype part - SUBTYPE_APP_OTA_MIN;
                      matches = (\<lambda>d. ota_slot d n = req_ota_slot \<and> ota_crc d = bootloader_common_ota_select_crc (crc32_le env) d)
                  in if matches (fst otadata) then Some ((ESP_OK, Some (ota_state (fst otadata))), s2)
                     else if matches (snd otadata) then Some ((ESP_OK, Some (ota_state (snd otadata))), s2)
                     else Some ((ESP_ERR_NOT_FOUND, None), s2)
          })"

definition esp_ota_check_rollback_is_possible :: "ota_env \<Rightarrow> bool ota" where
  "esp_ota_check_rollback_is_possible env s = do {
     (od, s1) \<leftarrow> read_otadata env s;
     case od of
       None \<Rightarrow> Some (False, s1)
     | Some (_, otadata) \<Rightarrow> do {
         (n, s2) \<leftarrow> esp_ota_get_app_partition_count env s1;
         if n = 0 then Some (False, s2)
         else
           let v0 = bootloader_common_ota_select_valid (crc32_le env) (fst otadata);
               v1 = bootloader_common_ota_select_valid (crc32_le env) (snd otadata);
               active = bootloader_common_select_otadata (Some otadata) (Some (v0, v1)) True;
               last_active = 1 - active;
               last_valid = (if last_active = 0 then v0 else v1)
           in if active = - 1 then Some (False, s2)
              else if \<not> last_valid then
                (if anti_rollback env then Some (False, s2)
                 else do {
                   (p, s3) \<leftarrow> find_first env PART_TYPE_APP SUBTYPE_APP_FACTORY s2;
                   case p of None \<Rightarrow> Some (False, s3) | Some q \<Rightarrow> Some (image_validate env q s3 = ESP_OK, s3)
                 })
              else do {
                (p, s3) \<leftarrow> find_first env PART_TYPE_APP (SUBTYPE_APP_OTA_MIN + ota_slot (otadata_at otadata last_active) n) s2;
                case p of
                  None \<Rightarrow> Some (False, s3)
                | Some q \<Rightarrow>
                    if image_validate env q s3 \<noteq> ESP_OK then Some (False, s3)
                    else if anti_rollback env then do {
                      (r, s4) \<leftarrow> esp_ota_get_partition_description env (Some q) s3;
                      Some (fst r = ESP_OK \<and> esp_efuse_check_secure_version (sec_ver_size env) (secure_version_field s4) (app_secure_version (snd r)), s4)
                    }
                    else Some (True, s3)
              }
       }
   }"

definition esp_ota_current_ota_is_workable :: "ota_env \<Rightarrow> bool \<Rightarrow> esp_err ota" where
  "esp_ota_current_ota_is_workable env valid s = do {
     (od, s1) \<leftarrow> read_otadata env s;
     case od of
       None \<Rightarrow> Some (ESP_ERR_NOT_FOUND, s1)
     | Some (part, otadata) \<Rightarrow>
         let active = bootloader_common_get_active_otadata (crc32_le env) (Some otadata) in
         if active = - 1 then Some (ESP_FAIL, s1)
         else do {
           (n, s2) \<leftarrow> esp_ota_get_app_partition_count env s1;
           if n = 0 then Some (ESP_FAIL, s2)
           else
             let d = otadata_at otadata active in
             if valid \<and> ota_state d \<noteq> ESP_OTA_IMG_VALID then do {
               (err, s3) \<leftarrow> rewrite_ota_seq env (Some (set_state otadata active ESP_OTA_IMG_VALID)) (ota_seq d) (nat active) part s2;
               if anti_rollback env \<and> err = ESP_OK then esp_ota_set_anti_rollback env s3 else Some (err, s3)
             }
             else if \<not> valid then do {
               (possible, s3) \<leftarrow> esp_ota_check_rollback_is_possible env s2;
               if \<not> possible then Some (ESP_ERR_OTA_ROLLBACK_FAILED, s3)
               else rewrite_ota_seq env (Some (set_state otadata active ESP_OTA_IMG_INVALID)) (ota_seq d) (nat active) part s3
             }
             else Some (ESP_OK, s2)
         }
   }"

definition esp_ota_mark_app_valid_cancel_rollback :: "ota_env \<Rightarrow> esp_err ota" where
  "esp_ota_mark_app_valid_cancel_rollback env = esp_ota_current_ota_is_workable env True"

definition esp_ota_mark_app_invalid_rollback :: "ota_env \<Rightarrow> esp_err ota" where
  "esp_ota_mark_app_invalid_rollback env = esp_ota_current_ota_is_workable env False"

text \<open>\<^verbatim>\<open>esp_restart\<close> does not return; the state records that it was reached.\<close>

definition esp_ota_mark_app_invalid_rollback_and_reboot :: "ota_env \<Rightarrow> esp_err ota" where
  "esp_ota_mark_app_invalid_rollback_and_reboot env s = do {
     (ret, s1) \<leftarrow> esp_ota_mark_app_invalid_rollback env s;
     if ret = ESP_OK then Some (ret, s1\<lparr> restarted := True \<rparr>) else Some (ret, s1)
   }"

definition check_invalid_otadata :: "crc_fn \<Rightarrow> esp_ota_select_entry_t \<Rightarrow> bool" where
  "check_invalid_otadata crc d \<longleftrightarrow> ota_seq d \<noteq> UINT32_MAX \<and> ota_crc d = bootloader_common_ota_select_crc crc d
     \<and> (ota_state d = ESP_OTA_IMG_INVALID \<or> ota_state d = ESP_OTA_IMG_ABORTED)"

definition get_last_invalid_otadata :: "crc_fn \<Rightarrow> two_otadata \<Rightarrow> int" where
  "get_last_invalid_otadata crc d =
     bootloader_common_select_otadata (Some d) (Some (check_invalid_otadata crc (fst d), check_invalid_otadata crc (snd d))) False"

definition esp_ota_get_last_invalid_partition :: "ota_env \<Rightarrow> esp_partition_t option ota" where
  "esp_ota_get_last_invalid_partition env s = do {
     (od, s1) \<leftarrow> read_otadata env s;
     case od of
       None \<Rightarrow> Some (None, s1)
     | Some (_, otadata) \<Rightarrow> do {
         (n, s2) \<leftarrow> esp_ota_get_app_partition_count env s1;
         let inv = get_last_invalid_otadata (crc32_le env) otadata in
         if inv \<noteq> - 1 \<and> n \<noteq> 0 then do {
           (p, s3) \<leftarrow> find_first env PART_TYPE_APP (SUBTYPE_APP_OTA_MIN + ota_slot (otadata_at otadata inv) n) s2;
           case p of
             None \<Rightarrow> Some (None, s3)
           | Some q \<Rightarrow> if image_validate env q s3 \<noteq> ESP_OK then Some (None, s3) else Some (Some q, s3)
         }
         else Some (None, s2)
       }
   }"

definition erase_last_boot_app_partition :: "ota_env \<Rightarrow> bool \<Rightarrow> esp_err ota" where
  "erase_last_boot_app_partition env skip_app_part_erase s = do {
     (od, s1) \<leftarrow> read_otadata env s;
     case od of
       None \<Rightarrow> Some (ESP_FAIL, s1)
     | Some (part, otadata) \<Rightarrow> do {
         let active = bootloader_common_get_active_otadata (crc32_le env) (Some otadata);
         (n, s2) \<leftarrow> esp_ota_get_app_partition_count env s1;
         if active = - 1 \<or> n = 0 then Some (ESP_FAIL, s2)
         else
           let inactive = 1 - active; d = otadata_at otadata inactive in
           if ota_seq d = UINT32_MAX \<or> ota_crc d \<noteq> bootloader_common_ota_select_crc (crc32_le env) d then Some (ESP_FAIL, s2)
           else do {
             (p, s3) \<leftarrow> find_first env PART_TYPE_APP (SUBTYPE_APP_OTA_MIN + ota_slot d n) s2;
             case p of
               None \<Rightarrow> Some (ESP_FAIL, s3)
             | Some last_boot \<Rightarrow> do {
                 (running, s4) \<leftarrow> esp_ota_get_running_partition env s3;
                 if p_self last_boot = p_self running then Some (ESP_FAIL, s4)
                 else do {
                   (err, s5) \<leftarrow> (if \<not> skip_app_part_erase then part_call (esp_partition_erase_range last_boot 0 (p_size last_boot)) s4
                                 else Some (ESP_OK, s4));
                   if err \<noteq> ESP_OK then Some (err, s5)
                   else part_call (esp_partition_erase_range part (mul32 (nat inactive) (p_erase_size part)) (p_erase_size part)) s5
                 }
               }
           }
       }
   }"

definition esp_ota_erase_last_boot_app_partition :: "ota_env \<Rightarrow> esp_err ota" where
  "esp_ota_erase_last_boot_app_partition env = erase_last_boot_app_partition env False"

definition esp_ota_invalidate_inactive_ota_data_slot :: "ota_env \<Rightarrow> esp_err ota" where
  "esp_ota_invalidate_inactive_ota_data_slot env = erase_last_boot_app_partition env True"

end
