(* ===== verification/Ota_Update.thy ===== *)
theory Ota_Update
  imports Ota_Ops
begin

text \<open>
  The rest of \<^verbatim>\<open>esp_ota_ops.c\<close>: an update through a handle (begin or resume, write, end or abort)
  and the revocation of secure boot keys.
\<close>

section \<open>Handles\<close>

definition get_ota_ops_entry :: "nat \<Rightarrow> ota_state \<Rightarrow> ota_ops_entry_t option" where
  "get_ota_ops_entry h s = List.find (\<lambda>e. e_handle e = h) (s_ota_ops_entries s)"

text \<open>Storing back the entry a function holds a pointer to: the first one with its handle.\<close>

fun put_entry :: "ota_ops_entry_t \<Rightarrow> ota_ops_entry_t list \<Rightarrow> ota_ops_entry_t list" where
  "put_entry e [] = []"
| "put_entry e (x # xs) = (if e_handle x = e_handle e then e # xs else x # put_entry e xs)"

definition set_entry :: "ota_ops_entry_t \<Rightarrow> ota_state \<Rightarrow> ota_state" where
  "set_entry e s = s\<lparr> s_ota_ops_entries := put_entry e (s_ota_ops_entries s) \<rparr>"

fun remove_entry :: "nat \<Rightarrow> ota_ops_entry_t list \<Rightarrow> ota_ops_entry_t list" where
  "remove_entry h [] = []"
| "remove_entry h (x # xs) = (if e_handle x = h then xs else x # remove_entry h xs)"

definition esp_ota_init_entry :: "esp_partition_t \<Rightarrow> ota_ops_entry_t option ota" where
  "esp_ota_init_entry p s = do {
     (a, s1) \<leftarrow> part_call heap_alloc s;
     case a of
       None \<Rightarrow> Some (None, s1)
     | Some _ \<Rightarrow>
         let h = add32 (s_ota_ops_last_handle s1) 1;
             e = \<lparr> e_handle = h, e_staging = p, e_final = p, e_finalize_with_copy = False, e_need_erase = False,
                   e_wrote_size = 0, e_partial_bytes = 0, e_ota_resumption = False, e_partial_data = replicate 16 0 \<rparr>
         in Some (Some e, s1\<lparr> s_ota_ops_entries := e # s_ota_ops_entries s1, s_ota_ops_last_handle := h \<rparr>)
   }"

text \<open>The settings a bootloader or partition table update changes in other modules.\<close>

definition prepare_special :: "nat \<Rightarrow> nat \<Rightarrow> ota_state \<Rightarrow> ota_state" where
  "prepare_special type addr s =
     (let s1 = (if type = PART_TYPE_BOOTLOADER then s\<lparr> bootloader_offset := addr \<rparr> else s)
      in if type = PART_TYPE_BOOTLOADER \<or> type = PART_TYPE_PARTITION_TABLE then s1\<lparr> dangerous_write_protection := False \<rparr> else s1)"

section \<open>Begin and resume\<close>

text \<open>An out-parameter that may be NULL is the flag \<open>have_out_handle\<close>.\<close>

definition esp_ota_begin :: "ota_env \<Rightarrow> esp_partition_t option \<Rightarrow> nat \<Rightarrow> bool \<Rightarrow> (esp_err \<times> nat option) ota" where
  "esp_ota_begin env p image_size have_out_handle s =
     (case p of
        None \<Rightarrow> Some ((ESP_ERR_INVALID_ARG, None), s)
      | Some p0 \<Rightarrow>
          if \<not> have_out_handle then Some ((ESP_ERR_INVALID_ARG, None), s)
          else do {
            (v, s1) \<leftarrow> part_call (esp_partition_verify (cfg env) p0) s;
            case v of
              None \<Rightarrow> Some ((ESP_ERR_NOT_FOUND, None), s1)
            | Some part \<Rightarrow> do {
                (chk, s2) \<leftarrow>
                  (if p_type part = PART_TYPE_APP then
                     (if \<not> is_ota_partition (Some part) then Some (ESP_ERR_INVALID_ARG, s1)
                      else do {
                        (running, s2) \<leftarrow> esp_ota_get_running_partition env s1;
                        if p_self part = p_self running then Some (ESP_ERR_OTA_PARTITION_CONFLICT, s2)
                        else if rollback_enable env then do {
                          (r, s3) \<leftarrow> esp_ota_get_state_partition env (Some running) s2;
                          if r = (ESP_OK, Some ESP_OTA_IMG_PENDING_VERIFY) then Some (ESP_ERR_OTA_ROLLBACK_INVALID_STATE, s3) else Some (ESP_OK, s3)
                        }
                        else Some (ESP_OK, s2)
                      })
                   else Some (ESP_OK, s1));
                if chk \<noteq> ESP_OK then Some ((chk, None), s2)
                else do {
                  (ne, s3) \<leftarrow> esp_ota_init_entry part s2;
                  case ne of
                    None \<Rightarrow> Some ((ESP_ERR_NO_MEM, None), s3)
                  | Some e0 \<Rightarrow>
                      let e = e0\<lparr> e_need_erase := (image_size = OTA_WITH_SEQUENTIAL_WRITES) \<rparr>;
                          s4 = prepare_special (p_type part) (p_address part) (set_entry e s3);
                          erase_size = (if image_size = 0 \<or> image_size = OTA_SIZE_UNKNOWN then p_size part else align_up (p_erase_size part) image_size)
                      in do {
                        (err, s5) \<leftarrow> (if image_size \<noteq> OTA_WITH_SEQUENTIAL_WRITES then part_call (esp_partition_erase_range part 0 erase_size) s4
                                      else Some (ESP_OK, s4));
                        if err \<noteq> ESP_OK then Some ((err, Some (e_handle e)), s5)
                        else if rollback_enable env \<and> is_ota_partition (Some part) then do {
                          (_, s6) \<leftarrow> esp_ota_invalidate_inactive_ota_data_slot env s5;
                          Some ((ESP_OK, Some (e_handle e)), s6)
                        }
                        else Some ((ESP_OK, Some (e_handle e)), s5)
                      }
                }
              }
          })"

definition esp_ota_resume :: "ota_env \<Rightarrow> esp_partition_t option \<Rightarrow> nat \<Rightarrow> nat \<Rightarrow> bool \<Rightarrow> (esp_err \<times> nat option) ota" where
  "esp_ota_resume env p erase_size image_offset have_out_handle s =
     (case p of
        None \<Rightarrow> Some ((ESP_ERR_INVALID_ARG, None), s)
      | Some p0 \<Rightarrow>
          if \<not> have_out_handle then Some ((ESP_ERR_INVALID_ARG, None), s)
          else if image_offset > p_size p0 then Some ((ESP_ERR_INVALID_ARG, None), s)
          else do {
            (v, s1) \<leftarrow> part_call (esp_partition_verify (cfg env) p0) s;
            case v of
              None \<Rightarrow> Some ((ESP_ERR_NOT_FOUND, None), s1)
            | Some part \<Rightarrow>
                if p_type part = PART_TYPE_APP \<and> \<not> is_ota_partition (Some part) then Some ((ESP_ERR_INVALID_ARG, None), s1)
                else do {
                  (running, s2) \<leftarrow> esp_ota_get_running_partition env s1;
                  if p_self part = p_self running then Some ((ESP_ERR_OTA_PARTITION_CONFLICT, None), s2)
                  else do {
                    (ne, s3) \<leftarrow> esp_ota_init_entry part s2;
                    case ne of
                      None \<Rightarrow> Some ((ESP_ERR_NO_MEM, None), s3)
                    | Some e0 \<Rightarrow>
                        let e = e0\<lparr> e_ota_resumption := True, e_wrote_size := image_offset, e_need_erase := (erase_size = OTA_WITH_SEQUENTIAL_WRITES) \<rparr>
                        in Some ((ESP_OK, Some (e_handle e)), set_entry e (prepare_special (p_type part) (p_address part) s3))
                  }
                }
          })"

definition esp_ota_set_final_partition :: "ota_env \<Rightarrow> nat \<Rightarrow> esp_partition_t option \<Rightarrow> bool \<Rightarrow> esp_err ota" where
  "esp_ota_set_final_partition env h fin finalize_with_copy s =
     (case fin of
        None \<Rightarrow> Some (ESP_ERR_INVALID_ARG, s)
      | Some f \<Rightarrow>
          (case get_ota_ops_entry h s of
             None \<Rightarrow> Some (ESP_ERR_NOT_FOUND, s)
           | Some it \<Rightarrow>
               if \<not> e_ota_resumption it \<and> e_wrote_size it \<noteq> 0 then Some (ESP_ERR_INVALID_STATE, s)
               else if p_self (e_staging it) \<noteq> p_self f then do {
                 (v, s1) \<leftarrow> part_call (esp_partition_verify (cfg env) f) s;
                 case v of
                   None \<Rightarrow> Some (ESP_ERR_NOT_FOUND, s1)
                 | Some fp \<Rightarrow>
                     Some (ESP_OK, prepare_special (p_type fp) (p_address (e_staging it))
                             (set_entry (it\<lparr> e_final := fp, e_finalize_with_copy := finalize_with_copy \<rparr>) s1))
               }
               else Some (ESP_OK, s)))"

section \<open>Write\<close>

text \<open>
  The sectors a write of \<open>n\<close> bytes needs erased, in sequential mode: the offset and length to
  erase, if any.
\<close>

definition sectors_to_erase :: "ota_ops_entry_t \<Rightarrow> nat \<Rightarrow> (nat \<times> nat) option" where
  "sectors_to_erase it n =
     (let es = p_erase_size (e_staging it);
          first_sector = e_wrote_size it div es;
          last_sector = sub32 (add32 (e_wrote_size it) n) 1 div es
      in if e_wrote_size it mod es = 0 then Some (e_wrote_size it, mul32 (add32 (sub32 last_sector first_sector) 1) es)
         else if first_sector \<noteq> last_sector then Some (mul32 (add32 first_sector 1) es, mul32 (sub32 last_sector first_sector) es)
         else None)"

text \<open>
  The check of the first bytes of an image. For a partition table the code reads two bytes; the
  one behind a one-byte buffer is taken to be zero.
\<close>

definition first_bytes_ok :: "ota_ops_entry_t \<Rightarrow> u8 list \<Rightarrow> bool" where
  "first_bytes_ok it data =
     (if p_type (e_final it) = PART_TYPE_APP \<or> p_type (e_final it) = PART_TYPE_BOOTLOADER then data ! 0 = 0xE9
      else if p_type (e_final it) = PART_TYPE_PARTITION_TABLE then rd16 (\<lambda>i. (data @ [0]) ! i) 0 = ESP_PARTITION_MAGIC
      else True)"

text \<open>
  With flash encryption only whole 16-byte blocks are written and the rest is kept in the
  entry. \<open>Inl\<close>: return at once; \<open>Inr\<close>: the bytes that are left to write.
\<close>

definition fill_partial :: "ota_env \<Rightarrow> ota_ops_entry_t \<Rightarrow> u8 list \<Rightarrow> ota_state \<Rightarrow> ((esp_err + (ota_ops_entry_t \<times> u8 list)) \<times> ota_state) option" where
  "fill_partial env it data s =
     (if e_partial_bytes it = 0 then Some (Inr (it, data), s)
      else
        let copy_len = min (16 - e_partial_bytes it) (length data);
            buf = take (e_partial_bytes it) (e_partial_data it) @ take copy_len data @ drop (e_partial_bytes it + copy_len) (e_partial_data it);
            it1 = it\<lparr> e_partial_data := buf, e_partial_bytes := e_partial_bytes it + copy_len \<rparr>;
            s1 = set_entry it1 s
        in if e_partial_bytes it1 \<noteq> 16 then Some (Inl ESP_OK, s1)
           else do {
             (ret, s2) \<leftarrow> part_call (esp_partition_write (cfg env) (e_staging it) True (e_wrote_size it) buf) s1;
             if ret \<noteq> ESP_OK then Some (Inl ret, s2)
             else
               let it2 = it1\<lparr> e_partial_bytes := 0, e_partial_data := replicate 16 0xFF, e_wrote_size := add32 (e_wrote_size it) 16 \<rparr>
               in Some (Inr (it2, drop copy_len data), set_entry it2 s2)
           })"

definition keep_partial :: "ota_ops_entry_t \<Rightarrow> u8 list \<Rightarrow> ota_ops_entry_t \<times> u8 list" where
  "keep_partial it data =
     (let k = length data mod 16; n = length data - k
      in (it\<lparr> e_partial_bytes := k, e_partial_data := (if k \<noteq> 0 then drop n data @ drop k (e_partial_data it) else e_partial_data it) \<rparr>,
          take n data))"

definition esp_ota_write :: "ota_env \<Rightarrow> nat \<Rightarrow> u8 list option \<Rightarrow> bool \<Rightarrow> esp_err ota" where
  "esp_ota_write env h data_arg dram s =
     (case data_arg of
        None \<Rightarrow> Some (ESP_ERR_INVALID_ARG, s)
      | Some data \<Rightarrow>
          if data = [] then Some (ESP_OK, s)
          else
            (case get_ota_ops_entry h s of
               None \<Rightarrow> Some (ESP_ERR_INVALID_ARG, s)
             | Some it \<Rightarrow> do {
                 (ret, s1) \<leftarrow> (if e_need_erase it then
                     (case sectors_to_erase it (length data) of
                        None \<Rightarrow> Some (ESP_OK, s)
                      | Some (off, n) \<Rightarrow> part_call (esp_partition_erase_range (e_staging it) off n) s)
                   else Some (ESP_OK, s));
                 if ret \<noteq> ESP_OK then Some (ret, s1)
                 else if e_wrote_size it = 0 \<and> e_partial_bytes it = 0 \<and> \<not> first_bytes_ok it data then Some (ESP_ERR_OTA_VALIDATE_FAILED, s1)
                 else do {
                   (r, s2) \<leftarrow> (if enc_enabled (chips (ps s1) 0) then do {
                       (r, s2) \<leftarrow> fill_partial env it data s1;
                       case r of
                         Inl e \<Rightarrow> Some (Inl e, s2)
                       | Inr (it2, rest) \<Rightarrow> (case keep_partial it2 rest of (it3, bs) \<Rightarrow> Some (Inr (it3, bs), set_entry it3 s2))
                     }
                     else Some (Inr (it, data), s1));
                   case r of
                     Inl e \<Rightarrow> Some (e, s2)
                   | Inr (it3, bs) \<Rightarrow> do {
                       (ret, s3) \<leftarrow> part_call (esp_partition_write (cfg env) (e_staging it3) dram (e_wrote_size it3) bs) s2;
                       if ret = ESP_OK then Some (ESP_OK, set_entry (it3\<lparr> e_wrote_size := add32 (e_wrote_size it3) (length bs) \<rparr>) s3)
                       else Some (ret, s3)
                     }
                 }
               }))"

definition esp_ota_write_with_offset :: "ota_env \<Rightarrow> nat \<Rightarrow> u8 list option \<Rightarrow> bool \<Rightarrow> nat \<Rightarrow> esp_err ota" where
  "esp_ota_write_with_offset env h data_arg dram offset s =
     (case data_arg of
        None \<Rightarrow> Some (ESP_ERR_INVALID_ARG, s)
      | Some data \<Rightarrow>
          (case get_ota_ops_entry h s of
             None \<Rightarrow> Some (ESP_ERR_INVALID_ARG, s)
           | Some it \<Rightarrow>
               if e_need_erase it then None
               else if enc_enabled (chips (ps s) 0) \<and> length data mod 16 \<noteq> 0 then Some (ESP_ERR_INVALID_ARG, s)
               else do {
                 (ret, s1) \<leftarrow> part_call (esp_partition_write (cfg env) (e_staging it) dram offset data) s;
                 if ret = ESP_OK then Some (ret, set_entry (it\<lparr> e_wrote_size := add32 (e_wrote_size it) (length data) \<rparr>) s1)
                 else Some (ret, s1)
               }))"

section \<open>End and abort\<close>

definition esp_ota_abort :: "nat \<Rightarrow> esp_err ota" where
  "esp_ota_abort h s =
     (case get_ota_ops_entry h s of
        None \<Rightarrow> Some (ESP_ERR_NOT_FOUND, s)
      | Some it \<Rightarrow> Some (ESP_OK, s\<lparr> s_ota_ops_entries := remove_entry h (s_ota_ops_entries s) \<rparr>))"

definition ota_verify_partition :: "ota_env \<Rightarrow> ota_ops_entry_t \<Rightarrow> esp_err ota" where
  "ota_verify_partition env it s =
     (if p_type (e_final it) = PART_TYPE_APP \<or> p_type (e_final it) = PART_TYPE_BOOTLOADER then
        Some (image_validate env (e_staging it) s, s)
      else if p_type (e_final it) = PART_TYPE_PARTITION_TABLE then do {
        (r, s1) \<leftarrow> part_call (esp_partition_mmap (e_staging it) 0 ESP_PARTITION_TABLE_MAX_LEN) s;
        if fst r = ESP_OK then
          (if fst (esp_partition_table_verify (rom_md5 (cfg env)) (chip_size (chips (ps s1) 0)) (\<lambda>i. snd r ! i) 0) \<noteq> ESP_OK
           then Some (ESP_ERR_OTA_VALIDATE_FAILED, s1) else Some (ESP_OK, s1))
        else Some (fst r, s1)
      }
      else Some (ESP_OK, s))"

text \<open>Flushing the last partial block, verifying and copying: the part before the label \<^verbatim>\<open>cleanup\<close>.\<close>

definition ota_finish :: "ota_env \<Rightarrow> ota_ops_entry_t \<Rightarrow> esp_err ota" where
  "ota_finish env it s =
     (if e_wrote_size it = 0 then Some (ESP_ERR_INVALID_ARG, s)
      else do {
        (ret, s1) \<leftarrow> (if e_partial_bytes it > 0
                      then part_call (esp_partition_write (cfg env) (e_staging it) True (e_wrote_size it) (e_partial_data it)) s
                      else Some (ESP_OK, s));
        if ret \<noteq> ESP_OK then Some (ESP_ERR_INVALID_STATE, s1)
        else do {
          (ret, s2) \<leftarrow> ota_verify_partition env it s1;
          if ret \<noteq> ESP_OK then Some (ret, s2)
          else if e_finalize_with_copy it then do {
            (r, p) \<leftarrow> esp_partition_copy (cfg env) (Some (e_final it)) 0 (Some (e_staging it)) 0 (p_size (e_final it)) (ps s2);
            Some (r, s2\<lparr> ps := p \<rparr>)
          }
          else Some (ESP_OK, s2)
        }
      })"

definition esp_ota_end :: "ota_env \<Rightarrow> nat \<Rightarrow> esp_err ota" where
  "esp_ota_end env h s =
     (case get_ota_ops_entry h s of
        None \<Rightarrow> Some (ESP_ERR_NOT_FOUND, s)
      | Some it \<Rightarrow> do {
          (ret, s1) \<leftarrow> ota_finish env it s;
          let s2 = (if p_type (e_final it) = PART_TYPE_BOOTLOADER then s1\<lparr> bootloader_offset := bootloader_offset_in_flash env \<rparr> else s1) in
          Some (ret, s2\<lparr> s_ota_ops_entries := remove_entry h (s_ota_ops_entries s2) \<rparr>)
        })"

section \<open>Revoking a secure boot key\<close>

definition validate_img :: "ota_env \<Rightarrow> nat \<Rightarrow> nat \<Rightarrow> nat \<Rightarrow> ota_state \<Rightarrow> bool" where
  "validate_img env revoked_key_index offset len s =
     (\<exists>i \<in> set [0..<3]. i \<noteq> revoked_key_index \<and> verify_with_digest env i offset len (ps s) = ESP_OK)"

definition esp_ota_revoke_secure_boot_public_key :: "ota_env \<Rightarrow> nat \<Rightarrow> esp_err ota" where
  "esp_ota_revoke_secure_boot_public_key env index s =
     (if \<not> secure_boot_enabled env then Some (ESP_FAIL, s)
      else if index \<noteq> 0 \<and> index \<noteq> 1 \<and> index \<noteq> 2 then Some (ESP_ERR_INVALID_ARG, s)
      else do {
        (running, s1) \<leftarrow> esp_ota_get_running_partition env s;
        (chk, s2) \<leftarrow> (if rollback_enable env then do {
            (r, s2) \<leftarrow> esp_ota_get_state_partition env (Some running) s1;
            Some (r = (ESP_OK, Some ESP_OTA_IMG_VALID), s2)
          }
          else Some (True, s1));
        if \<not> chk then Some (ESP_FAIL, s2)
        else if fst (read_key_digests env) \<noteq> ESP_OK then Some (ESP_FAIL, s2)
        else if \<not> snd (read_key_digests env) ! index then Some (ESP_OK, s2)
        else if \<not> validate_img env index (p_address running) (p_size running) s2 then Some (ESP_FAIL, s2)
        else if \<not> validate_img env index (bootloader_offset_in_flash env) (sub32 (table_offset (cfg env)) (bootloader_offset_in_flash env)) s2
          then Some (ESP_FAIL, s2)
        else if set_digest_revoke env index \<noteq> ESP_OK then Some (ESP_FAIL, s2)
        else Some (ESP_OK, s2\<lparr> revoked_digests := index # revoked_digests s2 \<rparr>)
      })"

end
