(* ===== verification/Ota_Select.thy ===== *)
theory Ota_Select
  imports Ota_Update Partition_List
begin

text \<open>
  Which partition boots. The two selection records in the OTA data partition are an abstract
  state of their own: the application chooses a slot, confirms it or rejects it, and the boot
  partition follows from the records. The API functions on flash implement these operations.
\<close>

section \<open>Calls that change nothing a reader can see\<close>

text \<open>
  \<open>quiet s s'\<close>: the partition list and the cells of all chips are the same; the heap, the outcomes
  of driver calls and the variables of the OTA layer may have moved on.
\<close>

definition quiet :: "ota_state \<Rightarrow> ota_state \<Rightarrow> bool" where
  "quiet s s' \<longleftrightarrow> part_list (ps s') = part_list (ps s) \<and> allocs (ps s') = allocs (ps s)
     \<and> (\<forall>c. later (chips (ps s) c) (flash_mem (chips (ps s) c)) (chips (ps s') c))"

lemma quiet_refl [simp]: "quiet s s"
  by (simp add: quiet_def)

lemma quiet_trans: "quiet s s1 \<Longrightarrow> quiet s1 s2 \<Longrightarrow> quiet s s2"
  by (auto simp: quiet_def later_def)

lemma quiet_heap: "quiet s (s\<lparr> ps := (ps s)\<lparr> heap_next := h \<rparr> \<rparr>)"
  by (simp add: quiet_def)

lemma quiet_view: "quiet s s' \<Longrightarrow> flash_view (chips (ps s') c) = flash_view (chips (ps s) c)"
  using later_view by (auto simp: quiet_def)

lemma quiet_part: "quiet s s' \<Longrightarrow> part_ok p (ps s') = part_ok p (ps s) \<and> part_view p (ps s') = part_view p (ps s)"
proof -
  assume q: "quiet s s'"
  have l: "later (chips (ps s) c) (flash_mem (chips (ps s) c)) (chips (ps s') c)" for c using q by (simp add: quiet_def)
  show ?thesis using later_ok [OF l] l [of "p_flash_chip p"] quiet_view [OF q] by (simp add: part_ok_def part_view_def later_def)
qed

definition ready :: "ota_state \<Rightarrow> bool" where
  "ready s \<longleftrightarrow> part_list (ps s) \<noteq> [] \<and> allocs (ps s) = []"

lemma quiet_ready: "quiet s s' \<Longrightarrow> ready s' = ready s"
  by (simp add: quiet_def ready_def)

text \<open>The first partition with a given type and subtype.\<close>

definition lookup :: "ota_state \<Rightarrow> nat \<Rightarrow> nat \<Rightarrow> esp_partition_t option" where
  "lookup s t st = List.find (\<lambda>p. p_type p = t \<and> p_subtype p = st) (map item_info (part_list (ps s)))"

lemma quiet_lookup: "quiet s s' \<Longrightarrow> lookup s' = lookup s"
  by (simp add: quiet_def lookup_def fun_eq_iff)

lemma find_hd_filter: "(case filter P xs of [] \<Rightarrow> None | p # _ \<Rightarrow> Some p) = List.find P xs"
  by (induction xs) auto

lemma find_first_ready:
  assumes "ready s" and "t \<noteq> 0xFF" and "st \<noteq> 0xFF"
  shows "\<exists>s'. find_first env t st s = Some (lookup s t st, s') \<and> quiet s s' \<and> chips (ps s') = chips (ps s)"
proof -
  let ?p = "ps s"
  have r: "part_list ?p \<noteq> []" "allocs ?p = []" using assms(1) by (auto simp: ready_def)
  obtain it q where f: "esp_partition_find (cfg env) t st None ?p = (it, q)" by (rule prod.exhaust)
  have q: "q = ?p\<lparr> heap_next := Suc (heap_next ?p) \<rparr>" "it = None \<or> (\<exists>it0. esp_partition_next it0 = it)"
    using find_loaded [OF r, of "cfg env" t st None] f assms(2) by auto
  have c: "it_collect it = filter (part_matches t st None) (map item_info (part_list ?p))"
    using find_collects [OF r, of t st "cfg env" None] f assms(2) by simp
  have "fst (esp_partition_find_first (cfg env) t st None ?p) = List.find (part_matches t st None) (map item_info (part_list ?p))"
    using find_first_hd [OF f q(2)] unfolding c find_hd_filter .
  also have "part_matches t st None = (\<lambda>p. p_type p = t \<and> p_subtype p = st)"
    using assms(2,3) by (auto simp: part_matches_def)
  finally have "fst (esp_partition_find_first (cfg env) t st None ?p) = lookup s t st" by (simp add: lookup_def)
  moreover have "snd (esp_partition_find_first (cfg env) t st None ?p) = q"
    using f by (simp add: esp_partition_find_first_def split: option.splits)
  ultimately have "esp_partition_find_first (cfg env) t st None ?p = (lookup s t st, q)" by (metis prod.collapse)
  then have "find_first env t st s = Some (lookup s t st, s\<lparr> ps := q \<rparr>)" by (simp add: find_first_def part_call_def)
  then show ?thesis using quiet_heap q(1) by auto
qed

section \<open>Counting the slots\<close>

definition slots :: "ota_state \<Rightarrow> nat \<Rightarrow> nat" where
  "slots s n = length (takeWhile (\<lambda>k. lookup s 0 (16 + k) \<noteq> None) [n..<17])"

lemma count_loop_ready:
  assumes "ready s" and "n \<le> 17"
  shows "if n + slots s n = 17 \<and> n < 17 then count_loop env n s = None
    else n < 17 \<longrightarrow> (\<exists>s'. count_loop env n s = Some (n + slots s n, s') \<and> quiet s s' \<and> chips (ps s') = chips (ps s))"
  using assms
proof (induction "17 - n" arbitrary: n s)
  case 0
  then show ?case by simp
next
  case (Suc k)
  then have n: "n < 17" by simp
  obtain s1 where f: "find_first env 0 (16 + n) s = Some (lookup s 0 (16 + n), s1)" and q: "quiet s s1" and ch: "chips (ps s1) = chips (ps s)"
    using find_first_ready [OF Suc.prems(1), of 0 "16 + n" env] n by auto
  have sl: "slots s n = (if lookup s 0 (16 + n) \<noteq> None then Suc (slots s (Suc n)) else 0)"
    using n by (simp add: slots_def upt_conv_Cons)
  show ?case
  proof (cases "lookup s 0 (16 + n)")
    case None
    then show ?thesis using f q ch sl n by (auto simp: count_loop.simps [of env n s])
  next
    case (Some p)
    then have c: "count_loop env n s = (if \<not> n < 16 then None else count_loop env (Suc n) s1)"
      using f by (simp add: count_loop.simps [of env n s])
    have s1: "slots s1 = slots s" using quiet_lookup [OF q] by (simp add: slots_def fun_eq_iff)
    show ?thesis
    proof (cases "n < 16")
      case False
      then have "n = 16" using n by simp
      then show ?thesis using c sl Some by (simp add: slots_def)
    next
      case True
      have IH: "if Suc n + slots s1 (Suc n) = 17 \<and> Suc n < 17 then count_loop env (Suc n) s1 = None
        else Suc n < 17 \<longrightarrow> (\<exists>s'. count_loop env (Suc n) s1 = Some (Suc n + slots s1 (Suc n), s') \<and> quiet s1 s' \<and> chips (ps s') = chips (ps s1))"
        using Suc.hyps(2) Suc.prems(1) quiet_ready [OF q] True by (intro Suc.hyps(1)) auto
      show ?thesis
        using IH c True sl Some s1 q ch quiet_trans [OF q] by (auto split: if_splits)
    qed
  qed
qed

definition slot_count :: "ota_state \<Rightarrow> nat" where
  "slot_count s = slots s 0"

lemma app_partition_count:
  assumes "ready s" and "slot_count s \<noteq> 17"
  shows "\<exists>s'. esp_ota_get_app_partition_count env s = Some (slot_count s, s') \<and> quiet s s' \<and> chips (ps s') = chips (ps s)"
  using count_loop_ready [OF assms(1), of 0 env] assms(2) by (simp add: esp_ota_get_app_partition_count_def slot_count_def)

lemma slot_present: "k < slot_count s \<Longrightarrow> lookup s 0 (16 + k) \<noteq> None"
proof -
  assume k: "k < slot_count s"
  let ?P = "\<lambda>k. lookup s 0 (16 + k) \<noteq> None"
  have "takeWhile ?P [0..<17] ! k = [0..<17] ! k" using k by (intro takeWhile_nth) (simp add: slot_count_def slots_def)
  moreover have "k < 17" using k length_takeWhile_le [of ?P "[0..<17]"] by (simp add: slot_count_def slots_def)
  ultimately show ?thesis using nth_mem [of k "takeWhile ?P [0..<17]"] k set_takeWhileD [of k ?P "[0..<17]"]
    by (simp add: slot_count_def slots_def)
qed

section \<open>The next sequence number\<close>

lemma seq_loop_result:
  assumes "0 < n" and "base < n" and "seq + n < 2 ^ 32" and "i = 0 \<or> base + (i - 1) * n < seq"
  shows "\<exists>j. seq_loop seq base n i = Some j \<and> seq \<le> base + j * n \<and> base + j * n < seq + n"
  using assms(4)
proof (induction "seq - (base + i * n)" arbitrary: i rule: less_induct)
  case less
  have b: "base + i * n < seq + n"
  proof (cases i)
    case 0
    then show ?thesis using assms(2) by simp
  next
    case (Suc m)
    then show ?thesis using less.prems by simp
  qed
  have le: "i \<le> i * n" using assms(1) by simp
  have w: "add32 base (mul32 i n) = base + i * n" using b assms(3) by (simp add: mul32_exact add32_exact)
  have "i + 1 < 2 ^ 32" using le b assms(1,3) by linarith
  then have w1: "add32 i 1 = Suc i" using add32_exact [of i 1] by simp
  show ?case
  proof (cases "seq > base + i * n")
    case False
    then show ?thesis using b w w1 by (subst seq_loop.simps) auto
  next
    case True
    have "\<exists>j. seq_loop seq base n (Suc i) = Some j \<and> seq \<le> base + j * n \<and> base + j * n < seq + n"
      using True assms(1) by (intro less.hyps) auto
    then show ?thesis using True w w1 by (subst seq_loop.simps) simp
  qed
qed

section \<open>The two records\<close>

definition otadata_of :: "ota_state \<Rightarrow> esp_partition_t \<Rightarrow> two_otadata" where
  "otadata_of s od = (rd_select (flash_view (chips (ps s) 0)) (p_address od), rd_select (flash_view (chips (ps s) 0)) (p_address od + p_erase_size od))"

text \<open>No call into the driver of the chip fails any more.\<close>

definition working :: "flash \<Rightarrow> bool" where
  "working f \<longleftrightarrow> fst ` set (drv_results f) \<subseteq> {ESP_OK}"

lemma later_working: "later f m f' \<Longrightarrow> working f \<Longrightarrow> working f'"
  by (auto simp: later_def working_def)

lemma quiet_working: "quiet s s' \<Longrightarrow> working (chips (ps s) c) \<Longrightarrow> working (chips (ps s') c)"
  using later_working by (auto simp: quiet_def)

lemma quiet_otadata: "quiet s s' \<Longrightarrow> otadata_of s' od = otadata_of s od"
  by (simp add: otadata_of_def quiet_view)

lemma part_call_quiet:
  assumes "part_call op s = Some (r, s')"
    and "\<And>p. op (ps s) = (r, p) \<Longrightarrow> \<exists>c. p = (ps s)\<lparr> chips := (chips (ps s))(c := chips p c) \<rparr>
      \<and> later (chips (ps s) c) (flash_mem (chips (ps s) c)) (chips p c)"
  shows "quiet s s'"
proof -
  obtain p where p: "op (ps s) = (r, p)" "s' = s\<lparr> ps := p \<rparr>"
    using assms(1) by (auto simp: part_call_def split: prod.splits)
  obtain c where c: "p = (ps s)\<lparr> chips := (chips (ps s))(c := chips p c) \<rparr>" "later (chips (ps s) c) (flash_mem (chips (ps s) c)) (chips p c)"
    using assms(2) [OF p(1)] by blast
  have "chips p x = chips (ps s) x" if "x \<noteq> c" for x using arg_cong [OF c(1), of "\<lambda>q. chips q x"] that by simp
  then have "later (chips (ps s) x) (flash_mem (chips (ps s) x)) (chips p x)" for x using c(2) by (cases "x = c") simp_all
  moreover have "part_list p = part_list (ps s)" "allocs p = allocs (ps s)"
    using arg_cong [OF c(1), of part_list] arg_cong [OF c(1), of allocs] by simp_all
  ultimately show ?thesis by (simp add: p(2) quiet_def)
qed

lemma mmap_quiet:
  assumes "part_call (esp_partition_mmap p off n) s = Some (r, s')"
  shows "quiet s s'"
  using assms by (rule part_call_quiet) (cases r, use part_mmap_later in blast)

lemma read_quiet:
  assumes "part_call (esp_partition_read cf p d off n) s = Some (r, s')"
  shows "quiet s s'"
  using assms by (rule part_call_quiet) (cases r, use part_read_later in blast)

lemma mmap_succeeds:
  assumes "working (chips s 0)" and "p_flash_chip p = 0" and "off + n \<le> p_size p"
  shows "fst (fst (esp_partition_mmap p off n s)) = ESP_OK"
proof -
  have "fst (drv_status (chips s 0)) = ESP_OK" using assms(1) by (cases "drv_results (chips s 0)") (auto simp: drv_status_def working_def)
  then show ?thesis using assms(2,3)
    by (auto simp: esp_partition_mmap_def on_chip_def spi_flash_mmap_def Let_def split: prod.splits)
qed

lemma read_otadata_cases:
  assumes "ready s" and "lookup s 1 0 = Some od"
  obtains r s' where "read_otadata env s = Some (r, s')" and "quiet s s'"
    and "r = None \<or> r = Some (od, otadata_of s od)"
    and "working (chips (ps s) 0) \<Longrightarrow> p_flash_chip od = 0 \<Longrightarrow> r = Some (od, otadata_of s od)"
proof -
  obtain s1 where f: "find_first env 1 0 s = Some (Some od, s1)" and q1: "quiet s s1"
    using find_first_ready [OF assms(1), of 1 0 env] assms(2) by auto
  obtain rc bs s2 where m: "part_call (esp_partition_mmap od 0 (p_size od)) s1 = Some ((rc, bs), s2)"
    using that by (cases "esp_partition_mmap od 0 (p_size od) (ps s1)") (auto simp: part_call_def)
  note q = quiet_trans [OF q1 mmap_quiet [OF m]]
  let ?r = "if rc \<noteq> ESP_OK then None else Some (od, otadata_of s od)"
  have "read_otadata env s = Some (?r, s2)"
    using f m quiet_view [OF q, of 0] by (simp add: read_otadata_def otadata_of_def Let_def)
  moreover have "rc = ESP_OK" if "working (chips (ps s) 0)" "p_flash_chip od = 0"
    using mmap_succeeds [of "ps s1" od 0 "p_size od"] quiet_working [OF q1 that(1)] that(2) m
    by (auto simp: part_call_def split: prod.splits)
  ultimately show ?thesis using q that by auto
qed

section \<open>Storing a record\<close>

text \<open>The OTA data partition as the partition table tool makes it: in the main flash, two sectors.\<close>

definition otadata_part :: "ota_state \<Rightarrow> esp_partition_t \<Rightarrow> bool" where
  "otadata_part s od \<longleftrightarrow> lookup s 1 0 = Some od \<and> p_flash_chip od = 0 \<and> p_erase_size od = 4096
     \<and> part_ok od (ps s) \<and> p_encrypted od = enc_enabled (chips (ps s) 0)"

definition put_record :: "nat \<Rightarrow> esp_ota_select_entry_t \<Rightarrow> two_otadata \<Rightarrow> two_otadata" where
  "put_record i r d = (if i = 0 then (r, snd d) else (fst d, r))"

text \<open>\<open>stored od d s s'\<close>: the records are now \<open>d\<close> and the partition list is the same.\<close>

definition stored :: "esp_partition_t \<Rightarrow> two_otadata \<Rightarrow> ota_state \<Rightarrow> ota_state \<Rightarrow> bool" where
  "stored od d s s' \<longleftrightarrow> otadata_of s' od = d \<and> otadata_part s' od \<and> part_list (ps s') = part_list (ps s) \<and> allocs (ps s') = allocs (ps s)
     \<and> (working (chips (ps s) 0) \<longrightarrow> working (chips (ps s') 0))"

lemma part_view_main:
  "p_flash_chip p = 0 \<Longrightarrow> p_encrypted p = enc_enabled (chips s 0) \<Longrightarrow> part_view p s = flash_view (chips s 0)"
  by (simp add: part_view_def flash_view_def)

lemma rd_select_cong: "(\<And>i. i < 32 \<Longrightarrow> m (a + i) = m' (a + i)) \<Longrightarrow> rd_select m a = rd_select m' a"
proof -
  assume e: "\<And>i. i < 32 \<Longrightarrow> m (a + i) = m' (a + i)"
  have "m x = m' x" if "a \<le> x" "x < a + 32" for x using e [of "x - a"] that by simp
  then show ?thesis by (simp add: rd_select_def rd32_def rd_bytes_def)
qed


lemma part_erase_later:
  "part_ok p s \<Longrightarrow> esp_partition_erase_range p off n s = (ESP_OK, s') \<Longrightarrow> \<exists>m. later (chips s (p_flash_chip p)) m (chips s' (p_flash_chip p))"
  using part_erase_ok(1) [of p off n s s'] erase_region_ok by (fastforce simp: part_ok_def)

lemma part_write_later:
  "part_ok p s \<Longrightarrow> esp_partition_write cf p d off bs s = (ESP_OK, s') \<Longrightarrow> \<exists>m. later (chips s (p_flash_chip p)) m (chips s' (p_flash_chip p))"
  using part_write_ok(1) [of cf p d off bs s s'] write_ok(1) write_encrypted_ok(1) by (fastforce simp: part_ok_def xts_ok_def split: if_splits)

lemma rewrite_ota_seq_stored:
  assumes "otadata_part s od" and "i \<le> 1" and "length (seq_label (otadata_at d (int i))) = 20"
    and "rewrite_ota_seq env (Some d) seq i od s = Some (ESP_OK, s')"
  shows "stored od (put_record i ((otadata_at d (int i))\<lparr> ota_seq := seq, ota_crc := crc32_le env UINT32_MAX (bytes_of_u32 seq) \<rparr>) (otadata_of s od)) s s'"
proof -
  define r where "r = (otadata_at d (int i))\<lparr> ota_seq := seq, ota_crc := crc32_le env UINT32_MAX (bytes_of_u32 seq) \<rparr>"
  have od: "p_flash_chip od = 0" "p_erase_size od = 4096" "part_ok od (ps s)" "p_encrypted od = enc_enabled (chips (ps s) 0)" "lookup s 1 0 = Some od"
    using assms(1) by (auto simp: otadata_part_def)
  have o: "mul32 i 4096 = i * 4096" "mul32 4096 i = i * 4096" using assms(2) by (auto simp: mul32_exact)
  have lr: "length (select_bytes r) = 32" using assms(3) by (simp add: r_def length_select_bytes)
  obtain p1 p2 where e: "esp_partition_erase_range od (i * 4096) 4096 (ps s) = (ESP_OK, p1)"
    and w: "esp_partition_write (cfg env) od True (i * 4096) (select_bytes r) p1 = (ESP_OK, p2)" and s': "s' = s\<lparr> ps := p2 \<rparr>"
    using assms(2,4) od(2) o
    by (auto simp: rewrite_ota_seq_def part_call_def r_def bootloader_common_ota_select_crc_def Let_def split: prod.splits if_splits)
  note rr = part.replace_record [OF od(3) e w, unfolded lr, simplified]
  have a: "p_address od + p_size od < 2 ^ 32" using od(3) by (simp add: part_ok_def)
  note pe = part_erase_ok [OF e a] and pw = part_write_ok [OF w a]
  obtain m1 m where l1: "later (chips (ps s) 0) m1 (chips p1 0)" and l2: "later (chips p1 0) m (chips p2 0)"
    using part_erase_later [OF od(3) e] part_write_later [OF part.er_inv [OF od(3) e] w] unfolding od(1) by blast
  note l = later_trans [OF l1 l2]
  have enc: "enc_enabled (chips p2 0) = enc_enabled (chips (ps s) 0)" using l chip_cfg_sel [of "chips p2 0" "chips (ps s) 0"] by (simp add: later_def)
  have v: "part_view od (ps s) = flash_view (chips (ps s) 0)" "part_view od p2 = flash_view (chips p2 0)"
    using part_view_main od enc by auto
  have "rd_select (flash_view (chips p2 0)) (p_address od + i * 4096) = r"
    by (rule rd_select_bytes) (use rr(2) v assms(3) in \<open>simp_all add: r_def\<close>)
  moreover have "rd_select (flash_view (chips p2 0)) (p_address od + (1 - i) * 4096) = rd_select (flash_view (chips (ps s) 0)) (p_address od + (1 - i) * 4096)"
    by (rule rd_select_cong) (use rr(3) v assms(2) in \<open>cases i; auto\<close>)
  ultimately have "otadata_of s' od = put_record i r (otadata_of s od)"
    using assms(2) s' od(2) by (cases i) (simp_all add: otadata_of_def put_record_def)
  moreover have "part_list p2 = part_list (ps s)" "allocs p2 = allocs (ps s)"
    using arg_cong [OF pe(4), of part_list] arg_cong [OF pw(4), of part_list] arg_cong [OF pe(4), of allocs] arg_cong [OF pw(4), of allocs] by simp_all
  ultimately show ?thesis
    using rr(1) od enc s' later_working [OF l] by (simp add: stored_def r_def otadata_part_def lookup_def)
qed

section \<open>The slot the records select\<close>

definition boot_slot :: "crc_fn \<Rightarrow> nat \<Rightarrow> two_otadata \<Rightarrow> nat option" where
  "boot_slot crc n d =
     (let a = bootloader_common_get_active_otadata crc (Some d)
      in if n = 0 \<or> a = - 1 then None else Some (ota_slot (otadata_at d a) n))"

definition default_boot :: "ota_state \<Rightarrow> esp_partition_t option" where
  "default_boot s = (case List.find (\<lambda>t. lookup s 0 t \<noteq> None) (0 # [16..<32] @ [32]) of None \<Rightarrow> None | Some t \<Rightarrow> lookup s 0 t)"

definition boot_partition :: "crc_fn \<Rightarrow> ota_state \<Rightarrow> esp_partition_t \<Rightarrow> esp_partition_t option" where
  "boot_partition crc s od =
     (case boot_slot crc (slot_count s) (otadata_of s od) of Some k \<Rightarrow> lookup s 0 (16 + k) | None \<Rightarrow> default_boot s)"

lemma quiet_slot_count: "quiet s s' \<Longrightarrow> slot_count s' = slot_count s"
  using quiet_lookup by (simp add: slot_count_def slots_def)

lemma stored_quiet: "quiet s s1 \<Longrightarrow> stored od d s1 s' \<Longrightarrow> stored od d s s'"
  using quiet_working by (auto simp: stored_def quiet_def)

lemma quiet_otadata_part: "quiet s s' \<Longrightarrow> otadata_part s' od = otadata_part s od"
proof -
  assume q: "quiet s s'"
  then have "enc_enabled (chips (ps s') 0) = enc_enabled (chips (ps s) 0)"
    using chip_cfg_sel [of "chips (ps s') 0" "chips (ps s) 0"] by (simp add: quiet_def later_def)
  then show ?thesis using quiet_lookup [OF q] quiet_part [OF q] by (simp add: otadata_part_def)
qed

lemma find_first_of_ready:
  assumes "ready s" and "0xFF \<notin> set ts"
  shows "\<exists>s'. find_first_of env ts s =
    Some (case List.find (\<lambda>t. lookup s 0 t \<noteq> None) ts of None \<Rightarrow> None | Some t \<Rightarrow> lookup s 0 t, s') \<and> quiet s s'"
  using assms
proof (induction ts arbitrary: s)
  case Nil
  then show ?case by simp
next
  case (Cons t ts)
  obtain s1 where f: "find_first env 0 t s = Some (lookup s 0 t, s1)" and q: "quiet s s1"
    using find_first_ready [OF Cons.prems(1), of 0 t env] Cons.prems(2) by auto
  have l: "lookup s1 = lookup s" by (rule quiet_lookup [OF q])
  obtain s' where "find_first_of env ts s1 =
    Some (case List.find (\<lambda>t. lookup s 0 t \<noteq> None) ts of None \<Rightarrow> None | Some t \<Rightarrow> lookup s 0 t, s')" "quiet s1 s'"
    using Cons.IH [of s1] quiet_ready [OF q] Cons.prems unfolding l by auto
  then show ?case using f q quiet_trans [OF q] by (cases "lookup s 0 t") auto
qed

lemma ota_slot_less: "0 < n \<Longrightarrow> ota_slot d n < n"
  by (simp add: ota_slot_def)

lemma slot_count_le: "slot_count s \<le> 17"
  using length_takeWhile_le [of "\<lambda>k. lookup s 0 (16 + k) \<noteq> None" "[0..<17]"] by (simp add: slot_count_def slots_def)

lemma active_not_both_invalid:
  "bootloader_common_get_active_otadata crc (Some d) \<noteq> - 1 \<Longrightarrow>
     \<not> (bootloader_common_ota_select_invalid (fst d) \<and> bootloader_common_ota_select_invalid (snd d))"
  by (auto simp: active_otadata_cases bootloader_common_ota_select_valid_def Let_def)

text \<open>\<^verbatim>\<open>esp_ota_get_boot_partition\<close> computes \<open>boot_partition\<close>.\<close>

lemma get_boot_partition:
  assumes "ready s" and "slot_count s \<noteq> 17" and "otadata_part s od" and "working (chips (ps s) 0)"
  shows "\<exists>s'. esp_ota_get_boot_partition env s = Some (boot_partition (crc32_le env) s od, s') \<and> quiet s s'"
proof -
  let ?n = "slot_count s" and ?d = "otadata_of s od"
  let ?a = "bootloader_common_get_active_otadata (crc32_le env) (Some ?d)"
  have od: "lookup s 1 0 = Some od" "p_flash_chip od = 0" using assms(3) by (auto simp: otadata_part_def)
  obtain s1 where r: "read_otadata env s = Some (Some (od, ?d), s1)" and q1: "quiet s s1"
    by (rule read_otadata_cases [OF assms(1) od(1), of env]) (use assms(4) od(2) in auto)
  have l1: "ready s1" "slot_count s1 = ?n" using quiet_ready [OF q1] quiet_slot_count [OF q1] assms(1) by auto
  obtain s2 where c: "esp_ota_get_app_partition_count env s1 = Some (?n, s2)" and q2: "quiet s s2"
    using app_partition_count [OF l1(1), of env] l1(2) assms(2) quiet_trans [OF q1] by auto
  have r2: "ready s2" "lookup s2 = lookup s" using quiet_ready [OF q2] quiet_lookup [OF q2] assms(1) by auto
  have no_any: "0xFF \<notin> set ((0 :: nat) # [16..<32] @ [32])" by simp
  obtain s3 where f: "find_default_boot_partition env s2 = Some (default_boot s, s3)" and q3: "quiet s2 s3"
    using find_first_of_ready [OF r2(1) no_any, of env] unfolding find_default_boot_partition_def default_boot_def r2(2) by blast
  show ?thesis
  proof (cases "?n = 0 \<or> ?a = - 1")
    case True
    then have "esp_ota_get_boot_partition env s = Some (default_boot s, s3)"
      using r c f by (auto simp: esp_ota_get_boot_partition_def)
    then show ?thesis using True quiet_trans [OF q2 q3] by (auto simp: boot_partition_def boot_slot_def Let_def)
  next
    case False
    let ?k = "ota_slot (otadata_at ?d ?a) ?n"
    have k: "?k < ?n" using ota_slot_less False by simp
    obtain s4 where g: "find_first env 0 (16 + ?k) s2 = Some (lookup s 0 (16 + ?k), s4)" and q4: "quiet s2 s4"
      using find_first_ready [OF r2(1), of 0 "16 + ?k" env] k slot_count_le [of s] r2(2) by auto
    have "esp_ota_get_boot_partition env s = Some (lookup s 0 (16 + ?k), s4)"
      using r c g False active_not_both_invalid [of "crc32_le env" ?d] by (auto simp: esp_ota_get_boot_partition_def)
    then show ?thesis using False quiet_trans [OF q2 q4] by (simp add: boot_partition_def boot_slot_def)
  qed
qed

section \<open>Choosing a slot\<close>

text \<open>The record that selects sequence number \<open>seq\<close>.\<close>

definition fresh_record :: "crc_fn \<Rightarrow> u32 \<Rightarrow> u32 \<Rightarrow> esp_ota_select_entry_t \<Rightarrow> esp_ota_select_entry_t" where
  "fresh_record crc st seq r = r\<lparr> ota_state := st, ota_seq := seq, ota_crc := crc UINT32_MAX (bytes_of_u32 seq) \<rparr>"

lemma fresh_valid:
  "st \<noteq> ESP_OTA_IMG_INVALID \<Longrightarrow> st \<noteq> ESP_OTA_IMG_ABORTED \<Longrightarrow> seq \<noteq> UINT32_MAX \<Longrightarrow>
     bootloader_common_ota_select_valid crc (fresh_record crc st seq r)"
  by (simp add: bootloader_common_ota_select_valid_def bootloader_common_ota_select_invalid_def bootloader_common_ota_select_crc_def fresh_record_def)

text \<open>
  \<open>chosen crc n k d\<close>: one of the records is fresh, selects slot \<open>k\<close>, and no valid record is newer.
\<close>

definition chosen :: "crc_fn \<Rightarrow> nat \<Rightarrow> nat \<Rightarrow> two_otadata \<Rightarrow> bool" where
  "chosen crc n k d \<longleftrightarrow> (\<exists>i \<in> {0, 1}. let r = otadata_at d i; other = otadata_at d (1 - i) in
     bootloader_common_ota_select_valid crc r \<and> ota_state r \<in> {ESP_OTA_IMG_NEW, ESP_OTA_IMG_UNDEFINED} \<and> ota_slot r n = k
     \<and> (bootloader_common_ota_select_valid crc other \<longrightarrow> ota_seq other \<le> ota_seq r))"

lemma slot_cong: "ota_seq r = ota_seq q \<Longrightarrow> ota_slot r n = ota_slot q n"
  by (simp add: ota_slot_def)

lemma chosen_slot: "chosen crc n k d \<Longrightarrow> 0 < n \<Longrightarrow> boot_slot crc n d = Some k"
  using slot_cong [of "fst d" "snd d" n]
  by (auto simp: chosen_def boot_slot_def active_otadata_cases Let_def otadata_at_def)

text \<open>A record that is at least as new as the active one takes over its slot.\<close>

lemma put_newer_record:
  assumes a: "a = bootloader_common_get_active_otadata crc (Some d)" and "a \<noteq> - 1"
    and v: "bootloader_common_ota_select_valid crc r" and le: "ota_seq (otadata_at d a) \<le> ota_seq r"
    and st: "ota_state r \<in> {ESP_OTA_IMG_NEW, ESP_OTA_IMG_UNDEFINED}"
  shows "chosen crc n (ota_slot r n) (put_record (nat (1 - a)) r d)"
proof -
  have "a = 0 \<or> a = 1" using assms(2) active_range [of crc d] a by auto
  then show ?thesis using v le st by (auto simp: chosen_def put_record_def otadata_at_def Let_def)
qed

lemma put_first_record:
  assumes "bootloader_common_get_active_otadata crc (Some d) = - 1" and "bootloader_common_ota_select_valid crc r"
    and "ota_state r \<in> {ESP_OTA_IMG_NEW, ESP_OTA_IMG_UNDEFINED}"
  shows "chosen crc n (ota_slot r n) (put_record 0 r d)"
proof -
  have "\<not> bootloader_common_ota_select_valid crc (snd d)" using assms(1) by (auto simp: active_otadata_cases Let_def split: if_splits)
  then show ?thesis using assms(2,3) by (auto simp: chosen_def put_record_def otadata_at_def Let_def)
qed

text \<open>What a successful \<^verbatim>\<open>esp_rewrite_ota_data\<close> stores.\<close>

lemma rewrite_ota_data_stored:
  assumes "ready s" and "slot_count s \<noteq> 17" and "otadata_part s od"
    and "esp_rewrite_ota_data env st s = Some (ESP_OK, s')"
    and "n = slot_count s" and "k = SUB_TYPE_ID st" and "d = otadata_of s od"
    and "a = bootloader_common_get_active_otadata (crc32_le env) (Some d)"
  shows "k < n" and "if a = - 1 then stored od (put_record 0 (fresh_record (crc32_le env) (set_new_state_otadata env) (of_nat (k + 1)) (fst d)) d) s s'
    else \<exists>i. seq_loop (unat (ota_seq (otadata_at d a))) ((k + 1) mod n) n 0 = Some i \<and>
      stored od (put_record (nat (1 - a)) (fresh_record (crc32_le env) (set_new_state_otadata env) (of_nat (add32 ((k + 1) mod n) (mul32 i n)))
         (otadata_at d (1 - a))) d) s s'"
proof -
  have od: "lookup s 1 0 = Some od" using assms(3) by (auto simp: otadata_part_def)
  obtain r s1 where r: "read_otadata env s = Some (r, s1)" and q1: "quiet s s1" and rr: "r = None \<or> r = Some (od, d)"
    by (rule read_otadata_cases [OF assms(1) od, of env]) (use assms(7) in blast)
  have l1: "ready s1" "slot_count s1 = n" using quiet_ready [OF q1] quiet_slot_count [OF q1] assms(1,5) by auto
  obtain s2 where c: "esp_ota_get_app_partition_count env s1 = Some (n, s2)" and q2: "quiet s s2"
    using app_partition_count [OF l1(1), of env] l1(2) assms(2,5) quiet_trans [OF q1] by auto
  have some: "r = Some (od, d)" using rr assms(4) r by (auto simp: esp_rewrite_ota_data_def)
  show kn: "k < n" using assms(4,6) r c some by (auto simp: esp_rewrite_ota_data_def split: if_splits)
  have p2: "otadata_part s2 od" "otadata_of s2 od = d" using quiet_otadata_part [OF q2] quiet_otadata [OF q2] assms(3,7) by auto
  have len: "length (seq_label (otadata_at d i)) = 20" for i using assms(7) by (simp add: otadata_at_def otadata_of_def rd_select_def)
  have ar: "a = - 1 \<or> a = 0 \<or> a = 1" using active_range [of "crc32_le env" d] assms(8) by auto
  show "if a = - 1 then stored od (put_record 0 (fresh_record (crc32_le env) (set_new_state_otadata env) (of_nat (k + 1)) (fst d)) d) s s'
    else \<exists>i. seq_loop (unat (ota_seq (otadata_at d a))) ((k + 1) mod n) n 0 = Some i \<and>
      stored od (put_record (nat (1 - a)) (fresh_record (crc32_le env) (set_new_state_otadata env) (of_nat (add32 ((k + 1) mod n) (mul32 i n)))
         (otadata_at d (1 - a))) d) s s'"
  proof (cases "a = - 1")
    case True
    then have "rewrite_ota_seq env (Some (set_state d 0 (set_new_state_otadata env))) (of_nat (k + 1)) 0 od s2 = Some (ESP_OK, s')"
      using assms(4,6,8) r c some kn by (simp add: esp_rewrite_ota_data_def)
    from rewrite_ota_seq_stored [OF p2(1) _ _ this] have "stored od (put_record 0 (fresh_record (crc32_le env) (set_new_state_otadata env) (of_nat (k + 1)) (fst d)) d) s2 s'"
      using len [of 0] p2(2) by (simp add: set_state_def otadata_at_def fresh_record_def)
    then show ?thesis using stored_quiet [OF q2] True by simp
  next
    case False
    then obtain i where i: "seq_loop (unat (ota_seq (otadata_at d a))) ((k + 1) mod n) n 0 = Some i"
      and w: "rewrite_ota_seq env (Some (set_state d (1 - a) (set_new_state_otadata env))) (of_nat (add32 ((k + 1) mod n) (mul32 i n))) (nat (1 - a)) od s2 = Some (ESP_OK, s')"
      using assms(4,6,8) r c some kn by (auto simp: esp_rewrite_ota_data_def bind_eq_Some_conv Let_def)
    from rewrite_ota_seq_stored [OF p2(1) _ _ w]
    have "stored od (put_record (nat (1 - a)) (fresh_record (crc32_le env) (set_new_state_otadata env) (of_nat (add32 ((k + 1) mod n) (mul32 i n))) (otadata_at d (1 - a))) d) s2 s'"
      using len [of 0] len [of 1] p2(2) ar False by (auto simp: set_state_def otadata_at_def fresh_record_def)
    then show ?thesis using i stored_quiet [OF q2] False by auto
  qed
qed


lemma of_nat_seq: "x < 2 ^ 32 - 1 \<Longrightarrow> unat (of_nat x :: u32) = x \<and> (of_nat x :: u32) \<noteq> UINT32_MAX"
proof -
  assume x: "x < 2 ^ 32 - 1"
  then have u: "unat (of_nat x :: u32) = x" by (simp add: unat_of_nat)
  moreover have "unat (UINT32_MAX :: u32) = 2 ^ 32 - 1" by (simp add: unsigned_minus_1_eq_mask mask_eq_exp_minus_1)
  ultimately show ?thesis using x by (metis less_irrefl)
qed

lemma slot_of_seq: "1 \<le> x \<Longrightarrow> x < 2 ^ 32 - 1 \<Longrightarrow> ota_slot (fresh_record crc st (of_nat x) r) n = (x - 1) mod n"
proof -
  assume x: "1 \<le> x" "x < 2 ^ 32 - 1"
  then have "(of_nat x - 1 :: u32) = of_nat (x - 1)" by simp
  then show ?thesis using of_nat_seq [of "x - 1"] x by (simp add: ota_slot_def fresh_record_def)
qed

text \<open>\<open>(k + 1) mod n + i n - 1\<close> is \<open>k\<close> modulo \<open>n\<close>.\<close>

lemma seq_mod:
  fixes k n i :: nat
  assumes "k < n" and "1 \<le> (k + 1) mod n + i * n"
  shows "((k + 1) mod n + i * n - 1) mod n = k"
proof (cases "k + 1 = n")
  case True
  then obtain j where j: "i = Suc j" using assms(2) by (cases i) auto
  have "i * n - 1 = k + j * n" using j True by simp
  then show ?thesis using assms(1) True by simp
next
  case False
  then show ?thesis using assms(1) by simp
qed

lemma choose_slot:
  assumes "ready s" and "slot_count s \<noteq> 17" and "otadata_part s od"
    and "esp_rewrite_ota_data env st s = Some (ESP_OK, s')"
    and "\<forall>i \<in> {0, 1}. let r = otadata_at (otadata_of s od) i in bootloader_common_ota_select_valid (crc32_le env) r \<longrightarrow>
      0 < ota_seq r \<and> unat (ota_seq r) + slot_count s < 2 ^ 32 - 1"
  shows "SUB_TYPE_ID st < slot_count s" and "\<exists>d. stored od d s s' \<and> chosen (crc32_le env) (slot_count s) (SUB_TYPE_ID st) d"
proof -
  let ?n = "slot_count s" and ?k = "SUB_TYPE_ID st" and ?d = "otadata_of s od" and ?c = "crc32_le env"
  let ?a = "bootloader_common_get_active_otadata ?c (Some ?d)" and ?st = "set_new_state_otadata env"
  note w = rewrite_ota_data_stored [OF assms(1-4) refl refl refl refl]
  show k: "?k < ?n" by (rule w(1))
  have st: "?st \<noteq> ESP_OTA_IMG_INVALID" "?st \<noteq> ESP_OTA_IMG_ABORTED" by (auto simp: set_new_state_otadata_def)
  have fr: "ota_state (fresh_record ?c ?st seq r) \<in> {ESP_OTA_IMG_NEW, ESP_OTA_IMG_UNDEFINED}" for seq r
    by (auto simp: set_new_state_otadata_def fresh_record_def)
  show "\<exists>d. stored od d s s' \<and> chosen ?c ?n ?k d"
  proof (cases "?a = - 1")
    case True
    let ?r = "fresh_record ?c ?st (of_nat (?k + 1)) (fst ?d)"
    have x: "?k + 1 < 2 ^ 32 - 1" by (simp add: SUB_TYPE_ID_def)
    have "bootloader_common_ota_select_valid ?c ?r" using fresh_valid [OF st] of_nat_seq [OF x] by blast
    from put_first_record [OF True this fr, of ?n] have "chosen ?c ?n ?k (put_record 0 ?r ?d)"
      using slot_of_seq [of "?k + 1" ?c ?st "fst ?d" ?n] x k by simp
    moreover have "stored od (put_record 0 ?r ?d) s s'" using w(2) unfolding if_P [OF True] .
    ultimately show ?thesis by blast
  next
    case False
    let ?s = "ota_seq (otadata_at ?d ?a)"
    have "?a \<in> {0, 1}" using active_range [of ?c ?d] False by blast
    moreover have "bootloader_common_ota_select_valid ?c (otadata_at ?d ?a)"
      using False by (auto simp: active_otadata_cases Let_def otadata_at_def split: if_splits)
    ultimately have s: "0 < ?s" "unat ?s + ?n < 2 ^ 32 - 1" using assms(5) by (auto simp: Let_def)
    obtain i where i: "seq_loop (unat ?s) ((?k + 1) mod ?n) ?n 0 = Some i"
      and stored: "stored od (put_record (nat (1 - ?a)) (fresh_record ?c ?st (of_nat (add32 ((?k + 1) mod ?n) (mul32 i ?n))) (otadata_at ?d (1 - ?a))) ?d) s s'"
      using w(2) False by auto
    define x where "x = (?k + 1) mod ?n + i * ?n"
    have b: "unat ?s \<le> x \<and> x < unat ?s + ?n"
      using seq_loop_result [of ?n "(?k + 1) mod ?n" "unat ?s" 0] k s(2) i by (auto simp: x_def)
    have x: "x < 2 ^ 32 - 1" "1 \<le> x" "add32 ((?k + 1) mod ?n) (mul32 i ?n) = x"
      using b s by (auto simp: x_def word_less_nat_alt mul32_exact add32_exact)
    let ?r = "fresh_record ?c ?st (of_nat x) (otadata_at ?d (1 - ?a))"
    have "bootloader_common_ota_select_valid ?c ?r" using fresh_valid [OF st] of_nat_seq [OF x(1)] by blast
    moreover have "?s \<le> ota_seq ?r" using b of_nat_seq [OF x(1)] by (simp add: fresh_record_def word_le_nat_alt)
    ultimately have "chosen ?c ?n (ota_slot ?r ?n) (put_record (nat (1 - ?a)) ?r ?d)"
      using put_newer_record [OF refl False _ _ fr] by blast
    moreover have "ota_slot ?r ?n = ?k" using slot_of_seq [OF x(2,1)] seq_mod [OF k, of i] x(2) by (simp add: x_def)
    ultimately show ?thesis using stored [unfolded x(3)] by metis
  qed
qed


lemma stored_frame:
  assumes "stored od d s s'"
  shows "lookup s' = lookup s" and "slot_count s' = slot_count s" and "default_boot s' = default_boot s" and "ready s' = ready s"
    and "otadata_part s' od" and "otadata_of s' od = d" and "working (chips (ps s) 0) \<Longrightarrow> working (chips (ps s') 0)"
proof -
  show l: "lookup s' = lookup s" using assms by (simp add: stored_def lookup_def fun_eq_iff)
  then show "slot_count s' = slot_count s" "default_boot s' = default_boot s" by (simp_all add: slot_count_def slots_def default_boot_def)
qed (use assms in \<open>auto simp: stored_def ready_def\<close>)

lemma description_quiet:
  "esp_ota_get_partition_description env p s = Some (r, s') \<Longrightarrow> quiet s s'"
  using read_quiet by (auto simp: esp_ota_get_partition_description_def bind_eq_Some_conv split: option.splits if_splits)

text \<open>A successful call for an OTA slot has rewritten the OTA data after reading only.\<close>

lemma set_boot_ota:
  assumes "esp_ota_set_boot_partition env (Some p) s = Some (ESP_OK, s1)" and "p_subtype p \<noteq> 0"
  obtains s0 where "quiet s s0" and "esp_rewrite_ota_data env (p_subtype p) s0 = Some (ESP_OK, s1)"
    and "image_verify env (p_address p) (p_size p) (ps s) = ESP_OK" and "p_type p = 0"
proof -
  have 1: "image_validate env p s = ESP_OK" "p_type p = 0"
    using assms by (auto simp: esp_ota_set_boot_partition_def split: if_splits)
  have "\<exists>s0. quiet s s0 \<and> esp_rewrite_ota_data env (p_subtype p) s0 = Some (ESP_OK, s1)"
  proof (cases "anti_rollback env")
    case True
    obtain r s0 where d: "esp_ota_get_partition_description env (Some p) s = Some (r, s0)"
      and e: "esp_rewrite_ota_data env (p_subtype p) s0 = Some (ESP_OK, s1)"
      using assms 1 True
      by (auto simp: esp_ota_set_boot_partition_def bind_eq_Some_conv split: if_splits)
    then show ?thesis using description_quiet by blast
  next
    case False
    then show ?thesis using assms 1 quiet_refl by (auto simp: esp_ota_set_boot_partition_def intro: exI [of _ s])
  qed
  then show ?thesis using that 1 by (auto simp: image_validate_def split: if_splits)
qed

section \<open>Confirming and rejecting\<close>

lemma running_quiet:
  assumes "ready s" and "esp_ota_get_running_partition env s = Some (p, s')"
  shows "quiet s s'"
proof (cases "curr_partition s")
  case None
  then obtain it s1 where f: "part_call (esp_partition_find (cfg env) 0 0xFF None) s = Some (it, s1)" and s': "s' = s1\<lparr> curr_partition := Some p \<rparr>"
    using assms(2) by (auto simp: esp_ota_get_running_partition_def bind_eq_Some_conv split: option.splits)
  obtain it2 q where e: "esp_partition_find (cfg env) 0 0xFF None (ps s) = (it2, q)" by (rule prod.exhaust)
  have "q = (ps s)\<lparr> heap_next := Suc (heap_next (ps s)) \<rparr>"
    using find_loaded [of "ps s" "cfg env" 0 "0xFF" None] assms(1) e by (auto simp: ready_def)
  then have "ps s' = (ps s)\<lparr> heap_next := Suc (heap_next (ps s)) \<rparr>" using f e s' by (auto simp: part_call_def)
  then show ?thesis by (simp add: quiet_def)
next
  case (Some q)
  then show ?thesis using assms(2) by (simp add: esp_ota_get_running_partition_def)
qed

lemma set_anti_rollback_quiet:
  assumes "ready s" and "esp_ota_set_anti_rollback env s = Some (e, s')"
  shows "quiet s s'"
proof -
  obtain p s1 r s2 where 1: "esp_ota_get_running_partition env s = Some (p, s1)"
    and 2: "esp_ota_get_partition_description env (Some p) s1 = Some (r, s2)" and s': "ps s' = ps s2"
    using assms(2) by (auto simp: esp_ota_set_anti_rollback_def bind_eq_Some_conv split: if_splits prod.splits)
  have "quiet s2 s'" using s' by (simp add: quiet_def)
  then show ?thesis using quiet_trans [OF running_quiet [OF assms(1) 1] quiet_trans [OF description_quiet [OF 2]]] by blast
qed

lemma quiet_stored: "stored od d s s1 \<Longrightarrow> quiet s1 s' \<Longrightarrow> stored od d s s'"
  using quiet_otadata quiet_otadata_part quiet_working by (auto simp: stored_def) (auto simp: quiet_def)

text \<open>Rewriting the active record with a new state changes nothing else.\<close>

lemma restate_record:
  assumes "otadata_part s od" and "a \<in> {0, 1}" and "d = otadata_of s od" and "bootloader_common_ota_select_valid (crc32_le env) (otadata_at d a)"
    and "rewrite_ota_seq env (Some (set_state d a st)) (ota_seq (otadata_at d a)) (nat a) od s = Some (ESP_OK, s')"
  shows "stored od (set_state d a st) s s'"
proof -
  have len: "length (seq_label (otadata_at (set_state d a st) (int (nat a)))) = 20"
    using assms(2,3) by (auto simp: otadata_at_def set_state_def otadata_of_def rd_select_def)
  have crc: "crc32_le env UINT32_MAX (bytes_of_u32 (ota_seq (otadata_at d a))) = ota_crc (otadata_at d a)"
    using assms(4) by (simp add: bootloader_common_ota_select_valid_def bootloader_common_ota_select_crc_def)
  have "nat a \<le> 1" using assms(2) by auto
  from rewrite_ota_seq_stored [OF assms(1) this len assms(5), unfolded crc] show ?thesis
    using assms(2,3) by (auto simp: put_record_def set_state_def otadata_at_def)
qed

lemma active_valid:
  "bootloader_common_get_active_otadata crc (Some d) = a \<Longrightarrow> a \<noteq> - 1 \<Longrightarrow> a \<in> {0, 1} \<and> bootloader_common_ota_select_valid crc (otadata_at d a)"
  by (auto simp: active_otadata_cases Let_def otadata_at_def split: if_splits)

lemma set_state_same: "ota_state (otadata_at d a) = st \<Longrightarrow> set_state d a st = d"
  by (auto simp: set_state_def otadata_at_def prod_eq_iff)

text \<open>Both operations begin by reading the records; the rest depends on them only.\<close>

definition workable_rest :: "ota_env \<Rightarrow> bool \<Rightarrow> esp_partition_t \<Rightarrow> two_otadata \<Rightarrow> int \<Rightarrow> esp_err ota" where
  "workable_rest env v od d a s2 =
     (if v \<and> ota_state (otadata_at d a) \<noteq> ESP_OTA_IMG_VALID then do {
        (err, s3) \<leftarrow> rewrite_ota_seq env (Some (set_state d a ESP_OTA_IMG_VALID)) (ota_seq (otadata_at d a)) (nat a) od s2;
        if anti_rollback env \<and> err = ESP_OK then esp_ota_set_anti_rollback env s3 else Some (err, s3)
      }
      else if \<not> v then do {
        (possible, s3) \<leftarrow> esp_ota_check_rollback_is_possible env s2;
        if \<not> possible then Some (ESP_ERR_OTA_ROLLBACK_FAILED, s3)
        else rewrite_ota_seq env (Some (set_state d a ESP_OTA_IMG_INVALID)) (ota_seq (otadata_at d a)) (nat a) od s3
      }
      else Some (ESP_OK, s2))"

lemma workable_reads:
  assumes "ready s" and "slot_count s \<noteq> 17" and "otadata_part s od" and "esp_ota_current_ota_is_workable env v s = Some (ESP_OK, s')"
    and "d = otadata_of s od" and "a = bootloader_common_get_active_otadata (crc32_le env) (Some d)"
  obtains s2 where "quiet s s2" and "a \<noteq> - 1" and "slot_count s \<noteq> 0" and "workable_rest env v od d a s2 = Some (ESP_OK, s')"
    and "otadata_part s2 od" and "otadata_of s2 od = d" and "ready s2"
proof -
  let ?n = "slot_count s"
  have od: "lookup s 1 0 = Some od" using assms(3) by (auto simp: otadata_part_def)
  obtain r s1 where r: "read_otadata env s = Some (r, s1)" and q1: "quiet s s1" and rr: "r = None \<or> r = Some (od, d)"
    by (rule read_otadata_cases [OF assms(1) od, of env]) (use assms(5) in blast)
  have some: "r = Some (od, d)" using rr assms(4) r by (auto simp: esp_ota_current_ota_is_workable_def)
  have l1: "ready s1" "slot_count s1 = ?n" using quiet_ready [OF q1] quiet_slot_count [OF q1] assms(1) by auto
  obtain s2 where c: "esp_ota_get_app_partition_count env s1 = Some (?n, s2)" and q2: "quiet s s2"
    using app_partition_count [OF l1(1), of env] l1(2) assms(2) quiet_trans [OF q1] by auto
  have a: "a \<noteq> - 1" "?n \<noteq> 0" using assms(4,6) r some c by (auto simp: esp_ota_current_ota_is_workable_def Let_def split: if_splits)
  have "workable_rest env v od d a s2 = Some (ESP_OK, s')"
    using assms(4,6) r some c a by (simp add: esp_ota_current_ota_is_workable_def workable_rest_def Let_def)
  then show ?thesis
    using that [OF q2 a] quiet_otadata_part [OF q2] quiet_otadata [OF q2] quiet_ready [OF q2] assms(1,3,5) by simp
qed

lemma confirm_stored:
  assumes "ready s" and "slot_count s \<noteq> 17" and "otadata_part s od" and "esp_ota_mark_app_valid_cancel_rollback env s = Some (ESP_OK, s')"
    and "d = otadata_of s od" and "a = bootloader_common_get_active_otadata (crc32_le env) (Some d)"
  shows "a \<noteq> - 1 \<and> stored od (set_state d a ESP_OTA_IMG_VALID) s s'"
proof -
  obtain s2 where q2: "quiet s s2" and a: "a \<noteq> - 1" and w: "workable_rest env True od d a s2 = Some (ESP_OK, s')"
    and s2: "otadata_part s2 od" "otadata_of s2 od = d" "ready s2"
    by (rule workable_reads [OF assms(1-3) assms(4) [unfolded esp_ota_mark_app_valid_cancel_rollback_def] assms(5,6)])
  note v = active_valid [OF assms(6) [symmetric] a]
  have "stored od (set_state d a ESP_OTA_IMG_VALID) s2 s'"
  proof (cases "ota_state (otadata_at d a) = ESP_OTA_IMG_VALID")
    case True
    then have "set_state d a ESP_OTA_IMG_VALID = d" "s' = s2" using w set_state_same [OF True] by (auto simp: workable_rest_def)
    then show ?thesis using s2 by (simp add: stored_def)
  next
    case False
    then obtain s3 where r: "rewrite_ota_seq env (Some (set_state d a ESP_OTA_IMG_VALID)) (ota_seq (otadata_at d a)) (nat a) od s2 = Some (ESP_OK, s3)"
      and e: "s' = s3 \<or> esp_ota_set_anti_rollback env s3 = Some (ESP_OK, s')"
      using w by (auto simp: workable_rest_def bind_eq_Some_conv split: if_splits)
    have st: "stored od (set_state d a ESP_OTA_IMG_VALID) s2 s3"
      using restate_record [OF s2(1) _ s2(2) [symmetric] _ r] v by blast
    have "ready s3" using stored_frame(4) [OF st] s2(3) by simp
    then show ?thesis using e st quiet_stored [OF st] set_anti_rollback_quiet by blast
  qed
  then show ?thesis using stored_quiet [OF q2] a by blast
qed


text \<open>
  When a rollback is possible, the image it leads to has been verified: the slot of the other
  record if that is valid, the factory image otherwise.
\<close>

lemma rollback_possible:
  assumes "ready s" and "slot_count s \<noteq> 17" and "otadata_part s od" and "esp_ota_check_rollback_is_possible env s = Some (True, s')"
    and "d = otadata_of s od" and "a = bootloader_common_get_active_otadata (crc32_le env) (Some d)" and "n = slot_count s"
  shows "quiet s s'" and "\<exists>q sv. quiet s sv \<and> image_verify env (p_address q) (p_size q) (ps sv) = ESP_OK \<and>
    Some q = (if bootloader_common_ota_select_valid (crc32_le env) (otadata_at d (1 - a)) then lookup s 0 (16 + ota_slot (otadata_at d (1 - a)) n) else lookup s 0 0)"
proof -
  have od: "lookup s 1 0 = Some od" using assms(3) by (auto simp: otadata_part_def)
  obtain r s1 where r: "read_otadata env s = Some (r, s1)" and q1: "quiet s s1" and rr: "r = None \<or> r = Some (od, d)"
    by (rule read_otadata_cases [OF assms(1) od, of env]) (use assms(5) in blast)
  have some: "r = Some (od, d)" using rr assms(4) r by (auto simp: esp_ota_check_rollback_is_possible_def)
  have l1: "ready s1" "slot_count s1 = n" using quiet_ready [OF q1] quiet_slot_count [OF q1] assms(1,7) by auto
  obtain s2 where c: "esp_ota_get_app_partition_count env s1 = Some (n, s2)" and q2: "quiet s s2"
    using app_partition_count [OF l1(1), of env] l1(2) assms(2,7) quiet_trans [OF q1] by auto
  have l2: "ready s2" "lookup s2 = lookup s" using quiet_ready [OF q2] quiet_lookup [OF q2] assms(1) by auto
  let ?v = "bootloader_common_ota_select_valid (crc32_le env)"
  have sel: "bootloader_common_select_otadata (Some d) (Some (?v (fst d), ?v (snd d))) True = a"
    using assms(6) by (cases d) (simp add: bootloader_common_get_active_otadata_def)
  define lv where "lv = ?v (otadata_at d (1 - a))"
  define t where "t = (if lv then 16 + ota_slot (otadata_at d (1 - a)) n else 0)"
  have nz: "n \<noteq> 0" "a \<noteq> - 1" using assms(4) r some c sel by (auto simp: esp_ota_check_rollback_is_possible_def Let_def split: if_splits)
  have ar: "a = 0 \<or> a = 1" using active_range [of "crc32_le env" d] nz(2) assms(6) by auto
  have t: "t < 0xFF" using ota_slot_less [of n "otadata_at d (1 - a)"] nz slot_count_le [of s] assms(7) by (simp add: t_def)
  obtain s3 where f: "find_first env 0 t s2 = Some (lookup s 0 t, s3)" and q23: "quiet s2 s3"
    using find_first_ready [OF l2(1), of 0 t env] t l2(2) by auto
  note q3 = quiet_trans [OF q2 q23]
  have vs: "?v (fst d) = (a = 0 \<or> lv)" "?v (snd d) = (a = 1 \<or> lv)"
    using ar active_valid [OF assms(6) [symmetric] nz(2)] by (auto simp: lv_def otadata_at_def)
  obtain q where q: "lookup s 0 t = Some q" "image_verify env (p_address q) (p_size q) (ps s3) = ESP_OK"
    and s': "s' = s3 \<or> (\<exists>r. esp_ota_get_partition_description env (Some q) s3 = Some (r, s'))"
  proof (cases lv)
    case True
    then show ?thesis using assms(4) r some c f nz ar sel that
      by (auto simp: esp_ota_check_rollback_is_possible_def t_def Let_def vs image_validate_def bind_eq_Some_conv split: if_splits option.splits)
  next
    case False
    then show ?thesis using ar assms(4) r some c f nz sel that
      by (auto simp: esp_ota_check_rollback_is_possible_def t_def Let_def vs image_validate_def bind_eq_Some_conv split: if_splits option.splits)
  qed
  show "quiet s s'" using s' q3 quiet_trans [OF q3] description_quiet by blast
  show "\<exists>q sv. quiet s sv \<and> image_verify env (p_address q) (p_size q) (ps sv) = ESP_OK \<and>
    Some q = (if ?v (otadata_at d (1 - a)) then lookup s 0 (16 + ota_slot (otadata_at d (1 - a)) n) else lookup s 0 0)"
    using q3 q by (intro exI [of _ q] exI [of _ s3]) (auto simp: t_def lv_def split: if_splits)
qed

lemma reject_stored:
  assumes "ready s" and "slot_count s \<noteq> 17" and "otadata_part s od" and "esp_ota_mark_app_invalid_rollback env s = Some (ESP_OK, s')"
    and "d = otadata_of s od" and "a = bootloader_common_get_active_otadata (crc32_le env) (Some d)" and "n = slot_count s"
  shows "a \<noteq> - 1" and "n \<noteq> 0" and "stored od (set_state d a ESP_OTA_IMG_INVALID) s s'"
    and "\<exists>q sv. quiet s sv \<and> image_verify env (p_address q) (p_size q) (ps sv) = ESP_OK \<and>
    Some q = (if bootloader_common_ota_select_valid (crc32_le env) (otadata_at d (1 - a)) then lookup s 0 (16 + ota_slot (otadata_at d (1 - a)) n) else lookup s 0 0)"
proof -
  obtain s2 where q2: "quiet s s2" and a: "a \<noteq> - 1" "n \<noteq> 0" and w: "workable_rest env False od d a s2 = Some (ESP_OK, s')"
    and s2: "otadata_part s2 od" "otadata_of s2 od = d" "ready s2"
    by (rule workable_reads [OF assms(1-3) assms(4) [unfolded esp_ota_mark_app_invalid_rollback_def] assms(5,6)]) (use assms(7) in blast)
  then show "a \<noteq> - 1" "n \<noteq> 0" by auto
  obtain s3 where p: "esp_ota_check_rollback_is_possible env s2 = Some (True, s3)"
    and r: "rewrite_ota_seq env (Some (set_state d a ESP_OTA_IMG_INVALID)) (ota_seq (otadata_at d a)) (nat a) od s3 = Some (ESP_OK, s')"
    using w by (auto simp: workable_rest_def bind_eq_Some_conv split: if_splits)
  have n2: "slot_count s2 = n" "lookup s2 = lookup s" using quiet_slot_count [OF q2] quiet_lookup [OF q2] assms(7) by auto
  note rp = rollback_possible [OF s2(3) _ s2(1) p s2(2) [symmetric] assms(6) n2(1) [symmetric]]
  have q3: "quiet s2 s3" using rp(1) n2 assms(2,7) by simp
  have "stored od (set_state d a ESP_OTA_IMG_INVALID) s3 s'"
    using restate_record [OF _ _ _ _ r] quiet_otadata_part [OF q3] quiet_otadata [OF q3] s2 active_valid [OF assms(6) [symmetric] a(1)] by auto
  then show "stored od (set_state d a ESP_OTA_IMG_INVALID) s s'" using stored_quiet [OF quiet_trans [OF q2 q3]] by blast
  show "\<exists>q sv. quiet s sv \<and> image_verify env (p_address q) (p_size q) (ps sv) = ESP_OK \<and>
    Some q = (if bootloader_common_ota_select_valid (crc32_le env) (otadata_at d (1 - a)) then lookup s 0 (16 + ota_slot (otadata_at d (1 - a)) n) else lookup s 0 0)"
    using rp(2) n2 assms(2,7) quiet_trans [OF q2] by metis
qed

text \<open>The records after a confirmation and after a rejection.\<close>

lemma confirm_slot:
  "a = bootloader_common_get_active_otadata crc (Some d) \<Longrightarrow> a \<noteq> - 1 \<Longrightarrow>
     bootloader_common_get_active_otadata crc (Some (set_state d a ESP_OTA_IMG_VALID)) = a \<and> boot_slot crc n (set_state d a ESP_OTA_IMG_VALID) = boot_slot crc n d"
  by (auto simp: boot_slot_def active_otadata_cases set_state_def otadata_at_def ota_slot_def bootloader_common_ota_select_valid_def
      bootloader_common_ota_select_invalid_def bootloader_common_ota_select_crc_def Let_def split: if_splits)

lemma reject_slot:
  "a = bootloader_common_get_active_otadata crc (Some d) \<Longrightarrow> a \<noteq> - 1 \<Longrightarrow> n \<noteq> 0 \<Longrightarrow>
     boot_slot crc n (set_state d a ESP_OTA_IMG_INVALID) =
       (if bootloader_common_ota_select_valid crc (otadata_at d (1 - a)) then Some (ota_slot (otadata_at d (1 - a)) n) else None)"
  by (auto simp: boot_slot_def active_otadata_cases set_state_def otadata_at_def bootloader_common_ota_select_valid_def
      bootloader_common_ota_select_invalid_def bootloader_common_ota_select_crc_def Let_def split: if_splits)

section \<open>On a working device\<close>

text \<open>
  No driver call fails, nothing protects the OTA data partition, and it consists of two whole
  sectors of the chip.
\<close>

definition healthy :: "ota_env \<Rightarrow> ota_state \<Rightarrow> esp_partition_t \<Rightarrow> bool" where
  "healthy env s od \<longleftrightarrow>
     (let f = chips (ps s) 0 in drv_results f = [] \<and> protectable_regions f = [] \<and> sector_size f = 4096 \<and> 4096 dvd block_erase_size f
        \<and> \<not> verify_write f \<and> is_default_chip f \<and> p_address od + p_size od \<le> chip_size f
        \<and> (\<forall>a n. p_address od \<le> a \<longrightarrow> a + n \<le> p_address od + p_size od \<longrightarrow> region_protected f a n = ESP_OK))
     \<and> 4096 dvd p_address od \<and> 8192 \<le> p_size od \<and> \<not> p_readonly od \<and> (p_encrypted od \<longrightarrow> encrypted_rw (cfg env))"

lemma healthy_working: "healthy env s od \<Longrightarrow> working (chips (ps s) 0)"
  by (simp add: healthy_def working_def Let_def)

lemma healthy_mem:
  assumes "healthy env s od" and "chips (ps s') 0 = (chips (ps s) 0)\<lparr> flash_mem := m \<rparr>"
  shows "healthy env s' od"
  using assms by (simp add: healthy_def Let_def)

lemma rewrite_ota_seq_live:
  assumes "otadata_part s od" and "healthy env s od" and "i \<le> 1" and "length (seq_label (otadata_at d (int i))) = 20"
  shows "\<exists>s' m. rewrite_ota_seq env (Some d) seq i od s = Some (ESP_OK, s') \<and> chips (ps s') 0 = (chips (ps s) 0)\<lparr> flash_mem := m \<rparr>"
proof -
  let ?f = "chips (ps s) 0" and ?off = "i * 4096"
  have od: "p_flash_chip od = 0" "p_erase_size od = 4096" "part_ok od (ps s)" "p_encrypted od = enc_enabled ?f"
    using assms(1) by (auto simp: otadata_part_def)
  have h: "drv_results ?f = []" "protectable_regions ?f = []" "sector_size ?f = 4096" "4096 dvd block_erase_size ?f" "\<not> verify_write ?f" "is_default_chip ?f"
      "p_address od + p_size od \<le> chip_size ?f" "4096 dvd p_address od" "8192 \<le> p_size od" "\<not> p_readonly od" "p_encrypted od \<Longrightarrow> encrypted_rw (cfg env)"
    and prot: "\<And>a n. p_address od \<le> a \<Longrightarrow> a + n \<le> p_address od + p_size od \<Longrightarrow> region_protected ?f a n = ESP_OK"
    using assms(2) by (auto simp: healthy_def Let_def)
  have a: "p_address od + p_size od < 2 ^ 32" using od(3) by (simp add: part_ok_def)
  have off: "?off + 4096 \<le> p_size od" using h(9) assms(3) by linarith
  have o: "mul32 i 4096 = ?off" "mul32 4096 i = ?off" "add32 (p_address od) ?off = p_address od + ?off"
    using assms(3) a off by (auto simp: mul32_exact add32_exact)
  define m1 where "m1 = erase_mem (p_address od + ?off) 4096 (flash_mem ?f)"
  have "esp_flash_erase_region ?f (p_address od + ?off) 4096 = (ESP_OK, ?f\<lparr> flash_mem := m1 \<rparr>)"
    unfolding m1_def using h off prot by (intro erase_region_live) auto
  then have e: "esp_partition_erase_range od ?off 4096 (ps s) = (ESP_OK, (ps s)\<lparr> chips := (chips (ps s))(0 := ?f\<lparr> flash_mem := m1 \<rparr>) \<rparr>)"
    using off h(10) od(1) o(3) by (simp add: esp_partition_erase_range_def on_chip_def)
  define r where "r = select_bytes ((otadata_at d (int i))\<lparr> ota_seq := seq, ota_crc := crc32_le env UINT32_MAX (bytes_of_u32 seq) \<rparr>)"
  have lr: "length r = 32" using assms(4) by (simp add: r_def length_select_bytes)
  let ?f1 = "?f\<lparr> flash_mem := m1 \<rparr>" and ?p1 = "(ps s)\<lparr> chips := (chips (ps s))(0 := ?f\<lparr> flash_mem := m1 \<rparr>) \<rparr>"
  have al: "(p_address od + ?off) mod 16 = 0"
  proof -
    have "16 dvd p_address od" using h(8) by (rule dvd_trans [rotated]) simp
    moreover have "16 dvd ?off" by (rule dvd_mult) simp
    ultimately show ?thesis by (simp add: dvd_imp_mod_0)
  qed
  have "\<exists>m. esp_partition_write (cfg env) od True ?off r ?p1 = (ESP_OK, (ps s)\<lparr> chips := (chips (ps s))(0 := ?f\<lparr> flash_mem := m \<rparr>) \<rparr>)"
  proof (cases "p_encrypted od")
    case True
    have "cipher_ok ?f1" using od(1,3) True by (simp add: part_ok_def xts_ok_def cipher_ok_def)
    then have "esp_flash_write_encrypted ?f1 True (p_address od + ?off) r =
        (ESP_OK, ?f1\<lparr> flash_mem := program_mem (p_address od + ?off) (xts_cipher (xts_enc ?f1) (p_address od + ?off) r) (flash_mem ?f1) \<rparr>)"
      using h prot off lr al by (intro write_encrypted_live) auto
    then show ?thesis using h(10,11) off od(1) o(3) lr True by (auto simp: esp_partition_write_def on_chip_def)
  next
    case False
    have "esp_flash_write ?f1 True r (p_address od + ?off) = (ESP_OK, ?f1\<lparr> flash_mem := program_mem (p_address od + ?off) r (flash_mem ?f1) \<rparr>)"
      using h prot off lr by (intro write_live) auto
    then show ?thesis using h(10) off od(1) o(3) lr False by (auto simp: esp_partition_write_def on_chip_def)
  qed
  then obtain m where w: "esp_partition_write (cfg env) od True ?off r ?p1 = (ESP_OK, (ps s)\<lparr> chips := (chips (ps s))(0 := ?f\<lparr> flash_mem := m \<rparr>) \<rparr>)"
    by blast
  have "rewrite_ota_seq env (Some d) seq i od s = Some (ESP_OK, s\<lparr> ps := (ps s)\<lparr> chips := (chips (ps s))(0 := ?f\<lparr> flash_mem := m \<rparr>) \<rparr> \<rparr>)"
    using assms(3) e w od(2) o(1,2) by (simp add: rewrite_ota_seq_def part_call_def bootloader_common_ota_select_crc_def r_def Let_def)
  then show ?thesis by auto
qed

lemma quiet_healthy: "quiet s s' \<Longrightarrow> healthy env s od \<Longrightarrow> healthy env s' od"
proof -
  assume q: "quiet s s'" and h: "healthy env s od"
  have l: "later (chips (ps s) 0) (flash_mem (chips (ps s) 0)) (chips (ps s') 0)" using q by (simp add: quiet_def)
  then have "drv_results (chips (ps s') 0) = []" using h by (auto simp: later_def healthy_def Let_def)
  then show ?thesis using l h chip_cfg_sel [of "chips (ps s') 0" "chips (ps s) 0"] by (simp add: later_def healthy_def Let_def)
qed

text \<open>The sequence numbers leave room for one more round over the slots.\<close>

definition seq_room :: "crc_fn \<Rightarrow> nat \<Rightarrow> two_otadata \<Rightarrow> bool" where
  "seq_room crc n d \<longleftrightarrow> (\<forall>i \<in> {0, 1}. bootloader_common_ota_select_valid crc (otadata_at d i) \<longrightarrow>
     0 < ota_seq (otadata_at d i) \<and> unat (ota_seq (otadata_at d i)) + n < 2 ^ 32 - 1)"

lemma rewrite_ota_data_live:
  assumes "ready s" and "slot_count s \<noteq> 17" and "otadata_part s od" and "healthy env s od"
    and "seq_room (crc32_le env) (slot_count s) (otadata_of s od)" and "SUB_TYPE_ID st < slot_count s"
  shows "\<exists>s'. esp_rewrite_ota_data env st s = Some (ESP_OK, s') \<and> healthy env s' od"
proof -
  let ?d = "otadata_of s od" and ?n = "slot_count s"
  let ?a = "bootloader_common_get_active_otadata (crc32_le env) (Some ?d)" and ?st = "set_new_state_otadata env"
  have od: "lookup s 1 0 = Some od" "p_flash_chip od = 0" using assms(3) by (auto simp: otadata_part_def)
  obtain s1 where r: "read_otadata env s = Some (Some (od, ?d), s1)" and q1: "quiet s s1"
    by (rule read_otadata_cases [OF assms(1) od(1), of env]) (use healthy_working [OF assms(4)] od(2) in auto)
  have l1: "ready s1" "slot_count s1 = ?n" using quiet_ready [OF q1] quiet_slot_count [OF q1] assms(1) by auto
  obtain s2 where c: "esp_ota_get_app_partition_count env s1 = Some (?n, s2)" and q2: "quiet s s2"
    using app_partition_count [OF l1(1), of env] l1(2) assms(2) quiet_trans [OF q1] by auto
  have s2: "otadata_part s2 od" "healthy env s2 od" using quiet_otadata_part [OF q2] quiet_healthy [OF q2] assms by auto
  have len: "length (seq_label (otadata_at (set_state ?d i st) j)) = 20" for i j st
    by (simp add: otadata_at_def set_state_def otadata_of_def rd_select_def)
  have live: "\<exists>s'. rewrite_ota_seq env (Some (set_state ?d j ?st)) q i od s2 = Some (ESP_OK, s') \<and> healthy env s' od" if "i \<le> 1" for i j q
    using rewrite_ota_seq_live [OF s2 that len] healthy_mem [OF s2(2)] by blast
  show ?thesis
  proof (cases "?a = - 1")
    case True
    then show ?thesis using r c assms(6) live [of 0 0] by (simp add: esp_rewrite_ota_data_def)
  next
    case False
    note v = active_valid [OF refl False]
    have s: "unat (ota_seq (otadata_at ?d ?a)) + ?n < 2 ^ 32" using assms(5) v by (auto simp: seq_room_def)
    obtain i where "seq_loop (unat (ota_seq (otadata_at ?d ?a))) ((SUB_TYPE_ID st + 1) mod ?n) ?n 0 = Some i"
      using seq_loop_result [OF _ _ s] assms(6) by (metis mod_less_divisor not_less0 zero_less_iff_neq_zero)
    moreover have "nat (1 - ?a) \<le> 1" using v by auto
    ultimately show ?thesis using r c assms(6) live [of "nat (1 - ?a)" "1 - ?a"] False by (simp add: esp_rewrite_ota_data_def Let_def)
  qed
qed

lemma set_boot_then_boot:
  assumes "ready s" and "slot_count s \<noteq> 17" and "otadata_part s od" and "seq_room (crc32_le env) (slot_count s) (otadata_of s od)"
    and "p_subtype p \<in> {16..<32}" and "esp_ota_set_boot_partition env (Some p) s = Some (ESP_OK, s1)"
  shows "\<exists>d. stored od d s s1 \<and> chosen (crc32_le env) (slot_count s) (p_subtype p - 16) d
    \<and> boot_slot (crc32_le env) (slot_count s) d = Some (p_subtype p - 16) \<and> p_subtype p - 16 < slot_count s
    \<and> image_verify env (p_address p) (p_size p) (ps s) = ESP_OK"
proof -
  obtain s0 where q: "quiet s s0" and w: "esp_rewrite_ota_data env (p_subtype p) s0 = Some (ESP_OK, s1)"
    and i: "image_verify env (p_address p) (p_size p) (ps s) = ESP_OK"
    using set_boot_ota [OF assms(6)] assms(5) by (metis atLeastLessThan_iff not_numeral_le_zero)
  have k: "SUB_TYPE_ID (p_subtype p) = p_subtype p - 16" using assms(5) by (auto simp: SUB_TYPE_ID_def le_mod_geq)
  have s0: "ready s0" "slot_count s0 = slot_count s" "otadata_part s0 od" "otadata_of s0 od = otadata_of s od"
    using q quiet_ready quiet_slot_count quiet_otadata_part quiet_otadata assms(1,3) by auto
  have "\<forall>i \<in> {0, 1}. let r = otadata_at (otadata_of s0 od) i in bootloader_common_ota_select_valid (crc32_le env) r \<longrightarrow>
      0 < ota_seq r \<and> unat (ota_seq r) + slot_count s0 < 2 ^ 32 - 1"
    using assms(4) s0 by (simp add: seq_room_def Let_def)
  from choose_slot [OF s0(1) _ s0(3) w this] obtain d where "stored od d s0 s1" "chosen (crc32_le env) (slot_count s) (p_subtype p - 16) d"
    "p_subtype p - 16 < slot_count s" using s0 assms(2) k by auto
  then show ?thesis using stored_quiet [OF q] i chosen_slot by (metis gr_implies_not0 gr0I)
qed


section \<open>Properties\<close>

text \<open>
  C11: switching takes effect. When \<^verbatim>\<open>esp_ota_set_boot_partition\<close> returns \<^verbatim>\<open>ESP_OK\<close> for an OTA
  partition, its image passed verification and, unless the flash fails afterwards,
  \<^verbatim>\<open>esp_ota_get_boot_partition\<close> returns the partition of that slot, which exists; with and
  without flash encryption and anti-rollback, and whichever of the two records was active.
\<close>

theorem set_boot_partition_takes_effect:
  assumes "ready s" and "slot_count s \<noteq> 17" and "otadata_part s od" and "seq_room (crc32_le env) (slot_count s) (otadata_of s od)"
    and "p_subtype p \<in> {16..<32}" and "esp_ota_set_boot_partition env (Some p) s = Some (ESP_OK, s1)" and "working (chips (ps s) 0)"
  shows "image_verify env (p_address p) (p_size p) (ps s) = ESP_OK \<and>
    (\<exists>q s2. esp_ota_get_boot_partition env s1 = Some (Some q, s2) \<and> lookup s PART_TYPE_APP (p_subtype p) = Some q)"
proof -
  obtain d where st: "stored od d s s1" and b: "boot_slot (crc32_le env) (slot_count s) d = Some (p_subtype p - 16)" "p_subtype p - 16 < slot_count s"
    and i: "image_verify env (p_address p) (p_size p) (ps s) = ESP_OK"
    using set_boot_then_boot [OF assms(1-6)] by blast
  note f = stored_frame [OF st]
  obtain s2 where g: "esp_ota_get_boot_partition env s1 = Some (boot_partition (crc32_le env) s1 od, s2)"
    using get_boot_partition [of s1 od env] f assms(1,2,7) by auto
  have "boot_partition (crc32_le env) s1 od = lookup s 0 (p_subtype p)" using b f assms(5) by (auto simp: boot_partition_def)
  moreover have "lookup s 0 (p_subtype p) \<noteq> None" using slot_present [OF b(2)] assms(5) by auto
  ultimately show ?thesis using g i by auto
qed

text \<open>
  C28: switching succeeds on a working device: for a verified image in an existing OTA slot,
  without anti-rollback, \<^verbatim>\<open>esp_ota_set_boot_partition\<close> returns \<^verbatim>\<open>ESP_OK\<close>; in particular the search for
  the next sequence number ends.
\<close>

theorem set_boot_partition_succeeds:
  assumes "ready s" and "slot_count s \<noteq> 17" and "otadata_part s od" and "healthy env s od"
    and "seq_room (crc32_le env) (slot_count s) (otadata_of s od)"
    and "p_type p = PART_TYPE_APP" and "p_subtype p \<in> {16..<32}" and "p_subtype p - 16 < slot_count s"
    and "image_verify env (p_address p) (p_size p) (ps s) = ESP_OK" and "\<not> anti_rollback env"
  shows "\<exists>s1. esp_ota_set_boot_partition env (Some p) s = Some (ESP_OK, s1)"
proof -
  have k: "SUB_TYPE_ID (p_subtype p) = p_subtype p - 16" using assms(7) by (auto simp: SUB_TYPE_ID_def le_mod_geq)
  have "\<exists>s'. esp_rewrite_ota_data env (p_subtype p) s = Some (ESP_OK, s')" using rewrite_ota_data_live [OF assms(1-5), of "p_subtype p"] assms(8) k by (metis (no_types))
  then show ?thesis using assms(6,7,9,10) by (auto simp: esp_ota_set_boot_partition_def image_validate_def)
qed

text \<open>
  C22: rolling back. When \<^verbatim>\<open>esp_ota_mark_app_invalid_rollback\<close> returns \<^verbatim>\<open>ESP_OK\<close>, the active record is
  marked invalid, the other one is untouched, and the device then boots a partition that
  exists and whose image was verified during the call.
\<close>

theorem rollback_boots_verified_image:
  assumes "ready s" and "slot_count s \<noteq> 17" and "otadata_part s od" and "esp_ota_mark_app_invalid_rollback env s = Some (ESP_OK, s')"
    and "working (chips (ps s) 0)"
  shows "let d = otadata_of s od; a = bootloader_common_get_active_otadata (crc32_le env) (Some d) in
    a \<noteq> - 1 \<and> otadata_of s' od = set_state d a ESP_OTA_IMG_INVALID \<and>
    (\<exists>q s2 sv. esp_ota_get_boot_partition env s' = Some (Some q, s2) \<and> quiet s sv \<and> image_verify env (p_address q) (p_size q) (ps sv) = ESP_OK)"
proof -
  let ?d = "otadata_of s od" and ?n = "slot_count s" and ?c = "crc32_le env" let ?a = "bootloader_common_get_active_otadata ?c (Some ?d)"
  note r = reject_stored [OF assms(1-4) refl refl refl]
  note f = stored_frame [OF r(3)]
  obtain q sv where q: "quiet s sv" "image_verify env (p_address q) (p_size q) (ps sv) = ESP_OK"
    and l: "Some q = (if bootloader_common_ota_select_valid ?c (otadata_at ?d (1 - ?a)) then lookup s 0 (16 + ota_slot (otadata_at ?d (1 - ?a)) ?n) else lookup s 0 0)"
    using r(4) by blast
  have "default_boot s = Some q" if "lookup s 0 0 = Some q" using that by (simp add: default_boot_def)
  then have "boot_partition ?c s' od = Some q"
    using reject_slot [OF refl r(1,2)] f l by (auto simp: boot_partition_def split: if_splits)
  then obtain s2 where "esp_ota_get_boot_partition env s' = Some (Some q, s2)"
    using get_boot_partition [of s' od env] f assms(1,2,5) by auto
  then show ?thesis using q r(1) f(6) by (auto simp: Let_def)
qed

section \<open>The next partition to update\<close>

text \<open>The OTA partitions in slot order, and the successor of a partition among them, in a circle.\<close>

definition ota_parts :: "ota_state \<Rightarrow> esp_partition_t list" where
  "ota_parts s = List.map_filter (lookup s 0) [16..<32]"

fun pick :: "esp_partition_t \<Rightarrow> esp_partition_t list \<Rightarrow> esp_partition_t option \<Rightarrow> bool \<Rightarrow> esp_partition_t option" where
  "pick start [] dflt nxt = dflt"
| "pick start (p # qs) dflt nxt =
     (let dflt' = (case dflt of None \<Rightarrow> Some p | Some d \<Rightarrow> Some d) in
      if p_self p = p_self start then pick start qs dflt' True
      else if nxt then Some p else pick start qs dflt' nxt)"

lemma next_loop_ready:
  assumes "ready s" and "\<forall>t \<in> set ts. t < 0xFF"
  shows "\<exists>s'. next_loop env start ts dflt nxt s = Some (pick start (List.map_filter (lookup s 0) ts) dflt nxt, s') \<and> quiet s s'"
  using assms
proof (induction ts arbitrary: s dflt nxt)
  case Nil
  then show ?case by (simp add: map_filter_simps)
next
  case (Cons t ts)
  obtain s1 where f: "find_first env 0 t s = Some (lookup s 0 t, s1)" and q: "quiet s s1"
    using find_first_ready [OF Cons.prems(1), of 0 t env] Cons.prems(2) by auto
  have l: "lookup s1 = lookup s" by (rule quiet_lookup [OF q])
  have IH: "\<exists>s'. next_loop env start ts dflt' nxt' s1 = Some (pick start (List.map_filter (lookup s 0) ts) dflt' nxt', s') \<and> quiet s s'" for dflt' nxt'
    using Cons.IH [of s1 dflt' nxt'] quiet_ready [OF q] Cons.prems l quiet_trans [OF q] by fastforce
  show ?case
  proof (cases "lookup s 0 t")
    case None
    then show ?thesis using IH f by (simp add: map_filter_simps)
  next
    case (Some p)
    then show ?thesis using IH f q by (auto simp: map_filter_simps Let_def)
  qed
qed

lemma pick_next: "p_self start \<notin> p_self ` set qs \<Longrightarrow> pick start qs (Some d) True = Some (hd (qs @ [d]))"
  by (cases qs) (auto simp: Let_def)

lemma pick_absent: "p_self start \<notin> p_self ` set qs \<Longrightarrow> pick start qs dflt False = (case dflt of None \<Rightarrow> (if qs = [] then None else Some (hd qs)) | Some d \<Rightarrow> Some d)"
  by (induction qs arbitrary: dflt) (auto simp: Let_def split: option.splits)

lemma pick_present:
  assumes "distinct (map p_self (xs @ p # ys))" and "p_self p = p_self start"
  shows "pick start (xs @ p # ys) dflt False = Some (hd (ys @ [case dflt of None \<Rightarrow> hd (xs @ [p]) | Some d \<Rightarrow> d]))"
  using assms
proof (induction xs arbitrary: dflt)
  case Nil
  then show ?case by (auto simp: pick_next Let_def image_iff split: option.splits)
next
  case (Cons x xs)
  have "p_self x \<noteq> p_self start" using Cons.prems by auto
  then show ?case using Cons.IH [of "Some (case dflt of None \<Rightarrow> x | Some d \<Rightarrow> d)"] Cons.prems
    by (auto simp: Let_def split: option.splits)
qed

lemma verify_quiet:
  assumes "ready s" and "part_call (esp_partition_verify (cfg env) p) s = Some (r, s')"
  shows "quiet s s'"
  using assms(2) find_loaded [of "ps s" "cfg env" "p_type p" "p_subtype p"] assms(1) quiet_heap [of s]
  by (auto simp: part_call_def esp_partition_verify_def ready_def Let_def split: if_splits)

text \<open>
  \<^verbatim>\<open>esp_ota_get_next_update_partition\<close> goes round the OTA partitions in slot order: starting from one of
  them (the running partition if none is given) it returns the one after it, the first after the
  last; starting from any other partition it returns the first. So with two or more OTA partitions
  the result is never the starting partition.
\<close>

theorem next_update_partition_round_robin:
  assumes "ready s" and "distinct (map p_self (ota_parts s))"
    and "start = None \<and> esp_ota_get_running_partition env s = Some (sf, s0)
      \<or> (\<exists>p. start = Some p \<and> part_call (esp_partition_verify (cfg env) p) s = Some (Some sf, s0))"
  shows "\<exists>r s'. esp_ota_get_next_update_partition env start s = Some (r, s') \<and>
    (\<forall>i < length (ota_parts s). p_self (ota_parts s ! i) = p_self sf \<longrightarrow> r = Some (ota_parts s ! ((i + 1) mod length (ota_parts s)))) \<and>
    (p_self sf \<notin> p_self ` set (ota_parts s) \<longrightarrow> r = (case ota_parts s of [] \<Rightarrow> None | p # _ \<Rightarrow> Some p))"
proof -
  let ?xs = "ota_parts s"
  have q0: "quiet s s0" using assms(3) running_quiet [OF assms(1)] verify_quiet [OF assms(1)] by blast
  obtain s' where "next_loop env sf [16..<32] None False s0 = Some (pick sf ?xs None False, s')"
    using next_loop_ready [of s0 "[16..<32]" env sf None False] quiet_ready [OF q0] quiet_lookup [OF q0] assms(1) by (auto simp: ota_parts_def)
  then have "esp_ota_get_next_update_partition env start s = Some (pick sf ?xs None False, s')"
    using assms(3) by (auto simp: esp_ota_get_next_update_partition_def)
  moreover have "pick sf ?xs None False = Some (?xs ! ((i + 1) mod length ?xs))" if i: "i < length ?xs" "p_self (?xs ! i) = p_self sf" for i
  proof -
    define ys where "ys = drop (Suc i) ?xs"
    have x: "?xs = take i ?xs @ ?xs ! i # ys" using i(1) by (simp add: ys_def id_take_nth_drop [symmetric])
    have "pick sf (take i ?xs @ ?xs ! i # ys) None False = Some (hd (ys @ [hd (take i ?xs @ [?xs ! i])]))"
      using pick_present [of "take i ?xs" "?xs ! i" ys sf None] assms(2) i(2) x by simp
    moreover have "hd (ys @ [hd (take i ?xs @ [?xs ! i])]) = ?xs ! ((i + 1) mod length ?xs)"
    proof (cases "Suc i < length ?xs")
      case True
      then show ?thesis by (simp add: ys_def hd_append hd_drop_conv_nth)
    next
      case False
      then have "Suc i = length ?xs" using i(1) by simp
      then show ?thesis using i(1) by (cases i) (auto simp: ys_def hd_append hd_conv_nth)
    qed
    ultimately show ?thesis using x by simp
  qed
  moreover have "pick sf ?xs None False = (case ?xs of [] \<Rightarrow> None | p # _ \<Rightarrow> Some p)" if "p_self sf \<notin> p_self ` set ?xs"
    using pick_absent [OF that, of None] by (cases ?xs) auto
  ultimately show ?thesis by blast
qed

section \<open>An interrupted switch\<close>

lemma part_erase_within:
  assumes "esp_partition_erase_range p off n s = (e, s')" and "p_address p + p_size p < 2 ^ 32"
    and "confined A B (chips s (p_flash_chip p))" and "A \<le> p_address p + off" and "p_address p + off + n \<le> B"
  shows "within A B (chips s (p_flash_chip p)) (chips s' (p_flash_chip p))"
  using assms
  by (auto simp: esp_partition_erase_range_def on_chip_eq add32_exact split: if_splits intro: erase_region_within [OF _ assms(3)])

lemma part_write_within:
  assumes "esp_partition_write cf p d off bs s = (e, s')" and "p_address p + p_size p < 2 ^ 32"
    and "confined A B (chips s (p_flash_chip p))" and "A \<le> p_address p + off" and "p_address p + off + length bs \<le> B"
    and "\<And>a b. length b = 16 \<Longrightarrow> length (xts_enc (chips s (p_flash_chip p)) a b) = 16"
  shows "within A B (chips s (p_flash_chip p)) (chips s' (p_flash_chip p))"
  using assms
  by (auto simp: esp_partition_write_def on_chip_eq add32_exact Let_def split: if_splits
      intro: write_within_range write_encrypted_within)

text \<open>A record in cells that did not change reads the same, through the decryption as well.\<close>

lemma rd_select_within:
  assumes "within A B f f'" and "16 dvd a" and "a + 32 \<le> A \<or> B \<le> a"
  shows "rd_select (flash_view f') a = rd_select (flash_view f) a"
proof (rule rd_select_cong)
  fix i :: nat assume i: "i < 32"
  have lo: "a \<le> 16 * ((a + i) div 16)" using assms(2) by (metis div_le_mono dvd_div_mult_self le_add1 mult.commute mult_le_mono1)
  have hi: "16 * ((a + i) div 16) + 16 \<le> a + 32" using assms(2) i by (auto elim!: dvdE)
  have m: "flash_mem f' x = flash_mem f x" if "a \<le> x" "x < a + 32" for x using assms(1,3) that by (auto simp: within_def)
  have "rd_bytes (flash_mem f') (16 * ((a + i) div 16)) 16 = rd_bytes (flash_mem f) (16 * ((a + i) div 16)) 16"
    using lo hi m by (simp add: rd_bytes_def)
  moreover have "enc_enabled f' = enc_enabled f" "xts_dec f' = xts_dec f" using assms(1) chip_cfg_sel [of f' f] by (auto simp: within_def)
  ultimately show "flash_view f' (a + i) = flash_view f (a + i)" using m [of "a + i"] i by (simp add: flash_view_def)
qed

lemma rewrite_ota_seq_within:
  assumes "otadata_part s od" and "i \<le> 1" and "length (seq_label (otadata_at d (int i))) = 20"
    and "confined (p_address od + i * 4096) (p_address od + i * 4096 + 4096) (chips (ps s) 0)"
    and "\<And>a b. length b = 16 \<Longrightarrow> length (xts_enc (chips (ps s) 0) a b) = 16"
    and "rewrite_ota_seq env (Some d) seq i od s = Some (e, s')"
  shows "within (p_address od + i * 4096) (p_address od + i * 4096 + 4096) (chips (ps s) 0) (chips (ps s') 0)"
proof -
  let ?A = "p_address od + i * 4096" let ?B = "?A + 4096"
  have od: "p_flash_chip od = 0" "p_erase_size od = 4096" "p_address od + p_size od < 2 ^ 32"
    using assms(1) by (auto simp: otadata_part_def part_ok_def)
  have o: "mul32 i 4096 = i * 4096" "mul32 4096 i = i * 4096" using assms(2) by (auto simp: mul32_exact)
  let ?r = "select_bytes ((otadata_at d (int i))\<lparr> ota_seq := seq, ota_crc := crc32_le env UINT32_MAX (bytes_of_u32 seq) \<rparr>)"
  have lr: "length ?r = 32" using assms(3) by (simp add: length_select_bytes)
  obtain e1 p1 where e: "esp_partition_erase_range od (i * 4096) 4096 (ps s) = (e1, p1)" by (rule prod.exhaust)
  obtain e2 p2 where w: "esp_partition_write (cfg env) od True (i * 4096) ?r p1 = (e2, p2)" by (rule prod.exhaust)
  have w1: "within ?A ?B (chips (ps s) 0) (chips p1 0)" using part_erase_within [OF e od(3)] assms(4) od(1) by simp
  have x: "xts_enc (chips p1 0) = xts_enc (chips (ps s) 0)" using w1 chip_cfg_sel [of "chips p1 0" "chips (ps s) 0"] by (simp add: within_def)
  have "within ?A ?B (chips p1 0) (chips p2 0)"
    using part_write_within [OF w od(3)] confined_mono [OF assms(4) w1] assms(5) x od(1) lr by simp
  then have w2: "within ?A ?B (chips (ps s) 0) (chips p2 0)" by (rule within_trans [OF w1])
  have "ps s' = p1 \<or> ps s' = p2"
    using assms(2,6) od(2) o e w
    by (auto simp: rewrite_ota_seq_def part_call_def bootloader_common_ota_select_crc_def Let_def split: if_splits)
  then show ?thesis using w1 w2 by auto
qed


lemma quiet_within: "quiet s s' \<Longrightarrow> within A B (chips (ps s) 0) (chips (ps s') 0)"
  using within_later by (simp add: quiet_def)

text \<open>Confirming touches only the sector of the active record.\<close>

lemma confirm_within:
  assumes "ready s" and "slot_count s \<noteq> 17" and "otadata_part s od" and "esp_ota_mark_app_valid_cancel_rollback env s = Some (ESP_OK, s')"
    and "d = otadata_of s od" and "a = bootloader_common_get_active_otadata (crc32_le env) (Some d)"
    and "confined (p_address od + nat a * 4096) (p_address od + nat a * 4096 + 4096) (chips (ps s) 0)"
    and x: "\<And>a b. length b = 16 \<Longrightarrow> length (xts_enc (chips (ps s) 0) a b) = 16"
  shows "within (p_address od + nat a * 4096) (p_address od + nat a * 4096 + 4096) (chips (ps s) 0) (chips (ps s') 0)"
proof -
  let ?A = "p_address od + nat a * 4096"
  obtain s2 where q2: "quiet s s2" and a: "a \<noteq> - 1" and w: "workable_rest env True od d a s2 = Some (ESP_OK, s')"
    and s2: "otadata_part s2 od" "otadata_of s2 od = d" "ready s2"
    by (rule workable_reads [OF assms(1-3) assms(4) [unfolded esp_ota_mark_app_valid_cancel_rollback_def] assms(5,6)])
  note v = active_valid [OF assms(6) [symmetric] a] and w2 = quiet_within [OF q2, of ?A "?A + 4096"]
  show ?thesis
  proof (cases "ota_state (otadata_at d a) = ESP_OTA_IMG_VALID")
    case True
    then show ?thesis using w w2 by (simp add: workable_rest_def)
  next
    case False
    then obtain s3 where r: "rewrite_ota_seq env (Some (set_state d a ESP_OTA_IMG_VALID)) (ota_seq (otadata_at d a)) (nat a) od s2 = Some (ESP_OK, s3)"
      and e: "s' = s3 \<or> esp_ota_set_anti_rollback env s3 = Some (ESP_OK, s')"
      using w by (auto simp: workable_rest_def bind_eq_Some_conv split: if_splits)
    have xe: "xts_enc (chips (ps s2) 0) = xts_enc (chips (ps s) 0)" using w2 chip_cfg_sel [of "chips (ps s2) 0" "chips (ps s) 0"] by (simp add: within_def)
    have len: "length (seq_label (otadata_at (set_state d i st) j)) = 20" for i j st
      using assms(5) by (simp add: otadata_at_def set_state_def otadata_of_def rd_select_def)
    have "within ?A (?A + 4096) (chips (ps s2) 0) (chips (ps s3) 0)"
      using v x xe by (intro rewrite_ota_seq_within [OF s2(1) _ _ confined_mono [OF assms(7) w2] _ r]) (auto simp: len)
    then have w3: "within ?A (?A + 4096) (chips (ps s) 0) (chips (ps s3) 0)" by (rule within_trans [OF w2])
    have "stored od (set_state d a ESP_OTA_IMG_VALID) s2 s3" using restate_record [OF s2(1) _ s2(2) [symmetric] _ r] v by blast
    then have "ready s3" using stored_frame(4) s2(3) by blast
    then have "quiet s3 s'" using e set_anti_rollback_quiet by auto
    from within_trans [OF w3 quiet_within [OF this]] show ?thesis .
  qed
qed

text \<open>
  C38: confirming. When \<^verbatim>\<open>esp_ota_mark_app_valid_cancel_rollback\<close> returns \<^verbatim>\<open>ESP_OK\<close>, the active record,
  and nothing else in the OTA data, has its state set to \<^verbatim>\<open>ESP_OTA_IMG_VALID\<close>; the same record
  stays active and the boot partition does not change. If flash operations that fail stay within
  that sector, no byte of the main flash outside the sector of the active record changes.
\<close>

theorem mark_valid_keeps_boot_partition:
  assumes "ready s" and "slot_count s \<noteq> 17" and "otadata_part s od" and "esp_ota_mark_app_valid_cancel_rollback env s = Some (ESP_OK, s')"
  shows "let d = otadata_of s od; a = bootloader_common_get_active_otadata (crc32_le env) (Some d); A = p_address od + nat a * 4096 in
    a \<noteq> - 1 \<and> otadata_of s' od = set_state d a ESP_OTA_IMG_VALID
    \<and> bootloader_common_get_active_otadata (crc32_le env) (Some (otadata_of s' od)) = a
    \<and> boot_partition (crc32_le env) s' od = boot_partition (crc32_le env) s od
    \<and> (confined A (A + 4096) (chips (ps s) 0) \<and> (\<forall>a b. length b = 16 \<longrightarrow> length (xts_enc (chips (ps s) 0) a b) = 16) \<longrightarrow>
         (\<forall>i. i < A \<or> A + 4096 \<le> i \<longrightarrow> flash_mem (chips (ps s') 0) i = flash_mem (chips (ps s) 0) i))"
proof -
  let ?d = "otadata_of s od" let ?a = "bootloader_common_get_active_otadata (crc32_le env) (Some ?d)"
  have c: "?a \<noteq> - 1" "stored od (set_state ?d ?a ESP_OTA_IMG_VALID) s s'" using confirm_stored [OF assms refl refl] by auto
  note f = stored_frame [OF c(2)] and k = confirm_slot [OF refl c(1), of "slot_count s"]
  have "boot_partition (crc32_le env) s' od = boot_partition (crc32_le env) s od" using f k by (simp add: boot_partition_def split: option.split)
  then show ?thesis using c(1) f k confirm_within [OF assms refl refl] unfolding Let_def within_def by auto
qed

text \<open>A switch touches only the sector of the record that is not active.\<close>

lemma rewrite_data_within:
  assumes "ready s" and "slot_count s \<noteq> 17" and "otadata_part s od"
    and "d = otadata_of s od" and "a = bootloader_common_get_active_otadata (crc32_le env) (Some d)" and "a \<noteq> - 1"
    and "confined (p_address od + nat (1 - a) * 4096) (p_address od + nat (1 - a) * 4096 + 4096) (chips (ps s) 0)"
    and "\<forall>a b. length b = 16 \<longrightarrow> length (xts_enc (chips (ps s) 0) a b) = 16"
    and w: "esp_rewrite_ota_data env sub s = Some (e, s')"
  shows "within (p_address od + nat (1 - a) * 4096) (p_address od + nat (1 - a) * 4096 + 4096) (chips (ps s) 0) (chips (ps s') 0)"
proof -
  let ?A = "p_address od + nat (1 - a) * 4096"
  note v = active_valid [OF assms(5) [symmetric] assms(6)]
  have od: "lookup s 1 0 = Some od" "p_erase_size od = 4096" using assms(3) by (auto simp: otadata_part_def)
  obtain r s1 where r: "read_otadata env s = Some (r, s1)" and q1: "quiet s s1" and rr: "r = None \<or> r = Some (od, d)"
    by (rule read_otadata_cases [OF assms(1) od(1), of env]) (use assms(4) in blast)
  have l1: "ready s1" "slot_count s1 = slot_count s" using quiet_ready [OF q1] quiet_slot_count [OF q1] assms(1) by auto
  obtain s2 where c: "esp_ota_get_app_partition_count env s1 = Some (slot_count s, s2)" and q2: "quiet s s2"
    using app_partition_count [OF l1(1), of env] l1(2) assms(2) quiet_trans [OF q1] by auto
  have len: "length (seq_label (otadata_at (set_state d i st) j)) = 20" for i j st
    using assms(4) by (simp add: otadata_at_def set_state_def otadata_of_def rd_select_def)
  have "s' = s1 \<or> s' = s2 \<or>
      (\<exists>seq. rewrite_ota_seq env (Some (set_state d (1 - a) (set_new_state_otadata env))) seq (nat (1 - a)) od s2 = Some (e, s'))"
    using assms(5,6) w r rr c by (auto simp: esp_rewrite_ota_data_def bind_eq_Some_conv Let_def split: if_splits)
  then show ?thesis
  proof (elim disjE exE)
    fix seq assume w: "rewrite_ota_seq env (Some (set_state d (1 - a) (set_new_state_otadata env))) seq (nat (1 - a)) od s2 = Some (e, s')"
    note w2 = quiet_within [OF q2, of ?A "?A + 4096"]
    have x: "xts_enc (chips (ps s2) 0) = xts_enc (chips (ps s) 0)" using w2 chip_cfg_sel [of "chips (ps s2) 0" "chips (ps s) 0"] by (simp add: within_def)
    have "within ?A (?A + 4096) (chips (ps s2) 0) (chips (ps s') 0)"
      using v quiet_otadata_part [OF q2] assms(3,8) x
      by (intro rewrite_ota_seq_within [OF _ _ _ confined_mono [OF assms(7) w2] _ w]) (auto simp: len)
    then show ?thesis by (rule within_trans [OF w2])
  qed (use quiet_within q1 q2 in auto)
qed

text \<open>
  With anti-rollback an image that is too old is erased instead: the partition has to lie apart from
  the OTA data, and failing operations within it.
\<close>

definition target_apart :: "ota_state \<Rightarrow> esp_partition_t \<Rightarrow> esp_partition_t \<Rightarrow> bool" where
  "target_apart s od p \<longleftrightarrow> p_flash_chip p = 0 \<and> p_address p + p_size p < 2 ^ 32 \<and> confined (p_address p) (p_address p + p_size p) (chips (ps s) 0)
     \<and> (p_address p + p_size p \<le> p_address od \<or> p_address od + 8192 \<le> p_address p)"

lemma switch_within:
  assumes "ready s" and "slot_count s \<noteq> 17" and "otadata_part s od"
    and "d = otadata_of s od" and "a = bootloader_common_get_active_otadata (crc32_le env) (Some d)" and "a \<noteq> - 1"
    and cf: "confined (p_address od + nat (1 - a) * 4096) (p_address od + nat (1 - a) * 4096 + 4096) (chips (ps s) 0)"
    and x: "\<forall>a b. length b = 16 \<longrightarrow> length (xts_enc (chips (ps s) 0) a b) = 16"
    and t: "anti_rollback env \<longrightarrow> target_apart s od p" and "p_subtype p \<noteq> SUBTYPE_APP_FACTORY" and b: "esp_ota_set_boot_partition env (Some p) s = Some (e, s')"
  shows "within (p_address od + nat (1 - a) * 4096) (p_address od + nat (1 - a) * 4096 + 4096) (chips (ps s) 0) (chips (ps s') 0)
    \<or> anti_rollback env \<and> within (p_address p) (p_address p + p_size p) (chips (ps s) 0) (chips (ps s') 0)"
proof -
  let ?A = "p_address od + nat (1 - a) * 4096"
  have rw: "within ?A (?A + 4096) (chips (ps s) 0) (chips (ps s') 0)" if q: "quiet s s1" and w: "esp_rewrite_ota_data env sub s1 = Some (e, s')" for s1 sub
  proof -
    note w1 = quiet_within [OF q, of ?A "?A + 4096"]
    have "xts_enc (chips (ps s1) 0) = xts_enc (chips (ps s) 0)" using w1 chip_cfg_sel [of "chips (ps s1) 0" "chips (ps s) 0"] by (simp add: within_def)
    then have "within ?A (?A + 4096) (chips (ps s1) 0) (chips (ps s') 0)"
      using quiet_ready [OF q] quiet_slot_count [OF q] quiet_otadata_part [OF q] quiet_otadata [OF q] assms(1-6) x
      by (intro rewrite_data_within [OF _ _ _ _ _ _ confined_mono [OF cf w1] _ w]) simp_all
    then show ?thesis by (rule within_trans [OF w1])
  qed
  have er: "within (p_address p) (p_address p + p_size p) (chips (ps s) 0) (chips (ps s') 0)"
    if q: "quiet s s1" and w: "part_call (esp_partition_erase_range p 0 (p_size p)) s1 = Some (f, s')" and ar: "anti_rollback env" for s1 f
  proof -
    note w1 = quiet_within [OF q, of "p_address p" "p_address p + p_size p"]
    have ta: "p_flash_chip p = 0" "p_address p + p_size p < 2 ^ 32" "confined (p_address p) (p_address p + p_size p) (chips (ps s1) 0)"
      using t ar confined_mono [OF _ w1] by (auto simp: target_apart_def)
    have "esp_partition_erase_range p 0 (p_size p) (ps s1) = (f, ps s')" using w by (auto simp: part_call_def split: prod.splits)
    from part_erase_within [OF this ta(2)] have "within (p_address p) (p_address p + p_size p) (chips (ps s1) 0) (chips (ps s') 0)" using ta by simp
    then show ?thesis by (rule within_trans [OF w1])
  qed
  consider "s' = s" | s1 where "quiet s s1" "s' = s1 \<or> esp_rewrite_ota_data env (p_subtype p) s1 = Some (e, s')"
    | s1 f where "quiet s s1" "anti_rollback env" "part_call (esp_partition_erase_range p 0 (p_size p)) s1 = Some (f, s')"
  proof (cases "anti_rollback env")
    case True
    then show thesis using that b assms(10) description_quiet [of env "Some p" s]
      by (auto simp: esp_ota_set_boot_partition_def bind_eq_Some_conv Let_def split: if_splits)
  next
    case False
    then have "s' = s \<or> esp_rewrite_ota_data env (p_subtype p) s = Some (e, s')"
      using b assms(10) by (auto simp: esp_ota_set_boot_partition_def split: if_splits)
    then show thesis using that(1) that(2) [OF quiet_refl] by blast
  qed
  then show ?thesis
  proof cases
    case 1
    then show ?thesis by (simp add: within_def)
  next
    case 2
    then show ?thesis using rw quiet_within by blast
  next
    case 3
    then show ?thesis using er by blast
  qed
qed


end
