(* ===== verification/Ota_Stream.thy ===== *)
theory Ota_Stream
  imports Ota_Select
begin

text \<open>
  Writing an image through a handle: the entry of the handle and the cells of the partition
  together hold the bytes given so far, in every mode of \<^verbatim>\<open>esp_ota_write\<close>.
\<close>

section \<open>Data at the beginning of a partition\<close>

text \<open>\<open>written p q bs lim\<close>: the partition starts with \<open>bs\<close> and is blank from there up to \<open>lim\<close>.\<close>

definition written :: "esp_partition_t \<Rightarrow> pstate \<Rightarrow> u8 list \<Rightarrow> nat \<Rightarrow> bool" where
  "written p q bs lim \<longleftrightarrow> part_ok p q \<and> (\<forall>i < length bs. part_view p q (p_address p + i) = bs ! i)
     \<and> (\<forall>a. p_address p + length bs \<le> a \<longrightarrow> a < p_address p + lim \<longrightarrow> part_blank p q a)"

lemma written_write:
  assumes "written p q bs lim" and "esp_partition_write cf p d (length bs) cs q = (ESP_OK, q')" and "length bs + length cs \<le> lim"
  shows "written p q' (bs @ cs) lim"
proof -
  have w: "part_ok p q" and v: "\<And>i. i < length bs \<Longrightarrow> part_view p q (p_address p + i) = bs ! i"
    and b: "\<And>a. p_address p + length bs \<le> a \<Longrightarrow> a < p_address p + lim \<Longrightarrow> part_blank p q a"
    using assms(1) by (auto simp: written_def)
  have c: "part_view p q' (p_address p + length bs + i) = cs ! i" if "i < length cs" for i
    using part.wr_contents [OF w assms(2) _ that] b assms(3) by simp
  have f: "part_view p q' a = part_view p q a \<and> part_blank p q' a = part_blank p q a"
    if "a < p_address p + length bs \<or> p_address p + length bs + length cs \<le> a" for a
    using part.wr_frame [OF w assms(2) that] .
  have "part_view p q' (p_address p + i) = (bs @ cs) ! i" if "i < length (bs @ cs)" for i
    using that c [of "i - length bs"] f [of "p_address p + i"] v [of i] by (cases "i < length bs") (auto simp: nth_append)
  moreover have "part_blank p q' a" if "p_address p + length (bs @ cs) \<le> a" "a < p_address p + lim" for a
    using f [of a] b [of a] that by simp
  ultimately show ?thesis using part.wr_inv [OF w assms(2)] by (simp add: written_def)
qed

lemma written_erase:
  assumes "written p q bs lim" and "length bs \<le> lim" and "esp_partition_erase_range p lim n q = (ESP_OK, q')"
  shows "written p q' bs (lim + n)"
proof -
  have w: "part_ok p q" using assms(1) by (simp add: written_def)
  have f: "part_view p q' a = part_view p q a \<and> part_blank p q' a = part_blank p q a"
    if "a < p_address p + lim \<or> p_address p + lim + n \<le> a" for a
    using part.er_frame [OF w assms(3) that] .
  have "part_blank p q' a" if "p_address p + length bs \<le> a" "a < p_address p + (lim + n)" for a
    using part.er_blank [OF w assms(3), of a] f [of a] assms(1) that by (cases "a < p_address p + lim") (auto simp: written_def)
  then show ?thesis using part.er_inv [OF w assms(3)] f assms(1,2) by (simp add: written_def)
qed

text \<open>The end of the last sector that has data.\<close>

definition sector_end :: "nat \<Rightarrow> nat \<Rightarrow> nat" where
  "sector_end es w = (if w mod es = 0 then w else (w div es + 1) * es)"

lemma sector_end_le: "0 < es \<Longrightarrow> w \<le> sector_end es w"
  by (simp add: sector_end_def) (metis add.commute div_mult_mod_eq less_imp_le mod_less_divisor add_le_cancel_left mult.commute)

lemma sector_end_last:
  assumes "0 < es" and "0 < w"
  shows "sector_end es w = ((w - 1) div es + 1) * es"
proof (cases "w mod es = 0")
  case True
  then obtain k where k: "w = Suc k * es" using assms(2) by (metis mod_eq_0_iff_dvd dvdE mult.commute mult_is_0 nat.exhaust not_less0)
  have "w - 1 = k * es + (es - 1)" using k assms(1) by simp
  then have "(w - 1) div es = k" using assms(1) by (intro div_nat_eqI) (auto simp: mult.commute)
  then show ?thesis using True k by (simp add: sector_end_def)
next
  case False
  then have "0 < w mod es" by simp
  moreover have "w = w div es * es + w mod es" by simp
  ultimately have "w - 1 = w div es * es + (w mod es - 1)" by linarith
  moreover have "w mod es - 1 < es" using assms(1) by (simp add: less_imp_diff_less)
  ultimately have "(w - 1) div es = w div es" by (metis add.commute div_mult_self3 div_less add_0 less_nat_zero_code assms(1) not_gr_zero)
  then show ?thesis using False by (simp add: sector_end_def)
qed

lemma sectors_to_erase_exact:
  assumes "es = p_erase_size (e_staging it)" and "0 < es" and "0 < n" and "w = e_wrote_size it" and "sector_end es (w + n) < 2 ^ 32"
  shows "sectors_to_erase it n =
    (if sector_end es w < sector_end es (w + n) then Some (sector_end es w, sector_end es (w + n) - sector_end es w) else None)"
proof -
  let ?f = "w div es" and ?l = "(w + n - 1) div es"
  have L: "sector_end es (w + n) = (?l + 1) * es" using sector_end_last assms(2,3) by simp
  have wn: "w + n < 2 ^ 32" using sector_end_le [OF assms(2), of "w + n"] assms(5) by linarith
  have fl: "?f \<le> ?l" using assms(3) by (intro div_le_mono) simp
  have ll: "(?l + 1) * es < 2 ^ 32" using L assms(5) by simp
  have "?l + 1 \<le> (?l + 1) * es" using mult_le_mono2 [of 1 es "?l + 1"] assms(2) by simp
  then have l32: "?l + 1 < 2 ^ 32" using ll by linarith
  have fe: "(?f + 1) * es \<le> (?l + 1) * es" "(?l - ?f + 1) * es \<le> (?l + 1) * es" "(?l - ?f) * es \<le> (?l + 1) * es"
    using fl by (intro mult_le_mono1; simp)+
  have ar: "sub32 (add32 w n) 1 = w + n - 1" "sub32 ?l ?f = ?l - ?f" "add32 (?l - ?f) 1 = ?l - ?f + 1" "add32 ?f 1 = ?f + 1"
    using wn fl l32 assms(3) by (auto simp: u32_simps)
  note mu = mul32_exact [OF le_less_trans [OF fe(1) ll]] mul32_exact [OF le_less_trans [OF fe(2) ll]] mul32_exact [OF le_less_trans [OF fe(3) ll]]
  show ?thesis
  proof (cases "w mod es = 0")
    case True
    then have "w = ?f * es" by (metis add.right_neutral div_mult_mod_eq)
    then have "(?l + 1) * es - w = (?l + 1 - ?f) * es" by (metis diff_mult_distrib)
    moreover have "?l + 1 - ?f = ?l - ?f + 1" using fl by simp
    ultimately have d: "sector_end es (w + n) - sector_end es w = (?l - ?f + 1) * es" using True by (simp only: L sector_end_def [of es w] if_True refl)
    have "sectors_to_erase it n = Some (sector_end es w, (?l - ?f + 1) * es)"
      using True ar mu assms(1,4) by (simp add: sectors_to_erase_def sector_end_def Let_def)
    moreover have "sector_end es w < sector_end es (w + n)"
      using True sector_end_le [OF assms(2), of "w + n"] assms(3) by (simp add: sector_end_def [of es w])
    ultimately show ?thesis unfolding d by simp
  next
    case False
    then have s: "sector_end es w = (?f + 1) * es" by (simp add: sector_end_def)
    have "(?l + 1) * es - (?f + 1) * es = (?l - ?f) * es" by (simp add: diff_mult_distrib)
    then have d: "sector_end es (w + n) - sector_end es w = (?l - ?f) * es" unfolding L s .
    have "(?f + 1) * es < (?l + 1) * es \<longleftrightarrow> ?f \<noteq> ?l" using fl assms(2) by auto
    then have lt: "sector_end es w < sector_end es (w + n) \<longleftrightarrow> ?f \<noteq> ?l" unfolding L s .
    have "sectors_to_erase it n = (if ?f \<noteq> ?l then Some (sector_end es w, (?l - ?f) * es) else None)"
      using False ar mu s assms(1,4) by (simp add: sectors_to_erase_def Let_def)
    then show ?thesis unfolding d lt .
  qed
qed

section \<open>Handles\<close>

lemma get_put: "List.find (\<lambda>x. e_handle x = e_handle e) es = Some e0 \<Longrightarrow> List.find (\<lambda>x. e_handle x = e_handle e) (put_entry e es) = Some e"
  by (induction es) (auto split: if_splits)

lemma get_set_entry [simp]:
  "get_ota_ops_entry h s = Some e0 \<Longrightarrow> e_handle e = h \<Longrightarrow> get_ota_ops_entry h (set_entry e s) = Some e"
  using get_put by (auto simp: get_ota_ops_entry_def set_entry_def)

lemma get_handle: "get_ota_ops_entry h s = Some e \<Longrightarrow> e_handle e = h"
  by (auto simp: get_ota_ops_entry_def find_Some_iff)

lemma set_entry_ps [simp]: "ps (set_entry e s) = ps s"
  by (simp add: set_entry_def)

lemma get_ps [simp]: "get_ota_ops_entry h (s\<lparr> ps := q \<rparr>) = get_ota_ops_entry h s"
  by (simp add: get_ota_ops_entry_def)

section \<open>The stream\<close>

text \<open>
  \<open>stream h p fp ne en n s bs\<close>: the bytes given to handle \<open>h\<close> so far are \<open>bs\<close>. All but the ones kept back for
  the next encryption block are at the beginning of the partition; behind them it is
  blank, up to \<open>n\<close> or, when it is erased as it goes (\<open>ne\<close>), up to the end of the sector.
\<close>

definition stream :: "nat \<Rightarrow> esp_partition_t \<Rightarrow> esp_partition_t \<Rightarrow> bool \<Rightarrow> bool \<Rightarrow> nat \<Rightarrow> ota_state \<Rightarrow> u8 list \<Rightarrow> bool" where
  "stream h p fp ne en n s bs \<longleftrightarrow> (\<exists>it wr. get_ota_ops_entry h s = Some it \<and> e_staging it = p \<and> e_final it = fp \<and> e_need_erase it = ne \<and> \<not> e_finalize_with_copy it
     \<and> bs = wr @ take (e_partial_bytes it) (e_partial_data it) \<and> e_wrote_size it = length wr
     \<and> e_partial_bytes it < 16 \<and> length (e_partial_data it) = 16
     \<and> enc_enabled (chips (ps s) 0) = en \<and> (if en then 16 dvd length wr else e_partial_bytes it = 0)
     \<and> written p (ps s) wr (if ne then sector_end (p_erase_size p) (length wr) else n))"

text \<open>Erasing and writing leave the configuration of the main chip alone.\<close>

lemma part_erase_enc:
  assumes "part_ok p q" and "esp_partition_erase_range p off n q = (ESP_OK, q')"
  shows "enc_enabled (chips q' 0) = enc_enabled (chips q 0)"
proof -
  have "p_address p + p_size p < 2 ^ 32" using assms(1) by (simp add: part_ok_def)
  note e = part_erase_ok(4) [OF assms(2) this]
  obtain m where "later (chips q (p_flash_chip p)) m (chips q' (p_flash_chip p))" using part_erase_later [OF assms] by blast
  then have "enc_enabled (chips q' (p_flash_chip p)) = enc_enabled (chips q (p_flash_chip p))"
    using chip_cfg_sel [of "chips q' (p_flash_chip p)" "chips q (p_flash_chip p)"] by (simp add: later_def)
  moreover have "chips q' 0 = chips q 0" if "p_flash_chip p \<noteq> 0" using arg_cong [OF e, of "\<lambda>x. chips x 0"] that by simp
  ultimately show ?thesis by (cases "p_flash_chip p = 0") simp_all
qed

lemma part_write_enc:
  assumes "part_ok p q" and "esp_partition_write cf p d off bs q = (ESP_OK, q')"
  shows "enc_enabled (chips q' 0) = enc_enabled (chips q 0)"
proof -
  have "p_address p + p_size p < 2 ^ 32" using assms(1) by (simp add: part_ok_def)
  note e = part_write_ok(4) [OF assms(2) this]
  obtain m where "later (chips q (p_flash_chip p)) m (chips q' (p_flash_chip p))" using part_write_later [OF assms] by blast
  then have "enc_enabled (chips q' (p_flash_chip p)) = enc_enabled (chips q (p_flash_chip p))"
    using chip_cfg_sel [of "chips q' (p_flash_chip p)" "chips q (p_flash_chip p)"] by (simp add: later_def)
  moreover have "chips q' 0 = chips q 0" if "p_flash_chip p \<noteq> 0" using arg_cong [OF e, of "\<lambda>x. chips x 0"] that by simp
  ultimately show ?thesis by (cases "p_flash_chip p = 0") simp_all
qed

text \<open>The block buffer: afterwards the written bytes and the buffer together have grown by the new data.\<close>

lemma fill_partial_stream:
  assumes "fill_partial env it cs s = Some (r, s')" and "get_ota_ops_entry h s = Some it0" and "e_handle it = h"
    and "written (e_staging it) (ps s) wr lim" and "e_wrote_size it = length wr"
    and "e_partial_bytes it < 16" and "length (e_partial_data it) = 16" and "length wr + e_partial_bytes it + length cs \<le> lim" and "lim < 2 ^ 32"
  shows "case r of
      Inl e \<Rightarrow> e = ESP_OK \<longrightarrow> (\<exists>it'. get_ota_ops_entry h s' = Some it' \<and> e_staging it' = e_staging it \<and> e_need_erase it' = e_need_erase it \<and> e_finalize_with_copy it' = e_finalize_with_copy it \<and> e_final it' = e_final it \<and> ps s' = ps s \<and> e_wrote_size it' = length wr
         \<and> e_partial_bytes it' < 16 \<and> length (e_partial_data it') = 16
         \<and> take (e_partial_bytes it') (e_partial_data it') = take (e_partial_bytes it) (e_partial_data it) @ cs)
    | Inr (it', rest) \<Rightarrow> \<exists>wr'. wr' @ rest = wr @ take (e_partial_bytes it) (e_partial_data it) @ cs \<and> written (e_staging it) (ps s') wr' lim
         \<and> e_wrote_size it' = length wr' \<and> e_partial_bytes it' = 0 \<and> length (e_partial_data it') = 16 \<and> e_handle it' = h
         \<and> e_staging it' = e_staging it \<and> e_need_erase it' = e_need_erase it \<and> e_finalize_with_copy it' = e_finalize_with_copy it \<and> e_final it' = e_final it \<and> length wr' mod 16 = length wr mod 16 \<and> (\<exists>it1. get_ota_ops_entry h s' = Some it1) \<and> enc_enabled (chips (ps s') 0) = enc_enabled (chips (ps s) 0)"
proof (cases "e_partial_bytes it = 0")
  case True
  then have "r = Inr (it, cs)" "s' = s" using assms(1) by (auto simp: fill_partial_def)
  then show ?thesis using assms(2-7) True by (auto intro!: exI [of _ wr])
next
  case False
  let ?k = "e_partial_bytes it" let ?c = "min (16 - ?k) (length cs)"
  let ?buf = "take ?k (e_partial_data it) @ take ?c cs @ drop (?k + ?c) (e_partial_data it)"
  let ?it1 = "it\<lparr> e_partial_data := ?buf, e_partial_bytes := ?k + ?c \<rparr>"
  have lb: "length ?buf = 16" using assms(6,7) by auto
  show ?thesis
  proof (cases "?k + ?c = 16")
    case nf: False
    then have c: "?c = length cs" using assms(6) by (auto simp: min_def split: if_splits)
    then have r: "r = Inl ESP_OK" "s' = set_entry ?it1 s" using assms(1) False nf by (auto simp: fill_partial_def Let_def)
    have "get_ota_ops_entry h s' = Some ?it1" using r(2) assms(2,3) by simp
    then show ?thesis using r c nf assms(6,7) lb by (auto simp: assms(5))
  next
    case full: True
    have buf: "?buf = take ?k (e_partial_data it) @ take ?c cs" using full assms(7) by simp
    obtain ret q where w: "esp_partition_write (cfg env) (e_staging it) True (length wr) ?buf (ps s) = (ret, q)" by (rule prod.exhaust)
    let ?it2 = "?it1\<lparr> e_partial_bytes := 0, e_partial_data := replicate 16 0xFF, e_wrote_size := add32 (length wr) 16 \<rparr>"
    have r: "(r, s') = (if ret \<noteq> ESP_OK then (Inl ret, (set_entry ?it1 s)\<lparr> ps := q \<rparr>)
        else (Inr (?it2, drop ?c cs), set_entry ?it2 ((set_entry ?it1 s)\<lparr> ps := q \<rparr>)))"
      using assms(1,5) False full w by (auto simp: fill_partial_def part_call_def Let_def)
    show ?thesis
    proof (cases "ret = ESP_OK")
      case True
      have fits: "length wr + length ?buf \<le> lim" using lb assms(8) full by linarith
      define wr' where "wr' = wr @ ?buf"
      have W: "written (e_staging it) q wr' lim" unfolding wr'_def using written_write [OF assms(4) _ fits] w True by simp
      have en: "enc_enabled (chips q 0) = enc_enabled (chips (ps s) 0)"
        using part_write_enc [of "e_staging it" "ps s"] assms(4) w True by (simp add: written_def)
      have len: "length wr' = length wr + 16" unfolding wr'_def length_append [of wr] lb ..
      have ad: "add32 (length wr) 16 = length wr'" using fits lb assms(9) len by (simp add: add32_exact)
      have eq: "wr' @ drop ?c cs = wr @ take ?k (e_partial_data it) @ cs" unfolding wr'_def buf by simp
      have rr: "r = Inr (?it2, drop ?c cs)" "ps s' = q" using r True by simp_all
      have g: "\<exists>it1. get_ota_ops_entry h s' = Some it1" using r True assms(2,3) by simp
      have md: "length wr' mod 16 = length wr mod 16" by (simp add: len)
      show ?thesis unfolding rr(1) sum.case prod.case
        by (rule exI [of _ wr']) (simp add: eq W en ad rr(2) g md assms(3))
    qed (use r in auto)
  qed
qed


lemma sector_end_fits: "0 < es \<Longrightarrow> es dvd m \<Longrightarrow> w \<le> m \<Longrightarrow> sector_end es w \<le> m"
proof -
  assume e: "0 < es" "es dvd m" "w \<le> m"
  then obtain j where j: "m = j * es" by (auto simp: mult.commute elim: dvdE)
  show ?thesis
  proof (cases "w mod es = 0")
    case False
    have "w div es < j"
    proof (rule ccontr)
      assume "\<not> w div es < j"
      then have "m \<le> w div es * es" using j by simp
      then have "w = w div es * es" using e(3) by (metis div_times_less_eq_dividend le_antisym le_trans)
      then show False using False by (metis mod_mult_self2_is_0)
    qed
    then have "(w div es + 1) * es \<le> m" unfolding j by (intro mult_le_mono1) simp
    then show ?thesis using False by (simp add: sector_end_def)
  qed (use e in \<open>simp add: sector_end_def\<close>)
qed

lemma part_call_returns: "\<exists>r s'. part_call op s = Some (r, s')"
  by (cases "op (ps s)") (simp add: part_call_def)

text \<open>Without flash encryption every byte is written at once.\<close>

lemma write_stream_plain:
  assumes "stream h p fp ne False n s bs" and "esp_ota_write env h (Some cs) d s = Some (ESP_OK, s')"
    and "cs \<noteq> []" and "ne \<Longrightarrow> 0 < p_erase_size p \<and> p_erase_size p dvd p_size p" and "\<not> ne \<Longrightarrow> length bs + length cs \<le> n"
  shows "stream h p fp ne False n s' (bs @ cs)"
proof -
  obtain it where it: "get_ota_ops_entry h s = Some it" "e_staging it = p" "e_need_erase it = ne" "e_wrote_size it = length bs" "e_partial_bytes it = 0" "length (e_partial_data it) = 16" "\<not> e_finalize_with_copy it" "e_final it = fp"
    and w: "written p (ps s) bs (if ne then sector_end (p_erase_size p) (length bs) else n)"
    and plain: "\<not> enc_enabled (chips (ps s) 0)"
    using assms(1) by (auto simp: stream_def)
  have ok: "part_ok p (ps s)" "p_address p + p_size p < 2 ^ 32" using w by (auto simp: written_def part_ok_def)
  obtain q1 q2 where e: "if ne then (case sectors_to_erase it (length cs) of None \<Rightarrow> q1 = ps s | Some (off, m) \<Rightarrow> esp_partition_erase_range p off m (ps s) = (ESP_OK, q1)) else q1 = ps s"
    and en: "\<not> enc_enabled (chips q1 0)"
    and wr: "esp_partition_write (cfg env) p d (length bs) cs q1 = (ESP_OK, q2)"
    and s': "s' = set_entry (it\<lparr> e_wrote_size := add32 (length bs) (length cs) \<rparr>) (s\<lparr> ps := q2 \<rparr>)"
  proof -
    let ?er = "if ne then (case sectors_to_erase it (length cs) of None \<Rightarrow> Some (ESP_OK, s)
         | Some (off, n) \<Rightarrow> part_call (esp_partition_erase_range p off n) s) else Some (ESP_OK, s)"
    have "\<exists>ret s1. ?er = Some (ret, s1)" by (simp add: part_call_returns split: option.split prod.split)
    then obtain ret s1 where er: "?er = Some (ret, s1)" by blast
    have ret: "ret = ESP_OK" using assms(2,3) it er by (auto simp: esp_ota_write_def split: if_splits)
    have s1: "s1 = s\<lparr> ps := ps s1 \<rparr>" using er by (auto simp: part_call_def split: if_splits option.splits prod.splits)
    have e: "if ne then (case sectors_to_erase it (length cs) of None \<Rightarrow> ps s1 = ps s | Some (off, m) \<Rightarrow> esp_partition_erase_range p off m (ps s) = (ESP_OK, ps s1)) else ps s1 = ps s"
      using er ret by (auto simp: part_call_def split: if_splits option.splits prod.splits)
    have en: "enc_enabled (chips (ps s1) 0) = enc_enabled (chips (ps s) 0)"
      using e part_erase_enc [OF ok(1)] by (auto split: if_splits option.splits)
    obtain r2 q2 where wr: "esp_partition_write (cfg env) p d (length bs) cs (ps s1) = (r2, q2)" by (rule prod.exhaust)
    have f: "r2 = ESP_OK \<and> s' = set_entry (it\<lparr> e_wrote_size := add32 (length bs) (length cs) \<rparr>) (s1\<lparr> ps := q2 \<rparr>)"
      using assms(2,3) plain it er ret en wr by (auto simp: esp_ota_write_def part_call_def split: if_splits)
    have "s1\<lparr> ps := q2 \<rparr> = s\<lparr> ps := q2 \<rparr>" by (subst s1) simp
    then show ?thesis using that [OF e] en plain f wr by simp
  qed
  have fit: "length bs + length cs \<le> p_size p" using part_write_ok(2) [OF wr ok(2)] .
  have w1: "written p q1 bs (if ne then sector_end (p_erase_size p) (length bs + length cs) else n)"
  proof (cases ne)
    case True
    let ?es = "p_erase_size p"
    have es: "0 < ?es" "?es dvd p_size p" using assms(4) True by auto
    have "sector_end ?es (length bs + length cs) < 2 ^ 32" using sector_end_fits [OF es fit] ok(2) by linarith
    from sectors_to_erase_exact [OF _ _ _ _ this] have se: "sectors_to_erase it (length cs) =
        (if sector_end ?es (length bs) < sector_end ?es (length bs + length cs)
         then Some (sector_end ?es (length bs), sector_end ?es (length bs + length cs) - sector_end ?es (length bs)) else None)"
      using it es assms(3) by simp
    show ?thesis
    proof (cases "sector_end ?es (length bs) < sector_end ?es (length bs + length cs)")
      case lt: True
      then have "esp_partition_erase_range p (sector_end ?es (length bs)) (sector_end ?es (length bs + length cs) - sector_end ?es (length bs)) (ps s) = (ESP_OK, q1)"
        using e se True by simp
      from written_erase [OF w [unfolded if_P [OF True]] sector_end_le [OF es(1)] this] show ?thesis using lt True by simp
    next
      case False
      have "sector_end ?es (length bs) \<le> sector_end ?es (length bs + length cs)"
      proof (rule sector_end_fits [OF es(1)])
        show "?es dvd sector_end ?es (length bs + length cs)" by (simp add: sector_end_def dvd_eq_mod_eq_0)
        show "length bs \<le> sector_end ?es (length bs + length cs)" using sector_end_le [OF es(1), of "length bs + length cs"] by linarith
      qed
      then have "sector_end ?es (length bs + length cs) = sector_end ?es (length bs)" using False by simp
      then show ?thesis using e se w True False by simp
    qed
  qed (use e w in simp)
  have "length bs + length cs \<le> (if ne then sector_end (p_erase_size p) (length bs + length cs) else n)"
    using assms(4,5) sector_end_le by auto
  then have "written p q2 (bs @ cs) (if ne then sector_end (p_erase_size p) (length bs + length cs) else n)"
    by (rule written_write [OF w1 wr])
  moreover have "add32 (length bs) (length cs) = length bs + length cs" using fit ok(2) by (intro add32_exact) linarith
  moreover have "\<not> enc_enabled (chips q2 0)" using part_write_enc [OF _ wr] w1 en by (simp add: written_def)
  ultimately show ?thesis using it s' get_handle [OF it(1)] by (auto simp: stream_def)
qed


lemma fill_partial_returns: "\<exists>r s'. fill_partial env it cs s = Some (r, s')"
  by (auto simp: fill_partial_def part_call_def Let_def split: prod.split)

text \<open>With flash encryption whole blocks are written and the rest is kept.\<close>

lemma write_stream_encrypted:
  assumes "stream h p fp False True n s bs" and "esp_ota_write env h (Some cs) d s = Some (ESP_OK, s')"
    and "cs \<noteq> []" and "length bs + length cs \<le> n" and "n < 2 ^ 32"
  shows "stream h p fp False True n s' (bs @ cs)"
proof -
  obtain it wr where it: "get_ota_ops_entry h s = Some it" "e_staging it = p" "\<not> e_need_erase it" "e_wrote_size it = length wr"
      "e_partial_bytes it < 16" "length (e_partial_data it) = 16" "\<not> e_finalize_with_copy it" "16 dvd length wr" "e_final it = fp" and bs: "bs = wr @ take (e_partial_bytes it) (e_partial_data it)"
    and w: "written p (ps s) wr n"
    and en: "enc_enabled (chips (ps s) 0)"
    using assms(1) by (auto simp: stream_def)
  have hd: "e_handle it = h" by (rule get_handle [OF it(1)])
  have lim: "length wr + e_partial_bytes it + length cs \<le> n" using assms(4) bs it(5,6) by simp
  obtain r s2 where f: "fill_partial env it cs s = Some (r, s2)"
    using fill_partial_returns by blast
  note F = fill_partial_stream [OF f it(1) hd w [folded it(2)] it(4-6) lim assms(5)]
  show ?thesis
  proof (cases r)
    case (Inl e)
    then have "e = ESP_OK" "s' = s2" using assms(2,3) en it f by (auto simp: esp_ota_write_def split: if_splits)
    then show ?thesis using F Inl w bs en it by (auto simp: stream_def)
  next
    case (Inr x)
    obtain it2 rest where x: "x = (it2, rest)" by (rule prod.exhaust)
    obtain wr2 it1 where F2: "wr2 @ rest = bs @ cs" "written p (ps s2) wr2 n" "e_wrote_size it2 = length wr2" "e_partial_bytes it2 = 0"
      "length (e_partial_data it2) = 16" "e_handle it2 = h" "e_staging it2 = p" "\<not> e_need_erase it2" "get_ota_ops_entry h s2 = Some it1"
      "enc_enabled (chips (ps s2) 0)" "\<not> e_finalize_with_copy it2" "16 dvd length wr2" "e_final it2 = fp"
      using F Inr x it bs en by (auto simp: dvd_eq_mod_eq_0)
    let ?k = "length rest mod 16" let ?m = "length rest - ?k"
    let ?it3 = "it2\<lparr> e_partial_bytes := ?k, e_partial_data := (if ?k \<noteq> 0 then drop ?m rest @ drop ?k (e_partial_data it2) else e_partial_data it2) \<rparr>"
    obtain ret q where wr: "esp_partition_write (cfg env) p d (length wr2) (take ?m rest) (ps s2) = (ret, q)" by (rule prod.exhaust)
    have "ret = ESP_OK \<and> s' = set_entry (?it3\<lparr> e_wrote_size := add32 (length wr2) (length (take ?m rest)) \<rparr>) ((set_entry ?it3 s2)\<lparr> ps := q \<rparr>)"
      using assms(2,3) en it f Inr x F2 wr by (auto simp: esp_ota_write_def keep_partial_def part_call_def Let_def split: if_splits)
    then have s': "ret = ESP_OK" "s' = set_entry (?it3\<lparr> e_wrote_size := add32 (length wr2) (length (take ?m rest)) \<rparr>) ((set_entry ?it3 s2)\<lparr> ps := q \<rparr>)"
      by auto
    have l: "length wr2 + length rest \<le> n" using F2(1) assms(4) by (metis length_append)
    then have "written p q (wr2 @ take ?m rest) n" using written_write [OF F2(2)] wr s'(1) by simp
    moreover have "enc_enabled (chips q 0)" using part_write_enc [of p "ps s2"] F2(2,10) wr s'(1) by (simp add: written_def)
    moreover have "add32 (length wr2) (length (take ?m rest)) = length (wr2 @ take ?m rest)" using l assms(5) by (simp add: add32_exact)
    moreover have "bs @ cs = (wr2 @ take ?m rest) @ take ?k (e_partial_data ?it3)" using F2(1) by simp
    have al: "16 dvd length (wr2 @ take ?m rest)"
    proof -
      have "length (take ?m rest) = ?m" by simp
      moreover have "16 dvd ?m" by (rule dvd_minus_mod)
      ultimately show ?thesis using F2(12) unfolding length_append by (metis dvd_add)
    qed
    note calculation
    moreover have "get_ota_ops_entry h s' = Some (?it3\<lparr> e_wrote_size := add32 (length wr2) (length (take ?m rest)) \<rparr>)" "ps s' = q"
      using s'(2) F2(6,9) by simp_all
    ultimately show ?thesis unfolding stream_def
      by (intro exI [of _ "?it3\<lparr> e_wrote_size := add32 (length wr2) (length (take ?m rest)) \<rparr>"] exI [of _ "wr2 @ take ?m rest"])
         (use F2 al in simp)
  qed
qed


section \<open>Properties\<close>

text \<open>A sequence of writes through a handle, stopping at the first error.\<close>

fun ota_writes :: "ota_env \<Rightarrow> nat \<Rightarrow> (u8 list \<times> bool) list \<Rightarrow> esp_err ota" where
  "ota_writes env h [] s = Some (ESP_OK, s)"
| "ota_writes env h ((cs, dram) # ds) s = do {
     (e, s1) \<leftarrow> esp_ota_write env h (Some cs) dram s;
     if e \<noteq> ESP_OK then Some (e, s1) else ota_writes env h ds s1
   }"

lemma ota_writes_stream:
  assumes "stream h p fp ne en n s bs" and "ota_writes env h ds s = Some (ESP_OK, s')"
    and "ne \<Longrightarrow> \<not> en \<and> 0 < p_erase_size p \<and> p_erase_size p dvd p_size p"
    and "\<not> ne \<Longrightarrow> length bs + length (concat (map fst ds)) \<le> n" and "n < 2 ^ 32"
  shows "stream h p fp ne en n s' (bs @ concat (map fst ds))"
  using assms(1,2,4)
proof (induction ds arbitrary: s bs)
  case Nil
  then show ?case by simp
next
  case (Cons x ds)
  obtain cs d where x: "x = (cs, d)" by (rule prod.exhaust)
  obtain s1 where w: "esp_ota_write env h (Some cs) d s = Some (ESP_OK, s1)" and r: "ota_writes env h ds s1 = Some (ESP_OK, s')"
    using Cons.prems(2) x by (auto simp: bind_eq_Some_conv split: if_splits)
  have "stream h p fp ne en n s1 (bs @ cs)"
  proof (cases "cs = []")
    case True
    then show ?thesis using w Cons.prems(1) by (simp add: esp_ota_write_def)
  next
    case False
    have fit: "length bs + length cs \<le> n" if "\<not> ne" using Cons.prems(3) [OF that] x by simp
    show ?thesis
    proof (cases en)
      case True
      then show ?thesis using write_stream_encrypted [OF _ w False] Cons.prems(1) assms(3,5) fit by (cases ne) auto
    next
      case en: False
      then show ?thesis using write_stream_plain [OF _ w False] Cons.prems(1) assms(3) fit by auto
    qed
  qed
  from Cons.IH [OF this r] show ?case using Cons.prems(3) x by (simp add: add.assoc)
qed


lemma written_quiet: "quiet s s' \<Longrightarrow> written p (ps s) bs 0 \<Longrightarrow> \<forall>i < length bs. part_view p (ps s') (p_address p + i) = bs ! i"
  using quiet_part by (simp add: written_def)

lemma written_prefix: "written p q (bs @ cs) lim \<Longrightarrow> written p q bs 0"
  by (auto simp: written_def nth_append)

text \<open>The end of an update: the last block is flushed, then the image is verified.\<close>

lemma ota_end_stream:
  assumes "stream h p fp ne en n s bs" and "esp_ota_end env h s = Some (ESP_OK, s')" and "en \<Longrightarrow> \<not> ne \<and> 16 dvd n \<and> length bs \<le> n"
  shows "(\<forall>i < length bs. part_view p (ps s') (p_address p + i) = bs ! i) \<and>
    (p_type fp = PART_TYPE_APP \<or> p_type fp = PART_TYPE_BOOTLOADER \<longrightarrow> image_verify env (p_address p) (p_size p) (ps s') = ESP_OK)"
proof -
  obtain it wr where it: "get_ota_ops_entry h s = Some it" "e_staging it = p" "e_final it = fp" "\<not> e_finalize_with_copy it" "e_wrote_size it = length wr"
      "e_partial_bytes it < 16" "length (e_partial_data it) = 16" and bs: "bs = wr @ take (e_partial_bytes it) (e_partial_data it)"
    and al: "if en then 16 dvd length wr else e_partial_bytes it = 0"
    and w: "written p (ps s) wr (if ne then sector_end (p_erase_size p) (length wr) else n)"
    using assms(1) by (auto simp: stream_def)
  obtain s1 where f: "ota_finish env it s = Some (ESP_OK, s1)" and s': "ps s' = ps s1"
    using assms(2) it(1) by (auto simp: esp_ota_end_def bind_eq_Some_conv Let_def)
  obtain q where fl: "if e_partial_bytes it > 0 then esp_partition_write (cfg env) p True (length wr) (e_partial_data it) (ps s) = (ESP_OK, q) else q = ps s"
    and v: "ota_verify_partition env it (s\<lparr> ps := q \<rparr>) = Some (ESP_OK, s1)"
    using f it by (auto simp: ota_finish_def part_call_def bind_eq_Some_conv split: if_splits prod.splits)
  have "written p q bs 0"
  proof (cases "e_partial_bytes it > 0")
    case True
    then have en: "en" "16 dvd length wr" "\<not> ne" "16 dvd n" "length bs \<le> n" using al assms(3) by (auto split: if_splits)
    have "length wr < n" using en(5) bs True it(6,7) by simp
    then have "length wr + 16 \<le> n" using en(2,4) by (auto elim!: dvdE)
    then have "written p q (wr @ e_partial_data it) n" using written_write [of p "ps s" wr n] w fl True en(3) it(7) by simp
    then have "written p q ((wr @ take (e_partial_bytes it) (e_partial_data it)) @ drop (e_partial_bytes it) (e_partial_data it)) n" by simp
    then show ?thesis using written_prefix bs by blast
  next
    case False
    then show ?thesis using written_prefix [of p q bs "[]"] w bs fl by simp
  qed
  moreover have "quiet (s\<lparr> ps := q \<rparr>) s1" and "p_type fp = 0 \<or> p_type fp = 2 \<Longrightarrow> s1 = s\<lparr> ps := q \<rparr> \<and> image_verify env (p_address p) (p_size p) q = ESP_OK"
    using v it(2,3) mmap_quiet by (auto simp: ota_verify_partition_def image_validate_def bind_eq_Some_conv split: if_splits)
  ultimately show ?thesis using written_quiet [of "s\<lparr> ps := q \<rparr>" s1 p bs] s' by auto
qed

text \<open>
  C4: the image arrives. Through a fresh handle whose partition is blank up to \<open>n\<close> (or is erased sector
  by sector on the way, \<open>ne\<close>), if any sequence of \<^verbatim>\<open>esp_ota_write\<close> calls with pieces of any sizes and
  then \<^verbatim>\<open>esp_ota_end\<close> all return \<^verbatim>\<open>ESP_OK\<close>, the partition begins with the concatenation of the pieces, and an
  application or bootloader image has been verified in exactly that state. With flash
  encryption (\<open>en\<close>) the pieces are regrouped into blocks of 16 bytes on the way; that case
  needs the partition erased in advance. The pieces together are no longer than what was erased
  in advance.
\<close>

theorem ota_image_arrives:
  assumes "stream h p fp ne en n s []" and "ota_writes env h ds s = Some (ESP_OK, s1)" and "esp_ota_end env h s1 = Some (ESP_OK, s2)"
    and "ne \<longrightarrow> \<not> en \<and> 0 < p_erase_size p \<and> p_erase_size p dvd p_size p"
    and "\<not> ne \<longrightarrow> length (concat (map fst ds)) \<le> n \<and> 16 dvd n" and "n < 2 ^ 32"
  shows "(\<forall>i < length (concat (map fst ds)). part_view p (ps s2) (p_address p + i) = concat (map fst ds) ! i) \<and>
    (p_type fp = PART_TYPE_APP \<or> p_type fp = PART_TYPE_BOOTLOADER \<longrightarrow> image_verify env (p_address p) (p_size p) (ps s2) = ESP_OK)"
proof -
  have "stream h p fp ne en n s1 (concat (map fst ds))" using ota_writes_stream [OF assms(1,2)] assms(4-6) by auto
  then show ?thesis by (rule ota_end_stream [OF _ assms(3)]) (use assms(4,5) in auto)
qed

section \<open>Opening an update\<close>

lemma written_quiet_blank: "quiet s s' \<Longrightarrow> part_blank p (ps s') = part_blank p (ps s)"
  by (auto simp: quiet_def later_def part_blank_def flash_erased_def fun_eq_iff)

lemma prepare_special_frame [simp]:
  "ps (prepare_special t a s) = ps s" "get_ota_ops_entry h (prepare_special t a s) = get_ota_ops_entry h s"
  by (simp_all add: prepare_special_def get_ota_ops_entry_def Let_def)

text \<open>A new entry is the first of the list.\<close>

lemma init_entry_ready:
  assumes "ready s" and "esp_ota_init_entry p s = Some (r, s')"
  obtains e where "r = Some e" and "get_ota_ops_entry (e_handle e) s' = Some e" and "quiet s s'"
    and "e_staging e = p" "e_final e = p" "\<not> e_finalize_with_copy e" "e_wrote_size e = 0" "e_partial_bytes e = 0" "length (e_partial_data e) = 16"
proof -
  have "heap_alloc (ps s) = (Some (heap_next (ps s)), (ps s)\<lparr> heap_next := Suc (heap_next (ps s)) \<rparr>)"
    using assms(1) by (simp add: heap_alloc_def ready_def)
  moreover define e where "e = \<lparr> e_handle = add32 (s_ota_ops_last_handle s) 1, e_staging = p, e_final = p, e_finalize_with_copy = False,
      e_need_erase = False, e_wrote_size = 0, e_partial_bytes = 0, e_ota_resumption = False, e_partial_data = replicate 16 0 \<rparr>"
  ultimately have r: "r = Some e" and s': "s' = s\<lparr> ps := (ps s)\<lparr> heap_next := Suc (heap_next (ps s)) \<rparr>, s_ota_ops_entries := e # s_ota_ops_entries s,
      s_ota_ops_last_handle := add32 (s_ota_ops_last_handle s) 1 \<rparr>"
    using assms(2) by (simp_all add: esp_ota_init_entry_def part_call_def Let_def)
  have "get_ota_ops_entry (e_handle e) s' = Some e" "quiet s s'" by (simp_all add: s' get_ota_ops_entry_def quiet_def)
  then show ?thesis by (rule that [OF r]) (simp_all add: e_def)
qed

definition erased_size :: "esp_partition_t \<Rightarrow> nat \<Rightarrow> nat" where
  "erased_size p image_size = (if image_size = 0 \<or> image_size = OTA_SIZE_UNKNOWN then p_size p else align_up (p_erase_size p) image_size)"

text \<open>
  With rollback support \<^verbatim>\<open>esp_ota_begin\<close> also erases the inactive selection record. It does not
  matter whether that succeeds, if the OTA data lies apart from the partition being
  updated and a failing erase damages nothing outside the OTA data.
\<close>

definition apart :: "ota_state \<Rightarrow> esp_partition_t \<Rightarrow> bool" where
  "apart s p \<longleftrightarrow> 16 dvd p_address p \<and> 16 dvd p_size p \<and> (\<forall>od. lookup s 1 0 = Some od \<longrightarrow>
     p_address od + p_size od < 2 ^ 32 \<and> confined (p_address od) (p_address od + p_size od) (chips (ps s) (p_flash_chip od)) \<and>
     (p_flash_chip od \<noteq> p_flash_chip p \<or> p_address od + p_size od \<le> p_address p \<or> p_address p + p_size p \<le> p_address od))"

lemma quiet_apart: "quiet s s' \<Longrightarrow> apart s p \<Longrightarrow> apart s' p"
proof -
  assume q: "quiet s s'" and a: "apart s p"
  have "within 0 0 (chips (ps s) c) (chips (ps s') c)" for c using q within_later by (simp add: quiet_def)
  then have "confined A B (chips (ps s) c) \<Longrightarrow> confined A B (chips (ps s') c)" for A B c unfolding confined_def within_def by blast
  then show ?thesis using a quiet_lookup [OF q] by (auto simp: apart_def)
qed

lemma erase_within:
  assumes "esp_partition_erase_range p off n q = (e, q')" and "p_address p + p_size p < 2 ^ 32"
    and "confined (p_address p) (p_address p + p_size p) (chips q (p_flash_chip p))"
  shows "within (p_address p) (p_address p + p_size p) (chips q (p_flash_chip p)) (chips q' (p_flash_chip p))"
    and "c \<noteq> p_flash_chip p \<Longrightarrow> chips q' c = chips q c"
proof -
  show "within (p_address p) (p_address p + p_size p) (chips q (p_flash_chip p)) (chips q' (p_flash_chip p))"
  proof (cases "off + n \<le> p_size p")
    case True
    then show ?thesis using part_erase_within [OF assms] by simp
  next
    case False
    then have "q' = q" using assms(1) by (auto simp: esp_partition_erase_range_def split: if_splits)
    then show ?thesis by simp
  qed
  show "chips q' c = chips q c" if "c \<noteq> p_flash_chip p"
    using assms(1) that by (auto simp: esp_partition_erase_range_def on_chip_eq split: if_splits)
qed

text \<open>Cells of a partition survive changes outside of it.\<close>

lemma written_outside:
  assumes "written p q bs lim" and "length bs \<le> p_size p" and "lim \<le> p_size p" and "16 dvd p_address p" and "16 dvd p_size p"
    and "within A B (chips q (p_flash_chip p)) (chips q' (p_flash_chip p))" and "B \<le> p_address p \<or> p_address p + p_size p \<le> A"
  shows "written p q' bs lim"
proof -
  let ?f = "chips q (p_flash_chip p)" and ?f' = "chips q' (p_flash_chip p)"
  have m: "flash_mem ?f' x = flash_mem ?f x" if "p_address p \<le> x" "x < p_address p + p_size p" for x using assms(6,7) that by (auto simp: within_def)
  have cfg: "chip_cfg ?f' = chip_cfg ?f" using assms(6) by (simp add: within_def)
  have v: "flash_view ?f' x = flash_view ?f x" if x: "p_address p \<le> x" "x < p_address p + p_size p" for x
  proof (rule view_cong [OF _ cfg])
    fix y assume y: "16 * (x div 16) \<le> y" "y < 16 * (x div 16) + 16"
    obtain j k where jk: "p_address p = 16 * j" "p_size p = 16 * k" using assms(4,5) by (auto elim!: dvdE)
    have "j \<le> x div 16" "x div 16 < j + k" using x jk by (auto simp: less_eq_div_iff_mult_less_eq mult.commute less_mult_imp_div_less)
    then show "flash_mem ?f' y = flash_mem ?f y" using y jk by (intro m) linarith+
  qed
  have "part_ok p q'" using assms(1) chip_cfg_sel [OF cfg]
    by (cases "p_encrypted p") (simp_all add: written_def part_ok_def flash_ok_def xts_ok_def cipher_ok_def)
  then show ?thesis using assms(1-3) m v by (auto simp: written_def part_view_def part_blank_def flash_erased_def)
qed

lemma count_quiet:
  "ready s \<Longrightarrow> slot_count s \<noteq> 17 \<Longrightarrow> esp_ota_get_app_partition_count env s = Some (n, s') \<Longrightarrow> quiet s s'"
  using app_partition_count [of s env] by auto

lemma read_otadata_quiet:
  assumes "ready s" and "read_otadata env s = Some (r, s')"
  shows "quiet s s'" and "\<And>od d. r = Some (od, d) \<Longrightarrow> lookup s 1 0 = Some od"
proof -
  obtain s1 where f: "find_first env 1 0 s = Some (lookup s 1 0, s1)" and q: "quiet s s1"
    using find_first_ready [OF assms(1), of 1 0 env] by auto
  show "quiet s s'" using assms(2) f q quiet_trans [OF q] mmap_quiet
    by (auto simp: read_otadata_def bind_eq_Some_conv Let_def split: option.splits if_splits)
  show "lookup s 1 0 = Some od" if "r = Some (od, d)" for od d
    using assms(2) f that by (auto simp: read_otadata_def bind_eq_Some_conv Let_def split: option.splits if_splits)
qed


lemma find_first_quiet: "ready s \<Longrightarrow> t < 0xFF \<Longrightarrow> st < 0xFF \<Longrightarrow> find_first env t st s = Some (r, s') \<Longrightarrow> quiet s s'"
  using find_first_ready [of s t st env] by auto

lemma get_state_quiet:
  assumes "ready s" and "slot_count s \<noteq> 17" and "esp_ota_get_state_partition env p s = Some (r, s')"
  shows "quiet s s'"
proof (cases "p = None \<or> \<not> is_ota_partition p")
  case True
  then show ?thesis using assms(3) by (auto simp: esp_ota_get_state_partition_def split: option.splits)
next
  case False
  then obtain x where x: "p = Some x" "is_ota_partition (Some x)" by auto
  obtain n s1 where c: "esp_ota_get_app_partition_count env s = Some (n, s1)"
    using assms(3) x by (auto simp: esp_ota_get_state_partition_def bind_eq_Some_conv)
  obtain od s2 where r2: "read_otadata env s1 = Some (od, s2)"
    using assms(3) x c by (auto simp: esp_ota_get_state_partition_def bind_eq_Some_conv)
  have r: "read_otadata env s1 = Some (od, s')"
    using assms(3) x c r2 by (cases od) (auto simp: esp_ota_get_state_partition_def Let_def split: if_splits)
  note q = count_quiet [OF assms(1,2) c]
  show ?thesis using quiet_trans [OF q read_otadata_quiet(1) [OF _ r]] quiet_ready [OF q] assms(1) by simp
qed

text \<open>The inactive record is invalidated by reads and at most one erase in the OTA data.\<close>

lemma invalidate_effect:
  assumes "ready s" and "slot_count s \<noteq> 17" and "esp_ota_invalidate_inactive_ota_data_slot env s = Some (e, s')"
  shows "\<exists>s1. quiet s s1 \<and> (s' = s1 \<or> (\<exists>od off n q. lookup s 1 0 = Some od \<and> esp_partition_erase_range od off n (ps s1) = (e, q) \<and> s' = s1\<lparr> ps := q \<rparr>))"
proof -
  obtain od s1 where r: "read_otadata env s = Some (od, s1)"
    using assms(3) by (auto simp: esp_ota_invalidate_inactive_ota_data_slot_def erase_last_boot_app_partition_def bind_eq_Some_conv)
  note q1 = read_otadata_quiet(1) [OF assms(1) r]
  have l1: "ready s1" "slot_count s1 \<noteq> 17" using quiet_ready [OF q1] quiet_slot_count [OF q1] assms(1,2) by auto
  show ?thesis
  proof (cases od)
    case None
    then show ?thesis using assms(3) r q1 by (auto simp: esp_ota_invalidate_inactive_ota_data_slot_def erase_last_boot_app_partition_def)
  next
    case (Some x)
    obtain part d where x: "x = (part, d)" by (rule prod.exhaust)
    have lk: "lookup s 1 0 = Some part" using read_otadata_quiet(2) [OF assms(1) r] Some x by simp
    obtain s2 where c: "esp_ota_get_app_partition_count env s1 = Some (slot_count s1, s2)" and q2: "quiet s1 s2"
      using app_partition_count [OF l1, of env] by auto
    note q12 = quiet_trans [OF q1 q2]
    define a where "a = bootloader_common_get_active_otadata (crc32_le env) (Some d)"
    define t where "t = 16 + ota_slot (otadata_at d (1 - a)) (slot_count s1)"
    have t: "t < 0xFF" if "slot_count s1 \<noteq> 0" using ota_slot_less [of "slot_count s1" "otadata_at d (1 - a)"] slot_count_le [of s1] that by (simp add: t_def)
    have rest: "erase_last_boot_app_partition env True s =
        (if a = - 1 \<or> slot_count s1 = 0 \<or> ota_seq (otadata_at d (1 - a)) = UINT32_MAX \<or>
            ota_crc (otadata_at d (1 - a)) \<noteq> bootloader_common_ota_select_crc (crc32_le env) (otadata_at d (1 - a)) then Some (ESP_FAIL, s2)
         else do {
           (p, s3) \<leftarrow> find_first env 0 t s2;
           case p of
             None \<Rightarrow> Some (ESP_FAIL, s3)
           | Some last_boot \<Rightarrow> do {
               (running, s4) \<leftarrow> esp_ota_get_running_partition env s3;
               if p_self last_boot = p_self running then Some (ESP_FAIL, s4)
               else part_call (esp_partition_erase_range part (mul32 (nat (1 - a)) (p_erase_size part)) (p_erase_size part)) s4
             }
         })"
      using r c Some x by (simp add: erase_last_boot_app_partition_def a_def t_def Let_def cong: option.case_cong if_cong)
    show ?thesis
    proof (cases "a = - 1 \<or> slot_count s1 = 0 \<or> ota_seq (otadata_at d (1 - a)) = UINT32_MAX \<or>
        ota_crc (otadata_at d (1 - a)) \<noteq> bootloader_common_ota_select_crc (crc32_le env) (otadata_at d (1 - a))")
      case True
      then show ?thesis using assms(3) rest q12 by (auto simp: esp_ota_invalidate_inactive_ota_data_slot_def)
    next
      case False
      have r2: "ready s2" using quiet_ready [OF q12] assms(1) by simp
      obtain s3 where f: "find_first env 0 t s2 = Some (lookup s2 0 t, s3)" and q3: "quiet s2 s3"
        using find_first_ready [OF r2, of 0 t env] t False by auto
      note q13 = quiet_trans [OF q12 q3]
      have r3: "ready s3" using quiet_ready [OF q13] assms(1) by simp
      show ?thesis
      proof (cases "lookup s2 0 t")
        case None
        then show ?thesis using assms(3) rest False f q13 by (auto simp: esp_ota_invalidate_inactive_ota_data_slot_def)
      next
        case (Some lb)
        obtain running s4 where g: "esp_ota_get_running_partition env s3 = Some (running, s4)"
          using assms(3) rest False f Some by (auto simp: esp_ota_invalidate_inactive_ota_data_slot_def bind_eq_Some_conv)
        note q14 = quiet_trans [OF q13 running_quiet [OF r3 g]]
        show ?thesis using assms(3) rest False f Some g q14 lk
          by (auto simp: esp_ota_invalidate_inactive_ota_data_slot_def part_call_def split: if_splits prod.splits)
      qed
    qed
  qed
qed


lemma written_invalidate:
  assumes "ready s" and "slot_count s \<noteq> 17" and "apart s p" and "written p (ps s) [] lim" and "lim \<le> p_size p"
    and "esp_ota_invalidate_inactive_ota_data_slot env s = Some (e, s')"
  shows "written p (ps s') [] lim \<and> enc_enabled (chips (ps s') 0) = enc_enabled (chips (ps s) 0)"
proof -
  obtain s1 where q: "quiet s s1" and s': "s' = s1 \<or> (\<exists>od off n q. lookup s 1 0 = Some od \<and> esp_partition_erase_range od off n (ps s1) = (e, q) \<and> s' = s1\<lparr> ps := q \<rparr>)"
    using invalidate_effect [OF assms(1,2,6)] by blast
  have w1: "written p (ps s1) [] lim" using assms(4) quiet_part [OF q] written_quiet_blank [OF q] by (simp add: written_def)
  have e1: "enc_enabled (chips (ps s1) 0) = enc_enabled (chips (ps s) 0)"
    using q chip_cfg_sel [of "chips (ps s1) 0" "chips (ps s) 0"] by (simp add: quiet_def later_def)
  from s' show ?thesis
  proof (elim disjE exE conjE)
    fix od off n q' assume lk: "lookup s 1 0 = Some od" and er: "esp_partition_erase_range od off n (ps s1) = (e, q')" and s2: "s' = s1\<lparr> ps := q' \<rparr>"
    have "apart s1 p" "lookup s1 1 0 = Some od" using quiet_apart [OF q assms(3)] quiet_lookup [OF q] lk by auto
    then have ap: "16 dvd p_address p" "16 dvd p_size p" "p_address od + p_size od < 2 ^ 32"
      "confined (p_address od) (p_address od + p_size od) (chips (ps s1) (p_flash_chip od))"
      "p_flash_chip od \<noteq> p_flash_chip p \<or> p_address od + p_size od \<le> p_address p \<or> p_address p + p_size p \<le> p_address od"
      by (auto simp: apart_def)
    note w = erase_within [OF er ap(3,4)]
    have "written p q' [] lim"
    proof (cases "p_flash_chip od = p_flash_chip p")
      case True
      then show ?thesis using written_outside [OF w1 _ assms(5) ap(1,2) w(1) [unfolded True]] ap(5) by auto
    next
      case False
      then show ?thesis using w1 w(2) [of "p_flash_chip p"] by (simp add: written_def part_ok_def part_view_def part_blank_def)
    qed
    moreover have "enc_enabled (chips q' c) = enc_enabled (chips (ps s1) c)" for c
      using w(1) w(2) [of c] chip_cfg_sel [of "chips q' c" "chips (ps s1) c"] by (cases "c = p_flash_chip od") (auto simp: within_def)
    ultimately show ?thesis using s2 e1 by simp
  qed (use w1 e1 in auto)
qed


text \<open>The checks before an update is opened: reads only, and an application slot that is not running.\<close>

definition begin_checks :: "ota_env \<Rightarrow> esp_partition_t \<Rightarrow> esp_err ota" where
  "begin_checks env part s1 =
     (if p_type part = PART_TYPE_APP then
        (if \<not> is_ota_partition (Some part) then Some (ESP_ERR_INVALID_ARG, s1)
         else do {
           (running, s2) \<leftarrow> esp_ota_get_running_partition env s1;
           if p_self part = p_self running then Some (ESP_ERR_OTA_PARTITION_CONFLICT, s2)
           else if rollback_enable env then do {
             (r, s3) \<leftarrow> esp_ota_get_state_partition env (Some running) s2;
             if r = (ESP_OK, Some ESP_OTA_IMG_PENDING_VERIFY) then Some (ESP_ERR_OTA_ROLLBACK_INVALID_STATE, s3) else Some (ESP_OK, s3)
           }
           else Some (ESP_OK, s2)
         })
      else Some (ESP_OK, s1))"

lemma running_cached: "esp_ota_get_running_partition env s = Some (p, s') \<Longrightarrow> curr_partition s' = Some p"
  by (auto simp: esp_ota_get_running_partition_def bind_eq_Some_conv split: option.splits)

lemma begin_checks_quiet:
  assumes "ready s" and "slot_count s \<noteq> 17" and "begin_checks env p s = Some (e, s')"
  shows "quiet s s'"
proof -
  have st: "quiet s s'" if q: "quiet s s1" and g: "esp_ota_get_state_partition env r s1 = Some (x, s')" for s1 r x
    using quiet_trans [OF q get_state_quiet [OF _ _ g]] quiet_ready [OF q] quiet_slot_count [OF q] assms(1,2) by simp
  show ?thesis using assms(3) running_quiet [OF assms(1)] st
    by (fastforce simp: begin_checks_def bind_eq_Some_conv split: if_splits)
qed


lemma begin_phases:
  assumes "ready s" and "slot_count s \<noteq> 17" and "esp_ota_begin env (Some p0) image_size True s = Some ((ESP_OK, Some h), s')"
    and "fst (esp_partition_verify (cfg env) p0 (ps s)) = Some p"
  obtains s1 s2 e s4 q where "quiet s s1" and "begin_checks env p s1 = Some (ESP_OK, s2)" and "quiet s s4"
    and "get_ota_ops_entry h s4 = Some e" and "e_staging e = p" "e_final e = p" "\<not> e_finalize_with_copy e" "e_wrote_size e = 0" "e_partial_bytes e = 0" "length (e_partial_data e) = 16"
    and "e_need_erase e = (image_size = OTA_WITH_SEQUENTIAL_WRITES)"
    and "if image_size = OTA_WITH_SEQUENTIAL_WRITES then q = ps s4 else esp_partition_erase_range p 0 (erased_size p image_size) (ps s4) = (ESP_OK, q)"
    and "if rollback_enable env \<and> is_ota_partition (Some p) then \<exists>e. esp_ota_invalidate_inactive_ota_data_slot env (s4\<lparr> ps := q \<rparr>) = Some (e, s') else s' = s4\<lparr> ps := q \<rparr>"
proof -
  obtain s1 where v: "part_call (esp_partition_verify (cfg env) p0) s = Some (Some p, s1)"
    using assms(4) by (cases "esp_partition_verify (cfg env) p0 (ps s)") (simp add: part_call_def)
  note q1 = verify_quiet [OF assms(1) v]
  have l1: "ready s1" "slot_count s1 \<noteq> 17" using quiet_ready [OF q1] quiet_slot_count [OF q1] assms(1,2) by auto
  obtain chk s2 where c: "begin_checks env p s1 = Some (chk, s2)"
    using assms(3) v by (auto simp: esp_ota_begin_def begin_checks_def bind_eq_Some_conv)
  note q2 = quiet_trans [OF q1 begin_checks_quiet [OF l1 c]]
  have r2: "ready s2" using quiet_ready [OF q2] assms(1) by simp
  have chk: "chk = ESP_OK" using assms(3) v c by (auto simp: esp_ota_begin_def begin_checks_def [symmetric] split: if_splits)
  obtain ne s3 where i: "esp_ota_init_entry p s2 = Some (ne, s3)"
    using assms(3) v c chk by (auto simp: esp_ota_begin_def begin_checks_def [symmetric] bind_eq_Some_conv)
  obtain e0 where e0: "ne = Some e0" "get_ota_ops_entry (e_handle e0) s3 = Some e0" "quiet s2 s3" "e_staging e0 = p" "e_final e0 = p"
    "\<not> e_finalize_with_copy e0" "e_wrote_size e0 = 0" "e_partial_bytes e0 = 0" "length (e_partial_data e0) = 16"
    by (rule init_entry_ready [OF r2 i])
  let ?e = "e0\<lparr> e_need_erase := (image_size = OTA_WITH_SEQUENTIAL_WRITES) \<rparr>"
  let ?s4 = "prepare_special (p_type p) (p_address p) (set_entry ?e s3)"
  have q4: "quiet s ?s4" using quiet_trans [OF q2 e0(3)] by (simp add: quiet_def)
  obtain q where er: "if image_size = OTA_WITH_SEQUENTIAL_WRITES then q = ps ?s4 else esp_partition_erase_range p 0 (erased_size p image_size) (ps ?s4) = (ESP_OK, q)"
    and rest: "if rollback_enable env \<and> is_ota_partition (Some p) then \<exists>e. esp_ota_invalidate_inactive_ota_data_slot env (?s4\<lparr> ps := q \<rparr>) = Some (e, s') else s' = ?s4\<lparr> ps := q \<rparr>"
    and h: "h = e_handle e0"
  proof -
    obtain r5 q where r5: "(if image_size \<noteq> OTA_WITH_SEQUENTIAL_WRITES then esp_partition_erase_range p 0 (erased_size p image_size) (ps ?s4) else (ESP_OK, ps ?s4)) = (r5, q)"
      by (rule prod.exhaust)
    have ph: "(if image_size \<noteq> OTA_WITH_SEQUENTIAL_WRITES then part_call (esp_partition_erase_range p 0 (erased_size p image_size)) ?s4 else Some (ESP_OK, ?s4)) = Some (r5, ?s4\<lparr> ps := q \<rparr>)"
      using r5 by (auto simp: part_call_def split: if_splits)
    have "(if r5 \<noteq> ESP_OK then Some ((r5, Some (e_handle e0)), ?s4\<lparr> ps := q \<rparr>)
       else if rollback_enable env \<and> is_ota_partition (Some p) then do {
         (_, s6) \<leftarrow> esp_ota_invalidate_inactive_ota_data_slot env (?s4\<lparr> ps := q \<rparr>);
         Some ((ESP_OK, Some (e_handle e0)), s6)
       }
       else Some ((ESP_OK, Some (e_handle e0)), ?s4\<lparr> ps := q \<rparr>)) = Some ((ESP_OK, Some h), s')"
      using assms(3) v c chk i e0(1) ph
      by (cases "image_size = OTA_WITH_SEQUENTIAL_WRITES")
        (simp_all add: esp_ota_begin_def begin_checks_def [symmetric] erased_size_def [symmetric] Let_def cong: if_cong)
    then show ?thesis using that r5 by (auto simp: bind_eq_Some_conv split: if_splits)
  qed
  have "get_ota_ops_entry h ?s4 = Some ?e" using e0(2) h by simp
  then show ?thesis using that [OF q1 _ q4 _ _ _ _ _ _ _ _ er rest, of s2 ?e] c chk e0 by simp
qed


lemma erase_frame:
  assumes "part_ok p q" and "esp_partition_erase_range p off n q = (ESP_OK, q')"
  shows "part_list q' = part_list q \<and> allocs q' = allocs q \<and> (\<forall>c. set (drv_results (chips q' c)) \<subseteq> set (drv_results (chips q c)))"
proof -
  have "p_address p + p_size p < 2 ^ 32" using assms(1) by (simp add: part_ok_def)
  note e = part_erase_ok(4) [OF assms(2) this]
  obtain m where l: "later (chips q (p_flash_chip p)) m (chips q' (p_flash_chip p))" using part_erase_later [OF assms] by blast
  have "set (drv_results (chips q' c)) \<subseteq> set (drv_results (chips q c))" for c
  proof (cases "c = p_flash_chip p")
    case False
    then show ?thesis using arg_cong [OF e, of "\<lambda>x. chips x c"] by simp
  qed (use l in \<open>simp add: later_def\<close>)
  then show ?thesis using arg_cong [OF e, of part_list] arg_cong [OF e, of allocs] by simp
qed

text \<open>None of this touches the open handles or the revoked keys.\<close>

definition same_vars :: "ota_state \<Rightarrow> ota_state \<Rightarrow> bool" where
  "same_vars s s' \<longleftrightarrow> s_ota_ops_entries s' = s_ota_ops_entries s \<and> revoked_digests s' = revoked_digests s"

lemma same_vars_trans: "same_vars s s1 \<Longrightarrow> same_vars s1 s' \<Longrightarrow> same_vars s s'"
  by (simp add: same_vars_def)

lemma part_call_entries: "part_call op s = Some (r, s') \<Longrightarrow> same_vars s s'"
  by (auto simp: part_call_def same_vars_def split: prod.splits)

lemma find_first_entries: "find_first env t st s = Some (r, s') \<Longrightarrow> same_vars s s'"
  by (simp add: find_first_def part_call_entries)

lemma count_loop_entries: "count_loop env n s = Some (r, s') \<Longrightarrow> same_vars s s'"
proof (induction env n s rule: count_loop.induct)
  case (1 env n s)
  obtain x s1 where f: "find_first env 0 (16 + n) s = Some (x, s1)"
    using "1.prems" by (auto simp: count_loop.simps [of env n s] split: option.splits)
  note e = find_first_entries [OF f]
  show ?case
  proof (cases x)
    case None
    then show ?thesis using "1.prems" f e by (simp add: count_loop.simps [of env n s])
  next
    case (Some p)
    then have "n < 16" "count_loop env (Suc n) s1 = Some (r, s')" using "1.prems" f by (auto simp: count_loop.simps [of env n s] split: if_splits)
    then show ?thesis using "1.IH" [OF f refl Some] same_vars_trans [OF e] by simp
  qed
qed

lemma read_otadata_entries: "read_otadata env s = Some (r, s') \<Longrightarrow> same_vars s s'"
  using find_first_entries part_call_entries
  by (fastforce simp: same_vars_def read_otadata_def bind_eq_Some_conv Let_def split: option.splits if_splits)

lemma running_entries: "esp_ota_get_running_partition env s = Some (r, s') \<Longrightarrow> same_vars s s'"
  by (auto simp: same_vars_def esp_ota_get_running_partition_def bind_eq_Some_conv split: option.splits dest!: part_call_entries)

lemma invalidate_entries:
  assumes "esp_ota_invalidate_inactive_ota_data_slot env s = Some (e, s')"
  shows "same_vars s s'"
  using assms
  by (auto simp: same_vars_def esp_ota_invalidate_inactive_ota_data_slot_def erase_last_boot_app_partition_def esp_ota_get_app_partition_count_def
      bind_eq_Some_conv Let_def split: option.splits if_splits
      dest!: read_otadata_entries count_loop_entries find_first_entries running_entries part_call_entries)

text \<open>
  C29: opening an update. When \<^verbatim>\<open>esp_ota_begin\<close> returns \<^verbatim>\<open>ESP_OK\<close>, its handle is in the state that writing
  through it relies on. Without \<^verbatim>\<open>OTA_WITH_SEQUENTIAL_WRITES\<close>, which marks the partition for erasing on
  the way, every byte of the size that was asked for is blank (of the whole partition for a size of
  zero or \<^verbatim>\<open>OTA_SIZE_UNKNOWN\<close>), unless rounding the size up to a sector wraps around. An application
  partition is then an OTA slot other than the running one, and with rollback support the running
  image is not waiting for its confirmation. The erasing of the inactive selection record may fail.
\<close>

theorem begin_opens_stream:
  assumes "ready s" and "slot_count s \<noteq> 17" and "esp_ota_begin env (Some p0) image_size True s = Some ((ESP_OK, Some h), s')"
    and "fst (esp_partition_verify (cfg env) p0 (ps s)) = Some p" and "part_ok p (ps s)"
    and "rollback_enable env \<longrightarrow> apart s p"
  shows "stream h p p (image_size = OTA_WITH_SEQUENTIAL_WRITES) (enc_enabled (chips (ps s) 0)) (erased_size p image_size) s' [] \<and>
    (image_size \<noteq> OTA_WITH_SEQUENTIAL_WRITES \<and> (image_size \<in> {0, OTA_SIZE_UNKNOWN} \<or> 0 < p_erase_size p \<and> image_size + p_erase_size p \<le> 2 ^ 32) \<longrightarrow>
      (\<forall>i < (if image_size \<in> {0, OTA_SIZE_UNKNOWN} then p_size p else image_size). part_blank p (ps s') (p_address p + i))) \<and>
    (p_type p = PART_TYPE_APP \<longrightarrow> is_ota_partition (Some p) \<and>
      (\<exists>sr running s1. quiet s sr \<and> esp_ota_get_running_partition env sr = Some (running, s1) \<and> p_self p \<noteq> p_self running \<and>
        (rollback_enable env \<longrightarrow> (\<exists>r s2. esp_ota_get_state_partition env (Some running) s1 = Some (r, s2) \<and> r \<noteq> (ESP_OK, Some ESP_OTA_IMG_PENDING_VERIFY)))))"
proof -
  let ?ne = "image_size = OTA_WITH_SEQUENTIAL_WRITES" and ?n = "erased_size p image_size" and ?en = "enc_enabled (chips (ps s) 0)"
  obtain s1 s2 e s4 q where q1: "quiet s s1" and c: "begin_checks env p s1 = Some (ESP_OK, s2)" and q4: "quiet s s4"
    and e: "get_ota_ops_entry h s4 = Some e" "e_staging e = p" "e_final e = p" "\<not> e_finalize_with_copy e" "e_wrote_size e = 0" "e_partial_bytes e = 0" "length (e_partial_data e) = 16"
      "e_need_erase e = ?ne"
    and er: "if ?ne then q = ps s4 else esp_partition_erase_range p 0 ?n (ps s4) = (ESP_OK, q)"
    and rest: "if rollback_enable env \<and> is_ota_partition (Some p) then \<exists>e. esp_ota_invalidate_inactive_ota_data_slot env (s4\<lparr> ps := q \<rparr>) = Some (e, s') else s' = s4\<lparr> ps := q \<rparr>"
    by (rule begin_phases [OF assms(1-4)])
  define lim where "lim = (if ?ne then sector_end (p_erase_size p) 0 else ?n)"
  have w4: "written p (ps s4) [] 0" using quiet_part [OF q4] assms(5) by (simp add: written_def)
  have w: "written p q [] lim" using er w4 written_erase [OF w4] by (auto simp: lim_def sector_end_def)
  have "enc_enabled (chips (ps s4) 0) = ?en" using q4 chip_cfg_sel [of "chips (ps s4) 0" "chips (ps s) 0"] by (simp add: quiet_def later_def)
  then have en: "enc_enabled (chips q 0) = ?en" using er part_erase_enc w4 by (auto simp: written_def split: if_splits)
  let ?s5 = "s4\<lparr> ps := q \<rparr>"
  have inv: "written p (ps s') [] lim \<and> enc_enabled (chips (ps s') 0) = ?en"
  proof (cases "rollback_enable env \<and> is_ota_partition (Some p)")
    case True
    have quiet_ok: "part_ok p (ps s4)" using w4 by (simp add: written_def)
    have pl: "part_list q = part_list (ps s4) \<and> allocs q = allocs (ps s4) \<and> (\<forall>c. set (drv_results (chips q c)) \<subseteq> set (drv_results (chips (ps s4) c)))"
      using er erase_frame [OF quiet_ok] by (cases ?ne) auto
    have lk: "lookup ?s5 = lookup s" using quiet_lookup [OF q4] pl by (simp add: lookup_def fun_eq_iff)
    have r5: "ready ?s5" using quiet_ready [OF q4] pl assms(1) by (simp add: ready_def)
    have n5: "slot_count ?s5 \<noteq> 17" using lk assms(2) by (simp add: slot_count_def slots_def)
    have "confined A B (chips (ps s4) c) \<Longrightarrow> confined A B (chips q c)" for A B c using pl unfolding confined_def by blast
    moreover have "apart s4 p" using quiet_apart [OF q4] assms(6) True by blast
    ultimately have a5: "apart ?s5 p" unfolding apart_def lk quiet_lookup [OF q4] by auto
    have lim: "lim \<le> p_size p" using er part_erase_ok(2) [of p 0 ?n "ps s4" q] assms(5) by (auto simp: lim_def sector_end_def part_ok_def)
    obtain x where i: "esp_ota_invalidate_inactive_ota_data_slot env ?s5 = Some (x, s')" using rest True by auto
    show ?thesis using written_invalidate [OF r5 n5 a5 _ lim i] w en by simp
  next
    case False
    then show ?thesis using rest w en by auto
  qed
  moreover have "get_ota_ops_entry h s' = Some e"
    using rest e(1) invalidate_entries by (auto simp: same_vars_def get_ota_ops_entry_def split: if_splits)
  ultimately have "stream h p p ?ne ?en ?n s' []" using e by (auto simp: stream_def lim_def)
  moreover have "part_blank p (ps s') (p_address p + i)"
    if c: "image_size \<noteq> OTA_WITH_SEQUENTIAL_WRITES" "image_size \<in> {0, OTA_SIZE_UNKNOWN} \<or> 0 < p_erase_size p \<and> image_size + p_erase_size p \<le> 2 ^ 32"
      and i: "i < (if image_size \<in> {0, OTA_SIZE_UNKNOWN} then p_size p else image_size)" for i
  proof -
    have "i < lim" using c i align_up_bounds(1) [of "p_erase_size p" image_size] by (auto simp: lim_def erased_size_def)
    then show ?thesis using inv by (simp add: written_def)
  qed
  moreover have "is_ota_partition (Some p) \<and> (\<exists>sr running s1. quiet s sr \<and> esp_ota_get_running_partition env sr = Some (running, s1) \<and> p_self p \<noteq> p_self running \<and>
      (rollback_enable env \<longrightarrow> (\<exists>r s2. esp_ota_get_state_partition env (Some running) s1 = Some (r, s2) \<and> r \<noteq> (ESP_OK, Some ESP_OTA_IMG_PENDING_VERIFY))))"
    if ty: "p_type p = 0"
  proof -
    obtain running sx where "is_ota_partition (Some p)" "esp_ota_get_running_partition env s1 = Some (running, sx)" "p_self p \<noteq> p_self running"
      "rollback_enable env \<longrightarrow> (\<exists>r s2. esp_ota_get_state_partition env (Some running) sx = Some (r, s2) \<and> r \<noteq> (ESP_OK, Some ESP_OTA_IMG_PENDING_VERIFY))"
      using c ty by (auto simp: begin_checks_def bind_eq_Some_conv split: if_splits)
    then show ?thesis using q1 by blast
  qed
  ultimately show ?thesis by blast
qed


lemma get_state_entries: "esp_ota_get_state_partition env p s = Some (r, s') \<Longrightarrow> same_vars s s'"
proof (cases "p = None \<or> \<not> is_ota_partition p")
  case True
  then show "esp_ota_get_state_partition env p s = Some (r, s') \<Longrightarrow> same_vars s s'"
    by (auto simp: esp_ota_get_state_partition_def same_vars_def split: option.splits)
next
  case False
  assume a: "esp_ota_get_state_partition env p s = Some (r, s')"
  obtain x where x: "p = Some x" "is_ota_partition (Some x)" using False by auto
  obtain n s1 where c: "esp_ota_get_app_partition_count env s = Some (n, s1)"
    using a x by (auto simp: esp_ota_get_state_partition_def bind_eq_Some_conv)
  obtain od s2 where r: "read_otadata env s1 = Some (od, s2)"
    using a x c by (auto simp: esp_ota_get_state_partition_def bind_eq_Some_conv)
  have "s2 = s'" using a x c r by (cases od) (auto simp: esp_ota_get_state_partition_def Let_def split: if_splits)
  then show "same_vars s s'"
    using same_vars_trans [OF count_loop_entries [OF c [unfolded esp_ota_get_app_partition_count_def]] read_otadata_entries [OF r]] by simp
qed

text \<open>
  C39: revoking a key cannot lock the device out. If a call of
  \<^verbatim>\<open>esp_ota_revoke_secure_boot_public_key\<close> revoked a key, the running application and the bootloader
  both verify with some other key, and with rollback support the running image is confirmed.
\<close>

theorem key_revocation_is_safe:
  assumes "esp_ota_revoke_secure_boot_public_key env i s = Some (e, s')" and "revoked_digests s' \<noteq> revoked_digests s"
  shows "e = ESP_OK \<and> i < 3 \<and> revoked_digests s' = i # revoked_digests s \<and>
    (\<exists>running sr s2 k1 k2. esp_ota_get_running_partition env s = Some (running, sr) \<and> k1 < 3 \<and> k2 < 3 \<and> k1 \<noteq> i \<and> k2 \<noteq> i \<and>
       verify_with_digest env k1 (p_address running) (p_size running) (ps s2) = ESP_OK \<and>
       verify_with_digest env k2 (bootloader_offset_in_flash env) (sub32 (table_offset (cfg env)) (bootloader_offset_in_flash env)) (ps s2) = ESP_OK \<and>
       (if rollback_enable env then esp_ota_get_state_partition env (Some running) sr = Some ((ESP_OK, Some ESP_OTA_IMG_VALID), s2) else s2 = sr))"
proof -
  have g: "secure_boot_enabled env" "i = 0 \<or> i = 1 \<or> i = 2"
    using assms by (auto simp: esp_ota_revoke_secure_boot_public_key_def split: if_splits)
  obtain running sr where run: "esp_ota_get_running_partition env s = Some (running, sr)"
    using assms g by (auto simp: esp_ota_revoke_secure_boot_public_key_def bind_eq_Some_conv)
  obtain chk s2 where chk: "(if rollback_enable env then do {
        (r, s2) \<leftarrow> esp_ota_get_state_partition env (Some running) sr;
        Some (r = (ESP_OK, Some ESP_OTA_IMG_VALID), s2)
      } else Some (True, sr)) = Some (chk, s2)"
    using assms(1) g run by (auto simp: esp_ota_revoke_secure_boot_public_key_def bind_eq_Some_conv split: if_splits)
  have sv: "same_vars s s2"
    using chk same_vars_trans [OF running_entries [OF run] get_state_entries] running_entries [OF run]
    by (auto simp: bind_eq_Some_conv split: if_splits)
  have rest: "chk \<and> validate_img env i (p_address running) (p_size running) s2
      \<and> validate_img env i (bootloader_offset_in_flash env) (sub32 (table_offset (cfg env)) (bootloader_offset_in_flash env)) s2
      \<and> e = ESP_OK \<and> s' = s2\<lparr> revoked_digests := i # revoked_digests s2 \<rparr>"
    using assms g run chk sv by (auto simp: esp_ota_revoke_secure_boot_public_key_def same_vars_def split: if_splits)
  then obtain k1 k2 where "k1 < 3" "k2 < 3" "k1 \<noteq> i" "k2 \<noteq> i" "verify_with_digest env k1 (p_address running) (p_size running) (ps s2) = ESP_OK"
    "verify_with_digest env k2 (bootloader_offset_in_flash env) (sub32 (table_offset (cfg env)) (bootloader_offset_in_flash env)) (ps s2) = ESP_OK"
    by (auto simp: validate_img_def)
  moreover have "if rollback_enable env then esp_ota_get_state_partition env (Some running) sr = Some ((ESP_OK, Some ESP_OTA_IMG_VALID), s2) else s2 = sr"
    using chk rest by (auto simp: bind_eq_Some_conv split: if_splits)
  moreover have "i < 3" "revoked_digests s' = i # revoked_digests s" using g(2) rest sv by (auto simp: same_vars_def)
  ultimately show ?thesis using run rest by blast
qed

section \<open>Limits\<close>

text \<open>With sixteen OTA slots and a test partition, whose subtype follows theirs, counting the slots fails an assertion.\<close>

lemma sixteen_slots_and_test_abort: "ready s \<Longrightarrow> slot_count s = 17 \<Longrightarrow> esp_ota_get_app_partition_count env s = None"
  using count_loop_ready [of s 0 env] by (simp add: esp_ota_get_app_partition_count_def slot_count_def)

text \<open>Choosing the test partition succeeds, but selects the first OTA slot.\<close>

lemma set_boot_test_selects_first_slot:
  assumes "ready s" and "slot_count s \<noteq> 17" and "otadata_part s od" and "seq_room (crc32_le env) (slot_count s) (otadata_of s od)"
    and "p_subtype p = SUBTYPE_APP_TEST" and "esp_ota_set_boot_partition env (Some p) s = Some (ESP_OK, s1)"
  shows "\<exists>d. stored od d s s1 \<and> boot_slot (crc32_le env) (slot_count s) d = Some 0"
proof -
  obtain s0 where q: "quiet s s0" and w: "esp_rewrite_ota_data env (p_subtype p) s0 = Some (ESP_OK, s1)"
    using set_boot_ota [OF assms(6)] assms(5) by auto
  have s0: "ready s0" "slot_count s0 = slot_count s" "otadata_part s0 od" "otadata_of s0 od = otadata_of s od"
    using q quiet_ready quiet_slot_count quiet_otadata_part quiet_otadata assms(1,3) by auto
  have "\<forall>i \<in> {0, 1}. let r = otadata_at (otadata_of s0 od) i in bootloader_common_ota_select_valid (crc32_le env) r \<longrightarrow>
      0 < ota_seq r \<and> unat (ota_seq r) + slot_count s0 < 2 ^ 32 - 1"
    using assms(4) s0 by (simp add: seq_room_def Let_def)
  from choose_slot [OF s0(1) _ s0(3) w this] obtain d where "stored od d s0 s1" "chosen (crc32_le env) (slot_count s) 0 d" "0 < slot_count s"
    using s0 assms(2,5) by (auto simp: SUB_TYPE_ID_def)
  then show ?thesis using stored_quiet [OF q] chosen_slot by blast
qed

text \<open>
  The sectors erased on the way do not count the bytes kept back for encryption: with 4080
  bytes written and 15 kept, two more bytes complete a block, and the byte that is left
  belongs to a sector that was not erased.
\<close>

lemma kept_bytes_miss_the_erase:
  assumes "p_erase_size (e_staging it) = 4096" and "e_wrote_size it = 4080" and "e_partial_bytes it = 15"
  shows "sectors_to_erase it 2 = None \<and> (e_wrote_size it + e_partial_bytes it + 2 - 1) div 4096 = 1"
  using assms by (simp add: sectors_to_erase_def add32_def sub32_def Let_def)

end
