(* ===== verification/Ota_Examples.thy ===== *)
theory Ota_Examples
  imports Ota_Stream Partition_Examples
begin

text \<open>
  Concrete instances of the OTA properties: a device with a factory image, two OTA slots and
  one valid selection record, on which the operations are run.
\<close>

section \<open>A device with a factory image and two slots\<close>

definition ota_part :: "nat \<Rightarrow> nat \<Rightarrow> nat \<Rightarrow> nat \<Rightarrow> nat \<Rightarrow> esp_partition_t" where
  "ota_part self addr sz t st = \<lparr> p_self = self, p_flash_chip = 0, p_address = addr, p_size = sz, p_erase_size = 4096, p_type = t, p_subtype = st,
     p_label = [], p_encrypted = False, p_readonly = False \<rparr>"

definition demo_otadata :: esp_partition_t where
  "demo_otadata = (ota_part 1 8192 8192 1 0)\<lparr> p_label := [0x6F] \<rparr>"

definition demo_slot :: "nat \<Rightarrow> esp_partition_t" where
  "demo_slot k = ota_part (3 + k) (81920 + 16384 * k) 16384 0 (16 + k)"

text \<open>The table of this device, at 32768.\<close>

definition entry_bytes :: "u8 \<Rightarrow> u8 \<Rightarrow> u32 \<Rightarrow> u32 \<Rightarrow> u8 list \<Rightarrow> u8 list" where
  "entry_bytes t st off len label = [0xAA, 0x50, t, st] @ bytes_of_u32 off @ bytes_of_u32 len @ label @ replicate (16 - length label) 0 @ replicate 4 0"

definition demo_entries :: "u8 list list" where
  "demo_entries = [entry_bytes 1 0 8192 8192 [0x6F], entry_bytes 0 0 65536 16384 [], entry_bytes 0 16 81920 16384 [], entry_bytes 0 17 98304 16384 []]"

text \<open>
  The image in slot 0: two segments that are mapped, one that is loaded to memory, the checksum and
  a digest, which in the examples is the exclusive or of all bytes.
\<close>

definition demo_image_bytes :: "u8 list" where
  "demo_image_bytes =
     [0xE9, 3, 0, 0, 0, 0, 0x81, 0x40, 0xEE, 0, 0, 0, 13, 0, 0, 0, 0, 0xFF, 0xFF, 0, 0, 0, 0, 1,
      0x20, 0x40, 0, 0x42, 4, 0, 0, 0, 1, 2, 3, 4,
      0, 0, 0x81, 0x40, 8, 0, 0, 0, 5, 6, 7, 8, 9, 10, 11, 12,
      0x3C, 0x40, 1, 0x42, 4, 0, 0, 0, 13, 14, 15, 17,
      0, 0, 0, 0, 0, 0, 0, 0, 0, 0, 0, 0, 0, 0, 0, 0xFE] @ replicate 32 0xF2"

definition demo_ota_mem :: memory where
  "demo_ota_mem = (\<lambda>a. if 8192 \<le> a \<and> a < 8224 then select_bytes (demo_select 1 0) ! (a - 8192)
     else if 32768 \<le> a \<and> a < 32896 then demo_entries ! ((a - 32768) div 32) ! ((a - 32768) mod 32)
     else if 81920 \<le> a \<and> a < 82032 then demo_image_bytes ! (a - 81920) else 0xFF)"

definition demo_ota :: ota_state where
  "demo_ota = \<lparr> ps = \<lparr> chips = (\<lambda>_. demo_chip\<lparr> enc_enabled := False, flash_mem := demo_ota_mem \<rparr>),
       part_list = map (\<lambda>p. \<lparr> item_info = p, user_registered = False \<rparr>) [demo_otadata, ota_part 2 65536 16384 0 0, demo_slot 0, demo_slot 1],
       heap_next = 10, allocs = [], free_pages = [] \<rparr>,
     s_ota_ops_entries = [], s_ota_ops_last_handle = 0, curr_partition = None, secure_version_field = 0, bootloader_offset = 0,
     dangerous_write_protection = True, revoked_digests = [], restarted = False \<rparr>"

definition demo_env :: ota_env where
  "demo_env = \<lparr> cfg = demo_cfg, rollback_enable = True, anti_rollback = False, crc32_le = demo_crc, image_verify = (\<lambda>_ _ _. ESP_OK),
     cache2phys = Some 81921, sec_ver_size = 16, bootloader_offset_in_flash = 0, secure_boot_enabled = True,
     read_key_digests = (ESP_OK, [True, True, True]), verify_with_digest = (\<lambda>i _ _ _. if i = 1 then ESP_OK else ESP_FAIL), set_digest_revoke = (\<lambda>_. ESP_OK) \<rparr>"

lemmas demo_ota_defs = demo_ota_def demo_otadata_def demo_slot_def ota_part_def demo_chip_def

lemma demo_ota_ready: "ready demo_ota"
  by (simp add: ready_def demo_ota_defs)

lemma demo_ota_slots: "slot_count demo_ota = 2"
  by (simp add: slot_count_def slots_def lookup_def upt_conv_Cons demo_ota_defs)

lemma demo_ota_lookup:
  "lookup demo_ota 1 0 = Some demo_otadata" "lookup demo_ota 0 0 = Some (ota_part 2 65536 16384 0 0)"
  "lookup demo_ota 0 16 = Some (demo_slot 0)" "lookup demo_ota 0 17 = Some (demo_slot 1)"
  by (simp_all add: lookup_def demo_ota_defs)

lemma demo_ota_part: "otadata_part demo_ota demo_otadata"
  by (simp add: otadata_part_def demo_ota_lookup(1) [unfolded One_nat_def]) (simp add: part_ok_def flash_ok_def demo_ota_defs)

lemma demo_ota_healthy: "healthy demo_env demo_ota demo_otadata"
  by (simp add: healthy_def demo_ota_defs demo_env_def)

lemma erased_bytes: "bytes_of_u32 UINT32_MAX = replicate 4 0xFF"
  by code_simp

lemma demo_ota_records: "fst (otadata_of demo_ota demo_otadata) = demo_select 1 0" "ota_seq (snd (otadata_of demo_ota demo_otadata)) = UINT32_MAX"
proof -
  have v: "flash_view (chips (ps demo_ota) 0) = demo_ota_mem" by (simp add: flash_view_def demo_ota_def demo_chip_def)
  have "rd_select demo_ota_mem 8192 = demo_select 1 0"
    by (rule rd_select_bytes) (simp_all add: demo_ota_mem_def demo_select_def)
  then show "fst (otadata_of demo_ota demo_otadata) = demo_select 1 0" using v by (simp add: otadata_of_def demo_otadata_def ota_part_def)
  have "rd32 demo_ota_mem 12288 = UINT32_MAX"
    by (rule rd32_at) (simp add: demo_ota_mem_def erased_bytes)
  then show "ota_seq (snd (otadata_of demo_ota demo_otadata)) = UINT32_MAX" using v by (simp add: otadata_of_def demo_otadata_def ota_part_def rd_select_def)
qed

lemma demo_ota_valid:
  "bootloader_common_ota_select_valid demo_crc (fst (otadata_of demo_ota demo_otadata))"
  "\<not> bootloader_common_ota_select_valid demo_crc (snd (otadata_of demo_ota demo_otadata))"
  using demo_select_valid [of 1 0] demo_ota_records
  by (auto simp: bootloader_common_ota_select_valid_def bootloader_common_ota_select_invalid_def demo_select_def)

lemma demo_ota_room: "seq_room (crc32_le demo_env) (slot_count demo_ota) (otadata_of demo_ota demo_otadata)"
  using demo_ota_valid demo_ota_records(1) by (simp add: seq_room_def demo_env_def otadata_at_def demo_ota_slots demo_select_def)

theorem set_boot_partition_succeeds_witness:
  "\<exists>s1. esp_ota_set_boot_partition demo_env (Some (demo_slot 1)) demo_ota = Some (ESP_OK, s1)"
  by (rule set_boot_partition_succeeds [OF demo_ota_ready _ demo_ota_part demo_ota_healthy demo_ota_room])
     (simp_all add: demo_ota_slots, simp_all add: demo_slot_def ota_part_def demo_env_def)

lemma demo_ota_switches: "\<exists>s1. esp_ota_set_boot_partition demo_env (Some (demo_slot 1)) demo_ota = Some (ESP_OK, s1)"
proof -
  have "\<exists>s'. esp_rewrite_ota_data demo_env 17 demo_ota = Some (ESP_OK, s') \<and> healthy demo_env s' demo_otadata"
    by (rule rewrite_ota_data_live [OF demo_ota_ready _ demo_ota_part demo_ota_healthy demo_ota_room]) (simp_all add: demo_ota_slots SUB_TYPE_ID_def)
  then show ?thesis by (auto simp: esp_ota_set_boot_partition_def image_validate_def demo_slot_def ota_part_def demo_env_def)
qed

theorem set_boot_partition_takes_effect_witness:
  "\<exists>s1 s2. esp_ota_set_boot_partition demo_env (Some (demo_slot 1)) demo_ota = Some (ESP_OK, s1)
     \<and> esp_ota_get_boot_partition demo_env s1 = Some (Some (demo_slot 1), s2)"
proof -
  obtain s1 where 1: "esp_ota_set_boot_partition demo_env (Some (demo_slot 1)) demo_ota = Some (ESP_OK, s1)" using demo_ota_switches by blast
  from set_boot_partition_takes_effect [OF demo_ota_ready _ demo_ota_part demo_ota_room _ 1 healthy_working [OF demo_ota_healthy]] show ?thesis
    using demo_ota_lookup(4) 1 by (auto simp: demo_ota_slots demo_slot_def ota_part_def)
qed


lemma demo_ota_active: "bootloader_common_get_active_otadata (crc32_le demo_env) (Some (otadata_of demo_ota demo_otadata)) = 0"
  using demo_ota_valid by (simp add: active_otadata_cases demo_env_def)

text \<open>Both operations succeed on this device; any state that differs from it only by reading is as good.\<close>

lemma demo_ota_reads:
  assumes "quiet demo_ota s"
  obtains s1 s2 where "read_otadata demo_env s = Some (Some (demo_otadata, otadata_of demo_ota demo_otadata), s1)"
    and "esp_ota_get_app_partition_count demo_env s1 = Some (2, s2)" and "quiet demo_ota s2"
proof -
  have s: "ready s" "lookup s 1 0 = Some demo_otadata" "working (chips (ps s) 0)" "otadata_of s demo_otadata = otadata_of demo_ota demo_otadata"
    using assms quiet_ready quiet_lookup [OF assms] demo_ota_ready demo_ota_lookup quiet_working healthy_working [OF demo_ota_healthy] quiet_otadata by auto
  obtain s1 where 1: "read_otadata demo_env s = Some (Some (demo_otadata, otadata_of demo_ota demo_otadata), s1)" and q1: "quiet s s1"
    by (rule read_otadata_cases [OF s(1,2), of demo_env]) (use s in \<open>simp add: demo_otadata_def ota_part_def\<close>)
  note q = quiet_trans [OF assms q1]
  obtain s2 where 2: "esp_ota_get_app_partition_count demo_env s1 = Some (2, s2)" "quiet s1 s2"
    using app_partition_count [of s1 demo_env] quiet_ready [OF q] quiet_slot_count [OF q] demo_ota_ready demo_ota_slots by auto
  show ?thesis using that [OF 1 2(1)] quiet_trans [OF q 2(2)] by blast
qed

lemma demo_ota_rollback:
  assumes "quiet demo_ota s"
  shows "\<exists>s'. esp_ota_check_rollback_is_possible demo_env s = Some (True, s') \<and> quiet demo_ota s'"
proof -
  let ?d = "otadata_of demo_ota demo_otadata"
  obtain s1 s2 where r: "read_otadata demo_env s = Some (Some (demo_otadata, ?d), s1)"
    "esp_ota_get_app_partition_count demo_env s1 = Some (2, s2)" and q: "quiet demo_ota s2"
    by (rule demo_ota_reads [OF assms])
  obtain s3 where f: "find_first demo_env 0 0 s2 = Some (Some (ota_part 2 65536 16384 0 0), s3)" and q3: "quiet demo_ota s3"
    using find_first_ready [of s2 0 0 demo_env] quiet_ready [OF q] quiet_lookup [OF q] demo_ota_ready demo_ota_lookup(2) quiet_trans [OF q] by auto
  have e: "crc32_le demo_env = demo_crc" "\<not> anti_rollback demo_env" "image_verify demo_env = (\<lambda>_ _ _. ESP_OK)" by (simp_all add: demo_env_def)
  have "bootloader_common_select_otadata (Some ?d) (Some (True, False)) True = 0" by (cases ?d) (simp add: bootloader_common_select_otadata_def)
  then have "esp_ota_check_rollback_is_possible demo_env s = Some (True, s3)"
    using r f by (simp add: esp_ota_check_rollback_is_possible_def e demo_ota_valid image_validate_def)
  then show ?thesis using q3 by blast
qed

lemma demo_ota_marks: "\<exists>s'. esp_ota_current_ota_is_workable demo_env v demo_ota = Some (ESP_OK, s')"
proof -
  let ?d = "otadata_of demo_ota demo_otadata"
  obtain s1 s2 where r: "read_otadata demo_env demo_ota = Some (Some (demo_otadata, ?d), s1)"
    "esp_ota_get_app_partition_count demo_env s1 = Some (2, s2)" and q: "quiet demo_ota s2"
    by (rule demo_ota_reads [OF quiet_refl])
  obtain s3 where p: "esp_ota_check_rollback_is_possible demo_env s2 = Some (True, s3)" and q3: "quiet demo_ota s3"
    using demo_ota_rollback [OF q] by blast
  have w: "\<exists>s'. rewrite_ota_seq demo_env (Some (set_state ?d 0 st)) x 0 demo_otadata s = Some (ESP_OK, s')" if "quiet demo_ota s" for s st x
    using rewrite_ota_seq_live [of s demo_otadata demo_env 0 "set_state ?d 0 st" x] quiet_otadata_part [OF that] quiet_healthy [OF that]
      demo_ota_part demo_ota_healthy by (auto simp: set_state_def otadata_at_def otadata_of_def rd_select_def)
  have "ota_state (fst ?d) \<noteq> 2" "\<not> anti_rollback demo_env" using demo_ota_records(1) by (simp_all add: demo_select_def demo_env_def)
  then show ?thesis using r p w [OF q] w [OF q3] demo_ota_active
    by (cases v) (auto simp: esp_ota_current_ota_is_workable_def otadata_at_def)
qed

theorem mark_valid_keeps_boot_partition_witness:
  "\<exists>s'. esp_ota_mark_app_valid_cancel_rollback demo_env demo_ota = Some (ESP_OK, s') \<and> ota_state (fst (otadata_of s' demo_otadata)) = ESP_OTA_IMG_VALID
     \<and> flash_mem (chips (ps s') 0) (p_address demo_otadata + 4096) = flash_mem (chips (ps demo_ota) 0) (p_address demo_otadata + 4096)"
proof -
  obtain s' where 1: "esp_ota_mark_app_valid_cancel_rollback demo_env demo_ota = Some (ESP_OK, s')"
    using demo_ota_marks by (auto simp: esp_ota_mark_app_valid_cancel_rollback_def)
  have c: "confined A B (chips (ps demo_ota) 0)" "\<forall>a b. length b = 16 \<longrightarrow> length (xts_enc (chips (ps demo_ota) 0) a b) = 16" for A B
    by (simp_all add: confined_def demo_ota_defs)
  from mark_valid_keeps_boot_partition [OF demo_ota_ready _ demo_ota_part 1] show ?thesis
    using 1 c by (simp add: demo_ota_slots demo_ota_active Let_def set_state_def)
qed

theorem rollback_boots_verified_image_witness:
  "\<exists>s' s2. esp_ota_mark_app_invalid_rollback demo_env demo_ota = Some (ESP_OK, s') \<and> (\<exists>q. esp_ota_get_boot_partition demo_env s' = Some (Some q, s2))"
proof -
  obtain s' where 1: "esp_ota_mark_app_invalid_rollback demo_env demo_ota = Some (ESP_OK, s')"
    using demo_ota_marks by (auto simp: esp_ota_mark_app_invalid_rollback_def)
  from rollback_boots_verified_image [OF demo_ota_ready _ demo_ota_part 1 healthy_working [OF demo_ota_healthy]] show ?thesis
    using 1 by (auto simp: demo_ota_slots Let_def)
qed



theorem next_update_partition_round_robin_witness:
  "\<exists>s'. esp_ota_get_next_update_partition demo_env None demo_ota = Some (Some (demo_slot 1), s')"
proof -
  have xs: "ota_parts demo_ota = [demo_slot 0, demo_slot 1]"
    by (simp add: ota_parts_def lookup_def upt_conv_Cons map_filter_simps demo_ota_defs)
  obtain s0 where run: "esp_ota_get_running_partition demo_env demo_ota = Some (demo_slot 0, s0)"
    using find_loaded [of "ps demo_ota" demo_cfg 0 "0xFF" None]
    by (auto simp: esp_ota_get_running_partition_def part_call_def demo_env_def demo_ota_defs esp_partition_next_def it_matches_def add32_def)
  have "distinct (map p_self (ota_parts demo_ota))" by (simp add: xs demo_slot_def ota_part_def)
  from next_update_partition_round_robin [OF demo_ota_ready this, of None demo_env "demo_slot 0" s0] run obtain r s' where
    n: "esp_ota_get_next_update_partition demo_env None demo_ota = Some (r, s')"
    and i: "\<forall>i < length (ota_parts demo_ota). p_self (ota_parts demo_ota ! i) = p_self (demo_slot 0) \<longrightarrow>
      r = Some (ota_parts demo_ota ! ((i + 1) mod length (ota_parts demo_ota)))" by auto
  show ?thesis using n i [rule_format, of 0] by (simp add: xs)
qed

section \<open>An update of the second slot\<close>

lemma demo_running: "\<exists>s0. esp_ota_get_running_partition demo_env demo_ota = Some (demo_slot 0, s0)"
  using find_loaded [of "ps demo_ota" demo_cfg 0 "0xFF" None]
  by (auto simp: esp_ota_get_running_partition_def part_call_def demo_env_def demo_ota_defs esp_partition_next_def it_matches_def add32_def)

definition plain_env :: ota_env where
  "plain_env = demo_env\<lparr> rollback_enable := False \<rparr>"

lemma demo_slot_ok: "part_ok (demo_slot 1) (ps demo_ota)"
  by (simp add: part_ok_def flash_ok_def demo_ota_defs)

theorem begin_opens_stream_witness:
  "\<exists>s'. esp_ota_begin plain_env (Some (demo_slot 1)) 100 True demo_ota = Some ((ESP_OK, Some 1), s')
     \<and> stream 1 (demo_slot 1) (demo_slot 1) False False 4096 s' [] \<and> part_blank (demo_slot 1) (ps s') (p_address (demo_slot 1) + 99)"
proof -
  have v: "esp_partition_verify (cfg plain_env) (demo_slot 1) (ps demo_ota) = (Some (demo_slot 1), (ps demo_ota)\<lparr> heap_next := 11 \<rparr>)"
    using find_loaded [of "ps demo_ota" demo_cfg 0 17 None]
    by (simp add: esp_partition_verify_def demo_env_def plain_env_def demo_ota_defs esp_partition_next_def it_matches_def)
  have sz: "align_up (p_erase_size (demo_slot 1)) 100 = 4096" "p_erase_size (demo_slot 1) = 4096" by (simp_all add: align_up_def demo_slot_def ota_part_def)
  obtain s' where b: "esp_ota_begin plain_env (Some (demo_slot 1)) 100 True demo_ota = Some ((ESP_OK, Some 1), s')"
  proof -
    let ?s1 = "demo_ota\<lparr> ps := (ps demo_ota)\<lparr> heap_next := 11 \<rparr> \<rparr>"
    have "\<exists>s0. esp_ota_get_running_partition plain_env ?s1 = Some (demo_slot 0, s0) \<and> allocs (ps s0) = [] \<and> s_ota_ops_last_handle s0 = 0 \<and> chips (ps s0) = chips (ps demo_ota)"
      using find_loaded [of "ps ?s1" demo_cfg 0 "0xFF" None]
      by (auto simp: esp_ota_get_running_partition_def part_call_def demo_env_def plain_env_def demo_ota_defs esp_partition_next_def it_matches_def add32_def)
    then obtain s0 where r: "esp_ota_get_running_partition plain_env ?s1 = Some (demo_slot 0, s0)" "allocs (ps s0) = []" "s_ota_ops_last_handle s0 = 0"
      "chips (ps s0) = chips (ps demo_ota)" by blast
    have "is_ota_partition (Some (demo_slot 1))" "p_type (demo_slot 1) = 0" "p_self (demo_slot 1) \<noteq> p_self (demo_slot 0)"
      by (simp_all add: is_ota_partition_def demo_slot_def ota_part_def)
    moreover have "\<not> rollback_enable plain_env" by (simp add: plain_env_def)
    moreover have "part_call (esp_partition_verify (cfg plain_env) (demo_slot 1)) demo_ota = Some (Some (demo_slot 1), ?s1)" using v by (simp add: part_call_def)
    moreover define F where "F = (chips (ps demo_ota) 0)\<lparr> flash_mem := erase_mem (p_address (demo_slot 1)) 4096 (flash_mem (chips (ps demo_ota) 0)) \<rparr>"
    have "part_call (esp_partition_erase_range (demo_slot 1) 0 4096) t = Some (ESP_OK, t\<lparr> ps := (ps t)\<lparr> chips := (chips (ps t))(0 := F) \<rparr> \<rparr>)"
      if "chips (ps t) = chips (ps demo_ota)" for t
    proof -
      have "esp_flash_erase_region (chips (ps demo_ota) 0) (p_address (demo_slot 1)) 4096 = (ESP_OK, F)"
        unfolding F_def by (rule erase_region_live) (simp_all add: demo_ota_defs)
      moreover have "p_flash_chip (demo_slot 1) = 0" "4096 \<le> p_size (demo_slot 1)" "\<not> p_readonly (demo_slot 1)" "add32 (p_address (demo_slot 1)) 0 = p_address (demo_slot 1)"
        by (simp_all add: demo_slot_def ota_part_def add32_def)
      ultimately show ?thesis using that sz(2) by (simp add: part_call_def esp_partition_erase_range_def on_chip_def)
    qed
    ultimately have "\<exists>s'. esp_ota_begin plain_env (Some (demo_slot 1)) 100 True demo_ota = Some ((ESP_OK, Some 1), s')"
      using r sz unfolding One_nat_def
      by (auto simp: esp_ota_begin_def esp_ota_init_entry_def part_call_def [of heap_alloc] heap_alloc_def add32_def Let_def)
    then show ?thesis using that by blast
  qed
  have "\<not> enc_enabled (chips (ps demo_ota) 0)" by (simp add: demo_ota_def)
  then show ?thesis
    using begin_opens_stream [OF demo_ota_ready _ b _ demo_slot_ok] v b sz by (auto simp: demo_ota_slots plain_env_def erased_size_def)
qed

text \<open>A handle for the second slot, which is blank.\<close>

definition demo_upd :: ota_state where
  "demo_upd = demo_ota\<lparr> s_ota_ops_entries := [\<lparr> e_handle = 1, e_staging = demo_slot 1, e_final = demo_slot 1, e_finalize_with_copy = False, e_need_erase = False,
     e_wrote_size = 0, e_partial_bytes = 0, e_ota_resumption = False, e_partial_data = replicate 16 0 \<rparr>] \<rparr>"

lemma demo_upd_stream: "stream 1 (demo_slot 1) (demo_slot 1) False False 4096 demo_upd []"
  using demo_slot_ok
  by (simp add: stream_def demo_upd_def get_ota_ops_entry_def written_def part_blank_def flash_erased_def)
     (simp add: demo_ota_defs demo_ota_mem_def)

lemma demo_slot_write:
  assumes "chips q 0 = demo_chip\<lparr> enc_enabled := False, flash_mem := m \<rparr>" and "off + length bs \<le> 16384"
  shows "esp_partition_write c (demo_slot 1) d off bs q = (ESP_OK, q\<lparr> chips := (chips q)(0 := demo_chip\<lparr> enc_enabled := False, flash_mem := program_mem (98304 + off) bs m \<rparr>) \<rparr>)"
proof -
  have "esp_flash_write (chips q 0) d bs (98304 + off) = (ESP_OK, (chips q 0)\<lparr> flash_mem := program_mem (98304 + off) bs (flash_mem (chips q 0)) \<rparr>)"
    using assms by (intro write_live) (auto simp: demo_chip_def)
  then show ?thesis using assms by (simp add: esp_partition_write_def on_chip_def demo_slot_def ota_part_def add32_def)
qed

theorem ota_image_arrives_witness:
  "\<exists>s1 s2. ota_writes demo_env 1 [([0xE9, 1], True), ([2], False)] demo_upd = Some (ESP_OK, s1) \<and> esp_ota_end demo_env 1 s1 = Some (ESP_OK, s2)
     \<and> part_view (demo_slot 1) (ps s2) 98306 = 2"
proof -
  let ?e0 = "hd (s_ota_ops_entries demo_upd)"
  let ?m1 = "program_mem 98304 [0xE9, 1] demo_ota_mem" let ?m2 = "program_mem 98306 [2] ?m1"
  let ?q = "\<lambda>m. (ps demo_ota)\<lparr> chips := (chips (ps demo_ota))(0 := demo_chip\<lparr> enc_enabled := False, flash_mem := m \<rparr>) \<rparr>"
  let ?s = "\<lambda>m n. demo_upd\<lparr> ps := ?q m, s_ota_ops_entries := [?e0\<lparr> e_wrote_size := n \<rparr>] \<rparr>"
  have 1: "esp_ota_write demo_env 1 (Some [0xE9, 1]) True demo_upd = Some (ESP_OK, ?s ?m1 2)"
  proof -
    have c: "chips (ps demo_ota) 0 = demo_chip\<lparr> enc_enabled := False, flash_mem := demo_ota_mem \<rparr>" "p_type (demo_slot 1) = 0"
      by (simp_all add: demo_ota_def demo_slot_def ota_part_def)
    then show ?thesis using demo_slot_write [of "ps demo_ota" demo_ota_mem 0 "[0xE9, 1]" "cfg demo_env" True]
      by (simp add: esp_ota_write_def demo_upd_def get_ota_ops_entry_def first_bytes_ok_def part_call_def set_entry_def add32_def)
  qed
  have 2: "esp_ota_write demo_env 1 (Some [2]) False (?s ?m1 2) = Some (ESP_OK, ?s ?m2 3)"
    using demo_slot_write [of "?q ?m1" ?m1 2 "[2]" "cfg demo_env" False]
    by (simp add: esp_ota_write_def demo_upd_def get_ota_ops_entry_def part_call_def set_entry_def add32_def)
  have 3: "\<exists>s2. esp_ota_end demo_env 1 (?s ?m2 3) = Some (ESP_OK, s2)"
    by (simp add: esp_ota_end_def ota_finish_def demo_upd_def get_ota_ops_entry_def ota_verify_partition_def image_validate_def)
       (simp add: demo_slot_def ota_part_def demo_env_def)
  have w: "ota_writes demo_env 1 [([0xE9, 1], True), ([2], False)] demo_upd = Some (ESP_OK, ?s ?m2 3)" by (simp add: 1 [unfolded One_nat_def] 2 [unfolded One_nat_def])
  obtain s2 where e: "esp_ota_end demo_env 1 (?s ?m2 3) = Some (ESP_OK, s2)" using 3 by blast
  have "part_view (demo_slot 1) (ps s2) (p_address (demo_slot 1) + 2) = 2"
    using ota_image_arrives [OF demo_upd_stream w e] by auto
  then show ?thesis using w e by (auto simp: demo_slot_def ota_part_def)
qed

theorem key_revocation_is_safe_witness:
  "\<exists>s'. esp_ota_revoke_secure_boot_public_key plain_env 0 demo_ota = Some (ESP_OK, s') \<and> revoked_digests s' = [0]"
proof -
  obtain s0 where r: "esp_ota_get_running_partition plain_env demo_ota = Some (demo_slot 0, s0)" "revoked_digests s0 = []"
    using find_loaded [of "ps demo_ota" demo_cfg 0 "0xFF" None]
    by (auto simp: esp_ota_get_running_partition_def part_call_def demo_env_def plain_env_def demo_ota_defs esp_partition_next_def it_matches_def add32_def)
  then have k: "esp_ota_revoke_secure_boot_public_key plain_env 0 demo_ota = Some (ESP_OK, s0\<lparr> revoked_digests := [0] \<rparr>)"
    by (auto simp: esp_ota_revoke_secure_boot_public_key_def validate_img_def plain_env_def demo_env_def)
  have "revoked_digests demo_ota = []" by (simp add: demo_ota_def)
  then show ?thesis using key_revocation_is_safe [OF k] k by auto
qed

end
