(* ===== verification/Boot_Flash.thy ===== *)
theory Boot_Flash
  imports Flash_Store
begin

text \<open>
  Flash access in the second stage bootloader
  (\<^verbatim>\<open>bootloader_support/bootloader_flash/src/bootloader_flash.c\<close>, the part of the bootloader
  build): mapping, reading, writing and erasing through the ROM routines.

  \<^item> The chip is the same record as in the driver API, so that an image written by the
    application is what the next boot finds. The outcomes of the ROM calls are its list
    \<open>drv_results\<close>.
  \<^item> There is one mapping at a time; the static variable \<^verbatim>\<open>mapped\<close> guards it. A mapped pointer
    is the flash address it shows, read through \<open>flash_view\<close>.
  \<^item> The size of the window and the validity of a range of virtual addresses, given by the HAL
    of the target, are the fields of \<open>mmu_env\<close>.
\<close>

section \<open>State\<close>

record bl_flash_state =
  bl_chip :: flash
  mapped :: bool

record mmu_env =
  mmap_mmu_size :: nat
  mmu_page_size :: nat
  vaddr_region_valid :: "nat \<Rightarrow> bool"
  encryption_is_virtual :: bool

abbreviation (input) FLASH_SECTOR_SIZE :: nat where "FLASH_SECTOR_SIZE \<equiv> 4096"
abbreviation (input) SECTORS_PER_BLOCK :: nat where "SECTORS_PER_BLOCK \<equiv> 16"

section \<open>Calls into the ROM\<close>

datatype esp_rom_spiflash_result_t = SPIFLASH_RESULT_OK | SPIFLASH_RESULT_ERR | SPIFLASH_RESULT_TIMEOUT

definition rom_result :: "esp_err \<Rightarrow> esp_rom_spiflash_result_t" where
  "rom_result e = (if e = ESP_OK then SPIFLASH_RESULT_OK
     else if e = ESP_ERR_FLASH_OP_TIMEOUT then SPIFLASH_RESULT_TIMEOUT else SPIFLASH_RESULT_ERR)"

definition rom_op :: "(memory \<Rightarrow> memory) \<Rightarrow> 'a bl_flash_state_scheme \<Rightarrow> esp_rom_spiflash_result_t \<times> 'a bl_flash_state_scheme" where
  "rom_op op s = (case drv_op op (bl_chip s) of (e, f) \<Rightarrow> (rom_result e, s\<lparr> bl_chip := f \<rparr>))"

definition rom_status :: "'a bl_flash_state_scheme \<Rightarrow> esp_err \<times> 'a bl_flash_state_scheme" where
  "rom_status s = (case drv_status (bl_chip s) of (e, f) \<Rightarrow> (e, s\<lparr> bl_chip := f \<rparr>))"

definition spi_to_esp_err :: "esp_rom_spiflash_result_t \<Rightarrow> esp_err" where
  "spi_to_esp_err r = (case r of SPIFLASH_RESULT_OK \<Rightarrow> ESP_OK | SPIFLASH_RESULT_ERR \<Rightarrow> ESP_ERR_FLASH_OP_FAIL
     | SPIFLASH_RESULT_TIMEOUT \<Rightarrow> ESP_ERR_FLASH_OP_TIMEOUT)"

section \<open>Mapping\<close>

definition bootloader_mmap_get_free_pages :: "'e mmu_env_scheme \<Rightarrow> nat" where
  "bootloader_mmap_get_free_pages env = mmap_mmu_size env div mmu_page_size env"

definition bootloader_mmap :: "'e mmu_env_scheme \<Rightarrow> nat \<Rightarrow> nat \<Rightarrow> 'a bl_flash_state_scheme \<Rightarrow> nat option \<times> 'a bl_flash_state_scheme" where
  "bootloader_mmap env src_paddr len s =
     (if mapped s then (None, s)
      else if len > mmap_mmu_size env then (None, s)
      else
        let src_paddr_aligned = src_paddr - src_paddr mod mmu_page_size env in
        if \<not> vaddr_region_valid env (add32 (src_paddr - src_paddr_aligned) len) then (None, s)
        else (Some src_paddr, s\<lparr> mapped := True \<rparr>))"

definition bootloader_munmap :: "'a bl_flash_state_scheme \<Rightarrow> 'a bl_flash_state_scheme" where
  "bootloader_munmap s = (if mapped s then s\<lparr> mapped := False \<rparr> else s)"

lemma mmap_cases:
  "bootloader_mmap env a n s = (None, s) \<or> \<not> mapped s \<and> bootloader_mmap env a n s = (Some a, s\<lparr> mapped := True \<rparr>)"
  by (simp add: bootloader_mmap_def Let_def)

text \<open>The window has at least two pages, and every range that fits into it is valid.\<close>

definition window_ok :: "'e mmu_env_scheme \<Rightarrow> bool" where
  "window_ok env \<longleftrightarrow> 0 < mmu_page_size env \<and> 2 * mmu_page_size env \<le> mmap_mmu_size env \<and> mmap_mmu_size env < 2 ^ 32
     \<and> (\<forall>n \<le> mmap_mmu_size env. vaddr_region_valid env n)"

lemma mmap_in_window:
  assumes "window_ok env" and "\<not> mapped s" and "a mod mmu_page_size env + n \<le> mmap_mmu_size env"
  shows "bootloader_mmap env a n s = (Some a, s\<lparr> mapped := True \<rparr>)"
proof -
  have "a - (a - a mod mmu_page_size env) = a mod mmu_page_size env" by (metis diff_diff_cancel mod_less_eq_dividend)
  moreover have "add32 (a mod mmu_page_size env) n = a mod mmu_page_size env + n" using assms(1,3) by (intro add32_exact) (simp add: window_ok_def)
  ultimately show ?thesis using assms by (simp add: bootloader_mmap_def window_ok_def Let_def)
qed

section \<open>Reading\<close>

text \<open>Decrypted reads go word by word through a window of one MMU page.\<close>

definition bootloader_flash_read_allow_decrypt :: "nat \<Rightarrow> nat \<Rightarrow> 'a bl_flash_state_scheme \<Rightarrow> (esp_err \<times> u8 list) \<times> 'a bl_flash_state_scheme" where
  "bootloader_flash_read_allow_decrypt src_addr len s =
     ((ESP_OK, concat (map (\<lambda>word. rd_bytes (flash_view (bl_chip s)) (add32 src_addr (word * 4)) 4) [0..<len div 4])), s)"

definition bootloader_flash_read_no_decrypt :: "nat \<Rightarrow> nat \<Rightarrow> 'a bl_flash_state_scheme \<Rightarrow> (esp_err \<times> u8 list) \<times> 'a bl_flash_state_scheme" where
  "bootloader_flash_read_no_decrypt src_addr len s =
     (case rom_op (\<lambda>m. m) s of (r, s1) \<Rightarrow> ((spi_to_esp_err r, rd_bytes (flash_mem (bl_chip s1)) src_addr len), s1))"

definition bootloader_flash_read :: "nat \<Rightarrow> nat \<Rightarrow> bool \<Rightarrow> bool \<Rightarrow> 'a bl_flash_state_scheme \<Rightarrow> (esp_err \<times> u8 list) \<times> 'a bl_flash_state_scheme" where
  "bootloader_flash_read src_addr len dest_aligned allow_decrypt s =
     (if src_addr mod 4 \<noteq> 0 \<or> len mod 4 \<noteq> 0 \<or> \<not> dest_aligned then ((ESP_FAIL, []), s)
      else if allow_decrypt then bootloader_flash_read_allow_decrypt src_addr len s
      else bootloader_flash_read_no_decrypt src_addr len s)"

section \<open>Writing and erasing\<close>

definition bootloader_flash_write :: "'e mmu_env_scheme \<Rightarrow> nat \<Rightarrow> u8 list \<Rightarrow> bool \<Rightarrow> bool \<Rightarrow> 'a bl_flash_state_scheme \<Rightarrow> esp_err \<times> 'a bl_flash_state_scheme" where
  "bootloader_flash_write env dest_addr src src_aligned write_encrypted s =
     (let alignment = (if write_encrypted then 32 else 4) in
      if dest_addr mod alignment \<noteq> 0 then (ESP_FAIL, s)
      else if length src mod alignment \<noteq> 0 then (ESP_FAIL, s)
      else if \<not> src_aligned then (ESP_FAIL, s)
      else case rom_status s of (err, s1) \<Rightarrow>
        if err \<noteq> ESP_OK then (err, s1)
        else case rom_op (if write_encrypted \<and> \<not> encryption_is_virtual env
                          then program_mem dest_addr (xts_cipher (xts_enc (bl_chip s)) dest_addr src)
                          else program_mem dest_addr src) s1 of
               (rc, s2) \<Rightarrow> (spi_to_esp_err rc, s2))"

definition bootloader_flash_erase_sector :: "nat \<Rightarrow> 'a bl_flash_state_scheme \<Rightarrow> esp_err \<times> 'a bl_flash_state_scheme" where
  "bootloader_flash_erase_sector sector s =
     (case rom_op (erase_mem (sector * FLASH_SECTOR_SIZE) FLASH_SECTOR_SIZE) s of (rc, s1) \<Rightarrow> (spi_to_esp_err rc, s1))"

text \<open>The loop runs until \<^verbatim>\<open>sector == end\<close>, which it does not pass.\<close>

function erase_sectors :: "nat \<Rightarrow> nat \<Rightarrow> 'a bl_flash_state_scheme \<Rightarrow> esp_rom_spiflash_result_t \<times> 'a bl_flash_state_scheme" where
  "erase_sectors sector sec_end s =
     (if sector \<ge> sec_end then (SPIFLASH_RESULT_OK, s)
      else
        let blk = (sector mod SECTORS_PER_BLOCK = 0 \<and> sec_end - sector \<ge> SECTORS_PER_BLOCK);
            n = (if blk then SECTORS_PER_BLOCK else 1)
        in case rom_op (erase_mem (sector * FLASH_SECTOR_SIZE) (n * FLASH_SECTOR_SIZE)) s of (rc, s1) \<Rightarrow>
             if rc \<noteq> SPIFLASH_RESULT_OK then (rc, s1) else erase_sectors (sector + n) sec_end s1)"
  by pat_completeness auto
termination
  by (relation "measure (\<lambda>(a, b, s). b - a)") (auto simp: Let_def split: if_splits)

declare erase_sectors.simps [simp del]

definition bootloader_flash_erase_range :: "nat \<Rightarrow> nat \<Rightarrow> 'a bl_flash_state_scheme \<Rightarrow> esp_err \<times> 'a bl_flash_state_scheme" where
  "bootloader_flash_erase_range start_addr len s =
     (if start_addr mod FLASH_SECTOR_SIZE \<noteq> 0 then (ESP_ERR_INVALID_ARG, s)
      else if len mod FLASH_SECTOR_SIZE \<noteq> 0 then (ESP_ERR_INVALID_SIZE, s)
      else
        let start = start_addr div FLASH_SECTOR_SIZE in
        case erase_sectors start (start + len div FLASH_SECTOR_SIZE) s of (rc, s1) \<Rightarrow> (spi_to_esp_err rc, s1))"

section \<open>The store interface\<close>

definition bl_later :: "'a bl_flash_state_scheme \<Rightarrow> memory \<Rightarrow> 'a bl_flash_state_scheme \<Rightarrow> bool" where
  "bl_later s m s' \<longleftrightarrow> s' = s\<lparr> bl_chip := bl_chip s' \<rparr> \<and> later (bl_chip s) m (bl_chip s')"

lemma bl_later_refl [simp]: "bl_later s (flash_mem (bl_chip s)) s"
  by (simp add: bl_later_def)

lemma bl_later_upd: "later (bl_chip s) m f \<Longrightarrow> bl_later s m (s\<lparr> bl_chip := f \<rparr>)"
  by (simp add: bl_later_def)

lemma bl_later_trans: "bl_later s m s1 \<Longrightarrow> bl_later s1 m' s2 \<Longrightarrow> bl_later s m' s2"
  unfolding bl_later_def using later_trans by (metis bl_flash_state.surjective bl_flash_state.update_convs(1))

lemma spi_ok [simp]: "spi_to_esp_err r = ESP_OK \<longleftrightarrow> r = SPIFLASH_RESULT_OK"
  by (cases r) (simp_all add: spi_to_esp_err_def)

lemma rom_op_ok: "rom_op op s = (SPIFLASH_RESULT_OK, s') \<Longrightarrow> bl_later s (op (flash_mem (bl_chip s))) s'"
  by (auto simp: rom_op_def rom_result_def split: prod.splits if_splits intro!: bl_later_upd later_op)

lemma rom_status_later: "rom_status s = (e, s') \<Longrightarrow> bl_later s (flash_mem (bl_chip s)) s'"
  by (auto simp: rom_status_def split: prod.splits intro!: bl_later_upd later_status)

lemma erase_sectors_ok:
  "erase_sectors a b s = (SPIFLASH_RESULT_OK, s') \<Longrightarrow> bl_later s (erase_mem (a * 4096) ((b - a) * 4096) (flash_mem (bl_chip s))) s'"
proof (induction a b s rule: erase_sectors.induct)
  case (1 a b s)
  show ?case
  proof (cases "a \<ge> b")
    case True
    then show ?thesis using 1(2) by (auto simp: erase_sectors.simps [of a b s])
  next
    case False
    let ?blk = "a mod 16 = 0 \<and> b - a \<ge> 16"
    let ?n = "if ?blk then 16 else 1 :: nat"
    obtain s1 where r: "rom_op (erase_mem (a * 4096) (?n * 4096)) s = (SPIFLASH_RESULT_OK, s1)"
      and t: "erase_sectors (a + ?n) b s1 = (SPIFLASH_RESULT_OK, s')"
      using 1(2) False unfolding erase_sectors.simps [of a b s] Let_def by (auto split: prod.splits if_splits)
    have n: "a + ?n \<le> b" using False by auto
    note l1 = rom_op_ok [OF r]
    have l2: "bl_later s1 (erase_mem ((a + ?n) * 4096) ((b - (a + ?n)) * 4096) (flash_mem (bl_chip s1))) s'"
      using "1.IH" [OF False refl refl r [symmetric]] t by simp
    have "flash_mem (bl_chip s1) = erase_mem (a * 4096) (?n * 4096) (flash_mem (bl_chip s))"
      using l1 by (simp add: bl_later_def later_def)
    moreover have "erase_mem ((a + ?n) * 4096) ((b - (a + ?n)) * 4096) (erase_mem (a * 4096) (?n * 4096) m)
        = erase_mem (a * 4096) ((b - a) * 4096) m" for m
    proof -
      have "(a + ?n) * 4096 = a * 4096 + ?n * 4096" by simp
      moreover have "?n * 4096 + (b - (a + ?n)) * 4096 = (b - a) * 4096" using n by (simp add: algebra_simps split: if_splits)
      ultimately show ?thesis using erase_mem_append [of "a * 4096" "?n * 4096" "(b - (a + ?n)) * 4096" m] by metis
    qed
    ultimately show ?thesis using bl_later_trans [OF l1 l2] by simp
  qed
qed

lemma bl_erase_ok:
  assumes "bootloader_flash_erase_range a n s = (ESP_OK, s')"
  shows "bl_later s (erase_mem a n (flash_mem (bl_chip s))) s'" and "4096 dvd a" and "4096 dvd n"
proof -
  show d: "4096 dvd a" "4096 dvd n"
    using assms by (auto simp: bootloader_flash_erase_range_def dvd_eq_mod_eq_0 split: if_splits)
  have "erase_sectors (a div 4096) (a div 4096 + n div 4096) s = (SPIFLASH_RESULT_OK, s')"
    using assms by (auto simp: bootloader_flash_erase_range_def Let_def split: if_splits prod.splits)
  from erase_sectors_ok [OF this] show "bl_later s (erase_mem a n (flash_mem (bl_chip s))) s'"
    using d by (simp add: dvd_div_mult_self)
qed

text \<open>What is programmed when \<^verbatim>\<open>write_encrypted\<close> is the state of flash encryption.\<close>

definition cell_bytes :: "flash \<Rightarrow> nat \<Rightarrow> u8 list \<Rightarrow> u8 list" where
  "cell_bytes f a bs = (if enc_enabled f then xts_cipher (xts_enc f) a bs else bs)"

definition bl_ok :: "'e mmu_env_scheme \<Rightarrow> 'a bl_flash_state_scheme \<Rightarrow> bool" where
  "bl_ok env s \<longleftrightarrow> (enc_enabled (bl_chip s) \<longrightarrow> cipher_ok (bl_chip s) \<and> \<not> encryption_is_virtual env)"

lemma bl_write_ok:
  assumes "bootloader_flash_write env a bs al (enc_enabled (bl_chip s)) s = (ESP_OK, s')" and "bl_ok env s"
  shows "bl_later s (program_mem a (cell_bytes (bl_chip s) a bs) (flash_mem (bl_chip s))) s'"
    and "enc_enabled (bl_chip s) \<Longrightarrow> a mod 16 = 0 \<and> 16 dvd length bs"
proof -
  obtain s1 where st: "rom_status s = (ESP_OK, s1)"
    and op: "rom_op (program_mem a (cell_bytes (bl_chip s) a bs)) s1 = (SPIFLASH_RESULT_OK, s')"
    using assms by (auto simp: bootloader_flash_write_def cell_bytes_def bl_ok_def Let_def split: if_splits prod.splits)
  note l1 = rom_status_later [OF st]
  have "flash_mem (bl_chip s1) = flash_mem (bl_chip s)" using l1 by (simp add: bl_later_def later_def)
  then show "bl_later s (program_mem a (cell_bytes (bl_chip s) a bs) (flash_mem (bl_chip s))) s'"
    using bl_later_trans [OF l1 rom_op_ok [OF op]] by simp
  assume "enc_enabled (bl_chip s)"
  then have "a mod 32 = 0" "length bs mod 32 = 0"
    using assms(1) by (auto simp: bootloader_flash_write_def Let_def split: if_splits)
  then show "a mod 16 = 0 \<and> 16 dvd length bs" by presburger
qed


definition bl_view :: "'a bl_flash_state_scheme \<Rightarrow> memory" where
  "bl_view s = flash_view (bl_chip s)"

definition bl_blank :: "'a bl_flash_state_scheme \<Rightarrow> nat \<Rightarrow> bool" where
  "bl_blank s a \<longleftrightarrow> flash_erased (bl_chip s) a"

lemma bl_later_ok: "bl_later s m s' \<Longrightarrow> bl_ok env s' = bl_ok env s"
  using chip_cfg_sel [of "bl_chip s'" "bl_chip s"] by (simp add: bl_later_def later_def bl_ok_def cipher_ok_def)

lemma cell_bytes_length:
  "bl_ok env s \<Longrightarrow> (enc_enabled (bl_chip s) \<Longrightarrow> 16 dvd length bs) \<Longrightarrow> length (cell_bytes (bl_chip s) a bs) = length bs"
  using xts_cipher_length [of "xts_enc (bl_chip s)" bs a] by (auto simp: cell_bytes_def bl_ok_def cipher_ok_def)

text \<open>Changes inside an aligned range are not seen outside it.\<close>

lemma bl_view_frame:
  assumes "bl_later s m s'" and "\<And>x. x < a \<or> a + n \<le> x \<Longrightarrow> m x = flash_mem (bl_chip s) x"
    and "enc_enabled (bl_chip s) \<Longrightarrow> a mod 16 = 0 \<and> n mod 16 = 0" and "x < a \<or> a + n \<le> x"
  shows "bl_view s' x = bl_view s x \<and> bl_blank s' x = bl_blank s x"
proof -
  have l: "flash_mem (bl_chip s') = m" "chip_cfg (bl_chip s') = chip_cfg (bl_chip s)" using assms(1) by (auto simp: bl_later_def later_def)
  have m: "flash_mem (bl_chip s') x = flash_mem (bl_chip s) x" if "x < a \<or> a + n \<le> x" for x using assms(2) [OF that] l(1) by simp
  have "flash_view (bl_chip s') x = flash_view (bl_chip s) x"
  proof (cases "enc_enabled (bl_chip s)")
    case True
    then show ?thesis using assms(3) [OF True] assms(4) m l(2) by (intro view_outside [of a n]) auto
  next
    case False
    then have "\<not> enc_enabled (bl_chip s')" using chip_cfg_sel(4) [OF l(2)] by simp
    then show ?thesis using False m [OF assms(4)] by (simp add: flash_view_def)
  qed
  then show ?thesis using m [OF assms(4)] by (simp add: bl_view_def bl_blank_def flash_erased_def)
qed

lemma bl_write_view:
  assumes ok: "bl_ok env s" and l: "bl_later s (program_mem a (cell_bytes (bl_chip s) a bs) (flash_mem (bl_chip s))) s'"
    and al: "enc_enabled (bl_chip s) \<Longrightarrow> a mod 16 = 0 \<and> 16 dvd length bs"
    and bl: "\<And>x. a \<le> x \<Longrightarrow> x < a + length bs \<Longrightarrow> bl_blank s x" and i: "i < length bs"
  shows "bl_view s' (a + i) = bs ! i"
proof (cases "enc_enabled (bl_chip s)")
  case True
  have er: "erased (flash_mem (bl_chip s)) a (length bs)" using bl by (auto simp: erased_def bl_blank_def flash_erased_def)
  have "rd_bytes (flash_view (bl_chip s')) a (length bs) = bs"
    using view_encrypted [OF _ True _ _ er] ok True al l by (auto simp: bl_ok_def bl_later_def cell_bytes_def)
  then show ?thesis using nth_map_upt [of i "a + length bs" a "flash_view (bl_chip s')"] i by (simp add: rd_bytes_def bl_view_def)
next
  case False
  have er: "erased (flash_mem (bl_chip s)) a (length bs)" using bl by (auto simp: erased_def bl_blank_def flash_erased_def)
  have "flash_mem (bl_chip s') = wr_bytes (flash_mem (bl_chip s)) a bs" "\<not> enc_enabled (bl_chip s')"
    using program_erased [OF er] l False chip_cfg_sel(4) [of "bl_chip s'" "bl_chip s"] by (auto simp: bl_later_def later_def cell_bytes_def)
  then show ?thesis using i by (simp add: bl_view_def flash_view_def wr_bytes_def)
qed

lemma rd_words:
  "a + 4 * k < 2 ^ 32 \<Longrightarrow> concat (map (\<lambda>w. rd_bytes m (add32 a (w * 4)) 4) [0..<k]) = rd_bytes m a (4 * k)"
proof (induction k)
  case (Suc k)
  have w: "add32 a (k * 4) = a + 4 * k" using Suc.prems by (simp add: add32_exact algebra_simps)
  have u: "[a..<a + 4 * Suc k] = [a..<a + 4 * k] @ [a + 4 * k..<a + 4 * k + 4]"
    using upt_add_eq_append [of a "a + 4 * k" 4] by (simp add: add.assoc add.commute [of 4])
  have "[0..<Suc k] = [0..<k] @ [k]" by simp
  then have "concat (map (\<lambda>w. rd_bytes m (add32 a (w * 4)) 4) [0..<Suc k]) = rd_bytes m a (4 * k) @ rd_bytes m (a + 4 * k) 4"
    using Suc w by simp
  also have "\<dots> = rd_bytes m a (4 * Suc k)" by (simp only: rd_bytes_def u map_append)
  finally show ?case .
qed (simp add: rd_bytes_def)

lemma bl_read_ok:
  assumes "bootloader_flash_read a n al True s = ((ESP_OK, bs), s')" and "a + n < 2 ^ 32"
  shows "bs = rd_bytes (bl_view s) a n"
proof -
  have "4 * (n div 4) = n" using assms(1) by (auto simp: bootloader_flash_read_def split: if_splits)
  then show ?thesis using assms rd_words [of a "n div 4" "bl_view s"]
    by (auto simp: bootloader_flash_read_def bootloader_flash_read_allow_decrypt_def bl_view_def split: if_splits)
qed

lemma bl_read_state: "bootloader_flash_read a n al True s = (r, s') \<Longrightarrow> s' = s"
  by (auto simp: bootloader_flash_read_def bootloader_flash_read_allow_decrypt_def split: if_splits)

interpretation boot: nor_store "bl_ok env :: 'b bl_flash_state_scheme \<Rightarrow> bool" 0 bl_view bl_blank bootloader_flash_erase_range
  "\<lambda>a bs s. bootloader_flash_write env a bs al (enc_enabled (bl_chip s)) s"
  "\<lambda>a n s. bootloader_flash_read a n al True s" for env :: "'c mmu_env_scheme" and al
proof unfold_locales
  fix s s' :: "'b bl_flash_state_scheme" and off n assume ok: "bl_ok env s" and e: "bootloader_flash_erase_range off n s = (ESP_OK, s')"
  note l = bl_erase_ok [OF e]
  show "bl_ok env s'" using bl_later_ok [OF l(1), of env] ok by simp
  show "bl_blank s' a" if "0 + off \<le> a" "a < 0 + off + n" for a
    using l(1) that by (simp add: bl_later_def later_def bl_blank_def flash_erased_def erase_mem_def)
  have "off mod 16 = 0" "n mod 16 = 0" using dvd_trans [of 16 4096, OF _ l(2)] dvd_trans [of 16 4096, OF _ l(3)] by (simp_all add: dvd_eq_mod_eq_0)
  then show "bl_view s' a = bl_view s a \<and> bl_blank s' a = bl_blank s a" if "a < 0 + off \<or> 0 + off + n \<le> a" for a
    using bl_view_frame [OF l(1), of off n a] that by (simp add: mem_op_outside)
next
  fix s s' :: "'b bl_flash_state_scheme" and off bs
  assume ok: "bl_ok env s" and w: "bootloader_flash_write env off bs al (enc_enabled (bl_chip s)) s = (ESP_OK, s')"
  note l = bl_write_ok [OF w ok]
  show "bl_ok env s'" using bl_later_ok [OF l(1), of env] ok by simp
  show "bl_view s' (0 + off + i) = bs ! i"
    if "\<And>a. 0 + off \<le> a \<Longrightarrow> a < 0 + off + length bs \<Longrightarrow> bl_blank s a" "i < length bs" for i
    using bl_write_view [OF ok l _ that(2)] that(1) by simp
  have "length (cell_bytes (bl_chip s) off bs) = length bs" using cell_bytes_length [OF ok] l(2) by blast
  then show "bl_view s' a = bl_view s a \<and> bl_blank s' a = bl_blank s a" if "a < 0 + off \<or> 0 + off + length bs \<le> a" for a
    using bl_view_frame [OF l(1), of off "length bs" a] l(2) that by (auto simp: mem_op_outside dvd_eq_mod_eq_0)
next
  fix s s' :: "'b bl_flash_state_scheme" and off n e bs assume "bl_ok env s" and r: "bootloader_flash_read off n al True s = ((e, bs), s')"
  then show "bl_ok env s'" and "bl_view s' = bl_view s \<and> bl_blank s' = bl_blank s" using bl_read_state [OF r] by auto
next
  fix s s' :: "'b bl_flash_state_scheme" and off n bs
  assume "bootloader_flash_read off n al True s = ((ESP_OK, bs), s')" "0 + off + n < 2 ^ 32"
  then show "bs = map (bl_view s) [0 + off..<0 + off + n]" using bl_read_ok [of off n al s bs s'] by (simp add: rd_bytes_def)
qed

end
