(* ===== verification/Image_Format.thy ===== *)
theory Image_Format
  imports Boot_Flash Partition Ota_Data Efuse_Version "HOL-Library.Monad_Syntax"
begin

text \<open>
  The application image (\<^verbatim>\<open>bootloader_support/src/esp_image_format.c\<close>), in the build of the
  bootloader.

  \<^item> The state is the flash with its mapping, the internal memory the segments are loaded to, the
    static variables, and what the functions of the file change through pointers: the metadata,
    the bytes given to the hash and the checksum word (\<open>None\<close> for a null pointer).
    Internal memory is indexed by the addresses the code uses; that a cell of D/IRAM has two of them is
    the relation \<open>same_cell\<close> of \<open>Image_Safety\<close>.
  \<^item> Build options, the memory map of the target, eFuses, the digest and the signature check are
    the fields of \<open>image_env\<close>. The digest is SHA-256; log output is left out.
  \<^item> \<open>None\<close> stands for a failed assertion (also of \<^verbatim>\<open>ESP_FAULT_ASSERT\<close>, which resets the chip), an
    access through a null pointer, or random numbers that stay zero. An access outside the arrays of
    the metadata shows as a list with more entries than the array.
\<close>

section \<open>Data\<close>

record esp_image_segment_header_t =
  seg_load_addr :: nat
  seg_data_len :: nat

text \<open>The segments that have been read so far, with the addresses of their data.\<close>

record esp_image_metadata_t =
  img_start_addr :: nat
  img_header :: esp_image_header_t
  img_segments :: "esp_image_segment_header_t list"
  img_segment_data :: "nat list"
  img_len :: nat
  img_digest :: "u8 list"
  img_secure_version :: u32
  img_mmu_page_size :: nat

datatype esp_image_load_mode_t = ESP_IMAGE_VERIFY | ESP_IMAGE_VERIFY_SILENT | ESP_IMAGE_LOAD | ESP_IMAGE_LOAD_NO_VALIDATE

text \<open>\<^verbatim>\<open>ESP_IMAGE_MAX_SEGMENTS\<close>, \<^verbatim>\<open>HASH_LEN\<close> and the sizes of the structures on flash.\<close>

abbreviation (input) ESP_IMAGE_MAX_SEGMENTS :: nat where "ESP_IMAGE_MAX_SEGMENTS \<equiv> 16"
abbreviation (input) HASH_LEN :: nat where "HASH_LEN \<equiv> 32"
abbreviation (input) IMAGE_HEADER_LEN :: nat where "IMAGE_HEADER_LEN \<equiv> 24"
abbreviation (input) SEGMENT_HEADER_LEN :: nat where "SEGMENT_HEADER_LEN \<equiv> 8"
abbreviation (input) SIG_BLOCK_V1_LEN :: nat where "SIG_BLOCK_V1_LEN \<equiv> 68"
abbreviation (input) SIG_BLOCK_V2_LEN :: nat where "SIG_BLOCK_V2_LEN \<equiv> 4096"
abbreviation (input) ESP_APP_DESC_MAGIC_WORD :: u32 where "ESP_APP_DESC_MAGIC_WORD \<equiv> 0xABCD5432"
abbreviation (input) STACK_LOAD_HEADROOM :: nat where "STACK_LOAD_HEADROOM \<equiv> 32768"

text \<open>Bytes 0, 1, 4 to 7, 12, 13, 15 to 18 and 23 of the packed structure.\<close>

definition rd_header :: "memory \<Rightarrow> nat \<Rightarrow> esp_image_header_t" where
  "rd_header m a = \<lparr> hdr_magic = m a, hdr_segment_count = unat (m (a + 1)), hdr_entry_addr = unat (rd32 m (a + 4)),
     hdr_hash_appended = (m (a + 23) \<noteq> 0), hdr_chip_id = rd16 m (a + 12),
     hdr_min_chip_rev_full = rd16 m (a + 15), hdr_max_chip_rev_full = rd16 m (a + 17) \<rparr>"

definition rd_segment_header :: "memory \<Rightarrow> nat \<Rightarrow> esp_image_segment_header_t" where
  "rd_segment_header m a = \<lparr> seg_load_addr = unat (rd32 m a), seg_data_len = unat (rd32 m (a + 4)) \<rparr>"

definition blank_metadata :: esp_image_metadata_t where
  "blank_metadata = \<lparr> img_start_addr = 0,
     img_header = \<lparr> hdr_magic = 0, hdr_segment_count = 0, hdr_entry_addr = 0, hdr_hash_appended = False, hdr_chip_id = 0,
       hdr_min_chip_rev_full = 0, hdr_max_chip_rev_full = 0 \<rparr>,
     img_segments = [], img_segment_data = [], img_len = 0, img_digest = replicate HASH_LEN 0, img_secure_version = 0, img_mmu_page_size = 0 \<rparr>"

section \<open>Environment and state\<close>

text \<open>
  Ranges of addresses, from the header of the target; a region the target does not have is \<open>None\<close>.
\<close>

record soc_map =
  soc_irom :: "nat \<times> nat"
  soc_drom :: "nat \<times> nat"
  soc_extram :: "(nat \<times> nat) option"
  soc_dram :: "nat \<times> nat"
  soc_iram :: "nat \<times> nat"
  soc_diram_dram :: "nat \<times> nat"
  soc_diram_iram :: "nat \<times> nat"
  soc_diram_inverted :: bool
  soc_rtc_iram :: "(nat \<times> nat) option"
  soc_rtc_dram :: "(nat \<times> nat) option"
  soc_rtc_slow :: "(nat \<times> nat) option"
  soc_spm :: "(nat \<times> nat) option"
  rom_stack_start :: nat
  boot_sp :: nat
  boot_dram :: "nat \<times> nat"
  loader_text :: "nat \<times> nat"

text \<open>The signature scheme: none, ECDSA V1, or V2 (RSA or ECDSA).\<close>

datatype sig_scheme = SigNone | SigV1 | SigV2

record image_env = mmu_env +
  soc :: soc_map
  image_max_size :: nat
  primary_bootloader_offset :: nat
  recovery_bootloader :: "nat option"
  check_signature :: bool
  secure_boot_configured :: bool
  secure_boot_v2_enabled :: bool
  scheme :: sig_scheme
  mmu_page_size_configurable :: bool
  has_efuse_blk_version :: bool
  image_anti_rollback :: bool
  image_sec_ver_size :: nat
  skip_validate_always :: bool
  skip_validate_on_power_on :: bool
  skip_validate_after_sleep :: bool
  firmware_chip_id :: nat
  image_efuses :: efuse_revisions
  image_sec_version :: u32
  hw_secure_boot_enabled :: bool
  deep_sleep_reset :: bool
  power_on_reset :: bool
  debugger_attached :: bool
  sha_start_ok :: bool
  image_sha256 :: "u8 list \<Rightarrow> u8 list"
  verify_signature_block :: "u8 list \<Rightarrow> u8 list \<Rightarrow> esp_err \<times> u8 list"

record image_state = bl_flash_state +
  ram :: memory
  ram_obfs_value :: "u32 \<times> u32"
  random_values :: "(u32 \<times> u32) list"
  bootloader_partition_offset :: nat
  img :: esp_image_metadata_t
  sha_handle :: "u8 list option"
  checksum :: "u32 option"
  image_digest :: "u8 list"
  verified_digest :: "u8 list"

type_synonym image_op = "image_state \<Rightarrow> (esp_err \<times> image_state) option"

text \<open>\<^verbatim>\<open>CHECK_ERR\<close>: go on only after success.\<close>

definition check_err :: "image_op \<Rightarrow> image_op \<Rightarrow> image_op" where
  "check_err f g s = do {
     (err, s1) \<leftarrow> f s;
     if err \<noteq> ESP_OK then Some (err, s1) else g s1
   }"

definition sha_data :: "u8 list \<Rightarrow> image_state \<Rightarrow> image_state" where
  "sha_data bs s = (case sha_handle s of None \<Rightarrow> s | Some acc \<Rightarrow> s\<lparr> sha_handle := Some (acc @ bs) \<rparr>)"

definition xor_checksum :: "u32 \<Rightarrow> image_state \<Rightarrow> image_state" where
  "xor_checksum w s = (case checksum s of None \<Rightarrow> s | Some c \<Rightarrow> s\<lparr> checksum := Some (c XOR w) \<rparr>)"

section \<open>Addresses\<close>

definition esp_ptr_in :: "nat \<times> nat \<Rightarrow> nat \<Rightarrow> bool" where
  "esp_ptr_in r p \<longleftrightarrow> intptr (fst r) \<le> intptr p \<and> intptr p < intptr (snd r)"

definition esp_ptr_in_opt :: "(nat \<times> nat) option \<Rightarrow> nat \<Rightarrow> bool" where
  "esp_ptr_in_opt r p = (case r of None \<Rightarrow> False | Some r \<Rightarrow> esp_ptr_in r p)"

definition esp_image_bootloader_offset_get :: "image_state \<Rightarrow> nat" where
  "esp_image_bootloader_offset_get s = bootloader_partition_offset s"

definition esp_image_bootloader_offset_set :: "nat \<Rightarrow> image_state \<Rightarrow> image_state" where
  "esp_image_bootloader_offset_set offset s = s\<lparr> bootloader_partition_offset := offset \<rparr>"

definition is_bootloader :: "image_env \<Rightarrow> image_state \<Rightarrow> nat \<Rightarrow> bool" where
  "is_bootloader env s offset \<longleftrightarrow>
     offset = primary_bootloader_offset env \<or> offset = bootloader_partition_offset s \<or> recovery_bootloader env = Some offset"

definition should_map :: "image_env \<Rightarrow> nat \<Rightarrow> bool" where
  "should_map env load_addr \<longleftrightarrow>
     (fst (soc_irom (soc env)) \<le> load_addr \<and> load_addr < snd (soc_irom (soc env))) \<or>
     (fst (soc_drom (soc env)) \<le> load_addr \<and> load_addr < snd (soc_drom (soc env))) \<or>
     (case soc_extram (soc env) of None \<Rightarrow> False | Some r \<Rightarrow> fst r \<le> load_addr \<and> load_addr < snd r)"

definition should_load :: "image_env \<Rightarrow> nat \<Rightarrow> bool" where
  "should_load env load_addr =
     (let within = (\<lambda>r. case r of None \<Rightarrow> False | Some r \<Rightarrow> fst r \<le> load_addr \<and> load_addr < snd r) in
      if should_map env load_addr then False
      else if load_addr < 0x10000000 then False
      else if deep_sleep_reset env then
        \<not> (within (soc_rtc_iram (soc env)) \<or> within (soc_rtc_dram (soc env)) \<or> within (soc_rtc_slow (soc env)))
      else True)"

definition esp_ptr_in_diram_iram :: "soc_map \<Rightarrow> nat \<Rightarrow> bool" where
  "esp_ptr_in_diram_iram m p \<longleftrightarrow> fst (soc_diram_iram m) \<noteq> fst (soc_diram_dram m) \<and> esp_ptr_in (soc_diram_iram m) p"

definition esp_ptr_diram_dram_to_iram :: "soc_map \<Rightarrow> nat \<Rightarrow> nat" where
  "esp_ptr_diram_dram_to_iram m p =
     (if soc_diram_inverted m then sub32 (add32 (fst (soc_diram_iram m)) (sub32 (snd (soc_diram_dram m)) p)) 4
      else add32 (fst (soc_diram_iram m)) (sub32 p (fst (soc_diram_dram m))))"

definition esp_ptr_diram_iram_to_dram :: "soc_map \<Rightarrow> nat \<Rightarrow> nat" where
  "esp_ptr_diram_iram_to_dram m p =
     (if soc_diram_inverted m then sub32 (add32 (fst (soc_diram_dram m)) (sub32 (snd (soc_diram_iram m)) p)) 4
      else add32 (fst (soc_diram_dram m)) (sub32 p (fst (soc_diram_iram m))))"

definition overlaps :: "nat \<times> nat \<Rightarrow> nat \<Rightarrow> nat \<Rightarrow> bool option" where
  "overlaps r = bootloader_util_regions_overlap (fst r) (snd r)"

text \<open>The checks of the region itself, in DRAM and in IRAM; the D/IRAM alias is checked by a recursive call.\<close>

function verify_load_addresses :: "soc_map \<Rightarrow> nat \<Rightarrow> nat \<Rightarrow> bool \<Rightarrow> bool option" where
  "verify_load_addresses m load_addr load_end no_recurse =
     (let last_byte = sub32 load_end 1 in
      if load_end = load_addr then Some True
      else if \<not> intptr load_end > intptr load_addr then None
      else if esp_ptr_in (soc_dram m) load_addr \<and> esp_ptr_in (soc_dram m) last_byte then do {
        stack \<leftarrow> overlaps (sub32 (boot_sp m) STACK_LOAD_HEADROOM, rom_stack_start m) load_addr load_end;
        if stack then Some False
        else do {
          data \<leftarrow> overlaps (boot_dram m) load_addr load_end;
          if data then Some False
          else if no_recurse then Some True
          else do {
            diram \<leftarrow> overlaps (soc_diram_dram m) load_addr load_end;
            if \<not> diram then Some True
            else
              let iram_load_addr = esp_ptr_diram_dram_to_iram m (if esp_ptr_in (soc_diram_dram m) load_addr then load_addr else fst (soc_diram_dram m));
                  iram_load_end = esp_ptr_diram_dram_to_iram m (if esp_ptr_in (soc_diram_dram m) last_byte then load_end else snd (soc_diram_dram m))
              in if intptr iram_load_end < intptr iram_load_addr then verify_load_addresses m iram_load_end iram_load_addr True
                 else verify_load_addresses m iram_load_addr iram_load_end True
          }
        }
      }
      else if esp_ptr_in (soc_iram m) load_addr \<and> esp_ptr_in (soc_iram m) last_byte then do {
        loader \<leftarrow> overlaps (loader_text m) load_addr load_end;
        if loader then Some False
        else if no_recurse then Some True
        else do {
          diram \<leftarrow> overlaps (soc_diram_iram m) load_addr load_end;
          if \<not> diram then Some True
          else
            let dram_load_addr = esp_ptr_diram_iram_to_dram m (if esp_ptr_in_diram_iram m load_addr then load_addr else fst (soc_diram_iram m));
                dram_load_end = esp_ptr_diram_iram_to_dram m (if esp_ptr_in_diram_iram m last_byte then load_end else snd (soc_diram_iram m))
            in if intptr dram_load_end < intptr dram_load_addr then verify_load_addresses m dram_load_end dram_load_addr True
               else verify_load_addresses m dram_load_addr dram_load_end True
        }
      }
      else if esp_ptr_in_opt (soc_rtc_iram m) load_addr \<and> esp_ptr_in_opt (soc_rtc_iram m) last_byte then Some True
      else if esp_ptr_in_opt (soc_rtc_dram m) load_addr \<and> esp_ptr_in_opt (soc_rtc_dram m) last_byte then Some True
      else if esp_ptr_in_opt (soc_rtc_slow m) load_addr \<and> esp_ptr_in_opt (soc_rtc_slow m) last_byte then Some True
      else Some (esp_ptr_in_opt (soc_spm m) load_addr \<and> esp_ptr_in_opt (soc_spm m) last_byte))"
  by pat_completeness auto
termination
  by (relation "measure (\<lambda>(m, a, e, no_recurse). if no_recurse then 0 else 1)") auto

declare verify_load_addresses.simps [simp del]

section \<open>Headers\<close>

definition verify_image_header :: "image_env \<Rightarrow> image_state \<Rightarrow> nat \<Rightarrow> esp_image_header_t \<Rightarrow> esp_err" where
  "verify_image_header env s src_addr hdr =
     (if hdr_magic hdr \<noteq> 0xE9 then ESP_ERR_IMAGE_INVALID
      else
        let err = bootloader_common_check_chip_validity (firmware_chip_id env) (image_efuses env) hdr
              (if is_bootloader env s src_addr then ESP_IMAGE_BOOTLOADER else ESP_IMAGE_APPLICATION)
        in if err \<noteq> ESP_OK then err
           else if hdr_segment_count hdr > ESP_IMAGE_MAX_SEGMENTS then ESP_ERR_IMAGE_INVALID
           else ESP_OK)"

text \<open>\<open>use_sha\<close>: the pointer to the hash handle is not null.\<close>

definition process_image_header :: "image_env \<Rightarrow> nat \<Rightarrow> bool \<Rightarrow> bool \<Rightarrow> image_op" where
  "process_image_header env part_offset use_sha do_verify s =
     (let s0 = s\<lparr> img := blank_metadata\<lparr> img_start_addr := part_offset \<rparr> \<rparr> in
      case bootloader_flash_read part_offset IMAGE_HEADER_LEN True True s0 of ((err, bs), s1) \<Rightarrow>
        if err \<noteq> ESP_OK then Some (err, s1)
        else
          let hdr = rd_header (\<lambda>i. bs ! i) 0;
              s2 = s1\<lparr> img := (img s1)\<lparr> img_header := hdr \<rparr> \<rparr>;
              sized = (\<lambda>s. s\<lparr> img := (img s)\<lparr> img_len := IMAGE_HEADER_LEN \<rparr> \<rparr>)
          in if do_verify then
               (if (check_signature env \<or> hdr_hash_appended hdr) \<and> use_sha \<and> \<not> sha_start_ok env then Some (ESP_ERR_NO_MEM, s2)
                else
                  let s3 = (if (check_signature env \<or> hdr_hash_appended hdr) \<and> use_sha then s2\<lparr> sha_handle := Some bs \<rparr> else s2);
                      verr = verify_image_header env s3 part_offset hdr
                  in if verr \<noteq> ESP_OK then Some (verr, s3) else Some (ESP_OK, sized s3))
             else Some (ESP_OK, sized s2))"

text \<open>
  The size of the MMU page is stored as its logarithm; a shift by 32 or more is undefined.
\<close>

definition set_mmu_page_size :: "image_env \<Rightarrow> nat \<Rightarrow> nat \<Rightarrow> image_op" where
  "set_mmu_page_size env index segment_data_offs s =
     (let put = (\<lambda>n s. s\<lparr> img := (img s)\<lparr> img_mmu_page_size := n \<rparr> \<rparr>) in
      if \<not> mmu_page_size_configurable env then Some (ESP_OK, put (mmu_page_size env) s)
      else if index \<noteq> 0 then Some (ESP_OK, s)
      else if is_bootloader env s (img_start_addr (img s)) then Some (ESP_OK, put (mmu_page_size env) s)
      else case bootloader_flash_read segment_data_offs 4 True True s of ((err, magic_word), s1) \<Rightarrow>
        if err \<noteq> ESP_OK then Some (err, s1)
        else case bootloader_flash_read (add32 segment_data_offs 180) 4 True True s1 of ((err2, size_word), s2) \<Rightarrow>
          if err2 \<noteq> ESP_OK then Some (err2, s2)
          else
            let n = unat (rd32 (\<lambda>i. size_word ! i) 0) mod 256 in
            if rd32 (\<lambda>i. magic_word ! i) 0 \<noteq> ESP_APP_DESC_MAGIC_WORD then Some (ESP_FAIL, s2)
            else if n \<ge> 32 then None
            else Some (ESP_OK, put (if n > 0 then 2 ^ n else mmu_page_size env) s2))"

definition verify_segment_header :: "image_env \<Rightarrow> nat \<Rightarrow> esp_image_segment_header_t \<Rightarrow> nat \<Rightarrow> image_op" where
  "verify_segment_header env index segment segment_data_offs s =
     (if seg_data_len segment mod 4 \<noteq> 0 \<or> seg_data_len segment \<ge> image_max_size env then Some (ESP_ERR_IMAGE_INVALID, s)
      else check_err (set_mmu_page_size env index segment_data_offs)
        (\<lambda>s1. let page = img_mmu_page_size (img s1) in
           if should_map env (seg_load_addr segment) \<and> segment_data_offs mod page \<noteq> seg_load_addr segment mod page
           then Some (ESP_ERR_IMAGE_INVALID, s1) else Some (ESP_OK, s1)) s)"

section \<open>Segments\<close>

text \<open>The random words that hide the loaded code until it has been verified.\<close>

fun fill_obfs :: "u32 \<times> u32 \<Rightarrow> (u32 \<times> u32) list \<Rightarrow> ((u32 \<times> u32) \<times> (u32 \<times> u32) list) option" where
  "fill_obfs v rs = (if fst v = 0 \<or> snd v = 0 then (case rs of [] \<Rightarrow> None | r # rest \<Rightarrow> fill_obfs r rest) else Some (v, rs))"

declare fill_obfs.simps [simp del]

definition obfs :: "u32 \<times> u32 \<Rightarrow> nat \<Rightarrow> u32" where
  "obfs v i = (if odd i then fst v else snd v)"

text \<open>One round of the loop over the words of \<open>n\<close> bytes at \<open>src\<close>.\<close>

definition segment_word :: "memory \<Rightarrow> nat \<Rightarrow> nat \<Rightarrow> bool \<Rightarrow> nat \<Rightarrow> nat \<Rightarrow> image_state \<Rightarrow> image_state" where
  "segment_word m src dest do_load n w_i s =
     (let i = 4 * w_i; w = rd32 m (src + i);
          s1 = xor_checksum w s;
          s2 = (if do_load then s1\<lparr> ram := wr32 (ram s1) (dest + i) (w XOR obfs (ram_obfs_value s1) w_i) \<rparr> else s1)
      in if i mod 1024 = 0 then sha_data (rd_bytes m (src + i) (min 1024 (n - i))) s2 else s2)"

definition segment_words :: "memory \<Rightarrow> nat \<Rightarrow> nat \<Rightarrow> bool \<Rightarrow> nat \<Rightarrow> image_state \<Rightarrow> image_state" where
  "segment_words m src dest do_load n s = fold (segment_word m src dest do_load n) [0..<(n + 3) div 4] s"

text \<open>The first two words of the description, read once.\<close>

definition process_esp_app_desc_data :: "memory \<Rightarrow> nat \<Rightarrow> image_state \<Rightarrow> image_state option" where
  "process_esp_app_desc_data m src s =
     (if rd32 m src \<noteq> ESP_APP_DESC_MAGIC_WORD then None
      else Some (sha_data (rd_bytes m src 8) (xor_checksum (rd32 m src XOR rd32 m (src + 4))
        (s\<lparr> img := (img s)\<lparr> img_secure_version := rd32 m (src + 4) \<rparr> \<rparr>))))"

text \<open>
  A piece of a segment. With anti-rollback, a first piece of less than eight bytes makes the length wrap.
\<close>

definition process_segment_data :: "image_env \<Rightarrow> nat \<Rightarrow> nat \<Rightarrow> nat \<Rightarrow> nat \<Rightarrow> bool \<Rightarrow> bool \<Rightarrow> image_op" where
  "process_segment_data env segment load_addr data_addr data_len do_load is_segment_start s =
     (if \<not> do_load \<and> checksum s = None then Some (ESP_OK, s)
      else case bootloader_mmap env data_addr data_len s of
             (None, s1) \<Rightarrow> Some (ESP_FAIL, s1)
           | (Some src, s1) \<Rightarrow>
               let m = flash_view (bl_chip s1) in
               if checksum s1 = None \<and> sha_handle s1 = None then
                 Some (ESP_OK, bootloader_munmap (s1\<lparr> ram := wr_bytes (ram s1) load_addr (rd_bytes m src data_len) \<rparr>))
               else do {
                 (v, rs) \<leftarrow> fill_obfs (ram_obfs_value s1) (random_values s1);
                 let s2 = s1\<lparr> ram_obfs_value := v, random_values := rs \<rparr>;
                 let app_start = (segment = 0 \<and> is_segment_start \<and> \<not> is_bootloader env s2 (img_start_addr (img s2)));
                 let ret = (if app_start \<and> has_efuse_blk_version env
                            then bootloader_common_check_efuse_blk_validity (image_efuses env) (rd16 m (src + 176)) (rd16 m (src + 178)) else ESP_OK);
                 if ret \<noteq> ESP_OK then Some (ret, bootloader_munmap s2)
                 else if app_start \<and> image_anti_rollback env then
                   if data_len < 8 then None
                   else do {
                     s3 \<leftarrow> process_esp_app_desc_data m src s2;
                     Some (ESP_OK, bootloader_munmap (segment_words m (src + 8) load_addr do_load (data_len - 8) s3))
                   }
                 else Some (ESP_OK, bootloader_munmap (segment_words m src load_addr do_load data_len s2))
               })"

text \<open>The loop that splits a segment into pieces that can be mapped.\<close>

function segment_loop :: "image_env \<Rightarrow> nat \<Rightarrow> nat \<Rightarrow> nat \<Rightarrow> nat \<Rightarrow> bool \<Rightarrow> bool \<Rightarrow> image_op" where
  "segment_loop env index load_addr data_addr remain do_load is_start s =
     (if remain = 0 then Some (ESP_OK, s)
      else if check_signature env \<and> do_load \<and> verify_load_addresses (soc env) load_addr (add32 load_addr remain) False \<noteq> Some True then None
      else
        let free_page_count = bootloader_mmap_get_free_pages env;
            offset_page = (if data_addr mod mmu_page_size env \<noteq> 0 then 1 else 0);
            max_pages = free_page_count - offset_page;
            max_image_len = (if max_pages * mmu_page_size env \<ge> 2 ^ 32 then 2 ^ 32 - 1 else max_pages * mmu_page_size env);
            len = min remain max_image_len
        in if max_pages = 0 then Some (ESP_ERR_NO_MEM, s)
           else do {
             (err, s1) \<leftarrow> process_segment_data env index load_addr data_addr len do_load is_start s;
             if err \<noteq> ESP_OK then Some (err, s1)
             else segment_loop env index (add32 load_addr len) (add32 data_addr len) (remain - len) do_load False s1
           })"
  by pat_completeness auto
termination
proof (relation "measure (\<lambda>(env, i, la, da, n, dl, st, s). n)", goal_cases)
  case (2 env index la da remain dl st s fp po mp mx len r err s1)
  then have "mmu_page_size env \<noteq> 0"
    by (auto simp: bootloader_mmap_get_free_pages_def intro: ccontr)
  then show ?case using 2 by auto
qed simp

declare segment_loop.simps [simp del]

definition process_segment :: "image_env \<Rightarrow> nat \<Rightarrow> nat \<Rightarrow> bool \<Rightarrow> image_op" where
  "process_segment env index flash_addr do_load s =
     (case bootloader_flash_read flash_addr SEGMENT_HEADER_LEN True True s of ((err, bs), s1) \<Rightarrow>
        if err \<noteq> ESP_OK then Some (err, s1)
        else
          let header = rd_segment_header (\<lambda>i. bs ! i) 0;
              s2 = sha_data bs (s1\<lparr> img := (img s1)\<lparr> img_segments := img_segments (img s1) @ [header] \<rparr> \<rparr>);
              load_addr = seg_load_addr header; data_len = seg_data_len header; data_addr = add32 flash_addr SEGMENT_HEADER_LEN;
              load = (do_load \<and> should_load env load_addr)
          in check_err (verify_segment_header env index header data_addr)
               (\<lambda>s3. if data_len mod 4 \<noteq> 0 then Some (ESP_ERR_IMAGE_INVALID, s3)
                 else do {
                   ok \<leftarrow> (if load \<and> data_len > 0 then verify_load_addresses (soc env) load_addr (add32 load_addr data_len) False else Some True);
                   if \<not> ok then Some (ESP_ERR_IMAGE_INVALID, s3)
                   else segment_loop env index load_addr data_addr data_len load True s3
                 }) s2)"

text \<open>
  The loop over the segments, with the number of segments that are left. The arrays \<^verbatim>\<open>segments\<close> and
  \<^verbatim>\<open>segment_data\<close> have room for 16 entries, and the loop does not check it: an entry with a higher index
  stands for a write behind the array.
\<close>

fun segments_loop :: "image_env \<Rightarrow> bool \<Rightarrow> nat \<Rightarrow> nat \<Rightarrow> nat \<Rightarrow> image_state \<Rightarrow> ((esp_err \<times> nat) \<times> image_state) option" where
  "segments_loop env do_load i 0 next_addr s = Some ((ESP_OK, next_addr), s)"
| "segments_loop env do_load i (Suc left) next_addr s =
     do {
       (err, s1) \<leftarrow> process_segment env i next_addr do_load s;
       if err \<noteq> ESP_OK then Some ((err, next_addr), s1)
       else
         let data_addr = add32 next_addr SEGMENT_HEADER_LEN;
             s2 = s1\<lparr> img := (img s1)\<lparr> img_segment_data := img_segment_data (img s1) @ [data_addr] \<rparr> \<rparr>
         in segments_loop env do_load (Suc i) left (add32 data_addr (seg_data_len (img_segments (img s1) ! i))) s2
     }"

definition process_segments :: "image_env \<Rightarrow> bool \<Rightarrow> image_op" where
  "process_segments env do_load s =
     (let start_segments = add32 (img_start_addr (img s)) (img_len (img s)) in
      do {
        ((err, end_addr), s1) \<leftarrow> segments_loop env do_load 0 (hdr_segment_count (img_header (img s))) start_segments s;
        if err \<noteq> ESP_OK then Some (err, s1)
        else if end_addr < img_start_addr (img s1) then Some (ESP_ERR_IMAGE_INVALID, s1)
        else Some (ESP_OK, s1\<lparr> img := (img s1)\<lparr> img_len := add32 (img_len (img s1)) (sub32 end_addr start_segments) \<rparr> \<rparr>)
      })"

section \<open>Checksum, hash and signature\<close>

definition checksum_byte :: "u32 \<Rightarrow> u8" where
  "checksum_byte w = ucast (drop_bit 24 w) XOR ucast (drop_bit 16 w) XOR ucast (drop_bit 8 w) XOR ucast w"

definition process_checksum :: "bool \<Rightarrow> image_op" where
  "process_checksum skip_check_checksum s =
     (let unpadded_length = img_len (img s);
          len = sub32 (align_up 16 (add32 unpadded_length 1)) unpadded_length in
      case (if \<not> skip_check_checksum \<or> sha_handle s \<noteq> None
            then bootloader_flash_read (add32 (img_start_addr (img s)) unpadded_length) len True True s
            else ((ESP_OK, replicate len 0), s)) of ((err, buf), s1) \<Rightarrow>
        if err \<noteq> ESP_OK then Some (err, s1)
        else if \<not> skip_check_checksum \<and> checksum_byte (case checksum s1 of None \<Rightarrow> 0 | Some c \<Rightarrow> c) \<noteq> buf ! (len - 1)
        then Some (ESP_ERR_IMAGE_INVALID, s1)
        else Some (ESP_OK, sha_data buf (s1\<lparr> img := (img s1)\<lparr> img_len := add32 unpadded_length len \<rparr> \<rparr>)))"

definition sig_block_len :: "image_env \<Rightarrow> bool \<Rightarrow> nat \<Rightarrow> nat" where
  "sig_block_len env bootl len =
     (let v2 = add32 (sub32 (align_up 4096 len) len) SIG_BLOCK_V2_LEN in
      if scheme env = SigNone then 0
      else if bootl then (if secure_boot_v2_enabled env then v2 else 0)
      else if scheme env = SigV1 then SIG_BLOCK_V1_LEN else v2)"

definition process_appended_hash_and_sig :: "image_env \<Rightarrow> nat \<Rightarrow> nat \<Rightarrow> bool \<Rightarrow> image_op" where
  "process_appended_hash_and_sig env part_offset part_len do_verify s =
     (let appended = hdr_hash_appended (img_header (img s)) in
      case (if appended \<and> do_verify
            then bootloader_flash_read (add32 (img_start_addr (img s)) (img_len (img s))) HASH_LEN True True s
            else ((ESP_OK, img_digest (img s)), s)) of ((err, digest), s1) \<Rightarrow>
        if err \<noteq> ESP_OK then Some (err, s1)
        else
          let len = (if appended then add32 (img_len (img s1)) HASH_LEN else img_len (img s1));
              s2 = s1\<lparr> img := (img s1)\<lparr> img_digest := digest, img_len := len \<rparr> \<rparr>
          in if add32 len (sig_block_len env (is_bootloader env s2 part_offset) len) > part_len
             then Some (ESP_ERR_IMAGE_INVALID, s2) else Some (ESP_OK, s2))"

text \<open>The handle is finished and freed in both functions.\<close>

definition verify_simple_hash :: "image_env \<Rightarrow> image_op" where
  "verify_simple_hash env s =
     (case sha_handle s of
        None \<Rightarrow> None
      | Some acc \<Rightarrow> Some (if img_digest (img s) \<noteq> image_sha256 env acc then ESP_ERR_IMAGE_INVALID else ESP_OK, s\<lparr> sha_handle := None \<rparr>))"

definition mapped_bytes :: "image_env \<Rightarrow> nat \<Rightarrow> nat \<Rightarrow> image_state \<Rightarrow> u8 list option" where
  "mapped_bytes env a n s =
     (case bootloader_mmap env a n s of (None, _) \<Rightarrow> None | (Some p, s1) \<Rightarrow> Some (rd_bytes (flash_view (bl_chip s1)) p n))"

definition verify_signature_and_adjust_image_len :: "image_env \<Rightarrow> nat \<Rightarrow> image_op" where
  "verify_signature_and_adjust_image_len env end_addr s =
     (if scheme env = SigNone then Some (ESP_ERR_IMAGE_INVALID, s)
      else if image_digest s = verified_digest s then None
      else do {
        block \<leftarrow> (if scheme env = SigV1 then mapped_bytes env (add32 (img_start_addr (img s)) (img_len (img s))) SIG_BLOCK_V1_LEN s
                  else mapped_bytes env end_addr SIG_BLOCK_V2_LEN s);
        let (err, verified) = verify_signature_block env block (image_digest s);
        let s1 = s\<lparr> verified_digest := verified \<rparr>;
        let len = add32 (sub32 end_addr (img_start_addr (img s1))) (if scheme env = SigV1 then SIG_BLOCK_V1_LEN else SIG_BLOCK_V2_LEN);
        if err \<noteq> ESP_OK then Some (ESP_ERR_IMAGE_INVALID, s1)
        else if scheme env = SigV1 \<and> is_bootloader env s1 (img_start_addr (img s1)) then Some (ESP_OK, s1)
        else Some (ESP_OK, s1\<lparr> img := (img s1)\<lparr> img_len := len \<rparr> \<rparr>)
      })"

definition verify_secure_boot_signature :: "image_env \<Rightarrow> image_op" where
  "verify_secure_boot_signature env s =
     (let end_addr = add32 (img_start_addr (img s)) (img_len (img s));
          padded_end = (if scheme env = SigV2 then align_up 4096 end_addr else end_addr) in
      do {
        acc \<leftarrow> sha_handle s;
        simple_hash \<leftarrow> (if hdr_hash_appended (img_header (img s)) then mapped_bytes env (sub32 end_addr HASH_LEN) HASH_LEN s else Some []);
        padding \<leftarrow> (if padded_end > end_addr then mapped_bytes env end_addr (padded_end - end_addr) s else Some []);
        let s1 = s\<lparr> sha_handle := None, image_digest := image_sha256 env (acc @ simple_hash @ padding) \<rparr>;
        verify_signature_and_adjust_image_len env (max end_addr padded_end) s1
      })"

section \<open>Loading\<close>

definition deobfuscate_word :: "nat \<Rightarrow> nat \<Rightarrow> image_state \<Rightarrow> image_state" where
  "deobfuscate_word load_addr j s =
     s\<lparr> ram := wr32 (ram s) (load_addr + 4 * j) (rd32 (ram s) (load_addr + 4 * j) XOR obfs (ram_obfs_value s) j) \<rparr>"

definition deobfuscate :: "image_env \<Rightarrow> image_state \<Rightarrow> image_state" where
  "deobfuscate env s =
     fold (\<lambda>h s. if should_load env (seg_load_addr h) then fold (deobfuscate_word (seg_load_addr h)) [0..<seg_data_len h div 4] s else s)
       (img_segments (img s)) s"

definition skip_verify :: "image_env \<Rightarrow> esp_image_load_mode_t \<Rightarrow> bool \<Rightarrow> bool" where
  "skip_verify env mode verify_sha \<longleftrightarrow> skip_validate_after_sleep env \<and> deep_sleep_reset env \<and> mode = ESP_IMAGE_LOAD_NO_VALIDATE \<and> \<not> verify_sha"

definition fault_check :: "image_env \<Rightarrow> esp_image_load_mode_t \<Rightarrow> bool \<Rightarrow> image_state \<Rightarrow> bool" where
  "fault_check env mode verify_sha s \<longleftrightarrow>
     (if secure_boot_v2_enabled env then \<not> hw_secure_boot_enabled env \<or> skip_verify env mode verify_sha \<or> image_digest s = verified_digest s
      else is_bootloader env s (img_start_addr (img s)) \<or> skip_verify env mode verify_sha \<or> take HASH_LEN (image_digest s) = take HASH_LEN (verified_digest s))"

text \<open>What \<^verbatim>\<open>image_load\<close> does after the appended hash has been read.\<close>

definition verify_contents :: "image_env \<Rightarrow> bool \<Rightarrow> image_op" where
  "verify_contents env verify_sha s =
     (if \<not> verify_sha then Some (ESP_OK, s)
      else if check_signature env then
        (if secure_boot_configured env \<or> \<not> debugger_attached env then verify_secure_boot_signature env s else Some (ESP_OK, s))
      else if sha_handle s \<noteq> None \<and> \<not> debugger_attached env then verify_simple_hash env s
      else Some (ESP_OK, s))"

definition release_image :: "image_env \<Rightarrow> esp_image_load_mode_t \<Rightarrow> bool \<Rightarrow> bool \<Rightarrow> image_op" where
  "release_image env mode do_load verify_sha s =
     (if check_signature env \<and> \<not> fault_check env mode verify_sha s then None
      else
        let s1 = (if do_load \<and> fst (ram_obfs_value s) \<noteq> 0 \<and> snd (ram_obfs_value s) \<noteq> 0 then deobfuscate env s else s)
        in if image_anti_rollback env \<and> do_load \<and>
              \<not> esp_efuse_check_secure_version (image_sec_ver_size env) (image_sec_version env) (unat (img_secure_version (img s1)))
           then Some (ESP_FAIL, s1) else Some (ESP_OK, s1))"

text \<open>The local variables at the start and the code at the label \<^verbatim>\<open>err\<close>.\<close>

definition image_load :: "image_env \<Rightarrow> esp_image_load_mode_t \<Rightarrow> esp_partition_pos_t \<Rightarrow> image_op" where
  "image_load env mode part s0 =
     (let do_load = (mode \<in> {ESP_IMAGE_LOAD, ESP_IMAGE_LOAD_NO_VALIDATE});
          do_verify = (mode \<in> {ESP_IMAGE_LOAD, ESP_IMAGE_VERIFY, ESP_IMAGE_VERIFY_SILENT});
          s = s0\<lparr> checksum := (if do_verify then Some 0xEF else None), sha_handle := None,
                 image_digest := replicate 32 0xEE, verified_digest := replicate 32 0x01 \<rparr>;
          verify_sha = (if secure_boot_v2_enabled env then do_verify else \<not> is_bootloader env s (pos_offset part) \<and> do_verify)
      in do {
        (err, s1) \<leftarrow>
          (if pos_size part > image_max_size env then Some (ESP_ERR_INVALID_ARG, s)
           else check_err (process_image_header env (pos_offset part) verify_sha do_verify)
             (check_err (process_segments env do_load)
             (check_err (process_checksum (\<not> do_verify \<or> debugger_attached env))
             (check_err (process_appended_hash_and_sig env (pos_offset part) (pos_size part) do_verify)
             (check_err (verify_contents env verify_sha)
             (\<lambda>s1. release_image env mode do_load verify_sha (s1\<lparr> sha_handle := None \<rparr>)))))) s);
        Some (err, if err = ESP_OK then s1 else s1\<lparr> sha_handle := None, img := blank_metadata \<rparr>)
      })"

definition load_image_mode :: "image_env \<Rightarrow> esp_image_load_mode_t" where
  "load_image_mode env =
     (if secure_boot_configured env then ESP_IMAGE_LOAD
      else if skip_validate_always env then ESP_IMAGE_LOAD_NO_VALIDATE
      else if skip_validate_on_power_on env \<and> power_on_reset env then ESP_IMAGE_LOAD_NO_VALIDATE
      else ESP_IMAGE_LOAD)"

definition load_image_file :: "image_env \<Rightarrow> esp_partition_pos_t \<Rightarrow> image_op" where
  "load_image_file env part = image_load env (load_image_mode env) part"

definition load_image_file_no_verify :: "image_env \<Rightarrow> esp_partition_pos_t \<Rightarrow> image_op" where
  "load_image_file_no_verify env part = image_load env ESP_IMAGE_LOAD_NO_VALIDATE part"

definition esp_image_verify :: "image_env \<Rightarrow> esp_image_load_mode_t \<Rightarrow> esp_partition_pos_t \<Rightarrow> image_op" where
  "esp_image_verify env mode part = image_load env mode part"

definition esp_image_get_metadata :: "image_env \<Rightarrow> esp_partition_pos_t \<Rightarrow> image_op" where
  "esp_image_get_metadata env part s =
     (if pos_size part > image_max_size env then Some (ESP_ERR_INVALID_ARG, s)
      else check_err (process_image_header env (pos_offset part) False False)
        (check_err (process_segments env False)
        (check_err (process_checksum True)
        (process_appended_hash_and_sig env (pos_offset part) (pos_size part) True))) (s\<lparr> sha_handle := None, checksum := None \<rparr>))"

definition esp_image_verify_bootloader_data :: "image_env \<Rightarrow> nat \<Rightarrow> image_op" where
  "esp_image_verify_bootloader_data env bootloader_size =
     esp_image_verify env ESP_IMAGE_VERIFY \<lparr> pos_offset = primary_bootloader_offset env, pos_size = bootloader_size \<rparr>"

definition esp_image_verify_bootloader :: "image_env \<Rightarrow> nat \<Rightarrow> image_state \<Rightarrow> ((esp_err \<times> nat) \<times> image_state) option" where
  "esp_image_verify_bootloader env bootloader_size s = do {
     (err, s1) \<leftarrow> esp_image_verify_bootloader_data env bootloader_size s;
     Some ((err, if err = ESP_OK then img_len (img s1) else 0), s1)
   }"

definition esp_image_get_flash_size :: "nat \<Rightarrow> nat" where
  "esp_image_get_flash_size app_flash_size = (if app_flash_size \<le> 7 then 2 ^ app_flash_size * 1024 * 1024 else 0)"

end
