(* ===== verification/Bootloader.thy ===== *)
theory Bootloader
  imports Image_Format Ota_Ops
begin

text \<open>
  The second stage bootloader: \<^verbatim>\<open>bootloader_support/src/bootloader_utility.c\<close> (partition table,
  choice of the boot partition, fallback, start of the image), \<^verbatim>\<open>bootloader_common.c\<close> (factory
  reset) and the entry point in \<^verbatim>\<open>bootloader/subproject/main/bootloader_start.c\<close>.

  \<^item> The state is the flash with its mapping, the static flag \<^verbatim>\<open>ota_has_initial_contents\<close>, the
    eFuse field of the secure version and the memory that survives a reset.
  \<^item> Build options, ROM routines and the results of the image loader and of the secure boot and
    flash encryption modules are the fields of \<open>boot_env\<close>. The TEE and the virtual eFuses are
    not configured; the functions are those of the bootloader build.
  \<^item> A function that does not return is a value of \<open>boot_end\<close>. \<open>None\<close> stands for a trap (a division
    by zero, an index outside an array, a failed assertion) or a loop that never ends.
\<close>

section \<open>State and environment\<close>

record bootloader_state_t =
  bs_ota_info :: esp_partition_pos_t
  bs_factory :: esp_partition_pos_t
  bs_test :: esp_partition_pos_t
  bs_ota :: "esp_partition_pos_t list"
  bs_app_count :: nat

abbreviation (input) MAX_OTA_SLOTS :: nat where "MAX_OTA_SLOTS \<equiv> 16"
abbreviation (input) FACTORY_INDEX :: int where "FACTORY_INDEX \<equiv> - 1"
abbreviation (input) TEST_APP_INDEX :: int where "TEST_APP_INDEX \<equiv> - 2"
abbreviation (input) INVALID_INDEX :: int where "INVALID_INDEX \<equiv> - 99"

definition no_pos :: esp_partition_pos_t where
  "no_pos = \<lparr> pos_offset = 0, pos_size = 0 \<rparr>"

definition empty_bs :: bootloader_state_t where
  "empty_bs = \<lparr> bs_ota_info = no_pos, bs_factory = no_pos, bs_test = no_pos, bs_ota = replicate MAX_OTA_SLOTS no_pos, bs_app_count = 0 \<rparr>"

text \<open>
  Options and results of secure boot and flash encryption. The last flags are what
  \<^verbatim>\<open>esp_secure_boot_enabled\<close>, \<^verbatim>\<open>esp_flash_encrypt_initialized_once\<close> and
  \<^verbatim>\<open>esp_flash_encryption_enabled\<close> return at their successive calls.
\<close>

record security =
  keys_burn_together :: bool
  secure_boot_v1 :: bool
  secure_boot_v2 :: bool
  flash_enc_configured :: bool
  require_already_enabled :: bool
  res_v2_enable :: esp_err
  res_generate_digest :: esp_err
  flash_encrypt_state :: bool
  enc_write_protected :: bool
  res_encrypt_init :: esp_err
  res_batch_commit :: esp_err
  res_encrypt_contents :: esp_err
  res_encrypt_enable :: esp_err
  res_v1_enable :: esp_err
  sb_enabled_before :: bool
  enc_initialized_once :: bool
  enc_enabled_before :: bool
  sb_enabled_at_commit :: bool
  sb_enabled_after :: bool
  enc_enabled_after :: bool

record boot_state = bl_flash_state +
  ota_has_initial_contents :: bool
  sec_version_field :: u32
  retain_mem :: rtc_retain_mem_t

record boot_env = mmu_env +
  boot_table_offset :: nat
  boot_md5 :: "u8 list \<Rightarrow> u8 list"
  boot_crc :: crc_fn
  app_rollback :: bool
  app_anti_rollback :: bool
  efuse_sec_ver_size :: nat
  bootloader_load_image :: "esp_partition_pos_t \<Rightarrow> flash \<Rightarrow> esp_err \<times> esp_image_metadata_t"
  bootloader_load_image_no_verify :: "esp_partition_pos_t \<Rightarrow> flash \<Rightarrow> esp_err \<times> esp_image_metadata_t"
  sha256 :: "u8 list \<Rightarrow> u8 list"
  boot_security :: security
  drom_low :: nat
  drom_high :: nat
  drom_end_entry_vaddr :: nat
  reserve_rtc_mem :: bool
  custom_rtc_in_crc :: bool
  skip_validate_in_deep_sleep :: bool
  rtc_fast_mem_supported :: bool
  reset_from_deep_sleep :: bool
  factory_reset :: bool
  factory_reset_level :: bool
  factory_reset_pin :: "(bool \<times> nat) list"
  ota_data_erase :: bool
  data_factory_reset :: "u8 list"
  app_test :: bool
  app_test_level :: bool
  app_test_pin :: "(bool \<times> nat) list"
  hold_time :: nat

section \<open>OTA data and application descriptions\<close>

definition bootloader_common_read_otadata :: "'e mmu_env_scheme \<Rightarrow> esp_partition_pos_t \<Rightarrow> 'a bl_flash_state_scheme \<Rightarrow>
    (esp_err \<times> two_otadata option) \<times> 'a bl_flash_state_scheme" where
  "bootloader_common_read_otadata env ota_info s =
     (if pos_offset ota_info = 0 then ((ESP_ERR_NOT_FOUND, None), s)
      else if pos_size ota_info < 2 * 4096 then ((ESP_FAIL, None), s)
      else case bootloader_mmap env (pos_offset ota_info) (pos_size ota_info) s of
             (None, s1) \<Rightarrow> ((ESP_FAIL, None), s1)
           | (Some p, s1) \<Rightarrow>
               ((ESP_OK, Some (rd_select (flash_view (bl_chip s1)) p, rd_select (flash_view (bl_chip s1)) (p + 4096))), bootloader_munmap s1))"

definition bootloader_common_get_partition_description :: "'e mmu_env_scheme \<Rightarrow> esp_partition_pos_t \<Rightarrow> 'a bl_flash_state_scheme \<Rightarrow>
    (esp_err \<times> u8 list) \<times> 'a bl_flash_state_scheme" where
  "bootloader_common_get_partition_description env part s =
     (if pos_offset part = 0 then ((ESP_ERR_INVALID_ARG, []), s)
      else case bootloader_mmap env (pos_offset part) (32 + 256) s of
             (None, s1) \<Rightarrow> ((ESP_FAIL, []), s1)
           | (Some p, s1) \<Rightarrow>
               let app_desc = rd_bytes (flash_view (bl_chip s1)) (p + 32) 256
               in (if rd32 (\<lambda>i. app_desc ! i) 0 \<noteq> 0xABCD5432 then (ESP_ERR_NOT_FOUND, app_desc) else (ESP_OK, app_desc), bootloader_munmap s1))"

section \<open>The partition table\<close>

definition table_entry :: "esp_partition_info_t \<Rightarrow> bootloader_state_t \<Rightarrow> bootloader_state_t" where
  "table_entry part bs =
     (if i_type part = PART_TYPE_APP then
        (if i_subtype part = PART_SUBTYPE_FACTORY then bs\<lparr> bs_factory := i_pos part \<rparr>
         else if i_subtype part = PART_SUBTYPE_TEST then bs\<lparr> bs_test := i_pos part \<rparr>
         else if i_subtype part div 16 * 16 = PART_SUBTYPE_OTA_FLAG then
           bs\<lparr> bs_ota := (bs_ota bs)[i_subtype part mod 16 := i_pos part], bs_app_count := bs_app_count bs + 1 \<rparr>
         else bs)
      else if i_type part = PART_TYPE_DATA then
        (if i_subtype part = PART_SUBTYPE_DATA_OTA then bs\<lparr> bs_ota_info := i_pos part \<rparr> else bs)
      else bs)"

definition table_entries :: "memory \<Rightarrow> nat \<Rightarrow> nat \<Rightarrow> esp_partition_info_t list" where
  "table_entries m base n = map (\<lambda>i. rd_info m (base + 32 * i)) [0..<n]"


text \<open>On a bad table the function returns without unmapping.\<close>

definition bootloader_utility_load_partition_table :: "boot_env \<Rightarrow> bootloader_state_t \<Rightarrow> boot_state \<Rightarrow> bool \<times> bootloader_state_t \<times> boot_state" where
  "bootloader_utility_load_partition_table env bs s =
     (case bootloader_mmap env (boot_table_offset env) ESP_PARTITION_TABLE_MAX_LEN s of
        (None, s1) \<Rightarrow> (False, bs, s1)
      | (Some partitions, s1) \<Rightarrow>
          let m = flash_view (bl_chip s1) in
          case esp_partition_table_verify (boot_md5 env) (chip_size (bl_chip s1)) m partitions of (err, num_partitions) \<Rightarrow>
            if err \<noteq> ESP_OK then (False, bs, s1)
            else (True, fold table_entry (table_entries m partitions num_partitions) bs, bootloader_munmap s1))"

definition index_to_partition :: "bootloader_state_t \<Rightarrow> int \<Rightarrow> esp_partition_pos_t" where
  "index_to_partition bs index =
     (if index = FACTORY_INDEX then bs_factory bs
      else if index = TEST_APP_INDEX then bs_test bs
      else if index \<ge> 0 \<and> index < int MAX_OTA_SLOTS \<and> index < int (bs_app_count bs) then bs_ota bs ! nat index
      else no_pos)"

section \<open>Choosing the boot partition\<close>

definition write_otadata :: "boot_env \<Rightarrow> esp_ota_select_entry_t \<Rightarrow> nat \<Rightarrow> bool \<Rightarrow> boot_state \<Rightarrow> esp_err \<times> boot_state" where
  "write_otadata env otadata offset write_encrypted s =
     (case bootloader_flash_erase_sector (offset div FLASH_SECTOR_SIZE) s of (err, s1) \<Rightarrow>
        if err = ESP_OK then bootloader_flash_write env offset (select_bytes otadata) True write_encrypted s1 else (err, s1))"

definition check_anti_rollback :: "boot_env \<Rightarrow> esp_partition_pos_t \<Rightarrow> boot_state \<Rightarrow> bool \<times> boot_state" where
  "check_anti_rollback env part s =
     (if app_anti_rollback env then
        (case bootloader_common_get_partition_description env part s of ((err, app_desc), s1) \<Rightarrow>
           if err \<noteq> ESP_OK then (False, s1)
           else (esp_efuse_check_secure_version (efuse_sec_ver_size env) (sec_version_field s1) (app_secure_version app_desc), s1))
      else (True, s))"

definition update_anti_rollback :: "boot_env \<Rightarrow> esp_partition_pos_t \<Rightarrow> boot_state \<Rightarrow> boot_state" where
  "update_anti_rollback env part s =
     (case bootloader_common_get_partition_description env part s of ((err, app_desc), s1) \<Rightarrow>
        if err = ESP_OK then
          s1\<lparr> sec_version_field := snd (esp_efuse_update_secure_version (efuse_sec_ver_size env) True True
                 (app_secure_version app_desc) (sec_version_field s1)) \<rparr>
        else s1)"

text \<open>
  \<^verbatim>\<open>(two_otadata[i].ota_seq - 1) % bs->app_count\<close>; \<open>None\<close> for a division by zero.
\<close>

definition slot_of :: "bootloader_state_t \<Rightarrow> esp_ota_select_entry_t \<Rightarrow> nat option" where
  "slot_of bs d = (if bs_app_count bs = 0 then None else Some (ota_slot d (bs_app_count bs)))"

definition sec_ver_valid :: "boot_env \<Rightarrow> bootloader_state_t \<Rightarrow> esp_ota_select_entry_t \<Rightarrow> boot_state \<Rightarrow> (bool \<times> boot_state) option" where
  "sec_ver_valid env bs d s =
     (if bootloader_common_ota_select_valid (boot_crc env) d then
        (case slot_of bs d of
           None \<Rightarrow> None
         | Some slot \<Rightarrow> if slot \<ge> MAX_OTA_SLOTS then None else Some (check_anti_rollback env (bs_ota bs ! slot) s))
      else Some (False, s))"

definition get_active_otadata_with_check_anti_rollback :: "boot_env \<Rightarrow> bootloader_state_t \<Rightarrow> two_otadata \<Rightarrow> boot_state \<Rightarrow> (int \<times> boot_state) option" where
  "get_active_otadata_with_check_anti_rollback env bs d s = do {
     (v0, s1) \<leftarrow> sec_ver_valid env bs (fst d) s;
     (v1, s2) \<leftarrow> sec_ver_valid env bs (snd d) s1;
     Some (bootloader_common_select_otadata (Some d) (Some (v0, v1)) True, s2)
   }"

text \<open>A record that was never written, or not completely.\<close>

definition initial_otadata :: "boot_env \<Rightarrow> esp_ota_select_entry_t \<Rightarrow> bool" where
  "initial_otadata env d \<longleftrightarrow> ota_seq d = UINT32_MAX \<or> ota_crc d \<noteq> bootloader_common_ota_select_crc (boot_crc env) d"

text \<open>One round of the loop that turns \<^verbatim>\<open>PENDING_VERIFY\<close> into \<^verbatim>\<open>ABORTED\<close>; write errors are ignored.\<close>

definition abort_pending :: "boot_env \<Rightarrow> bootloader_state_t \<Rightarrow> int \<Rightarrow> two_otadata \<times> boot_state \<Rightarrow> two_otadata \<times> boot_state" where
  "abort_pending env bs i ds =
     (case ds of (d, s) \<Rightarrow>
        if ota_state (otadata_at d i) = ESP_OTA_IMG_PENDING_VERIFY then
          let d1 = set_state d i ESP_OTA_IMG_ABORTED
          in (d1, snd (write_otadata env (otadata_at d1 i) (add32 (pos_offset (bs_ota_info bs)) (FLASH_SECTOR_SIZE * nat i))
                (enc_enabled (bl_chip s)) s))
        else (d, s))"

text \<open>What follows once an active record has been chosen.\<close>

definition boot_active :: "boot_env \<Rightarrow> bootloader_state_t \<Rightarrow> two_otadata \<Rightarrow> int \<Rightarrow> boot_state \<Rightarrow> (int \<times> boot_state) option" where
  "boot_active env bs d active s =
     (if active \<noteq> - 1 then do {
        slot \<leftarrow> slot_of bs (otadata_at d active);
        let (d1, s1) = (if app_rollback env \<and> ota_state (otadata_at d active) = ESP_OTA_IMG_NEW then
              let d1 = set_state d active ESP_OTA_IMG_PENDING_VERIFY
              in (d1, snd (write_otadata env (otadata_at d1 active) (add32 (pos_offset (bs_ota_info bs)) (FLASH_SECTOR_SIZE * nat active))
                    (enc_enabled (bl_chip s)) s))
            else (d, s));
        if app_anti_rollback env \<and> ota_state (otadata_at d1 active) = ESP_OTA_IMG_VALID then
          (if slot \<ge> MAX_OTA_SLOTS then None else Some (int slot, update_anti_rollback env (bs_ota bs ! slot) s1))
        else Some (int slot, s1)
      }
      else Some (FACTORY_INDEX, s))"

definition bootloader_utility_get_selected_boot_partition :: "boot_env \<Rightarrow> bootloader_state_t \<Rightarrow> boot_state \<Rightarrow> (int \<times> boot_state) option" where
  "bootloader_utility_get_selected_boot_partition env bs s =
     (if pos_offset (bs_ota_info bs) = 0 then Some (FACTORY_INDEX, s)
      else case bootloader_common_read_otadata env (bs_ota_info bs) s of
        ((err, None), s1) \<Rightarrow> Some (INVALID_INDEX, s1)
      | ((err, Some otadata), s1) \<Rightarrow>
          if err \<noteq> ESP_OK then Some (INVALID_INDEX, s1)
          else
            let s2 = s1\<lparr> ota_has_initial_contents := False \<rparr>;
                (d, s3) = (if app_rollback env then abort_pending env bs 1 (abort_pending env bs 0 (otadata, s2)) else (otadata, s2))
            in if \<not> app_anti_rollback env then
                 (if (bootloader_common_ota_select_invalid (fst d) \<and> bootloader_common_ota_select_invalid (snd d)) \<or> bs_app_count bs = 0 then
                    (if pos_offset (bs_factory bs) \<noteq> 0 then Some (FACTORY_INDEX, s3)
                     else if initial_otadata env (fst d) \<and> initial_otadata env (snd d)
                     then Some (0, s3\<lparr> ota_has_initial_contents := True \<rparr>)
                     else Some (0, s3))
                  else boot_active env bs d (bootloader_common_get_active_otadata (boot_crc env) (Some d)) s3)
               else
                 (if initial_otadata env (fst d) \<and> initial_otadata env (snd d)
                  then Some (FACTORY_INDEX, s3\<lparr> ota_has_initial_contents := True \<rparr>)
                  else do {
                    (active, s4) \<leftarrow> get_active_otadata_with_check_anti_rollback env bs d s3;
                    boot_active env bs d active s4
                  }))"

section \<open>Starting an image\<close>

datatype sec_call = SecureBootV2Enable | GenerateDigest | EncryptInit | BatchBegin | BatchCommit | EncryptContents
  | EncryptEnable | SecureBootV1Enable

datatype load_exit = LoadReturned | LoadAborted | LoadReset | LoadStarted

text \<open>
  \<^verbatim>\<open>load_image\<close> up to the call of \<^verbatim>\<open>unpack_load_app\<close>: how it ends and which calls it made on the
  way. \<open>sec_do\<close> makes a call and returns from the function if it fails.
\<close>

definition sec_do :: "sec_call \<Rightarrow> esp_err \<Rightarrow> load_exit \<times> sec_call list \<Rightarrow> load_exit \<times> sec_call list" where
  "sec_do c r rest = (if r \<noteq> ESP_OK then (LoadReturned, [c]) else (fst rest, c # snd rest))"

definition load_image_finish :: "security \<Rightarrow> load_exit \<times> sec_call list" where
  "load_image_finish sec =
     (let fin = (if flash_enc_configured sec \<and> \<not> flash_encrypt_state sec \<and> enc_enabled_after sec then LoadReset else LoadStarted)
      in if secure_boot_v1 sec then
           (if res_v1_enable sec \<noteq> ESP_OK then LoadAborted else fin, [SecureBootV1Enable])
         else (fin, []))"

definition load_image_encrypt :: "security \<Rightarrow> load_exit \<times> sec_call list" where
  "load_image_encrypt sec =
     (if flash_enc_configured sec \<and> \<not> flash_encrypt_state sec
      then sec_do EncryptContents (res_encrypt_contents sec) (sec_do EncryptEnable (res_encrypt_enable sec) (load_image_finish sec))
      else load_image_finish sec)"

definition load_image_commit :: "security \<Rightarrow> load_exit \<times> sec_call list" where
  "load_image_commit sec =
     (if flash_enc_configured sec \<and> keys_burn_together sec \<and> (\<not> sb_enabled_at_commit sec \<or> \<not> flash_encrypt_state sec) then
        sec_do BatchCommit (res_batch_commit sec) (if \<not> sb_enabled_after sec then (LoadAborted, []) else load_image_encrypt sec)
      else load_image_encrypt sec)"

definition load_image_key :: "security \<Rightarrow> load_exit \<times> sec_call list" where
  "load_image_key sec =
     (if flash_enc_configured sec \<and> \<not> flash_encrypt_state sec then
        (if require_already_enabled sec then (LoadReturned, [])
         else if enc_write_protected sec then (LoadReturned, [])
         else sec_do EncryptInit (res_encrypt_init sec) (load_image_commit sec))
      else load_image_commit sec)"

definition load_image :: "security \<Rightarrow> load_exit \<times> sec_call list" where
  "load_image sec =
     (if keys_burn_together sec \<and> sb_enabled_before sec \<noteq> enc_initialized_once sec then (LoadReturned, [])
      else
        let step1 = (if secure_boot_v1 sec then sec_do GenerateDigest (res_generate_digest sec) (load_image_key sec) else load_image_key sec);
            step2 = (if secure_boot_v2 sec then sec_do SecureBootV2Enable (res_v2_enable sec) step1 else step1)
        in if keys_burn_together sec \<and> (\<not> sb_enabled_before sec \<or> \<not> enc_enabled_before sec)
           then (fst step2, BatchBegin # snd step2) else step2)"

text \<open>
  The MMU mappings of the application, for targets with one virtual address space for code and
  data (\<^verbatim>\<open>SOC_MMU_DI_VADDR_SHARED\<close>) and no segments in PSRAM.
\<close>

record mmu_map =
  map_vaddr :: nat
  map_paddr :: nat
  map_len :: nat

definition set_cache_and_start_app :: "boot_env \<Rightarrow> nat \<times> nat \<times> nat \<Rightarrow> nat \<times> nat \<times> nat \<Rightarrow> esp_image_metadata_t \<Rightarrow> mmu_map list" where
  "set_cache_and_start_app env drom irom data =
     (let page = img_mmu_page_size data;
          aligned = (\<lambda>a. a - a mod page);
          region = (\<lambda>(addr, load_addr, len). \<lparr> map_vaddr = aligned load_addr, map_paddr = aligned addr,
                      map_len = add32 (load_addr - aligned load_addr) len \<rparr>)
      in [region drom, \<lparr> map_vaddr = drom_end_entry_vaddr env, map_paddr = aligned (fst drom), map_len = page \<rparr>, region irom])"

definition unpack_load_app :: "boot_env \<Rightarrow> esp_image_metadata_t \<Rightarrow> mmu_map list option" where
  "unpack_load_app env data =
     (let roms = [(addr, seg_load_addr h, seg_data_len h). (h, addr) \<leftarrow> zip (img_segments data) (img_segment_data data),
                    drom_low env \<le> seg_load_addr h \<and> seg_load_addr h < drom_high env]
      in case roms of [drom, irom] \<Rightarrow> Some (set_cache_and_start_app env drom irom data) | _ \<Rightarrow> None)"

datatype boot_end = Started esp_partition_pos_t esp_image_metadata_t "mmu_map list" | BootReset | BootAborted

text \<open>\<open>None\<close>: the call of \<^verbatim>\<open>load_image\<close> returns.\<close>

definition start_image :: "boot_env \<Rightarrow> esp_partition_pos_t \<Rightarrow> esp_image_metadata_t \<Rightarrow> boot_end option" where
  "start_image env part data =
     (case fst (load_image (boot_security env)) of
        LoadReturned \<Rightarrow> None
      | LoadAborted \<Rightarrow> Some BootAborted
      | LoadReset \<Rightarrow> Some BootReset
      | LoadStarted \<Rightarrow> (case unpack_load_app env data of None \<Rightarrow> Some BootAborted | Some maps \<Rightarrow> Some (Started part data maps)))"

section \<open>Trying the partitions\<close>

definition try_load_partition :: "boot_env \<Rightarrow> esp_partition_pos_t \<Rightarrow> boot_state \<Rightarrow> esp_image_metadata_t option" where
  "try_load_partition env part s =
     (if pos_size part = 0 then None
      else case bootloader_load_image env part (bl_chip s) of (err, data) \<Rightarrow> if err = ESP_OK then Some data else None)"

definition set_actual_ota_seq :: "boot_env \<Rightarrow> bootloader_state_t \<Rightarrow> int \<Rightarrow> boot_state \<Rightarrow> boot_state" where
  "set_actual_ota_seq env bs index s =
     (let s1 = (if index > FACTORY_INDEX \<and> ota_has_initial_contents s then
            let d = \<lparr> ota_seq = of_int (index + 1), seq_label = replicate 20 0xFF, ota_state = ESP_OTA_IMG_VALID, ota_crc = UINT32_MAX \<rparr>;
                otadata = d\<lparr> ota_crc := bootloader_common_ota_select_crc (boot_crc env) d \<rparr>;
                s0 = snd (write_otadata env otadata (pos_offset (bs_ota_info bs)) (enc_enabled (bl_chip s)) s)
            in if app_anti_rollback env then update_anti_rollback env (bs_ota bs ! nat index) s0 else s0
          else s)
      in if reserve_rtc_mem env then
           s1\<lparr> retain_mem := bootloader_common_update_rtc_retain_mem (boot_crc env) (custom_rtc_in_crc env)
             (if skip_validate_in_deep_sleep env then Some (index_to_partition bs index) else None) True (retain_mem s1) \<rparr>
         else s1)"

text \<open>
  Checks a partition and starts its image; \<open>index\<close> is given when \<^verbatim>\<open>set_actual_ota_seq\<close> is called
  before the start. Returns the end of the boot, if there is one, and the state.
\<close>

definition try_partition :: "boot_env \<Rightarrow> bootloader_state_t \<Rightarrow> int option \<Rightarrow> esp_partition_pos_t \<Rightarrow> boot_state \<Rightarrow> boot_end option \<times> boot_state" where
  "try_partition env bs index part s =
     (case check_anti_rollback env part s of (ok, s1) \<Rightarrow>
        if \<not> ok then (None, s1)
        else case try_load_partition env part s1 of
               None \<Rightarrow> (None, s1)
             | Some data \<Rightarrow>
                 let s2 = (case index of None \<Rightarrow> s1 | Some i \<Rightarrow> set_actual_ota_seq env bs i s1)
                 in (start_image env part data, s2))"

fun try_indices :: "boot_env \<Rightarrow> bootloader_state_t \<Rightarrow> int list \<Rightarrow> boot_state \<Rightarrow> boot_end option \<times> boot_state" where
  "try_indices env bs [] s = (None, s)"
| "try_indices env bs (index # rest) s =
     (let part = index_to_partition bs index in
      if pos_size part = 0 then try_indices env bs rest s
      else case try_partition env bs (Some index) part s of
             (Some e, s1) \<Rightarrow> (Some e, s1)
           | (None, s1) \<Rightarrow> try_indices env bs rest s1)"

text \<open>The two loops of \<^verbatim>\<open>bootloader_utility_load_boot_image\<close> and what follows them.\<close>

definition try_all :: "boot_env \<Rightarrow> bootloader_state_t \<Rightarrow> int \<Rightarrow> boot_state \<Rightarrow> boot_end \<times> boot_state" where
  "try_all env bs start_index s =
     (case try_indices env bs (rev [FACTORY_INDEX..start_index]) s of
        (Some e, s1) \<Rightarrow> (e, s1)
      | (None, s1) \<Rightarrow>
          (case try_indices env bs [start_index + 1..int (bs_app_count bs) - 1] s1 of
             (Some e, s2) \<Rightarrow> (e, s2)
           | (None, s2) \<Rightarrow>
               (case try_partition env bs None (bs_test bs) s2 of
                  (Some e, s3) \<Rightarrow> (e, s3)
                | (None, s3) \<Rightarrow> (BootReset, s3))))"

definition bootloader_utility_load_boot_image :: "boot_env \<Rightarrow> bootloader_state_t \<Rightarrow> int \<Rightarrow> boot_state \<Rightarrow> boot_end \<times> boot_state" where
  "bootloader_utility_load_boot_image env bs start_index s =
     (if start_index = TEST_APP_INDEX then
        (case check_anti_rollback env (bs_test bs) s of (ok, s1) \<Rightarrow>
           if \<not> ok then (BootReset, s1)
           else case try_load_partition env (bs_test bs) s1 of
                  None \<Rightarrow> (BootReset, s1)
                | Some data \<Rightarrow>
                    (case start_image env (bs_test bs) data of Some e \<Rightarrow> (e, s1) | None \<Rightarrow> try_all env bs start_index s1))
      else try_all env bs start_index s)"

text \<open>After deep sleep the last partition is started without verification.\<close>

definition fast_boot_partition :: "boot_env \<Rightarrow> boot_state \<Rightarrow> (esp_partition_pos_t option \<times> boot_state) option" where
  "fast_boot_partition env s =
     (case bootloader_utility_load_partition_table env empty_bs s of (ok, bs, s1) \<Rightarrow>
        if \<not> ok then Some (None, s1)
        else
          case (if pos_size (bs_ota_info bs) \<noteq> 0 then bootloader_common_read_otadata env (bs_ota_info bs) s1 else ((ESP_FAIL, None), s1)) of
            ((ESP_OK, Some d), s2) \<Rightarrow>
              let active = bootloader_common_get_active_otadata (boot_crc env) (Some d) in
              if active \<noteq> - 1 then do {
                slot \<leftarrow> slot_of bs (otadata_at d active);
                Some (Some (index_to_partition bs (int slot)), s2)
              }
              else Some (Some (bs_factory bs), s2)
          | (_, s2) \<Rightarrow> Some (Some (bs_factory bs), s2))"

definition bootloader_utility_load_boot_image_from_deep_sleep :: "boot_env \<Rightarrow> boot_state \<Rightarrow> (boot_end option \<times> boot_state) option" where
  "bootloader_utility_load_boot_image_from_deep_sleep env s =
     (if \<not> reset_from_deep_sleep env then Some (None, s)
      else if rtc_fast_mem_supported env then
        (case bootloader_common_get_rtc_retain_mem_partition (boot_crc env) (custom_rtc_in_crc env) (retain_mem s) of
           None \<Rightarrow> Some (None, s)
         | Some part \<Rightarrow>
             (case bootloader_load_image_no_verify env part (bl_chip s) of (err, data) \<Rightarrow>
                if err \<noteq> ESP_OK then Some (None, s)
                else
                  let s1 = s\<lparr> retain_mem := bootloader_common_update_rtc_retain_mem (boot_crc env) (custom_rtc_in_crc env) None True (retain_mem s) \<rparr>
                  in Some (start_image env part data, s1)))
      else do {
        (p, s1) \<leftarrow> fast_boot_partition env s;
        case p of
          None \<Rightarrow> Some (None, s1)
        | Some part \<Rightarrow>
            if pos_size part = 0 then Some (None, s1)
            else (case bootloader_load_image_no_verify env part (bl_chip s1) of (err, data) \<Rightarrow>
                    if err \<noteq> ESP_OK then Some (None, s1) else Some (start_image env part data, s1))
      })"

section \<open>Hashing flash contents\<close>

text \<open>
  The loop maps as many pages as there are; \<open>acc\<close> is what the hash has consumed.
\<close>

function sha_loop :: "boot_env \<Rightarrow> nat \<Rightarrow> nat \<Rightarrow> u8 list \<Rightarrow> boot_state \<Rightarrow> (esp_err \<times> u8 list) \<times> boot_state" where
  "sha_loop env flash_offset len acc s =
     (if len = 0 then ((ESP_OK, sha256 env acc), s)
      else
        let free_pages = bootloader_mmap_get_free_pages env;
            mmu_page_offset = (if flash_offset mod mmu_page_size env \<noteq> 0 then 1 else 0);
            max_pages = free_pages - mmu_page_offset;
            max_image_len = (if max_pages * mmu_page_size env \<ge> 2 ^ 32 then 2 ^ 32 - 1 else max_pages * mmu_page_size env);
            partial_image_len = min len max_image_len
        in if max_pages = 0 then ((ESP_ERR_NO_MEM, []), s)
           else case bootloader_mmap env flash_offset partial_image_len s of
                  (None, s1) \<Rightarrow> ((ESP_FAIL, []), s1)
                | (Some p, s1) \<Rightarrow>
                    sha_loop env (add32 flash_offset partial_image_len) (len - partial_image_len)
                      (acc @ rd_bytes (flash_view (bl_chip s1)) p partial_image_len) (bootloader_munmap s1))"
  by pat_completeness auto
termination
proof (relation "measure (\<lambda>(env, off, n, acc, s). n)", goal_cases)
  case (2 env off len acc s fp po mp mx pl b s1 p)
  then have "mmu_page_size env \<noteq> 0"
    by (auto simp: bootloader_mmap_get_free_pages_def intro: ccontr)
  then show ?case using 2 by auto
qed simp

declare sha_loop.simps [simp del]

definition bootloader_sha256_flash_contents :: "boot_env \<Rightarrow> nat \<Rightarrow> nat \<Rightarrow> boot_state \<Rightarrow> (esp_err \<times> u8 list) \<times> boot_state" where
  "bootloader_sha256_flash_contents env flash_offset len s = sha_loop env flash_offset len [] s"

definition hex_digit :: "u8 \<Rightarrow> u8" where
  "hex_digit n = (if n < 10 then 48 + n else 97 + n - 10)"

definition bootloader_sha256_hex_to_str :: "u8 list \<Rightarrow> esp_err \<times> u8 list" where
  "bootloader_sha256_hex_to_str in_array =
     (if in_array = [] then (ESP_ERR_INVALID_ARG, [])
      else (ESP_OK, concat (map (\<lambda>b. [hex_digit (drop_bit 4 b AND 0x0F), hex_digit (b AND 0x0F)]) in_array)))"

end
