(* ===== verification/Boot_Start.thy ===== *)
theory Boot_Start
  imports Bootloader
begin

text \<open>
  Factory reset (\<^verbatim>\<open>bootloader_common.c\<close>) and the entry point of the bootloader
  (\<^verbatim>\<open>bootloader_start.c\<close>). A C string is its list of characters without the terminating zero.
\<close>

section \<open>Searching a label in a list\<close>

text \<open>The position of the first occurrence, and the length of the initial part without characters of a set.\<close>

fun strstr :: "'a list \<Rightarrow> 'a list \<Rightarrow> nat option" where
  "strstr [] needle = (if needle = [] then Some 0 else None)"
| "strstr (c # cs) needle =
     (if take (length needle) (c # cs) = needle then Some 0 else map_option Suc (strstr cs needle))"

definition strcspn :: "'a list \<Rightarrow> 'a set \<Rightarrow> nat" where
  "strcspn cs reject = length (takeWhile (\<lambda>c. c \<notin> reject) cs)"

abbreviation (input) delims :: "u8 set" where "delims \<equiv> {44, 32}"

text \<open>
  The loop, with \<^verbatim>\<open>sub_list_start_like_label\<close> at position \<open>pos\<close> of the list.
\<close>

definition label_here :: "u8 list \<Rightarrow> u8 list \<Rightarrow> nat \<Rightarrow> bool" where
  "label_here ls label pos \<longleftrightarrow>
     (pos = 0 \<or> ls ! (pos - 1) \<in> delims) \<and>
     (pos + length label = length ls \<or> ls ! (pos + length label) \<in> delims)"

partial_function (option) label_loop :: "u8 list \<Rightarrow> u8 list \<Rightarrow> nat \<Rightarrow> bool option" where
  "label_loop ls label pos =
     (if label_here ls label pos then Some True
      else
        let sub = drop pos ls; pos_delim = strcspn sub delims in
        if pos_delim = length sub then Some False
        else case strstr (drop pos_delim sub) label of
               None \<Rightarrow> Some False
             | Some k \<Rightarrow> label_loop ls label (pos + pos_delim + k))"

definition bootloader_common_label_search :: "u8 list option \<Rightarrow> u8 list option \<Rightarrow> bool option" where
  "bootloader_common_label_search lst label =
     (case (lst, label) of
        (Some ls, Some lb) \<Rightarrow> (case strstr ls lb of None \<Rightarrow> Some False | Some pos \<Rightarrow> label_loop ls lb pos)
      | _ \<Rightarrow> Some False)"

section \<open>Erasing data partitions\<close>

fun erase_data_parts :: "u8 list \<Rightarrow> bool \<Rightarrow> esp_partition_info_t list \<Rightarrow> bool \<Rightarrow> boot_state \<Rightarrow> (bool \<times> boot_state) option" where
  "erase_data_parts list_erase ota_erase [] ret s = Some (ret, s)"
| "erase_data_parts list_erase ota_erase (part # parts) ret s =
     (if i_type part \<noteq> PART_TYPE_DATA then erase_data_parts list_erase ota_erase parts ret s
      else do {
        found \<leftarrow> (if ota_erase \<and> i_subtype part = PART_SUBTYPE_DATA_OTA then Some True
                  else bootloader_common_label_search (Some list_erase) (Some (cstr 16 (i_label part))));
        if found then
          (case bootloader_flash_erase_range (pos_offset (i_pos part)) (pos_size (i_pos part)) s of (err, s1) \<Rightarrow>
             erase_data_parts list_erase ota_erase parts (ret \<and> err = ESP_OK) s1)
        else erase_data_parts list_erase ota_erase parts ret s
      })"

definition bootloader_common_erase_part_type_data :: "boot_env \<Rightarrow> u8 list \<Rightarrow> bool \<Rightarrow> boot_state \<Rightarrow> (bool \<times> boot_state) option" where
  "bootloader_common_erase_part_type_data env list_erase ota_erase s =
     (case bootloader_mmap env (boot_table_offset env) ESP_PARTITION_TABLE_MAX_LEN s of
        (None, s1) \<Rightarrow> Some (False, s1)
      | (Some partitions, s1) \<Rightarrow>
          let m = flash_view (bl_chip s1) in
          case esp_partition_table_verify (boot_md5 env) (chip_size (bl_chip s1)) m partitions of (err, num_partitions) \<Rightarrow>
            if err \<noteq> ESP_OK then Some (False, bootloader_munmap s1)
            else do {
              (ret, s2) \<leftarrow> erase_data_parts list_erase ota_erase (table_entries m partitions num_partitions) True s1;
              Some (ret, bootloader_munmap s2)
            })"

definition bootloader_common_get_sha256_of_partition :: "boot_env \<Rightarrow> (esp_partition_pos_t \<Rightarrow> flash \<Rightarrow> esp_err \<times> esp_image_metadata_t) \<Rightarrow>
    nat \<Rightarrow> nat \<Rightarrow> nat \<Rightarrow> boot_state \<Rightarrow> (esp_err \<times> u8 list) \<times> boot_state" where
  "bootloader_common_get_sha256_of_partition env get_metadata address len type s =
     (if len = 0 then ((ESP_ERR_INVALID_ARG, []), s)
      else if type = PART_TYPE_APP \<or> type = PART_TYPE_BOOTLOADER then
        (case get_metadata \<lparr> pos_offset = address, pos_size = len \<rparr> (bl_chip s) of (err, data) \<Rightarrow>
           if err \<noteq> ESP_OK then ((ESP_ERR_IMAGE_INVALID, []), s)
           else if hdr_hash_appended (img_header data) then
             (case bootloader_sha256_flash_contents env address (sub32 (img_len data) 32) s of ((e, calc_sha256), s1) \<Rightarrow>
                if e \<noteq> ESP_OK \<or> img_digest data \<noteq> calc_sha256 then ((ESP_ERR_IMAGE_INVALID, img_digest data), s1)
                else ((ESP_OK, img_digest data), s1))
           else bootloader_sha256_flash_contents env address (img_len data) s)
      else bootloader_sha256_flash_contents env address len s)"

section \<open>Buttons\<close>

datatype esp_comm_gpio_hold_t = GPIO_NOT_HOLD | GPIO_SHORT_HOLD | GPIO_LONG_HOLD

text \<open>
  A pin is the list of its levels at the successive queries, with the time in milliseconds at
  the query of the clock that goes with it; the first time is \<^verbatim>\<open>tm_start\<close>. \<open>None\<close>: the list ends
  while the pin is still held.
\<close>

fun hold_loop :: "nat \<Rightarrow> nat \<Rightarrow> bool \<Rightarrow> (bool \<times> nat) list \<Rightarrow> esp_comm_gpio_hold_t option" where
  "hold_loop delay_sec tm_start level [] = None"
| "hold_loop delay_sec tm_start level ((lv, t) # rest) =
     (if lv \<noteq> level then Some GPIO_SHORT_HOLD
      else if delay_sec > sub32 t tm_start div 1000 then hold_loop delay_sec tm_start level rest
      else Some GPIO_LONG_HOLD)"

fun bootloader_common_check_long_hold_gpio_level :: "nat \<Rightarrow> bool \<Rightarrow> (bool \<times> nat) list \<Rightarrow> esp_comm_gpio_hold_t option" where
  "bootloader_common_check_long_hold_gpio_level delay_sec level [] = None"
| "bootloader_common_check_long_hold_gpio_level delay_sec level ((lv, tm_start) # rest) =
     (if lv \<noteq> level then Some GPIO_NOT_HOLD else hold_loop delay_sec tm_start level rest)"

section \<open>Entry point\<close>

definition test_requested :: "boot_env \<Rightarrow> bootloader_state_t \<Rightarrow> int \<Rightarrow> boot_state \<Rightarrow> (int \<times> boot_state) option" where
  "test_requested env bs boot_index s =
     (if app_test env then do {
        h \<leftarrow> bootloader_common_check_long_hold_gpio_level (hold_time env) (app_test_level env) (app_test_pin env);
        if h = GPIO_LONG_HOLD then Some (if pos_offset (bs_test bs) \<noteq> 0 then TEST_APP_INDEX else INVALID_INDEX, s)
        else Some (boot_index, s)
      }
      else Some (boot_index, s))"

definition selected_boot_partition :: "boot_env \<Rightarrow> bootloader_state_t \<Rightarrow> boot_state \<Rightarrow> (int \<times> boot_state) option" where
  "selected_boot_partition env bs s = do {
     (boot_index, s1) \<leftarrow> bootloader_utility_get_selected_boot_partition env bs s;
     if boot_index = INVALID_INDEX then Some (boot_index, s1)
     else if reset_from_deep_sleep env then Some (boot_index, s1)
     else if factory_reset env then do {
       h \<leftarrow> bootloader_common_check_long_hold_gpio_level (hold_time env) (factory_reset_level env) (factory_reset_pin env);
       if h = GPIO_LONG_HOLD then do {
         (_, s2) \<leftarrow> bootloader_common_erase_part_type_data env (data_factory_reset env) (ota_data_erase env) s1;
         let s3 = (if reserve_rtc_mem env then
             s2\<lparr> retain_mem := bootloader_common_set_rtc_retain_mem_factory_reset_state (boot_crc env) (custom_rtc_in_crc env) (retain_mem s2) \<rparr>
           else s2);
         bootloader_utility_get_selected_boot_partition env bs s3
       }
       else test_requested env bs boot_index s1
     }
     else test_requested env bs boot_index s1
   }"

definition select_partition_number :: "boot_env \<Rightarrow> bootloader_state_t \<Rightarrow> boot_state \<Rightarrow> (int \<times> bootloader_state_t \<times> boot_state) option" where
  "select_partition_number env bs s =
     (case bootloader_utility_load_partition_table env bs s of (ok, bs1, s1) \<Rightarrow>
        if \<not> ok then Some (INVALID_INDEX, bs1, s1)
        else do {
          (i, s2) \<leftarrow> selected_boot_partition env bs1 s1;
          Some (i, bs1, s2)
        })"

text \<open>\<open>init\<close> is the result of \<^verbatim>\<open>bootloader_init\<close>; the hooks are not linked in.\<close>

definition call_start_cpu0 :: "boot_env \<Rightarrow> esp_err \<Rightarrow> boot_state \<Rightarrow> (boot_end \<times> boot_state) option" where
  "call_start_cpu0 env init s =
     (if init \<noteq> ESP_OK then Some (BootReset, s)
      else do {
        (e, s1) \<leftarrow> (if skip_validate_in_deep_sleep env then bootloader_utility_load_boot_image_from_deep_sleep env s else Some (None, s));
        case e of
          Some fin \<Rightarrow> Some (fin, s1)
        | None \<Rightarrow> do {
            (boot_index, bs, s2) \<leftarrow> select_partition_number env empty_bs s1;
            if boot_index = INVALID_INDEX then Some (BootReset, s2)
            else Some (bootloader_utility_load_boot_image env bs boot_index s2)
          }
      })"

end
