(* ===== verification/Boot_Order.thy ===== *)
theory Boot_Order
  imports Boot_Start Ota_Select "HOL-Library.Sublist"
begin

text \<open>
  The order in which the bootloader tries the partitions, and what it starts.
\<close>

section \<open>Trying partitions in order\<close>

definition boot_order :: "bootloader_state_t \<Rightarrow> int \<Rightarrow> esp_partition_pos_t list" where
  "boot_order bs start =
     (if start = TEST_APP_INDEX then [bs_test bs]
      else map (index_to_partition bs) (rev [FACTORY_INDEX..start] @ [start + 1..int (bs_app_count bs) - 1]) @ [bs_test bs])"

text \<open>The checks before an image is started.\<close>

definition bootable :: "boot_env \<Rightarrow> boot_state \<Rightarrow> esp_partition_pos_t \<Rightarrow> bool" where
  "bootable env s part \<longleftrightarrow> pos_size part \<noteq> 0 \<and> fst (check_anti_rollback env part s) \<and> fst (bootloader_load_image env part (bl_chip s)) = ESP_OK"

definition start_result :: "boot_env \<Rightarrow> boot_state \<Rightarrow> esp_partition_pos_t \<Rightarrow> boot_end" where
  "start_result env s part =
     (let data = snd (bootloader_load_image env part (bl_chip s))
      in case unpack_load_app env data of None \<Rightarrow> BootAborted | Some maps \<Rightarrow> Started part data maps)"

lemma unmap_map [simp]: "\<not> mapped s \<Longrightarrow> bootloader_munmap (s\<lparr> mapped := True \<rparr>) = s"
  by (simp add: bootloader_munmap_def)

lemma description_state: "snd (bootloader_common_get_partition_description env part s) = s"
  using mmap_cases [of env "pos_offset part" 288 s]
  by (auto simp: bootloader_common_get_partition_description_def Let_def)

lemma check_state: "snd (check_anti_rollback env part s) = s"
  using description_state [of env part s] by (auto simp: check_anti_rollback_def split: prod.splits)

lemma try_partition_result:
  assumes "fst (load_image (boot_security env)) = LoadStarted"
  shows "if bootable env s part then fst (try_partition env bs idx part s) = Some (start_result env s part)
    else try_partition env bs idx part s = (None, s)"
  using assms check_state [of env part s]
  by (auto simp: try_partition_def bootable_def try_load_partition_def start_image_def start_result_def Let_def split: prod.splits option.splits)

lemma try_indices_result:
  assumes "fst (load_image (boot_security env)) = LoadStarted"
  shows "case List.find (bootable env s) (map (index_to_partition bs) is) of
      None \<Rightarrow> try_indices env bs is s = (None, s)
    | Some part \<Rightarrow> fst (try_indices env bs is s) = Some (start_result env s part)"
proof (induction "is")
  case (Cons i "is")
  let ?p = "index_to_partition bs i"
  note t = try_partition_result [OF assms, of s ?p bs "Some i"]
  show ?case
  proof (cases "bootable env s ?p")
    case True
    then have "pos_size ?p \<noteq> 0" by (simp add: bootable_def)
    then show ?thesis using True t by (auto simp: Let_def split: prod.splits)
  next
    case False
    then have "try_indices env bs (i # is) s = try_indices env bs is s" using t by (simp add: Let_def)
    then show ?thesis using Cons.IH False by (simp del: try_indices.simps split: option.splits)
  qed
qed simp

lemma find_append: "List.find P (xs @ ys) = (case List.find P xs of None \<Rightarrow> List.find P ys | Some x \<Rightarrow> Some x)"
  by (induction xs) auto

lemma load_boot_image_result:
  assumes "fst (load_image (boot_security env)) = LoadStarted"
  shows "fst (bootloader_utility_load_boot_image env bs start s) =
    (case List.find (bootable env s) (boot_order bs start) of None \<Rightarrow> BootReset | Some part \<Rightarrow> start_result env s part)"
proof (cases "start = TEST_APP_INDEX")
  case True
  then show ?thesis using assms check_state [of env "bs_test bs" s]
    by (auto simp: bootloader_utility_load_boot_image_def boot_order_def bootable_def try_load_partition_def start_image_def start_result_def
        Let_def split: prod.splits option.splits)
next
  case start: False
  let ?b = "rev [FACTORY_INDEX..start]" and ?f = "[start + 1..int (bs_app_count bs) - 1]"
  note b = try_indices_result [OF assms, of bs ?b s] and f = try_indices_result [OF assms, of bs ?f s]
    and t = try_partition_result [OF assms, of s "bs_test bs" bs None]
  have fo: "List.find (bootable env s) (boot_order bs start) =
     (case List.find (bootable env s) (map (index_to_partition bs) ?b) of Some p \<Rightarrow> Some p | None \<Rightarrow>
        (case List.find (bootable env s) (map (index_to_partition bs) ?f) of Some p \<Rightarrow> Some p | None \<Rightarrow>
           (if bootable env s (bs_test bs) then Some (bs_test bs) else None)))"
    using start by (simp add: boot_order_def find_append split: option.splits)
  show ?thesis
  proof (cases "List.find (bootable env s) (map (index_to_partition bs) ?b)")
    case (Some p)
    then show ?thesis using b fo start by (auto simp: bootloader_utility_load_boot_image_def try_all_def split: prod.splits)
  next
    case None
    then have nb: "try_indices env bs ?b s = (None, s)" using b by simp
    show ?thesis
    proof (cases "List.find (bootable env s) (map (index_to_partition bs) ?f)")
      case (Some p)
      then show ?thesis using nb f fo None start by (auto simp: bootloader_utility_load_boot_image_def try_all_def split: prod.splits)
    next
      case None': None
      then have nf: "try_indices env bs ?f s = (None, s)" using f by simp
      show ?thesis using nb nf t fo None None' start
        by (auto simp: bootloader_utility_load_boot_image_def try_all_def split: prod.splits if_splits)
    qed
  qed
qed

text \<open>An image is started only when the security steps allow it.\<close>

lemma not_started_image: "fst (load_image (boot_security env)) \<noteq> LoadStarted \<Longrightarrow> start_image env part data \<noteq> Some (Started p d m)"
  by (auto simp: start_image_def split: load_exit.splits)

lemma not_started_partition:
  "fst (load_image (boot_security env)) \<noteq> LoadStarted \<Longrightarrow> try_partition env bs idx part s \<noteq> (Some (Started p d m), s')"
  using not_started_image [of env part] by (auto simp: try_partition_def Let_def split: prod.splits option.splits)

lemma not_started_indices:
  "fst (load_image (boot_security env)) \<noteq> LoadStarted \<Longrightarrow> try_indices env bs is s \<noteq> (Some (Started p d m), s')"
proof (induction "is" arbitrary: s)
  case (Cons i "is")
  obtain e s1 where t: "try_partition env bs (Some i) (index_to_partition bs i) s = (e, s1)" by (rule prod.exhaust)
  show ?case using Cons not_started_partition [OF Cons.prems, of bs "Some i" "index_to_partition bs i" s] t
    by (cases e) (simp_all add: Let_def)
qed simp

lemma not_started_all:
  assumes "fst (load_image (boot_security env)) \<noteq> LoadStarted"
  shows "try_all env bs start s \<noteq> (Started p d m, s')"
proof -
  obtain e1 s1 where 1: "try_indices env bs (rev [FACTORY_INDEX..start]) s = (e1, s1)" by (rule prod.exhaust)
  obtain e2 s2 where 2: "try_indices env bs [start + 1..int (bs_app_count bs) - 1] s1 = (e2, s2)" by (rule prod.exhaust)
  obtain e3 s3 where 3: "try_partition env bs None (bs_test bs) s2 = (e3, s3)" by (rule prod.exhaust)
  note ns = not_started_indices [OF assms, of bs _ _ p d m s'] not_started_partition [OF assms, of bs None "bs_test bs" s2 p d m s']
  show ?thesis using 1 2 3 ns(1) [of "rev [FACTORY_INDEX..start]" s] ns(1) [of "[start + 1..int (bs_app_count bs) - 1]" s1] ns(2)
    by (cases e1; cases e2; cases e3) (simp_all add: try_all_def)
qed

lemma not_started_load:
  assumes "fst (load_image (boot_security env)) \<noteq> LoadStarted"
  shows "bootloader_utility_load_boot_image env bs start s \<noteq> (Started p d m, s')"
  using not_started_all [OF assms] not_started_image [OF assms]
  by (auto simp: bootloader_utility_load_boot_image_def split: prod.splits option.splits)

section \<open>Security steps\<close>

text \<open>The result of each call, and the order in which the calls are made.\<close>

fun sec_result :: "security \<Rightarrow> sec_call \<Rightarrow> esp_err" where
  "sec_result sec SecureBootV2Enable = res_v2_enable sec"
| "sec_result sec GenerateDigest = res_generate_digest sec"
| "sec_result sec EncryptInit = res_encrypt_init sec"
| "sec_result sec BatchBegin = ESP_OK"
| "sec_result sec BatchCommit = res_batch_commit sec"
| "sec_result sec EncryptContents = res_encrypt_contents sec"
| "sec_result sec EncryptEnable = res_encrypt_enable sec"
| "sec_result sec SecureBootV1Enable = res_v1_enable sec"

definition sec_order :: "sec_call list" where
  "sec_order = [BatchBegin, SecureBootV2Enable, GenerateDigest, EncryptInit, BatchCommit, EncryptContents, EncryptEnable, SecureBootV1Enable]"

text \<open>The calls come from the given rest of the order; only the last one may have failed, and then nothing is started.\<close>

definition sec_trace :: "security \<Rightarrow> sec_call list \<Rightarrow> load_exit \<times> sec_call list \<Rightarrow> bool" where
  "sec_trace sec order r \<longleftrightarrow> subseq (snd r) order \<and> (\<forall>c \<in> set (butlast (snd r)). sec_result sec c = ESP_OK)
     \<and> (fst r \<in> {LoadStarted, LoadReset} \<longrightarrow> (\<forall>c \<in> set (snd r). sec_result sec c = ESP_OK))"

lemma sec_trace_do: "sec_trace sec order r \<Longrightarrow> sec_trace sec (c # order) (sec_do c (sec_result sec c) r)"
  by (auto simp: sec_trace_def sec_do_def)

lemma sec_trace_skip: "sec_trace sec order r \<Longrightarrow> sec_trace sec (c # order) r"
  by (auto simp: sec_trace_def)

lemma sec_trace_stop: "x \<notin> {LoadStarted, LoadReset} \<Longrightarrow> sec_trace sec order (x, [])"
  by (auto simp: sec_trace_def)

lemma trace_finish: "sec_trace sec [SecureBootV1Enable] (load_image_finish sec)"
  by (auto simp: sec_trace_def load_image_finish_def Let_def)

lemma trace_encrypt: "sec_trace sec [EncryptContents, EncryptEnable, SecureBootV1Enable] (load_image_encrypt sec)"
  using sec_trace_do [OF sec_trace_do [OF trace_finish [of sec]], of EncryptContents EncryptEnable] sec_trace_skip [OF sec_trace_skip [OF trace_finish [of sec]]]
  by (simp add: load_image_encrypt_def)

lemma trace_commit: "sec_trace sec [BatchCommit, EncryptContents, EncryptEnable, SecureBootV1Enable] (load_image_commit sec)"
proof -
  let ?r = "if \<not> sb_enabled_after sec then (LoadAborted, []) else load_image_encrypt sec"
  have "sec_trace sec [EncryptContents, EncryptEnable, SecureBootV1Enable] ?r"
    using trace_encrypt [of sec] by (simp add: sec_trace_stop)
  from sec_trace_do [OF this, of BatchCommit] show ?thesis
    using sec_trace_skip [OF trace_encrypt [of sec], of BatchCommit] by (simp add: load_image_commit_def)
qed

lemma trace_key: "sec_trace sec [EncryptInit, BatchCommit, EncryptContents, EncryptEnable, SecureBootV1Enable] (load_image_key sec)"
  using sec_trace_do [OF trace_commit [of sec], of EncryptInit] sec_trace_skip [OF trace_commit [of sec], of EncryptInit]
  by (simp add: load_image_key_def sec_trace_stop)

lemma trace_load_image: "sec_trace sec sec_order (load_image sec)"
proof -
  define step1 where "step1 = (if secure_boot_v1 sec then sec_do GenerateDigest (res_generate_digest sec) (load_image_key sec) else load_image_key sec)"
  define step2 where "step2 = (if secure_boot_v2 sec then sec_do SecureBootV2Enable (res_v2_enable sec) step1 else step1)"
  have 1: "sec_trace sec (drop 2 sec_order) step1"
    using sec_trace_do [OF trace_key [of sec], of GenerateDigest] sec_trace_skip [OF trace_key [of sec], of GenerateDigest]
    by (simp add: step1_def sec_order_def)
  have 2: "sec_trace sec (drop 1 sec_order) step2"
    using sec_trace_do [OF 1, of SecureBootV2Enable] sec_trace_skip [OF 1, of SecureBootV2Enable] by (simp add: step2_def sec_order_def)
  have "sec_trace sec sec_order (fst step2, BatchBegin # snd step2)"
    using sec_trace_do [OF 2, of BatchBegin] by (simp add: sec_do_def sec_order_def)
  then show ?thesis using sec_trace_skip [OF 2, of BatchBegin]
    by (simp add: load_image_def step1_def [symmetric] step2_def [symmetric] Let_def sec_trace_stop) (simp add: sec_order_def)
qed

text \<open>What has been done when the image is started.\<close>

lemma started_do: "fst (sec_do c r rest) = LoadStarted \<Longrightarrow> fst rest = LoadStarted \<and> snd (sec_do c r rest) = c # snd rest"
  by (auto simp: sec_do_def split: if_splits)

lemma started_finish:
  "fst (load_image_finish sec) = LoadStarted \<Longrightarrow> (secure_boot_v1 sec \<longrightarrow> SecureBootV1Enable \<in> set (snd (load_image_finish sec)))
     \<and> (flash_enc_configured sec \<and> \<not> flash_encrypt_state sec \<longrightarrow> \<not> enc_enabled_after sec)"
  by (auto simp: load_image_finish_def Let_def split: if_splits)

lemma started_encrypt:
  assumes "fst (load_image_encrypt sec) = LoadStarted"
  shows "set (snd (load_image_finish sec)) \<subseteq> set (snd (load_image_encrypt sec)) \<and> fst (load_image_finish sec) = LoadStarted
    \<and> (flash_enc_configured sec \<and> \<not> flash_encrypt_state sec \<longrightarrow> {EncryptContents, EncryptEnable} \<subseteq> set (snd (load_image_encrypt sec)))"
  using assms started_do [of EncryptContents _ "sec_do EncryptEnable (res_encrypt_enable sec) (load_image_finish sec)"] started_do [of EncryptEnable _ "load_image_finish sec"]
  by (auto simp: load_image_encrypt_def split: if_splits)

lemma started_commit:
  assumes "fst (load_image_commit sec) = LoadStarted"
  shows "set (snd (load_image_encrypt sec)) \<subseteq> set (snd (load_image_commit sec)) \<and> fst (load_image_encrypt sec) = LoadStarted"
  using assms started_do [of BatchCommit _ "if \<not> sb_enabled_after sec then (LoadAborted, []) else load_image_encrypt sec"]
  by (auto simp: load_image_commit_def split: if_splits)

lemma started_key:
  assumes "fst (load_image_key sec) = LoadStarted"
  shows "set (snd (load_image_commit sec)) \<subseteq> set (snd (load_image_key sec)) \<and> fst (load_image_commit sec) = LoadStarted
    \<and> (flash_enc_configured sec \<and> \<not> flash_encrypt_state sec \<longrightarrow> EncryptInit \<in> set (snd (load_image_key sec)))"
  using assms started_do [of EncryptInit _ "load_image_commit sec"] by (auto simp: load_image_key_def split: if_splits)

lemma started_configured:
  assumes "fst (load_image sec) = LoadStarted"
  shows "(secure_boot_v2 sec \<longrightarrow> SecureBootV2Enable \<in> set (snd (load_image sec)))
    \<and> (secure_boot_v1 sec \<longrightarrow> {GenerateDigest, SecureBootV1Enable} \<subseteq> set (snd (load_image sec)))
    \<and> (flash_enc_configured sec \<and> \<not> flash_encrypt_state sec \<longrightarrow>
        {EncryptInit, EncryptContents, EncryptEnable} \<subseteq> set (snd (load_image sec)) \<and> \<not> enc_enabled_after sec)"
proof -
  define step1 where "step1 = (if secure_boot_v1 sec then sec_do GenerateDigest (res_generate_digest sec) (load_image_key sec) else load_image_key sec)"
  define step2 where "step2 = (if secure_boot_v2 sec then sec_do SecureBootV2Enable (res_v2_enable sec) step1 else step1)"
  have l: "fst step2 = LoadStarted" "set (snd step2) \<subseteq> set (snd (load_image sec))"
    using assms by (auto simp: load_image_def step1_def [symmetric] step2_def [symmetric] Let_def split: if_splits)
  have 2: "fst step1 = LoadStarted" "set (snd step1) \<subseteq> set (snd step2)" "secure_boot_v2 sec \<longrightarrow> SecureBootV2Enable \<in> set (snd step2)"
    using l(1) started_do [of SecureBootV2Enable "res_v2_enable sec" step1] by (auto simp: step2_def split: if_splits)
  have 1: "fst (load_image_key sec) = LoadStarted" "set (snd (load_image_key sec)) \<subseteq> set (snd step1)" "secure_boot_v1 sec \<longrightarrow> GenerateDigest \<in> set (snd step1)"
    using 2(1) started_do [of GenerateDigest "res_generate_digest sec" "load_image_key sec"] by (auto simp: step1_def split: if_splits)
  note k = started_key [OF 1(1)]
  note c = started_commit [OF k [THEN conjunct2, THEN conjunct1]]
  note e = started_encrypt [OF c [THEN conjunct2]]
  note f = started_finish [OF e [THEN conjunct2, THEN conjunct1]]
  have k': "set (snd (load_image_key sec)) \<subseteq> set (snd (load_image sec))" using l(2) 2(2) 1(2) by simp
  have c': "set (snd (load_image_commit sec)) \<subseteq> set (snd (load_image sec))" using k k' by (meson subset_trans)
  have e': "set (snd (load_image_encrypt sec)) \<subseteq> set (snd (load_image sec))" using c c' by (meson subset_trans)
  have f': "set (snd (load_image_finish sec)) \<subseteq> set (snd (load_image sec))" using e e' by (meson subset_trans)
  have "secure_boot_v2 sec \<longrightarrow> SecureBootV2Enable \<in> set (snd (load_image sec))" using l(2) 2(3) by auto
  moreover have "secure_boot_v1 sec \<longrightarrow> {GenerateDigest, SecureBootV1Enable} \<subseteq> set (snd (load_image sec))"
    using l(2) 2(2) 1(3) f f' by auto
  moreover have "{EncryptInit, EncryptContents, EncryptEnable} \<subseteq> set (snd (load_image sec)) \<and> \<not> enc_enabled_after sec"
    if "flash_enc_configured sec \<and> \<not> flash_encrypt_state sec" using that k k' e e' f by auto
  ultimately show ?thesis by blast
qed


section \<open>Hashing\<close>

lemma sha_loop_exact:
  assumes "window_ok env" and "\<not> mapped s" and "off + len < 2 ^ 32"
  shows "sha_loop env off len acc s = ((ESP_OK, sha256 env (acc @ rd_bytes (bl_view s) off len)), s)"
  using assms(3)
proof (induction len arbitrary: off acc rule: less_induct)
  case (less len)
  show ?case
  proof (cases "len = 0")
    case True
    then show ?thesis by (simp add: sha_loop.simps rd_bytes_def)
  next
    case False
    let ?p = "mmu_page_size env" let ?f = "mmap_mmu_size env div ?p" let ?o = "if off mod ?p \<noteq> 0 then 1 else 0 :: nat"
    let ?k = "min len ((?f - ?o) * ?p)"
    have p: "0 < ?p" "2 \<le> ?f" "mmap_mmu_size env < 2 ^ 32"
      using assms(1) div_le_mono [of "2 * ?p" "mmap_mmu_size env" ?p] by (auto simp: window_ok_def)
    have f: "?f * ?p \<le> mmap_mmu_size env" by simp
    have m: "(?f - ?o) * ?p < 2 ^ 32" "off mod ?p + (?f - ?o) * ?p \<le> ?f * ?p"
    proof -
      have "(?f - ?o) * ?p \<le> ?f * ?p" by simp
      then show "(?f - ?o) * ?p < 2 ^ 32" using f p(3) by linarith
      have "off mod ?p < ?p" using p(1) by simp
      then show "off mod ?p + (?f - ?o) * ?p \<le> ?f * ?p" using p(2) by (cases "off mod ?p = 0") (auto simp: diff_mult_distrib)
    qed
    have k: "0 < ?k" "?k \<le> len" using False p by auto
    have mm: "bootloader_mmap env off ?k s = (Some off, s\<lparr> mapped := True \<rparr>)"
      using m(2) f by (intro mmap_in_window [OF assms(1,2)]) linarith
    have a: "add32 off ?k = off + ?k" using less.prems k by (intro add32_exact) linarith
    have "sha_loop env off len acc s = sha_loop env (off + ?k) (len - ?k) (acc @ rd_bytes (bl_view s) off ?k) s"
      using False p(2) m(1) mm a assms(2)
      by (subst sha_loop.simps) (simp add: Let_def bootloader_mmap_get_free_pages_def bl_view_def not_le del: min_less_iff_conj)
    also have "\<dots> = ((ESP_OK, sha256 env ((acc @ rd_bytes (bl_view s) off ?k) @ rd_bytes (bl_view s) (off + ?k) (len - ?k))), s)"
      using less.prems k by (intro less.IH) linarith+
    finally show ?thesis using rd_bytes_split [OF k(2), of "bl_view s" off] by simp
  qed
qed

section \<open>Properties\<close>

text \<open>
  C15: the bootloader starts the first partition in its order (from the chosen index down to the
  factory image, then the higher slots, then the test image) that is not empty, holds an image
  that loads and, with anti-rollback, is not too old; it resets if there is none.
\<close>

theorem boots_first_bootable:
  assumes "fst (load_image (boot_security env)) = LoadStarted"
  shows "fst (bootloader_utility_load_boot_image env bs start s) =
    (case List.find (bootable env s) (boot_order bs start) of None \<Rightarrow> BootReset | Some part \<Rightarrow> start_result env s part)"
  by (rule load_boot_image_result [OF assms])

text \<open>
  C27: \<^verbatim>\<open>bootloader_sha256_flash_contents\<close> hashes a range of any length, larger than the window that
  can be mapped as well: the result is the digest of the bytes of the range, as one sequence,
  and the mapping is released.
\<close>

theorem sha256_flash_contents_exact:
  assumes "window_ok env" and "\<not> mapped s" and "flash_offset + len < 2 ^ 32"
  shows "bootloader_sha256_flash_contents env flash_offset len s = ((ESP_OK, sha256 env (rd_bytes (bl_view s) flash_offset len)), s)"
  using sha_loop_exact [OF assms, of "[]"] by (simp add: bootloader_sha256_flash_contents_def)

lemma started_bootable:
  assumes "call_start_cpu0 env init s = Some (Started part data maps, s')" and "\<not> skip_validate_in_deep_sleep env"
  shows "\<exists>i bs sb. select_partition_number env empty_bs s = Some (i, bs, sb) \<and> part \<in> set (boot_order bs i) \<and> bootable env sb part
    \<and> snd (bootloader_load_image env part (bl_chip sb)) = data"
proof -
  obtain i bs sb where sel: "select_partition_number env empty_bs s = Some (i, bs, sb)"
    and l: "bootloader_utility_load_boot_image env bs i sb = (Started part data maps, s')"
    using assms by (auto simp: call_start_cpu0_def split: if_splits Option.bind_splits)
  have "fst (load_image (boot_security env)) = LoadStarted" using not_started_load l by blast
  from load_boot_image_result [OF this, of bs i sb] obtain p where
    p: "List.find (bootable env sb) (boot_order bs i) = Some p" "start_result env sb p = Started part data maps"
    using l by (auto split: option.splits)
  have "p = part" "snd (bootloader_load_image env part (bl_chip sb)) = data"
    using p(2) by (auto simp: start_result_def Let_def split: option.splits)
  moreover have "bootable env sb p" "p \<in> set (boot_order bs i)" using p(1) by (auto simp: find_Some_iff)
  ultimately show ?thesis using sel by blast
qed

text \<open>
  Without the shortcut after deep sleep, an image is started only if it was loaded and
  verified from its partition and, with anti-rollback, is not older than the secure version in
  the eFuses, in the state after the choice of the partition; whatever the partition table, the
  OTA data and the buttons say.
\<close>

theorem started_image_is_verified:
  assumes "call_start_cpu0 env init s = Some (Started part data maps, s')" and "\<not> skip_validate_in_deep_sleep env"
  shows "\<exists>i bs sb. select_partition_number env empty_bs s = Some (i, bs, sb) \<and> part \<in> set (boot_order bs i)
    \<and> pos_size part \<noteq> 0 \<and> fst (check_anti_rollback env part sb) \<and> bootloader_load_image env part (bl_chip sb) = (ESP_OK, data)"
  using started_bootable [OF assms] unfolding bootable_def by (metis prod.collapse)

text \<open>
  C26: \<^verbatim>\<open>load_image\<close> makes the calls that enable secure boot and flash encryption in one fixed order
  (keys are burnt in one batch, the encryption key is generated after the secure boot digest and
  before the contents are encrypted, encryption is enabled last but for secure boot V1), and makes
  no further call once one has failed. An image is started only if every call succeeded and every
  feature that is configured and not yet active has been set up.
\<close>

theorem load_image_secure:
  "subseq (snd (load_image sec)) sec_order \<and> (\<forall>c \<in> set (butlast (snd (load_image sec))). sec_result sec c = ESP_OK)
   \<and> (fst (load_image sec) = LoadStarted \<longrightarrow>
        (\<forall>c \<in> set (snd (load_image sec)). sec_result sec c = ESP_OK)
      \<and> (secure_boot_v2 sec \<longrightarrow> SecureBootV2Enable \<in> set (snd (load_image sec)))
      \<and> (secure_boot_v1 sec \<longrightarrow> {GenerateDigest, SecureBootV1Enable} \<subseteq> set (snd (load_image sec)))
      \<and> (flash_enc_configured sec \<and> \<not> flash_encrypt_state sec \<longrightarrow>
           {EncryptInit, EncryptContents, EncryptEnable} \<subseteq> set (snd (load_image sec)) \<and> \<not> enc_enabled_after sec))"
  using trace_load_image [of sec] started_configured [of sec] by (simp add: sec_trace_def)

end
