(* ===== verification/Boot_Select.thy ===== *)
theory Boot_Select
  imports Boot_Order
begin

text \<open>
  What the bootloader starts. The two selection records are read and rewritten by the
  bootloader as well: an image that was never confirmed is started once. The index it chooses is
  the slot the application has set, and the image it starts has been checked.
\<close>

section \<open>Records in the bootloader\<close>

definition boot_records :: "bootloader_state_t \<Rightarrow> 'a bl_flash_state_scheme \<Rightarrow> two_otadata" where
  "boot_records bs s = (let off = pos_offset (bs_ota_info bs) in (rd_select (bl_view s) off, rd_select (bl_view s) (off + 4096)))"

text \<open>The OTA data partition lies in the flash and can be mapped.\<close>

definition otadata_ok :: "boot_env \<Rightarrow> bootloader_state_t \<Rightarrow> boot_state \<Rightarrow> bool" where
  "otadata_ok env bs s \<longleftrightarrow>
     (let off = pos_offset (bs_ota_info bs); n = pos_size (bs_ota_info bs) in
      off \<noteq> 0 \<and> 4096 dvd off \<and> 8192 \<le> n \<and> off + 8192 < 2 ^ 32 \<and> n \<le> mmap_mmu_size env
      \<and> vaddr_region_valid env (add32 (off mod mmu_page_size env) n) \<and> \<not> mapped s \<and> bl_ok env s)"

lemma sub_sub_mod: "a - (a - a mod n) = a mod n" for a n :: nat
  by (metis diff_diff_cancel mod_less_eq_dividend)

lemma read_otadata_ok:
  assumes "otadata_ok env bs s"
  shows "bootloader_common_read_otadata env (bs_ota_info bs) s = ((ESP_OK, Some (boot_records bs s)), s)"
  using assms by (simp add: bootloader_common_read_otadata_def otadata_ok_def bootloader_mmap_def Let_def sub_sub_mod boot_records_def bl_view_def)

lemma erase_sector_range: "bootloader_flash_erase_sector k s = bootloader_flash_erase_range (k * 4096) 4096 s"
proof -
  have "erase_sectors (Suc k) (Suc k) s1 = (SPIFLASH_RESULT_OK, s1)" for s1 :: "'a bl_flash_state_scheme"
    by (simp add: erase_sectors.simps)
  then show ?thesis
    by (auto simp: bootloader_flash_erase_sector_def bootloader_flash_erase_range_def erase_sectors.simps [of k] Let_def split: prod.splits)
qed

lemma rom_op_works: "working (bl_chip s) \<Longrightarrow> \<exists>s'. rom_op op s = (SPIFLASH_RESULT_OK, s')"
  by (cases "drv_results (bl_chip s)") (auto simp: rom_op_def drv_op_def working_def rom_result_def)

lemma rom_status_works: "working (bl_chip s) \<Longrightarrow> \<exists>s'. rom_status s = (ESP_OK, s')"
  by (cases "drv_results (bl_chip s)") (auto simp: rom_status_def drv_status_def working_def)

lemma bl_later_working: "bl_later s m s' \<Longrightarrow> working (bl_chip s) \<Longrightarrow> working (bl_chip s')"
  using later_working by (auto simp: bl_later_def)

lemma erase_sector_works:
  assumes "working (bl_chip s)"
  shows "\<exists>s'. bootloader_flash_erase_sector k s = (ESP_OK, s') \<and> working (bl_chip s')"
proof -
  obtain s' where r: "rom_op (erase_mem (k * 4096) 4096) s = (SPIFLASH_RESULT_OK, s')" using rom_op_works [OF assms] by blast
  then show ?thesis using bl_later_working [OF rom_op_ok [OF r] assms] by (simp add: bootloader_flash_erase_sector_def)
qed

lemma flash_write_works:
  assumes "working (bl_chip s)" and "32 dvd a" and "32 dvd length bs"
  shows "\<exists>s'. bootloader_flash_write env a bs True enc s = (ESP_OK, s') \<and> working (bl_chip s')"
proof -
  let ?op = "if enc \<and> \<not> encryption_is_virtual env then program_mem a (xts_cipher (xts_enc (bl_chip s)) a bs) else program_mem a bs"
  obtain s1 where r1: "rom_status s = (ESP_OK, s1)" using rom_status_works [OF assms(1)] by blast
  note w1 = bl_later_working [OF rom_status_later [OF r1] assms(1)]
  obtain s2 where r2: "rom_op ?op s1 = (SPIFLASH_RESULT_OK, s2)" using rom_op_works [OF w1] by blast
  have "a mod 32 = 0" "length bs mod 32 = 0" "a mod 4 = 0" "length bs mod 4 = 0"
    using assms(2,3) dvd_trans [of 4 32, OF _ assms(2)] dvd_trans [of 4 32, OF _ assms(3)] by (simp_all add: dvd_eq_mod_eq_0)
  then show ?thesis using r1 r2 bl_later_working [OF rom_op_ok [OF r2] w1]
    by (cases enc; cases "encryption_is_virtual env") (simp_all add: bootloader_flash_write_def Let_def)
qed

lemma bl_state_eq: "bl_later s m s' \<Longrightarrow> s' = s\<lparr> bl_chip := bl_chip s' \<rparr>"
  by (simp add: bl_later_def)

text \<open>Nothing outside the two sectors of OTA data has changed.\<close>

definition spared :: "bootloader_state_t \<Rightarrow> boot_state \<Rightarrow> boot_state \<Rightarrow> bool" where
  "spared bs s s' \<longleftrightarrow> (\<forall>x. x < pos_offset (bs_ota_info bs) \<or> pos_offset (bs_ota_info bs) + 8192 \<le> x \<longrightarrow> bl_view s' x = bl_view s x)"

lemma spared_refl [simp]: "spared bs s s"
  by (simp add: spared_def)

lemma spared_trans: "spared bs s s1 \<Longrightarrow> spared bs s1 s2 \<Longrightarrow> spared bs s s2"
  by (simp add: spared_def)

text \<open>On a working chip rewriting a record stores it and leaves everything else alone.\<close>

lemma write_otadata_works:
  assumes ok: "otadata_ok env bs s" and w: "working (bl_chip s)" and i: "i \<le> 1" and l: "length (seq_label r) = 20"
  shows "\<exists>s'. write_otadata env r (add32 (pos_offset (bs_ota_info bs)) (4096 * i)) (enc_enabled (bl_chip s)) s = (ESP_OK, s')
    \<and> boot_records bs s' = put_record i r (boot_records bs s) \<and> otadata_ok env bs s' \<and> working (bl_chip s')
    \<and> spared bs s s' \<and> s' = s\<lparr> bl_chip := bl_chip s' \<rparr>"
proof -
  let ?off = "pos_offset (bs_ota_info bs)"
  have o: "4096 dvd ?off" "?off + 8192 < 2 ^ 32" "bl_ok env s" using ok by (auto simp: otadata_ok_def Let_def)
  have a: "add32 ?off (4096 * i) = ?off + 4096 * i" using o(2) i by (intro add32_exact) auto
  have d: "4096 dvd ?off + 4096 * i" using o(1) by simp
  then have k: "(?off + 4096 * i) div 4096 * 4096 = ?off + 4096 * i" by (rule dvd_div_mult_self)
  have lb: "length (select_bytes r) = 32" using l by (rule length_select_bytes)
  obtain s1 where e: "bootloader_flash_erase_sector ((?off + 4096 * i) div 4096) s = (ESP_OK, s1)" and w1: "working (bl_chip s1)"
    using erase_sector_works [OF w] by blast
  have er: "bootloader_flash_erase_range (?off + 4096 * i) 4096 s = (ESP_OK, s1)" using e unfolding erase_sector_range k .
  note l1 = bl_erase_ok [OF er]
  have en: "enc_enabled (bl_chip s1) = enc_enabled (bl_chip s)"
    using l1(1) chip_cfg_sel(4) [of "bl_chip s1" "bl_chip s"] by (simp add: bl_later_def later_def)
  have "32 dvd ?off + 4096 * i" using dvd_trans [of 32 4096, OF _ d] by simp
  then obtain s2 where wr: "bootloader_flash_write env (?off + 4096 * i) (select_bytes r) True (enc_enabled (bl_chip s)) s1 = (ESP_OK, s2)"
    and w2: "working (bl_chip s2)" using flash_write_works [OF w1, of "?off + 4096 * i" "select_bytes r" env "enc_enabled (bl_chip s)"] lb by auto
  note rr = boot.replace_record [OF o(3) er wr [folded en], unfolded lb, simplified]
  note l2 = bl_write_ok(1) [OF wr [folded en] boot.er_inv [OF o(3) er]]
  have st: "s2 = s\<lparr> bl_chip := bl_chip s2 \<rparr>" using bl_state_eq [OF bl_later_trans [OF l1(1) l2]] .
  have 1: "rd_select (bl_view s2) (?off + 4096 * i) = r" by (rule rd_select_bytes) (use rr(2) l in auto)
  have 2: "rd_select (bl_view s2) (?off + 4096 * (1 - i)) = rd_select (bl_view s) (?off + 4096 * (1 - i))"
    by (rule rd_select_cong) (use rr(3) i in \<open>cases i; auto\<close>)
  have "boot_records bs s2 = put_record i r (boot_records bs s)"
    using 1 2 i by (cases i) (simp_all add: boot_records_def put_record_def Let_def)
  moreover have "mapped s2 = mapped s" using arg_cong [OF st, of mapped] by simp
  then have "otadata_ok env bs s2" using ok rr(1) by (simp add: otadata_ok_def Let_def)
  moreover have "spared bs s s2" using rr(3) i by (auto simp: spared_def)
  ultimately show ?thesis using e wr w2 st a by (simp add: write_otadata_def)
qed

section \<open>What the records select\<close>

text \<open>
  The choice without flash: a record that was pending when the device was reset is aborted; the
  active record is started, and becomes pending if it is new.
\<close>

definition abort_record :: "esp_ota_select_entry_t \<Rightarrow> esp_ota_select_entry_t" where
  "abort_record r = (if ota_state r = ESP_OTA_IMG_PENDING_VERIFY then r\<lparr> ota_state := ESP_OTA_IMG_ABORTED \<rparr> else r)"

definition abort_records :: "bool \<Rightarrow> two_otadata \<Rightarrow> two_otadata" where
  "abort_records rollback d = (if rollback then (abort_record (fst d), abort_record (snd d)) else d)"

definition boot_choice :: "bool \<Rightarrow> nat \<Rightarrow> crc_fn \<Rightarrow> two_otadata \<Rightarrow> int" where
  "boot_choice has_factory n crc d =
     (if (bootloader_common_ota_select_invalid (fst d) \<and> bootloader_common_ota_select_invalid (snd d)) \<or> n = 0
      then (if has_factory then FACTORY_INDEX else 0)
      else case boot_slot crc n d of Some k \<Rightarrow> int k | None \<Rightarrow> FACTORY_INDEX)"

definition mark_pending :: "bool \<Rightarrow> nat \<Rightarrow> crc_fn \<Rightarrow> two_otadata \<Rightarrow> two_otadata" where
  "mark_pending rollback n crc d =
     (let a = bootloader_common_get_active_otadata crc (Some d)
      in if rollback \<and> n \<noteq> 0 \<and> a \<noteq> - 1 \<and> ota_state (otadata_at d a) = ESP_OTA_IMG_NEW then set_state d a ESP_OTA_IMG_PENDING_VERIFY else d)"

lemma put_set_state: "a \<in> {0, 1} \<Longrightarrow> put_record (nat a) (otadata_at (set_state d a st) a) d = set_state d a st"
  by (auto simp: put_record_def otadata_at_def set_state_def)

lemma rd_select_label: "length (seq_label (rd_select m a)) = 20"
  by (simp add: rd_select_def)

lemma set_state_label: "length (seq_label (fst d)) = 20 \<and> length (seq_label (snd d)) = 20 \<Longrightarrow>
    length (seq_label (fst (set_state d a st))) = 20 \<and> length (seq_label (snd (set_state d a st))) = 20"
  by (simp add: set_state_def)

definition labelled :: "two_otadata \<Rightarrow> bool" where
  "labelled d \<longleftrightarrow> length (seq_label (fst d)) = 20 \<and> length (seq_label (snd d)) = 20"

lemma labelled_at: "labelled d \<Longrightarrow> length (seq_label (otadata_at d a)) = 20"
  by (simp add: labelled_def otadata_at_def)

lemma labelled_set: "labelled d \<Longrightarrow> labelled (set_state d a st)"
  by (simp add: labelled_def set_state_def)

lemma labelled_records: "labelled (boot_records bs s)"
  by (simp add: labelled_def boot_records_def rd_select_label Let_def)

text \<open>What is read is what is stored, while the pair is rewritten.\<close>

definition in_step :: "boot_env \<Rightarrow> bootloader_state_t \<Rightarrow> boot_state \<Rightarrow> two_otadata \<times> boot_state \<Rightarrow> bool" where
  "in_step env bs s ds \<longleftrightarrow> otadata_ok env bs (snd ds) \<and> working (bl_chip (snd ds)) \<and> boot_records bs (snd ds) = fst ds
     \<and> spared bs s (snd ds) \<and> snd ds = s\<lparr> bl_chip := bl_chip (snd ds) \<rparr>"

lemma write_state_in_step:
  assumes "in_step env bs s (d, s1)" and a: "a \<in> {0, 1}"
  shows "in_step env bs s (set_state d a st, snd (write_otadata env (otadata_at (set_state d a st) a)
      (add32 (pos_offset (bs_ota_info bs)) (4096 * nat a)) (enc_enabled (bl_chip s1)) s1))"
proof -
  have i: "otadata_ok env bs s1" "working (bl_chip s1)" "boot_records bs s1 = d" "s1 = s\<lparr> bl_chip := bl_chip s1 \<rparr>" "spared bs s s1"
    using assms(1) by (auto simp: in_step_def)
  have n: "nat a \<le> 1" using a by auto
  have "length (seq_label (otadata_at (set_state d a st) a)) = 20"
    using labelled_at [OF labelled_set] labelled_records [of bs s1] i(3) by auto
  from write_otadata_works [OF i(1,2) n this] obtain s' where
    s': "write_otadata env (otadata_at (set_state d a st) a) (add32 (pos_offset (bs_ota_info bs)) (4096 * nat a)) (enc_enabled (bl_chip s1)) s1 = (ESP_OK, s')"
    "boot_records bs s' = put_record (nat a) (otadata_at (set_state d a st) a) d" "otadata_ok env bs s'" "working (bl_chip s')" "s' = s1\<lparr> bl_chip := bl_chip s' \<rparr>" "spared bs s1 s'"
    using i(3) by auto
  have "s' = s\<lparr> bl_chip := bl_chip s' \<rparr>" using s'(5) i(4)
    by (metis boot_state.surjective boot_state.update_convs(1) bl_flash_state.update_convs(1))
  then show ?thesis using s' put_set_state [OF a] spared_trans [OF i(5) s'(6)] by (simp add: in_step_def)
qed


lemma abort_pending_in_step:
  assumes "in_step env bs s (d, s1)" and a: "a \<in> {0, 1}"
  shows "in_step env bs s (abort_pending env bs a (d, s1)) \<and>
    fst (abort_pending env bs a (d, s1)) = (if a = 0 then (abort_record (fst d), snd d) else (fst d, abort_record (snd d)))"
proof (cases "ota_state (otadata_at d a) = ESP_OTA_IMG_PENDING_VERIFY")
  case True
  then show ?thesis using write_state_in_step [OF assms, of ESP_OTA_IMG_ABORTED] a
    by (auto simp: abort_pending_def Let_def abort_record_def set_state_def otadata_at_def)
next
  case False
  then show ?thesis using assms by (auto simp: abort_pending_def abort_record_def otadata_at_def)
qed

lemma in_step_abort:
  assumes "in_step env bs s (d, s)"
  shows "\<exists>s1. (if app_rollback env then abort_pending env bs 1 (abort_pending env bs 0 (d, s)) else (d, s)) = (abort_records (app_rollback env) d, s1)
    \<and> in_step env bs s (abort_records (app_rollback env) d, s1)"
proof (cases "app_rollback env")
  case True
  obtain d0 s0 where 0: "abort_pending env bs 0 (d, s) = (d0, s0)" by (rule prod.exhaust)
  have 1: "in_step env bs s (d0, s0)" "d0 = (abort_record (fst d), snd d)" using abort_pending_in_step [OF assms, of 0] 0 by auto
  obtain d1 s1 where 2: "abort_pending env bs 1 (d0, s0) = (d1, s1)" by (rule prod.exhaust)
  then have "in_step env bs s (d1, s1)" "d1 = (abort_record (fst d), abort_record (snd d))"
    using abort_pending_in_step [OF 1(1), of 1] 1(2) by auto
  then show ?thesis using True 0 2 by (simp add: abort_records_def)
qed (use assms in \<open>simp add: abort_records_def\<close>)

lemma boot_active_in_step:
  assumes "in_step env bs s (d, s1)" and "\<not> app_anti_rollback env" and "bs_app_count bs \<noteq> 0"
    and a: "bootloader_common_get_active_otadata (boot_crc env) (Some d) = a"
  shows "\<exists>s2. boot_active env bs d a s1 = Some (case boot_slot (boot_crc env) (bs_app_count bs) d of Some k \<Rightarrow> int k | None \<Rightarrow> FACTORY_INDEX, s2)
    \<and> in_step env bs s (mark_pending (app_rollback env) (bs_app_count bs) (boot_crc env) d, s2)"
proof (cases "a = - 1")
  case True
  then show ?thesis using assms by (simp add: boot_active_def boot_slot_def mark_pending_def)
next
  case False
  then have r: "a \<in> {0, 1}" using active_range [of "boot_crc env" d] a by auto
  show ?thesis
    using write_state_in_step [OF assms(1) r, of ESP_OTA_IMG_PENDING_VERIFY] assms False
    by (auto simp: boot_active_def slot_of_def boot_slot_def mark_pending_def Let_def)
qed

lemma invalid_not_active:
  assumes "bootloader_common_ota_select_invalid (fst d)" and "bootloader_common_ota_select_invalid (snd d)"
  shows "bootloader_common_get_active_otadata crc (Some d) = - 1"
  using assms by (simp add: active_otadata_cases bootloader_common_ota_select_valid_def)

text \<open>The state after a choice, with or without the flag for initial contents.\<close>

lemma selected_in_step:
  assumes "otadata_ok env bs s" and "working (bl_chip s)" and "\<not> app_anti_rollback env"
  defines "d \<equiv> abort_records (app_rollback env) (boot_records bs s)"
  shows "\<exists>s'. bootloader_utility_get_selected_boot_partition env bs s =
      Some (boot_choice (pos_offset (bs_factory bs) \<noteq> 0) (bs_app_count bs) (boot_crc env) d, s')
    \<and> otadata_ok env bs s' \<and> working (bl_chip s') \<and> boot_records bs s' = mark_pending (app_rollback env) (bs_app_count bs) (boot_crc env) d
    \<and> spared bs s s' \<and> s' = s\<lparr> bl_chip := bl_chip s', ota_has_initial_contents := ota_has_initial_contents s' \<rparr>"
proof -
  let ?s = "s\<lparr> ota_has_initial_contents := False \<rparr>"
  let ?inv = "(bootloader_common_ota_select_invalid (fst d) \<and> bootloader_common_ota_select_invalid (snd d)) \<or> bs_app_count bs = 0"
  have off: "pos_offset (bs_ota_info bs) \<noteq> 0" using assms(1) by (simp add: otadata_ok_def Let_def)
  have "in_step env bs ?s (boot_records bs s, ?s)"
    using assms(1,2) by (simp add: in_step_def otadata_ok_def bl_ok_def boot_records_def bl_view_def)
  from in_step_abort [OF this] obtain s1 where
    s1: "(if app_rollback env then abort_pending env bs 1 (abort_pending env bs 0 (boot_records bs s, ?s)) else (boot_records bs s, ?s)) = (d, s1)"
    and i1: "in_step env bs ?s (d, s1)" unfolding d_def by blast
  have step: "bootloader_utility_get_selected_boot_partition env bs s =
      (if ?inv then
         (if pos_offset (bs_factory bs) \<noteq> 0 then Some (FACTORY_INDEX, s1)
          else if initial_otadata env (fst d) \<and> initial_otadata env (snd d) then Some (0, s1\<lparr> ota_has_initial_contents := True \<rparr>)
          else Some (0, s1))
       else boot_active env bs d (bootloader_common_get_active_otadata (boot_crc env) (Some d)) s1)"
    using off read_otadata_ok [OF assms(1)] s1 assms(3)
    by (simp add: bootloader_utility_get_selected_boot_partition_def Let_def)
  have keep: "otadata_ok env bs s2 \<and> working (bl_chip s2) \<and> boot_records bs s2 = d'
      \<and> spared bs s s2 \<and> s2 = s\<lparr> bl_chip := bl_chip s2, ota_has_initial_contents := ota_has_initial_contents s2 \<rparr>"
    if "in_step env bs ?s (d', s2)" for d' s2
  proof -
    have "s2 = ?s\<lparr> bl_chip := bl_chip s2 \<rparr>" using that by (simp add: in_step_def)
    then have "s2 = s\<lparr> bl_chip := bl_chip s2, ota_has_initial_contents := ota_has_initial_contents s2 \<rparr>"
      by (cases s; cases s2) simp
    moreover have "spared bs s s2" using that by (simp add: in_step_def spared_def bl_view_def)
    ultimately show ?thesis using that by (simp add: in_step_def)
  qed
  show ?thesis
  proof (cases ?inv)
    case True
    then have mp: "mark_pending (app_rollback env) (bs_app_count bs) (boot_crc env) d = d"
      using invalid_not_active [of d "boot_crc env"] by (auto simp: mark_pending_def Let_def)
    have k: "otadata_ok env bs (s1\<lparr> ota_has_initial_contents := True \<rparr>) \<and> boot_records bs (s1\<lparr> ota_has_initial_contents := True \<rparr>) = d
      \<and> spared bs s (s1\<lparr> ota_has_initial_contents := True \<rparr>)"
      using keep [OF i1] by (simp add: otadata_ok_def bl_ok_def boot_records_def bl_view_def spared_def)
    have "s1\<lparr> ota_has_initial_contents := True \<rparr> = s\<lparr> bl_chip := bl_chip s1, ota_has_initial_contents := True \<rparr>"
      using keep [OF i1] by (cases s; cases s1) simp
    then show ?thesis using True step mp keep [OF i1] k by (auto simp: boot_choice_def)
  next
    case False
    then obtain s2 where "boot_active env bs d (bootloader_common_get_active_otadata (boot_crc env) (Some d)) s1 =
        Some (boot_choice (pos_offset (bs_factory bs) \<noteq> 0) (bs_app_count bs) (boot_crc env) d, s2)"
      and "in_step env bs ?s (mark_pending (app_rollback env) (bs_app_count bs) (boot_crc env) d, s2)"
      using boot_active_in_step [OF i1 assms(3) _ refl] by (auto simp: boot_choice_def)
    then show ?thesis using False step keep by auto
  qed
qed


section \<open>New images are on trial\<close>

lemma active_abort:
  "bootloader_common_get_active_otadata crc (Some d) = a \<Longrightarrow> a \<noteq> - 1 \<Longrightarrow> ota_state (otadata_at d a) \<noteq> ESP_OTA_IMG_PENDING_VERIFY \<Longrightarrow>
     bootloader_common_get_active_otadata crc (Some (abort_records rb d)) = a \<and> otadata_at (abort_records rb d) a = otadata_at d a"
  by (auto simp: active_otadata_cases abort_records_def abort_record_def otadata_at_def bootloader_common_ota_select_valid_def
      bootloader_common_ota_select_invalid_def bootloader_common_ota_select_crc_def Let_def split: if_splits)

lemma abort_at: "otadata_at (abort_records True d) i = abort_record (otadata_at d i)"
  by (simp add: abort_records_def otadata_at_def)

lemma abort_abort [simp]: "abort_record (abort_record r) = abort_record r"
  by (simp add: abort_record_def)

lemma abort_set_pending:
  "abort_records True (set_state (abort_records True d) a ESP_OTA_IMG_PENDING_VERIFY) = set_state (abort_records True d) a ESP_OTA_IMG_ABORTED"
  by (simp add: abort_records_def set_state_def) (simp add: abort_record_def)

text \<open>The choice when one record is aborted depends on the other one alone.\<close>

lemma choice_without:
  assumes "a \<in> {0, 1}" and "n \<noteq> 0" and "bootloader_common_ota_select_invalid (otadata_at d a)"
  shows "boot_choice fac n crc d =
     (let other = otadata_at d (1 - a) in
      if bootloader_common_ota_select_valid crc other then int (ota_slot other n)
      else if bootloader_common_ota_select_invalid other \<and> \<not> fac then 0 else FACTORY_INDEX)"
  using assms by (auto simp: boot_choice_def boot_slot_def active_otadata_cases otadata_at_def bootloader_common_ota_select_valid_def Let_def)

lemma mark_pending_other:
  assumes "bootloader_common_ota_select_invalid (otadata_at d a)" and "a \<in> {0, 1}"
  shows "otadata_at (mark_pending rb n crc d) a = otadata_at d a"
  using assms active_range [of crc d]
  by (auto simp: mark_pending_def set_state_def otadata_at_def active_otadata_cases bootloader_common_ota_select_valid_def Let_def split: if_splits)

text \<open>
  C8: an image on trial is started once. With rollback enabled, a boot that finds a new active
  record starts its slot and marks the record as pending. If the image does not confirm itself
  before the next boot, that boot marks the record as aborted and chooses by the other record
  alone: the slot of that record if it is valid, otherwise the factory image or slot 0.
\<close>

theorem unconfirmed_image_boots_once:
  assumes "otadata_ok env bs s" and "working (bl_chip s)" and "\<not> app_anti_rollback env" and "app_rollback env" and "bs_app_count bs \<noteq> 0"
    and d: "boot_records bs s = d" and a: "bootloader_common_get_active_otadata (boot_crc env) (Some d) = a" "a \<noteq> - 1"
    and new: "ota_state (otadata_at d a) = ESP_OTA_IMG_NEW"
    and boot1: "bootloader_utility_get_selected_boot_partition env bs s = Some (i1, s1)"
    and reset: "bl_chip s2 = bl_chip s1" "\<not> mapped s2"
    and boot2: "bootloader_utility_get_selected_boot_partition env bs s2 = Some (i2, s3)"
  shows "i1 = int (ota_slot (otadata_at d a) (bs_app_count bs)) \<and> ota_state (otadata_at (boot_records bs s1) a) = ESP_OTA_IMG_PENDING_VERIFY
    \<and> ota_state (otadata_at (boot_records bs s3) a) = ESP_OTA_IMG_ABORTED
    \<and> i2 = (let other = abort_record (otadata_at d (1 - a)) in
        if bootloader_common_ota_select_valid (boot_crc env) other then int (ota_slot other (bs_app_count bs))
        else if bootloader_common_ota_select_invalid other \<and> pos_offset (bs_factory bs) = 0 then 0 else FACTORY_INDEX)"
proof -
  let ?n = "bs_app_count bs" and ?c = "boot_crc env" let ?d = "abort_records True d"
  have r: "a \<in> {0, 1}" using active_range [of ?c d] a by auto
  have a': "bootloader_common_get_active_otadata ?c (Some ?d) = a" "otadata_at ?d a = otadata_at d a"
    using active_abort [OF a, of True] new by auto
  let ?d1 = "set_state ?d a ESP_OTA_IMG_PENDING_VERIFY" and ?d2 = "set_state ?d a ESP_OTA_IMG_ABORTED"
  have m: "mark_pending True ?n ?c ?d = ?d1" using a' a(2) new assms(5) by (simp add: mark_pending_def)
  have b1: "i1 = boot_choice (pos_offset (bs_factory bs) \<noteq> 0) ?n ?c ?d" "otadata_ok env bs s1" "working (bl_chip s1)" "boot_records bs s1 = ?d1"
    using selected_in_step [OF assms(1-3)] boot1 assms(4) d m by auto
  have i1: "i1 = int (ota_slot (otadata_at d a) ?n)"
    using b1(1) a a' assms(5) invalid_not_active [of ?d ?c] by (auto simp: boot_choice_def boot_slot_def Let_def)
  have "otadata_ok env bs s2" "boot_records bs s2 = ?d1"
    using b1 reset by (simp_all add: otadata_ok_def bl_ok_def boot_records_def bl_view_def Let_def)
  then have b2: "i2 = boot_choice (pos_offset (bs_factory bs) \<noteq> 0) ?n ?c ?d2" "boot_records bs s3 = mark_pending True ?n ?c ?d2"
    using selected_in_step [of env bs s2] reset(1) b1(3) boot2 assms(3,4) abort_set_pending by auto
  have inv: "bootloader_common_ota_select_invalid (otadata_at ?d2 a)"
    using r by (auto simp: set_state_def otadata_at_def bootloader_common_ota_select_invalid_def)
  have "otadata_at ?d2 (1 - a) = abort_record (otadata_at d (1 - a))"
    using r abort_at [of d "1 - a"] by (auto simp: set_state_def otadata_at_def)
  then have "i2 = (let other = abort_record (otadata_at d (1 - a)) in
        if bootloader_common_ota_select_valid ?c other then int (ota_slot other ?n)
        else if bootloader_common_ota_select_invalid other \<and> pos_offset (bs_factory bs) = 0 then 0 else FACTORY_INDEX)"
    using choice_without [OF r assms(5) inv] b2(1) by (simp add: Let_def)
  moreover have "ota_state (otadata_at ?d1 a) = ESP_OTA_IMG_PENDING_VERIFY" "ota_state (otadata_at ?d2 a) = ESP_OTA_IMG_ABORTED"
    using r by (auto simp: set_state_def otadata_at_def)
  ultimately show ?thesis using i1 b1(4) b2(2) mark_pending_other [OF inv r] by simp
qed


end
