(* ===== verification/Boot_Correct.thy ===== *)
theory Boot_Correct
  imports Boot_Select
begin

text \<open>
  The bootloader and the application together: both read the same table and the same records.
\<close>

section \<open>The table as the bootloader and the application see it\<close>

definition find_entry :: "esp_partition_info_t list \<Rightarrow> nat \<Rightarrow> nat \<Rightarrow> esp_partition_info_t option" where
  "find_entry es t st = List.find (\<lambda>e. i_type e = t \<and> i_subtype e = st) es"

definition entry_pos :: "esp_partition_pos_t \<Rightarrow> esp_partition_info_t list \<Rightarrow> nat \<Rightarrow> nat \<Rightarrow> esp_partition_pos_t" where
  "entry_pos p es t st = (case find_entry es t st of None \<Rightarrow> p | Some e \<Rightarrow> i_pos e)"

definition is_ota_entry :: "esp_partition_info_t \<Rightarrow> bool" where
  "is_ota_entry e \<longleftrightarrow> i_type e = PART_TYPE_APP \<and> 16 \<le> i_subtype e \<and> i_subtype e < 32"

text \<open>The entries the bootloader looks at, and that there is one of each kind.\<close>

definition boot_entry :: "esp_partition_info_t \<Rightarrow> bool" where
  "boot_entry e \<longleftrightarrow> (i_type e = PART_TYPE_APP \<and> (i_subtype e = 0 \<or> i_subtype e \<in> {16..32})) \<or> (i_type e = PART_TYPE_DATA \<and> i_subtype e = 0)"

definition one_of_each :: "esp_partition_info_t list \<Rightarrow> bool" where
  "one_of_each es \<longleftrightarrow> distinct (map (\<lambda>e. (i_type e, i_subtype e)) (filter boot_entry es))"

lemma ota_subtype: "x div 16 * 16 = 16 \<longleftrightarrow> 16 \<le> x \<and> x < 32" for x :: nat
  by (cases "x < 16"; cases "x < 32") (simp_all add: div_nat_eqI le_div_geq [of 16 x] not_less)

lemma table_entry_cases:
  "bs_ota_info (table_entry e bs) = (if i_type e = 1 \<and> i_subtype e = 0 then i_pos e else bs_ota_info bs)"
  "bs_factory (table_entry e bs) = (if i_type e = 0 \<and> i_subtype e = 0 then i_pos e else bs_factory bs)"
  "bs_test (table_entry e bs) = (if i_type e = 0 \<and> i_subtype e = 32 then i_pos e else bs_test bs)"
  "bs_ota (table_entry e bs) = (if is_ota_entry e then (bs_ota bs)[i_subtype e - 16 := i_pos e] else bs_ota bs)"
  "bs_app_count (table_entry e bs) = bs_app_count bs + (if is_ota_entry e then 1 else 0)"
  by (auto simp: table_entry_def is_ota_entry_def ota_subtype le_mod_geq)

lemma no_second_entry:
  assumes "one_of_each (e # es)" and "boot_entry e"
  shows "find_entry es (i_type e) (i_subtype e) = None"
proof -
  have no: "(i_type e, i_subtype e) \<notin> (\<lambda>e. (i_type e, i_subtype e)) ` set (filter boot_entry es)"
    using assms by (auto simp: one_of_each_def)
  have "\<not> (i_type x = i_type e \<and> i_subtype x = i_subtype e)" if "x \<in> set es" for x
  proof (rule notI)
    assume e: "i_type x = i_type e \<and> i_subtype x = i_subtype e"
    then have "x \<in> set (filter boot_entry es)" using that assms(2) by (simp add: boot_entry_def)
    then have "(i_type x, i_subtype x) \<in> (\<lambda>e. (i_type e, i_subtype e)) ` set (filter boot_entry es)" by (rule imageI)
    then show False using e no by simp
  qed
  then show ?thesis by (auto simp: find_entry_def find_None_iff)
qed

lemma entry_pos_Cons:
  "entry_pos p (e # es) t st = (if i_type e = t \<and> i_subtype e = st then i_pos e else entry_pos p es t st)"
  by (simp add: entry_pos_def find_entry_def)

lemma fold_table:
  assumes "one_of_each es" and "length (bs_ota bs) = 16" and "bs' = fold table_entry es bs"
  shows "bs_ota_info bs' = entry_pos (bs_ota_info bs) es 1 0 \<and> bs_factory bs' = entry_pos (bs_factory bs) es 0 0
    \<and> bs_test bs' = entry_pos (bs_test bs) es 0 32 \<and> (\<forall>k < 16. bs_ota bs' ! k = entry_pos (bs_ota bs ! k) es 0 (16 + k))
    \<and> bs_app_count bs' = bs_app_count bs + length (filter is_ota_entry es)"
  using assms
proof (induction es arbitrary: bs)
  case (Cons e es)
  have o: "one_of_each es" using Cons.prems(1) by (auto simp: one_of_each_def split: if_splits)
  have l: "length (bs_ota (table_entry e bs)) = 16" using Cons.prems(2) by (simp add: table_entry_cases)
  have no: "entry_pos p es t st = p" if "i_type e = t" "i_subtype e = st" "boot_entry e" for p t st
    using no_second_entry [OF Cons.prems(1) that(3)] that by (simp add: entry_pos_def)
  have IH: "bs_ota_info bs' = entry_pos (bs_ota_info (table_entry e bs)) es 1 0" "bs_factory bs' = entry_pos (bs_factory (table_entry e bs)) es 0 0"
    "bs_test bs' = entry_pos (bs_test (table_entry e bs)) es 0 32"
    "\<And>k. k < 16 \<Longrightarrow> bs_ota bs' ! k = entry_pos (bs_ota (table_entry e bs) ! k) es 0 (16 + k)"
    "bs_app_count bs' = bs_app_count (table_entry e bs) + length (filter is_ota_entry es)"
    using Cons.IH [OF o l] Cons.prems(3) by auto
  have "bs_ota_info bs' = entry_pos (bs_ota_info bs) (e # es) 1 0"
    using IH(1) no [of 1 0] by (auto simp: table_entry_cases entry_pos_Cons boot_entry_def)
  moreover have "bs_factory bs' = entry_pos (bs_factory bs) (e # es) 0 0"
    using IH(2) no [of 0 0] by (auto simp: table_entry_cases entry_pos_Cons boot_entry_def)
  moreover have "bs_test bs' = entry_pos (bs_test bs) (e # es) 0 32"
    using IH(3) no [of 0 32] by (auto simp: table_entry_cases entry_pos_Cons boot_entry_def)
  moreover have "bs_ota bs' ! k = entry_pos (bs_ota bs ! k) (e # es) 0 (16 + k)" if "k < 16" for k
    using IH(4) [OF that] no [of 0 "16 + k"] that Cons.prems(2)
    by (auto simp: table_entry_cases entry_pos_Cons boot_entry_def is_ota_entry_def nth_list_update)
  ultimately show ?case using IH(5) by (simp add: table_entry_cases)
qed (simp add: entry_pos_def find_entry_def)

text \<open>The OTA slots are numbered from zero without a gap.\<close>

definition gapless :: "esp_partition_info_t list \<Rightarrow> nat \<Rightarrow> bool" where
  "gapless es n \<longleftrightarrow> n \<le> 16 \<and> (\<forall>k < 16. find_entry es 0 (16 + k) \<noteq> None \<longleftrightarrow> k < n)"

lemma gapless_count:
  assumes "one_of_each es" and "gapless es n"
  shows "length (filter is_ota_entry es) = n"
proof -
  have d: "distinct (map i_subtype (filter is_ota_entry es))"
  proof -
    have "filter is_ota_entry (filter boot_entry es) = filter is_ota_entry es"
      by (auto simp: filter_filter boot_entry_def is_ota_entry_def intro!: filter_cong)
    then have "map (\<lambda>e. (i_type e, i_subtype e)) (filter is_ota_entry es) = map (Pair 0) (map i_subtype (filter is_ota_entry es))"
      by (auto simp: is_ota_entry_def)
    moreover have "distinct (map (\<lambda>e. (i_type e, i_subtype e)) (filter is_ota_entry es))"
      using distinct_map_filter assms(1) \<open>filter is_ota_entry (filter boot_entry es) = filter is_ota_entry es\<close> unfolding one_of_each_def by metis
    ultimately show ?thesis by (metis distinct_map)
  qed
  have "i_subtype ` set (filter is_ota_entry es) = {16..<16 + n}"
  proof
    show "i_subtype ` set (filter is_ota_entry es) \<subseteq> {16..<16 + n}"
    proof
      fix x assume "x \<in> i_subtype ` set (filter is_ota_entry es)"
      then obtain e where e: "e \<in> set es" "is_ota_entry e" "x = i_subtype e" by auto
      then have "find_entry es 0 (16 + (x - 16)) \<noteq> None" by (auto simp: find_entry_def find_None_iff is_ota_entry_def)
      moreover have "x - 16 < 16" "16 \<le> x" using e by (auto simp: is_ota_entry_def)
      ultimately have "x - 16 < n" using assms(2) unfolding gapless_def by blast
      then show "x \<in> {16..<16 + n}" using \<open>16 \<le> x\<close> by auto
    qed
    show "{16..<16 + n} \<subseteq> i_subtype ` set (filter is_ota_entry es)"
    proof
      fix x assume x: "x \<in> {16..<16 + n}"
      have "x - 16 < n" "n \<le> 16" using x assms(2) by (auto simp: gapless_def)
      then have "find_entry es 0 (16 + (x - 16)) \<noteq> None" using assms(2) unfolding gapless_def by (meson le_less_trans less_le_trans)
      then have "\<exists>e \<in> set es. i_type e = 0 \<and> i_subtype e = x" using x by (auto simp: find_entry_def find_Some_iff)
      then show "x \<in> i_subtype ` set (filter is_ota_entry es)" using x assms(2) by (force simp: is_ota_entry_def gapless_def)
    qed
  qed
  then have "card (set (map i_subtype (filter is_ota_entry es))) = n" by simp
  then show ?thesis using distinct_card [OF d] by simp
qed

lemma lookup_entry:
  assumes "list_all2 item_of_entry (part_list (ps s)) es"
  shows "case lookup s t st of
      None \<Rightarrow> find_entry es t st = None
    | Some p \<Rightarrow> \<exists>e. find_entry es t st = Some e \<and> i_pos e = \<lparr> pos_offset = p_address p, pos_size = p_size p \<rparr>"
  using assms unfolding lookup_def find_entry_def
  by (induction rule: list_all2_induct) (auto simp: item_of_entry_def split: option.splits)

lemma slot_count_gapless:
  assumes "list_all2 item_of_entry (part_list (ps s)) es" and "gapless es n" and "n < 16 \<or> find_entry es 0 32 = None"
  shows "slot_count s = n"
proof -
  have p: "lookup s 0 (16 + k) \<noteq> None \<longleftrightarrow> k < n" if "k < 17" "k < 16 \<or> n = 16" for k
  proof (cases "k < 16")
    case True
    then show ?thesis using lookup_entry [OF assms(1), of 0 "16 + k"] assms(2) by (auto simp: gapless_def split: option.splits)
  next
    case False
    then have "k = 16" "n = 16" using that by auto
    then show ?thesis using lookup_entry [OF assms(1), of 0 32] assms(3) by (auto split: option.splits)
  qed
  have n: "n \<le> 16" using assms(2) by (simp add: gapless_def)
  have "takeWhile (\<lambda>k. lookup s 0 (16 + k) \<noteq> None) [0..<17] = [0..<n]"
  proof -
    have "[0..<17] = [0..<n] @ [n..<17]" using n upt_add_eq_append [of 0 n "17 - n"] by simp
    moreover have "[n..<17] = n # [Suc n..<17]" using n by (intro upt_conv_Cons) simp
    moreover have "lookup s 0 (16 + k) \<noteq> None" if "k \<in> set [0..<n]" for k using that p [of k] n by auto
    moreover have "lookup s 0 (16 + n) = None" using p [of n] n by (cases "n = 16") auto
    ultimately show ?thesis using takeWhile_append2 [of "[0..<n]" "\<lambda>k. lookup s 0 (16 + k) \<noteq> None"] by simp
  qed
  then show ?thesis by (simp add: slot_count_def slots_def)
qed

section \<open>One device, two programs\<close>

text \<open>
  The bootloader runs on the flash the application has left; the table is accepted, is the one
  the application has loaded, and numbers its \<open>n\<close> OTA slots from zero; the mappings fit.
\<close>

definition boots_on :: "boot_env \<Rightarrow> ota_state \<Rightarrow> nat \<Rightarrow> boot_state \<Rightarrow> bool" where
  "boots_on env s n sb \<longleftrightarrow>
     bl_chip sb = chips (ps s) 0 \<and> ESP_PARTITION_TABLE_MAX_LEN \<le> mmap_mmu_size env
     \<and> vaddr_region_valid env (add32 (boot_table_offset env mod mmu_page_size env) ESP_PARTITION_TABLE_MAX_LEN)
     \<and> (case esp_partition_table_verify (boot_md5 env) (chip_size (bl_chip sb)) (bl_view sb) (boot_table_offset env) of (err, num) \<Rightarrow>
          err = ESP_OK \<and>
          (let es = table_entries (bl_view sb) (boot_table_offset env) num
           in list_all2 item_of_entry (part_list (ps s)) es \<and> one_of_each es \<and> gapless es n \<and> (n < 16 \<or> find_entry es 0 32 = None)
             \<and> otadata_ok env (fold table_entry es empty_bs) sb))"

definition pos_of :: "esp_partition_t \<Rightarrow> esp_partition_pos_t" where
  "pos_of p = \<lparr> pos_offset = p_address p, pos_size = p_size p \<rparr>"

definition pos_lookup :: "ota_state \<Rightarrow> nat \<Rightarrow> nat \<Rightarrow> esp_partition_pos_t" where
  "pos_lookup s t st = (case lookup s t st of None \<Rightarrow> no_pos | Some p \<Rightarrow> pos_of p)"

lemma entry_lookup: "list_all2 item_of_entry (part_list (ps s)) es \<Longrightarrow> entry_pos no_pos es t st = pos_lookup s t st"
  using lookup_entry [of s es t st] by (auto simp: entry_pos_def pos_lookup_def pos_of_def split: option.splits)

text \<open>What the bootloader has in memory after it has read the table.\<close>

definition table_of :: "ota_state \<Rightarrow> nat \<Rightarrow> bootloader_state_t \<Rightarrow> bool" where
  "table_of s n bs \<longleftrightarrow> bs_ota_info bs = pos_lookup s 1 0 \<and> bs_factory bs = pos_lookup s 0 0 \<and> bs_test bs = pos_lookup s 0 32
     \<and> (\<forall>k < 16. bs_ota bs ! k = pos_lookup s 0 (16 + k)) \<and> bs_app_count bs = n \<and> n \<le> 16 \<and> slot_count s = n
     \<and> (\<forall>k < 16. lookup s 0 (16 + k) \<noteq> None \<longleftrightarrow> k < n)"

lemma load_table:
  assumes "boots_on env s n sb"
  shows "\<exists>bs. bootloader_utility_load_partition_table env empty_bs sb = (True, bs, sb) \<and> table_of s n bs \<and> otadata_ok env bs sb"
proof -
  obtain num where v: "esp_partition_table_verify (boot_md5 env) (chip_size (bl_chip sb)) (bl_view sb) (boot_table_offset env) = (ESP_OK, num)"
    using assms by (auto simp: boots_on_def split: prod.splits)
  let ?es = "table_entries (bl_view sb) (boot_table_offset env) num" let ?bs = "fold table_entry ?es empty_bs"
  have b: "list_all2 item_of_entry (part_list (ps s)) ?es" "one_of_each ?es" "gapless ?es n" "n < 16 \<or> find_entry ?es 0 32 = None" "otadata_ok env ?bs sb"
    using assms v by (auto simp: boots_on_def Let_def)
  have nm: "\<not> mapped sb" using b(5) by (simp add: otadata_ok_def Let_def)
  have "bootloader_mmap env (boot_table_offset env) ESP_PARTITION_TABLE_MAX_LEN sb = (Some (boot_table_offset env), sb\<lparr> mapped := True \<rparr>)"
    using assms nm by (simp add: boots_on_def bootloader_mmap_def Let_def sub_sub_mod)
  then have l: "bootloader_utility_load_partition_table env empty_bs sb = (True, ?bs, sb)"
    using v nm by (simp add: bootloader_utility_load_partition_table_def Let_def bl_view_def)
  note f = fold_table [OF b(2) _ refl, of empty_bs]
  have "lookup s 0 (16 + k) \<noteq> None \<longleftrightarrow> k < n" if "k < 16" for k
    using lookup_entry [OF b(1), of 0 "16 + k"] b(3) that by (auto simp: gapless_def split: option.splits)
  then have "table_of s n ?bs"
    using f entry_lookup [OF b(1)] slot_count_gapless [OF b(1,3,4)] gapless_count [OF b(2,3)] b(3)
    by (auto simp: table_of_def empty_bs_def gapless_def)
  then show ?thesis using l b(5) by blast
qed

lemma table_records:
  assumes "table_of s n bs" and "otadata_part s od" and "bl_chip sb = chips (ps s) 0"
  shows "boot_records bs sb = otadata_of s od"
  using assms by (simp add: table_of_def otadata_part_def pos_lookup_def pos_of_def boot_records_def otadata_of_def bl_view_def Let_def)

text \<open>Neither of the two buttons asks for anything else.\<close>

definition no_button :: "boot_env \<Rightarrow> bool" where
  "no_button env \<longleftrightarrow> reset_from_deep_sleep env \<or>
     ((factory_reset env \<longrightarrow> bootloader_common_check_long_hold_gpio_level (hold_time env) (factory_reset_level env) (factory_reset_pin env) \<in> {Some GPIO_NOT_HOLD, Some GPIO_SHORT_HOLD})
      \<and> (app_test env \<longrightarrow> bootloader_common_check_long_hold_gpio_level (hold_time env) (app_test_level env) (app_test_pin env) \<in> {Some GPIO_NOT_HOLD, Some GPIO_SHORT_HOLD}))"

lemma no_button_selected:
  "no_button env \<Longrightarrow> bootloader_utility_get_selected_boot_partition env bs s = Some r \<Longrightarrow> selected_boot_partition env bs s = Some r"
  by (cases r) (auto simp: selected_boot_partition_def no_button_def test_requested_def)

lemma select_number:
  assumes "boots_on env s n sb" and "otadata_part s od" and "working (chips (ps s) 0)" and "\<not> app_anti_rollback env" and "no_button env"
  defines "d \<equiv> abort_records (app_rollback env) (otadata_of s od)"
  shows "\<exists>bs sb'. select_partition_number env empty_bs sb =
      Some (boot_choice (pos_offset (bs_factory bs) \<noteq> 0) n (boot_crc env) d, bs, sb') \<and> table_of s n bs
    \<and> boot_records bs sb' = mark_pending (app_rollback env) n (boot_crc env) d \<and> spared bs sb sb'"
proof -
  obtain bs where l: "bootloader_utility_load_partition_table env empty_bs sb = (True, bs, sb)" and t: "table_of s n bs" and ok: "otadata_ok env bs sb"
    using load_table [OF assms(1)] by blast
  have chip: "bl_chip sb = chips (ps s) 0" using assms(1) by (simp add: boots_on_def)
  have r: "boot_records bs sb = otadata_of s od" "bs_app_count bs = n" using table_records [OF t assms(2) chip] t by (auto simp: table_of_def)
  obtain sb' where "bootloader_utility_get_selected_boot_partition env bs sb =
      Some (boot_choice (pos_offset (bs_factory bs) \<noteq> 0) n (boot_crc env) d, sb')" and "boot_records bs sb' = mark_pending (app_rollback env) n (boot_crc env) d" and "spared bs sb sb'"
    using selected_in_step [OF ok _ assms(4)] assms(3) chip r by (auto simp: d_def)
  then show ?thesis using l t no_button_selected [OF assms(5)] by (auto simp: select_partition_number_def)
qed

lemma abort_chosen: "chosen crc n k d \<Longrightarrow> chosen crc n k (abort_records rb d)"
  by (auto simp: chosen_def abort_records_def abort_record_def otadata_at_def Let_def bootloader_common_ota_select_valid_def
      bootloader_common_ota_select_invalid_def split: if_splits)

lemma slot_choice: "boot_slot crc n d = Some k \<Longrightarrow> boot_choice fac n crc d = int k"
  using invalid_not_active [of d crc] by (auto simp: boot_choice_def boot_slot_def Let_def split: if_splits)

text \<open>
  C1: the bootloader starts what the application has chosen. After
  \<^verbatim>\<open>esp_ota_set_boot_partition\<close> has returned \<^verbatim>\<open>ESP_OK\<close> for an OTA partition, the bootloader, run on
  the flash as it then is, chooses the index of that slot, and the position it has for this
  index is that of the partition; whatever the states of the old records, with and without
  rollback and flash encryption.
\<close>

theorem bootloader_follows_application:
  assumes "ready s" and "slot_count s \<noteq> 17" and "otadata_part s od" and "seq_room (crc32_le env) (slot_count s) (otadata_of s od)"
    and "p_subtype p \<in> {16..<32}" and "esp_ota_set_boot_partition env (Some p) s = Some (ESP_OK, s1)" and "working (chips (ps s) 0)"
    and "boots_on benv s1 n sb" and "boot_crc benv = crc32_le env" and "\<not> app_anti_rollback benv" and "no_button benv"
  shows "\<exists>q bs sb'. lookup s PART_TYPE_APP (p_subtype p) = Some q
    \<and> select_partition_number benv empty_bs sb = Some (int (p_subtype p - 16), bs, sb')
    \<and> index_to_partition bs (int (p_subtype p - 16)) = pos_of q"
proof -
  let ?k = "p_subtype p - 16"
  obtain d where st: "stored od d s s1" and c: "chosen (crc32_le env) (slot_count s) ?k d" and k: "?k < slot_count s"
    using set_boot_then_boot [OF assms(1-6)] by blast
  note f = stored_frame [OF st]
  obtain bs sb' where sel: "select_partition_number benv empty_bs sb =
      Some (boot_choice (pos_offset (bs_factory bs) \<noteq> 0) n (boot_crc benv) (abort_records (app_rollback benv) d), bs, sb')" and t: "table_of s1 n bs"
    using select_number [OF assms(8) f(5) f(7) [OF assms(7)] assms(10,11)] f(6) by auto
  have n: "slot_count s = n" "n \<le> 16" using t f(2) by (auto simp: table_of_def)
  have i: "boot_choice (pos_offset (bs_factory bs) \<noteq> 0) n (boot_crc benv) (abort_records (app_rollback benv) d) = int ?k"
    using slot_choice [OF chosen_slot [OF abort_chosen [OF c]]] k n(1) assms(9) by auto
  obtain q where q: "lookup s 0 (p_subtype p) = Some q" using slot_present [OF k] assms(5) by auto
  then have "pos_lookup s1 0 (16 + ?k) = pos_of q" using f(1) assms(5) by (simp add: pos_lookup_def)
  then have "index_to_partition bs (int ?k) = pos_of q" using t k n by (simp add: index_to_partition_def table_of_def)
  then show ?thesis using sel i q by auto
qed

text \<open>The candidates that are not empty, in terms of the application's lookup.\<close>

lemma default_candidates:
  assumes t: "table_of s n bs" and nz: "\<forall>st p. lookup s PART_TYPE_APP st = Some p \<longrightarrow> p_size p \<noteq> 0 \<and> p_address p \<noteq> 0"
    and q: "default_boot s = Some q" and i: "i = FACTORY_INDEX \<or> i = 0 \<and> lookup s 0 0 = None"
    and i': "i = FACTORY_INDEX \<longrightarrow> lookup s 0 0 \<noteq> None \<or> n \<noteq> 0"
  shows "List.find (\<lambda>part. pos_size part \<noteq> 0) (boot_order bs i) = Some (pos_of q)"
proof -
  have ne: "pos_size (pos_lookup s 0 st) \<noteq> 0 \<longleftrightarrow> lookup s 0 st \<noteq> None" for st
    using nz by (auto simp: pos_lookup_def pos_of_def no_pos_def split: option.splits)
  have f: "index_to_partition bs FACTORY_INDEX = pos_lookup s 0 0" "bs_test bs = pos_lookup s 0 32"
    "index_to_partition bs 0 = (if n = 0 then no_pos else pos_lookup s 0 16)"
    using t by (auto simp: table_of_def index_to_partition_def)
  have l0: "lookup s 0 16 \<noteq> None \<longleftrightarrow> n \<noteq> 0" "bs_app_count bs = n" using t by (auto simp: table_of_def dest: spec [of _ 0])
  have up: "rev [-1..0::int] = [0, -1]" "rev [-1..-1::int] = [-1]" by (simp_all add: upto.simps)
  show ?thesis
  proof (cases "lookup s 0 0")
    case (Some p)
    then have "i = FACTORY_INDEX" "q = p" using i q by (auto simp: default_boot_def)
    then show ?thesis using Some ne [of 0] f by (simp add: boot_order_def up pos_lookup_def)
  next
    case None
    show ?thesis
    proof (cases "n = 0")
      case True
      have "lookup s 0 st = None" if "16 \<le> st" "st < 32" for st
      proof -
        have "\<not> lookup s 0 (16 + (st - 16)) \<noteq> None" using t True that unfolding table_of_def by (metis diff_less_mono less_nat_zero_code numeral_Bit0 add_diff_cancel_right')
        then show ?thesis using that by simp
      qed
      then have "List.find (\<lambda>t. lookup s 0 t \<noteq> None) [16..<32] = None" unfolding find_None_iff by auto
      then have q: "lookup s 0 32 = Some q" using q None by (auto simp: default_boot_def find_append split: if_splits)
      have "i = 0" using i i' None True by auto
      then show ?thesis using q ne [of 0] ne [of 32] None True f l0(2) by (simp add: boot_order_def up pos_lookup_def no_pos_def)
    next
      case False
      then obtain q' where q': "lookup s 0 16 = Some q'" using l0 by auto
      have "[16..<32] = 16 # [17..<32::nat]" by (simp add: upt_conv_Cons)
      then have "q' = q" using q None q' by (simp add: default_boot_def)
      moreover have "[0..int n - 1] = 0 # [1..int n - 1]" using False by (simp add: upto_rec1)
      ultimately show ?thesis using i q' ne [of 0] ne [of 16] None False f l0(2) by (auto simp: boot_order_def up pos_lookup_def)
    qed
  qed
qed

text \<open>
  C14: \<^verbatim>\<open>esp_ota_get_boot_partition\<close> tells what the bootloader will try first: the partition it
  returns is the first one in the bootloader's order that is not empty, if no record is waiting
  to be aborted; for a table whose slots have no gap, without anti-rollback, and with no button held.
\<close>

theorem boot_partition_predicts_bootloader:
  assumes "ready s" and "otadata_part s od" and "working (chips (ps s) 0)" and "esp_ota_get_boot_partition env s = Some (Some q, s')"
    and "boots_on benv s n sb" and "boot_crc benv = crc32_le env" and "\<not> app_anti_rollback benv" and "no_button benv"
    and "app_rollback benv \<longrightarrow> abort_records True (otadata_of s od) = otadata_of s od"
    and "\<forall>st p. lookup s PART_TYPE_APP st = Some p \<longrightarrow> p_size p \<noteq> 0 \<and> p_address p \<noteq> 0"
  shows "\<exists>i bs sb'. select_partition_number benv empty_bs sb = Some (i, bs, sb')
    \<and> List.find (\<lambda>part. pos_size part \<noteq> 0) (boot_order bs i) = Some (pos_of q)"
proof -
  obtain bs sb' where sel: "select_partition_number benv empty_bs sb =
      Some (boot_choice (pos_offset (bs_factory bs) \<noteq> 0) n (boot_crc benv) (abort_records (app_rollback benv) (otadata_of s od)), bs, sb')" and t: "table_of s n bs"
    using select_number [OF assms(5,2,3,7,8)] by blast
  let ?d = "otadata_of s od" and ?c = "crc32_le env"
  let ?i = "boot_choice (pos_offset (bs_factory bs) \<noteq> 0) n ?c ?d"
  have ab: "abort_records (app_rollback benv) ?d = ?d" using assms(9) by (cases "app_rollback benv") (auto simp: abort_records_def)
  have n: "slot_count s = n" "n \<le> 16" using t by (auto simp: table_of_def)
  have fac: "pos_offset (bs_factory bs) \<noteq> 0 \<longleftrightarrow> lookup s 0 0 \<noteq> None"
    using t assms(10) by (auto simp: table_of_def pos_lookup_def pos_of_def no_pos_def split: option.splits)
  have q: "boot_partition ?c s od = Some q"
    using get_boot_partition [OF assms(1) _ assms(2), of env] n assms(3,4) by auto
  have "List.find (\<lambda>part. pos_size part \<noteq> 0) (boot_order bs ?i) = Some (pos_of q)"
  proof (cases "boot_slot ?c n ?d")
    case (Some k)
    then have k: "k < n" using ota_slot_less by (auto simp: boot_slot_def Let_def split: if_splits)
    have l: "lookup s 0 (16 + k) = Some q" using q Some n by (simp add: boot_partition_def)
    have "rev [-1..int k] = int k # rev [-1..int k - 1]" using upto_rec2 [of "-1" "int k"] by simp
    moreover have "index_to_partition bs (int k) = pos_of q" using t k n(2) l by (simp add: index_to_partition_def table_of_def pos_lookup_def)
    moreover have "pos_size (pos_of q) \<noteq> 0" using assms(10) l by (auto simp: pos_of_def)
    ultimately show ?thesis using slot_choice [OF Some] by (simp add: boot_order_def)
  next
    case None
    then have "default_boot s = Some q" using q n by (simp add: boot_partition_def)
    moreover have "?i = FACTORY_INDEX \<or> ?i = 0 \<and> lookup s 0 0 = None" "?i = FACTORY_INDEX \<longrightarrow> lookup s 0 0 \<noteq> None \<or> n \<noteq> 0"
      using fac None by (auto simp: boot_choice_def)
    ultimately show ?thesis using default_candidates [OF t assms(10)] by blast
  qed
  then show ?thesis using sel ab assms(6) by auto
qed

section \<open>Tables the bootloader does not handle\<close>

text \<open>With anti-rollback and no OTA slot a valid record is a division by zero.\<close>

lemma no_slots_traps:
  assumes "app_anti_rollback env" and "bs_app_count bs = 0" and "bootloader_common_ota_select_valid (boot_crc env) (fst d)"
  shows "get_active_otadata_with_check_anti_rollback env bs d s = None"
  using assms by (simp add: get_active_otadata_with_check_anti_rollback_def sec_ver_valid_def slot_of_def)

text \<open>A table that is not accepted stays mapped.\<close>

lemma bad_table_stays_mapped:
  assumes "bootloader_mmap env (boot_table_offset env) ESP_PARTITION_TABLE_MAX_LEN s = (Some p, s1)"
    and "fst (esp_partition_table_verify (boot_md5 env) (chip_size (bl_chip s1)) (flash_view (bl_chip s1)) p) \<noteq> ESP_OK"
  shows "bootloader_utility_load_partition_table env bs s = (False, bs, s1) \<and> mapped s1"
  using assms mmap_cases [of env "boot_table_offset env" ESP_PARTITION_TABLE_MAX_LEN s]
  by (auto simp: bootloader_utility_load_partition_table_def Let_def split: prod.splits)

end
