(* ===== verification/Boot_Reset.thy ===== *)
theory Boot_Reset
  imports Boot_Select
begin

text \<open>
  Factory reset: the search of a label in a list of labels is membership, the reset erases the
  listed data partitions and nothing else, and the device then boots the factory image.
\<close>

section \<open>A list of labels\<close>

text \<open>The fields of a list, separated by commas and blanks.\<close>

fun fields :: "u8 list \<Rightarrow> u8 list list" where
  "fields [] = [[]]"
| "fields (c # cs) = (if c \<in> delims then [] # fields cs else (c # hd (fields cs)) # tl (fields cs))"

definition occurs :: "u8 list \<Rightarrow> u8 list \<Rightarrow> nat \<Rightarrow> bool" where
  "occurs ls lb p \<longleftrightarrow> p \<le> length ls \<and> take (length lb) (drop p ls) = lb"

lemma strstr_occurs:
  "case strstr ls lb of
     None \<Rightarrow> \<forall>p. \<not> occurs ls lb p
   | Some k \<Rightarrow> occurs ls lb k \<and> (\<forall>p. occurs ls lb p \<longrightarrow> k \<le> p)"
proof (induction ls)
  case Nil
  show ?case by (auto simp: occurs_def)
next
  case (Cons c cs)
  have step: "occurs (c # cs) lb (Suc p) = occurs cs lb p" for p by (simp add: occurs_def)
  have zero: "occurs (c # cs) lb 0 \<longleftrightarrow> take (length lb) (c # cs) = lb" by (simp add: occurs_def)
  show ?case
  proof (cases "take (length lb) (c # cs) = lb")
    case True
    then show ?thesis using zero by simp
  next
    case False
    have "(\<forall>p. occurs (c # cs) lb p \<longrightarrow> Suc k \<le> p) \<longleftrightarrow> (\<forall>p. occurs cs lb p \<longrightarrow> k \<le> p)" for k
      using step zero False by (metis Suc_le_mono not0_implies_Suc)
    moreover have "(\<forall>p. \<not> occurs (c # cs) lb p) \<longleftrightarrow> (\<forall>p. \<not> occurs cs lb p)"
      using step zero False by (metis not0_implies_Suc)
    ultimately show ?thesis using Cons.IH step False by (auto split: option.splits)
  qed
qed

lemma fields_not_Nil [simp]: "fields ls \<noteq> []"
  by (cases ls) auto

lemma hd_fields: "hd (fields ls) = takeWhile (\<lambda>c. c \<notin> delims) ls"
  by (induction ls) auto

definition field_at :: "u8 list \<Rightarrow> u8 list \<Rightarrow> nat \<Rightarrow> bool" where
  "field_at ls lb p \<longleftrightarrow> occurs ls lb p \<and> label_here ls lb p"

lemma first_field:
  assumes "set lb \<inter> delims = {}"
  shows "take (length lb) ls = lb \<and> (length lb = length ls \<or> ls ! length lb \<in> delims) \<longleftrightarrow> lb = takeWhile (\<lambda>c. c \<notin> delims) ls"
  using assms
proof (induction lb arbitrary: ls)
  case Nil
  then show ?case by (cases ls) auto
next
  case (Cons b lb)
  then show ?case by (cases ls) auto
qed

lemma field_at_0: "set lb \<inter> delims = {} \<Longrightarrow> field_at ls lb 0 \<longleftrightarrow> lb = hd (fields ls)"
  using first_field [of lb ls] by (auto simp: field_at_def occurs_def label_here_def hd_fields)

lemma field_at_Suc: "field_at (c # cs) lb (Suc p) \<longleftrightarrow> (if p = 0 then c \<in> delims \<and> field_at cs lb 0 else field_at cs lb p)"
  by (cases p) (auto simp: field_at_def occurs_def label_here_def)

lemma later_field: "set lb \<inter> delims = {} \<Longrightarrow> (\<exists>p. 0 < p \<and> field_at ls lb p) \<longleftrightarrow> lb \<in> set (tl (fields ls))"
proof (induction ls)
  case Nil
  then show ?case by (auto simp: field_at_def occurs_def)
next
  case (Cons c cs)
  have "(\<exists>p. 0 < p \<and> field_at (c # cs) lb p) \<longleftrightarrow> c \<in> delims \<and> field_at cs lb 0 \<or> (\<exists>p. 0 < p \<and> field_at cs lb p)"
    using field_at_Suc [of c cs lb] by (metis Suc_pred zero_less_Suc neq0_conv)
  moreover have "set (fields cs) = insert (hd (fields cs)) (set (tl (fields cs)))"
    by (metis fields_not_Nil list.collapse list.simps(15))
  ultimately show ?case using Cons field_at_0 [OF Cons.prems, of cs] by auto
qed

lemma fields_iff: "set lb \<inter> delims = {} \<Longrightarrow> (\<exists>p. field_at ls lb p) \<longleftrightarrow> lb \<in> set (fields ls)"
  using later_field [of lb ls] field_at_0 [of lb ls]
  by (metis fields_not_Nil gr0I list.collapse set_ConsD list.set_intros)

text \<open>From an occurrence on, the loop finds out whether a field follows.\<close>

lemma strcspn_nth: "strcspn xs S < length xs \<Longrightarrow> xs ! strcspn xs S \<in> S"
  using nth_length_takeWhile [of "\<lambda>c. c \<notin> S" xs] by (auto simp: strcspn_def)

lemma label_loop_field:
  assumes "lb \<noteq> []" and "set lb \<inter> delims = {}" and "occurs ls lb pos"
  shows "label_loop ls lb pos = Some (\<exists>p \<ge> pos. field_at ls lb p)"
  using assms(3)
proof (induction "length ls - pos" arbitrary: pos rule: less_induct)
  case less
  show ?case
  proof (cases "label_here ls lb pos")
    case True
    then show ?thesis using less.prems by (subst label_loop.simps) (auto simp: field_at_def)
  next
    case False
    let ?sub = "drop pos ls" let ?n = "strcspn ?sub delims"
    have le: "?n \<le> length ?sub" unfolding strcspn_def by (rule length_takeWhile_le)
    have after: "pos + ?n < p" if "pos \<le> p" "field_at ls lb p" for p
    proof -
      have p: "p \<noteq> pos" "p \<le> length ls" using that False by (auto simp: field_at_def occurs_def)
      then have "ls ! (p - 1) \<in> delims" using that by (auto simp: field_at_def label_here_def)
      then have d: "?sub ! (p - 1 - pos) \<in> delims" using p that by simp
      have "?n \<le> p - 1 - pos"
      proof (rule ccontr)
        assume "\<not> ?n \<le> p - 1 - pos"
        then have "?sub ! (p - 1 - pos) \<in> set (takeWhile (\<lambda>c. c \<notin> delims) ?sub)"
          unfolding strcspn_def by (metis not_le nth_mem takeWhile_nth)
        then show False using d by (auto dest: set_takeWhileD)
      qed
      then show ?thesis using p that by simp
    qed
    show ?thesis
    proof (cases "?n = length ?sub")
      case True
      then have "\<not> (\<exists>p \<ge> pos. field_at ls lb p)" using after less.prems by (fastforce simp: field_at_def occurs_def)
      then show ?thesis using False True by (subst label_loop.simps) (simp add: Let_def)
    next
      case n: False
      then have lt: "?n < length ?sub" using le by simp
      have dl: "ls ! (pos + ?n) \<in> delims" using strcspn_nth [OF lt] lt by simp
      have sh: "occurs (drop (pos + ?n) ls) lb k \<longleftrightarrow> occurs ls lb (pos + ?n + k)" for k
        using lt by (auto simp: occurs_def add.commute add.left_commute)
      have dd: "drop ?n ?sub = drop (pos + ?n) ls" by (simp add: add.commute)
      note ss = strstr_occurs [of "drop (pos + ?n) ls" lb]
      show ?thesis
      proof (cases "strstr (drop (pos + ?n) ls) lb")
        case None
        have "\<not> field_at ls lb p" if p: "pos \<le> p" for p
        proof
          assume f: "field_at ls lb p"
          then have "occurs ls lb (pos + ?n + (p - (pos + ?n)))" using after [OF p f] by (simp add: field_at_def)
          then show False using ss sh None by simp
        qed
        then have "\<not> (\<exists>p \<ge> pos. field_at ls lb p)" by blast
        then show ?thesis using False n None by (subst label_loop.simps) (simp add: Let_def dd del: drop_drop)
      next
        case (Some k)
        then have o: "occurs ls lb (pos + ?n + k)" and first: "\<And>p. occurs ls lb (pos + ?n + p) \<Longrightarrow> k \<le> p" using ss sh by auto
        have "k \<noteq> 0"
        proof
          assume "k = 0"
          then have "take (length lb) (drop (pos + ?n) ls) = lb" using o by (simp add: occurs_def)
          then have "ls ! (pos + ?n) = hd lb" using assms(1) lt by (metis hd_drop_conv_nth hd_take length_greater_0_conv length_drop less_diff_conv add.commute)
          then have "hd lb \<in> delims" using dl by simp
          then show False using assms(1,2) hd_in_set [of lb] by blast
        qed
        then have "label_loop ls lb (pos + ?n + k) = Some (\<exists>p \<ge> pos + ?n + k. field_at ls lb p)"
          using less.hyps [OF _ o] lt by auto
        moreover have "(\<exists>p \<ge> pos + ?n + k. field_at ls lb p) \<longleftrightarrow> (\<exists>p \<ge> pos. field_at ls lb p)"
        proof
          assume "\<exists>p \<ge> pos. field_at ls lb p"
          then obtain p where p: "pos \<le> p" "field_at ls lb p" by blast
          then have "pos + ?n + k \<le> p" using after [OF p] first [of "p - (pos + ?n)"] by (auto simp: field_at_def)
          then show "\<exists>p \<ge> pos + ?n + k. field_at ls lb p" using p by blast
        next
          assume "\<exists>p \<ge> pos + ?n + k. field_at ls lb p"
          then show "\<exists>p \<ge> pos. field_at ls lb p" by (meson add_leD1)
        qed
        ultimately show ?thesis using False n Some by (subst label_loop.simps) (simp add: Let_def dd del: drop_drop)
      qed
    qed
  qed
qed

lemma label_search_fields:
  assumes "lb \<noteq> []" and "set lb \<inter> delims = {}"
  shows "bootloader_common_label_search (Some ls) (Some lb) = Some (lb \<in> set (fields ls))"
proof (cases "strstr ls lb")
  case None
  then show ?thesis using strstr_occurs [of ls lb] fields_iff [OF assms(2), of ls]
    by (auto simp: bootloader_common_label_search_def field_at_def)
next
  case (Some k)
  then have k: "occurs ls lb k" "\<And>p. occurs ls lb p \<Longrightarrow> k \<le> p" using strstr_occurs [of ls lb] by auto
  have "(\<exists>p \<ge> k. field_at ls lb p) \<longleftrightarrow> (\<exists>p. field_at ls lb p)" using k(2) by (auto simp: field_at_def)
  then show ?thesis using label_loop_field [OF assms k(1)] fields_iff [OF assms(2), of ls] Some
    by (simp add: bootloader_common_label_search_def)
qed

text \<open>
  An empty label in a list of two: the search never ends.
\<close>

lemma stuck_loop:
  assumes "label_loop [110, 44, 120] [] (Suc 0) = Some r"
  shows False
proof -
  define P where "P = (\<lambda>ls lb pos (r :: bool). \<not> (ls = [110, 44, 120 :: u8] \<and> lb = ([] :: u8 list) \<and> pos = Suc 0))"
  have "P [110, 44, 120] [] (Suc 0) r"
  proof (rule label_loop.raw_induct [where P = P, OF _ assms], goal_cases)
    case (1 f ls lb pos r)
    then show ?case using 1(1) [of "[110, 44, 120]" "[]" "Suc 0" r] by (auto simp: P_def label_here_def strcspn_def Let_def)
  qed
  then show False by (simp add: P_def)
qed

lemma empty_label_hangs: "bootloader_common_label_search (Some [110, 44, 120]) (Some []) = None"
proof -
  have "label_loop [110, 44, 120] [] 0 = label_loop [110, 44, 120] [] (Suc 0)"
    by (subst label_loop.simps) (simp add: label_here_def strcspn_def Let_def)
  then show ?thesis using stuck_loop by (cases "label_loop [110, 44, 120] [] (Suc 0)") (auto simp: bootloader_common_label_search_def)
qed

section \<open>Erasing the listed partitions\<close>

lemma erase_sectors_works: "working (bl_chip s) \<Longrightarrow> \<exists>s'. erase_sectors a b s = (SPIFLASH_RESULT_OK, s')"
proof (induction a b s rule: erase_sectors.induct)
  case (1 a b s)
  show ?case
  proof (cases "a \<ge> b")
    case True
    then show ?thesis by (simp add: erase_sectors.simps)
  next
    case False
    let ?n = "if a mod 16 = 0 \<and> b - a \<ge> 16 then 16 else 1 :: nat"
    obtain s1 where r: "rom_op (erase_mem (a * 4096) (?n * 4096)) s = (SPIFLASH_RESULT_OK, s1)" using rom_op_works [OF 1(2)] by blast
    have "\<exists>s'. erase_sectors (a + ?n) b s1 = (SPIFLASH_RESULT_OK, s')"
      using "1.IH" [OF False refl refl r [symmetric]] bl_later_working [OF rom_op_ok [OF r] 1(2)] by simp
    then show ?thesis using False r unfolding erase_sectors.simps [of a b s] by (simp add: Let_def)
  qed
qed

lemma erase_range_works:
  assumes "working (bl_chip s)" and "4096 dvd a" and "4096 dvd n"
  shows "\<exists>s'. bootloader_flash_erase_range a n s = (ESP_OK, s')"
  using erase_sectors_works [OF assms(1), of "a div 4096" "a div 4096 + n div 4096"] assms(2,3)
  by (auto simp: bootloader_flash_erase_range_def Let_def dvd_eq_mod_eq_0)

text \<open>Which partitions the reset erases, and the labels it can handle.\<close>

definition listed :: "u8 list \<Rightarrow> bool \<Rightarrow> esp_partition_info_t \<Rightarrow> bool" where
  "listed ls ota part \<longleftrightarrow> i_type part = PART_TYPE_DATA \<and>
     (ota \<and> i_subtype part = PART_SUBTYPE_DATA_OTA \<or> cstr 16 (i_label part) \<in> set (fields ls))"

definition good_label :: "u8 list \<Rightarrow> bool" where
  "good_label lb \<longleftrightarrow> lb \<noteq> [] \<and> set lb \<inter> delims = {}"

definition in_part :: "nat \<Rightarrow> esp_partition_info_t \<Rightarrow> bool" where
  "in_part a part \<longleftrightarrow> pos_offset (i_pos part) \<le> a \<and> a < pos_offset (i_pos part) + pos_size (i_pos part)"

lemma erase_data_parts_ok:
  assumes "working (bl_chip s)" and "bl_ok env s"
    and "\<forall>part \<in> set parts. i_type part = PART_TYPE_DATA \<longrightarrow> good_label (cstr 16 (i_label part))
      \<and> 4096 dvd pos_offset (i_pos part) \<and> 4096 dvd pos_size (i_pos part)"
  shows "\<exists>s'. erase_data_parts ls ota parts ret s = Some (ret, s') \<and> chip_cfg (bl_chip s') = chip_cfg (bl_chip s) \<and> working (bl_chip s') \<and> bl_ok env s' \<and> s' = s\<lparr> bl_chip := bl_chip s' \<rparr>
    \<and> (\<forall>a. (\<exists>part \<in> set parts. listed ls ota part \<and> in_part a part) \<longrightarrow> bl_blank s' a)
    \<and> (\<forall>a. \<not> (\<exists>part \<in> set parts. listed ls ota part \<and> in_part a part) \<longrightarrow> bl_view s' a = bl_view s a \<and> bl_blank s' a = bl_blank s a)"
  using assms
proof (induction parts arbitrary: s)
  case (Cons p parts)
  show ?case
  proof (cases "listed ls ota p")
    case False
    then have "erase_data_parts ls ota (p # parts) ret s = erase_data_parts ls ota parts ret s"
      using Cons.prems(3) label_search_fields [of "cstr 16 (i_label p)" ls] by (auto simp: listed_def good_label_def)
    then show ?thesis using Cons.IH [OF Cons.prems(1,2)] Cons.prems(3) False by auto
  next
    case True
    let ?o = "pos_offset (i_pos p)" and ?n = "pos_size (i_pos p)"
    have al: "4096 dvd ?o" "4096 dvd ?n" "good_label (cstr 16 (i_label p))" "i_type p = PART_TYPE_DATA" using True Cons.prems(3) by (auto simp: listed_def)
    obtain s1 where e: "bootloader_flash_erase_range ?o ?n s = (ESP_OK, s1)" using erase_range_works [OF Cons.prems(1) al(1,2)] by blast
    note l = bl_erase_ok(1) [OF e]
    have s1: "working (bl_chip s1)" "bl_ok env s1" using bl_later_working [OF l Cons.prems(1)] boot.er_inv [OF Cons.prems(2) e] by auto
    have step: "erase_data_parts ls ota (p # parts) ret s = erase_data_parts ls ota parts ret s1"
      using e al True label_search_fields [of "cstr 16 (i_label p)" ls] by (auto simp: listed_def good_label_def)
    obtain s' where s': "erase_data_parts ls ota parts ret s1 = Some (ret, s')" "working (bl_chip s')" "bl_ok env s'" "s' = s1\<lparr> bl_chip := bl_chip s' \<rparr>"
      and cf: "chip_cfg (bl_chip s') = chip_cfg (bl_chip s1)"
      and bl: "\<And>a. \<exists>part \<in> set parts. listed ls ota part \<and> in_part a part \<Longrightarrow> bl_blank s' a"
      and fr: "\<And>a. \<not> (\<exists>part \<in> set parts. listed ls ota part \<and> in_part a part) \<Longrightarrow> bl_view s' a = bl_view s1 a \<and> bl_blank s' a = bl_blank s1 a"
      using Cons.IH [OF s1] Cons.prems(3) by auto
    have b1: "bl_blank s1 a" if "in_part a p" for a using boot.er_blank [OF Cons.prems(2) e, of a] that by (simp add: in_part_def)
    have f1: "bl_view s1 a = bl_view s a \<and> bl_blank s1 a = bl_blank s a" if "\<not> in_part a p" for a
      using boot.er_frame [OF Cons.prems(2) e, of a] that by (auto simp: in_part_def)
    have "s' = s\<lparr> bl_chip := bl_chip s' \<rparr>" using s'(4) bl_state_eq [OF l]
      by (metis boot_state.surjective bl_flash_state.update_convs(1))
    moreover have "bl_blank s' a" if "\<exists>part \<in> set (p # parts). listed ls ota part \<and> in_part a part" for a
      using that bl [of a] fr [of a] b1 [of a] by auto
    moreover have "bl_view s' a = bl_view s a \<and> bl_blank s' a = bl_blank s a"
      if "\<not> (\<exists>part \<in> set (p # parts). listed ls ota part \<and> in_part a part)" for a
      using that True fr [of a] f1 [of a] by auto
    moreover have "chip_cfg (bl_chip s') = chip_cfg (bl_chip s)" using cf l by (simp add: bl_later_def later_def)
    ultimately show ?thesis using step s' by auto
  qed
qed simp

section \<open>Properties\<close>

text \<open>
  \<^verbatim>\<open>bootloader_common_label_search\<close> returns, for a label that is not empty and contains neither
  commas nor blanks, and the result is whether the label is one of the fields of the list.
\<close>

theorem label_search_is_membership:
  assumes "label \<noteq> []" and "set label \<inter> {44, 32} = {}"
  shows "bootloader_common_label_search (Some ls) (Some label) = Some (label \<in> set (fields ls))"
  by (rule label_search_fields [OF assms])

text \<open>The table can be mapped and is accepted, with \<open>num\<close> partitions.\<close>

definition table_readable :: "boot_env \<Rightarrow> boot_state \<Rightarrow> nat \<Rightarrow> bool" where
  "table_readable env s num \<longleftrightarrow> \<not> mapped s \<and> ESP_PARTITION_TABLE_MAX_LEN \<le> mmap_mmu_size env
     \<and> vaddr_region_valid env (add32 (boot_table_offset env mod mmu_page_size env) ESP_PARTITION_TABLE_MAX_LEN)
     \<and> esp_partition_table_verify (boot_md5 env) (chip_size (bl_chip s)) (bl_view s) (boot_table_offset env) = (ESP_OK, num)"

definition erasable :: "esp_partition_info_t list \<Rightarrow> bool" where
  "erasable es \<longleftrightarrow> (\<forall>part \<in> set es. i_type part = PART_TYPE_DATA \<longrightarrow> good_label (cstr 16 (i_label part))
     \<and> 4096 dvd pos_offset (i_pos part) \<and> 4096 dvd pos_size (i_pos part))"

lemma erase_part_type_data_ok:
  assumes "table_readable env s num" and "working (bl_chip s)" and "bl_ok env s" and "erasable (table_entries (bl_view s) (boot_table_offset env) num)"
  defines "parts \<equiv> set (table_entries (bl_view s) (boot_table_offset env) num)"
  shows "\<exists>s'. bootloader_common_erase_part_type_data env ls ota s = Some (True, s') \<and> chip_cfg (bl_chip s') = chip_cfg (bl_chip s)
    \<and> working (bl_chip s') \<and> bl_ok env s' \<and> s' = s\<lparr> bl_chip := bl_chip s' \<rparr>
    \<and> (\<forall>a. (\<exists>part \<in> parts. listed ls ota part \<and> in_part a part) \<longrightarrow> bl_blank s' a)
    \<and> (\<forall>a. \<not> (\<exists>part \<in> parts. listed ls ota part \<and> in_part a part) \<longrightarrow> bl_view s' a = bl_view s a)"
proof -
  let ?m = "s\<lparr> mapped := True \<rparr>"
  have m: "bootloader_mmap env (boot_table_offset env) ESP_PARTITION_TABLE_MAX_LEN s = (Some (boot_table_offset env), ?m)" "\<not> mapped s"
    using assms(1) by (simp_all add: table_readable_def bootloader_mmap_def Let_def sub_sub_mod)
  have "bl_ok env ?m" "working (bl_chip ?m)" using assms(2,3) by (simp_all add: bl_ok_def)
  from erase_data_parts_ok [OF this(2,1) assms(4) [unfolded erasable_def], of ls ota True] obtain s' where
    s': "erase_data_parts ls ota (table_entries (bl_view s) (boot_table_offset env) num) True ?m = Some (True, s')"
    "working (bl_chip s')" "bl_ok env s'" "s' = ?m\<lparr> bl_chip := bl_chip s' \<rparr>" "chip_cfg (bl_chip s') = chip_cfg (bl_chip ?m)"
    and b: "\<And>a. (\<exists>part \<in> parts. listed ls ota part \<and> in_part a part) \<Longrightarrow> bl_blank s' a"
    and f: "\<And>a. \<not> (\<exists>part \<in> parts. listed ls ota part \<and> in_part a part) \<Longrightarrow> bl_view s' a = bl_view ?m a" unfolding parts_def by blast
  let ?r = "bootloader_munmap s'"
  have r: "bl_chip ?r = bl_chip s'" "?r = s\<lparr> bl_chip := bl_chip ?r \<rparr>"
    using m(2) arg_cong [OF s'(4), of "\<lambda>x. x\<lparr> mapped := False \<rparr>"] arg_cong [OF s'(4), of mapped]
    by (simp_all add: bootloader_munmap_def)
  have v: "bl_view ?r = bl_view s'" "bl_blank ?r = bl_blank s'" "bl_view ?m = bl_view s" using r(1) by (simp_all add: bl_view_def bl_blank_def fun_eq_iff)
  have "bootloader_common_erase_part_type_data env ls ota s = Some (True, ?r)"
    using m(1) s'(1) assms(1) by (simp add: bootloader_common_erase_part_type_data_def table_readable_def Let_def bl_view_def)
  moreover have "bl_ok env ?r" using s'(3) r(1) by (simp add: bl_ok_def)
  ultimately show ?thesis using s'(2,5) r b f v by (intro exI [of _ ?r]) simp
qed

text \<open>
  C25: on working flash a factory reset erases every data partition whose label is listed (and
  the OTA data, if asked to) completely and changes no other byte, for tables whose data
  partitions are aligned to sectors and have labels that are not empty and contain no separator.
\<close>

theorem factory_reset_erases_listed:
  assumes "table_readable env s num" and "working (bl_chip s)" and "bl_ok env s" and "erasable (table_entries (bl_view s) (boot_table_offset env) num)"
  shows "let parts = set (table_entries (bl_view s) (boot_table_offset env) num); erased_at = \<lambda>a. \<exists>part \<in> parts. listed ls ota part \<and> in_part a part in
    \<exists>s'. bootloader_common_erase_part_type_data env ls ota s = Some (True, s')
      \<and> (\<forall>a. erased_at a \<longrightarrow> flash_mem (bl_chip s') a = 0xFF) \<and> (\<forall>a. \<not> erased_at a \<longrightarrow> bl_view s' a = bl_view s a)"
proof -
  obtain s' where "bootloader_common_erase_part_type_data env ls ota s = Some (True, s')"
    and "\<forall>a. (\<exists>part \<in> set (table_entries (bl_view s) (boot_table_offset env) num). listed ls ota part \<and> in_part a part) \<longrightarrow> bl_blank s' a"
    and "\<forall>a. \<not> (\<exists>part \<in> set (table_entries (bl_view s) (boot_table_offset env) num). listed ls ota part \<and> in_part a part) \<longrightarrow> bl_view s' a = bl_view s a"
    using erase_part_type_data_ok [OF assms, of ls ota] by blast
  then show ?thesis unfolding Let_def bl_blank_def flash_erased_def by (intro exI [of _ s']) blast
qed

lemma choice_valid_index: "boot_choice fac n crc d \<noteq> INVALID_INDEX"
  by (auto simp: boot_choice_def split: option.splits)

lemma rd_select_erased:
  assumes "\<And>i. i < 32 \<Longrightarrow> m (a + i) = 0xFF"
  shows "ota_seq (rd_select m a) = UINT32_MAX \<and> ota_state (rd_select m a) = UINT32_MAX"
proof -
  have b: "bytes_of_u32 UINT32_MAX = replicate 4 0xFF" by code_simp
  have "rd32 m a = UINT32_MAX" by (rule rd32_at) (use assms in \<open>simp add: b\<close>)
  moreover have "rd32 m (a + 24) = UINT32_MAX"
  proof (rule rd32_at)
    fix i :: nat assume "i < 4"
    then show "m (a + 24 + i) = bytes_of_u32 UINT32_MAX ! i" using assms [of "24 + i"] by (simp add: b add.assoc)
  qed
  ultimately show ?thesis by (simp add: rd_select_def)
qed

text \<open>
  C24: a factory reset brings the factory image back. When the button is held at a cold boot and
  the OTA data is to be erased, the bootloader chooses the factory image if there is one and
  slot 0 otherwise, whatever was selected before, and every byte of the OTA data partition is
  erased, so that neither record selects a slot (without flash encryption and anti-rollback).
\<close>

theorem factory_reset_boots_factory:
  assumes ok: "otadata_ok env bs s" and w: "working (bl_chip s)" and "\<not> app_anti_rollback env"
    and first: "bootloader_utility_get_selected_boot_partition env bs s = Some (i0, s1)" and en: "\<not> enc_enabled (bl_chip s1)"
    and tab: "table_readable env s1 num" "erasable (table_entries (bl_view s1) (boot_table_offset env) num)"
    and e: "e \<in> set (table_entries (bl_view s1) (boot_table_offset env) num)" "i_type e = PART_TYPE_DATA" "i_subtype e = PART_SUBTYPE_DATA_OTA" "i_pos e = bs_ota_info bs"
    and cold: "\<not> reset_from_deep_sleep env" "factory_reset env" "ota_data_erase env"
    and held: "bootloader_common_check_long_hold_gpio_level (hold_time env) (factory_reset_level env) (factory_reset_pin env) = Some GPIO_LONG_HOLD"
  shows "\<exists>s'. selected_boot_partition env bs s = Some (if pos_offset (bs_factory bs) \<noteq> 0 then FACTORY_INDEX else 0, s')
    \<and> (\<forall>a. in_part a e \<longrightarrow> flash_mem (bl_chip s') a = 0xFF)
    \<and> (\<forall>i. bootloader_common_ota_select_invalid (otadata_at (boot_records bs s') i))"
proof -
  have s1: "otadata_ok env bs s1" "working (bl_chip s1)" "i0 \<noteq> INVALID_INDEX"
    using selected_in_step [OF ok w assms(3)] first choice_valid_index by auto
  have bo: "bl_ok env s1" using s1(1) by (simp add: otadata_ok_def Let_def)
  obtain s2 where s2: "bootloader_common_erase_part_type_data env (data_factory_reset env) True s1 = Some (True, s2)" "working (bl_chip s2)" "bl_ok env s2"
    "s2 = s1\<lparr> bl_chip := bl_chip s2 \<rparr>" "chip_cfg (bl_chip s2) = chip_cfg (bl_chip s1)"
    and bl: "\<And>a. \<exists>part \<in> set (table_entries (bl_view s1) (boot_table_offset env) num). listed (data_factory_reset env) True part \<and> in_part a part \<Longrightarrow> bl_blank s2 a"
    using erase_part_type_data_ok [OF tab(1) s1(2) bo tab(2), of "data_factory_reset env" True] by blast
  let ?s3 = "if reserve_rtc_mem env then s2\<lparr> retain_mem := bootloader_common_set_rtc_retain_mem_factory_reset_state (boot_crc env) (custom_rtc_in_crc env) (retain_mem s2) \<rparr> else s2"
  have c: "bl_chip ?s3 = bl_chip s2" "mapped ?s3 = mapped s1" using arg_cong [OF s2(4), of mapped] by auto
  have ok3: "otadata_ok env bs ?s3" using s1(1) s2(3) c by (simp add: otadata_ok_def bl_ok_def Let_def)
  have "listed (data_factory_reset env) True e" using e(2,3) by (simp add: listed_def)
  then have blank: "flash_mem (bl_chip s2) a = 0xFF" if "in_part a e" for a using bl [of a] e(1) that by (auto simp: bl_blank_def flash_erased_def)
  have "\<not> enc_enabled (bl_chip s2)" using en chip_cfg_sel(4) [OF s2(5)] by simp
  then have v: "bl_view ?s3 = flash_mem (bl_chip s2)" using c(1) by (simp add: bl_view_def flash_view_def)
  have sz: "8192 \<le> pos_size (bs_ota_info bs)" using s1(1) by (simp add: otadata_ok_def Let_def)
  have rec: "ota_seq (otadata_at (boot_records bs ?s3) i) = UINT32_MAX \<and> ota_state (otadata_at (boot_records bs ?s3) i) = UINT32_MAX" for i
    unfolding boot_records_def otadata_at_def Let_def v using rd_select_erased [of "flash_mem (bl_chip s2)"] blank sz e(4) by (simp add: in_part_def)
  from rec [of 0] rec [of 1] have er: "ota_seq (fst (boot_records bs ?s3)) = UINT32_MAX" "ota_seq (snd (boot_records bs ?s3)) = UINT32_MAX"
    "ota_state (fst (boot_records bs ?s3)) = UINT32_MAX" "ota_state (snd (boot_records bs ?s3)) = UINT32_MAX"
    by (simp_all add: otadata_at_def)
  have off: "pos_offset (bs_ota_info bs) \<noteq> 0" using ok3 by (simp add: otadata_ok_def Let_def)
  have "\<exists>b. bootloader_utility_get_selected_boot_partition env bs ?s3 =
      Some (if pos_offset (bs_factory bs) \<noteq> 0 then FACTORY_INDEX else 0, ?s3\<lparr> ota_has_initial_contents := b \<rparr>)"
    using off read_otadata_ok [OF ok3] er assms(3)
    by (auto simp: bootloader_utility_get_selected_boot_partition_def abort_pending_def otadata_at_def bootloader_common_ota_select_invalid_def Let_def)
  then obtain b where get: "bootloader_utility_get_selected_boot_partition env bs ?s3 =
      Some (if pos_offset (bs_factory bs) \<noteq> 0 then FACTORY_INDEX else 0, ?s3\<lparr> ota_has_initial_contents := b \<rparr>)" by blast
  have "selected_boot_partition env bs s = bootloader_utility_get_selected_boot_partition env bs ?s3"
    using first s1(3) cold held s2(1) by (simp add: selected_boot_partition_def Let_def)
  moreover have "flash_mem (bl_chip (?s3\<lparr> ota_has_initial_contents := b \<rparr>)) a = 0xFF" if "in_part a e" for a using blank [OF that] c(1) by simp
  moreover have "boot_records bs (?s3\<lparr> ota_has_initial_contents := b \<rparr>) = boot_records bs ?s3" by (simp add: boot_records_def bl_view_def)
  then have "bootloader_common_ota_select_invalid (otadata_at (boot_records bs (?s3\<lparr> ota_has_initial_contents := b \<rparr>)) i)" for i
    using rec by (simp add: bootloader_common_ota_select_invalid_def)
  ultimately show ?thesis using get by auto
qed

end
