(* ===== verification/Image_Segments.thy ===== *)
theory Image_Segments
  imports Image_Format
begin

text \<open>
  The segments of an image: what the loops of \<^verbatim>\<open>process_segment\<close> and \<^verbatim>\<open>process_segments\<close> give to the
  hash and to the checksum, and what they write to memory.
\<close>

section \<open>Bytes that have been hashed and summed\<close>

fun xor_words :: "memory \<Rightarrow> nat \<Rightarrow> nat \<Rightarrow> u32" where
  "xor_words m a 0 = 0"
| "xor_words m a (Suc k) = xor_words m a k XOR rd32 m (a + 4 * k)"

lemma xor_words_add: "xor_words m a (j + k) = xor_words m a j XOR xor_words m (a + 4 * j) k"
  by (induction k) (simp_all add: ac_simps)

text \<open>Nothing but the hash, the checksum, the memory and the secure version has changed.\<close>

definition same_flash :: "image_state \<Rightarrow> image_state \<Rightarrow> bool" where
  "same_flash s s' \<longleftrightarrow> bl_chip s' = bl_chip s \<and> bootloader_partition_offset s' = bootloader_partition_offset s
     \<and> (\<exists>v. img s' = (img s)\<lparr> img_secure_version := v \<rparr>)
     \<and> image_digest s' = image_digest s \<and> verified_digest s' = verified_digest s"

definition fed :: "memory \<Rightarrow> nat \<Rightarrow> nat \<Rightarrow> u32 \<Rightarrow> image_state \<Rightarrow> image_state \<Rightarrow> bool" where
  "fed m a n x s s' \<longleftrightarrow> sha_handle s' = map_option (\<lambda>acc. acc @ rd_bytes m a n) (sha_handle s)
     \<and> checksum s' = map_option (\<lambda>c. c XOR x) (checksum s)"

lemma rd_bytes_0 [simp]: "rd_bytes m a 0 = []"
  by (simp add: rd_bytes_def)

lemma fed_trans: "fed m a n x s s1 \<Longrightarrow> fed m (a + n) k y s1 s2 \<Longrightarrow> fed m a (n + k) (x XOR y) s s2"
  by (cases "sha_handle s"; cases "checksum s") (simp_all add: fed_def rd_bytes_add xor.assoc)

lemma same_flash_trans: "same_flash s s1 \<Longrightarrow> same_flash s1 s2 \<Longrightarrow> same_flash s s2"
  by (auto simp: same_flash_def)

lemma same_flash_refl [simp]: "same_flash s s"
  unfolding same_flash_def by (auto intro: exI [of _ "img_secure_version (img s)"])

lemma fed_refl [simp]: "fed m a 0 0 s s"
  by (cases "sha_handle s"; cases "checksum s") (simp_all add: fed_def)

section \<open>Words of a piece\<close>

lemma hash_progress:
  fixes k :: nat
  shows "(4 * Suc k + 1023) div 1024 = (if 4 * k mod 1024 = 0 then Suc ((4 * k + 1023) div 1024) else (4 * k + 1023) div 1024)"
    and "4 * k mod 1024 = 0 \<Longrightarrow> 1024 * ((4 * k + 1023) div 1024) = 4 * k"
proof -
  define q r where "q = 4 * k div 1024" and "r = 4 * k mod 1024"
  have k: "4 * k = 1024 * q + r" "r < 1024" unfolding q_def r_def by (simp_all only: mult_div_mod_eq)
  have "4 dvd r" unfolding r_def by (simp add: dvd_mod_iff)
  then have r: "r = 0 \<or> 4 \<le> r \<and> r \<le> 1020" using k(2) by (auto elim!: dvdE)
  have a: "4 * Suc k + 1023 = (r + 1027) + 1024 * q" "4 * k + 1023 = (r + 1023) + 1024 * q" using k by simp_all
  have d: "(4 * Suc k + 1023) div 1024 = (r + 1027) div 1024 + q" "(4 * k + 1023) div 1024 = (r + 1023) div 1024 + q"
    unfolding a by simp_all
  have "(r + 1027) div 1024 = 1" "r \<noteq> 0 \<Longrightarrow> (r + 1023) div 1024 = 1" using r by (auto intro!: div_nat_eqI)
  then show "(4 * Suc k + 1023) div 1024 = (if 4 * k mod 1024 = 0 then Suc ((4 * k + 1023) div 1024) else (4 * k + 1023) div 1024)"
    unfolding d r_def [symmetric] by auto
  show "1024 * ((4 * k + 1023) div 1024) = 4 * k" if "4 * k mod 1024 = 0"
    using that k d(2) unfolding r_def [symmetric] by simp
qed

definition hashed :: "nat \<Rightarrow> nat \<Rightarrow> nat" where
  "hashed n k = min n (1024 * ((4 * k + 1023) div 1024))"

lemma hashed_Suc:
  assumes "4 * k < n"
  shows "rd_bytes m a (hashed n (Suc k)) = rd_bytes m a (hashed n k) @ (if 4 * k mod 1024 = 0 then rd_bytes m (a + 4 * k) (min 1024 (n - 4 * k)) else [])"
proof (cases "4 * k mod 1024 = 0")
  case True
  note h = hash_progress(1) [of k] hash_progress(2) [OF True]
  have "hashed n k = 4 * k" using assms h(2) by (simp add: hashed_def)
  moreover have "1024 * ((4 * Suc k + 1023) div 1024) = 1024 + 4 * k" using h True by simp
  then have "hashed n (Suc k) = 4 * k + min 1024 (n - 4 * k)" using assms unfolding hashed_def by linarith
  ultimately show ?thesis using True by (simp only: rd_bytes_add simp_thms if_True)
next
  case False
  then show ?thesis using hash_progress(1) [of k] by (simp add: hashed_def)
qed

fun obfs_words :: "memory \<Rightarrow> nat \<Rightarrow> u32 \<times> u32 \<Rightarrow> nat \<Rightarrow> u8 list" where
  "obfs_words m src v 0 = []"
| "obfs_words m src v (Suc k) = obfs_words m src v k @ bytes_of_u32 (rd32 m (src + 4 * k) XOR obfs v k)"

lemma length_obfs_words [simp]: "length (obfs_words m src v k) = 4 * k"
  by (induction k) simp_all

lemma wr_bytes_append: "wr_bytes m a (xs @ ys) = wr_bytes (wr_bytes m a xs) (a + length xs) ys"
  by (rule ext) (auto simp: wr_bytes_def nth_append)

lemma segment_words_prefix:
  assumes "4 * k \<le> n"
  shows "fold (segment_word m src dest dl n) [0..<k] s = s\<lparr>
    sha_handle := map_option (\<lambda>acc. acc @ rd_bytes m src (hashed n k)) (sha_handle s),
    checksum := map_option (\<lambda>c. c XOR xor_words m src k) (checksum s),
    ram := (if dl then wr_bytes (ram s) dest (obfs_words m src (ram_obfs_value s) k) else ram s) \<rparr>"
  using assms
proof (induction k)
  case 0
  then show ?case by (cases "sha_handle s"; cases "checksum s") (simp_all add: hashed_def)
next
  case (Suc k)
  have k: "4 * k < n" "4 * k \<le> n" using Suc.prems by simp_all
  have "fold (segment_word m src dest dl n) [0..<Suc k] s = segment_word m src dest dl n k (fold (segment_word m src dest dl n) [0..<k] s)" by simp
  then show ?case
    unfolding Suc.IH [OF k(2)] segment_word_def Let_def hashed_Suc [OF k(1)]
    by (cases "sha_handle s"; cases "checksum s"; cases dl; cases "4 * k mod 1024 = 0")
       (simp_all add: xor_checksum_def sha_data_def wr_bytes_append wr32_def xor.assoc)
qed

lemma segment_words_effect:
  assumes "n mod 4 = 0"
  shows "segment_words m src dest dl n s = s\<lparr>
    sha_handle := map_option (\<lambda>acc. acc @ rd_bytes m src n) (sha_handle s),
    checksum := map_option (\<lambda>c. c XOR xor_words m src (n div 4)) (checksum s),
    ram := (if dl then wr_bytes (ram s) dest (obfs_words m src (ram_obfs_value s) (n div 4)) else ram s) \<rparr>"
proof -
  have n: "4 * (n div 4) = n" using assms by auto
  then have "(n + 3) div 4 = n div 4" by linarith
  moreover have "hashed n (n div 4) = n" unfolding hashed_def n by simp
  ultimately show ?thesis using segment_words_prefix [of "n div 4" n m src dest dl s] n by (simp add: segment_words_def)
qed

section \<open>Pieces and segments\<close>

text \<open>What a piece of a verified segment does; \<open>first\<close>: the piece with the description under anti-rollback.\<close>

definition piece :: "bool \<Rightarrow> bool \<Rightarrow> nat \<Rightarrow> nat \<Rightarrow> nat \<Rightarrow> image_state \<Rightarrow> image_state \<Rightarrow> bool" where
  "piece first dl la da n s s' \<longleftrightarrow> fed (bl_view s) da n (xor_words (bl_view s) da (n div 4)) s s' \<and> same_flash s s' \<and> \<not> mapped s'
     \<and> fill_obfs (ram_obfs_value s) (random_values s) = Some (ram_obfs_value s', random_values s')
     \<and> (\<not> dl \<longrightarrow> ram s' = ram s)
     \<and> (dl \<and> \<not> first \<longrightarrow> ram s' = wr_bytes (ram s) la (obfs_words (bl_view s) da (ram_obfs_value s') (n div 4)))"

lemma desc_words:
  assumes "8 \<le> n" and "n mod 4 = 0"
  shows "(n - 8) mod 4 = 0" and "xor_words m a (n div 4) = rd32 m a XOR rd32 m (a + 4) XOR xor_words m (a + 8) ((n - 8) div 4)"
    and "rd_bytes m a n = rd_bytes m a 8 @ rd_bytes m (a + 8) (n - 8)"
proof -
  show "(n - 8) mod 4 = 0" using assms by presburger
  have "n div 4 = 2 + (n - 8) div 4" using assms(1) by linarith
  then show "xor_words m a (n div 4) = rd32 m a XOR rd32 m (a + 4) XOR xor_words m (a + 8) ((n - 8) div 4)"
    by (simp only: xor_words_add) (simp add: numeral_2_eq_2 xor.assoc)
  show "rd_bytes m a n = rd_bytes m a 8 @ rd_bytes m (a + 8) (n - 8)" by (rule rd_bytes_split [OF assms(1)])
qed

lemma piece_ok:
  assumes p: "process_segment_data env i la da n dl st s = Some (ESP_OK, s')" and c: "checksum s \<noteq> None" and n: "n mod 4 = 0"
  shows "piece (image_anti_rollback env \<and> i = 0 \<and> st) dl la da n s s'"
proof -
  let ?m = "bl_view s"
  have mm: "\<not> mapped s" "bootloader_mmap env da n s = (Some da, s\<lparr> mapped := True \<rparr>)"
    using p c mmap_cases [of env da n s] by (auto simp: process_segment_data_def)
  obtain v rs where f: "fill_obfs (ram_obfs_value s) (random_values s) = Some (v, rs)"
    using p c mm by (auto simp: process_segment_data_def Let_def split: Option.bind_splits if_splits)
  let ?s2 = "s\<lparr> mapped := True, ram_obfs_value := v, random_values := rs \<rparr>"
  define app where "app \<longleftrightarrow> i = 0 \<and> st \<and> \<not> is_bootloader env ?s2 (img_start_addr (img s))"
  have v: "flash_view (bl_chip s) = ?m" by (simp add: bl_view_def)
  show ?thesis
  proof (cases "app \<and> image_anti_rollback env")
    case True
    then have d: "8 \<le> n" "rd32 ?m da = 0xABCD5432"
      and s': "s' = bootloader_munmap (segment_words ?m (da + 8) la dl (n - 8) (sha_data (rd_bytes ?m da 8)
        (xor_checksum (rd32 ?m da XOR rd32 ?m (da + 4)) (?s2\<lparr> img := (img s)\<lparr> img_secure_version := rd32 ?m (da + 4) \<rparr> \<rparr>))))"
      using p c mm f v by (auto simp: process_segment_data_def process_esp_app_desc_data_def app_def Let_def split: if_splits)
    note w = desc_words [OF d(1) n]
    show ?thesis unfolding piece_def s' segment_words_effect [OF w(1)] w(2,3) fed_def
      using f mm(1) True
      by (cases "sha_handle s"; cases "checksum s")
         (auto simp: same_flash_def sha_data_def xor_checksum_def bootloader_munmap_def app_def xor.assoc)
  next
    case False
    then have s': "s' = bootloader_munmap (segment_words ?m da la dl n ?s2)"
      using p c mm f v by (auto simp: process_segment_data_def app_def Let_def split: if_splits)
    show ?thesis unfolding piece_def s' segment_words_effect [OF n] fed_def
      using f mm(1) by (auto simp: same_flash_def bootloader_munmap_def intro: exI [of _ "img_secure_version (img s)"])
  qed
qed

lemma fill_obfs_nonzero: "fill_obfs v rs = Some (v', rs') \<Longrightarrow> fst v' \<noteq> 0 \<and> snd v' \<noteq> 0"
  by (induction v rs rule: fill_obfs.induct) (subst (asm) (2) fill_obfs.simps, auto split: if_splits list.splits)

lemma fill_obfs_stable: "fst v \<noteq> 0 \<Longrightarrow> snd v \<noteq> 0 \<Longrightarrow> fill_obfs v rs = Some (v, rs)"
  by (simp add: fill_obfs.simps)

lemma obfs_words_add: "even j \<Longrightarrow> obfs_words m src v (j + k) = obfs_words m src v j @ obfs_words m (src + 4 * j) v k"
  by (induction k) (simp_all add: obfs_def add.assoc)

definition obfs_set :: "image_state \<Rightarrow> bool" where
  "obfs_set s \<longleftrightarrow> fst (ram_obfs_value s) \<noteq> 0 \<and> snd (ram_obfs_value s) \<noteq> 0"

text \<open>The length of a piece.\<close>

definition piece_len :: "image_env \<Rightarrow> nat \<Rightarrow> nat \<Rightarrow> nat" where
  "piece_len env da remain =
     (let max_pages = bootloader_mmap_get_free_pages env - (if da mod mmu_page_size env \<noteq> 0 then 1 else 0)
      in min remain (if max_pages * mmu_page_size env \<ge> 2 ^ 32 then 2 ^ 32 - 1 else max_pages * mmu_page_size env))"

lemma piece_len_props:
  assumes "mmu_page_size env mod 8 = 0" and "n mod 4 = 0" and "n < 2 ^ 32"
  shows "piece_len env da n mod 4 = 0" and "piece_len env da n \<le> n" and "piece_len env da n = n \<or> even (piece_len env da n div 4)"
proof -
  define x where "x = (bootloader_mmap_get_free_pages env - (if da mod mmu_page_size env \<noteq> 0 then 1 else 0)) * mmu_page_size env"
  have x: "8 dvd x" using assms(1) by (simp add: x_def dvd_eq_mod_eq_0 [symmetric])
  have n: "n \<le> 2 ^ 32 - 1" using assms(3) by simp
  have "piece_len env da n = min n (if x \<ge> 2 ^ 32 then 2 ^ 32 - 1 else x)" by (simp only: piece_len_def Let_def x_def)
  then consider "piece_len env da n = n" | "piece_len env da n = x"
    using n by (cases "x \<ge> 2 ^ 32") (auto simp: min_def split: if_splits)
  then have "piece_len env da n mod 4 = 0 \<and> (piece_len env da n = n \<or> even (piece_len env da n div 4))"
  proof cases
    case 2
    obtain q where "x = 8 * q" using x by (rule dvdE)
    then have "piece_len env da n = 8 * q" using 2 by simp
    then show ?thesis by simp
  qed (use assms(2) in simp)
  then show "piece_len env da n mod 4 = 0" "piece_len env da n = n \<or> even (piece_len env da n div 4)" by auto
  show "piece_len env da n \<le> n" by (simp add: piece_len_def Let_def)
qed

definition loaded :: "bool \<Rightarrow> bool \<Rightarrow> nat \<Rightarrow> nat \<Rightarrow> nat \<Rightarrow> image_state \<Rightarrow> image_state \<Rightarrow> bool" where
  "loaded first dl la da n s s' \<longleftrightarrow> fed (bl_view s) da n (xor_words (bl_view s) da (n div 4)) s s' \<and> same_flash s s' \<and> \<not> mapped s'
     \<and> (n \<noteq> 0 \<longrightarrow> obfs_set s') \<and> (obfs_set s \<longrightarrow> ram_obfs_value s' = ram_obfs_value s)
     \<and> (\<not> dl \<longrightarrow> ram s' = ram s)
     \<and> (dl \<and> \<not> first \<and> la + n < 2 ^ 32 \<longrightarrow> ram s' = wr_bytes (ram s) la (obfs_words (bl_view s) da (ram_obfs_value s') (n div 4)))"

lemma same_flash_view: "same_flash s s' \<Longrightarrow> bl_view s' = bl_view s"
  by (simp add: same_flash_def bl_view_def)

lemma piece_loaded: "piece first dl la da n s s' \<Longrightarrow> loaded first dl la da n s s'"
  using fill_obfs_nonzero [of "ram_obfs_value s" "random_values s" "ram_obfs_value s'" "random_values s'"]
    fill_obfs_stable [of "ram_obfs_value s" "random_values s"]
  by (auto simp: piece_def loaded_def obfs_set_def)

lemma loaded_append:
  assumes 1: "loaded first dl la da k s s1" and 2: "loaded False dl la' (da + k) n s1 s'" and la': "la + (k + n) < 2 ^ 32 \<Longrightarrow> la' = la + k"
    and k: "k mod 4 = 0" "k \<noteq> 0" and even: "n = 0 \<or> even (k div 4)"
  shows "loaded first dl la da (k + n) s s'"
proof -
  let ?m = "bl_view s"
  have v: "bl_view s1 = ?m" using 1 same_flash_view by (auto simp: loaded_def)
  have d: "(k + n) div 4 = k div 4 + n div 4" "4 * (k div 4) = k" using k(1) by (auto simp: mod_0_imp_dvd)
  have set: "obfs_set s1" "ram_obfs_value s' = ram_obfs_value s1" "obfs_set s'" using 1 2 k(2) by (auto simp: loaded_def obfs_set_def)
  have "fed ?m da (k + n) (xor_words ?m da ((k + n) div 4)) s s'"
    using fed_trans [of ?m da k "xor_words ?m da (k div 4)" s s1 n "xor_words ?m (da + k) (n div 4)" s'] 1 2 v
    unfolding d(1) xor_words_add d(2) by (simp add: loaded_def)
  moreover have "same_flash s s'" "\<not> mapped s'" using 1 2 same_flash_trans by (auto simp: loaded_def)
  moreover have "ram s' = wr_bytes (ram s) la (obfs_words ?m da (ram_obfs_value s') ((k + n) div 4))"
    if "dl" "\<not> first" "la + (k + n) < 2 ^ 32"
  proof -
    have r: "ram s1 = wr_bytes (ram s) la (obfs_words ?m da (ram_obfs_value s1) (k div 4))"
      "ram s' = wr_bytes (ram s1) (la + k) (obfs_words ?m (da + k) (ram_obfs_value s') (n div 4))"
      using 1 2 that v la' by (auto simp: loaded_def)
    have "obfs_words ?m da (ram_obfs_value s') ((k + n) div 4) = obfs_words ?m da (ram_obfs_value s') (k div 4) @ obfs_words ?m (da + k) (ram_obfs_value s') (n div 4)"
      using even obfs_words_add [of "k div 4" ?m da "ram_obfs_value s'" "n div 4"] d by auto
    then show ?thesis using r set(2) d(2) by (simp add: wr_bytes_append)
  qed
  ultimately show ?thesis using 1 2 set by (auto simp: loaded_def)
qed

lemma segment_loop_unfold:
  "segment_loop env i la da n dl st s =
     (if n = 0 then Some (ESP_OK, s)
      else if check_signature env \<and> dl \<and> verify_load_addresses (soc env) la (add32 la n) False \<noteq> Some True then None
      else if bootloader_mmap_get_free_pages env - (if da mod mmu_page_size env \<noteq> 0 then 1 else 0) = 0 then Some (ESP_ERR_NO_MEM, s)
      else do {
        (err, s1) \<leftarrow> process_segment_data env i la da (piece_len env da n) dl st s;
        if err \<noteq> ESP_OK then Some (err, s1)
        else segment_loop env i (add32 la (piece_len env da n)) (add32 da (piece_len env da n)) (n - piece_len env da n) dl False s1
      })"
  by (subst segment_loop.simps) (simp only: piece_len_def Let_def)

lemma segment_loop_step:
  assumes "segment_loop env i la da n dl st s = Some (ESP_OK, s')" and "n \<noteq> 0"
  shows "\<exists>s1. process_segment_data env i la da (piece_len env da n) dl st s = Some (ESP_OK, s1) \<and> piece_len env da n \<noteq> 0
    \<and> segment_loop env i (add32 la (piece_len env da n)) (add32 da (piece_len env da n)) (n - piece_len env da n) dl False s1 = Some (ESP_OK, s')"
proof -
  let ?mp = "bootloader_mmap_get_free_pages env - (if da mod mmu_page_size env \<noteq> 0 then 1 else 0)"
  have p: "piece_len env da n \<noteq> 0" if "?mp \<noteq> 0"
  proof -
    have "mmu_page_size env \<noteq> 0" using that by (auto simp: bootloader_mmap_get_free_pages_def intro: ccontr)
    then have "?mp * mmu_page_size env \<noteq> 0" using that by simp
    then show ?thesis using assms(2) unfolding piece_len_def Let_def by (simp only: min_def split: if_split) simp
  qed
  have mp: "?mp \<noteq> 0" using assms by (subst (asm) segment_loop_unfold) (auto split: if_splits)
  then show ?thesis using assms p [OF mp]
    by (subst (asm) segment_loop_unfold) (auto simp del: One_nat_def split: if_splits Option.bind_splits)
qed

lemma segment_loop_ok:
  assumes "segment_loop env i la da n dl st s = Some (ESP_OK, s')" and "checksum s \<noteq> None" and "n mod 4 = 0"
    and "mmu_page_size env mod 8 = 0" and "da + n < 2 ^ 32" and "\<not> mapped s"
  shows "loaded (image_anti_rollback env \<and> i = 0 \<and> st) dl la da n s s'"
  using assms
proof (induction n arbitrary: la da st s rule: less_induct)
  case (less n)
  show ?case
  proof (cases "n = 0")
    case True
    then show ?thesis using less.prems by (simp add: segment_loop_unfold [of _ _ _ _ 0] loaded_def)
  next
    case False
    let ?k = "piece_len env da n"
    note k = piece_len_props [OF less.prems(4,3), of da]
    have n: "n < 2 ^ 32" using less.prems(5) by simp
    obtain s1 where s1: "process_segment_data env i la da ?k dl st s = Some (ESP_OK, s1)" "?k \<noteq> 0"
      and loop: "segment_loop env i (add32 la ?k) (add32 da ?k) (n - ?k) dl False s1 = Some (ESP_OK, s')"
      using segment_loop_step [OF less.prems(1) False] by blast
    have l1: "loaded (image_anti_rollback env \<and> i = 0 \<and> st) dl la da ?k s s1"
      by (rule piece_loaded [OF piece_ok [OF s1(1) less.prems(2) k(1) [OF n]]])
    have c: "checksum s1 \<noteq> None" "\<not> mapped s1" using l1 less.prems(2) by (auto simp: loaded_def fed_def)
    have d: "add32 da ?k = da + ?k" using less.prems(5) k(2) [OF n] by (intro add32_exact) linarith
    have m: "(n - ?k) mod 4 = 0" using less.prems(3) k(1) [OF n] by (simp add: mod_0_imp_dvd)
    have l2: "loaded (image_anti_rollback env \<and> i = 0 \<and> False) dl (add32 la ?k) (da + ?k) (n - ?k) s1 s'"
      using less.prems(5) s1(2) k(2) [OF n] False by (intro less.IH [OF _ loop [unfolded d] c(1) m less.prems(4) _ c(2)]) linarith+
    have "add32 la ?k = la + ?k" if "la + (?k + (n - ?k)) < 2 ^ 32" using that k(2) [OF n] by (intro add32_exact) linarith
    then show ?thesis using loaded_append [OF l1, of "add32 la ?k" "n - ?k" s'] l2 k(1,3) [OF n] s1(2) k(2) [OF n] by auto
  qed
qed

lemma check_err_ok: "check_err f g s = Some (ESP_OK, s') \<longleftrightarrow> (\<exists>s1. f s = Some (ESP_OK, s1) \<and> g s1 = Some (ESP_OK, s'))"
  by (auto simp: check_err_def split: Option.bind_splits if_splits)

lemma rd_header_list: "rd_header (\<lambda>i. rd_bytes m a 24 ! i) 0 = rd_header m a"
  by (simp add: rd_header_def rd32_def rd16_def rd_bytes_def ac_simps)

lemma rd_segment_header_list: "rd_segment_header (\<lambda>i. rd_bytes m a 8 ! i) 0 = rd_segment_header m a"
  by (simp add: rd_segment_header_def rd32_def rd_bytes_def ac_simps)

text \<open>What the operations leave alone: flash, static variables other than the random words, the digests.\<close>

definition kept :: "image_state \<Rightarrow> image_state \<Rightarrow> bool" where
  "kept s s' \<longleftrightarrow> bl_chip s' = bl_chip s \<and> bootloader_partition_offset s' = bootloader_partition_offset s
     \<and> image_digest s' = image_digest s \<and> verified_digest s' = verified_digest s"

lemma kept_trans: "kept s s1 \<Longrightarrow> kept s1 s2 \<Longrightarrow> kept s s2"
  by (simp add: kept_def)

lemma kept_view: "kept s s' \<Longrightarrow> bl_view s' = bl_view s"
  by (simp add: kept_def bl_view_def)

lemma set_mmu_page_size_ok:
  assumes "set_mmu_page_size env i offs s = Some (ESP_OK, s')"
  shows "\<exists>p. s' = s\<lparr> img := (img s)\<lparr> img_mmu_page_size := p \<rparr> \<rparr>"
  using assms by (auto simp: set_mmu_page_size_def Let_def dest!: bl_read_state split: if_splits prod.splits intro: exI [of _ "img_mmu_page_size (img s)"])

lemma verify_segment_header_ok:
  assumes "verify_segment_header env i h offs s = Some (ESP_OK, s')"
  shows "seg_data_len h mod 4 = 0" "seg_data_len h < image_max_size env" "\<exists>p. s' = s\<lparr> img := (img s)\<lparr> img_mmu_page_size := p \<rparr> \<rparr>"
    "should_map env (seg_load_addr h) \<Longrightarrow> offs mod img_mmu_page_size (img s') = seg_load_addr h mod img_mmu_page_size (img s')"
proof -
  have "seg_data_len h mod 4 = 0 \<and> seg_data_len h < image_max_size env \<and> set_mmu_page_size env i offs s = Some (ESP_OK, s')
    \<and> (should_map env (seg_load_addr h) \<longrightarrow> offs mod img_mmu_page_size (img s') = seg_load_addr h mod img_mmu_page_size (img s'))"
    using assms by (auto simp: verify_segment_header_def check_err_ok Let_def not_less [symmetric] split: if_splits)
  then show "seg_data_len h mod 4 = 0" "seg_data_len h < image_max_size env" "\<exists>p. s' = s\<lparr> img := (img s)\<lparr> img_mmu_page_size := p \<rparr> \<rparr>"
    "should_map env (seg_load_addr h) \<Longrightarrow> offs mod img_mmu_page_size (img s') = seg_load_addr h mod img_mmu_page_size (img s')"
    using set_mmu_page_size_ok by auto
qed

text \<open>A segment at \<open>fa\<close> has been processed.\<close>

definition segment_done :: "image_env \<Rightarrow> bool \<Rightarrow> bool \<Rightarrow> nat \<Rightarrow> image_state \<Rightarrow> image_state \<Rightarrow> bool" where
  "segment_done env first dl fa s s' \<longleftrightarrow>
     (let m = bl_view s; h = rd_segment_header m fa; n = seg_data_len h; la = seg_load_addr h; load = (dl \<and> should_load env la) in
      n mod 4 = 0 \<and> n < image_max_size env
      \<and> fed m fa (8 + n) (xor_words m (fa + 8) (n div 4)) s s' \<and> kept s s' \<and> \<not> mapped s'
      \<and> (\<exists>p v. img s' = (img s)\<lparr> img_segments := img_segments (img s) @ [h], img_mmu_page_size := p, img_secure_version := v \<rparr>)
      \<and> (load \<and> n > 0 \<longrightarrow> verify_load_addresses (soc env) la (add32 la n) False = Some True)
      \<and> (n \<noteq> 0 \<longrightarrow> obfs_set s') \<and> (obfs_set s \<longrightarrow> ram_obfs_value s' = ram_obfs_value s)
      \<and> (\<not> load \<longrightarrow> ram s' = ram s)
      \<and> (load \<and> \<not> first \<and> la + n < 2 ^ 32 \<longrightarrow> ram s' = wr_bytes (ram s) la (obfs_words m (fa + 8) (ram_obfs_value s') (n div 4))))"

lemma process_segment_ok:
  assumes p: "process_segment env i fa dl s = Some (ESP_OK, s')" and c: "checksum s \<noteq> None" and page: "mmu_page_size env mod 8 = 0"
    and fa: "fa + 8 + image_max_size env < 2 ^ 32" and map: "\<not> mapped s"
  shows "segment_done env (image_anti_rollback env \<and> i = 0) dl fa s s'"
proof -
  let ?m = "bl_view s" let ?h = "rd_segment_header ?m fa" let ?n = "seg_data_len ?h" let ?la = "seg_load_addr ?h"
  let ?load = "dl \<and> should_load env ?la"
  obtain err bs s1 where r: "bootloader_flash_read fa 8 True True s = ((err, bs), s1)" by (metis prod.exhaust)
  have "err = ESP_OK" using p r by (auto simp: process_segment_def split: if_splits)
  then have b: "bs = rd_bytes ?m fa 8" "s1 = s" using bl_read_ok [of fa 8 True s bs s1] bl_read_state [OF r] r fa by auto
  let ?s2 = "sha_data (rd_bytes ?m fa 8) (s\<lparr> img := (img s)\<lparr> img_segments := img_segments (img s) @ [?h] \<rparr> \<rparr>)"
  have a: "add32 fa 8 = fa + 8" using fa by (intro add32_exact) simp
  obtain s3 where v: "verify_segment_header env i ?h (fa + 8) ?s2 = Some (ESP_OK, s3)"
    and ok: "?load \<and> ?n > 0 \<longrightarrow> verify_load_addresses (soc env) ?la (add32 ?la ?n) False = Some True"
    and l: "segment_loop env i ?la (fa + 8) ?n ?load True s3 = Some (ESP_OK, s')"
    using p r \<open>err = ESP_OK\<close> unfolding b
    by (auto simp: process_segment_def check_err_ok rd_segment_header_list a Let_def split: if_splits Option.bind_splits)
  note h = verify_segment_header_ok [OF v]
  obtain pg where s3: "s3 = ?s2\<lparr> img := (img ?s2)\<lparr> img_mmu_page_size := pg \<rparr> \<rparr>" using h(3) by blast
  have f3: "fed ?m fa 8 0 s s3" "checksum s3 = checksum s" "bl_view s3 = ?m" "mapped s3 = mapped s" "kept s s3" "ram s3 = ram s"
    "ram_obfs_value s3 = ram_obfs_value s" "img s3 = (img s)\<lparr> img_segments := img_segments (img s) @ [?h], img_mmu_page_size := pg \<rparr>"
    by (cases "sha_handle s"; cases "checksum s"; simp add: s3 fed_def sha_data_def bl_view_def kept_def)+
  have ld: "loaded (image_anti_rollback env \<and> i = 0 \<and> True) ?load ?la (fa + 8) ?n s3 s'"
    using h(1,2) fa c f3(2,4) map by (intro segment_loop_ok [OF l _ _ page]) auto
  have "fed ?m fa (8 + ?n) (0 XOR xor_words ?m (fa + 8) (?n div 4)) s s'"
    using ld f3(3) by (intro fed_trans [OF f3(1)]) (simp add: loaded_def)
  moreover have "kept s s'" using ld by (intro kept_trans [OF f3(5)]) (simp add: loaded_def same_flash_def kept_def)
  moreover have "\<exists>p v. img s' = (img s)\<lparr> img_segments := img_segments (img s) @ [?h], img_mmu_page_size := p, img_secure_version := v \<rparr>"
    using ld f3(8) by (auto simp: loaded_def same_flash_def)
  ultimately show ?thesis using ld ok h(1,2) f3(3,6,7) by (simp add: segment_done_def loaded_def obfs_set_def Let_def)
qed

section \<open>All segments\<close>

text \<open>The layout of the segments from address \<open>a\<close> on, the checksum of their data and where the data lies.\<close>

fun segs_at :: "memory \<Rightarrow> nat \<Rightarrow> esp_image_segment_header_t list \<Rightarrow> bool" where
  "segs_at m a [] \<longleftrightarrow> True"
| "segs_at m a (h # hs) \<longleftrightarrow> h = rd_segment_header m a \<and> segs_at m (a + 8 + seg_data_len h) hs"

fun segs_xor :: "memory \<Rightarrow> nat \<Rightarrow> esp_image_segment_header_t list \<Rightarrow> u32" where
  "segs_xor m a [] = 0"
| "segs_xor m a (h # hs) = xor_words m (a + 8) (seg_data_len h div 4) XOR segs_xor m (a + 8 + seg_data_len h) hs"

fun seg_addrs :: "nat \<Rightarrow> esp_image_segment_header_t list \<Rightarrow> nat list" where
  "seg_addrs a [] = []"
| "seg_addrs a (h # hs) = (a + 8) # seg_addrs (a + 8 + seg_data_len h) hs"

definition segs_len :: "esp_image_segment_header_t list \<Rightarrow> nat" where
  "segs_len hs = (\<Sum>h \<leftarrow> hs. 8 + seg_data_len h)"

lemma segs_len_simps [simp]: "segs_len [] = 0" "segs_len (h # hs) = 8 + seg_data_len h + segs_len hs"
  by (simp_all add: segs_len_def)

text \<open>The memory with the segments that are loaded, still hidden by the random words \<open>v\<close>.\<close>

fun load_segs :: "image_env \<Rightarrow> memory \<Rightarrow> u32 \<times> u32 \<Rightarrow> nat \<Rightarrow> esp_image_segment_header_t list \<Rightarrow> memory \<Rightarrow> memory" where
  "load_segs env m v a [] r = r"
| "load_segs env m v a (h # hs) r = load_segs env m v (a + 8 + seg_data_len h) hs
     (if should_load env (seg_load_addr h) then wr_bytes r (seg_load_addr h) (obfs_words m (a + 8) v (seg_data_len h div 4)) else r)"

definition segment_fits :: "image_env \<Rightarrow> esp_image_segment_header_t \<Rightarrow> bool" where
  "segment_fits env h \<longleftrightarrow> seg_data_len h mod 4 = 0 \<and> seg_data_len h < image_max_size env"

text \<open>The first segment holds the description, which is not loaded.\<close>

definition plain_load :: "image_env \<Rightarrow> nat \<Rightarrow> esp_image_segment_header_t list \<Rightarrow> bool" where
  "plain_load env i hs \<longleftrightarrow> (image_anti_rollback env \<and> i = 0 \<longrightarrow> (\<forall>h hs'. hs = h # hs' \<longrightarrow> \<not> should_load env (seg_load_addr h)))
     \<and> (\<forall>h \<in> set hs. should_load env (seg_load_addr h) \<longrightarrow> seg_load_addr h + seg_data_len h < 2 ^ 32)"

definition segments_done :: "image_env \<Rightarrow> bool \<Rightarrow> nat \<Rightarrow> nat \<Rightarrow> esp_image_segment_header_t list \<Rightarrow> image_state \<Rightarrow> image_state \<Rightarrow> bool" where
  "segments_done env dl i a hs s s' \<longleftrightarrow>
     (let m = bl_view s in segs_at m a hs \<and> (\<forall>h \<in> set hs. segment_fits env h) \<and> fed m a (segs_len hs) (segs_xor m a hs) s s' \<and> kept s s' \<and> \<not> mapped s'
      \<and> (\<exists>p v. img s' = (img s)\<lparr> img_segments := img_segments (img s) @ hs, img_segment_data := img_segment_data (img s) @ seg_addrs a hs,
           img_mmu_page_size := p, img_secure_version := v \<rparr>)
      \<and> (obfs_set s \<longrightarrow> ram_obfs_value s' = ram_obfs_value s) \<and> ((\<exists>h \<in> set hs. seg_data_len h \<noteq> 0) \<longrightarrow> obfs_set s')
      \<and> (dl \<longrightarrow> (\<forall>h \<in> set hs. should_load env (seg_load_addr h) \<and> seg_data_len h > 0 \<longrightarrow>
           verify_load_addresses (soc env) (seg_load_addr h) (add32 (seg_load_addr h) (seg_data_len h)) False = Some True))
      \<and> (\<not> dl \<longrightarrow> ram s' = ram s) \<and> (dl \<and> plain_load env i hs \<longrightarrow> ram s' = load_segs env m (ram_obfs_value s') a hs (ram s)))"

lemma segments_done_Nil: "\<not> mapped s \<Longrightarrow> segments_done env dl i a [] s s"
  unfolding segments_done_def Let_def
  by (auto simp: kept_def intro!: exI [of _ "img_mmu_page_size (img s)"] exI [of _ "img_secure_version (img s)"])

lemma obfs_words_0 [simp]: "wr_bytes r la (obfs_words m a v 0) = r"
  by simp

lemma segment_done_parts:
  assumes "segment_done env first dl fa s s'" and "h = rd_segment_header (bl_view s) fa"
  shows "kept s s'" "\<not> mapped s'" "fed (bl_view s) fa (8 + seg_data_len h) (xor_words (bl_view s) (fa + 8) (seg_data_len h div 4)) s s'"
    "segment_fits env h" "\<exists>p v. img s' = (img s)\<lparr> img_segments := img_segments (img s) @ [h], img_mmu_page_size := p, img_secure_version := v \<rparr>"
  using assms(1) unfolding segment_done_def Let_def assms(2) [symmetric] segment_fits_def by simp_all

lemma segments_done_Cons:
  assumes 1: "segment_done env (image_anti_rollback env \<and> i = 0) dl a s s1" and h: "h = rd_segment_header (bl_view s) a"
    and t: "t = s1\<lparr> img := (img s1)\<lparr> img_segment_data := img_segment_data (img s1) @ [a + 8] \<rparr> \<rparr>"
    and 2: "segments_done env dl (Suc i) (a + 8 + seg_data_len h) hs t s'"
  shows "segments_done env dl i a (h # hs) s s'"
proof -
  let ?m = "bl_view s" let ?n = "seg_data_len h" let ?la = "seg_load_addr h"
  note d1 = 1 [unfolded segment_done_def Let_def, folded h]
  note p1 = segment_done_parts [OF 1 h]
  have k1: "kept s s1" "kept s1 t" by (rule p1(1)) (simp add: t kept_def)
  have view: "bl_view t = ?m" by (rule kept_view [OF kept_trans [OF k1]])
  note d2 = 2 [unfolded segments_done_def Let_def view]
  have f1: "fed ?m a (8 + ?n) (xor_words ?m (a + 8) (?n div 4)) s t" using p1(3) by (simp add: t fed_def)
  have "fed ?m a (segs_len (h # hs)) (segs_xor ?m a (h # hs)) s s'"
    using fed_trans [OF f1] d2 by (simp add: add.assoc [symmetric])
  moreover have "kept s s'" using d2 kept_trans [OF kept_trans [OF k1]] by simp
  moreover obtain p v p' v' where "img s1 = (img s)\<lparr> img_segments := img_segments (img s) @ [h], img_mmu_page_size := p, img_secure_version := v \<rparr>"
    and "img s' = (img t)\<lparr> img_segments := img_segments (img t) @ hs, img_segment_data := img_segment_data (img t) @ seg_addrs (a + 8 + ?n) hs,
           img_mmu_page_size := p', img_secure_version := v' \<rparr>" using p1(5) d2 by blast
  then have "\<exists>p v. img s' = (img s)\<lparr> img_segments := img_segments (img s) @ h # hs, img_segment_data := img_segment_data (img s) @ seg_addrs a (h # hs),
           img_mmu_page_size := p, img_secure_version := v \<rparr>" by (auto simp: t)
  moreover have v: "ram_obfs_value s' = ram_obfs_value s1" if "?n \<noteq> 0" using d1 d2 that by (simp add: t obfs_set_def)
  have "ram s' = load_segs env ?m (ram_obfs_value s') a (h # hs) (ram s)" if "dl" "plain_load env i (h # hs)"
  proof -
    have "plain_load env (Suc i) hs" using that(2) by (auto simp: plain_load_def)
    then have r: "ram s' = load_segs env ?m (ram_obfs_value s') (a + 8 + ?n) hs (ram s1)" using d2 that(1) by (simp add: t)
    show ?thesis
    proof (cases "should_load env ?la")
      case True
      then have "\<not> (image_anti_rollback env \<and> i = 0)" "?la + ?n < 2 ^ 32" using that(2) by (auto simp: plain_load_def)
      then have "ram s1 = wr_bytes (ram s) ?la (obfs_words ?m (a + 8) (ram_obfs_value s1) (?n div 4))" using d1 True that(1) by blast
      then have "ram s1 = wr_bytes (ram s) ?la (obfs_words ?m (a + 8) (ram_obfs_value s') (?n div 4))" using v by (cases "?n = 0") simp_all
      then show ?thesis using r True by simp
    next
      case False
      then show ?thesis using d1 r by simp
    qed
  qed
  moreover have "obfs_set s \<longrightarrow> ram_obfs_value s' = ram_obfs_value s" "(\<exists>h \<in> set (h # hs). seg_data_len h \<noteq> 0) \<longrightarrow> obfs_set s'"
    using d1 d2 by (auto simp: t obfs_set_def)
  moreover have "\<not> dl \<longrightarrow> ram s' = ram s" using d1 d2 by (simp add: t)
  ultimately show ?thesis using d1 d2 h by (simp add: segments_done_def segment_fits_def)
qed

lemma segments_loop_ok:
  assumes "segments_loop env dl i left a s = Some ((ESP_OK, e), s')" and "checksum s \<noteq> None" and "mmu_page_size env mod 8 = 0"
    and "a + left * (8 + image_max_size env) < 2 ^ 32" and "\<not> mapped s" and "length (img_segments (img s)) = i"
  shows "\<exists>hs. length hs = left \<and> e = a + segs_len hs \<and> segments_done env dl i a hs s s'"
  using assms
proof (induction left arbitrary: i a s)
  case 0
  then show ?case using segments_done_Nil [of s] by auto
next
  case (Suc left)
  let ?h = "rd_segment_header (bl_view s) a" let ?n = "seg_data_len ?h"
  have a: "a + 8 + image_max_size env < 2 ^ 32" using Suc.prems(4) by simp
  obtain s1 where p: "process_segment env i a dl s = Some (ESP_OK, s1)"
    using Suc.prems(1) by (auto split: if_splits Option.bind_splits)
  have d: "segment_done env (image_anti_rollback env \<and> i = 0) dl a s s1" by (rule process_segment_ok [OF p Suc.prems(2,3) a Suc.prems(5)])
  have h: "img_segments (img s1) = img_segments (img s) @ [?h]" "?n < image_max_size env"
    using segment_done_parts(4,5) [OF d refl] by (auto simp: segment_fits_def)
  let ?t = "s1\<lparr> img := (img s1)\<lparr> img_segment_data := img_segment_data (img s1) @ [a + 8] \<rparr> \<rparr>"
  have e: "add32 a 8 = a + 8" "add32 (a + 8) ?n = a + 8 + ?n" using a h(2) by (simp_all add: add32_exact)
  have loop: "segments_loop env dl (Suc i) left (a + 8 + ?n) ?t = Some ((ESP_OK, e), s')"
    using Suc.prems(1,6) p h(1) e by (simp add: nth_append Let_def split: if_splits)
  have c: "checksum ?t \<noteq> None" "\<not> mapped ?t" "length (img_segments (img ?t)) = Suc i"
    using segment_done_parts(2,3) [OF d refl] Suc.prems(2,6) h(1) by (auto simp: fed_def)
  have b: "a + 8 + ?n + left * (8 + image_max_size env) < 2 ^ 32" using Suc.prems(4) h(2) by simp
  obtain hs where hs: "length hs = left" "e = a + 8 + ?n + segs_len hs" "segments_done env dl (Suc i) (a + 8 + ?n) hs ?t s'"
    using Suc.IH [OF loop c(1) Suc.prems(3) b c(2,3)] by blast
  show ?case using segments_done_Cons [OF d refl refl hs(3)] hs(1,2) by (intro exI [of _ "?h # hs"]) simp
qed

end
