(* ===== verification/Image_Load.thy ===== *)
theory Image_Load
  imports Image_Segments
begin

text \<open>
  A successful \<^verbatim>\<open>image_load\<close>: the image is complete, its digest or signature has been checked, and
  the memory holds its segments.
\<close>

section \<open>The whole image\<close>

text \<open>The length of an image with its checksum: the next multiple of 16.\<close>

definition image_size :: "esp_image_segment_header_t list \<Rightarrow> nat" where
  "image_size hs = (let n = 24 + segs_len hs in n + (16 - n mod 16))"

text \<open>Addresses of the image do not wrap.\<close>

definition low_flash :: "image_env \<Rightarrow> esp_partition_pos_t \<Rightarrow> bool" where
  "low_flash env part \<longleftrightarrow> pos_offset part + 16 * (8 + image_max_size env) + 32768 < 2 ^ 32"

definition image_intact :: "image_env \<Rightarrow> memory \<Rightarrow> esp_partition_pos_t \<Rightarrow> esp_image_metadata_t \<Rightarrow> bool" where
  "image_intact env m part data \<longleftrightarrow>
     (let a = pos_offset part; hdr = rd_header m a; hs = img_segments data; n = image_size hs in
      img_start_addr data = a \<and> img_header data = hdr \<and> hdr_magic hdr = 0xE9 \<and> hdr_chip_id hdr = firmware_chip_id env
      \<and> hdr_segment_count hdr = length hs \<and> length hs \<le> 16 \<and> segs_at m (a + 24) hs \<and> (\<forall>h \<in> set hs. segment_fits env h)
      \<and> img_segment_data data = seg_addrs (a + 24) hs
      \<and> n + (if hdr_hash_appended hdr then 32 else 0) \<le> pos_size part
      \<and> checksum_byte (0xEF XOR segs_xor m (a + 24) hs) = m (a + n - 1))"

lemma verify_image_header_ok:
  assumes "verify_image_header env s a hdr = ESP_OK"
  shows "hdr_magic hdr = 0xE9" "hdr_chip_id hdr = firmware_chip_id env" "hdr_segment_count hdr \<le> 16"
  using assms by (auto simp: verify_image_header_def bootloader_common_check_chip_validity_def Let_def split: if_splits)

lemma process_image_header_ok:
  assumes p: "process_image_header env a use_sha True s = Some (ESP_OK, s')" and a: "a + 24 < 2 ^ 32"
  defines "hdr \<equiv> rd_header (bl_view s) a"
  shows "s' = s\<lparr> img := blank_metadata\<lparr> img_start_addr := a, img_header := hdr, img_len := 24 \<rparr>,
      sha_handle := (if (check_signature env \<or> hdr_hash_appended hdr) \<and> use_sha then Some (rd_bytes (bl_view s) a 24) else sha_handle s) \<rparr>"
    and "hdr_magic hdr = 0xE9" "hdr_chip_id hdr = firmware_chip_id env" "hdr_segment_count hdr \<le> 16"
proof -
  let ?s0 = "s\<lparr> img := blank_metadata\<lparr> img_start_addr := a \<rparr> \<rparr>"
  obtain err bs s1 where r: "bootloader_flash_read a 24 True True ?s0 = ((err, bs), s1)" by (metis prod.exhaust)
  have e: "err = ESP_OK" using p r by (auto simp: process_image_header_def split: if_splits)
  have b: "bs = rd_bytes (bl_view s) a 24" "s1 = ?s0"
    using bl_read_ok [of a 24 True ?s0 bs s1] bl_read_state [OF r] r a e by (auto simp: bl_view_def)
  let ?sha = "(check_signature env \<or> hdr_hash_appended hdr) \<and> use_sha"
  let ?s3 = "if ?sha then ?s0\<lparr> img := blank_metadata\<lparr> img_start_addr := a, img_header := hdr \<rparr>, sha_handle := Some bs \<rparr>
    else ?s0\<lparr> img := blank_metadata\<lparr> img_start_addr := a, img_header := hdr \<rparr> \<rparr>"
  have v: "verify_image_header env ?s3 a hdr = ESP_OK" and s': "s' = ?s3\<lparr> img := (img ?s3)\<lparr> img_len := 24 \<rparr> \<rparr>"
    using p unfolding process_image_header_def Let_def r b(2) e by (auto simp: b(1) rd_header_list hdr_def [symmetric] split: if_splits)
  show "s' = s\<lparr> img := blank_metadata\<lparr> img_start_addr := a, img_header := hdr, img_len := 24 \<rparr>,
      sha_handle := (if ?sha then Some (rd_bytes (bl_view s) a 24) else sha_handle s) \<rparr>"
    unfolding s' b(1) by (cases "check_signature env"; cases "hdr_hash_appended hdr"; cases use_sha) simp_all
  show "hdr_magic hdr = 0xE9" "hdr_chip_id hdr = firmware_chip_id env" "hdr_segment_count hdr \<le> 16" using verify_image_header_ok [OF v] by auto
qed

lemma process_segments_ok:
  assumes p: "process_segments env dl s = Some (ESP_OK, s')" and c: "checksum s \<noteq> None" "mmu_page_size env mod 8 = 0" "\<not> mapped s"
    and i: "img_segments (img s) = []" "img_start_addr (img s) = a" "img_len (img s) = 24"
    and b: "a + 24 + hdr_segment_count (img_header (img s)) * (8 + image_max_size env) < 2 ^ 32"
  shows "\<exists>hs s1. length hs = hdr_segment_count (img_header (img s)) \<and> segments_done env dl 0 (a + 24) hs s s1
    \<and> s' = s1\<lparr> img := (img s1)\<lparr> img_len := 24 + segs_len hs \<rparr> \<rparr>"
proof -
  have a: "add32 a 24 = a + 24" using b by (intro add32_exact) linarith
  obtain e s1 where l: "segments_loop env dl 0 (hdr_segment_count (img_header (img s))) (a + 24) s = Some ((ESP_OK, e), s1)"
    and s': "s' = s1\<lparr> img := (img s1)\<lparr> img_len := add32 (img_len (img s1)) (sub32 e (a + 24)) \<rparr> \<rparr>"
    using p i(2,3) a by (auto simp: process_segments_def Let_def split: Option.bind_splits if_splits)
  obtain hs where hs: "length hs = hdr_segment_count (img_header (img s))" "e = a + 24 + segs_len hs" "segments_done env dl 0 (a + 24) hs s s1"
    using segments_loop_ok [OF l c(1,2) b c(3)] i(1) by auto
  have fit: "\<forall>h \<in> set hs. segment_fits env h" and im: "img_len (img s1) = 24" using hs(3) i(3) by (auto simp: segments_done_def Let_def)
  have "segs_len hs \<le> length hs * (8 + image_max_size env)" using fit by (induction hs) (auto simp: segment_fits_def)
  then have e: "e < 2 ^ 32" using b [folded hs(1)] hs(2) by linarith
  have "sub32 e (a + 24) = segs_len hs" using e hs(2) by (subst sub32_exact) simp_all
  moreover have "add32 24 (segs_len hs) = 24 + segs_len hs" using e hs(2) by (intro add32_exact) linarith
  ultimately show ?thesis using hs s' im by auto
qed

lemma pad_16: "n + 32 < 2 ^ 32 \<Longrightarrow> sub32 (align_up 16 (add32 n 1)) n = 16 - n mod 16"
proof -
  assume n: "n + 32 < 2 ^ 32"
  have "add32 n 1 = n + 1" using n by (intro add32_exact) linarith
  moreover have "align_up 16 (n + 1) = (n + 1 + 15) div 16 * 16" using n by (subst align_up_exact) simp_all
  moreover have "(n + 1 + 15) div 16 * 16 = n + (16 - n mod 16)"
  proof -
    have "(n + 16) div 16 * 16 = 16 * (n div 16) + 16" using div_add_self2 [of 16 n] by simp
    also have "\<dots> = n - n mod 16 + 16" by (simp add: minus_mod_eq_mult_div)
    finally show ?thesis using mod_less_divisor [of 16 n] mod_less_eq_dividend [of n 16] by (simp add: ac_simps)
  qed
  ultimately show ?thesis using n by (simp add: sub32_exact)
qed

lemma process_checksum_ok:
  assumes p: "process_checksum False s = Some (ESP_OK, s')" and n: "img_start_addr (img s) + img_len (img s) + 32 < 2 ^ 32" and c: "checksum s = Some c"
  defines "k \<equiv> 16 - img_len (img s) mod 16" and "at \<equiv> img_start_addr (img s) + img_len (img s)"
  shows "s' = s\<lparr> img := (img s)\<lparr> img_len := img_len (img s) + k \<rparr>, sha_handle := map_option (\<lambda>acc. acc @ rd_bytes (bl_view s) at k) (sha_handle s) \<rparr>"
    and "checksum_byte c = bl_view s (at + k - 1)"
proof -
  let ?L = "img_len (img s)"
  have k: "sub32 (align_up 16 (add32 ?L 1)) ?L = k" using n by (simp only: k_def) (intro pad_16, linarith)
  have k16: "k \<le> 16" "0 < k" by (simp_all add: k_def)
  have a: "add32 (img_start_addr (img s)) ?L = at" "add32 ?L k = ?L + k" using n k16 unfolding at_def by (auto intro!: add32_exact)
  obtain err buf s1 where r: "bootloader_flash_read at k True True s = ((err, buf), s1)" by (metis prod.exhaust)
  have e: "err = ESP_OK" using p r unfolding process_checksum_def Let_def k a by (auto split: if_splits)
  have b: "buf = rd_bytes (bl_view s) at k" "s1 = s"
    using bl_read_ok [of at k True s buf s1] bl_read_state [OF r] r n k16 e by (auto simp: at_def)
  have q: "checksum_byte c = buf ! (k - 1)" and s': "s' = sha_data buf (s\<lparr> img := (img s)\<lparr> img_len := ?L + k \<rparr> \<rparr>)"
    using p c unfolding process_checksum_def Let_def k a by (auto simp: r e b(2) split: if_splits)
  show "s' = s\<lparr> img := (img s)\<lparr> img_len := ?L + k \<rparr>, sha_handle := map_option (\<lambda>acc. acc @ rd_bytes (bl_view s) at k) (sha_handle s) \<rparr>"
    unfolding s' b(1) sha_data_def by (cases "sha_handle s") simp_all
  show "checksum_byte c = bl_view s (at + k - 1)" using q k16 unfolding b(1) rd_bytes_def by simp
qed

lemma process_appended_ok:
  assumes p: "process_appended_hash_and_sig env po pl True s = Some (ESP_OK, s')" and n: "img_start_addr (img s) + img_len (img s) + 16384 < 2 ^ 32"
  defines "app \<equiv> hdr_hash_appended (img_header (img s))"
  shows "s' = s\<lparr> img := (img s)\<lparr> img_digest := (if app then rd_bytes (bl_view s) (img_start_addr (img s) + img_len (img s)) 32 else img_digest (img s)),
       img_len := img_len (img s) + (if app then 32 else 0) \<rparr> \<rparr>"
    and "img_len (img s) + (if app then 32 else 0) \<le> pl"
proof -
  let ?L = "img_len (img s)" and ?at = "img_start_addr (img s) + img_len (img s)"
  have a: "add32 (img_start_addr (img s)) ?L = ?at" "add32 ?L 32 = ?L + 32" using n by (auto intro!: add32_exact)
  obtain err digest s1 where r: "(if app then bootloader_flash_read ?at 32 True True s else ((ESP_OK, img_digest (img s)), s)) = ((err, digest), s1)"
    by (metis prod.exhaust)
  let ?s2 = "s1\<lparr> img := (img s1)\<lparr> img_digest := digest, img_len := (if app then add32 (img_len (img s1)) 32 else img_len (img s1)) \<rparr> \<rparr>"
  let ?len = "img_len (img ?s2)"
  have e: "err = ESP_OK" using p r unfolding process_appended_hash_and_sig_def Let_def a app_def by (auto split: if_splits)
  have s1: "s1 = s" using r bl_read_state by (auto split: if_splits)
  have d: "digest = (if app then rd_bytes (bl_view s) ?at 32 else img_digest (img s))"
    using r bl_read_ok [of ?at 32 True s digest s1] n e by (auto split: if_splits)
  have l: "?len = ?L + (if app then 32 else 0)" using a(2) s1 by simp
  have s': "s' = ?s2" and f: "add32 ?len (sig_block_len env (is_bootloader env ?s2 po) ?len) \<le> pl"
    using p r e unfolding process_appended_hash_and_sig_def Let_def a app_def by (auto simp: not_less split: if_splits)
  have "align_up 4096 ?len < ?len + 4096 \<and> ?len \<le> align_up 4096 ?len" using n l by (intro conjI align_up_bounds) auto
  then have "sub32 (align_up 4096 ?len) ?len \<le> 4096" using n l by (subst sub32_exact) auto
  then have "add32 (sub32 (align_up 4096 ?len) ?len) 4096 \<le> 8192" by (subst add32_exact) auto
  then have "sig_block_len env bt ?len \<le> 8192" for bt unfolding sig_block_len_def Let_def by simp
  moreover have "?len + 8192 < 2 ^ 32" unfolding l using n by (cases app) simp_all
  ultimately have "?len + sig_block_len env bt ?len < 2 ^ 32" for bt by (meson add_left_mono le_less_trans)
  then have "?len \<le> add32 ?len (sig_block_len env bt ?len)" for bt by (simp only: add32_exact le_add1)
  from order_trans [OF this f] show "?L + (if app then 32 else 0) \<le> pl" unfolding l .
  show "s' = s\<lparr> img := (img s)\<lparr> img_digest := (if app then rd_bytes (bl_view s) ?at 32 else img_digest (img s)),
       img_len := ?L + (if app then 32 else 0) \<rparr> \<rparr>" unfolding s' using l s1 d by simp
qed

lemma segs_len_bound: "\<forall>h \<in> set hs. segment_fits env h \<Longrightarrow> segs_len hs \<le> length hs * (8 + image_max_size env)"
  by (induction hs) (auto simp: segment_fits_def)

lemma segs_len_mod: "\<forall>h \<in> set hs. segment_fits env h \<Longrightarrow> segs_len hs mod 4 = 0"
proof (induction hs)
  case (Cons h hs)
  then have "4 dvd seg_data_len h" "4 dvd segs_len hs" by (auto simp: segment_fits_def)
  then show ?case by simp
qed simp

text \<open>The state in which the contents are verified.\<close>

definition parsed :: "image_env \<Rightarrow> bool \<Rightarrow> bool \<Rightarrow> esp_partition_pos_t \<Rightarrow> image_state \<Rightarrow> image_state \<Rightarrow> bool" where
  "parsed env dl verify_sha part s s' \<longleftrightarrow>
     (let m = bl_view s; a = pos_offset part; hs = img_segments (img s'); n = image_size hs; app = hdr_hash_appended (rd_header m a) in
      image_intact env m part (img s') \<and> img_len (img s') = n + (if app then 32 else 0) \<and> (app \<longrightarrow> img_digest (img s') = rd_bytes m (a + n) 32)
      \<and> a + n + 32 + 8192 < 2 ^ 32
      \<and> sha_handle s' = (if (check_signature env \<or> app) \<and> verify_sha then Some (rd_bytes m a n) else None)
      \<and> kept s s' \<and> \<not> mapped s'
      \<and> (\<not> dl \<longrightarrow> ram s' = ram s) \<and> ((\<exists>h \<in> set hs. seg_data_len h \<noteq> 0) \<longrightarrow> obfs_set s')
      \<and> (dl \<longrightarrow> (\<forall>h \<in> set hs. should_load env (seg_load_addr h) \<and> seg_data_len h > 0 \<longrightarrow>
           verify_load_addresses (soc env) (seg_load_addr h) (add32 (seg_load_addr h) (seg_data_len h)) False = Some True))
      \<and> (dl \<and> plain_load env 0 hs \<longrightarrow> ram s' = load_segs env m (ram_obfs_value s') (a + 24) hs (ram s)))"

lemma image_parsed:
  assumes h: "process_image_header env (pos_offset part) verify_sha True s = Some (ESP_OK, s1)"
    and g: "process_segments env dl s1 = Some (ESP_OK, s2)" and c: "process_checksum False s2 = Some (ESP_OK, s3)"
    and p: "process_appended_hash_and_sig env (pos_offset part) (pos_size part) True s3 = Some (ESP_OK, s4)"
    and s: "checksum s = Some 0xEF" "sha_handle s = None" "\<not> mapped s" and page: "mmu_page_size env mod 8 = 0" and low: "low_flash env part"
  shows "parsed env dl verify_sha part s s4"
proof -
  let ?m = "bl_view s" let ?a = "pos_offset part" let ?hdr = "rd_header ?m ?a"
  let ?use = "(check_signature env \<or> hdr_hash_appended ?hdr) \<and> verify_sha"
  have a: "?a + 24 < 2 ^ 32" using low by (simp add: low_flash_def)
  note h1 = process_image_header_ok [OF h a]
  have i1: "img s1 = blank_metadata\<lparr> img_start_addr := ?a, img_header := ?hdr, img_len := 24 \<rparr>"
    "sha_handle s1 = (if ?use then Some (rd_bytes ?m ?a 24) else None)" "checksum s1 = Some 0xEF" "\<not> mapped s1" "bl_view s1 = ?m" "kept s s1"
    "ram s1 = ram s" "ram_obfs_value s1 = ram_obfs_value s"
    unfolding h1(1) using s by (auto simp: kept_def bl_view_def)
  have cnt: "hdr_segment_count (img_header (img s1)) = hdr_segment_count ?hdr" "hdr_segment_count ?hdr \<le> 16" using i1(1) h1(4) by simp_all
  then have "hdr_segment_count ?hdr * (8 + image_max_size env) \<le> 16 * (8 + image_max_size env)" by (intro mult_right_mono) simp_all
  then have b: "?a + 24 + hdr_segment_count (img_header (img s1)) * (8 + image_max_size env) < 2 ^ 32"
    using low unfolding cnt(1) low_flash_def by linarith
  obtain hs t where hs: "length hs = hdr_segment_count ?hdr" and d: "segments_done env dl 0 (?a + 24) hs s1 t"
    and s2: "s2 = t\<lparr> img := (img t)\<lparr> img_len := 24 + segs_len hs \<rparr> \<rparr>"
    using process_segments_ok [OF g _ page i1(4) _ _ _ b] i1 by (auto simp: blank_metadata_def)
  note d' = d [unfolded segments_done_def Let_def i1(5)]
  obtain pg v where img_t: "img t = blank_metadata\<lparr> img_start_addr := ?a, img_header := ?hdr, img_len := 24, img_segments := hs,
      img_segment_data := seg_addrs (?a + 24) hs, img_mmu_page_size := pg, img_secure_version := v \<rparr>"
    using d' i1(1) by (auto simp: blank_metadata_def)
  have fit: "\<forall>h \<in> set hs. segment_fits env h" using d' by blast
  let ?body = "24 + segs_len hs" let ?k = "16 - ?body mod 16" let ?n = "image_size hs"
  have n: "?n = ?body + ?k" unfolding image_size_def Let_def ..
  have "length hs * (8 + image_max_size env) \<le> 16 * (8 + image_max_size env)" using hs cnt(2) by (intro mult_right_mono) simp_all
  then have small: "?a + ?body + 32000 < 2 ^ 32" using segs_len_bound [OF fit] low unfolding low_flash_def by linarith
  have kt: "kept s t" "\<not> mapped t" "checksum t = Some (0xEF XOR segs_xor ?m (?a + 24) hs)"
    "sha_handle t = (if ?use then Some (rd_bytes ?m ?a ?body) else None)"
    using kept_trans [OF i1(6), of t] d' i1(2,3) rd_bytes_add [of ?m ?a 24 "segs_len hs"] by (auto simp: fed_def)
  have v2: "bl_view s2 = ?m" using kept_view [OF kt(1)] by (simp add: s2 bl_view_def)
  have i2: "img_start_addr (img s2) = ?a" "img_len (img s2) = ?body" "checksum s2 = checksum t" by (simp_all add: s2 img_t)
  note c3 = process_checksum_ok [OF c _ trans [OF i2(3) kt(3)], unfolded i2(1,2) v2]
  have s3: "s3 = s2\<lparr> img := (img s2)\<lparr> img_len := ?n \<rparr>, sha_handle := (if ?use then Some (rd_bytes ?m ?a ?n) else None) \<rparr>"
    using c3(1) small n kt(4) rd_bytes_add [of ?m ?a ?body ?k] by (auto simp: s2)
  have ck: "checksum_byte (0xEF XOR segs_xor ?m (?a + 24) hs) = ?m (?a + ?n - 1)" using c3(2) small n by (simp add: add.assoc)
  have i3: "img_start_addr (img s3) = ?a" "img_len (img s3) = ?n" "img_header (img s3) = ?hdr" "bl_view s3 = ?m"
    using v2 by (simp_all add: s3 s2 img_t bl_view_def)
  have n': "?a + ?n + 16384 < 2 ^ 32" using small n by simp
  note p4 = process_appended_ok [OF p, unfolded i3, OF n']
  have i4: "img_segments (img s4) = hs" "img_start_addr (img s4) = ?a" "img_header (img s4) = ?hdr" "img_segment_data (img s4) = seg_addrs (?a + 24) hs"
    "img_len (img s4) = ?n + (if hdr_hash_appended ?hdr then 32 else 0)" "hdr_hash_appended ?hdr \<Longrightarrow> img_digest (img s4) = rd_bytes ?m (?a + ?n) 32"
    by (simp_all add: p4(1) s3 s2 img_t)
  have f4: "sha_handle s4 = (if ?use then Some (rd_bytes ?m ?a ?n) else None)" "kept s s4" "mapped s4 = mapped t" "ram s4 = ram t" "ram_obfs_value s4 = ram_obfs_value t"
    using kt(1) by (simp_all add: p4(1) s3 s2 kept_def)
  have "image_intact env ?m part (img s4)"
    using h1(2,3) hs cnt(2) d' p4(2) ck by (simp add: image_intact_def Let_def i4)
  moreover have "obfs_set s4 = obfs_set t" by (simp add: obfs_set_def f4)
  ultimately show ?thesis
    using n' f4 d' i1(7) kt(2) i4(6) unfolding parsed_def Let_def i4(1,5) by (simp add: add.assoc)
qed

section \<open>The memory after loading\<close>

definition ob :: "u32 \<times> u32 \<Rightarrow> nat \<Rightarrow> u8" where
  "ob v i = bytes_of_u32 (obfs v (i div 4)) ! (i mod 4)"

lemma less_4_cases: "j < 4 \<Longrightarrow> j = 0 \<or> j = 1 \<or> j = 2 \<or> j = (3::nat)"
  by auto

lemma bytes_xor: "j < 4 \<Longrightarrow> bytes_of_u32 (w XOR x) ! j = bytes_of_u32 w ! j XOR bytes_of_u32 x ! j"
  by (drule less_4_cases) (auto simp: bytes_of_u32_def intro!: bit_word_eqI simp: bit_simps)

lemma u8_high: "\<not> bit (b :: u8) (8 + n)" "\<not> bit (b :: u8) (16 + n)" "\<not> bit (b :: u8) (24 + n)"
  using bit_imp_le_length [of b "8 + n"] bit_imp_le_length [of b "16 + n"] bit_imp_le_length [of b "24 + n"] by auto

lemma bytes_rd32: "j < 4 \<Longrightarrow> bytes_of_u32 (rd32 m a) ! j = m (a + j)"
  by (drule less_4_cases) (auto simp: bytes_of_u32_def rd32_def intro!: bit_word_eqI simp: bit_simps u8_high)

lemma obfs_words_nth: "i < 4 * k \<Longrightarrow> obfs_words m src v k ! i = m (src + i) XOR ob v i"
proof (induction k)
  case (Suc k)
  show ?case
  proof (cases "i < 4 * k")
    case True
    then show ?thesis using Suc.IH by (simp add: nth_append)
  next
    case False
    then obtain j where j: "i = 4 * k + j" "j < 4" using Suc.prems by (auto simp: not_less le_iff_add)
    then show ?thesis by (simp add: nth_append bytes_xor bytes_rd32 ob_def add.assoc)
  qed
qed simp

definition in_seg :: "nat \<Rightarrow> esp_image_segment_header_t \<Rightarrow> bool" where
  "in_seg x h \<longleftrightarrow> seg_load_addr h \<le> x \<and> x < seg_load_addr h + seg_data_len h"

lemma deobfuscate_words:
  "fold (deobfuscate_word la) [0..<k] s = s\<lparr> ram := (\<lambda>x. if la \<le> x \<and> x < la + 4 * k then ram s x XOR ob (ram_obfs_value s) (x - la) else ram s x) \<rparr>"
proof (induction k)
  case (Suc k)
  let ?v = "ram_obfs_value s" let ?r = "\<lambda>x. if la \<le> x \<and> x < la + 4 * k then ram s x XOR ob ?v (x - la) else ram s x"
  have "wr32 ?r (la + 4 * k) (rd32 ?r (la + 4 * k) XOR obfs ?v k) =
      (\<lambda>x. if la \<le> x \<and> x < la + 4 * Suc k then ram s x XOR ob ?v (x - la) else ram s x)" (is "?lhs = ?rhs")
  proof
    fix x show "?lhs x = ?rhs x"
  proof (cases "la + 4 * k \<le> x \<and> x < la + 4 * k + 4")
    case True
    then obtain j where j: "x = la + 4 * k + j" "j < 4" by (auto simp: le_iff_add)
    then show ?thesis by (simp add: wr32_def wr_bytes_inside bytes_xor bytes_rd32 ob_def)
  next
    case False
    then show ?thesis by (auto simp: wr32_outside)
  qed
  qed
  moreover have "fold (deobfuscate_word la) [0..<Suc k] s = deobfuscate_word la k (fold (deobfuscate_word la) [0..<k] s)" by simp
  ultimately show ?case by (simp only: Suc.IH) (simp add: deobfuscate_word_def)
next
  case 0
  have "(\<lambda>x. if la \<le> x \<and> x < la + 4 * 0 then ram s x XOR ob (ram_obfs_value s) (x - la) else ram s x) = ram s" by (rule ext) auto
  then show ?case by simp
qed

fun deob_mem :: "image_env \<Rightarrow> u32 \<times> u32 \<Rightarrow> esp_image_segment_header_t list \<Rightarrow> memory \<Rightarrow> memory" where
  "deob_mem env v [] r = r"
| "deob_mem env v (h # hs) r = deob_mem env v hs
     (if should_load env (seg_load_addr h) then \<lambda>x. if in_seg x h then r x XOR ob v (x - seg_load_addr h) else r x else r)"

lemma deobfuscate_fold:
  assumes "\<forall>h \<in> set hs. seg_data_len h mod 4 = 0"
  shows "fold (\<lambda>h s. if should_load env (seg_load_addr h) then fold (deobfuscate_word (seg_load_addr h)) [0..<seg_data_len h div 4] s else s) hs s
    = s\<lparr> ram := deob_mem env (ram_obfs_value s) hs (ram s) \<rparr>"
  using assms
proof (induction hs arbitrary: s)
  case (Cons h hs)
  have "4 * (seg_data_len h div 4) = seg_data_len h" using Cons.prems by auto
  then show ?case using Cons by (auto simp: deobfuscate_words in_seg_def)
qed simp

lemma deobfuscate_ram:
  "\<forall>h \<in> set (img_segments (img s)). seg_data_len h mod 4 = 0 \<Longrightarrow> deobfuscate env s = s\<lparr> ram := deob_mem env (ram_obfs_value s) (img_segments (img s)) (ram s) \<rparr>"
  unfolding deobfuscate_def by (rule deobfuscate_fold)

text \<open>Segments that are loaded do not overlap.\<close>

definition separate :: "image_env \<Rightarrow> esp_image_segment_header_t \<Rightarrow> esp_image_segment_header_t \<Rightarrow> bool" where
  "separate env h g \<longleftrightarrow> (should_load env (seg_load_addr h) \<and> should_load env (seg_load_addr g) \<longrightarrow> (\<forall>x. \<not> (in_seg x h \<and> in_seg x g)))"

lemma load_segs_outside:
  "\<forall>h \<in> set hs. segment_fits env h \<and> \<not> (should_load env (seg_load_addr h) \<and> in_seg x h) \<Longrightarrow> load_segs env m v a hs r x = r x"
proof (induction hs arbitrary: a r)
  case (Cons h hs)
  have "4 * (seg_data_len h div 4) = seg_data_len h" using Cons.prems by (auto simp: segment_fits_def)
  then show ?case using Cons by (auto simp: in_seg_def wr_bytes_outside)
qed simp

lemma deob_mem_outside: "\<forall>h \<in> set hs. \<not> (should_load env (seg_load_addr h) \<and> in_seg x h) \<Longrightarrow> deob_mem env v hs r x = r x"
  by (induction hs arbitrary: r) auto

lemma load_segs_inside:
  assumes "(h, d) \<in> set (zip hs (seg_addrs a hs))" and "should_load env (seg_load_addr h)" and "in_seg x h"
    and "\<forall>h \<in> set hs. segment_fits env h" and "sorted_wrt (separate env) hs"
  shows "load_segs env m v a hs r x = m (d + (x - seg_load_addr h)) XOR ob v (x - seg_load_addr h)"
  using assms
proof (induction hs arbitrary: a r)
  case (Cons g hs)
  show ?case
  proof (cases "(h, d) \<in> set (zip hs (seg_addrs (a + 8 + seg_data_len g) hs))")
    case True
    then show ?thesis using Cons by simp
  next
    case False
    then have g: "h = g" "d = a + 8" using Cons.prems(1) by auto
    have n: "4 * (seg_data_len g div 4) = seg_data_len g" using Cons.prems(4) by (auto simp: segment_fits_def)
    have "load_segs env m v a (g # hs) r x = wr_bytes r (seg_load_addr g) (obfs_words m (a + 8) v (seg_data_len g div 4)) x"
      using Cons.prems g by (auto simp: separate_def intro!: load_segs_outside)
    also have "\<dots> = m (a + 8 + (x - seg_load_addr g)) XOR ob v (x - seg_load_addr g)"
    proof -
      have "x - seg_load_addr g < 4 * (seg_data_len g div 4)" "seg_load_addr g \<le> x" "x < seg_load_addr g + 4 * (seg_data_len g div 4)"
        using Cons.prems(3) g n by (auto simp: in_seg_def)
      then show ?thesis using obfs_words_nth [of "x - seg_load_addr g" "seg_data_len g div 4" m "a + 8" v] by (simp add: wr_bytes_def)
    qed
    finally show ?thesis using g by simp
  qed
qed simp

lemma deob_mem_inside:
  assumes "h \<in> set hs" and "should_load env (seg_load_addr h)" and "in_seg x h" and "sorted_wrt (separate env) hs"
  shows "deob_mem env v hs r x = r x XOR ob v (x - seg_load_addr h)"
  using assms
proof (induction hs arbitrary: r)
  case (Cons g hs)
  show ?case
  proof (cases "h \<in> set hs")
    case True
    then show ?thesis using Cons by (auto simp: separate_def)
  next
    case False
    then have "h = g" using Cons.prems(1) by simp
    then show ?thesis using Cons.prems by (auto simp: separate_def deob_mem_outside)
  qed
qed simp

section \<open>Verification of the contents\<close>

lemma mapped_bytes_ok: "mapped_bytes env a n s = Some bs \<Longrightarrow> bs = rd_bytes (bl_view s) a n"
  using mmap_cases [of env a n s] by (auto simp: mapped_bytes_def bl_view_def)

lemma verify_simple_hash_ok:
  assumes "verify_simple_hash env s = Some (ESP_OK, s')"
  shows "\<exists>acc. sha_handle s = Some acc \<and> image_sha256 env acc = img_digest (img s) \<and> s' = s\<lparr> sha_handle := None \<rparr>"
  using assms by (auto simp: verify_simple_hash_def split: option.splits if_splits)

text \<open>The address of the signature block and the bytes that are signed.\<close>

definition signed_end :: "image_env \<Rightarrow> nat \<Rightarrow> nat" where
  "signed_end env end_addr = (if scheme env = SigV2 then align_up 4096 end_addr else end_addr)"

definition signature_at :: "image_env \<Rightarrow> memory \<Rightarrow> nat \<Rightarrow> u8 list \<Rightarrow> bool" where
  "signature_at env m a digest \<longleftrightarrow> fst (verify_signature_block env (rd_bytes m a (if scheme env = SigV1 then 68 else 4096)) digest) = ESP_OK"

lemma verify_signature_ok:
  assumes "verify_signature_and_adjust_image_len env e s = Some (ESP_OK, s')"
  shows "signature_at env (bl_view s) (if scheme env = SigV1 then add32 (img_start_addr (img s)) (img_len (img s)) else e) (image_digest s)"
    and "\<exists>v n. s' = s\<lparr> verified_digest := v, img := (img s)\<lparr> img_len := n \<rparr> \<rparr>" and "scheme env \<noteq> SigNone"
proof -
  have sc: "scheme env \<noteq> SigNone" "image_digest s \<noteq> verified_digest s"
    using assms by (auto simp: verify_signature_and_adjust_image_len_def split: if_splits)
  let ?b = "if scheme env = SigV1 then mapped_bytes env (add32 (img_start_addr (img s)) (img_len (img s))) 68 s else mapped_bytes env e 4096 s"
  obtain block where b: "?b = Some block" using assms sc by (auto simp: verify_signature_and_adjust_image_len_def split: Option.bind_splits)
  obtain err v where v: "verify_signature_block env block (image_digest s) = (err, v)" by (rule prod.exhaust)
  have e: "err = ESP_OK" using assms sc b v by (auto simp: verify_signature_and_adjust_image_len_def Let_def split: if_splits)
  show "scheme env \<noteq> SigNone" by (rule sc)
  show "signature_at env (bl_view s) (if scheme env = SigV1 then add32 (img_start_addr (img s)) (img_len (img s)) else e) (image_digest s)"
    using b v e mapped_bytes_ok [of env _ _ s block] by (auto simp: signature_at_def split: if_splits)
  have "s' = s\<lparr> verified_digest := v, img := (img s)\<lparr> img_len := img_len (img s) \<rparr> \<rparr> \<or> (\<exists>n. s' = s\<lparr> verified_digest := v, img := (img s)\<lparr> img_len := n \<rparr> \<rparr>)"
    using assms sc b v e by (auto simp: verify_signature_and_adjust_image_len_def Let_def split: if_splits)
  then show "\<exists>v n. s' = s\<lparr> verified_digest := v, img := (img s)\<lparr> img_len := n \<rparr> \<rparr>" by blast
qed

lemma verify_secure_boot_signature_ok:
  assumes v: "verify_secure_boot_signature env s = Some (ESP_OK, s')" and n: "a + n + 32 + 8192 < 2 ^ 32"
    and acc: "sha_handle s = Some (rd_bytes (bl_view s) a n)" and a: "img_start_addr (img s) = a"
    and len: "img_len (img s) = n + (if hdr_hash_appended (img_header (img s)) then 32 else 0)"
  defines "e \<equiv> a + img_len (img s)"
  shows "signature_at env (bl_view s) (signed_end env e) (image_sha256 env (rd_bytes (bl_view s) a (signed_end env e - a)))"
    and "\<exists>d v k. s' = s\<lparr> sha_handle := None, image_digest := d, verified_digest := v, img := (img s)\<lparr> img_len := k \<rparr> \<rparr>" and "scheme env \<noteq> SigNone"
proof -
  let ?m = "bl_view s" let ?app = "hdr_hash_appended (img_header (img s))"
  have e: "add32 a (img_len (img s)) = e" using n len unfolding e_def by (intro add32_exact) (simp split: if_splits)
  have e': "e + 4096 \<le> 2 ^ 32" using n len by (simp add: e_def)
  have pe: "(if scheme env = SigV2 then align_up 4096 e else e) = signed_end env e" "e \<le> signed_end env e"
    using align_up_bounds [of 4096 e] e' by (simp_all add: signed_end_def)
  have e32: "sub32 e 32 = a + n" if ?app using that len e' unfolding e_def by (subst sub32_exact) auto
  obtain sh pd where sh: "(if ?app then mapped_bytes env (sub32 e 32) 32 s else Some []) = Some sh"
    and pd: "(if signed_end env e > e then mapped_bytes env e (signed_end env e - e) s else Some []) = Some pd"
    and va: "verify_signature_and_adjust_image_len env (max e (signed_end env e))
       (s\<lparr> sha_handle := None, image_digest := image_sha256 env (rd_bytes ?m a n @ sh @ pd) \<rparr>) = Some (ESP_OK, s')"
    using v acc unfolding verify_secure_boot_signature_def Let_def a e pe(1) by (auto split: Option.bind_splits)
  have "sh = rd_bytes ?m (a + n) (if ?app then 32 else 0)" using sh mapped_bytes_ok e32 by (auto split: if_splits)
  then have 1: "rd_bytes ?m a n @ sh = rd_bytes ?m a (img_len (img s))" using len by (simp add: rd_bytes_add)
  have "pd = rd_bytes ?m e (signed_end env e - e)" using pd mapped_bytes_ok by (auto split: if_splits)
  then have 2: "rd_bytes ?m a n @ sh @ pd = rd_bytes ?m a (signed_end env e - a)"
    using rd_bytes_add [of ?m a "img_len (img s)" "signed_end env e - e"] 1 pe(2) by (simp add: e_def)
  note vs = verify_signature_ok [OF va]
  show "signature_at env ?m (signed_end env e) (image_sha256 env (rd_bytes ?m a (signed_end env e - a)))"
    using vs(1) pe(2) a e unfolding 2 by (auto simp: bl_view_def max_def signed_end_def split: if_splits)
  show "\<exists>d v k. s' = s\<lparr> sha_handle := None, image_digest := d, verified_digest := v, img := (img s)\<lparr> img_len := k \<rparr> \<rparr>" using vs(2) by auto
  show "scheme env \<noteq> SigNone" by (rule vs(3))
qed

lemma release_image_ok:
  assumes "release_image env mode dl vs s = Some (ESP_OK, s')" and "\<forall>h \<in> set (img_segments (img s)). seg_data_len h mod 4 = 0"
  shows "s' = s\<lparr> ram := (if dl \<and> obfs_set s then deob_mem env (ram_obfs_value s) (img_segments (img s)) (ram s) else ram s) \<rparr>"
  using assms deobfuscate_ram [OF assms(2), of env] by (auto simp: release_image_def Let_def obfs_set_def split: if_splits)

section \<open>Stages of loading\<close>

definition verify_sha_of :: "image_env \<Rightarrow> image_state \<Rightarrow> esp_partition_pos_t \<Rightarrow> bool" where
  "verify_sha_of env s part \<longleftrightarrow> secure_boot_v2_enabled env \<or> \<not> is_bootloader env s (pos_offset part)"

definition load_ready :: "image_env \<Rightarrow> esp_partition_pos_t \<Rightarrow> image_state \<Rightarrow> bool" where
  "load_ready env part s \<longleftrightarrow> mmu_page_size env mod 8 = 0 \<and> low_flash env part \<and> \<not> mapped s \<and> \<not> debugger_attached env"

definition load_start :: "image_state \<Rightarrow> image_state" where
  "load_start s = s\<lparr> checksum := Some 0xEF, sha_handle := None, image_digest := replicate 32 0xEE, verified_digest := replicate 32 0x01 \<rparr>"

lemma load_start_simps [simp]: "bl_view (load_start s) = bl_view s" "ram (load_start s) = ram s" "bl_chip (load_start s) = bl_chip s"
  "checksum (load_start s) = Some 0xEF" "sha_handle (load_start s) = None" "mapped (load_start s) = mapped s"
  "bootloader_partition_offset (load_start s) = bootloader_partition_offset s" "ram_obfs_value (load_start s) = ram_obfs_value s" "random_values (load_start s) = random_values s"
  by (simp_all add: load_start_def bl_view_def)

lemma image_load_unfold:
  fixes s :: image_state and part :: esp_partition_pos_t
  assumes "mode \<noteq> ESP_IMAGE_LOAD_NO_VALIDATE" and "\<not> debugger_attached env"
  defines "dl \<equiv> mode = ESP_IMAGE_LOAD" and "vs \<equiv> verify_sha_of env s part"
  shows "image_load env mode part s = Some (ESP_OK, s') \<longleftrightarrow> pos_size part \<le> image_max_size env \<and>
     (\<exists>s1 s2 s3 s4 s5. process_image_header env (pos_offset part) vs True (load_start s) = Some (ESP_OK, s1) \<and> process_segments env dl s1 = Some (ESP_OK, s2)
       \<and> process_checksum False s2 = Some (ESP_OK, s3) \<and> process_appended_hash_and_sig env (pos_offset part) (pos_size part) True s3 = Some (ESP_OK, s4)
       \<and> verify_contents env vs s4 = Some (ESP_OK, s5) \<and> release_image env mode dl vs (s5\<lparr> sha_handle := None \<rparr>) = Some (ESP_OK, s'))"
proof -
  let ?chain = "check_err (process_image_header env (pos_offset part) vs True) (check_err (process_segments env dl) (check_err (process_checksum False)
    (check_err (process_appended_hash_and_sig env (pos_offset part) (pos_size part) True) (check_err (verify_contents env vs)
    (\<lambda>s1. release_image env mode dl vs (s1\<lparr> sha_handle := None \<rparr>)))))) (load_start s)"
  let ?r = "if pos_size part > image_max_size env then Some (ESP_ERR_INVALID_ARG, load_start s) else ?chain"
  have m: "mode \<in> {ESP_IMAGE_LOAD, ESP_IMAGE_VERIFY, ESP_IMAGE_VERIFY_SILENT}" "mode \<in> {ESP_IMAGE_LOAD, ESP_IMAGE_LOAD_NO_VALIDATE} \<longleftrightarrow> dl"
    using assms(1) by (cases mode; simp add: dl_def)+
  have "(if secure_boot_v2_enabled env then True else \<not> is_bootloader env (load_start s) (pos_offset part)) = vs"
    unfolding vs_def verify_sha_of_def is_bootloader_def by simp
  then have "image_load env mode part s = ?r \<bind> (\<lambda>(err, s1). Some (err, if err = ESP_OK then s1 else s1\<lparr> sha_handle := None, img := blank_metadata \<rparr>))"
    unfolding image_load_def Let_def m(2) by (simp only: m(1) assms(2) if_True simp_thms load_start_def [symmetric])
  moreover have "?r \<bind> (\<lambda>(err, s1). Some (err, if err = ESP_OK then s1 else s1\<lparr> sha_handle := None, img := blank_metadata \<rparr>)) = Some (ESP_OK, s')
      \<longleftrightarrow> ?r = Some (ESP_OK, s')" by (cases ?r) auto
  ultimately have "image_load env mode part s = Some (ESP_OK, s') \<longleftrightarrow> ?r = Some (ESP_OK, s')" by (simp only:)
  also have "\<dots> \<longleftrightarrow> pos_size part \<le> image_max_size env \<and> ?chain = Some (ESP_OK, s')" by auto
  also have "\<dots> \<longleftrightarrow> pos_size part \<le> image_max_size env \<and>
     (\<exists>s1 s2 s3 s4 s5. process_image_header env (pos_offset part) vs True (load_start s) = Some (ESP_OK, s1) \<and> process_segments env dl s1 = Some (ESP_OK, s2)
       \<and> process_checksum False s2 = Some (ESP_OK, s3) \<and> process_appended_hash_and_sig env (pos_offset part) (pos_size part) True s3 = Some (ESP_OK, s4)
       \<and> verify_contents env vs s4 = Some (ESP_OK, s5) \<and> release_image env mode dl vs (s5\<lparr> sha_handle := None \<rparr>) = Some (ESP_OK, s'))"
    unfolding check_err_ok by blast
  finally show ?thesis .
qed

lemma image_load_stages:
  assumes l: "image_load env mode part s0 = Some (ESP_OK, s')" and v: "mode \<noteq> ESP_IMAGE_LOAD_NO_VALIDATE" and r: "load_ready env part s0"
  defines "dl \<equiv> mode = ESP_IMAGE_LOAD" and "vs \<equiv> verify_sha_of env s0 part"
  shows "\<exists>s s4 s5. bl_view s = bl_view s0 \<and> ram s = ram s0 \<and> bl_chip s = bl_chip s0 \<and> parsed env dl vs part s s4
    \<and> verify_contents env vs s4 = Some (ESP_OK, s5) \<and> release_image env mode dl vs (s5\<lparr> sha_handle := None \<rparr>) = Some (ESP_OK, s')"
proof -
  have d: "\<not> debugger_attached env" "mmu_page_size env mod 8 = 0" "low_flash env part" "\<not> mapped s0" using r by (simp_all add: load_ready_def)
  obtain s1 s2 s3 s4 s5 where st: "process_image_header env (pos_offset part) vs True (load_start s0) = Some (ESP_OK, s1)" "process_segments env dl s1 = Some (ESP_OK, s2)"
    "process_checksum False s2 = Some (ESP_OK, s3)" "process_appended_hash_and_sig env (pos_offset part) (pos_size part) True s3 = Some (ESP_OK, s4)"
    and e: "verify_contents env vs s4 = Some (ESP_OK, s5)" "release_image env mode dl vs (s5\<lparr> sha_handle := None \<rparr>) = Some (ESP_OK, s')"
    using l unfolding image_load_unfold [OF v d(1)] dl_def vs_def by blast
  have "parsed env dl vs part (load_start s0) s4" using d by (intro image_parsed [OF st]) simp_all
  then show ?thesis using e by (intro exI [of _ "load_start s0"] exI [of _ s4] exI [of _ s5]) simp
qed

section \<open>What a successful load means\<close>

text \<open>The digest, or the signature over the image with its digest and padding, is the one in flash.\<close>

definition contents_verified :: "image_env \<Rightarrow> memory \<Rightarrow> nat \<Rightarrow> nat \<Rightarrow> bool \<Rightarrow> bool" where
  "contents_verified env m a n app \<longleftrightarrow>
     (if check_signature env then
        (let e = signed_end env (a + n + (if app then 32 else 0)) in scheme env \<noteq> SigNone \<and> signature_at env m e (image_sha256 env (rd_bytes m a (e - a))))
      else app \<longrightarrow> image_sha256 env (rd_bytes m a n) = rd_bytes m (a + n) 32)"

lemma verify_contents_ok:
  assumes c: "verify_contents env vs s4 = Some (ESP_OK, s5)" and p: "parsed env dl vs part s s4" and d: "\<not> debugger_attached env"
  shows "vs \<longrightarrow> contents_verified env (bl_view s) (pos_offset part) (image_size (img_segments (img s4))) (hdr_hash_appended (img_header (img s4)))"
    and "\<exists>h d v k. s5 = s4\<lparr> sha_handle := h, image_digest := d, verified_digest := v, img := (img s4)\<lparr> img_len := k \<rparr> \<rparr>"
proof -
  let ?a = "pos_offset part" let ?n = "image_size (img_segments (img s4))" let ?m = "bl_view s" let ?app = "hdr_hash_appended (img_header (img s4))"
  note q = p [unfolded parsed_def Let_def]
  have app: "img_header (img s4) = rd_header ?m ?a" "img_start_addr (img s4) = ?a" using q by (simp_all add: image_intact_def Let_def)
  have m: "bl_view s4 = ?m" using q kept_view by blast
  have len: "img_len (img s4) = ?n + (if ?app then 32 else 0)" "?a + ?n + 32 + 8192 < 2 ^ 32" using q unfolding app by simp_all
  consider "\<not> vs" | "vs" "check_signature env" | "vs" "\<not> check_signature env" by blast
  then have "(vs \<longrightarrow> contents_verified env ?m ?a ?n ?app)
    \<and> (\<exists>h d v k. s5 = s4\<lparr> sha_handle := h, image_digest := d, verified_digest := v, img := (img s4)\<lparr> img_len := k \<rparr> \<rparr>)" (is "_ \<and> ?frame")
  proof cases
    case 1
    then have "s5 = s4\<lparr> sha_handle := sha_handle s4, image_digest := image_digest s4, verified_digest := verified_digest s4, img := (img s4)\<lparr> img_len := img_len (img s4) \<rparr> \<rparr>"
      using c by (simp add: verify_contents_def)
    then show ?thesis using 1 by blast
  next
    case 2
    then have v: "verify_secure_boot_signature env s4 = Some (ESP_OK, s5)" and h: "sha_handle s4 = Some (rd_bytes (bl_view s4) ?a ?n)"
      using c d q by (simp_all add: verify_contents_def m)
    note o = verify_secure_boot_signature_ok [OF v len(2) h app(2) len(1), unfolded m len(1), folded add.assoc]
    show ?thesis using o 2 by (auto simp: contents_verified_def Let_def)
  next
    case 3
    show ?thesis
    proof (cases "?app")
      case True
      then have "verify_simple_hash env s4 = Some (ESP_OK, s5)" "sha_handle s4 = Some (rd_bytes ?m ?a ?n)" "img_digest (img s4) = rd_bytes ?m (?a + ?n) 32"
        using 3 c d q by (simp_all add: verify_contents_def app)
      then have "contents_verified env ?m ?a ?n ?app" "s5 = s4\<lparr> sha_handle := None, image_digest := image_digest s4, verified_digest := verified_digest s4, img := (img s4)\<lparr> img_len := img_len (img s4) \<rparr> \<rparr>"
        using verify_simple_hash_ok 3 by (fastforce simp: contents_verified_def)+
      then show ?thesis by blast
    next
      case False
      then have "sha_handle s4 = None" using 3 q by (simp add: app)
      then have "s5 = s4\<lparr> sha_handle := None, image_digest := image_digest s4, verified_digest := verified_digest s4, img := (img s4)\<lparr> img_len := img_len (img s4) \<rparr> \<rparr>"
        using 3 c by (simp add: verify_contents_def)
      moreover have "contents_verified env ?m ?a ?n ?app" using 3 False by (simp add: contents_verified_def)
      ultimately show ?thesis by blast
    qed
  qed
  then show "vs \<longrightarrow> contents_verified env ?m ?a ?n ?app" "?frame" by simp_all
qed

lemma image_intact_len [simp]: "image_intact env m part (d\<lparr> img_len := k \<rparr>) = image_intact env m part d"
  by (simp add: image_intact_def Let_def)

lemma image_load_result:
  assumes l: "image_load env mode part s0 = Some (ESP_OK, s')" and v: "mode \<noteq> ESP_IMAGE_LOAD_NO_VALIDATE" and r: "load_ready env part s0"
  defines "m \<equiv> bl_view s0" and "a \<equiv> pos_offset part" and "hs \<equiv> img_segments (img s')"
  shows "image_intact env m part (img s')"
    and "verify_sha_of env s0 part \<Longrightarrow> contents_verified env m a (image_size hs) (hdr_hash_appended (img_header (img s')))"
    and "bl_chip s' = bl_chip s0"
    and "mode \<noteq> ESP_IMAGE_LOAD \<Longrightarrow> ram s' = ram s0"
    and "mode = ESP_IMAGE_LOAD \<Longrightarrow> h \<in> set hs \<Longrightarrow> should_load env (seg_load_addr h) \<Longrightarrow> seg_data_len h > 0 \<Longrightarrow>
           verify_load_addresses (soc env) (seg_load_addr h) (add32 (seg_load_addr h) (seg_data_len h)) False = Some True"
    and "mode = ESP_IMAGE_LOAD \<Longrightarrow> plain_load env 0 hs \<Longrightarrow> \<exists>v. ram s' =
           (if \<forall>h \<in> set hs. seg_data_len h = 0 then ram s0 else deob_mem env v hs (load_segs env m v (a + 24) hs (ram s0)))"
proof -
  let ?dl = "mode = ESP_IMAGE_LOAD" let ?vs = "verify_sha_of env s0 part"
  obtain s s4 s5 where s: "bl_view s = m" "ram s = ram s0" "bl_chip s = bl_chip s0" and p: "parsed env ?dl ?vs part s s4"
    and c: "verify_contents env ?vs s4 = Some (ESP_OK, s5)" and rel: "release_image env mode ?dl ?vs (s5\<lparr> sha_handle := None \<rparr>) = Some (ESP_OK, s')"
    using image_load_stages [OF l v r] unfolding m_def by blast
  note q = p [unfolded parsed_def Let_def s]
  have d: "\<not> debugger_attached env" using r by (simp add: load_ready_def)
  note w = verify_contents_ok [OF c p d]
  obtain h' d' v' k where s5: "s5 = s4\<lparr> sha_handle := h', image_digest := d', verified_digest := v', img := (img s4)\<lparr> img_len := k \<rparr> \<rparr>" using w(2) by blast
  have fit: "\<forall>h \<in> set (img_segments (img s4)). segment_fits env h" using q by (auto simp: image_intact_def Let_def)
  then have "\<forall>h \<in> set (img_segments (img (s5\<lparr> sha_handle := None \<rparr>))). seg_data_len h mod 4 = 0" by (auto simp: s5 segment_fits_def)
  note s' = release_image_ok [OF rel this]
  have img': "img s' = (img s4)\<lparr> img_len := k \<rparr>" "hs = img_segments (img s4)" unfolding hs_def s' s5 by simp_all
  show "image_intact env m part (img s')" using q by (simp add: img'(1))
  show "?vs \<Longrightarrow> contents_verified env m a (image_size hs) (hdr_hash_appended (img_header (img s')))" using w(1) by (simp add: img' s a_def)
  show "bl_chip s' = bl_chip s0" using q s(3) unfolding s' s5 by (simp add: kept_def)
  show "mode \<noteq> ESP_IMAGE_LOAD \<Longrightarrow> ram s' = ram s0" using q unfolding s' s5 by simp
  show "mode = ESP_IMAGE_LOAD \<Longrightarrow> h \<in> set hs \<Longrightarrow> should_load env (seg_load_addr h) \<Longrightarrow> seg_data_len h > 0 \<Longrightarrow>
    verify_load_addresses (soc env) (seg_load_addr h) (add32 (seg_load_addr h) (seg_data_len h)) False = Some True" using q by (simp add: img')
  assume dl: "mode = ESP_IMAGE_LOAD" and pl: "plain_load env 0 hs"
  let ?v = "ram_obfs_value s4"
  have ram4: "ram s4 = load_segs env m ?v (a + 24) hs (ram s0)" using q dl pl by (simp add: img'(2) a_def)
  have ram': "ram s' = (if obfs_set s4 then deob_mem env ?v hs (ram s4) else ram s4)" unfolding s' s5 using dl by (simp add: img'(2) obfs_set_def)
  have o: "\<exists>h \<in> set hs. seg_data_len h \<noteq> 0 \<Longrightarrow> obfs_set s4" using q by (simp add: img'(2))
  have "ram s' = ram s0" if z: "\<forall>h \<in> set hs. seg_data_len h = 0"
  proof
    fix x
    have "\<forall>h \<in> set hs. \<not> in_seg x h" using z by (auto simp: in_seg_def)
    then show "ram s' x = ram s0 x" unfolding ram' ram4 using fit by (simp add: deob_mem_outside load_segs_outside img'(2))
  qed
  then show "\<exists>v. ram s' = (if \<forall>h \<in> set hs. seg_data_len h = 0 then ram s0 else deob_mem env v hs (load_segs env m v (a + 24) hs (ram s0)))"
    using o unfolding ram' ram4 by (intro exI [of _ ?v]) auto
qed

lemma image_load_ram:
  assumes l: "image_load env ESP_IMAGE_LOAD part s0 = Some (ESP_OK, s')" and r: "load_ready env part s0"
  defines "hs \<equiv> img_segments (img s')"
  assumes pl: "plain_load env 0 hs" and sep: "sorted_wrt (separate env) hs"
  shows "(h, d) \<in> set (zip hs (img_segment_data (img s'))) \<Longrightarrow> should_load env (seg_load_addr h) \<Longrightarrow>
       rd_bytes (ram s') (seg_load_addr h) (seg_data_len h) = rd_bytes (bl_view s0) d (seg_data_len h)"
    and "\<forall>h \<in> set hs. \<not> (should_load env (seg_load_addr h) \<and> in_seg x h) \<Longrightarrow> ram s' x = ram s0 x"
proof -
  let ?m = "bl_view s0" let ?a = "pos_offset part + 24"
  note q = image_load_result [OF l _ r, folded hs_def]
  have fit: "\<forall>h \<in> set hs. segment_fits env h" and sd: "img_segment_data (img s') = seg_addrs ?a hs"
    using q(1) by (simp_all add: image_intact_def Let_def hs_def)
  obtain v where ram': "ram s' = (if \<forall>h \<in> set hs. seg_data_len h = 0 then ram s0 else deob_mem env v hs (load_segs env ?m v ?a hs (ram s0)))"
    using q(6) pl by auto
  show "\<forall>h \<in> set hs. \<not> (should_load env (seg_load_addr h) \<and> in_seg x h) \<Longrightarrow> ram s' x = ram s0 x"
    unfolding ram' using fit by (simp add: deob_mem_outside load_segs_outside)
  assume z: "(h, d) \<in> set (zip hs (img_segment_data (img s')))" and sl: "should_load env (seg_load_addr h)"
  have hin: "h \<in> set hs" using set_zip_leftD [OF z] .
  have "ram s' (seg_load_addr h + i) = ?m (d + i)" if i: "i < seg_data_len h" for i
  proof -
    have x: "in_seg (seg_load_addr h + i) h" using i by (simp add: in_seg_def)
    have "ram s' = deob_mem env v hs (load_segs env ?m v ?a hs (ram s0))" using ram' hin i by auto
    then show ?thesis
      using deob_mem_inside [OF hin sl x sep] load_segs_inside [OF z [unfolded sd] sl x fit sep] by (simp add: xor.assoc)
  qed
  then show "rd_bytes (ram s') (seg_load_addr h) (seg_data_len h) = rd_bytes ?m d (seg_data_len h)" by (intro nth_equalityI) (simp_all add: rd_bytes_def)
qed


text \<open>
  C5: loading is a round trip from flash to memory: the words written in the loop are hidden with
  two random words and uncovered after verification, which leaves exactly the bytes of each loaded
  segment at its load address, and every other byte of memory as it was.
\<close>

theorem image_load_round_trip:
  assumes "image_load env ESP_IMAGE_LOAD part s = Some (ESP_OK, s')" and "load_ready env part s"
    and "plain_load env 0 (img_segments (img s'))" and "sorted_wrt (separate env) (img_segments (img s'))"
  shows "(\<forall>(h, d) \<in> set (zip (img_segments (img s')) (img_segment_data (img s'))). should_load env (seg_load_addr h) \<longrightarrow>
       rd_bytes (ram s') (seg_load_addr h) (seg_data_len h) = rd_bytes (bl_view s) d (seg_data_len h))
    \<and> (\<forall>x. (\<forall>h \<in> set (img_segments (img s')). \<not> (should_load env (seg_load_addr h) \<and> in_seg x h)) \<longrightarrow> ram s' x = ram s x)"
  using image_load_ram [OF assms] by blast

end
