(* ===== verification/Image_Typed.thy ===== *)
theory Image_Typed
  imports Image_Load
begin

text \<open>
  Well-formed metadata: a small Hoare logic over the steps of \<^verbatim>\<open>image_load\<close>, on every path,
  errors included; and what a load without verification leaves of the metadata.
\<close>

section \<open>The metadata are well formed\<close>

text \<open>
  Every field is within its width, the arrays within their bounds, and no segment has an address
  of its data before its header has been read.
\<close>

definition metadata_ok :: "esp_image_metadata_t \<Rightarrow> bool" where
  "metadata_ok d \<longleftrightarrow> img_start_addr d < 2 ^ 32 \<and> img_len d < 2 ^ 32 \<and> hdr_segment_count (img_header d) < 256 \<and> hdr_entry_addr (img_header d) < 2 ^ 32
     \<and> length (img_segments d) \<le> 16 \<and> (\<forall>h \<in> set (img_segments d). seg_load_addr h < 2 ^ 32 \<and> seg_data_len h < 2 ^ 32)
     \<and> length (img_segment_data d) \<le> length (img_segments d) \<and> (\<forall>a \<in> set (img_segment_data d). a < 2 ^ 32)
     \<and> length (img_digest d) = 32"

lemma metadata_ok_page [simp]: "metadata_ok (d\<lparr> img_mmu_page_size := p \<rparr>) = metadata_ok d" "metadata_ok (d\<lparr> img_secure_version := v \<rparr>) = metadata_ok d"
  by (simp_all add: metadata_ok_def)

lemma metadata_ok_blank [simp]: "metadata_ok blank_metadata"
  by (simp add: metadata_ok_def blank_metadata_def)

lemma metadata_ok_len: "metadata_ok d \<Longrightarrow> n < 2 ^ 32 \<Longrightarrow> metadata_ok (d\<lparr> img_len := n \<rparr>)"
  by (simp add: metadata_ok_def)

lemma img_sha_data [simp]: "img (sha_data bs s) = img s"
  by (simp add: sha_data_def split: option.splits)

lemma img_xor_checksum [simp]: "img (xor_checksum w s) = img s"
  by (simp add: xor_checksum_def split: option.splits)

lemma img_segment_words [simp]: "img (segment_words m src dest dl n s) = img s"
proof -
  have "img (fold (segment_word m src dest dl n) xs s) = img s" for xs by (induction xs arbitrary: s) (simp_all add: segment_word_def Let_def)
  then show ?thesis by (simp add: segment_words_def)
qed

lemma img_munmap [simp]: "img (bootloader_munmap s) = img s"
  by (simp add: bootloader_munmap_def)

lemma read_length:
  assumes "bootloader_flash_read a n al True s = ((e, bs), s')"
  shows "s' = s" "e = ESP_OK \<Longrightarrow> length bs = n"
proof -
  have "4 * (n div 4) = n" if "n mod 4 = 0" using that by auto
  then show "s' = s" "e = ESP_OK \<Longrightarrow> length bs = n"
    using assms by (auto simp: bootloader_flash_read_def bootloader_flash_read_allow_decrypt_def length_concat comp_def sum_list_triv split: if_splits)
qed

text \<open>A result in which nothing but the secure version of the metadata has changed.\<close>

definition frame :: "image_state \<Rightarrow> (esp_err \<times> image_state) option \<Rightarrow> bool" where
  "frame s r \<longleftrightarrow> (\<forall>e s'. r = Some (e, s') \<longrightarrow> (img s')\<lparr> img_secure_version := 0 \<rparr> = (img s)\<lparr> img_secure_version := 0 \<rparr>)"

lemma frame_If: "(c \<Longrightarrow> frame s a) \<Longrightarrow> (\<not> c \<Longrightarrow> frame s b) \<Longrightarrow> frame s (if c then a else b)"
  by simp

lemma frame_bind: "(\<And>x. r = Some x \<Longrightarrow> frame s (f x)) \<Longrightarrow> frame s (r \<bind> f)"
  by (cases r) (simp_all add: frame_def)

lemma frame_None: "frame s None"
  by (simp add: frame_def)

lemma frame_Some: "(img s')\<lparr> img_secure_version := 0 \<rparr> = (img s)\<lparr> img_secure_version := 0 \<rparr> \<Longrightarrow> frame s (Some (e, s'))"
  by (simp add: frame_def)

lemma frame_pair: "(\<And>v rs. p = (v, rs) \<Longrightarrow> frame s (f v rs)) \<Longrightarrow> frame s (case p of (v, rs) \<Rightarrow> f v rs)"
  by (cases p) simp

lemmas frame_rules = frame_If frame_None frame_bind frame_pair

lemma app_desc_img: "process_esp_app_desc_data m src s = Some s' \<Longrightarrow> (img s')\<lparr> img_secure_version := 0 \<rparr> = (img s)\<lparr> img_secure_version := 0 \<rparr>"
  by (auto simp: process_esp_app_desc_data_def split: if_splits)

lemma segment_data_frame: "frame s (process_segment_data env i la da n dl st s)"
proof -
  have mm: "bootloader_mmap env da n s = (None, s) \<or> bootloader_mmap env da n s = (Some da, s\<lparr> mapped := True \<rparr>)" using mmap_cases by blast
  then show ?thesis
  proof
    assume "bootloader_mmap env da n s = (None, s)"
    then show ?thesis by (simp add: process_segment_data_def frame_def)
  next
    assume m: "bootloader_mmap env da n s = (Some da, s\<lparr> mapped := True \<rparr>)"
    show ?thesis unfolding process_segment_data_def m Let_def prod.case option.case
      by (intro frame_rules frame_Some; simp add: app_desc_img)
  qed
qed

lemma frame_trans: "frame s (Some (e, s1)) \<Longrightarrow> frame s1 r \<Longrightarrow> frame s r"
  by (simp add: frame_def)

lemma segment_loop_frame: "frame s (segment_loop env i la da n dl st s)"
proof (induction env i la da n dl st s rule: segment_loop.induct)
  case (1 env i la da n dl st s)
  let ?mp = "bootloader_mmap_get_free_pages env - (if da mod mmu_page_size env \<noteq> 0 then 1 else 0)"
  let ?mx = "if ?mp * mmu_page_size env \<ge> 2 ^ 32 then 2 ^ 32 - 1 else ?mp * mmu_page_size env"
  let ?k = "min n ?mx"
  have d: "frame s (if e \<noteq> ESP_OK then Some (e, s1) else segment_loop env i (add32 la ?k) (add32 da ?k) (n - ?k) dl False s1)"
    if "process_segment_data env i la da ?k dl st s = Some (e, s1)" and c: "n \<noteq> 0" "?mp \<noteq> 0"
      "\<not> (check_signature env \<and> dl \<and> verify_load_addresses (soc env) la (add32 la n) False \<noteq> Some True)" for e s1
  proof -
    have f: "frame s (Some (e, s1))" using segment_data_frame [of s env i la da ?k dl st] that(1) by simp
    show ?thesis
    proof (rule frame_If)
      assume e: "\<not> e \<noteq> ESP_OK"
      show "frame s (segment_loop env i (add32 la ?k) (add32 da ?k) (n - ?k) dl False s1)"
        by (rule frame_trans [OF f], rule 1 [OF c(1) c(3) refl refl refl refl refl c(2) that(1) refl e])
    qed (rule f)
  qed
  show ?case
    unfolding segment_loop.simps [of env i la da n dl st s] Let_def
    by (intro frame_rules d frame_Some) simp_all
qed

definition erased_version :: "esp_image_metadata_t \<Rightarrow> esp_image_metadata_t" where
  "erased_version d = d\<lparr> img_secure_version := 0 \<rparr>"

lemma erased_version_simps:
  "metadata_ok (erased_version d) = metadata_ok d" "img_segments (erased_version d) = img_segments d" "img_segment_data (erased_version d) = img_segment_data d"
  "img_start_addr (erased_version d) = img_start_addr d" "img_len (erased_version d) = img_len d"
  by (simp_all add: erased_version_def)

lemma frame_ok:
  assumes "frame s (Some (e, s'))"
  shows "metadata_ok (img s') = metadata_ok (img s)" "img_segments (img s') = img_segments (img s)" "img_segment_data (img s') = img_segment_data (img s)"
proof -
  have f: "erased_version (img s') = erased_version (img s)" using assms by (simp add: frame_def erased_version_def)
  show "metadata_ok (img s') = metadata_ok (img s)" "img_segments (img s') = img_segments (img s)" "img_segment_data (img s') = img_segment_data (img s)"
    using arg_cong [OF f, of metadata_ok] arg_cong [OF f, of img_segments] arg_cong [OF f, of img_segment_data] by (simp_all only: erased_version_simps)
qed

text \<open>
  A triple on the metadata: well-formed metadata on every path, and \<open>Q\<close> after success.
\<close>

definition triple :: "(esp_image_metadata_t \<Rightarrow> bool) \<Rightarrow> image_op \<Rightarrow> (esp_image_metadata_t \<Rightarrow> bool) \<Rightarrow> bool" where
  "triple P f Q \<longleftrightarrow> (\<forall>s e s'. P (img s) \<longrightarrow> f s = Some (e, s') \<longrightarrow> metadata_ok (img s') \<and> (e = ESP_OK \<longrightarrow> Q (img s')))"

lemma tripleI: "(\<And>s e s'. P (img s) \<Longrightarrow> f s = Some (e, s') \<Longrightarrow> metadata_ok (img s') \<and> (e = ESP_OK \<longrightarrow> Q (img s'))) \<Longrightarrow> triple P f Q"
  by (simp add: triple_def)

lemma tripleD: "triple P f Q \<Longrightarrow> P (img s) \<Longrightarrow> f s = Some (e, s') \<Longrightarrow> metadata_ok (img s') \<and> (e = ESP_OK \<longrightarrow> Q (img s'))"
  by (simp add: triple_def)

lemma check_err_typed:
  assumes f: "\<And>e1 s1. f s = Some (e1, s1) \<Longrightarrow> metadata_ok (img s1) \<and> (e1 = ESP_OK \<longrightarrow> Q (img s1))" and g: "triple Q g R" and c: "check_err f g s = Some (e, s')"
  shows "metadata_ok (img s') \<and> (e = ESP_OK \<longrightarrow> R (img s'))"
proof -
  obtain e1 s1 where r: "f s = Some (e1, s1)" using c by (cases "f s") (auto simp: check_err_def)
  show ?thesis
  proof (cases "e1 = ESP_OK")
    case True
    then have "g s1 = Some (e, s')" using c r by (simp add: check_err_def)
    then show ?thesis using tripleD [OF g] f [OF r] True by blast
  next
    case False
    then show ?thesis using c r f [OF r] by (simp add: check_err_def)
  qed
qed

lemma triple_check_err: "triple P f Q \<Longrightarrow> triple Q g R \<Longrightarrow> triple P (check_err f g) R"
  by (rule tripleI) (rule check_err_typed [OF tripleD], assumption+)

text \<open>The metadata when \<open>i\<close> segments have been read, and after all of them.\<close>

definition read_segs :: "nat \<Rightarrow> esp_image_metadata_t \<Rightarrow> bool" where
  "read_segs i d \<longleftrightarrow> metadata_ok d \<and> length (img_segments d) = i \<and> length (img_segment_data d) = i"

text \<open>After the header: no segment yet, and not more of them than the arrays can hold.\<close>

definition few_segs :: "esp_image_metadata_t \<Rightarrow> bool" where
  "few_segs d \<longleftrightarrow> read_segs 0 d \<and> hdr_segment_count (img_header d) \<le> 16"

definition all_read :: "esp_image_metadata_t \<Rightarrow> bool" where
  "all_read d \<longleftrightarrow> metadata_ok d \<and> length (img_segment_data d) = length (img_segments d)"

lemma header_fields: "hdr_segment_count (rd_header m a) < 256" "hdr_entry_addr (rd_header m a) < 2 ^ 32"
  using unsigned_less [where ?'a = nat, of "m (a + 1)"] unsigned_less [where ?'a = nat, of "rd32 m (a + 4)"] by (simp_all add: rd_header_def)

lemma segment_header_fields: "seg_load_addr (rd_segment_header m a) < 2 ^ 32" "seg_data_len (rd_segment_header m a) < 2 ^ 32"
  using unsigned_less [where ?'a = nat, of "rd32 m a"] unsigned_less [where ?'a = nat, of "rd32 m (a + 4)"] by (simp_all add: rd_segment_header_def)

text \<open>The header is verified, or else has to have a number of segments that fits.\<close>

lemma header_typed:
  assumes p: "process_image_header env a use_sha vf s = Some (e, s')" and a: "a + 24 < 2 ^ 32"
    and c: "\<not> vf \<longrightarrow> hdr_segment_count (rd_header (bl_view s) a) \<le> 16"
  shows "metadata_ok (img s') \<and> (e = ESP_OK \<longrightarrow> few_segs (img s'))"
proof -
  let ?s0 = "s\<lparr> img := blank_metadata\<lparr> img_start_addr := a \<rparr> \<rparr>"
  obtain e1 bs s1 where r: "bootloader_flash_read a 24 True True ?s0 = ((e1, bs), s1)" by (metis prod.exhaust)
  have s1: "s1 = ?s0" using read_length(1) [OF r] .
  let ?hdr = "rd_header (bl_view s) a"
  have ok: "read_segs 0 (blank_metadata\<lparr> img_start_addr := a, img_header := h, img_len := n \<rparr>)" if "hdr_segment_count h < 256" "hdr_entry_addr h < 2 ^ 32" "n < 2 ^ 32" for h n
    using that a by (simp add: read_segs_def metadata_ok_def blank_metadata_def)
  show ?thesis
  proof (cases "e1 = ESP_OK")
    case True
    have h: "rd_header (\<lambda>i. bs ! i) 0 = ?hdr" using bl_read_ok [of a 24 True ?s0 bs s1] r a True rd_header_list by (auto simp: bl_view_def)
    have "img s' = blank_metadata\<lparr> img_start_addr := a, img_header := ?hdr, img_len := (if e = ESP_OK then 24 else 0) \<rparr>"
      using p r True s1 unfolding process_image_header_def Let_def by (auto simp: h blank_metadata_def split: if_splits)
    moreover have "e = ESP_OK \<longrightarrow> hdr_segment_count ?hdr \<le> 16"
      using p r True s1 c verify_image_header_ok(3) unfolding process_image_header_def Let_def by (auto simp: h split: if_splits)
    ultimately show ?thesis using ok [of ?hdr 0] ok [of ?hdr 24] header_fields [of "bl_view s" a] by (auto simp: few_segs_def read_segs_def)
  next
    case False
    then show ?thesis using p r s1 a unfolding process_image_header_def Let_def by (auto simp: blank_metadata_def metadata_ok_def)
  qed
qed

lemma mmu_page_img: "set_mmu_page_size env i offs s = Some (e, s') \<Longrightarrow> \<exists>p. img s' = (img s)\<lparr> img_mmu_page_size := p \<rparr>"
  by (auto simp: set_mmu_page_size_def Let_def dest!: bl_read_state split: if_splits prod.splits intro: exI [of _ "img_mmu_page_size (img s)"])

lemma read_segs_page: "read_segs i (d\<lparr> img_mmu_page_size := p \<rparr>) = read_segs i d"
  by (simp add: read_segs_def)

lemma segment_header_img: "verify_segment_header env i h offs s = Some (e, s') \<Longrightarrow> \<exists>p. img s' = (img s)\<lparr> img_mmu_page_size := p \<rparr>"
  using mmu_page_img [of env i offs s]
  by (auto simp: verify_segment_header_def check_err_def Let_def split: if_splits Option.bind_splits intro: exI [of _ "img_mmu_page_size (img s)"])

text \<open>One more header than addresses of data.\<close>

definition read_header :: "nat \<Rightarrow> esp_image_metadata_t \<Rightarrow> bool" where
  "read_header i d \<longleftrightarrow> metadata_ok d \<and> length (img_segments d) = Suc i \<and> length (img_segment_data d) = i"

lemma read_header_page: "read_header i (d\<lparr> img_mmu_page_size := p \<rparr>) = read_header i d"
  by (simp add: read_header_def)

lemma segment_triple: "i < 16 \<Longrightarrow> triple (read_segs i) (process_segment env j fa dl) (read_header i)"
proof (rule tripleI)
  fix s e s' assume i: "i < 16" and p: "read_segs i (img s)" and r: "process_segment env j fa dl s = Some (e, s')"
  obtain e1 bs s1 where b: "bootloader_flash_read fa 8 True True s = ((e1, bs), s1)" by (metis prod.exhaust)
  have s1: "s1 = s" using read_length(1) [OF b] .
  let ?h = "rd_segment_header (\<lambda>i. bs ! i) 0"
  let ?s2 = "sha_data bs (s\<lparr> img := (img s)\<lparr> img_segments := img_segments (img s) @ [?h] \<rparr> \<rparr>)"
  let ?rest = "\<lambda>s3. if seg_data_len ?h mod 4 \<noteq> 0 then Some (ESP_ERR_IMAGE_INVALID, s3)
     else do {
       ok \<leftarrow> (if (dl \<and> should_load env (seg_load_addr ?h)) \<and> seg_data_len ?h > 0
              then verify_load_addresses (soc env) (seg_load_addr ?h) (add32 (seg_load_addr ?h) (seg_data_len ?h)) False else Some True);
       if \<not> ok then Some (ESP_ERR_IMAGE_INVALID, s3)
       else segment_loop env j (seg_load_addr ?h) (add32 fa 8) (seg_data_len ?h) (dl \<and> should_load env (seg_load_addr ?h)) True s3
     }"
  have fr: "frame s3 (?rest s3)" for s3 by (intro frame_rules frame_Some segment_loop_frame) simp_all
  have 2: "read_header i (img ?s2)" using p i segment_header_fields [of "\<lambda>i. bs ! i" 0] by (auto simp: read_header_def read_segs_def metadata_ok_def)
  have "triple (read_header i) ?rest (read_header i)"
  proof (rule tripleI)
    fix s3 e3 s4 assume "read_header i (img s3)" "?rest s3 = Some (e3, s4)"
    then show "metadata_ok (img s4) \<and> (e3 = ESP_OK \<longrightarrow> read_header i (img s4))"
      using frame_ok [OF fr [of s3, unfolded \<open>?rest s3 = Some (e3, s4)\<close>]] by (simp add: read_header_def)
  qed
  moreover have "triple (read_header i) (verify_segment_header env j ?h (add32 fa 8)) (read_header i)"
  proof (rule tripleI)
    fix s3 e3 s4 assume "read_header i (img s3)" "verify_segment_header env j ?h (add32 fa 8) s3 = Some (e3, s4)"
    then have "read_header i (img s4)" using segment_header_img [of env j ?h "add32 fa 8" s3 e3 s4] by (auto simp: read_header_page)
    then show "metadata_ok (img s4) \<and> (e3 = ESP_OK \<longrightarrow> read_header i (img s4))" by (simp add: read_header_def)
  qed
  ultimately have t: "triple (read_header i) (check_err (verify_segment_header env j ?h (add32 fa 8)) ?rest) (read_header i)" by (rule triple_check_err [rotated])
  show "metadata_ok (img s') \<and> (e = ESP_OK \<longrightarrow> read_header i (img s'))"
  proof (cases "e1 = ESP_OK")
    case True
    then have "check_err (verify_segment_header env j ?h (add32 fa 8)) ?rest ?s2 = Some (e, s')" using r b s1 by (simp add: process_segment_def Let_def)
    then show ?thesis using tripleD [OF t 2] by blast
  next
    case False
    then show ?thesis using r b s1 p by (auto simp: process_segment_def read_segs_def)
  qed
qed

lemma segments_loop_ok_typed:
  assumes "segments_loop env dl i left a s = Some ((e, a'), s')" and "read_segs i (img s)" and "i + left \<le> 16"
  shows "metadata_ok (img s') \<and> (e = ESP_OK \<longrightarrow> all_read (img s'))"
  using assms
proof (induction left arbitrary: i a s)
  case 0
  then show ?case by (auto simp: read_segs_def all_read_def)
next
  case (Suc left)
  have i: "i < 16" "Suc i + left \<le> 16" using Suc.prems(3) by simp_all
  obtain e1 s1 where p: "process_segment env i a dl s = Some (e1, s1)" using Suc.prems(1) by (auto split: Option.bind_splits)
  note q = tripleD [OF segment_triple [OF i(1)] Suc.prems(2) p]
  show ?case
  proof (cases "e1 = ESP_OK")
    case True
    let ?s2 = "s1\<lparr> img := (img s1)\<lparr> img_segment_data := img_segment_data (img s1) @ [add32 a 8] \<rparr> \<rparr>"
    have "read_segs (Suc i) (img ?s2)" using q True by (auto simp: read_header_def read_segs_def metadata_ok_def add32_def)
    moreover have "segments_loop env dl (Suc i) left (add32 (add32 a 8) (seg_data_len (img_segments (img s1) ! i))) ?s2 = Some ((e, a'), s')"
      using Suc.prems(1) p True by (simp add: Let_def)
    ultimately show ?thesis using Suc.IH i(2) by blast
  next
    case False
    then show ?thesis using Suc.prems(1) p q by simp
  qed
qed

lemma typed_len [simp]:
  "metadata_ok d \<Longrightarrow> metadata_ok (d\<lparr> img_len := add32 x y \<rparr>)" "all_read d \<Longrightarrow> all_read (d\<lparr> img_len := add32 x y \<rparr>)"
  using add32_less [of x y] by (simp_all add: all_read_def metadata_ok_def)

lemma all_readD: "all_read d \<Longrightarrow> metadata_ok d"
  by (simp add: all_read_def)

lemma segments_triple: "triple few_segs (process_segments env dl) all_read"
proof (rule tripleI)
  fix s e s' assume r: "few_segs (img s)" and p: "process_segments env dl s = Some (e, s')"
  let ?start = "add32 (img_start_addr (img s)) (img_len (img s))"
  obtain e1 a1 s1 where l: "segments_loop env dl 0 (hdr_segment_count (img_header (img s))) ?start s = Some ((e1, a1), s1)"
    using p by (auto simp: process_segments_def Let_def split: Option.bind_splits)
  have "read_segs 0 (img s)" "0 + hdr_segment_count (img_header (img s)) \<le> 16" using r by (simp_all add: few_segs_def)
  note q = segments_loop_ok_typed [OF l this]
  show "metadata_ok (img s') \<and> (e = ESP_OK \<longrightarrow> all_read (img s'))"
    using p q l unfolding process_segments_def Let_def by (auto split: if_splits)
qed

text \<open>What the later operations change.\<close>

lemma all_read_triple:
  assumes "\<And>s e s'. all_read (img s) \<Longrightarrow> f s = Some (e, s') \<Longrightarrow> all_read (img s')"
  shows "triple all_read f all_read"
  using assms all_readD by (auto intro!: tripleI)

lemma checksum_triple: "triple all_read (process_checksum skip) all_read"
proof (rule all_read_triple)
  fix s e s' assume a: "all_read (img s)" and p: "process_checksum skip s = Some (e, s')"
  let ?L = "img_len (img s)" let ?n = "sub32 (align_up 16 (add32 ?L 1)) ?L"
  obtain e1 buf s1 where r: "(if \<not> skip \<or> sha_handle s \<noteq> None then bootloader_flash_read (add32 (img_start_addr (img s)) ?L) ?n True True s
      else ((ESP_OK, replicate ?n 0), s)) = ((e1, buf), s1)" by (metis prod.exhaust)
  have s1: "s1 = s" using r read_length(1) by (auto split: if_splits)
  show "all_read (img s')"
    using p a unfolding process_checksum_def Let_def r s1 by (auto split: if_splits)
qed

lemma appended_triple: "triple all_read (process_appended_hash_and_sig env po pl vf) all_read"
proof (rule all_read_triple)
  fix s e s' assume a: "all_read (img s)" and p: "process_appended_hash_and_sig env po pl vf s = Some (e, s')"
  let ?app = "hdr_hash_appended (img_header (img s))"
  obtain e1 ds s1 where r: "(if ?app \<and> vf then bootloader_flash_read (add32 (img_start_addr (img s)) (img_len (img s))) 32 True True s
      else ((ESP_OK, img_digest (img s)), s)) = ((e1, ds), s1)" by (metis prod.exhaust)
  have s1: "s1 = s" using r read_length(1) by (auto split: if_splits)
  have d: "length ds = 32" if "e1 = ESP_OK" using r a that read_length(2) by (auto simp: all_read_def metadata_ok_def split: if_splits)
  have "all_read ((img s)\<lparr> img_digest := ds, img_len := (if ?app then add32 (img_len (img s)) 32 else img_len (img s)) \<rparr>)" if "e1 = ESP_OK"
    using a d that add32_less [of "img_len (img s)" 32] by (simp add: all_read_def metadata_ok_def)
  then show "all_read (img s')" using p a unfolding process_appended_hash_and_sig_def Let_def r s1 by (auto split: if_splits)
qed

lemma signature_img:
  "verify_signature_and_adjust_image_len env a s = Some (e, s') \<Longrightarrow> all_read (img s) \<Longrightarrow> all_read (img s')"
  by (auto simp: verify_signature_and_adjust_image_len_def Let_def split: if_splits Option.bind_splits prod.splits)

lemma contents_triple: "triple all_read (verify_contents env vs) all_read"
proof (rule all_read_triple)
  fix s e s' assume a: "all_read (img s)" and "verify_contents env vs s = Some (e, s')"
  then consider "s' = s" | "verify_secure_boot_signature env s = Some (e, s')" | "verify_simple_hash env s = Some (e, s')"
    by (auto simp: verify_contents_def split: if_splits)
  then show "all_read (img s')"
  proof cases
    case 2
    then obtain acc a where "verify_signature_and_adjust_image_len env a (s\<lparr> sha_handle := None, image_digest := acc \<rparr>) = Some (e, s')"
      by (auto simp: verify_secure_boot_signature_def Let_def split: Option.bind_splits)
    from signature_img [OF this] show ?thesis using a by simp
  qed (use a in \<open>auto simp: verify_simple_hash_def split: option.splits\<close>)
qed

lemma deobfuscate_img: "img (deobfuscate env s) = img s"
proof -
  have w: "img (fold (deobfuscate_word la) xs s) = img s" for la xs s by (induction xs arbitrary: s) (simp_all add: deobfuscate_word_def)
  have "img (fold (\<lambda>h s. if should_load env (seg_load_addr h) then fold (deobfuscate_word (seg_load_addr h)) [0..<seg_data_len h div 4] s else s) hs s) = img s" for hs
    by (induction hs arbitrary: s) (simp_all add: w)
  then show ?thesis by (simp add: deobfuscate_def)
qed

lemma release_triple: "triple all_read (\<lambda>s. release_image env mode dl vs (s\<lparr> sha_handle := None \<rparr>)) all_read"
  by (rule all_read_triple) (auto simp: release_image_def Let_def deobfuscate_img split: if_splits)

text \<open>The four steps that fill in the metadata, and all the steps of \<^verbatim>\<open>image_load\<close>.\<close>

lemma parse_triple:
  "triple few_segs (check_err (process_segments env dl) (check_err (process_checksum skip) (process_appended_hash_and_sig env po pl vf))) all_read"
  by (rule triple_check_err [OF segments_triple triple_check_err [OF checksum_triple appended_triple]])

lemma load_triple:
  "triple few_segs (check_err (process_segments env dl) (check_err (process_checksum skip) (check_err (process_appended_hash_and_sig env po pl vf)
     (check_err (verify_contents env vs) (\<lambda>s1. release_image env mode dl' vs (s1\<lparr> sha_handle := None \<rparr>)))))) all_read"
  by (rule triple_check_err [OF segments_triple triple_check_err [OF checksum_triple triple_check_err [OF appended_triple
        triple_check_err [OF contents_triple release_triple]]]])

lemma header_chain_typed:
  assumes c: "check_err (process_image_header env a use_sha vf) g s = Some (e, s')" and g: "triple few_segs g R" and a: "a + 24 < 2 ^ 32"
    and n: "\<not> vf \<longrightarrow> hdr_segment_count (rd_header (bl_view s) a) \<le> 16"
  shows "metadata_ok (img s') \<and> (e = ESP_OK \<longrightarrow> R (img s'))"
  by (rule check_err_typed [OF _ g c]) (rule header_typed [OF _ a n])

lemma image_load_typed:
  assumes l: "image_load env mode part s = Some (e, s')" and a: "pos_offset part + 24 < 2 ^ 32"
    and c: "mode = ESP_IMAGE_LOAD_NO_VALIDATE \<longrightarrow> hdr_segment_count (rd_header (bl_view s) (pos_offset part)) \<le> 16"
  shows "metadata_ok (img s') \<and> (e = ESP_OK \<longrightarrow> length (img_segment_data (img s')) = length (img_segments (img s')))"
proof -
  define dl vf where "dl = (mode \<in> {ESP_IMAGE_LOAD, ESP_IMAGE_LOAD_NO_VALIDATE})" and "vf = (mode \<in> {ESP_IMAGE_LOAD, ESP_IMAGE_VERIFY, ESP_IMAGE_VERIFY_SILENT})"
  let ?rest = "\<lambda>vs. check_err (process_segments env dl)
    (check_err (process_checksum (\<not> vf \<or> debugger_attached env)) (check_err (process_appended_hash_and_sig env (pos_offset part) (pos_size part) vf)
    (check_err (verify_contents env vs) (\<lambda>s1. release_image env mode dl vs (s1\<lparr> sha_handle := None \<rparr>)))))"
  let ?chain = "\<lambda>vs. check_err (process_image_header env (pos_offset part) vs vf) (?rest vs)"
  define s0 where "s0 = s\<lparr> checksum := (if vf then Some 0xEF else None), sha_handle := None, image_digest := replicate 32 0xEE, verified_digest := replicate 32 0x01 \<rparr>"
  define vs where "vs = (if secure_boot_v2_enabled env then vf else \<not> is_bootloader env s0 (pos_offset part) \<and> vf)"
  let ?r = "if pos_size part > image_max_size env then Some (ESP_ERR_INVALID_ARG, s0) else ?chain vs s0"
  have "?r \<bind> (\<lambda>(err, s1). Some (err, if err = ESP_OK then s1 else s1\<lparr> sha_handle := None, img := blank_metadata \<rparr>)) = Some (e, s')"
    using l unfolding image_load_def Let_def dl_def [symmetric] vf_def [symmetric] s0_def [symmetric] vs_def [symmetric] .
  then obtain s1 where r: "?r = Some (e, s1)" and s': "s' = (if e = ESP_OK then s1 else s1\<lparr> sha_handle := None, img := blank_metadata \<rparr>)"
    by (cases ?r) auto
  have "\<not> vf \<longrightarrow> mode = ESP_IMAGE_LOAD_NO_VALIDATE" by (cases mode) (simp_all add: vf_def)
  moreover have "bl_view s0 = bl_view s" by (simp add: s0_def bl_view_def)
  ultimately have c0: "\<not> vf \<longrightarrow> hdr_segment_count (rd_header (bl_view s0) (pos_offset part)) \<le> 16" using c by simp
  show ?thesis
  proof (cases "e = ESP_OK")
    case True
    then have "?chain vs s0 = Some (e, s1)" using r by (auto split: if_splits)
    from header_chain_typed [OF this load_triple a c0] have "all_read (img s1)" using True by blast
    then show ?thesis using s' True by (simp add: all_read_def)
  next
    case False
    then show ?thesis using s' by simp
  qed
qed

text \<open>
  C23: when an image is verified, whatever the flash holds, the steps that fill in the metadata
  keep them well formed on every path, also on the error paths: fields within their widths, never
  more than the 16 segments that the arrays have room for, a digest of 32 bytes. So are the metadata
  that \<^verbatim>\<open>image_load\<close> returns, and after success every segment has the address of its data. Without
  verification the same holds for a header that has at most 16 segments, which is then not checked.
\<close>

theorem image_load_metadata_typed:
  assumes "pos_offset part + 24 < 2 ^ 32"
    and "mode = ESP_IMAGE_LOAD_NO_VALIDATE \<longrightarrow> hdr_segment_count (rd_header (bl_view s) (pos_offset part)) \<le> 16"
  shows "(\<forall>use_sha dl skip e s'. check_err (process_image_header env (pos_offset part) use_sha (mode \<noteq> ESP_IMAGE_LOAD_NO_VALIDATE))
        (check_err (process_segments env dl) (check_err (process_checksum skip)
           (process_appended_hash_and_sig env (pos_offset part) (pos_size part) (mode \<noteq> ESP_IMAGE_LOAD_NO_VALIDATE)))) s = Some (e, s')
        \<longrightarrow> metadata_ok (img s'))
    \<and> (\<forall>e s'. image_load env mode part s = Some (e, s') \<longrightarrow>
        metadata_ok (img s') \<and> (e = ESP_OK \<longrightarrow> length (img_segment_data (img s')) = length (img_segments (img s'))))"
  using header_chain_typed [OF _ parse_triple assms(1), of env _ "mode \<noteq> ESP_IMAGE_LOAD_NO_VALIDATE" _ _ _ _ "pos_size part" _ s] image_load_typed [OF _ assms] assms(2) by blast

section \<open>Loading without verification\<close>

text \<open>No checksum and no hash are kept, and the secure version has not been read.\<close>

definition unhashed :: "image_state \<Rightarrow> bool" where
  "unhashed s \<longleftrightarrow> checksum s = None \<and> sha_handle s = None \<and> img_secure_version (img s) = 0"

definition stays_unhashed :: "image_op \<Rightarrow> bool" where
  "stays_unhashed f \<longleftrightarrow> (\<forall>s e s'. unhashed s \<longrightarrow> f s = Some (e, s') \<longrightarrow> unhashed s')"

lemma stays_unhashedD: "stays_unhashed f \<Longrightarrow> unhashed s \<Longrightarrow> f s = Some (e, s') \<Longrightarrow> unhashed s'"
  by (simp add: stays_unhashed_def)

lemma unhashed_check_err: "stays_unhashed f \<Longrightarrow> stays_unhashed g \<Longrightarrow> stays_unhashed (check_err f g)"
proof -
  assume f: "stays_unhashed f" and g: "stays_unhashed g"
  have "unhashed s'" if q: "unhashed s" and c: "check_err f g s = Some (e, s')" for s e s'
  proof (cases "f s")
    case (Some r)
    obtain e1 s1 where r: "f s = Some (e1, s1)" using Some by (cases r) auto
    show ?thesis using c r stays_unhashedD [OF f q r] stays_unhashedD [OF g, of s1] by (auto simp: check_err_def split: if_splits)
  qed (use c in \<open>simp add: check_err_def\<close>)
  then show ?thesis by (simp add: stays_unhashed_def)
qed

lemma unhashed_sha [simp]: "unhashed s \<Longrightarrow> sha_data bs s = s"
  by (simp add: unhashed_def sha_data_def)

lemma unhashed_segment_data: "stays_unhashed (process_segment_data env i la da n dl st)"
  unfolding stays_unhashed_def
proof (intro allI impI)
  fix s e s' assume q: "unhashed s" and p: "process_segment_data env i la da n dl st s = Some (e, s')"
  show "unhashed s'" using p q mmap_cases [of env da n s]
    by (auto simp: process_segment_data_def unhashed_def bootloader_munmap_def Let_def split: if_splits)
qed

lemma unhashed_segment_loop: "unhashed s \<Longrightarrow> segment_loop env i la da n dl st s = Some (e, s') \<Longrightarrow> unhashed s'"
proof (induction n arbitrary: la da st s rule: less_induct)
  case (less n)
  show ?case
  proof (cases "n = 0")
    case False
    show ?thesis
    proof (cases "process_segment_data env i la da (piece_len env da n) dl st s")
      case None
      then show ?thesis using less.prems False by (subst (asm) segment_loop_unfold) (auto split: if_splits)
    next
      case (Some r)
      then obtain e1 s1 where r: "process_segment_data env i la da (piece_len env da n) dl st s = Some (e1, s1)" by (cases r) auto
      have q1: "unhashed s1" by (rule stays_unhashedD [OF unhashed_segment_data less.prems(1) r])
      let ?mp = "bootloader_mmap_get_free_pages env - (if da mod mmu_page_size env \<noteq> 0 then 1 else 0)"
      have k: "n - piece_len env da n < n" if "?mp \<noteq> 0"
      proof -
        have "mmu_page_size env \<noteq> 0" using that by (auto simp: bootloader_mmap_get_free_pages_def intro: ccontr)
        then have "0 < ?mp * mmu_page_size env" using that by simp
        then have "0 < piece_len env da n" using False unfolding piece_len_def Let_def by (simp only: min_def split: if_split) simp
        then show ?thesis using False by simp
      qed
      show ?thesis using less.prems(2) False r q1 less.prems(1)
        by (subst (asm) segment_loop_unfold) (auto split: if_splits intro: less.IH [OF k q1] simp del: One_nat_def)
    qed
  qed (use less.prems in \<open>simp add: segment_loop_unfold [of _ _ _ _ 0]\<close>)
qed

lemma unhashed_segment: "stays_unhashed (process_segment env i fa dl)"
  unfolding stays_unhashed_def
proof (intro allI impI)
  fix s e s' assume q: "unhashed s" and p: "process_segment env i fa dl s = Some (e, s')"
  obtain e1 bs s1 where r: "bootloader_flash_read fa 8 True True s = ((e1, bs), s1)" by (metis prod.exhaust)
  have s1: "s1 = s" using read_length(1) [OF r] .
  let ?h = "rd_segment_header (\<lambda>i. bs ! i) 0"
  let ?s2 = "s\<lparr> img := (img s)\<lparr> img_segments := img_segments (img s) @ [?h] \<rparr> \<rparr>"
  have q2: "unhashed ?s2" using q by (simp add: unhashed_def)
  have v: "stays_unhashed (verify_segment_header env i ?h (add32 fa 8))"
    unfolding stays_unhashed_def
  proof (intro allI impI)
    fix t e t' assume "unhashed t" and w: "verify_segment_header env i ?h (add32 fa 8) t = Some (e, t')"
    moreover have "checksum t' = checksum t" "sha_handle t' = sha_handle t"
      using w by (auto simp: verify_segment_header_def check_err_def set_mmu_page_size_def Let_def dest!: bl_read_state split: if_splits prod.splits Option.bind_splits)
    moreover have "\<exists>p. img t' = (img t)\<lparr> img_mmu_page_size := p \<rparr>" by (rule segment_header_img [OF w])
    ultimately show "unhashed t'" by (auto simp: unhashed_def)
  qed
  have l: "stays_unhashed (\<lambda>s3. if seg_data_len ?h mod 4 \<noteq> 0 then Some (ESP_ERR_IMAGE_INVALID, s3)
     else do {
       ok \<leftarrow> (if (dl \<and> should_load env (seg_load_addr ?h)) \<and> seg_data_len ?h > 0
              then verify_load_addresses (soc env) (seg_load_addr ?h) (add32 (seg_load_addr ?h) (seg_data_len ?h)) False else Some True);
       if \<not> ok then Some (ESP_ERR_IMAGE_INVALID, s3)
       else segment_loop env i (seg_load_addr ?h) (add32 fa 8) (seg_data_len ?h) (dl \<and> should_load env (seg_load_addr ?h)) True s3
     })" (is "stays_unhashed ?rest")
    unfolding stays_unhashed_def by (auto split: if_splits Option.bind_splits intro: unhashed_segment_loop)
  show "unhashed s'"
  proof (cases "e1 = ESP_OK")
    case True
    then have "check_err (verify_segment_header env i ?h (add32 fa 8)) ?rest ?s2 = Some (e, s')"
      using p r s1 q2 by (simp add: process_segment_def Let_def)
    then show ?thesis by (rule stays_unhashedD [OF unhashed_check_err [OF v l] q2])
  next
    case False
    then show ?thesis using p r s1 q by (simp add: process_segment_def)
  qed
qed

lemma unhashed_segments_loop: "unhashed s \<Longrightarrow> segments_loop env dl i left a s = Some ((e, a'), s') \<Longrightarrow> unhashed s'"
proof (induction left arbitrary: i a s)
  case (Suc left)
  obtain e1 s1 where p: "process_segment env i a dl s = Some (e1, s1)" using Suc.prems(2) by (auto split: Option.bind_splits)
  have q1: "unhashed s1" by (rule stays_unhashedD [OF unhashed_segment Suc.prems(1) p])
  then have "unhashed (s1\<lparr> img := (img s1)\<lparr> img_segment_data := x \<rparr> \<rparr>)" for x by (simp add: unhashed_def)
  from Suc.IH [OF this] show ?case using Suc.prems(2) p q1 by (auto simp: Let_def split: if_splits)
qed simp

lemma unhashed_segments: "stays_unhashed (process_segments env dl)"
  unfolding stays_unhashed_def
proof (intro allI impI)
  fix s e s' assume q: "unhashed s" and p: "process_segments env dl s = Some (e, s')"
  obtain e1 a1 s1 where l: "segments_loop env dl 0 (hdr_segment_count (img_header (img s))) (add32 (img_start_addr (img s)) (img_len (img s))) s = Some ((e1, a1), s1)"
    using p by (auto simp: process_segments_def Let_def split: Option.bind_splits)
  have "unhashed s1" by (rule unhashed_segments_loop [OF q l])
  then show "unhashed s'" using p l by (auto simp: process_segments_def unhashed_def Let_def split: if_splits)
qed

lemma unhashed_checksum: "stays_unhashed (process_checksum True)"
  by (auto simp: stays_unhashed_def process_checksum_def unhashed_def sha_data_def Let_def split: if_splits)

lemma unhashed_appended: "stays_unhashed (process_appended_hash_and_sig env po pl False)"
  by (auto simp: stays_unhashed_def process_appended_hash_and_sig_def unhashed_def Let_def split: if_splits)

lemma unhashed_header:
  assumes "process_image_header env a vs False s = Some (e, s')" and "checksum s = None" "sha_handle s = None"
  shows "unhashed s'"
proof -
  obtain e1 bs s1 where r: "bootloader_flash_read a 24 True True (s\<lparr> img := blank_metadata\<lparr> img_start_addr := a \<rparr> \<rparr>) = ((e1, bs), s1)" by (metis prod.exhaust)
  have "s1 = s\<lparr> img := blank_metadata\<lparr> img_start_addr := a \<rparr> \<rparr>" using read_length(1) [OF r] .
  then show ?thesis using assms r by (auto simp: process_image_header_def unhashed_def blank_metadata_def Let_def split: if_splits)
qed

text \<open>
  C40: with anti-rollback, an image is never loaded without verification once the secure version in the
  eFuses is above zero: the version that \<^verbatim>\<open>image_load\<close> compares at its end is taken from the
  image only while its checksum and hash are computed, and is zero otherwise. This concerns the mode
  \<^verbatim>\<open>ESP_IMAGE_LOAD_NO_VALIDATE\<close>, which the start after a deep sleep uses.
\<close>

theorem unverified_load_fails_with_secure_version:
  assumes "image_anti_rollback env"
    and "0 < esp_efuse_read_secure_version (image_sec_ver_size env) (image_sec_version env)"
  shows "image_load env ESP_IMAGE_LOAD_NO_VALIDATE part s \<noteq> Some (ESP_OK, s')"
proof
  assume ok: "image_load env ESP_IMAGE_LOAD_NO_VALIDATE part s = Some (ESP_OK, s')"
  let ?s = "s\<lparr> checksum := None, sha_handle := None, image_digest := replicate 32 0xEE, verified_digest := replicate 32 0x01 \<rparr>"
  let ?last = "\<lambda>s1. release_image env ESP_IMAGE_LOAD_NO_VALIDATE True False (s1\<lparr> sha_handle := None \<rparr>)"
  let ?chain = "check_err (process_image_header env (pos_offset part) False False)
     (check_err (process_segments env True) (check_err (process_checksum True) (check_err (process_appended_hash_and_sig env (pos_offset part) (pos_size part) False)
     (check_err (verify_contents env False) ?last))))"
  let ?r = "if pos_size part > image_max_size env then Some (ESP_ERR_INVALID_ARG, ?s) else ?chain ?s"
  have "?r \<bind> (\<lambda>(err, s1). Some (err, if err = ESP_OK then s1 else s1\<lparr> sha_handle := None, img := blank_metadata \<rparr>)) = Some (ESP_OK, s')"
  proof -
    have m: "(ESP_IMAGE_LOAD_NO_VALIDATE \<in> {ESP_IMAGE_LOAD, ESP_IMAGE_VERIFY, ESP_IMAGE_VERIFY_SILENT}) = False"
      "(ESP_IMAGE_LOAD_NO_VALIDATE \<in> {ESP_IMAGE_LOAD, ESP_IMAGE_LOAD_NO_VALIDATE}) = True" by simp_all
    show ?thesis using ok unfolding image_load_def Let_def m by (simp only: simp_thms if_True if_False if_cancel)
  qed
  then have "?r = Some (ESP_OK, s')" by (cases ?r) auto
  then have "?chain ?s = Some (ESP_OK, s')" by (simp split: if_splits)
  then obtain s1 s2 s3 s4 s5 where st: "process_image_header env (pos_offset part) False False ?s = Some (ESP_OK, s1)" "process_segments env True s1 = Some (ESP_OK, s2)"
    "process_checksum True s2 = Some (ESP_OK, s3)" "process_appended_hash_and_sig env (pos_offset part) (pos_size part) False s3 = Some (ESP_OK, s4)"
    and e: "verify_contents env False s4 = Some (ESP_OK, s5)" "?last s5 = Some (ESP_OK, s')"
    unfolding check_err_ok by blast
  have "unhashed s1" by (rule unhashed_header [OF st(1)]) simp_all
  then have "unhashed s2" by (rule stays_unhashedD [OF unhashed_segments _ st(2)])
  then have "unhashed s3" by (rule stays_unhashedD [OF unhashed_checksum _ st(3)])
  then have "unhashed s4" by (rule stays_unhashedD [OF unhashed_appended _ st(4)])
  then have "img_secure_version (img s5) = 0" using e(1) by (simp add: verify_contents_def unhashed_def)
  then show False using e(2) assms by (auto simp: release_image_def esp_efuse_check_secure_version_def deobfuscate_img Let_def split: if_splits)
qed

end
