(* ===== verification/Image_Accept.thy ===== *)
theory Image_Accept
  imports Image_Load
begin

text \<open>
  The converse of \<^verbatim>\<open>Image_Load\<close>: the loops return, and an image without a fault is accepted; and what
  happens to an image with too many segments when it is not verified.
\<close>

section \<open>Pieces fit into the window\<close>

lemma piece_in_window:
  assumes "window_ok env"
  shows "da mod mmu_page_size env + piece_len env da n \<le> mmap_mmu_size env" "n \<noteq> 0 \<Longrightarrow> piece_len env da n \<noteq> 0"
    and "bootloader_mmap_get_free_pages env - (if da mod mmu_page_size env \<noteq> 0 then 1 else 0) \<noteq> 0"
proof -
  let ?p = "mmu_page_size env" and ?free = "bootloader_mmap_get_free_pages env"
  let ?mp = "?free - (if da mod ?p \<noteq> 0 then 1 else 0)"
  have w: "0 < ?p" "2 * ?p \<le> mmap_mmu_size env" "mmap_mmu_size env < 2 ^ 32" using assms by (simp_all add: window_ok_def)
  have f: "?free * ?p \<le> mmap_mmu_size env" by (simp add: bootloader_mmap_get_free_pages_def)
  have "2 \<le> ?free" using w div_le_mono [OF w(2), of ?p] by (simp add: bootloader_mmap_get_free_pages_def)
  then show mp: "?mp \<noteq> 0" by auto
  have "?mp * ?p \<le> ?free * ?p" by (intro mult_right_mono) auto
  then have lt: "?mp * ?p < 2 ^ 32" using f w(3) by linarith
  then have len: "piece_len env da n = min n (?mp * ?p)" by (simp only: piece_len_def Let_def) simp
  show "n \<noteq> 0 \<Longrightarrow> piece_len env da n \<noteq> 0" 
  proof -
    have "0 < ?mp * ?p" using mp w(1) by (intro mult_pos_pos) simp_all
    then show "n \<noteq> 0 \<Longrightarrow> piece_len env da n \<noteq> 0" unfolding len by linarith
  qed
  show "da mod ?p + piece_len env da n \<le> mmap_mmu_size env"
  proof (cases "da mod ?p = 0")
    case True
    then show ?thesis using len f by simp
  next
    case False
    then have "?mp * ?p + ?p = ?free * ?p" using \<open>2 \<le> ?free\<close> by (simp add: diff_mult_distrib)
    moreover have "piece_len env da n \<le> ?mp * ?p" unfolding len by simp
    ultimately show ?thesis using f mod_less_divisor [OF w(1), of da] by linarith
  qed
qed

text \<open>
  A build without signatures, and a state in which the loops go on. \<open>is_app\<close>: the image is not at an
  offset of a bootloader, so that its first segment starts with the description of an application.
\<close>

definition unsigned_build :: "image_env \<Rightarrow> bool" where
  "unsigned_build env \<longleftrightarrow> window_ok env \<and> mmu_page_size env mod 8 = 0 \<and> \<not> check_signature env \<and> scheme env = SigNone \<and> sha_start_ok env"

definition going :: "image_state \<Rightarrow> bool" where
  "going s \<longleftrightarrow> \<not> mapped s \<and> checksum s \<noteq> None \<and> fill_obfs (ram_obfs_value s) (random_values s) \<noteq> None"

definition is_app :: "image_env \<Rightarrow> image_state \<Rightarrow> bool" where
  "is_app env s \<longleftrightarrow> \<not> is_bootloader env s (img_start_addr (img s))"

text \<open>The checks of the description at the start of the first segment, of \<open>n\<close> bytes at \<open>da\<close>.\<close>

definition first_piece_ok :: "image_env \<Rightarrow> memory \<Rightarrow> nat \<Rightarrow> nat \<Rightarrow> bool" where
  "first_piece_ok env m da n \<longleftrightarrow>
     (has_efuse_blk_version env \<longrightarrow> bootloader_common_check_efuse_blk_validity (image_efuses env) (rd16 m (da + 176)) (rd16 m (da + 178)) = ESP_OK)
     \<and> (image_anti_rollback env \<longrightarrow> 8 \<le> n \<and> rd32 m da = ESP_APP_DESC_MAGIC_WORD)"

definition has_version :: "image_env \<Rightarrow> image_state \<Rightarrow> nat \<Rightarrow> bool \<Rightarrow> bool" where
  "has_version env s i st \<longleftrightarrow> image_anti_rollback env \<and> i = 0 \<and> st \<and> is_app env s"

lemma piece_facts:
  assumes p: "process_segment_data env i la da n dl st s = Some (ESP_OK, s')" and c: "checksum s \<noteq> None"
  shows "i = 0 \<and> st \<and> is_app env s \<longrightarrow> first_piece_ok env (bl_view s) da n"
    and "img_secure_version (img s') = (if has_version env s i st then rd32 (bl_view s) (da + 4) else img_secure_version (img s))"
proof -
  have mm: "bootloader_mmap env da n s = (Some da, s\<lparr> mapped := True \<rparr>)"
    using p c mmap_cases [of env da n s] by (auto simp: process_segment_data_def)
  obtain v rs where f: "fill_obfs (ram_obfs_value s) (random_values s) = Some (v, rs)"
    using p c mm by (auto simp: process_segment_data_def Let_def split: Option.bind_splits if_splits)
  have w: "img (segment_words m src dest dl k t) = img t" for m src dest k t
  proof -
    have "img (fold (segment_word m src dest dl k) xs t) = img t" for xs
      by (induction xs arbitrary: t) (simp_all add: segment_word_def sha_data_def xor_checksum_def Let_def split: option.splits)
    then show ?thesis by (simp add: segment_words_def)
  qed
  have b: "is_bootloader env (s\<lparr> mapped := True, ram_obfs_value := v, random_values := rs \<rparr>) x = is_bootloader env s x" for x by (simp add: is_bootloader_def)
  show "i = 0 \<and> st \<and> is_app env s \<longrightarrow> first_piece_ok env (bl_view s) da n"
    using p c mm f b by (auto simp: process_segment_data_def process_esp_app_desc_data_def first_piece_ok_def is_app_def bl_view_def Let_def split: if_splits)
  have "img_secure_version (img (sha_data bs (xor_checksum x t))) = img_secure_version (img t)" for bs x t
    by (simp add: sha_data_def xor_checksum_def split: option.splits)
  then show "img_secure_version (img s') = (if has_version env s i st then rd32 (bl_view s) (da + 4) else img_secure_version (img s))"
    using p c mm f b w by (auto simp: process_segment_data_def process_esp_app_desc_data_def has_version_def is_app_def bootloader_munmap_def bl_view_def Let_def split: if_splits)
qed

lemma piece_returns:
  assumes b: "unsigned_build env" and g: "going s" and n: "da mod mmu_page_size env + n \<le> mmap_mmu_size env" "n mod 4 = 0"
    and d: "i = 0 \<and> st \<and> is_app env s \<longrightarrow> first_piece_ok env (bl_view s) da n"
  shows "\<exists>s'. process_segment_data env i la da n dl st s = Some (ESP_OK, s') \<and> going s' \<and> same_flash s s'"
proof -
  obtain v rs where f: "fill_obfs (ram_obfs_value s) (random_values s) = Some (v, rs)" using g by (auto simp: going_def)
  have m: "bootloader_mmap env da n s = (Some da, s\<lparr> mapped := True \<rparr>)" using b g n by (intro mmap_in_window) (simp_all add: unsigned_build_def going_def)
  have c: "checksum s \<noteq> None" using g by (simp add: going_def)
  have ap: "is_app env s \<longleftrightarrow> \<not> is_bootloader env (s\<lparr> mapped := True, ram_obfs_value := v, random_values := rs \<rparr>) (img_start_addr (img s))"
    by (simp add: is_app_def is_bootloader_def)
  have "\<exists>s'. process_segment_data env i la da n dl st s = Some (ESP_OK, s')"
  proof (cases "i = 0 \<and> st \<and> is_app env s")
    case True
    then show ?thesis using d c ap
      by (cases "has_efuse_blk_version env"; cases "image_anti_rollback env")
        (simp_all add: process_segment_data_def process_esp_app_desc_data_def first_piece_ok_def bl_view_def m f Let_def)
  next
    case False
    then show ?thesis using c ap by (auto simp: process_segment_data_def m f Let_def)
  qed
  then obtain s' where p: "process_segment_data env i la da n dl st s = Some (ESP_OK, s')" by blast
  have "piece (image_anti_rollback env \<and> i = 0 \<and> st) dl la da n s s'" using g by (intro piece_ok [OF p _ n(2)]) (simp add: going_def)
  then have q: "\<not> mapped s'" "checksum s' \<noteq> None" "ram_obfs_value s' = v" "random_values s' = rs" "same_flash s s'" using g f by (auto simp: piece_def fed_def going_def)
  then have "going s'" using fill_obfs_nonzero [OF f] fill_obfs_stable [of v rs] by (simp add: going_def)
  then show ?thesis using p q(5) by blast
qed

lemma first_piece_len:
  assumes "mmu_page_size env mod 8 = 0" "n mod 4 = 0" "n < 2 ^ 32" "piece_len env da n \<noteq> 0"
  shows "first_piece_ok env m da (piece_len env da n) \<longleftrightarrow> first_piece_ok env m da n"
proof -
  let ?k = "piece_len env da n"
  have "?k = n \<or> 8 \<le> ?k"
  proof (cases "?k = n")
    case False
    then have "even (?k div 4)" "?k mod 4 = 0" using piece_len_props [OF assms(1-3), of da] by auto
    then obtain q where "?k = 4 * (2 * q)" by (auto elim!: evenE)
    then show ?thesis using assms(4) by simp
  qed simp
  then show ?thesis using piece_len_props(2) [OF assms(1-3), of da] by (auto simp: first_piece_ok_def)
qed

lemma same_flash_app: "same_flash s s' \<Longrightarrow> is_app env s' = is_app env s"
  by (auto simp: same_flash_def is_app_def is_bootloader_def)

lemma segment_loop_returns:
  assumes b: "unsigned_build env" and "going s" "n mod 4 = 0" "n < 2 ^ 32" and "i = 0 \<and> st \<and> is_app env s \<and> n \<noteq> 0 \<longrightarrow> first_piece_ok env (bl_view s) da n"
  shows "\<exists>s'. segment_loop env i la da n dl st s = Some (ESP_OK, s') \<and> going s'"
  using assms(2-)
proof (induction n arbitrary: la da st s rule: less_induct)
  case (less n)
  show ?case
  proof (cases "n = 0")
    case True
    then show ?thesis using less.prems by (simp add: segment_loop_unfold [of _ _ _ _ 0])
  next
    case False
    have w: "window_ok env" "mmu_page_size env mod 8 = 0" "\<not> check_signature env" using b by (simp_all add: unsigned_build_def)
    let ?k = "piece_len env da n"
    note f = piece_in_window(1) [OF w(1), of da n] piece_in_window(2) [OF w(1), of n da] piece_in_window(3) [OF w(1), of da] and k = piece_len_props [OF w(2) less.prems(2,3), of da]
    have "i = 0 \<and> st \<and> is_app env s \<longrightarrow> first_piece_ok env (bl_view s) da ?k" using less.prems(4) first_piece_len [OF w(2) less.prems(2,3) f(2)] False by blast
    then obtain s1 where s1: "process_segment_data env i la da ?k dl st s = Some (ESP_OK, s1)" "going s1"
      using piece_returns [OF b less.prems(1) f(1) k(1)] by blast
    have "(n - ?k) mod 4 = 0" using less.prems(2) k(1) by (simp add: mod_0_imp_dvd)
    then obtain s' where "segment_loop env i (add32 la ?k) (add32 da ?k) (n - ?k) dl False s1 = Some (ESP_OK, s') \<and> going s'"
      using less.IH [of "n - ?k" s1] f(2) [OF False] k(2) less.prems(3) s1(2) False by fastforce
    then show ?thesis using s1(1) f(3) w(3) False by (simp add: segment_loop_unfold [of env i la da n])
  qed
qed

lemma segment_loop_facts:
  assumes l: "segment_loop env i la da n dl st s = Some (ESP_OK, s')" and c: "checksum s \<noteq> None" and n: "n mod 4 = 0" "n < 2 ^ 32" and page: "mmu_page_size env mod 8 = 0"
  shows "(i = 0 \<and> st \<and> is_app env s \<and> n \<noteq> 0 \<longrightarrow> first_piece_ok env (bl_view s) da n)
    \<and> img_secure_version (img s') = (if has_version env s i st \<and> n \<noteq> 0 then rd32 (bl_view s) (da + 4) else img_secure_version (img s))"
  using l c n
proof (induction n arbitrary: la da st s rule: less_induct)
  case (less n)
  show ?case
  proof (cases "n = 0")
    case True
    then show ?thesis using less.prems by (simp add: segment_loop_unfold [of _ _ _ _ 0])
  next
    case False
    let ?k = "piece_len env da n"
    obtain s1 where p: "process_segment_data env i la da ?k dl st s = Some (ESP_OK, s1)"
      and r: "segment_loop env i (add32 la ?k) (add32 da ?k) (n - ?k) dl False s1 = Some (ESP_OK, s')" and k0: "?k \<noteq> 0"
      using segment_loop_step [OF less.prems(1) False] by blast
    note k = piece_len_props [OF page less.prems(3,4), of da] and pf = piece_facts [OF p less.prems(2)]
    have "piece (image_anti_rollback env \<and> i = 0 \<and> st) dl la da ?k s s1" by (rule piece_ok [OF p less.prems(2) k(1)])
    then have "checksum s1 \<noteq> None" using less.prems(2) by (auto simp: piece_def fed_def)
    moreover have "(n - ?k) mod 4 = 0" "n - ?k < n" "n - ?k < 2 ^ 32" using less.prems(3,4) k(1,2) k0 False by (auto simp: mod_0_imp_dvd)
    ultimately have "img_secure_version (img s') = img_secure_version (img s1)" using less.IH [OF _ r] by (simp add: has_version_def)
    then show ?thesis using pf first_piece_len [OF page less.prems(3,4) k0] False by auto
  qed
qed

section \<open>Segments and images that are accepted\<close>

text \<open>
  The size of the MMU page: a constant of the target, or, where it is configurable, the one in the
  description of the application. \<open>seg_page\<close> is the size that a segment is checked against.
\<close>

definition image_page :: "image_env \<Rightarrow> bool \<Rightarrow> memory \<Rightarrow> nat \<Rightarrow> nat" where
  "image_page env app m da =
     (let n = unat (rd32 m (da + 180)) mod 256 in
      if mmu_page_size_configurable env \<and> app \<and> n > 0 then 2 ^ n else mmu_page_size env)"

definition page_desc_ok :: "image_env \<Rightarrow> bool \<Rightarrow> memory \<Rightarrow> nat \<Rightarrow> bool" where
  "page_desc_ok env app m da \<longleftrightarrow>
     (mmu_page_size_configurable env \<and> app \<longrightarrow> rd32 m da = ESP_APP_DESC_MAGIC_WORD \<and> unat (rd32 m (da + 180)) mod 256 < 32)"

definition seg_page :: "image_env \<Rightarrow> nat \<Rightarrow> nat \<Rightarrow> image_state \<Rightarrow> nat" where
  "seg_page env i da s =
     (if mmu_page_size_configurable env \<and> i \<noteq> 0 then img_mmu_page_size (img s) else image_page env (is_app env s) (bl_view s) da)"

definition segment_accepted :: "image_env \<Rightarrow> bool \<Rightarrow> nat \<Rightarrow> nat \<Rightarrow> esp_image_segment_header_t \<Rightarrow> bool" where
  "segment_accepted env dl page data_addr h \<longleftrightarrow> segment_fits env h
     \<and> (should_map env (seg_load_addr h) \<longrightarrow> data_addr mod page = seg_load_addr h mod page)
     \<and> (dl \<and> should_load env (seg_load_addr h) \<and> seg_data_len h > 0 \<longrightarrow>
          verify_load_addresses (soc env) (seg_load_addr h) (add32 (seg_load_addr h) (seg_data_len h)) False = Some True)"

text \<open>What the first segment has to hold, of \<open>n\<close> bytes at \<open>da\<close>.\<close>

definition first_segment_ok :: "image_env \<Rightarrow> bool \<Rightarrow> memory \<Rightarrow> nat \<Rightarrow> nat \<Rightarrow> bool" where
  "first_segment_ok env app m da n \<longleftrightarrow> page_desc_ok env app m da \<and> (app \<and> n \<noteq> 0 \<longrightarrow> first_piece_ok env m da n)"

lemma bl_read_aligned:
  assumes "a mod 4 = 0" "n mod 4 = 0" "a + n < 2 ^ 32"
  shows "bootloader_flash_read a n True True s = ((ESP_OK, rd_bytes (bl_view s) a n), s)"
proof -
  obtain bs where "bootloader_flash_read a n True True s = ((ESP_OK, bs), s)"
    using assms by (auto simp: bootloader_flash_read_def bootloader_flash_read_allow_decrypt_def)
  then show ?thesis using bl_read_ok [of a n True s bs s] assms(3) by simp
qed

lemma rd32_list: "rd32 (\<lambda>i. rd_bytes m a 4 ! i) 0 = rd32 m a"
  by (simp add: rd32_def rd_bytes_def ac_simps)

lemma set_mmu_page_size_iff:
  assumes "da mod 4 = 0" and "i = 0 \<longrightarrow> da + 200 < 2 ^ 32"
  shows "set_mmu_page_size env i da s = Some (ESP_OK, s') \<longleftrightarrow>
    (i = 0 \<longrightarrow> page_desc_ok env (is_app env s) (bl_view s) da) \<and> s' = s\<lparr> img := (img s)\<lparr> img_mmu_page_size := seg_page env i da s \<rparr> \<rparr>"
proof (cases "mmu_page_size_configurable env \<and> i = 0 \<and> is_app env s")
  case True
  then have b: "da + 200 < 2 ^ 32" "add32 da 180 = da + 180" "(da + 180) mod 4 = 0" using assms by (auto simp: add32_def mod_0_imp_dvd)
  have r: "bootloader_flash_read da 4 True True s = ((ESP_OK, rd_bytes (bl_view s) da 4), s)"
    "bootloader_flash_read (da + 180) 4 True True s = ((ESP_OK, rd_bytes (bl_view s) (da + 180) 4), s)" using assms(1) b by (auto intro!: bl_read_aligned)
  show ?thesis using True
    by (auto simp: set_mmu_page_size_def seg_page_def image_page_def page_desc_ok_def is_app_def b(2) r rd32_list Let_def)
next
  case False
  then show ?thesis by (auto simp: set_mmu_page_size_def seg_page_def image_page_def page_desc_ok_def is_app_def Let_def)
qed

lemma verify_segment_header_iff:
  assumes "da mod 4 = 0" and "i = 0 \<longrightarrow> da + 200 < 2 ^ 32"
  shows "verify_segment_header env i h da s = Some (ESP_OK, s') \<longleftrightarrow> segment_fits env h
    \<and> (i = 0 \<longrightarrow> page_desc_ok env (is_app env s) (bl_view s) da)
    \<and> (should_map env (seg_load_addr h) \<longrightarrow> da mod seg_page env i da s = seg_load_addr h mod seg_page env i da s)
    \<and> s' = s\<lparr> img := (img s)\<lparr> img_mmu_page_size := seg_page env i da s \<rparr> \<rparr>"
  by (auto simp: verify_segment_header_def check_err_ok set_mmu_page_size_iff [OF assms] segment_fits_def Let_def not_less [symmetric])

text \<open>The state after the header of a segment has been read.\<close>

definition header_read :: "nat \<Rightarrow> image_state \<Rightarrow> image_state" where
  "header_read fa s = sha_data (rd_bytes (bl_view s) fa 8) (s\<lparr> img := (img s)\<lparr> img_segments := img_segments (img s) @ [rd_segment_header (bl_view s) fa] \<rparr> \<rparr>)"

lemma header_read_keeps:
  "bl_view (header_read fa s) = bl_view s" "is_app env (header_read fa s) = is_app env s" "going (header_read fa s) = going s"
  "checksum (header_read fa s) = checksum s" "img_secure_version (img (header_read fa s)) = img_secure_version (img s)"
  "seg_page env i da (header_read fa s) = seg_page env i da s"
  by (cases "sha_handle s"; simp add: header_read_def sha_data_def bl_view_def is_app_def is_bootloader_def going_def seg_page_def)+

lemma process_segment_steps:
  assumes fa: "fa + 8 < 2 ^ 32" "i = 0 \<longrightarrow> fa + 8 + 200 < 2 ^ 32"
  defines "h s \<equiv> rd_segment_header (bl_view s) fa"
  shows "process_segment env i fa dl s = Some (ESP_OK, s') \<longleftrightarrow> fa mod 4 = 0
    \<and> segment_accepted env dl (seg_page env i (fa + 8) s) (fa + 8) (h s) \<and> (i = 0 \<longrightarrow> page_desc_ok env (is_app env s) (bl_view s) (fa + 8))
    \<and> segment_loop env i (seg_load_addr (h s)) (fa + 8) (seg_data_len (h s)) (dl \<and> should_load env (seg_load_addr (h s))) True
        ((header_read fa s)\<lparr> img := (img (header_read fa s))\<lparr> img_mmu_page_size := seg_page env i (fa + 8) s \<rparr> \<rparr>) = Some (ESP_OK, s')"
proof (cases "fa mod 4 = 0")
  case True
  then have da: "(fa + 8) mod 4 = 0" by (simp add: mod_0_imp_dvd)
  have a: "add32 fa 8 = fa + 8" using fa(1) by (rule add32_exact)
  have r: "bootloader_flash_read fa 8 True True s = ((ESP_OK, rd_bytes (bl_view s) fa 8), s)" using True fa(1) by (intro bl_read_aligned) simp_all
  let ?t = "header_read fa s" and ?n = "seg_data_len (h s)" and ?la = "seg_load_addr (h s)"
  have eq: "process_segment env i fa dl s = check_err (verify_segment_header env i (h s) (fa + 8))
     (\<lambda>s3. if ?n mod 4 \<noteq> 0 then Some (ESP_ERR_IMAGE_INVALID, s3)
       else do {
         ok \<leftarrow> (if (dl \<and> should_load env ?la) \<and> ?n > 0 then verify_load_addresses (soc env) ?la (add32 ?la ?n) False else Some True);
         if \<not> ok then Some (ESP_ERR_IMAGE_INVALID, s3)
         else segment_loop env i ?la (fa + 8) ?n (dl \<and> should_load env ?la) True s3
       }) ?t"
    unfolding process_segment_def r prod.case Let_def rd_segment_header_list a header_read_def h_def by simp
  have bind: "do { ok \<leftarrow> x; if \<not> ok then Some (ESP_ERR_IMAGE_INVALID, s3) else r } = Some (ESP_OK, s') \<longleftrightarrow> x = Some True \<and> r = Some (ESP_OK, s')" for x s3 r
    by (auto split: Option.bind_splits)
  show ?thesis using True
    unfolding eq check_err_ok verify_segment_header_iff [OF da fa(2)] header_read_keeps segment_accepted_def segment_fits_def
    by (auto simp: bind)
next
  case False
  then have "bootloader_flash_read fa 8 True True s \<noteq> ((ESP_OK, bs), t)" for bs t by (auto simp: bootloader_flash_read_def)
  then have "process_segment env i fa dl s \<noteq> Some (ESP_OK, s')" by (auto simp: process_segment_def split: prod.splits)
  then show ?thesis using False by simp
qed

lemma process_segment_returns:
  assumes b: "unsigned_build env" and g: "going s" and fa: "fa mod 4 = 0" "fa + 8 + image_max_size env < 2 ^ 32" "i = 0 \<longrightarrow> fa + 8 + 200 < 2 ^ 32"
    and h: "segment_accepted env dl (seg_page env i (fa + 8) s) (fa + 8) (rd_segment_header (bl_view s) fa)"
    and d: "i = 0 \<longrightarrow> first_segment_ok env (is_app env s) (bl_view s) (fa + 8) (seg_data_len (rd_segment_header (bl_view s) fa))"
  shows "\<exists>s'. process_segment env i fa dl s = Some (ESP_OK, s') \<and> going s'"
proof -
  let ?h = "rd_segment_header (bl_view s) fa" and ?t = "header_read fa s"
  let ?s3 = "?t\<lparr> img := (img ?t)\<lparr> img_mmu_page_size := seg_page env i (fa + 8) s \<rparr> \<rparr>"
  have fit: "seg_data_len ?h mod 4 = 0" "seg_data_len ?h < 2 ^ 32" using h fa(2) by (simp_all add: segment_accepted_def segment_fits_def)
  have k: "going ?s3" "bl_view ?s3 = bl_view s" "is_app env ?s3 = is_app env s"
    using g header_read_keeps(1,3) [of fa s] header_read_keeps(2) [of env fa s] by (simp_all add: going_def bl_view_def is_app_def is_bootloader_def)
  obtain s' where l: "segment_loop env i (seg_load_addr ?h) (fa + 8) (seg_data_len ?h) (dl \<and> should_load env (seg_load_addr ?h)) True ?s3 = Some (ESP_OK, s')" "going s'"
    using segment_loop_returns [OF b k(1) fit, of i True "fa + 8", unfolded k(2,3)] d unfolding first_segment_ok_def by blast
  have "fa + 8 < 2 ^ 32" using fa(2) by simp
  from process_segment_steps [OF this fa(3)] show ?thesis using l fa(1) h d by (auto simp: first_segment_ok_def)
qed

lemma process_segment_facts:
  assumes p: "process_segment env i fa dl s = Some (ESP_OK, s')" and c: "checksum s \<noteq> None" and page: "mmu_page_size env mod 8 = 0" and map: "\<not> mapped s"
    and fa: "fa + 8 + image_max_size env < 2 ^ 32" "i = 0 \<longrightarrow> fa + 8 + 200 < 2 ^ 32"
  defines "h \<equiv> rd_segment_header (bl_view s) fa"
  shows "segment_accepted env dl (seg_page env i (fa + 8) s) (fa + 8) h"
    and "i = 0 \<longrightarrow> first_segment_ok env (is_app env s) (bl_view s) (fa + 8) (seg_data_len h)"
    and "img_mmu_page_size (img s') = seg_page env i (fa + 8) s"
    and "img_secure_version (img s') = (if has_version env s i True \<and> seg_data_len h \<noteq> 0 then rd32 (bl_view s) (fa + 12) else img_secure_version (img s))"
proof -
  let ?t = "header_read fa s"
  let ?s3 = "?t\<lparr> img := (img ?t)\<lparr> img_mmu_page_size := seg_page env i (fa + 8) s \<rparr> \<rparr>"
  have "fa + 8 < 2 ^ 32" using fa(1) by simp
  note st = process_segment_steps [OF this fa(2), of env dl s s', folded h_def]
  have acc: "segment_accepted env dl (seg_page env i (fa + 8) s) (fa + 8) h" and pd: "i = 0 \<longrightarrow> page_desc_ok env (is_app env s) (bl_view s) (fa + 8)"
    and l: "segment_loop env i (seg_load_addr h) (fa + 8) (seg_data_len h) (dl \<and> should_load env (seg_load_addr h)) True ?s3 = Some (ESP_OK, s')"
    using p st by blast+
  show "segment_accepted env dl (seg_page env i (fa + 8) s) (fa + 8) h" by (rule acc)
  have fit: "seg_data_len h mod 4 = 0" "seg_data_len h < 2 ^ 32" "fa + 8 + seg_data_len h < 2 ^ 32" using acc fa(1) by (simp_all add: segment_accepted_def segment_fits_def)
  have k: "checksum ?s3 \<noteq> None" "bl_view ?s3 = bl_view s" "is_app env ?s3 = is_app env s" "has_version env ?s3 i True = has_version env s i True"
    "img_secure_version (img ?s3) = img_secure_version (img s)"
    using c header_read_keeps(1,4,5) [of fa s] header_read_keeps(2) [of env fa s] by (simp_all add: bl_view_def is_app_def is_bootloader_def has_version_def)
  have m3: "\<not> mapped ?s3" using map by (cases "sha_handle s") (simp_all add: header_read_def sha_data_def)
  note f = segment_loop_facts [OF l k(1) fit(1,2) page, unfolded k(2-)]
  show "i = 0 \<longrightarrow> first_segment_ok env (is_app env s) (bl_view s) (fa + 8) (seg_data_len h)" using f pd by (auto simp: first_segment_ok_def)
  show "img_secure_version (img s') = (if has_version env s i True \<and> seg_data_len h \<noteq> 0 then rd32 (bl_view s) (fa + 12) else img_secure_version (img s))"
    using f by (simp add: add.commute)
  have "loaded (image_anti_rollback env \<and> i = 0 \<and> True) (dl \<and> should_load env (seg_load_addr h)) (seg_load_addr h) (fa + 8) (seg_data_len h) ?s3 s'"
    by (rule segment_loop_ok [OF l k(1) fit(1) page fit(3) m3])
  then show "img_mmu_page_size (img s') = seg_page env i (fa + 8) s" by (auto simp: loaded_def same_flash_def)
qed

fun segs_accepted :: "image_env \<Rightarrow> bool \<Rightarrow> nat \<Rightarrow> nat \<Rightarrow> esp_image_segment_header_t list \<Rightarrow> bool" where
  "segs_accepted env dl page a [] \<longleftrightarrow> True"
| "segs_accepted env dl page a (h # hs) \<longleftrightarrow> segment_accepted env dl page (a + 8) h \<and> segs_accepted env dl page (a + 8 + seg_data_len h) hs"

text \<open>Of the description at the start of the first segment: whether it is accepted, and the secure version that is read.\<close>

fun desc_accepted :: "image_env \<Rightarrow> bool \<Rightarrow> memory \<Rightarrow> nat \<Rightarrow> esp_image_segment_header_t list \<Rightarrow> bool" where
  "desc_accepted env app m a [] \<longleftrightarrow> True"
| "desc_accepted env app m a (h # hs) \<longleftrightarrow> first_segment_ok env app m (a + 8) (seg_data_len h)"

fun desc_version :: "image_env \<Rightarrow> bool \<Rightarrow> memory \<Rightarrow> nat \<Rightarrow> esp_image_segment_header_t list \<Rightarrow> u32" where
  "desc_version env app m a [] = 0"
| "desc_version env app m a (h # hs) = (if image_anti_rollback env \<and> app \<and> seg_data_len h \<noteq> 0 then rd32 m (a + 12) else 0)"

lemma segments_loop_step:
  assumes p: "process_segment env i a dl s = Some (ESP_OK, s1)" and "checksum s \<noteq> None" "\<not> mapped s" "mmu_page_size env mod 8 = 0"
    and fa: "a + 8 + image_max_size env < 2 ^ 32" "i = 0 \<longrightarrow> a + 8 + 200 < 2 ^ 32" and i: "length (img_segments (img s)) = i"
  defines "h \<equiv> rd_segment_header (bl_view s) a" and "t \<equiv> s1\<lparr> img := (img s1)\<lparr> img_segment_data := img_segment_data (img s1) @ [a + 8] \<rparr> \<rparr>"
  shows "segments_loop env dl i (Suc n) a s = segments_loop env dl (Suc i) n (a + 8 + seg_data_len h) t"
    and "checksum t \<noteq> None" "\<not> mapped t" "bl_view t = bl_view s" "length (img_segments (img t)) = Suc i" "is_app env t = is_app env s"
    and "seg_page env (Suc i) x t = seg_page env i (a + 8) s" "img_secure_version (img t) = img_secure_version (img s1)"
proof -
  have "segment_done env (image_anti_rollback env \<and> i = 0) dl a s s1" by (rule process_segment_ok [OF p assms(2,4) fa(1) assms(3)])
  note d = segment_done_parts [OF this h_def [THEN meta_eq_to_obj_eq]] and f = process_segment_facts [OF p assms(2,4,3) fa]
  have fit: "seg_data_len h < image_max_size env" using f(1) by (simp add: segment_accepted_def segment_fits_def h_def)
  have seg: "img_segments (img s1) = img_segments (img s) @ [h]" using d(5) by auto
  have a8: "add32 a 8 = a + 8" "add32 (a + 8) (seg_data_len h) = a + 8 + seg_data_len h" using fa fit by (auto intro!: add32_exact)
  show "segments_loop env dl i (Suc n) a s = segments_loop env dl (Suc i) n (a + 8 + seg_data_len h) t"
    using p i seg a8 by (simp add: Let_def nth_append t_def)
  show "length (img_segments (img t)) = Suc i" "img_secure_version (img t) = img_secure_version (img s1)" using seg i by (simp_all add: t_def)
  show "bl_view t = bl_view s" using kept_view [OF d(1)] by (simp add: bl_view_def t_def)
  show "checksum t \<noteq> None" "\<not> mapped t" using d(2,3) assms(2) by (auto simp: t_def fed_def)
  have "img_start_addr (img s1) = img_start_addr (img s)" "bootloader_partition_offset s1 = bootloader_partition_offset s" using d(1,5) by (auto simp: kept_def)
  then show "is_app env t = is_app env s" by (simp add: is_app_def is_bootloader_def t_def)
  show "seg_page env (Suc i) x t = seg_page env i (a + 8) s" using f(3) by (auto simp: seg_page_def t_def image_page_def Let_def)
qed

lemma segments_loop_returns:
  assumes b: "unsigned_build env" and "going s" "length (img_segments (img s)) = i"
    and "segs_at (bl_view s) a hs" "segs_accepted env dl page a hs" "a mod 4 = 0" "a + length hs * (8 + image_max_size env) < 2 ^ 32"
    and "hs \<noteq> [] \<longrightarrow> seg_page env i (a + 8) s = page" and "i = 0 \<longrightarrow> a + 8 + 200 < 2 ^ 32 \<and> desc_accepted env (is_app env s) (bl_view s) a hs"
  shows "\<exists>e s'. segments_loop env dl i (length hs) a s = Some ((ESP_OK, e), s') \<and> going s' \<and> e = a + segs_len hs"
  using assms(2-)
proof (induction hs arbitrary: i a s)
  case (Cons h hs)
  let ?m = "bl_view s" and ?n = "seg_data_len h"
  have h: "h = rd_segment_header ?m a" "segs_at ?m (a + 8 + ?n) hs" "segment_accepted env dl page (a + 8) h" "segs_accepted env dl page (a + 8 + ?n) hs"
    using Cons.prems(3,4) unfolding segs_at.simps segs_accepted.simps by blast+
  have fa: "a + 8 + image_max_size env < 2 ^ 32" "i = 0 \<longrightarrow> a + 8 + 200 < 2 ^ 32" using Cons.prems(6,8) by simp_all
  have pg: "seg_page env i (a + 8) s = page" using Cons.prems(7) by simp
  have fit: "?n < image_max_size env" "?n mod 4 = 0" using h(3) by (simp_all add: segment_accepted_def segment_fits_def)
  obtain s1 where p: "process_segment env i a dl s = Some (ESP_OK, s1)" "going s1"
    using process_segment_returns [OF b Cons.prems(1,5) fa, of dl] h(1,3) pg Cons.prems(8) by auto
  have w: "checksum s \<noteq> None" "\<not> mapped s" "mmu_page_size env mod 8 = 0" using Cons.prems(1) b by (simp_all add: going_def unsigned_build_def)
  note t = segments_loop_step [OF p(1) w fa Cons.prems(2), folded h(1)]
  let ?t = "s1\<lparr> img := (img s1)\<lparr> img_segment_data := img_segment_data (img s1) @ [a + 8] \<rparr> \<rparr>"
  have g: "going ?t" using p(2) by (simp add: going_def)
  have "(a + 8 + ?n) mod 4 = 0" using Cons.prems(5) fit(2) by (simp add: mod_0_imp_dvd)
  moreover have "a + 8 + ?n + length hs * (8 + image_max_size env) < 2 ^ 32" using Cons.prems(6) fit(1) by simp
  ultimately obtain e s' where "segments_loop env dl (Suc i) (length hs) (a + 8 + ?n) ?t = Some ((ESP_OK, e), s') \<and> going s' \<and> e = a + 8 + ?n + segs_len hs"
    using Cons.IH [OF g t(5), of "a + 8 + ?n"] h(2,4) t(4,7) pg by auto
  then show ?case unfolding length_Cons t(1) by auto
qed simp

lemma segs_at_unique: "segs_at m a hs \<Longrightarrow> segs_at m a gs \<Longrightarrow> length hs = length gs \<Longrightarrow> hs = gs"
proof (induction hs arbitrary: a gs)
  case (Cons h hs)
  then obtain g gs' where g: "gs = g # gs'" by (cases gs) auto
  have "h = g" using Cons.prems g by simp
  then show ?case using Cons.prems g Cons.IH [of "a + 8 + seg_data_len h" gs'] by auto
qed simp

lemma segments_loop_accepts:
  assumes "segments_loop env dl i (length hs) a s = Some ((ESP_OK, e), s')" and "checksum s \<noteq> None" "\<not> mapped s" "length (img_segments (img s)) = i"
    and "segs_at (bl_view s) a hs" "a + length hs * (8 + image_max_size env) < 2 ^ 32"
    and "hs \<noteq> [] \<longrightarrow> seg_page env i (a + 8) s = page" "i = 0 \<longrightarrow> a + 8 + 200 < 2 ^ 32" and pg: "mmu_page_size env mod 8 = 0"
  shows "segs_accepted env dl page a hs \<and> (i = 0 \<longrightarrow> desc_accepted env (is_app env s) (bl_view s) a hs)
    \<and> (i = 0 \<and> img_secure_version (img s) = 0 \<longrightarrow> img_secure_version (img s') = desc_version env (is_app env s) (bl_view s) a hs)
    \<and> (i \<noteq> 0 \<longrightarrow> img_secure_version (img s') = img_secure_version (img s))"
  using assms(1-8)
proof (induction hs arbitrary: i a s)
  case (Cons h hs)
  let ?m = "bl_view s" and ?n = "seg_data_len h"
  have h: "h = rd_segment_header ?m a" "segs_at ?m (a + 8 + ?n) hs" using Cons.prems(5) unfolding segs_at.simps by blast+
  have fa: "a + 8 + image_max_size env < 2 ^ 32" "i = 0 \<longrightarrow> a + 8 + 200 < 2 ^ 32" using Cons.prems(6,8) by simp_all
  obtain s1 where p: "process_segment env i a dl s = Some (ESP_OK, s1)"
    using Cons.prems(1) by (auto simp: Let_def split: Option.bind_splits if_splits)
  note f = process_segment_facts [OF p Cons.prems(2) pg Cons.prems(3) fa, folded h(1)]
    and t = segments_loop_step [OF p Cons.prems(2,3) pg fa Cons.prems(4), folded h(1)]
  let ?t = "s1\<lparr> img := (img s1)\<lparr> img_segment_data := img_segment_data (img s1) @ [a + 8] \<rparr> \<rparr>"
  have page: "seg_page env i (a + 8) s = page" using Cons.prems(7) by simp
  then have acc: "segment_accepted env dl page (a + 8) h" using f(1) by simp
  then have "?n < image_max_size env" by (simp add: segment_accepted_def segment_fits_def)
  then have "a + 8 + ?n + length hs * (8 + image_max_size env) < 2 ^ 32" using Cons.prems(6) by simp
  moreover have "segments_loop env dl (Suc i) (length hs) (a + 8 + ?n) ?t = Some ((ESP_OK, e), s')" using Cons.prems(1) unfolding length_Cons t(1) .
  ultimately have "segs_accepted env dl page (a + 8 + ?n) hs \<and> img_secure_version (img s') = img_secure_version (img ?t)"
    using Cons.IH [of "Suc i" "a + 8 + ?n" ?t] t(2-5,7) page h(2) by auto
  then show ?case using acc f(2,4) by (auto simp: has_version_def)
qed simp

text \<open>
  An image as the build tools write it, for a build without signatures: the conditions on the image
  itself, those on the description of an application, and the digest, which is not checked for a
  bootloader image unless secure boot V2 is enabled.
\<close>

definition good_image :: "image_env \<Rightarrow> bool \<Rightarrow> image_state \<Rightarrow> esp_partition_pos_t \<Rightarrow> esp_image_segment_header_t list \<Rightarrow> bool" where
  "good_image env dl s part hs \<longleftrightarrow>
     (let m = bl_view s; a = pos_offset part; hdr = rd_header m a; n = image_size hs; app = (\<not> is_bootloader env s a) in
      pos_size part \<le> image_max_size env \<and> a mod 4 = 0 \<and> low_flash env part \<and> verify_image_header env s a hdr = ESP_OK
      \<and> length hs = hdr_segment_count hdr \<and> segs_at m (a + 24) hs \<and> segs_accepted env dl (image_page env app m (a + 32)) (a + 24) hs
      \<and> desc_accepted env app m (a + 24) hs
      \<and> (dl \<and> image_anti_rollback env \<longrightarrow>
           esp_efuse_check_secure_version (image_sec_ver_size env) (image_sec_version env) (unat (desc_version env app m (a + 24) hs)))
      \<and> checksum_byte (0xEF XOR segs_xor m (a + 24) hs) = m (a + n - 1)
      \<and> n + (if hdr_hash_appended hdr then 32 else 0) \<le> pos_size part
      \<and> (hdr_hash_appended hdr \<and> verify_sha_of env s part \<longrightarrow> image_sha256 env (rd_bytes m a n) = rd_bytes m (a + n) 32))"

lemma verify_image_header_cong: "bootloader_partition_offset s' = bootloader_partition_offset s \<Longrightarrow> verify_image_header env s' a hdr = verify_image_header env s a hdr"
  by (simp add: verify_image_header_def is_bootloader_def)

lemma header_returns:
  assumes "unsigned_build env" "a mod 4 = 0" "a + 24 < 2 ^ 32" and v: "verify_image_header env s a (rd_header (bl_view s) a) = ESP_OK"
  shows "\<exists>s'. process_image_header env a vs True s = Some (ESP_OK, s')"
proof -
  have r: "bootloader_flash_read a 24 True True (s\<lparr> img := x \<rparr>) = ((ESP_OK, rd_bytes (bl_view s) a 24), s\<lparr> img := x \<rparr>)" for x
    using bl_read_aligned [of a 24 "s\<lparr> img := x \<rparr>"] assms(2,3) by (simp add: bl_view_def)
  have "verify_image_header env s' a (rd_header (bl_view s) a) = ESP_OK" if "bootloader_partition_offset s' = bootloader_partition_offset s" for s'
    using v verify_image_header_cong [OF that] by simp
  then show ?thesis using assms(1) by (simp add: process_image_header_def r rd_header_list unsigned_build_def Let_def)
qed

lemma checksum_returns:
  assumes "img_start_addr (img s) mod 4 = 0" "img_len (img s) mod 4 = 0" "img_start_addr (img s) + img_len (img s) + 32 < 2 ^ 32"
    and c: "checksum s = Some c" "checksum_byte c = bl_view s (img_start_addr (img s) + (img_len (img s) + (16 - img_len (img s) mod 16)) - 1)"
  shows "\<exists>s'. process_checksum False s = Some (ESP_OK, s')"
proof -
  let ?L = "img_len (img s)" and ?a = "img_start_addr (img s)" let ?k = "16 - ?L mod 16"
  have "4 dvd ?L mod 16" using assms(2) by (simp add: dvd_mod_iff mod_0_imp_dvd)
  then obtain q where "?L mod 16 = 4 * q" by (rule dvdE)
  then have "?k = 4 * (4 - q)" by simp
  then have k4: "?k mod 4 = 0" by (simp only: mod_mult_self1_is_0)
  have k: "0 < ?k" "?k \<le> 16" by simp_all
  have e: "add32 ?a ?L = ?a + ?L" "sub32 (align_up 16 (add32 ?L 1)) ?L = ?k" using assms(3) pad_16 [of ?L] by (auto intro!: add32_exact)
  have "(?a + ?L) mod 4 = 0" using assms(1,2) by (simp add: mod_0_imp_dvd)
  then have r: "bootloader_flash_read (?a + ?L) ?k True True s = ((ESP_OK, rd_bytes (bl_view s) (?a + ?L) ?k), s)"
    using k4 assms(3) k by (intro bl_read_aligned) simp_all
  have "rd_bytes (bl_view s) (?a + ?L) ?k ! (?k - 1) = bl_view s (?a + (?L + ?k) - 1)"
    using k by (simp add: rd_bytes_def add.commute)
  then show ?thesis using c unfolding process_checksum_def Let_def e r by simp
qed

lemma appended_returns:
  assumes "scheme env = SigNone" and "(img_start_addr (img s) + img_len (img s)) mod 4 = 0" "img_start_addr (img s) + img_len (img s) + 32 < 2 ^ 32"
    and "img_len (img s) + (if hdr_hash_appended (img_header (img s)) then 32 else 0) \<le> pl"
  shows "\<exists>s'. process_appended_hash_and_sig env po pl True s = Some (ESP_OK, s')"
proof -
  let ?L = "img_len (img s)" and ?a = "img_start_addr (img s)"
  have e: "add32 ?a ?L = ?a + ?L" "add32 ?L 32 = ?L + 32" "add32 (?L + 32) 0 = ?L + 32" "add32 ?L 0 = ?L" using assms(3) by (simp_all only: add32_def) simp_all
  have r: "bootloader_flash_read (?a + ?L) 32 True True s = ((ESP_OK, rd_bytes (bl_view s) (?a + ?L) 32), s)"
    using assms(2,3) by (intro bl_read_aligned) simp_all
  have z: "sig_block_len env bt n = 0" for bt n using assms(1) by (simp add: sig_block_len_def Let_def)
  show ?thesis
    by (cases "hdr_hash_appended (img_header (img s))") (use assms(4) in \<open>simp_all add: process_appended_hash_and_sig_def Let_def e r z\<close>)
qed

lemma parse_returns:
  assumes b: "unsigned_build env" and g: "good_image env dl s part hs" and s: "checksum s = Some 0xEF" "sha_handle s = None" "going s"
  shows "\<exists>s1 s2 s3 s4. process_image_header env (pos_offset part) vs True s = Some (ESP_OK, s1) \<and> process_segments env dl s1 = Some (ESP_OK, s2)
    \<and> process_checksum False s2 = Some (ESP_OK, s3) \<and> process_appended_hash_and_sig env (pos_offset part) (pos_size part) True s3 = Some (ESP_OK, s4)
    \<and> img_segments (img s4) = hs"
proof -
  let ?m = "bl_view s" let ?a = "pos_offset part" let ?hdr = "rd_header ?m ?a" let ?body = "24 + segs_len hs" let ?n = "image_size hs" let ?k = "16 - ?body mod 16"
  note g' = g [unfolded good_image_def Let_def]
  have a: "?a mod 4 = 0" "?a + 24 < 2 ^ 32" using g' by (auto simp: low_flash_def)
  obtain s1 where 1: "process_image_header env ?a vs True s = Some (ESP_OK, s1)" using header_returns [OF b a] g' by blast
  note h1 = process_image_header_ok [OF 1 a(2)]
  have i1: "img s1 = blank_metadata\<lparr> img_start_addr := ?a, img_header := ?hdr, img_len := 24 \<rparr>" "bl_view s1 = ?m" "going s1" "checksum s1 = Some 0xEF"
    unfolding h1(1) using s by (simp_all add: bl_view_def going_def)
  have app: "is_app env s1 \<longleftrightarrow> \<not> is_bootloader env s ?a" unfolding h1(1) by (simp add: is_app_def is_bootloader_def)
  have cnt: "length hs \<le> 16" "hdr_segment_count (img_header (img s1)) = length hs" using h1(4) g' i1(1) by simp_all
  then have "length hs * (8 + image_max_size env) \<le> 16 * (8 + image_max_size env)" by (intro mult_right_mono) simp_all
  then have bound: "?a + 24 + length hs * (8 + image_max_size env) + 32000 < 2 ^ 32" using g' unfolding low_flash_def by linarith
  have small0: "?a + 24 + 8 + 200 < 2 ^ 32" using g' by (simp add: low_flash_def)
  have a24: "add32 ?a 24 = ?a + 24" "(?a + 24) mod 4 = 0" using a by (auto intro!: add32_exact simp: mod_0_imp_dvd)
  have sg: "length (img_segments (img s1)) = 0" "segs_at (bl_view s1) (?a + 24) hs" "segs_accepted env dl (image_page env (\<not> is_bootloader env s ?a) ?m (?a + 32)) (?a + 24) hs"
    "desc_accepted env (is_app env s1) (bl_view s1) (?a + 24) hs" "seg_page env 0 (?a + 24 + 8) s1 = image_page env (\<not> is_bootloader env s ?a) ?m (?a + 32)"
    unfolding i1(1,2) seg_page_def app using g' by (simp_all add: blank_metadata_def add.commute)
  obtain e s2' where l: "segments_loop env dl 0 (length hs) (?a + 24) s1 = Some ((ESP_OK, e), s2')" "e = ?a + 24 + segs_len hs" "going s2'"
    using segments_loop_returns [OF b i1(3), of 0 "?a + 24" hs dl "image_page env (\<not> is_bootloader env s ?a) ?m (?a + 32)"] bound sg a24(2) small0
    by auto
  have st: "img_start_addr (img s2') = ?a"
    using segments_loop_ok [OF l(1)] i1 b bound cnt by (auto simp: going_def unsigned_build_def blank_metadata_def segments_done_def Let_def)
  then obtain s2 where 2: "process_segments env dl s1 = Some (ESP_OK, s2)"
    using l i1(1) cnt(2) a24(1) by (auto simp: process_segments_def Let_def)
  have c1: "checksum s1 \<noteq> None" "mmu_page_size env mod 8 = 0" "\<not> mapped s1" using i1(3) b by (simp_all add: going_def unsigned_build_def)
  have f1: "img_segments (img s1) = []" "img_start_addr (img s1) = ?a" "img_len (img s1) = 24"
    "?a + 24 + hdr_segment_count (img_header (img s1)) * (8 + image_max_size env) < 2 ^ 32" using i1(1) bound cnt(2) by (simp_all add: blank_metadata_def)
  obtain gs t where gs: "length gs = length hs" and d: "segments_done env dl 0 (?a + 24) gs s1 t" and s2: "s2 = t\<lparr> img := (img t)\<lparr> img_len := 24 + segs_len gs \<rparr> \<rparr>"
    using process_segments_ok [OF 2 c1 f1] cnt(2) by auto
  have eq: "gs = hs" using d gs g' i1(2) segs_at_unique [of ?m "?a + 24" gs hs] by (simp add: segments_done_def Let_def)
  note d' = d [unfolded segments_done_def Let_def i1(2) eq]
  have fit: "\<forall>h \<in> set hs. segment_fits env h" using d' by blast
  have small: "?a + ?body + 32000 < 2 ^ 32" using segs_len_bound [OF fit] bound by linarith
  have m4: "?body mod 4 = 0" using segs_len_mod [OF fit] by (simp add: mod_0_imp_dvd)
  have f2: "img_start_addr (img s2) = ?a" "img_len (img s2) = ?body" "checksum s2 = Some (0xEF XOR segs_xor ?m (?a + 24) hs)" "bl_view s2 = ?m" "img_header (img s2) = ?hdr" "img_segments (img s2) = hs"
    using d' i1 kept_view [of s1 t] by (auto simp: s2 eq fed_def bl_view_def blank_metadata_def)
  have n: "?n = ?body + ?k" unfolding image_size_def Let_def ..
  obtain s3 where 3: "process_checksum False s2 = Some (ESP_OK, s3)"
    using checksum_returns [of s2, unfolded f2(1,2,4), OF a(1) m4 _ f2(3)] small g' unfolding n by (auto simp: add.assoc)
  have n': "img_start_addr (img s2) + img_len (img s2) + 32 < 2 ^ 32" unfolding f2(1,2) using small by linarith
  note c3 = process_checksum_ok(1) [OF 3 n' f2(3), unfolded f2(1,2)]
  have f3: "img_start_addr (img s3) = ?a" "img_len (img s3) = ?n" "img_header (img s3) = ?hdr" "img_segments (img s3) = hs"
    using f2 unfolding c3 n by simp_all
  have n4: "(?a + ?n) mod 4 = 0"
  proof -
    have "?body = 16 * (?body div 16) + ?body mod 16" by (simp only: mult_div_mod_eq)
    moreover have "?body mod 16 + ?k = 16" by simp
    ultimately have "?body + ?k = 16 * (?body div 16) + 16" by linarith
    then have "16 dvd ?body + ?k" by (simp only: dvd_add_right_iff dvd_triv_left dvd_refl)
    then have "4 dvd ?n" unfolding n by (rule dvd_trans [rotated]) simp
    then show ?thesis using a(1) by (simp add: mod_0_imp_dvd)
  qed
  have n32: "?a + ?n + 32 < 2 ^ 32" unfolding n using small by simp
  obtain s4 where 4: "process_appended_hash_and_sig env ?a (pos_size part) True s3 = Some (ESP_OK, s4)"
    using appended_returns [of env s3 "pos_size part" ?a, unfolded f3] b n4 n32 g' by (auto simp: unsigned_build_def)
  have "img_segments (img s4) = hs" using 4 f3(4)
    by (auto simp: process_appended_hash_and_sig_def Let_def dest!: bl_read_state split: if_splits prod.splits)
  then show ?thesis using 1 2 3 4 by blast
qed


section \<open>Exactly the good images are accepted\<close>

lemma header_accepts:
  assumes p: "process_image_header env a vs True s = Some (ESP_OK, s1)" and a: "a + 24 < 2 ^ 32"
  shows "a mod 4 = 0" "verify_image_header env s a (rd_header (bl_view s) a) = ESP_OK"
proof -
  let ?s0 = "s\<lparr> img := blank_metadata\<lparr> img_start_addr := a \<rparr> \<rparr>"
  obtain err bs t where r: "bootloader_flash_read a 24 True True ?s0 = ((err, bs), t)" by (metis prod.exhaust)
  have e: "err = ESP_OK" using p r by (auto simp: process_image_header_def split: if_splits)
  then show "a mod 4 = 0" using r by (auto simp: bootloader_flash_read_def split: if_splits)
  have b: "bs = rd_bytes (bl_view s) a 24" "t = ?s0" using bl_read_ok [of a 24 True ?s0 bs t] bl_read_state [OF r] r a e by (auto simp: bl_view_def)
  obtain s' where "verify_image_header env s' a (rd_header (bl_view s) a) = ESP_OK" "bootloader_partition_offset s' = bootloader_partition_offset s"
    using p unfolding process_image_header_def Let_def r b(2) e by (auto simp: b(1) rd_header_list split: if_splits)
  then show "verify_image_header env s a (rd_header (bl_view s) a) = ESP_OK" using verify_image_header_cong [of s' s env] by simp
qed

text \<open>The metadata keep the secure version that the first segment had.\<close>

lemma version_kept:
  "process_checksum sk s = Some (ESP_OK, s') \<Longrightarrow> img_secure_version (img s') = img_secure_version (img s)"
  "process_appended_hash_and_sig env po pl True s = Some (ESP_OK, s') \<Longrightarrow> img_secure_version (img s') = img_secure_version (img s)"
  by (auto simp: process_checksum_def process_appended_hash_and_sig_def sha_data_def Let_def dest!: bl_read_state split: if_splits prod.splits option.splits)

lemma parse_accepts:
  assumes st: "process_image_header env (pos_offset part) vs True s = Some (ESP_OK, s1)" "process_segments env dl s1 = Some (ESP_OK, s2)"
    "process_checksum False s2 = Some (ESP_OK, s3)" "process_appended_hash_and_sig env (pos_offset part) (pos_size part) True s3 = Some (ESP_OK, s4)"
    and s: "checksum s = Some 0xEF" "sha_handle s = None" "\<not> mapped s" and page: "mmu_page_size env mod 8 = 0" and low: "low_flash env part"
  defines "m \<equiv> bl_view s" and "a \<equiv> pos_offset part" and "hs \<equiv> img_segments (img s4)" and "app \<equiv> \<not> is_bootloader env s (pos_offset part)"
  shows "a mod 4 = 0" "verify_image_header env s a (rd_header m a) = ESP_OK" "segs_accepted env dl (image_page env app m (a + 32)) (a + 24) hs"
    and "desc_accepted env app m (a + 24) hs" "img_secure_version (img s4) = desc_version env app m (a + 24) hs"
proof -
  have a: "a + 24 < 2 ^ 32" "a + 24 + 8 + 200 < 2 ^ 32" using low by (simp_all add: low_flash_def a_def)
  note h = header_accepts [OF st(1) a(1) [unfolded a_def]] and h1 = process_image_header_ok [OF st(1) a(1) [unfolded a_def]]
  show "a mod 4 = 0" "verify_image_header env s a (rd_header m a) = ESP_OK" using h by (simp_all add: a_def m_def)
  have i1: "img s1 = blank_metadata\<lparr> img_start_addr := a, img_header := rd_header m a, img_len := 24 \<rparr>" "bl_view s1 = m" "checksum s1 \<noteq> None" "\<not> mapped s1"
    "is_app env s1 = app" unfolding h1(1) using s by (simp_all add: bl_view_def a_def m_def app_def is_app_def is_bootloader_def)
  have p: "image_intact env m part (img s4)" using image_parsed [OF st s page low] by (simp add: parsed_def m_def Let_def)
  have int: "length hs = hdr_segment_count (rd_header m a)" "length hs \<le> 16" "segs_at m (a + 24) hs"
    using p by (simp_all add: image_intact_def hs_def a_def Let_def)
  have "length hs * (8 + image_max_size env) \<le> 16 * (8 + image_max_size env)" using int(2) by (intro mult_right_mono) simp_all
  then have bound: "a + 24 + length hs * (8 + image_max_size env) < 2 ^ 32" using low unfolding low_flash_def a_def by linarith
  have "add32 a 24 = a + 24" using a(1) by (rule add32_exact)
  then obtain e t where lp: "segments_loop env dl 0 (length hs) (a + 24) s1 = Some ((ESP_OK, e), t)" and t: "img_secure_version (img s2) = img_secure_version (img t)"
    using st(2) i1(1) int(1) by (auto simp: process_segments_def Let_def split: Option.bind_splits if_splits)
  have i0: "length (img_segments (img s1)) = 0" "img_secure_version (img s1) = 0" unfolding i1(1) by (simp_all add: blank_metadata_def)
  have pg: "seg_page env 0 (a + 24 + 8) s1 = image_page env app m (a + 32)" unfolding seg_page_def i1(2,5) by (simp add: add.commute)
  have "segs_accepted env dl (image_page env app m (a + 32)) (a + 24) hs \<and> desc_accepted env app m (a + 24) hs \<and> img_secure_version (img t) = desc_version env app m (a + 24) hs"
    using segments_loop_accepts [OF lp i1(3,4) i0(1) _ bound _ _ page, of "image_page env app m (a + 32)"] int(3) i0(2) pg a(2) unfolding i1(2,5) by simp
  then show "segs_accepted env dl (image_page env app m (a + 32)) (a + 24) hs" "desc_accepted env app m (a + 24) hs" "img_secure_version (img s4) = desc_version env app m (a + 24) hs"
    using t version_kept(1) [OF st(3)] version_kept(2) [OF st(4)] by simp_all
qed

text \<open>The last two steps, when there is no signature.\<close>

lemma unsigned_contents_iff:
  assumes p: "parsed env dl vs part s s4" and u: "\<not> check_signature env" "\<not> debugger_attached env"
  defines "n \<equiv> image_size (img_segments (img s4))" and "a \<equiv> pos_offset part"
  shows "(\<exists>s5. verify_contents env vs s4 = Some (ESP_OK, s5) \<and> Q s5) \<longleftrightarrow>
    (hdr_hash_appended (rd_header (bl_view s) a) \<and> vs \<longrightarrow> image_sha256 env (rd_bytes (bl_view s) a n) = rd_bytes (bl_view s) (a + n) 32)
    \<and> Q (if hdr_hash_appended (rd_header (bl_view s) a) \<and> vs then s4\<lparr> sha_handle := None \<rparr> else s4)"
  using p [unfolded parsed_def Let_def] u by (auto simp: verify_contents_def verify_simple_hash_def n_def a_def)

lemma unsigned_release_iff:
  assumes "\<not> check_signature env" "\<forall>h \<in> set (img_segments (img s)). seg_data_len h mod 4 = 0"
  shows "(\<exists>s'. release_image env mode dl vs s = Some (ESP_OK, s') \<and> img_segments (img s') = hs) \<longleftrightarrow> img_segments (img s) = hs
    \<and> (dl \<and> image_anti_rollback env \<longrightarrow> esp_efuse_check_secure_version (image_sec_ver_size env) (image_sec_version env) (unat (img_secure_version (img s))))"
  using assms deobfuscate_ram [OF assms(2), of env] by (auto simp: release_image_def Let_def)

lemma parsed_tail_iff:
  assumes st: "process_image_header env (pos_offset part) vs True s = Some (ESP_OK, s1)" "process_segments env dl s1 = Some (ESP_OK, s2)"
    "process_checksum False s2 = Some (ESP_OK, s3)" "process_appended_hash_and_sig env (pos_offset part) (pos_size part) True s3 = Some (ESP_OK, s4)"
    and s: "checksum s = Some 0xEF" "sha_handle s = None" "\<not> mapped s" and page: "mmu_page_size env mod 8 = 0" and low: "low_flash env part"
    and u: "\<not> check_signature env" "\<not> debugger_attached env"
  defines "m \<equiv> bl_view s" and "a \<equiv> pos_offset part" and "app \<equiv> \<not> is_bootloader env s (pos_offset part)"
  shows "(\<exists>s5 s'. verify_contents env vs s4 = Some (ESP_OK, s5) \<and> release_image env mode dl vs (s5\<lparr> sha_handle := None \<rparr>) = Some (ESP_OK, s') \<and> img_segments (img s') = hs)
    \<longleftrightarrow> img_segments (img s4) = hs
      \<and> (hdr_hash_appended (rd_header m a) \<and> vs \<longrightarrow> image_sha256 env (rd_bytes m a (image_size hs)) = rd_bytes m (a + image_size hs) 32)
      \<and> (dl \<and> image_anti_rollback env \<longrightarrow> esp_efuse_check_secure_version (image_sec_ver_size env) (image_sec_version env) (unat (desc_version env app m (a + 24) hs)))"
proof -
  have p: "parsed env dl vs part s s4" by (rule image_parsed [OF st s page low])
  have "\<forall>h \<in> set (img_segments (img s4)). segment_fits env h" using p by (simp add: parsed_def image_intact_def Let_def)
  then have w: "\<forall>h \<in> set (img_segments (img (s4\<lparr> sha_handle := x \<rparr>))). seg_data_len h mod 4 = 0" for x by (auto simp: segment_fits_def)
  note v = parse_accepts(5) [OF st s page low] and r = unsigned_release_iff [OF u(1) w, of mode dl vs _ hs]
  let ?Q = "\<lambda>s5. \<exists>s'. release_image env mode dl vs (s5\<lparr> sha_handle := None \<rparr>) = Some (ESP_OK, s') \<and> img_segments (img s') = hs"
  have "?Q s4 \<longleftrightarrow> img_segments (img s4) = hs
      \<and> (dl \<and> image_anti_rollback env \<longrightarrow> esp_efuse_check_secure_version (image_sec_ver_size env) (image_sec_version env) (unat (img_secure_version (img s4))))"
    "?Q (s4\<lparr> sha_handle := None \<rparr>) = ?Q s4" using r by simp_all
  then show ?thesis using unsigned_contents_iff [OF p u, of ?Q] v unfolding m_def a_def app_def by auto
qed

lemma good_image_start: "good_image env dl (load_start s) part hs = good_image env dl s part hs"
  using verify_image_header_cong [of "load_start s" s env] by (simp add: good_image_def verify_sha_of_def is_bootloader_def Let_def)

lemma image_load_good:
  assumes l: "image_load env mode part s = Some (ESP_OK, s')" and v: "mode \<noteq> ESP_IMAGE_LOAD_NO_VALIDATE" and b: "unsigned_build env" and r: "load_ready env part s"
  shows "good_image env (mode = ESP_IMAGE_LOAD) s part (img_segments (img s'))"
proof -
  define dl vs where "dl = (mode = ESP_IMAGE_LOAD)" and "vs = verify_sha_of env s part"
  let ?m = "bl_view s" let ?a = "pos_offset part" let ?hdr = "rd_header ?m ?a" let ?hs = "img_segments (img s')"
  have d: "\<not> debugger_attached env" "low_flash env part" "\<not> mapped (load_start s)" "mmu_page_size env mod 8 = 0" "\<not> check_signature env"
    using r b by (simp_all add: load_ready_def unsigned_build_def)
  obtain s1 s2 s3 s4 s5 where sz: "pos_size part \<le> image_max_size env"
    and st: "process_image_header env ?a vs True (load_start s) = Some (ESP_OK, s1)" "process_segments env dl s1 = Some (ESP_OK, s2)"
      "process_checksum False s2 = Some (ESP_OK, s3)" "process_appended_hash_and_sig env ?a (pos_size part) True s3 = Some (ESP_OK, s4)"
    and e: "verify_contents env vs s4 = Some (ESP_OK, s5)" "release_image env mode dl vs (s5\<lparr> sha_handle := None \<rparr>) = Some (ESP_OK, s')"
    using l unfolding image_load_unfold [OF v d(1)] dl_def vs_def by blast
  have s0: "checksum (load_start s) = Some 0xEF" "sha_handle (load_start s) = None" by simp_all
  note t = parsed_tail_iff [OF st s0 d(3,4,2,5,1), of mode ?hs, THEN iffD1, OF exI, OF exI, OF conjI [OF e(1) conjI [OF e(2) refl]]]
    and ac = parse_accepts [OF st s0 d(3,4,2)]
  have "image_intact env ?m part (img s')" using image_load_result(1) [OF l v r] .
  then have "length ?hs = hdr_segment_count ?hdr" "segs_at ?m (?a + 24) ?hs" "checksum_byte (0xEF XOR segs_xor ?m (?a + 24) ?hs) = ?m (?a + image_size ?hs - 1)"
    "image_size ?hs + (if hdr_hash_appended ?hdr then 32 else 0) \<le> pos_size part" by (simp_all add: image_intact_def Let_def)
  then have "good_image env dl (load_start s) part ?hs"
    using t ac sz d(2) unfolding good_image_def Let_def by (simp add: vs_def verify_sha_of_def is_bootloader_def)
  then show ?thesis unfolding good_image_start dl_def .
qed

lemma image_load_accepts:
  assumes v: "mode \<noteq> ESP_IMAGE_LOAD_NO_VALIDATE" and g: "good_image env (mode = ESP_IMAGE_LOAD) s part hs" and b: "unsigned_build env" and r: "load_ready env part s"
    and f: "fill_obfs (ram_obfs_value s) (random_values s) \<noteq> None"
  shows "\<exists>s'. image_load env mode part s = Some (ESP_OK, s') \<and> img_segments (img s') = hs"
proof -
  define dl vs where "dl = (mode = ESP_IMAGE_LOAD)" and "vs = verify_sha_of env s part"
  have d: "\<not> debugger_attached env" "low_flash env part" "\<not> mapped (load_start s)" "mmu_page_size env mod 8 = 0" "\<not> check_signature env"
    using r b by (simp_all add: load_ready_def unsigned_build_def)
  have g': "good_image env dl (load_start s) part hs" unfolding good_image_start dl_def by (rule g)
  have s0: "checksum (load_start s) = Some 0xEF" "sha_handle (load_start s) = None" "going (load_start s)" using d(3) f by (simp_all add: going_def)
  obtain s1 s2 s3 s4 where st: "process_image_header env (pos_offset part) vs True (load_start s) = Some (ESP_OK, s1)" "process_segments env dl s1 = Some (ESP_OK, s2)"
    "process_checksum False s2 = Some (ESP_OK, s3)" "process_appended_hash_and_sig env (pos_offset part) (pos_size part) True s3 = Some (ESP_OK, s4)"
    and hs: "img_segments (img s4) = hs" using parse_returns [OF b g' s0, of vs] by blast
  have "vs = verify_sha_of env (load_start s) part" by (simp add: vs_def verify_sha_of_def is_bootloader_def)
  then have "\<exists>s5 s'. verify_contents env vs s4 = Some (ESP_OK, s5) \<and> release_image env mode dl vs (s5\<lparr> sha_handle := None \<rparr>) = Some (ESP_OK, s') \<and> img_segments (img s') = hs"
    unfolding parsed_tail_iff [OF st s0(1,2) d(3,4,2,5,1)] using g' hs unfolding good_image_def Let_def by blast
  moreover have "pos_size part \<le> image_max_size env" using g by (simp add: good_image_def Let_def)
  ultimately show ?thesis unfolding image_load_unfold [OF v d(1)] using st unfolding dl_def vs_def by blast
qed


section \<open>The number of segments without verification\<close>

text \<open>Segments of length zero at address zero, such as erased padding filled with zeros.\<close>

definition no_segment :: esp_image_segment_header_t where
  "no_segment = \<lparr> seg_load_addr = 0, seg_data_len = 0 \<rparr>"

lemma no_segment_processed:
  assumes "a mod 4 = 0" "a + 8 < 2 ^ 32" "rd_segment_header (bl_view s) a = no_segment" "sha_handle s = None"
    and "\<not> should_map env 0" "\<not> mmu_page_size_configurable env" "0 < image_max_size env"
  shows "process_segment env i a False s =
    Some (ESP_OK, s\<lparr> img := (img s)\<lparr> img_segments := img_segments (img s) @ [no_segment], img_mmu_page_size := mmu_page_size env \<rparr> \<rparr>)"
proof -
  have r: "bootloader_flash_read a 8 True True s = ((ESP_OK, rd_bytes (bl_view s) a 8), s)" using assms by (intro bl_read_aligned) simp_all
  show ?thesis using assms
    by (simp add: process_segment_def r rd_segment_header_list no_segment_def verify_segment_header_def set_mmu_page_size_def check_err_def
        sha_data_def segment_loop.simps [of _ _ _ _ 0])
qed

lemma too_many_segments:
  assumes "\<not> should_map env 0" "\<not> mmu_page_size_configurable env" "0 < image_max_size env"
    and "a mod 4 = 0" "a + 8 * left < 2 ^ 32" "sha_handle s = None" "length (img_segments (img s)) = i"
    and "\<forall>j < left. rd_segment_header (bl_view s) (a + 8 * j) = no_segment"
  shows "\<exists>s'. segments_loop env False i left a s = Some ((ESP_OK, a + 8 * left), s') \<and> length (img_segments (img s')) = i + left
    \<and> img_start_addr (img s') = img_start_addr (img s)"
  using assms(4-)
proof (induction left arbitrary: i a s)
  case (Suc left)
  let ?s1 = "s\<lparr> img := (img s)\<lparr> img_segments := img_segments (img s) @ [no_segment], img_mmu_page_size := mmu_page_size env \<rparr> \<rparr>"
  let ?s2 = "?s1\<lparr> img := (img ?s1)\<lparr> img_segment_data := img_segment_data (img ?s1) @ [a + 8] \<rparr> \<rparr>"
  have a: "a + 8 < 2 ^ 32" using Suc.prems(2) by simp
  then have ad: "add32 a 8 = a + 8" "add32 (a + 8) 0 = a + 8" using add32_exact [of a 8] add32_exact [of "a + 8" 0] by simp_all
  have "rd_segment_header (bl_view s) (a + 8 * 0) = no_segment" using Suc.prems(5) by blast
  then have p: "process_segment env i a False s = Some (ESP_OK, ?s1)"
    using no_segment_processed [OF Suc.prems(1) a _ Suc.prems(3) assms(1-3)] by simp
  have seg: "length (img_segments (img ?s2)) = Suc i" "seg_data_len (img_segments (img ?s1) ! i) = 0"
    using Suc.prems(4) by (auto simp: nth_append no_segment_def)
  have nx: "\<forall>j < left. rd_segment_header (bl_view ?s2) (a + 8 + 8 * j) = no_segment"
  proof (intro allI impI)
    fix j assume "j < left"
    then have "rd_segment_header (bl_view s) (a + 8 * Suc j) = no_segment" using Suc.prems(5) by blast
    then show "rd_segment_header (bl_view ?s2) (a + 8 + 8 * j) = no_segment" by (simp add: bl_view_def add.assoc)
  qed
  obtain s' where "segments_loop env False (Suc i) left (a + 8) ?s2 = Some ((ESP_OK, a + 8 + 8 * left), s') \<and> length (img_segments (img s')) = Suc i + left
      \<and> img_start_addr (img s') = img_start_addr (img s)"
    using Suc.IH [of "a + 8" ?s2 "Suc i"] Suc.prems(1-3) seg(1) nx by (auto simp: mod_0_imp_dvd)
  then show ?case using p ad seg(2) by (simp add: Let_def)
qed simp

text \<open>
  \<^verbatim>\<open>esp_image_get_metadata\<close> does not check the number of segments, as \<^verbatim>\<open>verify_image_header\<close> would: with 17
  or more headers of zeros its first two steps succeed, with entries behind the end of the array.
\<close>

lemma get_metadata_overflows:
  assumes "\<not> should_map env 0" "\<not> mmu_page_size_configurable env" "0 < image_max_size env"
    and a: "pos_offset part mod 4 = 0" "pos_offset part + 24 + 8 * n < 2 ^ 32" and c: "hdr_segment_count (rd_header (bl_view s) (pos_offset part)) = n"
    and z: "\<forall>j < n. rd_segment_header (bl_view s) (pos_offset part + 24 + 8 * j) = no_segment"
  shows "\<exists>s'. check_err (process_image_header env (pos_offset part) False False) (process_segments env False) (s\<lparr> sha_handle := None, checksum := None \<rparr>)
      = Some (ESP_OK, s') \<and> length (img_segments (img s')) = n"
proof -
  let ?a = "pos_offset part" let ?s0 = "s\<lparr> sha_handle := None, checksum := None, img := blank_metadata\<lparr> img_start_addr := ?a \<rparr> \<rparr>"
  let ?s1 = "?s0\<lparr> img := blank_metadata\<lparr> img_start_addr := ?a, img_header := rd_header (bl_view s) ?a, img_len := 24 \<rparr> \<rparr>"
  have v: "bl_view ?s0 = bl_view s" "bl_view ?s1 = bl_view s" by (simp_all add: bl_view_def)
  have r: "bootloader_flash_read ?a 24 True True ?s0 = ((ESP_OK, rd_bytes (bl_view s) ?a 24), ?s0)"
    using bl_read_aligned [of ?a 24 ?s0] a v(1) by simp
  have h: "process_image_header env ?a False False (s\<lparr> sha_handle := None, checksum := None \<rparr>) = Some (ESP_OK, ?s1)"
    using r by (simp add: process_image_header_def rd_header_list Let_def)
  obtain s2 where "segments_loop env False 0 n (?a + 24) ?s1 = Some ((ESP_OK, ?a + 24 + 8 * n), s2)" "length (img_segments (img s2)) = n" "img_start_addr (img s2) = ?a"
    using too_many_segments [OF assms(1-3), of "?a + 24" n ?s1 0] a z v(2) by (auto simp: blank_metadata_def mod_0_imp_dvd)
  then have "\<exists>s'. process_segments env False ?s1 = Some (ESP_OK, s') \<and> length (img_segments (img s')) = n"
    using a c by (simp add: process_segments_def add32_exact Let_def)
  then show ?thesis using h by (auto simp: check_err_ok)
qed

end
