(* ===== verification/Image_Safety.thy ===== *)
theory Image_Safety
  imports Image_Load
begin

text \<open>
  Which memory an image may be loaded to: an accepted image leaves the memory of the bootloader
  alone.
\<close>

section \<open>Load addresses\<close>

definition in_region :: "nat \<times> nat \<Rightarrow> nat \<Rightarrow> bool" where
  "in_region r x \<longleftrightarrow> fst r \<le> x \<and> x < snd r"

definition regions_apart :: "nat \<times> nat \<Rightarrow> nat \<times> nat \<Rightarrow> bool" where
  "regions_apart r q \<longleftrightarrow> snd r \<le> fst q \<or> snd q \<le> fst r"

definition region_inside :: "nat \<times> nat \<Rightarrow> nat \<times> nat \<Rightarrow> bool" where
  "region_inside r q \<longleftrightarrow> fst q \<le> fst r \<and> snd r \<le> snd q"

definition low_region :: "nat \<times> nat \<Rightarrow> bool" where
  "low_region r \<longleftrightarrow> fst r \<le> snd r \<and> snd r < 2 ^ 31"

text \<open>The stack with its headroom, and the other regions that may be loaded.\<close>

definition boot_stack :: "soc_map \<Rightarrow> nat \<times> nat" where
  "boot_stack m = (boot_sp m - 32768, rom_stack_start m)"

definition rtc_regions :: "soc_map \<Rightarrow> (nat \<times> nat) list" where
  "rtc_regions m = List.map_filter id [soc_rtc_iram m, soc_rtc_dram m, soc_rtc_slow m, soc_spm m]"

text \<open>
  Internal memory is in the lower half of the address space, the stack and the data of the bootloader
  are in DRAM, IRAM is separate from DRAM or the same memory, and the other regions are separate. The
  part of the memory that has two addresses (D/IRAM) is as large on both sides.
\<close>

definition soc_ok :: "soc_map \<Rightarrow> bool" where
  "soc_ok m \<longleftrightarrow> 32768 \<le> boot_sp m \<and> region_inside (boot_stack m) (soc_dram m) \<and> region_inside (boot_dram m) (soc_dram m) \<and> region_inside (loader_text m) (soc_iram m)
     \<and> (regions_apart (soc_iram m) (soc_dram m) \<or> soc_iram m = soc_dram m)
     \<and> region_inside (soc_diram_dram m) (soc_dram m) \<and> region_inside (soc_diram_iram m) (soc_iram m)
     \<and> snd (soc_diram_dram m) - fst (soc_diram_dram m) = snd (soc_diram_iram m) - fst (soc_diram_iram m)
     \<and> fst (soc_diram_dram m) \<le> snd (soc_diram_dram m) \<and> fst (soc_diram_iram m) \<le> snd (soc_diram_iram m)
     \<and> (soc_iram m = soc_dram m \<longrightarrow> soc_diram_iram m = soc_diram_dram m)
     \<and> (\<forall>r \<in> set (boot_stack m # boot_dram m # loader_text m # soc_dram m # soc_iram m # rtc_regions m). low_region r)
     \<and> (\<forall>r \<in> set (rtc_regions m). regions_apart r (soc_dram m) \<and> regions_apart r (soc_iram m))"

lemma in_rtc:
  "esp_ptr_in_opt (soc_rtc_iram m) p \<and> esp_ptr_in_opt (soc_rtc_iram m) q \<or> esp_ptr_in_opt (soc_rtc_dram m) p \<and> esp_ptr_in_opt (soc_rtc_dram m) q
   \<or> esp_ptr_in_opt (soc_rtc_slow m) p \<and> esp_ptr_in_opt (soc_rtc_slow m) q \<or> esp_ptr_in_opt (soc_spm m) p \<and> esp_ptr_in_opt (soc_spm m) q
   \<longleftrightarrow> (\<exists>r \<in> set (rtc_regions m). esp_ptr_in r p \<and> esp_ptr_in r q)"
  by (auto simp: rtc_regions_def esp_ptr_in_opt_def map_filter_def split: option.splits)

text \<open>The branches that accept a region.\<close>

lemma accepted_cases:
  assumes "verify_load_addresses m la le nr = Some True" and "la \<noteq> le"
  defines "both \<equiv> \<lambda>r. esp_ptr_in r la \<and> esp_ptr_in r (sub32 le 1)"
  shows "intptr la < intptr le \<and>
     (both (soc_dram m) \<and> overlaps (sub32 (boot_sp m) 32768, rom_stack_start m) la le = Some False \<and> overlaps (boot_dram m) la le = Some False
      \<or> \<not> both (soc_dram m) \<and> both (soc_iram m) \<and> overlaps (loader_text m) la le = Some False
      \<or> \<not> both (soc_dram m) \<and> \<not> both (soc_iram m) \<and> (\<exists>r \<in> set (rtc_regions m). both r))"
proof -
  consider "both (soc_dram m)" | "\<not> both (soc_dram m)" "both (soc_iram m)" | "\<not> both (soc_dram m)" "\<not> both (soc_iram m)" by blast
  then show ?thesis
  proof cases
    case 1
    then show ?thesis using assms(1,2) unfolding both_def
      by (subst (asm) verify_load_addresses.simps) (auto simp: Let_def split: if_splits Option.bind_splits)
  next
    case 2
    then show ?thesis using assms(1,2) unfolding both_def
      by (subst (asm) verify_load_addresses.simps) (auto simp: Let_def split: if_splits Option.bind_splits)
  next
    case 3
    then have "intptr la < intptr le" "\<exists>r \<in> set (rtc_regions m). both r" using assms(1,2) unfolding both_def in_rtc [symmetric]
      by (subst (asm) verify_load_addresses.simps; auto simp: Let_def split: if_splits)+
    then show ?thesis using 3 by simp
  qed
qed

lemma overlaps_apart:
  assumes "overlaps r a b = Some False" and "low_region r" "a < 2 ^ 31" "b < 2 ^ 31"
  shows "regions_apart r (a, b)"
  using assms by (auto simp: overlaps_def bootloader_util_regions_overlap_def intptr_def regions_apart_def low_region_def split: if_splits)

lemma both_inside:
  assumes "esp_ptr_in r la" "esp_ptr_in r (sub32 le 1)" and "low_region r" and "la < le" "le < 2 ^ 32"
  shows "region_inside (la, le) r" "le < 2 ^ 31"
proof -
  have "sub32 le 1 = le - 1" using assms(4,5) by (intro sub32_exact) auto
  then show "region_inside (la, le) r" "le < 2 ^ 31" using assms by (auto simp: esp_ptr_in_def intptr_def low_region_def region_inside_def split: if_splits)
qed

lemma apart_inside: "regions_apart q r \<Longrightarrow> region_inside p q \<Longrightarrow> region_inside p' r \<Longrightarrow> regions_apart p' p"
  by (auto simp: regions_apart_def region_inside_def)

lemma accepted_apart:
  assumes v: "verify_load_addresses m la le nr = Some True" and ok: "soc_ok m" and l: "la < le" "le < 2 ^ 32"
  shows "regions_apart (boot_stack m) (la, le) \<and> regions_apart (boot_dram m) (la, le) \<and> (soc_iram m \<noteq> soc_dram m \<longrightarrow> regions_apart (loader_text m) (la, le))"
proof -
  let ?both = "\<lambda>r. esp_ptr_in r la \<and> esp_ptr_in r (sub32 le 1)"
  have low: "low_region r" if "r \<in> set (boot_stack m # boot_dram m # loader_text m # soc_dram m # soc_iram m # rtc_regions m)" for r
    using ok that unfolding soc_ok_def by blast
  have ins: "region_inside (boot_stack m) (soc_dram m)" "region_inside (boot_dram m) (soc_dram m)" "region_inside (loader_text m) (soc_iram m)"
    using ok unfolding soc_ok_def by simp_all
  have sp: "boot_sp m < 2 ^ 32" "32768 \<le> boot_sp m" using low [of "boot_stack m"] ok by (auto simp: low_region_def boot_stack_def soc_ok_def)
  have st: "(sub32 (boot_sp m) 32768, rom_stack_start m) = boot_stack m"
    using sp by (simp add: boot_stack_def sub32_exact)
  note in' = both_inside [OF _ _ low l]
  consider "?both (soc_dram m)" "overlaps (boot_stack m) la le = Some False" "overlaps (boot_dram m) la le = Some False"
    | "\<not> ?both (soc_dram m)" "?both (soc_iram m)" "overlaps (loader_text m) la le = Some False" | r where "r \<in> set (rtc_regions m)" "?both r"
    using accepted_cases [OF v] l(1) unfolding st by blast
  then show ?thesis
  proof cases
    case 1
    have i: "region_inside (la, le) (soc_dram m)" "le < 2 ^ 31" using in' [of "soc_dram m"] 1(1) by auto
    have "regions_apart (boot_stack m) (la, le)" "regions_apart (boot_dram m) (la, le)"
      using 1 i l by (auto intro!: overlaps_apart low)
    moreover have "regions_apart (loader_text m) (la, le)" if "soc_iram m \<noteq> soc_dram m"
      using that ok apart_inside [OF _ i(1) ins(3)] unfolding soc_ok_def by (auto simp: regions_apart_def region_inside_def)
    ultimately show ?thesis by blast
  next
    case 2
    have i: "region_inside (la, le) (soc_iram m)" "le < 2 ^ 31" using in' [of "soc_iram m"] 2 by auto
    have d: "regions_apart (soc_iram m) (soc_dram m)" using 2 ok unfolding soc_ok_def by auto
    have "regions_apart (loader_text m) (la, le)" using 2 i l by (auto intro!: overlaps_apart low)
    then show ?thesis using apart_inside [OF d i(1) ins(1)] apart_inside [OF d i(1) ins(2)] by blast
  next
    case 3
    have i: "region_inside (la, le) r" using in' [of r] 3 by auto
    have d: "regions_apart r (soc_dram m)" "regions_apart r (soc_iram m)" using 3(1) ok unfolding soc_ok_def by blast+
    show ?thesis using apart_inside [OF d(1) i ins(1)] apart_inside [OF d(1) i ins(2)] apart_inside [OF d(2) i ins(3)] by blast
  qed
qed

section \<open>Two addresses of one cell\<close>

text \<open>
  The address on the instruction bus of a byte of D/IRAM, from its address on the data bus. Inverted
  D/IRAM has its words in reverse order.
\<close>

definition iram_alias :: "soc_map \<Rightarrow> nat \<Rightarrow> nat" where
  "iram_alias m x =
     (if soc_diram_inverted m then fst (soc_diram_iram m) + (snd (soc_diram_dram m) - (x - x mod 4)) - 4 + x mod 4
      else fst (soc_diram_iram m) + (x - fst (soc_diram_dram m)))"

definition same_cell :: "soc_map \<Rightarrow> nat \<Rightarrow> nat \<Rightarrow> bool" where
  "same_cell m x y \<longleftrightarrow> x = y \<or> in_region (soc_diram_dram m) x \<and> y = iram_alias m x \<or> in_region (soc_diram_dram m) y \<and> x = iram_alias m y"

definition clip :: "nat \<times> nat \<Rightarrow> nat \<times> nat \<Rightarrow> nat \<times> nat" where
  "clip r q = (max (fst r) (fst q), min (snd r) (snd q))"

lemma overlaps_common:
  assumes "in_region r x" "la \<le> x" "x < le" "low_region r" "le < 2 ^ 31"
  shows "overlaps r la le = Some True"
  using assms by (auto simp: overlaps_def bootloader_util_regions_overlap_def intptr_def in_region_def low_region_def)

lemma ptr_in_low: "low_region r \<Longrightarrow> p < 2 ^ 31 \<Longrightarrow> esp_ptr_in r p = in_region r p"
  by (auto simp: esp_ptr_in_def in_region_def low_region_def intptr_def)

text \<open>The recursive call for the other addresses of a region in DRAM, and of one in IRAM.\<close>

lemma dram_alias_checked:
  assumes v: "verify_load_addresses m la le False = Some True" and ni: "\<not> soc_diram_inverted m"
    and d: "esp_ptr_in (soc_dram m) la" "esp_ptr_in (soc_dram m) (sub32 le 1)" and o: "overlaps (soc_diram_dram m) la le = Some True"
    and low: "low_region (soc_diram_dram m)" "low_region (soc_diram_iram m)" "la < le" "le < 2 ^ 31"
    and size: "snd (soc_diram_dram m) - fst (soc_diram_dram m) = snd (soc_diram_iram m) - fst (soc_diram_iram m)"
  defines "c \<equiv> clip (la, le) (soc_diram_dram m)"
  shows "verify_load_addresses m (iram_alias m (fst c)) (iram_alias m (snd c)) True = Some True"
proof -
  let ?D = "soc_diram_dram m" and ?I = "soc_diram_iram m"
  have l1: "sub32 le 1 = le - 1" using low by (intro sub32_exact) simp_all
  have x: "fst ?D < snd ?D" "la < snd ?D" "fst ?D < le" "snd ?D < 2 ^ 31" "snd ?I < 2 ^ 31" "fst ?I \<le> snd ?I"
    using o low by (auto simp: overlaps_def bootloader_util_regions_overlap_def intptr_def low_region_def split: if_splits)
  have conv: "esp_ptr_diram_dram_to_iram m p = iram_alias m p" "iram_alias m p < 2 ^ 31" if "fst ?D \<le> p" "p \<le> snd ?D" for p
    using that ni x size unfolding esp_ptr_diram_dram_to_iram_def iram_alias_def by (auto simp: sub32_exact add32_exact)
  have c: "(if esp_ptr_in ?D la then la else fst ?D) = fst c" "(if esp_ptr_in ?D (sub32 le 1) then le else snd ?D) = snd c"
    unfolding c_def clip_def l1 using low x by (auto simp: ptr_in_low in_region_def max_def min_def)
  have b: "fst ?D \<le> fst c" "fst c < snd c" "snd c \<le> snd ?D" unfolding c_def clip_def using x low by auto
  have "iram_alias m (fst c) < iram_alias m (snd c)" using b ni by (simp add: iram_alias_def)
  then have ord: "\<not> intptr (iram_alias m (snd c)) < intptr (iram_alias m (fst c))" using conv(2) [of "snd c"] b by (simp add: intptr_def)
  have e: "esp_ptr_diram_dram_to_iram m (fst c) = iram_alias m (fst c)" "esp_ptr_diram_dram_to_iram m (snd c) = iram_alias m (snd c)" using conv(1) b by simp_all
  note u = v [unfolded verify_load_addresses.simps [of m la le False] Let_def c e]
  show ?thesis using u d o low(3) ord by (auto split: if_splits Option.bind_splits)
qed

lemma iram_alias_checked:
  assumes v: "verify_load_addresses m la le False = Some True" and ni: "\<not> soc_diram_inverted m"
    and nd: "\<not> (esp_ptr_in (soc_dram m) la \<and> esp_ptr_in (soc_dram m) (sub32 le 1))"
    and d: "esp_ptr_in (soc_iram m) la" "esp_ptr_in (soc_iram m) (sub32 le 1)" and o: "overlaps (soc_diram_iram m) la le = Some True"
    and low: "low_region (soc_diram_dram m)" "low_region (soc_diram_iram m)" "la < le" "le < 2 ^ 31"
    and size: "snd (soc_diram_dram m) - fst (soc_diram_dram m) = snd (soc_diram_iram m) - fst (soc_diram_iram m)"
    and two: "fst (soc_diram_iram m) \<noteq> fst (soc_diram_dram m)"
  defines "c \<equiv> clip (la, le) (soc_diram_iram m)"
  shows "verify_load_addresses m (fst (soc_diram_dram m) + (fst c - fst (soc_diram_iram m))) (fst (soc_diram_dram m) + (snd c - fst (soc_diram_iram m))) True = Some True"
proof -
  let ?D = "soc_diram_dram m" and ?I = "soc_diram_iram m"
  let ?f = "\<lambda>p. fst ?D + (p - fst ?I)"
  have l1: "sub32 le 1 = le - 1" using low by (intro sub32_exact) simp_all
  have x: "fst ?I < snd ?I" "la < snd ?I" "fst ?I < le" "snd ?I < 2 ^ 31" "snd ?D < 2 ^ 31" "fst ?D \<le> snd ?D"
    using o low by (auto simp: overlaps_def bootloader_util_regions_overlap_def intptr_def low_region_def split: if_splits)
  have conv: "esp_ptr_diram_iram_to_dram m p = ?f p" "?f p < 2 ^ 31" if "fst ?I \<le> p" "p \<le> snd ?I" for p
    using that ni x size unfolding esp_ptr_diram_iram_to_dram_def by (auto simp: sub32_exact add32_exact)
  have c: "(if esp_ptr_in_diram_iram m la then la else fst ?I) = fst c" "(if esp_ptr_in_diram_iram m (sub32 le 1) then le else snd ?I) = snd c"
    unfolding c_def clip_def l1 esp_ptr_in_diram_iram_def using low x two by (auto simp: ptr_in_low in_region_def max_def min_def)
  have b: "fst ?I \<le> fst c" "fst c < snd c" "snd c \<le> snd ?I" unfolding c_def clip_def using x low by auto
  have "?f (fst c) < ?f (snd c)" using b by simp
  then have ord: "\<not> intptr (?f (snd c)) < intptr (?f (fst c))" using conv(2) [of "snd c"] b by (simp add: intptr_def)
  have e: "esp_ptr_diram_iram_to_dram m (fst c) = ?f (fst c)" "esp_ptr_diram_iram_to_dram m (snd c) = ?f (snd c)" using conv(1) b by simp_all
  note u = v [unfolded verify_load_addresses.simps [of m la le False] Let_def c e]
  show ?thesis using u d nd o low(3) ord by (auto split: if_splits Option.bind_splits)
qed

lemma apart_not_in: "regions_apart r (a, b) \<Longrightarrow> a \<le> y \<Longrightarrow> y < b \<Longrightarrow> \<not> in_region r y"
  by (auto simp: regions_apart_def in_region_def)

lemma accepted_cells:
  assumes v: "verify_load_addresses m la le False = Some True" and ok: "soc_ok m" and l: "la < le" "le < 2 ^ 32"
    and x: "la \<le> x" "x < le" and cell: "same_cell m x y" "soc_diram_inverted m \<longrightarrow> x = y"
  shows "\<not> in_region (boot_stack m) y \<and> \<not> in_region (boot_dram m) y \<and> (soc_iram m \<noteq> soc_dram m \<longrightarrow> \<not> in_region (loader_text m) y)"
proof (cases "x = y")
  case True
  then show ?thesis using accepted_apart [OF v ok l] x by (auto simp: regions_apart_def in_region_def)
next
  case False
  let ?D = "soc_diram_dram m" and ?I = "soc_diram_iram m"
  let ?both = "\<lambda>r. esp_ptr_in r la \<and> esp_ptr_in r (sub32 le 1)"
  have ni: "\<not> soc_diram_inverted m" using cell(2) False by blast
  have inc: "region_inside ?D (soc_dram m)" "region_inside ?I (soc_iram m)" "snd ?D - fst ?D = snd ?I - fst ?I" "fst ?D \<le> snd ?D" "fst ?I \<le> snd ?I"
    and ins: "region_inside (boot_stack m) (soc_dram m)" "region_inside (boot_dram m) (soc_dram m)" "region_inside (loader_text m) (soc_iram m)"
    using ok by (simp_all add: soc_ok_def)
  have al: "in_region ?D x \<and> in_region ?I y \<and> y = fst ?I + (x - fst ?D) \<or> in_region ?D y \<and> in_region ?I x \<and> x = fst ?I + (y - fst ?D)"
    using cell(1) False ni inc(3-5) by (auto simp: same_cell_def iram_alias_def in_region_def)
  have ne: "soc_iram m \<noteq> soc_dram m"
  proof
    assume "soc_iram m = soc_dram m"
    then have "?I = ?D" using ok by (simp add: soc_ok_def)
    then show False using al False by (auto simp: in_region_def)
  qed
  then have ap: "regions_apart (soc_iram m) (soc_dram m)" using ok by (simp add: soc_ok_def)
  have low: "low_region r" if "r \<in> set (soc_dram m # soc_iram m # rtc_regions m)" for r using ok that unfolding soc_ok_def by auto
  have lowd: "low_region ?D" "low_region ?I" using low [of "soc_dram m"] low [of "soc_iram m"] inc by (auto simp: low_region_def region_inside_def)
  have not_both: "\<not> (in_region (soc_dram m) z \<and> in_region (soc_iram m) z)" for z using ap by (auto simp: regions_apart_def in_region_def)
  have sub: "in_region p z \<Longrightarrow> region_inside p q \<Longrightarrow> in_region q z" for p q z by (auto simp: in_region_def region_inside_def)
  note in' = both_inside [OF _ _ low l]
  consider (dram) "?both (soc_dram m)" | (iram) "\<not> ?both (soc_dram m)" "?both (soc_iram m)" | (rtc) r where "r \<in> set (rtc_regions m)" "?both r"
    using accepted_cases [OF v] l(1) by blast
  then show ?thesis
  proof cases
    case dram
    have i: "region_inside (la, le) (soc_dram m)" "le < 2 ^ 31" using in' [of "soc_dram m"] dram by auto
    have xd: "in_region (soc_dram m) x" using sub [OF _ i(1), of x] x by (simp add: in_region_def)
    then have y: "in_region ?D x" "in_region ?I y" "y = fst ?I + (x - fst ?D)" using al not_both sub inc by blast+
    have o: "overlaps ?D la le = Some True" using overlaps_common [OF y(1) x lowd(1) i(2)] .
    let ?c = "clip (la, le) ?D"
    have c: "fst ?D \<le> fst ?c" "fst ?c \<le> x" "x < snd ?c" "snd ?c \<le> snd ?D" using x y(1) by (auto simp: clip_def in_region_def)
    have a: "iram_alias m (fst ?c) \<le> y" "y < iram_alias m (snd ?c)" "iram_alias m (snd ?c) < 2 ^ 32"
      using c y(3) ni inc(3-5) lowd(2) by (auto simp: iram_alias_def low_region_def)
    have "verify_load_addresses m (iram_alias m (fst ?c)) (iram_alias m (snd ?c)) True = Some True"
      using dram_alias_checked [OF v ni _ _ o lowd l(1) i(2) inc(3)] dram by blast
    from accepted_apart [OF this ok le_less_trans [OF a(1,2)] a(3)] ne have "\<not> in_region (loader_text m) y" using apart_not_in a(1,2) by blast
    moreover have "in_region (soc_iram m) y" using sub [OF y(2) inc(2)] .
    ultimately show ?thesis using not_both sub ins by blast
  next
    case iram
    have i: "region_inside (la, le) (soc_iram m)" "le < 2 ^ 31" using in' [of "soc_iram m"] iram by auto
    have xi: "in_region (soc_iram m) x" using sub [OF _ i(1), of x] x by (simp add: in_region_def)
    then have y: "in_region ?D y" "in_region ?I x" "x = fst ?I + (y - fst ?D)" using al not_both sub inc by blast+
    have two: "fst ?I \<noteq> fst ?D" using ap inc y by (auto simp: regions_apart_def region_inside_def in_region_def)
    have o: "overlaps ?I la le = Some True" using overlaps_common [OF y(2) x lowd(2) i(2)] .
    let ?c = "clip (la, le) ?I" let ?f = "\<lambda>p. fst ?D + (p - fst ?I)"
    have c: "fst ?I \<le> fst ?c" "fst ?c \<le> x" "x < snd ?c" "snd ?c \<le> snd ?I" using x y(2) by (auto simp: clip_def in_region_def)
    have yx: "y = ?f x" using y(1,3) by (simp add: in_region_def)
    have a: "?f (fst ?c) \<le> y" "y < ?f (snd ?c)" "?f (snd ?c) < 2 ^ 32"
      using c yx inc(3-5) lowd(1) by (auto simp: low_region_def)
    have "verify_load_addresses m (?f (fst ?c)) (?f (snd ?c)) True = Some True"
      using iram_alias_checked [OF v ni iram(1) _ _ o lowd l(1) i(2) inc(3) two] iram(2) by blast
    from accepted_apart [OF this ok le_less_trans [OF a(1,2)] a(3)] have "\<not> in_region (boot_stack m) y \<and> \<not> in_region (boot_dram m) y"
      using apart_not_in a(1,2) by blast
    moreover have "in_region (soc_dram m) y" using sub [OF y(1) inc(1)] .
    ultimately show ?thesis using not_both sub ins by blast
  next
    case rtc
    have i: "region_inside (la, le) r" using in' [of r] rtc by auto
    have "regions_apart r (soc_dram m)" "regions_apart r (soc_iram m)" using rtc(1) ok unfolding soc_ok_def by blast+
    moreover have "in_region r x" using sub [OF _ i, of x] x by (simp add: in_region_def)
    ultimately have "\<not> in_region (soc_dram m) x" "\<not> in_region (soc_iram m) x" by (auto simp: regions_apart_def in_region_def)
    then show ?thesis using al sub inc by blast
  qed
qed


section \<open>Where the check of the addresses is weak\<close>

text \<open>
  With one address space for code and data the DRAM branch is always taken, and the loader code is
  not checked at all.
\<close>

lemma unified_ram_skips_loader_check:
  assumes "soc_iram m = soc_dram m" and "soc_diram_iram m = soc_diram_dram m" and "\<not> soc_diram_inverted m"
  shows "verify_load_addresses (m\<lparr> loader_text := r \<rparr>) la le nr = verify_load_addresses m la le nr"
proof -
  have 1: "verify_load_addresses (m\<lparr> loader_text := r \<rparr>) la le True = verify_load_addresses m la le True" for la le
    by (subst (1 2) verify_load_addresses.simps) (simp add: assms Let_def cong: if_cong)
  show ?thesis
    by (subst (1 2) verify_load_addresses.simps)
      (simp add: assms 1 Let_def esp_ptr_diram_dram_to_iram_def cong: if_cong)
qed

text \<open>
  With inverted word order the bytes of a region \<open>[a, e)\<close> of D/IRAM are those from \<open>DRAM_HIGH - (e - IRAM_LOW)\<close> to
  \<open>DRAM_HIGH - (a - IRAM_LOW)\<close>, but the addresses that are checked are one word lower.
\<close>

lemma inverted_alias_off_by_one:
  assumes "soc_diram_inverted m" and "a \<le> e" "e < snd (soc_diram_iram m)" and "fst (soc_diram_dram m) + (snd (soc_diram_iram m) - a) < 2 ^ 32" "snd (soc_diram_iram m) < 2 ^ 32"
    and "4 \<le> snd (soc_diram_iram m) - e"
  shows "esp_ptr_diram_iram_to_dram m e = fst (soc_diram_dram m) + (snd (soc_diram_iram m) - e) - 4"
    "esp_ptr_diram_iram_to_dram m a = fst (soc_diram_dram m) + (snd (soc_diram_iram m) - a) - 4"
  using assms by (auto simp: esp_ptr_diram_iram_to_dram_def sub32_exact add32_exact)

end
