(* ===== verification/Image_Boot.thy ===== *)
theory Image_Boot
  imports Image_Safety Boot_Order
begin

text \<open>
  The bootloader with the image loader in place: its interface, the loader of the model as an
  instance, and what is known of a started image.
\<close>

section \<open>The interface of the loader\<close>

text \<open>
  What the bootloader relies on: an image that was loaded with \<^verbatim>\<open>ESP_OK\<close> satisfies the promise of
  its loader, for the flash it was loaded from.
\<close>

locale image_source =
  fixes load :: "esp_partition_pos_t \<Rightarrow> flash \<Rightarrow> esp_err \<times> esp_image_metadata_t"
    and promise :: "flash \<Rightarrow> esp_partition_pos_t \<Rightarrow> esp_image_metadata_t \<Rightarrow> bool"
  assumes load_promise: "load part f = (ESP_OK, data) \<Longrightarrow> promise f part data"
begin

lemma started_promise:
  assumes "call_start_cpu0 env init s = Some (Started part data maps, s')" and "\<not> skip_validate_in_deep_sleep env"
    and "bootloader_load_image env = load"
  shows "\<exists>i bs sb. select_partition_number env empty_bs s = Some (i, bs, sb) \<and> part \<in> set (boot_order bs i) \<and> promise (bl_chip sb) part data"
proof -
  obtain i bs sb where sel: "select_partition_number env empty_bs s = Some (i, bs, sb)" "part \<in> set (boot_order bs i)"
    and b: "bootable env sb part" "snd (bootloader_load_image env part (bl_chip sb)) = data" using started_bootable [OF assms(1,2)] by blast
  have "load part (bl_chip sb) = (ESP_OK, data)" using b assms(3) by (simp add: bootable_def prod_eq_iff)
  then show ?thesis using sel load_promise by blast
qed

end

section \<open>The loader of \<^verbatim>\<open>esp_image_format.c\<close>\<close>

definition image_loader :: "image_env \<Rightarrow> image_state \<Rightarrow> esp_partition_pos_t \<Rightarrow> flash \<Rightarrow> esp_err \<times> esp_image_metadata_t" where
  "image_loader ienv s part f =
     (case load_image_file ienv part (s\<lparr> bl_chip := f, mapped := False \<rparr>) of None \<Rightarrow> (ESP_FAIL, blank_metadata) | Some (err, s') \<Rightarrow> (err, img s'))"

text \<open>The promise of this loader, for a build and a partition in which every image is verified.\<close>

definition loader_promise :: "image_env \<Rightarrow> image_state \<Rightarrow> flash \<Rightarrow> esp_partition_pos_t \<Rightarrow> esp_image_metadata_t \<Rightarrow> bool" where
  "loader_promise ienv si f part data \<longleftrightarrow>
     (load_image_mode ienv = ESP_IMAGE_LOAD \<and> load_ready ienv part (si\<lparr> mapped := False \<rparr>) \<and> \<not> is_bootloader ienv si (pos_offset part) \<longrightarrow>
      image_intact ienv (flash_view f) part data
      \<and> contents_verified ienv (flash_view f) (pos_offset part) (image_size (img_segments data)) (hdr_hash_appended (img_header data)))"

interpretation loader: image_source "image_loader ienv si" "loader_promise ienv si" for ienv si
proof unfold_locales
  fix part f data assume ok: "image_loader ienv si part f = (ESP_OK, data)"
  let ?s = "si\<lparr> bl_chip := f, mapped := False \<rparr>"
  show "loader_promise ienv si f part data"
    unfolding loader_promise_def
  proof (intro impI, elim conjE)
    assume m: "load_image_mode ienv = ESP_IMAGE_LOAD" and r: "load_ready ienv part (si\<lparr> mapped := False \<rparr>)" and nb: "\<not> is_bootloader ienv si (pos_offset part)"
    obtain s1 where l: "image_load ienv ESP_IMAGE_LOAD part ?s = Some (ESP_OK, s1)" and d: "data = img s1"
      using ok m by (auto simp: image_loader_def load_image_file_def split: option.splits prod.splits)
    have "load_ready ienv part ?s" using r by (simp add: load_ready_def)
    note q = image_load_result [OF l _ this]
    have "verify_sha_of ienv ?s part" using nb by (simp add: verify_sha_of_def is_bootloader_def)
    moreover have "bl_view ?s = flash_view f" by (simp add: bl_view_def)
    ultimately show "image_intact ienv (flash_view f) part data
      \<and> contents_verified ienv (flash_view f) (pos_offset part) (image_size (img_segments data)) (hdr_hash_appended (img_header data))"
      using q(1,2) d by auto
  qed
qed


end
