(* ===== verification/Image_Examples.thy ===== *)
theory Image_Examples
  imports Image_Typed Image_Accept Image_Boot Ota_Examples
begin

text \<open>
  The image in slot 0 of the OTA examples, on a target with the memory map of the ESP32-C6. The
  digest of the example is the exclusive or of the bytes.
\<close>

section \<open>The target\<close>

definition demo_soc :: soc_map where
  "demo_soc = \<lparr> soc_irom = (0x42000000, 0x43000000), soc_drom = (0x42000000, 0x43000000), soc_extram = None,
     soc_dram = (0x40800000, 0x40880000), soc_iram = (0x40800000, 0x40880000),
     soc_diram_dram = (0x40800000, 0x40880000), soc_diram_iram = (0x40800000, 0x40880000), soc_diram_inverted = False,
     soc_rtc_iram = Some (0x50000000, 0x50004000), soc_rtc_dram = Some (0x50000000, 0x50004000), soc_rtc_slow = None, soc_spm = None,
     rom_stack_start = 0x4087E610, boot_sp = 0x4087E000, boot_dram = (0x40875610, 0x4087A610), loader_text = (0x4086E610, 0x40875610) \<rparr>"

definition demo_sha :: "u8 list \<Rightarrow> u8 list" where
  "demo_sha bs = replicate 32 (fold (XOR) bs 0)"

definition demo_ienv :: image_env where
  "demo_ienv = \<lparr> mmap_mmu_size = 0x320000, mmu_page_size = 65536, vaddr_region_valid = (\<lambda>_. True), encryption_is_virtual = False,
     soc = demo_soc, image_max_size = 0x1000000, primary_bootloader_offset = 0, recovery_bootloader = None, check_signature = False,
     secure_boot_configured = False, secure_boot_v2_enabled = False, scheme = SigNone, mmu_page_size_configurable = False, has_efuse_blk_version = False,
     image_anti_rollback = False, image_sec_ver_size = 16, skip_validate_always = False, skip_validate_on_power_on = False, skip_validate_after_sleep = False,
     firmware_chip_id = 13, image_efuses = \<lparr> chip_revision = 1, disable_wafer_version_major = False, blk_version = 1, disable_blk_version_major = False \<rparr>,
     image_sec_version = 0, hw_secure_boot_enabled = False, deep_sleep_reset = False, power_on_reset = True, debugger_attached = False,
     sha_start_ok = True, image_sha256 = demo_sha, verify_signature_block = (\<lambda>_ d. (ESP_OK, d)) \<rparr>"

definition demo_istate :: image_state where
  "demo_istate = \<lparr> bl_chip = demo_chip\<lparr> enc_enabled := False, flash_mem := demo_ota_mem \<rparr>, mapped = False, ram = (\<lambda>_. 0), ram_obfs_value = (0, 0),
     random_values = [(0, 5), (0xDEADBEEF, 0x12345678)], bootloader_partition_offset = 0, img = blank_metadata, sha_handle = None, checksum = None,
     image_digest = [], verified_digest = [] \<rparr>"

definition demo_image_part :: esp_partition_pos_t where
  "demo_image_part = \<lparr> pos_offset = 81920, pos_size = 16384 \<rparr>"

definition demo_segments :: "esp_image_segment_header_t list" where
  "demo_segments = [\<lparr> seg_load_addr = 0x42004020, seg_data_len = 4 \<rparr>, \<lparr> seg_load_addr = 0x40810000, seg_data_len = 8 \<rparr>, \<lparr> seg_load_addr = 0x4201403C, seg_data_len = 4 \<rparr>]"

lemma demo_ienv_sel: "mmap_mmu_size demo_ienv = 0x320000" "mmu_page_size demo_ienv = 65536" "vaddr_region_valid demo_ienv x" "soc demo_ienv = demo_soc"
  "image_max_size demo_ienv = 0x1000000" "\<not> check_signature demo_ienv" "\<not> mmu_page_size_configurable demo_ienv" "\<not> has_efuse_blk_version demo_ienv"
  "\<not> image_anti_rollback demo_ienv" "\<not> debugger_attached demo_ienv" "\<not> secure_boot_v2_enabled demo_ienv" "scheme demo_ienv = SigNone" "image_sha256 demo_ienv = demo_sha"
  "sha_start_ok demo_ienv" "\<not> deep_sleep_reset demo_ienv" "load_image_mode demo_ienv = ESP_IMAGE_LOAD"
  by (simp_all add: demo_ienv_def load_image_mode_def)

section \<open>Reading the image\<close>

definition demo_holds :: "memory \<Rightarrow> bool" where
  "demo_holds m \<longleftrightarrow> rd_bytes m 81920 112 = demo_image_bytes"

lemma demo_part_bytes: "demo_holds m \<Longrightarrow> i + k \<le> 112 \<Longrightarrow> rd_bytes m (81920 + i) k = take k (drop i demo_image_bytes)"
proof -
  assume h: "demo_holds m" and i: "i + k \<le> 112"
  have "rd_bytes m 81920 112 = rd_bytes m 81920 i @ rd_bytes m (81920 + i) k @ rd_bytes m (81920 + (i + k)) (112 - (i + k))"
    using rd_bytes_add [of m 81920 "i + k" "112 - (i + k)"] rd_bytes_add [of m 81920 i k] i by simp
  moreover have "take k (drop i (xs @ ys @ zs)) = ys" if "length xs = i" "length ys = k" for xs ys zs :: "u8 list" using that by simp
  ultimately show ?thesis using h unfolding demo_holds_def by (metis length_rd_bytes)
qed

lemma demo_held: "demo_holds demo_ota_mem"
proof -
  have n: "length demo_image_bytes = 112" by (simp add: demo_image_bytes_def)
  have "rd_bytes demo_ota_mem 81920 112 ! i = demo_image_bytes ! i" if "i < 112" for i
    using that by (simp only: rd_bytes_def nth_map_upt) (simp add: demo_ota_mem_def)
  then show ?thesis unfolding demo_holds_def using n by (intro nth_equalityI) (simp_all only: length_rd_bytes)
qed

lemma demo_header: "demo_holds m \<Longrightarrow> rd_header m 81920 = \<lparr> hdr_magic = 0xE9, hdr_segment_count = 3, hdr_entry_addr = 0x40810000,
     hdr_hash_appended = True, hdr_chip_id = 13, hdr_min_chip_rev_full = 0, hdr_max_chip_rev_full = 65535 \<rparr>"
  using demo_part_bytes [of m 0 24] rd_header_list [of m 81920]
  by (simp add: demo_image_bytes_def rd_header_def rd32_def rd16_def)

lemma demo_segment_headers:
  assumes "demo_holds m"
  shows "rd_segment_header m 81944 = demo_segments ! 0" "rd_segment_header m 81956 = demo_segments ! 1" "rd_segment_header m 81972 = demo_segments ! 2"
  using demo_part_bytes [OF assms, of 24 8] demo_part_bytes [OF assms, of 36 8] demo_part_bytes [OF assms, of 52 8]
    rd_segment_header_list [of m 81944] rd_segment_header_list [of m 81956] rd_segment_header_list [of m 81972]
  by (simp_all add: demo_image_bytes_def rd_segment_header_def rd32_def demo_segments_def)

lemma demo_words:
  assumes "demo_holds m"
  shows "rd32 m 81952 = 0x04030201" "rd32 m 81964 = 0x08070605" "rd32 m 81968 = 0x0C0B0A09" "rd32 m 81980 = 0x110F0E0D"
  using demo_part_bytes [OF assms, of 32 4] demo_part_bytes [OF assms, of 44 4] demo_part_bytes [OF assms, of 48 4] demo_part_bytes [OF assms, of 60 4]
    rd32_list [of m 81952] rd32_list [of m 81964] rd32_list [of m 81968] rd32_list [of m 81980]
  by (simp_all add: demo_image_bytes_def rd32_def)

lemma demo_segs_at: "demo_holds m \<Longrightarrow> segs_at m 81944 demo_segments"
  using demo_segment_headers [of m] by (simp add: demo_segments_def)

lemma demo_size: "image_size demo_segments = 80"
  by (simp add: image_size_def demo_segments_def)

lemma demo_checksum:
  assumes "demo_holds m"
  shows "checksum_byte (0xEF XOR segs_xor m 81944 demo_segments) = m 81999"
proof -
  have 1: "xor_words m a 1 = rd32 m a" "xor_words m a 2 = rd32 m a XOR rd32 m (a + 4)" for a by (simp_all add: numeral_2_eq_2)
  have "segs_xor m 81944 demo_segments = 0x04030201 XOR (0x08070605 XOR 0x0C0B0A09) XOR 0x110F0E0D"
    using demo_words [OF assms] by (simp add: demo_segments_def 1 [simplified])
  moreover have "m 81999 = 0xFE" using demo_part_bytes [OF assms, of 79 1] by (simp add: rd_bytes_def demo_image_bytes_def)
  ultimately show ?thesis by (simp add: checksum_byte_def)
qed

lemma demo_digest:
  assumes "demo_holds m"
  shows "demo_sha (rd_bytes m 81920 80) = rd_bytes m 82000 32"
  using demo_part_bytes [OF assms, of 0 80] demo_part_bytes [OF assms, of 80 32] by (simp add: demo_image_bytes_def demo_sha_def)

section \<open>The image is accepted\<close>

lemma demo_address: "verify_load_addresses demo_soc 0x40810000 0x40810008 nr = Some True"
proof -
  note d = demo_soc_def esp_ptr_in_def intptr_def sub32_def add32_def overlaps_def bootloader_util_regions_overlap_def esp_ptr_diram_dram_to_iram_def
  have "verify_load_addresses demo_soc 0x40810000 0x40810008 True = Some True" by (subst verify_load_addresses.simps) (simp add: d)
  then show ?thesis by (subst verify_load_addresses.simps) (simp add: d)
qed

lemma demo_addresses: "should_load demo_ienv 0x40810000" "\<not> should_load demo_ienv 0x42004020" "\<not> should_load demo_ienv 0x4201403C"
  "\<not> should_map demo_ienv 0x40810000"
  by (simp_all add: should_load_def should_map_def demo_ienv_sel demo_soc_def Let_def)

lemma demo_accepted: "segs_accepted demo_ienv True 65536 81944 demo_segments"
  using demo_addresses demo_address [of False]
  by (simp add: demo_segments_def segment_accepted_def segment_fits_def demo_ienv_sel add32_def)

lemma demo_build: "unsigned_build demo_ienv"
  by (simp add: unsigned_build_def window_ok_def demo_ienv_sel)

lemma demo_ready: "\<not> mapped s \<Longrightarrow> load_ready demo_ienv demo_image_part s"
  by (simp add: load_ready_def low_flash_def demo_ienv_sel demo_image_part_def)

lemma demo_random: "fill_obfs (0, 0) [(0, 5), (0xDEADBEEF, 0x12345678)] = Some ((0xDEADBEEF, 0x12345678), [])"
  by (simp add: fill_obfs.simps)

text \<open>A loader state on any chip that holds the image.\<close>

definition demo_on :: "flash \<Rightarrow> image_state" where
  "demo_on f = demo_istate\<lparr> bl_chip := f, mapped := False \<rparr>"

lemma demo_good_soc:
  assumes "demo_holds (flash_view f)" and a: "segs_accepted (demo_ienv\<lparr> soc := m \<rparr>) True 65536 81944 demo_segments"
  shows "good_image (demo_ienv\<lparr> soc := m \<rparr>) True (demo_on f) demo_image_part demo_segments"
proof -
  have v: "bl_view (demo_on f) = flash_view f" by (simp add: demo_on_def bl_view_def)
  have "verify_image_header (demo_ienv\<lparr> soc := m \<rparr>) (demo_on f) 81920 (rd_header (flash_view f) 81920) = ESP_OK"
    using demo_header [OF assms(1)]
    by (simp add: verify_image_header_def demo_ienv_def bootloader_common_check_chip_validity_def bootloader_common_check_chip_revision_validity_def IS_FIELD_SET_def)
  moreover have "length demo_segments = 3" by (simp add: demo_segments_def)
  moreover have "image_page (demo_ienv\<lparr> soc := m \<rparr>) app k da = 65536" "desc_accepted (demo_ienv\<lparr> soc := m \<rparr>) app k b demo_segments" for app k da b
    by (simp_all add: image_page_def demo_segments_def first_segment_ok_def page_desc_ok_def first_piece_ok_def demo_ienv_sel)
  ultimately show ?thesis
    using demo_header [OF assms(1)] demo_segs_at [OF assms(1)] a demo_checksum [OF assms(1)] demo_digest [OF assms(1)]
    by (simp add: good_image_def v demo_image_part_def demo_size low_flash_def demo_ienv_sel)
qed

lemma demo_own_soc: "demo_ienv\<lparr> soc := demo_soc \<rparr> = demo_ienv"
  by (simp add: demo_ienv_def)

lemma demo_good: "demo_holds (flash_view f) \<Longrightarrow> good_image demo_ienv True (demo_on f) demo_image_part demo_segments"
  using demo_good_soc [of f demo_soc] demo_accepted unfolding demo_own_soc by blast

lemma demo_fill: "fill_obfs (ram_obfs_value (demo_on f)) (random_values (demo_on f)) \<noteq> None"
  by (simp add: demo_on_def demo_istate_def demo_random)

lemma demo_loads:
  assumes "demo_holds (flash_view f)"
  obtains s' where "image_load demo_ienv ESP_IMAGE_LOAD demo_image_part (demo_on f) = Some (ESP_OK, s')" "img_segments (img s') = demo_segments"
    "img_segment_data (img s') = [81952, 81964, 81980]"
proof -
  have r: "load_ready demo_ienv demo_image_part (demo_on f)" by (rule demo_ready) (simp add: demo_on_def)
  obtain s' where l: "image_load demo_ienv ESP_IMAGE_LOAD demo_image_part (demo_on f) = Some (ESP_OK, s')" and hs: "img_segments (img s') = demo_segments"
    using image_load_accepts [of ESP_IMAGE_LOAD demo_ienv "demo_on f" demo_image_part demo_segments, OF _ _ demo_build r demo_fill] demo_good [OF assms] by auto
  have "img_segment_data (img s') = seg_addrs 81944 demo_segments"
    using image_load_result(1) [OF l _ r] hs by (simp add: image_intact_def demo_image_part_def Let_def)
  then show ?thesis using that l hs by (simp add: demo_segments_def)
qed

lemma demo_plain_load: "plain_load demo_ienv 0 demo_segments"
  by (simp add: plain_load_def demo_ienv_sel demo_segments_def)

lemma demo_separate: "sorted_wrt (separate demo_ienv) demo_segments"
  using demo_addresses by (simp add: demo_segments_def separate_def)

section \<open>Witnesses\<close>

lemma demo_istate_on: "demo_on (bl_chip demo_istate) = demo_istate" "demo_holds (flash_view (bl_chip demo_istate))" "load_ready demo_ienv demo_image_part demo_istate"
  "bl_view demo_istate = demo_ota_mem"
  using demo_ready [of demo_istate] demo_held by (simp_all add: demo_on_def demo_istate_def flash_view_def bl_view_def)

lemma demo_verify_sha: "verify_sha_of demo_ienv demo_istate demo_image_part"
  by (simp add: verify_sha_of_def is_bootloader_def demo_ienv_def demo_istate_def demo_image_part_def)



theorem image_load_round_trip_witness:
  "\<exists>s'. image_load demo_ienv ESP_IMAGE_LOAD demo_image_part demo_istate = Some (ESP_OK, s') \<and> rd_bytes (ram s') 0x40810000 8 = [5, 6, 7, 8, 9, 10, 11, 12]
     \<and> ram s' 0x40810008 = 0"
proof -
  obtain s' where l: "image_load demo_ienv ESP_IMAGE_LOAD demo_image_part demo_istate = Some (ESP_OK, s')" "img_segments (img s') = demo_segments"
    "img_segment_data (img s') = [81952, 81964, 81980]" using demo_loads [OF demo_istate_on(2)] unfolding demo_istate_on(1) by blast
  have b: "rd_bytes demo_ota_mem 81964 8 = [5, 6, 7, 8, 9, 10, 11, 12]" using demo_part_bytes [OF demo_held, of 44 8] by (simp add: demo_image_bytes_def)
  note q = image_load_round_trip [OF l(1) demo_istate_on(3), unfolded l(2,3), OF demo_plain_load demo_separate]
  have "rd_bytes (ram s') 0x40810000 8 = rd_bytes demo_ota_mem 81964 8" using q demo_addresses by (simp add: demo_segments_def demo_istate_on(4))
  moreover have "ram s' 0x40810008 = ram demo_istate 0x40810008" using q by (simp add: demo_segments_def in_seg_def)
  ultimately show ?thesis using l(1) b by (simp add: demo_istate_def)
qed

text \<open>
  A target whose internal memory has an address for data and one for code; the data of the
  bootloader are at \<open>0x3FC75610\<close>, which is also \<open>0x40875610\<close>.
\<close>

definition demo_split_soc :: soc_map where
  "demo_split_soc = demo_soc\<lparr> soc_dram := (0x3FC00000, 0x3FC80000), soc_diram_dram := (0x3FC00000, 0x3FC80000),
     rom_stack_start := 0x3FC7E610, boot_sp := 0x3FC7E000, boot_dram := (0x3FC75610, 0x3FC7A610) \<rparr>"

lemma demo_split_ok: "soc_ok demo_split_soc"
  by (simp add: soc_ok_def demo_split_soc_def demo_soc_def boot_stack_def rtc_regions_def low_region_def region_inside_def regions_apart_def map_filter_def)

lemma demo_split_address: "verify_load_addresses demo_split_soc 0x40810000 0x40810008 False = Some True"
proof -
  note d = demo_split_soc_def demo_soc_def esp_ptr_in_def esp_ptr_in_diram_iram_def intptr_def sub32_def add32_def overlaps_def bootloader_util_regions_overlap_def esp_ptr_diram_iram_to_dram_def
  have "verify_load_addresses demo_split_soc 0x3FC10000 0x3FC10008 True = Some True" by (subst verify_load_addresses.simps) (simp add: d)
  then show ?thesis by (subst verify_load_addresses.simps) (simp add: d)
qed

lemma demo_split_accepted: "segs_accepted (demo_ienv\<lparr> soc := demo_split_soc \<rparr>) True 65536 81944 demo_segments"
proof -
  have "should_load (demo_ienv\<lparr> soc := demo_split_soc \<rparr>) a = should_load demo_ienv a" "should_map (demo_ienv\<lparr> soc := demo_split_soc \<rparr>) a = should_map demo_ienv a" for a
    by (simp_all add: should_load_def should_map_def demo_ienv_sel demo_split_soc_def Let_def)
  then show ?thesis using demo_addresses demo_split_address by (simp add: demo_segments_def segment_accepted_def segment_fits_def demo_ienv_sel add32_def)
qed


theorem image_load_metadata_typed_witness:
  "\<exists>s'. image_load demo_ienv ESP_IMAGE_LOAD demo_image_part demo_istate = Some (ESP_OK, s') \<and> metadata_ok (img s')
     \<and> length (img_segment_data (img s')) = length (img_segments (img s'))"
proof -
  obtain s' where l: "image_load demo_ienv ESP_IMAGE_LOAD demo_image_part demo_istate = Some (ESP_OK, s')"
    using demo_loads [OF demo_istate_on(2)] unfolding demo_istate_on(1) by blast
  then show ?thesis using image_load_metadata_typed [of demo_image_part ESP_IMAGE_LOAD demo_istate demo_ienv] by (auto simp: demo_image_part_def)
qed

text \<open>One eFuse bit of the secure version is burnt.\<close>

theorem unverified_load_fails_with_secure_version_witness:
  "esp_efuse_read_secure_version 16 1 = 1 \<and>
   (\<nexists>s'. image_load (demo_ienv\<lparr> image_anti_rollback := True, image_sec_version := 1 \<rparr>) ESP_IMAGE_LOAD_NO_VALIDATE demo_image_part demo_istate = Some (ESP_OK, s'))"
proof -
  let ?env = "demo_ienv\<lparr> image_anti_rollback := True, image_sec_version := 1 \<rparr>"
  have v: "esp_efuse_read_secure_version 16 1 = 1" by code_simp
  have "image_anti_rollback ?env" "0 < esp_efuse_read_secure_version (image_sec_ver_size ?env) (image_sec_version ?env)"
    using v by (simp_all add: demo_ienv_def)
  from unverified_load_fails_with_secure_version [OF this] v show ?thesis by blast
qed

end
