(* ===== verification/Boot_Examples.thy ===== *)
theory Boot_Examples
  imports Boot_Correct Boot_Reset Image_Examples
begin

text \<open>
  The bootloader on the device of the OTA examples: a factory image, two slots, rollback enabled.
\<close>

section \<open>The device\<close>

definition demo_security :: security where
  "demo_security = \<lparr> keys_burn_together = False, secure_boot_v1 = False, secure_boot_v2 = True, flash_enc_configured = True, require_already_enabled = False,
     res_v2_enable = ESP_OK, res_generate_digest = ESP_OK, flash_encrypt_state = True, enc_write_protected = False, res_encrypt_init = ESP_OK,
     res_batch_commit = ESP_OK, res_encrypt_contents = ESP_OK, res_encrypt_enable = ESP_OK, res_v1_enable = ESP_OK, sb_enabled_before = True,
     enc_initialized_once = True, enc_enabled_before = True, sb_enabled_at_commit = True, sb_enabled_after = True, enc_enabled_after = True \<rparr>"

definition demo_benv :: boot_env where
  "demo_benv = \<lparr> mmap_mmu_size = 0x320000, mmu_page_size = 65536, vaddr_region_valid = (\<lambda>_. True), encryption_is_virtual = False,
     boot_table_offset = 32768, boot_md5 = (\<lambda>_. replicate 16 0), boot_crc = demo_crc, app_rollback = True, app_anti_rollback = False, efuse_sec_ver_size = 16,
     bootloader_load_image = image_loader demo_ienv demo_istate, bootloader_load_image_no_verify = (\<lambda>_ _. (ESP_FAIL, blank_metadata)),
     sha256 = take 32, boot_security = demo_security, drom_low = 0x42000000, drom_high = 0x43000000, drom_end_entry_vaddr = 0x42FF0000,
     reserve_rtc_mem = False, custom_rtc_in_crc = False, skip_validate_in_deep_sleep = False, rtc_fast_mem_supported = False, reset_from_deep_sleep = False,
     factory_reset = True, factory_reset_level = False, factory_reset_pin = [(True, 0)], ota_data_erase = True, data_factory_reset = [0x6E, 44, 0x6F],
     app_test = False, app_test_level = False, app_test_pin = [], hold_time = 5 \<rparr>"

definition demo_bstate :: "flash \<Rightarrow> boot_state" where
  "demo_bstate f = \<lparr> bl_chip = f, mapped = False, ota_has_initial_contents = False, sec_version_field = 0, retain_mem = demo_retain \<rparr>"

lemma rd_info_bytes:
  assumes "\<And>i. i < 32 \<Longrightarrow> m (a + i) = entry_bytes t st off len label ! i" and "length label \<le> 16"
  shows "rd_info m a = \<lparr> i_magic = 0x50AA, i_type = unat t, i_subtype = unat st, i_pos = \<lparr> pos_offset = unat off, pos_size = unat len \<rparr>,
    i_label = label @ replicate (16 - length label) 0, i_flags = 0 \<rparr>"
proof -
  have b: "length (bytes_of_u32 w) = 4" for w by simp
  have "m a = 0xAA" "m (a + 1) = 0x50" "m (a + 2) = t" "m (a + 3) = st"
    using assms(1) [of 0] assms(1) [of 1] assms(1) [of 2] assms(1) [of 3] by (simp_all add: entry_bytes_def)
  moreover have "rd32 m (a + 4) = off"
  proof (rule rd32_at)
    fix i :: nat assume "i < 4"
    then show "m (a + 4 + i) = bytes_of_u32 off ! i" using assms(1) [of "4 + i"] by (simp add: entry_bytes_def nth_append add.assoc)
  qed
  moreover have "rd32 m (a + 8) = len"
  proof (rule rd32_at)
    fix i :: nat assume "i < 4"
    then show "m (a + 8 + i) = bytes_of_u32 len ! i" using assms(1) [of "8 + i"] by (simp add: entry_bytes_def nth_append add.assoc)
  qed
  moreover have "rd_bytes m (a + 12) 16 = label @ replicate (16 - length label) 0"
  proof (rule nth_equalityI)
    fix i assume "i < length (rd_bytes m (a + 12) 16)"
    then have "i < 16" by simp
    then show "rd_bytes m (a + 12) 16 ! i = (label @ replicate (16 - length label) 0) ! i"
      using assms(1) [of "12 + i"] assms(2) by (simp add: rd_bytes_def entry_bytes_def nth_append add.assoc)
  qed (use assms(2) in simp)
  moreover have "rd32 m (a + 28) = 0"
  proof (rule rd32_at)
    fix i :: nat assume "i < 4"
    moreover have "bytes_of_u32 0 = replicate 4 0" by code_simp
    moreover have "\<not> 16 + i - length label < 16 - length label" using assms(2) by simp
    ultimately show "m (a + 28 + i) = bytes_of_u32 0 ! i"
      using assms(1) [of "28 + i"] assms(2) by (simp add: entry_bytes_def nth_append add.assoc)
  qed
  ultimately show ?thesis by (simp add: rd_info_def rd16_def)
qed

definition demo_info :: "nat \<Rightarrow> nat \<Rightarrow> nat \<Rightarrow> nat \<Rightarrow> u8 list \<Rightarrow> esp_partition_info_t" where
  "demo_info t st off len label = \<lparr> i_magic = 0x50AA, i_type = t, i_subtype = st, i_pos = \<lparr> pos_offset = off, pos_size = len \<rparr>,
     i_label = label @ replicate (16 - length label) 0, i_flags = 0 \<rparr>"

definition demo_infos :: "esp_partition_info_t list" where
  "demo_infos = [demo_info 1 0 8192 8192 [0x6F], demo_info 0 0 65536 16384 [], demo_info 0 16 81920 16384 [], demo_info 0 17 98304 16384 []]"

text \<open>Any memory that agrees with the example in the first bytes of the table's sector.\<close>

lemma demo_table_infos:
  assumes "\<And>a. 32768 \<le> a \<Longrightarrow> a < 32928 \<Longrightarrow> m a = demo_ota_mem a"
  shows "rd_info m 32768 = demo_infos ! 0" "rd_info m 32800 = demo_infos ! 1" "rd_info m 32832 = demo_infos ! 2" "rd_info m 32864 = demo_infos ! 3"
    and "end_entry m 32768 4"
proof -
  have e: "m (32768 + 32 * k + i) = demo_entries ! k ! i" if "k < 4" "i < 32" for k i
    using assms [of "32768 + 32 * k + i"] that by (simp add: demo_ota_mem_def)
  show "rd_info m 32768 = demo_infos ! 0" using rd_info_bytes [of m 32768 1 0 8192 8192 "[0x6F]"] e [of 0] by (simp add: demo_infos_def demo_info_def demo_entries_def)
  show "rd_info m 32800 = demo_infos ! 1" using rd_info_bytes [of m 32800 0 0 65536 16384 "[]"] e [of 1] by (simp add: demo_infos_def demo_info_def demo_entries_def)
  show "rd_info m 32832 = demo_infos ! 2" using rd_info_bytes [of m 32832 0 16 81920 16384 "[]"] e [of 2] by (simp add: demo_infos_def demo_info_def demo_entries_def)
  show "rd_info m 32864 = demo_infos ! 3" using rd_info_bytes [of m 32864 0 17 98304 16384 "[]"] e [of 3] by (simp add: demo_infos_def demo_info_def demo_entries_def)
  have "m a = 0xFF" if "32896 \<le> a" "a < 32928" for a using assms [of a] that by (simp add: demo_ota_mem_def)
  then show "end_entry m 32768 4" by (simp add: end_entry_def rd_info_def rd16_def Let_def)
qed

lemma demo_table_entries:
  assumes "\<And>a. 32768 \<le> a \<Longrightarrow> a < 32928 \<Longrightarrow> m a = demo_ota_mem a"
  shows "table_entries m 32768 4 = demo_infos"
  using demo_table_infos [OF assms] by (simp add: table_entries_def demo_infos_def upt_rec)

lemma demo_table_verify:
  assumes "\<And>a. 32768 \<le> a \<Longrightarrow> a < 32928 \<Longrightarrow> m a = demo_ota_mem a"
  shows "esp_partition_table_verify md5 131072 m 32768 = (ESP_OK, 4)"
proof -
  note t = demo_table_infos [OF assms]
  have 4: "entry_ok md5 131072 m 32768 0 \<and> \<not> md5_entry m 32768 0" "entry_ok md5 131072 m 32768 1 \<and> \<not> md5_entry m 32768 1"
    "entry_ok md5 131072 m 32768 2 \<and> \<not> md5_entry m 32768 2" "entry_ok md5 131072 m 32768 3 \<and> \<not> md5_entry m 32768 3"
    using t by (simp_all add: entry_ok_def md5_entry_def demo_infos_def demo_info_def add32_def Let_def)
  have "entry_ok md5 131072 m 32768 i \<and> \<not> md5_entry m 32768 i" if "i < 4" for i
  proof -
    have "i = 0 \<or> i = 1 \<or> i = 2 \<or> i = 3" using that by auto
    then show ?thesis using 4 by auto
  qed
  then have e: "{j. j < 4 \<and> md5_entry m 32768 j} = {}" and ok: "\<forall>j. j < 4 \<longrightarrow> entry_ok md5 131072 m 32768 j" by auto
  have "table_accepted md5 131072 m 32768 0 96 False 4" using t(5) ok by (simp add: table_accepted_def e)
  from verify_entries_accepts [OF this] show ?thesis
    by (simp add: esp_partition_table_verify_def ESP_PARTITION_TABLE_MAX_ENTRIES_def e)
qed


lemma demo_fold:
  "fold table_entry demo_infos empty_bs = \<lparr> bs_ota_info = \<lparr> pos_offset = 8192, pos_size = 8192 \<rparr>, bs_factory = \<lparr> pos_offset = 65536, pos_size = 16384 \<rparr>,
     bs_test = no_pos, bs_ota = [\<lparr> pos_offset = 81920, pos_size = 16384 \<rparr>, \<lparr> pos_offset = 98304, pos_size = 16384 \<rparr>] @ replicate 14 no_pos, bs_app_count = 2 \<rparr>"
proof -
  have r: "replicate 16 no_pos = [no_pos, no_pos] @ replicate 14 no_pos" by (simp add: numeral_eq_Suc)
  show ?thesis by (simp add: demo_infos_def demo_info_def table_entry_def empty_bs_def r)
qed

definition demo_bs :: bootloader_state_t where
  "demo_bs = fold table_entry demo_infos empty_bs"

lemma demo_kinds: "one_of_each demo_infos" "find_entry demo_infos 0 32 = None"
  by (simp_all add: one_of_each_def boot_entry_def demo_infos_def demo_info_def find_entry_def)

lemma demo_gapless: "gapless demo_infos 2"
proof -
  have "find_entry demo_infos 0 (16 + k) \<noteq> None \<longleftrightarrow> k < 2" if "k < 16" for k
    by (auto simp: find_entry_def demo_infos_def demo_info_def)
  then show ?thesis by (simp add: gapless_def)
qed

lemma demo_items: "list_all2 item_of_entry (part_list (ps demo_ota)) demo_infos"
  by (simp add: demo_ota_def demo_infos_def demo_info_def item_of_entry_def demo_otadata_def demo_slot_def ota_part_def cstr_def)

text \<open>A chip of the device that holds the table, as the application or the bootloader leaves it.\<close>

definition demo_flash :: "flash \<Rightarrow> bool" where
  "demo_flash f \<longleftrightarrow> chip_cfg f = chip_cfg (chips (ps demo_ota) 0) \<and> drv_results f = [] \<and> (\<forall>a. 32768 \<le> a \<longrightarrow> flash_mem f a = demo_ota_mem a)"

lemma demo_flash_cfg: "demo_flash f \<Longrightarrow> \<not> enc_enabled f \<and> chip_size f = 131072 \<and> working f \<and> flash_view f = flash_mem f"
  using chip_cfg_sel [of f "chips (ps demo_ota) 0"] by (simp add: demo_flash_def demo_ota_def demo_chip_def working_def flash_view_def)

lemma demo_otadata_ok:
  assumes "demo_flash f"
  shows "otadata_ok demo_benv demo_bs (demo_bstate f)"
  using demo_flash_cfg [OF assms] by (simp add: otadata_ok_def demo_bs_def demo_fold demo_benv_def demo_bstate_def bl_ok_def)

lemma demo_readable:
  assumes "demo_flash f"
  shows "table_readable demo_benv (demo_bstate f) 4" and "table_entries (bl_view (demo_bstate f)) 32768 4 = demo_infos"
    and "boot_table_offset demo_benv = 32768"
proof -
  have m: "flash_mem f a = demo_ota_mem a" if "32768 \<le> a" "a < 32928" for a using assms that by (simp add: demo_flash_def)
  show "table_readable demo_benv (demo_bstate f) 4" "table_entries (bl_view (demo_bstate f)) 32768 4 = demo_infos" "boot_table_offset demo_benv = 32768"
    using demo_table_verify [of "flash_mem f", OF m] demo_table_entries [of "flash_mem f", OF m] demo_flash_cfg [OF assms]
    by (simp_all add: table_readable_def demo_benv_def demo_bstate_def bl_view_def ESP_PARTITION_TABLE_MAX_LEN_def)
qed

lemma demo_boots_on:
  assumes "demo_flash (chips (ps s) 0)" and "part_list (ps s) = part_list (ps demo_ota)"
  shows "boots_on demo_benv s 2 (demo_bstate (chips (ps s) 0))"
proof -
  note r = demo_readable [OF assms(1)]
  have "bl_chip (demo_bstate (chips (ps s) 0)) = chips (ps s) 0" by (simp add: demo_bstate_def)
  then show ?thesis
    using r demo_items demo_kinds demo_gapless demo_otadata_ok [OF assms(1)] assms(2)
    by (simp add: boots_on_def table_readable_def demo_bs_def)
qed

lemma demo_no_button: "no_button demo_benv"
  by (simp add: no_button_def demo_benv_def)

lemma demo_start_flash: "demo_flash (chips (ps demo_ota) 0)"
  by (simp add: demo_flash_def demo_ota_def demo_chip_def)

section \<open>Witnesses\<close>

theorem bootloader_follows_application_witness:
  "\<exists>s1 bs sb'. esp_ota_set_boot_partition demo_env (Some (demo_slot 1)) demo_ota = Some (ESP_OK, s1)
     \<and> select_partition_number demo_benv empty_bs (demo_bstate (chips (ps s1) 0)) = Some (1, bs, sb')
     \<and> index_to_partition bs 1 = \<lparr> pos_offset = 98304, pos_size = 16384 \<rparr>"
proof -
  obtain s1 where 1: "esp_ota_set_boot_partition demo_env (Some (demo_slot 1)) demo_ota = Some (ESP_OK, s1)" using demo_ota_switches by blast
  have k: "p_subtype (demo_slot 1) = 17" by (simp add: demo_slot_def ota_part_def)
  obtain d where st: "stored demo_otadata d demo_ota s1"
    using set_boot_then_boot [OF demo_ota_ready _ demo_ota_part demo_ota_room _ 1] k by (auto simp: demo_ota_slots)
  have w: "within 12288 16384 (chips (ps demo_ota) 0) (chips (ps s1) 0)"
    using switch_within [OF demo_ota_ready _ demo_ota_part refl demo_ota_active [symmetric] _ _ _ _ _ 1] k
    by (simp add: demo_ota_slots) (simp add: demo_ota_defs demo_env_def confined_def)
  have "demo_flash (chips (ps s1) 0)"
    using w demo_start_flash by (auto simp: demo_flash_def within_def)
  then have b: "boots_on demo_benv s1 2 (demo_bstate (chips (ps s1) 0))"
    using st by (intro demo_boots_on) (simp_all add: stored_def)
  from bootloader_follows_application [OF demo_ota_ready _ demo_ota_part demo_ota_room _ 1 healthy_working [OF demo_ota_healthy] b _ _ demo_no_button]
  show ?thesis using 1 k demo_ota_lookup(4)
    by (simp add: demo_ota_slots demo_benv_def demo_env_def pos_of_def demo_slot_def ota_part_def)
qed

definition demo_sb :: boot_state where
  "demo_sb = demo_bstate (chips (ps demo_ota) 0)"

lemma demo_sb_ok: "otadata_ok demo_benv demo_bs demo_sb" "working (bl_chip demo_sb)"
  using demo_otadata_ok [OF demo_start_flash] demo_flash_cfg [OF demo_start_flash] by (simp_all add: demo_sb_def demo_bstate_def)

lemma demo_bs_sel: "bs_app_count demo_bs = 2" "pos_offset (bs_factory demo_bs) = 65536" "bs_ota_info demo_bs = \<lparr> pos_offset = 8192, pos_size = 8192 \<rparr>"
  by (simp_all add: demo_bs_def demo_fold)

lemma demo_boot_records: "boot_records demo_bs demo_sb = otadata_of demo_ota demo_otadata"
  by (simp add: boot_records_def demo_bs_sel bl_view_def demo_sb_def demo_bstate_def otadata_of_def Let_def demo_otadata_def ota_part_def)

lemma demo_benv_sel: "boot_crc demo_benv = demo_crc" "app_rollback demo_benv" "\<not> app_anti_rollback demo_benv"
  by (simp_all add: demo_benv_def)

lemma demo_second: "ota_state (snd (otadata_of demo_ota demo_otadata)) = UINT32_MAX"
proof -
  have v: "flash_view (chips (ps demo_ota) 0) = demo_ota_mem" by (simp add: flash_view_def demo_ota_def demo_chip_def)
  have "rd32 demo_ota_mem (12288 + 24) = UINT32_MAX"
    by (rule rd32_at) (simp add: demo_ota_mem_def erased_bytes)
  then show ?thesis using v by (simp add: otadata_of_def demo_otadata_def ota_part_def rd_select_def)
qed

lemma demo_active: "bootloader_common_get_active_otadata demo_crc (Some (otadata_of demo_ota demo_otadata)) = 0"
  using demo_ota_active by (simp add: demo_env_def)

lemma demo_no_abort: "abort_records b (otadata_of demo_ota demo_otadata) = otadata_of demo_ota demo_otadata"
  using demo_second demo_ota_records(1) by (simp add: abort_records_def abort_record_def demo_select_def prod_eq_iff)

theorem unconfirmed_image_boots_once_witness:
  "\<exists>s1 s3. bootloader_utility_get_selected_boot_partition demo_benv demo_bs demo_sb = Some (0, s1)
     \<and> bootloader_utility_get_selected_boot_partition demo_benv demo_bs s1 = Some (FACTORY_INDEX, s3)
     \<and> ota_state (fst (boot_records demo_bs s3)) = ESP_OTA_IMG_ABORTED"
proof -
  let ?d = "otadata_of demo_ota demo_otadata"
  obtain i1 s1 where 1: "bootloader_utility_get_selected_boot_partition demo_benv demo_bs demo_sb = Some (i1, s1)"
    and s1: "otadata_ok demo_benv demo_bs s1" "working (bl_chip s1)"
    using selected_in_step [OF demo_sb_ok demo_benv_sel(3)] by blast
  obtain i2 s3 where 2: "bootloader_utility_get_selected_boot_partition demo_benv demo_bs s1 = Some (i2, s3)"
    using selected_in_step [OF s1 demo_benv_sel(3)] by blast
  have m: "\<not> mapped s1" using s1(1) by (simp add: otadata_ok_def Let_def)
  have v: "\<not> bootloader_common_ota_select_valid demo_crc (abort_record (snd ?d))"
    using demo_ota_valid(2) demo_second by (simp add: abort_record_def)
  have n: "ota_state (fst ?d) = 0" "ota_slot (fst ?d) 2 = 0"
    using demo_ota_records(1) by (simp_all add: demo_select_def ota_slot_def)
  show ?thesis
    using unconfirmed_image_boots_once [OF demo_sb_ok demo_benv_sel(3,2) _ demo_boot_records _ _ _ 1 refl m 2] v n demo_active 1 2
    by (simp add: demo_bs_sel demo_benv_sel otadata_at_def Let_def)
qed


theorem boot_partition_predicts_bootloader_witness:
  "\<exists>s' i bs sb'. esp_ota_get_boot_partition demo_env demo_ota = Some (Some (demo_slot 0), s') \<and>
     select_partition_number demo_benv empty_bs demo_sb = Some (i, bs, sb')
     \<and> List.find (\<lambda>part. pos_size part \<noteq> 0) (boot_order bs i) = Some \<lparr> pos_offset = 81920, pos_size = 16384 \<rparr>"
proof -
  have w: "working (chips (ps demo_ota) 0)" by (rule healthy_working [OF demo_ota_healthy])
  have "ota_slot (fst (otadata_of demo_ota demo_otadata)) 2 = 0" using demo_ota_records(1) by (simp add: demo_select_def ota_slot_def)
  then have "boot_partition demo_crc demo_ota demo_otadata = Some (demo_slot 0)"
    using demo_active demo_ota_lookup(3) demo_ota_valid
    by (simp add: boot_partition_def boot_slot_def demo_ota_slots Let_def otadata_at_def bootloader_common_ota_select_valid_def)
  then obtain s' where b: "esp_ota_get_boot_partition demo_env demo_ota = Some (Some (demo_slot 0), s')"
    using get_boot_partition [OF demo_ota_ready _ demo_ota_part w, of demo_env] by (auto simp: demo_ota_slots demo_env_def)
  have o: "boots_on demo_benv demo_ota 2 demo_sb" using demo_boots_on [OF demo_start_flash] by (simp add: demo_sb_def)
  have l: "lookup demo_ota PART_TYPE_APP st = Some p \<longrightarrow> p_size p \<noteq> 0 \<and> p_address p \<noteq> 0" for st p
    by (auto simp: lookup_def demo_ota_defs split: if_splits)
  from boot_partition_predicts_bootloader [OF demo_ota_ready demo_ota_part w b o _ demo_benv_sel(3) demo_no_button] l show ?thesis
    using b by (auto simp: demo_benv_sel demo_no_abort pos_of_def demo_env_def demo_slot_def ota_part_def)
qed

lemma demo_secure: "load_image demo_security = (LoadStarted, [SecureBootV2Enable])"
  by (simp add: load_image_def load_image_key_def load_image_commit_def load_image_encrypt_def load_image_finish_def sec_do_def demo_security_def)

theorem load_image_secure_witness:
  "load_image demo_security = (LoadStarted, [SecureBootV2Enable]) \<and> sec_result demo_security SecureBootV2Enable = ESP_OK"
  using load_image_secure [of demo_security] demo_secure by simp

text \<open>The factory partition is empty; slot 0 holds the image that is started.\<close>

lemma demo_unpack: "img_segments data = demo_segments \<Longrightarrow> img_segment_data data = [81952, 81964, 81980] \<Longrightarrow> unpack_load_app demo_benv data \<noteq> None"
  by (simp add: unpack_load_app_def demo_segments_def demo_benv_def)

lemma demo_loader:
  assumes "demo_holds (flash_view f)"
  obtains data where "bootloader_load_image demo_benv demo_image_part f = (ESP_OK, data)" "img_segments data = demo_segments" "unpack_load_app demo_benv data \<noteq> None"
proof -
  obtain s' where "image_load demo_ienv ESP_IMAGE_LOAD demo_image_part (demo_on f) = Some (ESP_OK, s')" "img_segments (img s') = demo_segments"
    "img_segment_data (img s') = [81952, 81964, 81980]" using demo_loads [OF assms] .
  then show ?thesis using that [of "img s'"] demo_unpack by (simp add: demo_benv_def image_loader_def load_image_file_def demo_ienv_sel demo_on_def)
qed

lemma demo_empty:
  assumes "flash_view f 65536 = 0xFF"
  shows "fst (bootloader_load_image demo_benv \<lparr> pos_offset = 65536, pos_size = 16384 \<rparr> f) \<noteq> ESP_OK"
proof
  let ?p = "\<lparr> pos_offset = 65536, pos_size = 16384 \<rparr>"
  assume "fst (bootloader_load_image demo_benv ?p f) = ESP_OK"
  then obtain s' where l: "image_load demo_ienv ESP_IMAGE_LOAD ?p (demo_on f) = Some (ESP_OK, s')"
    by (auto simp: demo_benv_def image_loader_def load_image_file_def demo_ienv_sel demo_on_def split: option.splits)
  have "load_ready demo_ienv ?p (demo_on f)" by (simp add: load_ready_def low_flash_def demo_ienv_sel demo_on_def)
  from image_load_result(1) [OF l _ this] show False using assms by (simp add: image_intact_def rd_header_def demo_on_def bl_view_def Let_def)
qed

lemma demo_sb_view: "flash_view (bl_chip demo_sb) = demo_ota_mem"
  by (simp add: demo_sb_def demo_bstate_def flash_view_def demo_ota_def demo_chip_def)

theorem boots_first_bootable_witness:
  "\<exists>data maps. fst (bootloader_utility_load_boot_image demo_benv demo_bs FACTORY_INDEX demo_sb)
     = Started \<lparr> pos_offset = 81920, pos_size = 16384 \<rparr> data maps \<and> img_segments data = demo_segments"
proof -
  obtain data where d: "bootloader_load_image demo_benv demo_image_part (bl_chip demo_sb) = (ESP_OK, data)" "img_segments data = demo_segments"
    "unpack_load_app demo_benv data \<noteq> None" using demo_loader [of "bl_chip demo_sb"] demo_held by (auto simp: demo_sb_view)
  have f: "fst (bootloader_load_image demo_benv \<lparr> pos_offset = 65536, pos_size = 16384 \<rparr> (bl_chip demo_sb)) \<noteq> ESP_OK"
    by (rule demo_empty) (simp add: demo_sb_view demo_ota_mem_def)
  have "fst (load_image (boot_security demo_benv)) = LoadStarted" using demo_secure by (simp add: demo_benv_def)
  moreover have "List.find (bootable demo_benv demo_sb) (boot_order demo_bs (-1)) = Some \<lparr> pos_offset = 81920, pos_size = 16384 \<rparr>"
    using f d(1) demo_benv_sel(3)
    by (simp add: boot_order_def demo_bs_def demo_fold index_to_partition_def bootable_def check_anti_rollback_def upto.simps demo_image_part_def)
  ultimately show ?thesis
    using boots_first_bootable [of demo_benv demo_bs "- 1" demo_sb] d by (auto simp: start_result_def demo_image_part_def Let_def split: option.splits)
qed

theorem sha256_flash_contents_exact_witness:
  "bootloader_sha256_flash_contents demo_benv 81920 0x400000 demo_sb = ((ESP_OK, take 32 (rd_bytes demo_ota_mem 81920 0x400000)), demo_sb)"
proof -
  have "window_ok demo_benv" "\<not> mapped demo_sb" by (simp_all add: window_ok_def demo_benv_def demo_sb_def demo_bstate_def)
  moreover have "bl_view demo_sb = demo_ota_mem" "sha256 demo_benv = take 32"
    by (simp_all add: bl_view_def demo_sb_def demo_bstate_def flash_view_def demo_ota_def demo_chip_def demo_benv_def)
  ultimately show ?thesis using sha256_flash_contents_exact [of demo_benv demo_sb 81920 "0x400000"] by simp
qed

lemma demo_starts:
  obtains data maps s' where "call_start_cpu0 demo_benv ESP_OK demo_sb = Some (Started demo_image_part data maps, s')" "img_segments data = demo_segments"
proof -
  have o: "boots_on demo_benv demo_ota 2 demo_sb" using demo_boots_on [OF demo_start_flash] by (simp add: demo_sb_def)
  obtain bs sb where sel: "select_partition_number demo_benv empty_bs demo_sb =
      Some (boot_choice (pos_offset (bs_factory bs) \<noteq> 0) 2 demo_crc (otadata_of demo_ota demo_otadata), bs, sb)" and t: "table_of demo_ota 2 bs" and sp: "spared bs demo_sb sb"
    using select_number [OF o demo_ota_part healthy_working [OF demo_ota_healthy] demo_benv_sel(3) demo_no_button] by (auto simp: demo_no_abort demo_benv_sel)
  have "ota_slot (fst (otadata_of demo_ota demo_otadata)) 2 = 0" using demo_ota_records(1) by (simp add: demo_select_def ota_slot_def)
  then have i: "boot_choice (pos_offset (bs_factory bs) \<noteq> 0) 2 demo_crc (otadata_of demo_ota demo_otadata) = 0"
    using demo_active demo_ota_valid by (simp add: boot_choice_def boot_slot_def otadata_at_def Let_def bootloader_common_ota_select_valid_def)
  have info: "pos_offset (bs_ota_info bs) = 8192" using t demo_ota_part by (simp add: table_of_def otadata_part_def pos_lookup_def pos_of_def demo_otadata_def ota_part_def)
  have "rd_bytes (flash_view (bl_chip sb)) 81920 112 = rd_bytes demo_ota_mem 81920 112"
    using sp demo_sb_view by (intro rd_bytes_cong) (simp add: spared_def info bl_view_def)
  then obtain data where d: "bootloader_load_image demo_benv demo_image_part (bl_chip sb) = (ESP_OK, data)" "img_segments data = demo_segments"
    "unpack_load_app demo_benv data \<noteq> None" using demo_loader [of "bl_chip sb"] demo_held by (auto simp: demo_holds_def)
  have "index_to_partition bs 0 = demo_image_part"
    using t demo_ota_lookup(3) by (simp add: index_to_partition_def table_of_def pos_lookup_def pos_of_def demo_slot_def ota_part_def demo_image_part_def)
  moreover have "rev [-1..0::int] = [0, -1]" by (simp add: upto.simps)
  moreover have "bootable demo_benv sb demo_image_part" using d(1) demo_benv_sel(3) by (simp add: bootable_def check_anti_rollback_def demo_image_part_def)
  ultimately have "List.find (bootable demo_benv sb) (boot_order bs 0) = Some demo_image_part" by (simp add: boot_order_def)
  moreover have "fst (load_image (boot_security demo_benv)) = LoadStarted" using demo_secure by (simp add: demo_benv_def)
  ultimately obtain maps where "fst (bootloader_utility_load_boot_image demo_benv bs 0 sb) = Started demo_image_part data maps"
    using load_boot_image_result [of demo_benv bs 0 sb] d by (auto simp: start_result_def Let_def)
  moreover have "\<not> skip_validate_in_deep_sleep demo_benv" by (simp add: demo_benv_def)
  ultimately have "call_start_cpu0 demo_benv ESP_OK demo_sb = Some (Started demo_image_part data maps, snd (bootloader_utility_load_boot_image demo_benv bs 0 sb))"
    using sel i by (cases "bootloader_utility_load_boot_image demo_benv bs 0 sb") (auto simp: call_start_cpu0_def)
  then show ?thesis using that d(2) by blast
qed

theorem started_image_is_verified_witness:
  "\<exists>data maps s' i bs sb. call_start_cpu0 demo_benv ESP_OK demo_sb = Some (Started demo_image_part data maps, s')
     \<and> select_partition_number demo_benv empty_bs demo_sb = Some (i, bs, sb) \<and> demo_image_part \<in> set (boot_order bs i)
     \<and> bootloader_load_image demo_benv demo_image_part (bl_chip sb) = (ESP_OK, data)"
proof -
  obtain data maps s' where c: "call_start_cpu0 demo_benv ESP_OK demo_sb = Some (Started demo_image_part data maps, s')" by (rule demo_starts)
  have "\<not> skip_validate_in_deep_sleep demo_benv" by (simp add: demo_benv_def)
  from started_image_is_verified [OF c this] c show ?thesis by blast
qed


theorem label_search_is_membership_witness:
  "bootloader_common_label_search (Some [110, 44, 120, 121, 32, 122]) (Some [120, 121]) = Some True
   \<and> bootloader_common_label_search (Some [110, 44, 120, 121, 32, 122]) (Some [120]) = Some False"
  using label_search_is_membership [of "[120, 121]" "[110, 44, 120, 121, 32, 122]"] label_search_is_membership [of "[120]" "[110, 44, 120, 121, 32, 122]"]
  by simp

lemma demo_erasable: "erasable demo_infos"
  by (simp add: erasable_def demo_infos_def demo_info_def good_label_def cstr_def)

lemma demo_listed: "listed [0x6E, 44, 0x6F] ota (demo_infos ! 0)" "demo_infos ! 0 \<in> set demo_infos"
  by (simp_all add: listed_def demo_infos_def demo_info_def cstr_def)

theorem factory_reset_erases_listed_witness:
  "\<exists>s'. bootloader_common_erase_part_type_data demo_benv [0x6E, 44, 0x6F] False demo_sb = Some (True, s') \<and> flash_mem (bl_chip s') 8192 = 0xFF
     \<and> bl_view s' 65536 = bl_view demo_sb 65536"
proof -
  note r = demo_readable [OF demo_start_flash, folded demo_sb_def]
  have b: "bl_ok demo_benv demo_sb" using demo_sb_ok(1) by (simp add: otadata_ok_def Let_def)
  have i: "\<exists>part \<in> set demo_infos. listed [0x6E, 44, 0x6F] False part \<and> in_part 8192 part"
    using demo_listed by (intro bexI [of _ "demo_infos ! 0"]) (simp_all add: in_part_def demo_infos_def demo_info_def)
  have o: "\<not> (\<exists>part \<in> set demo_infos. listed [0x6E, 44, 0x6F] False part \<and> in_part 65536 part)"
    by (simp add: listed_def in_part_def demo_infos_def demo_info_def)
  show ?thesis
    using factory_reset_erases_listed [OF r(1) demo_sb_ok(2) b, of "[0x6E, 44, 0x6F]" False] demo_erasable i o unfolding r(3) r(2) Let_def by blast
qed

text \<open>The factory reset button is held for six seconds.\<close>

definition reset_benv :: boot_env where
  "reset_benv = demo_benv\<lparr> factory_reset_pin := [(False, 0), (False, 6000)], app_rollback := False \<rparr>"

lemma reset_benv_first:
  "bootloader_utility_get_selected_boot_partition reset_benv demo_bs demo_sb = Some (0, demo_sb)"
proof -
  let ?d = "otadata_of demo_ota demo_otadata"
  have o: "otadata_ok reset_benv demo_bs demo_sb" using demo_sb_ok(1) by (simp add: otadata_ok_def reset_benv_def bl_ok_def)
  have e: "boot_crc reset_benv = demo_crc" "\<not> app_rollback reset_benv" "\<not> app_anti_rollback reset_benv" by (simp_all add: reset_benv_def demo_benv_def)
  have n: "ota_slot (fst ?d) 2 = 0" "\<not> bootloader_common_ota_select_invalid (fst ?d)"
    using demo_ota_records(1) demo_ota_valid by (simp_all add: demo_select_def ota_slot_def bootloader_common_ota_select_valid_def)
  have s: "demo_sb\<lparr> ota_has_initial_contents := False \<rparr> = demo_sb" by (simp add: demo_sb_def demo_bstate_def)
  show ?thesis using read_otadata_ok [OF o] n demo_active
    by (simp add: bootloader_utility_get_selected_boot_partition_def e demo_boot_records demo_bs_sel s boot_active_def slot_of_def otadata_at_def)
qed

theorem factory_reset_boots_factory_witness:
  "\<exists>s'. selected_boot_partition reset_benv demo_bs demo_sb = Some (FACTORY_INDEX, s') \<and> flash_mem (bl_chip s') 8192 = 0xFF
     \<and> bootloader_common_ota_select_invalid (fst (boot_records demo_bs s'))"
proof -
  note r = demo_readable [OF demo_start_flash, folded demo_sb_def]
  have o: "otadata_ok reset_benv demo_bs demo_sb" using demo_sb_ok(1) by (simp add: otadata_ok_def reset_benv_def bl_ok_def)
  have t: "table_readable reset_benv demo_sb 4" "table_entries (bl_view demo_sb) (boot_table_offset reset_benv) 4 = demo_infos"
    using r by (simp_all add: table_readable_def reset_benv_def)
  have en: "\<not> enc_enabled (bl_chip demo_sb)" by (simp add: demo_sb_def demo_bstate_def demo_ota_def)
  have e: "demo_infos ! 0 \<in> set demo_infos" "i_type (demo_infos ! 0) = PART_TYPE_DATA" "i_subtype (demo_infos ! 0) = PART_SUBTYPE_DATA_OTA" "i_pos (demo_infos ! 0) = bs_ota_info demo_bs"
    by (simp_all add: demo_bs_sel) (simp_all add: demo_infos_def demo_info_def)
  have c: "\<not> app_anti_rollback reset_benv" "\<not> reset_from_deep_sleep reset_benv" "factory_reset reset_benv" "ota_data_erase reset_benv"
    "bootloader_common_check_long_hold_gpio_level (hold_time reset_benv) (factory_reset_level reset_benv) (factory_reset_pin reset_benv) = Some GPIO_LONG_HOLD"
    by (simp_all add: reset_benv_def demo_benv_def sub32_def)
  obtain s' where "selected_boot_partition reset_benv demo_bs demo_sb = Some (FACTORY_INDEX, s')" "\<forall>a. in_part a (demo_infos ! 0) \<longrightarrow> flash_mem (bl_chip s') a = 0xFF"
      "bootloader_common_ota_select_invalid (otadata_at (boot_records demo_bs s') 0)"
    using factory_reset_boots_factory [OF o demo_sb_ok(2) c(1) reset_benv_first en t(1) _ _ e(2-4) c(2-5)] demo_erasable e(1)
    unfolding t(2) by (auto simp: demo_bs_sel)
  then show ?thesis by (auto simp: otadata_at_def in_part_def demo_infos_def demo_info_def)
qed

text \<open>With a gap between the slots the bootloader counts both, and has no partition for the second index.\<close>

lemma gap_counts_differ:
  "bs_app_count (fold table_entry [demo_info 0 16 65536 16384 [], demo_info 0 18 81920 16384 []] empty_bs) = 2
   \<and> index_to_partition (fold table_entry [demo_info 0 16 65536 16384 [], demo_info 0 18 81920 16384 []] empty_bs) 1 = no_pos"
  by (simp add: demo_info_def table_entry_def empty_bs_def index_to_partition_def)

end
