(* ===== verification/Spec2Isabelle.thy ===== *)
theory Spec2Isabelle
  imports Ringbuf_Props Esp_Flash_Correct Part_Table Partition_Examples Ota_Examples Boot_Examples
begin

text \<open>
  ESP-IDF is the SDK for the ESP32 family of microcontrollers. This library models and verifies the path
  of an application image through the device: bytes that arrive in a ring buffer, are written through the
  update API to a flash partition, are selected by the bootloader at the next reset, verified, loaded
  into memory and started. All paths below are relative to \<^verbatim>\<open>src/components\<close>.

  \<^bold>\<open>The parts and how they interact.\<close>

  \<^item> \<^verbatim>\<open>esp_ringbuf/ringbuf.c\<close>: buffers between tasks and interrupt handlers.
  \<^item> \<^verbatim>\<open>spi_flash/esp_flash_api.c\<close>: reading, erasing and writing a flash chip.
  \<^item> \<^verbatim>\<open>esp_partition/partition.c\<close>, \<^verbatim>\<open>partition_target.c\<close>: a list of partitions, built from the table that
    \<^verbatim>\<open>bootloader_support/src/flash_partitions.c\<close> checks, and access to a partition through the flash API.
  \<^item> \<^verbatim>\<open>app_update/esp_ota_ops.c\<close>: an update writes an image to a partition and then a selection record to
    the OTA data partition; \<^verbatim>\<open>bootloader_support/src/bootloader_common_loader.c\<close> reads such records in the
    application and in the bootloader; \<^verbatim>\<open>efuse/src/esp_efuse_fields.c\<close> keeps the secure version.
  \<^item> \<^verbatim>\<open>bootloader/subproject/main/bootloader_start.c\<close>, \<^verbatim>\<open>bootloader_support/src/bootloader_utility.c\<close> and
    \<^verbatim>\<open>bootloader_common.c\<close>: the second stage bootloader reads the same table and records, chooses a
    partition, and starts its image, with the flash access of \<^verbatim>\<open>bootloader_flash.c\<close>.
  \<^item> \<^verbatim>\<open>bootloader_support/src/esp_image_format.c\<close>: verifies the image and loads its segments.

  \<^bold>\<open>The model.\<close> Every operation of the code is a definition with its name. State is passed explicitly: the
  control block \<open>Ringbuffer\<close>, the chip \<open>flash\<close>, the partition layer \<open>pstate\<close> (chips, list, heap), the
  update module \<open>ota_state\<close>, the bootloader \<open>boot_state\<close> and the loader \<open>image_state\<close>; the last two extend
  \<open>bl_flash_state\<close>. Memory is a function from addresses to bytes, and structures are read from it at their
  offsets. Error codes are values of \<open>esp_err\<close>; \<open>None\<close> is a failed assertion, an access the C standard
  leaves undefined, or a loop that does not end. 32-bit arithmetic is on words or on numbers with
  \<open>add32\<close>, \<open>sub32\<close> and \<open>mul32\<close>, which wrap. Build options, eFuses, memory maps and the results of code that is
  not modelled are fields of the environments \<open>config\<close>, \<open>ota_env\<close>, \<open>boot_env\<close> and \<open>image_env\<close>; results that may
  differ from call to call (a driver that fails, an allocation that fails, free MMU pages, random words,
  the level of a pin) are lists in the state that the calls consume.

  \<^bold>\<open>Theories.\<close>

  \<^item> \<open>Prelude\<close>: types, error codes, memory, wrapping arithmetic and their lemmas.
  \<^item> \<open>Ringbuf\<close>, \<open>Ringbuf_Api\<close>: the static and the public functions of the ring buffer. \<open>Fifo\<close> holds the contract of
    a bounded queue that lends its items, \<open>Ringbuf_Byte\<close>, \<open>Ringbuf_Chain\<close> and \<open>Ringbuf_NoSplit\<close> prove it for byte
    buffers and no-split buffers, \<open>Ringbuf_Props\<close> states what follows.
  \<^item> \<open>Esp_Flash\<close>: the driver API; \<open>Esp_Flash_Correct\<close>: what each operation does to the cells, on every
    error path too. \<open>Nor_Store\<close> holds the interface of NOR flash (erasing blanks, writing on blank cells reads
    back, all else is kept), \<open>Flash_Store\<close> proves it for plain and for encrypted access.
  \<^item> \<open>Part_Table\<close>: the table check and its specification. \<open>Partition\<close>: the list and the access functions;
    \<open>Partition_Correct\<close>, \<open>Partition_List\<close>, \<open>Partition_Copy\<close>: access is confined and behaves as a store, the list keeps
    its invariant over its lifetime, copying ends and copies; \<open>Partition_Examples\<close>.
  \<^item> \<open>Ota_Data\<close>: selection records, chip checks, retained memory. \<open>Efuse_Version\<close>: the secure version.
    \<open>Ota_Ops\<close>, \<open>Ota_Update\<close>: the update API. \<open>Ota_Select\<close>: operations on two records as the specification of the
    functions on flash; \<open>Ota_Stream\<close>: the bytes given to a handle are those in the partition; \<open>Ota_Examples\<close>.
  \<^item> \<open>Boot_Flash\<close>, \<open>Bootloader\<close>, \<open>Boot_Start\<close>: the bootloader. \<open>Boot_Select\<close>: its choice refines a function on the two
    records. \<open>Boot_Order\<close>: the order of the fallbacks and what is started. \<open>Boot_Reset\<close>: the factory reset.
    \<open>Boot_Correct\<close>: application and bootloader agree; \<open>Boot_Examples\<close>.
  \<^item> \<open>Image_Format\<close>: the image loader. \<open>Image_Segments\<close>: its loops, as functions on the bytes in flash.
    \<open>Image_Load\<close>: what \<^verbatim>\<open>ESP_OK\<close> means, and the round trip from flash to memory. \<open>Image_Accept\<close>: exactly the good
    images are accepted, in every build without signature checking. \<open>Image_Safety\<close>: the bootloader is not
    overwritten, through either address of D/IRAM (\<open>same_cell\<close>). \<open>Image_Typed\<close>: well-formed metadata on every path. \<open>Image_Boot\<close>: the bootloader with this loader; \<open>Image_Examples\<close>.

  \<^bold>\<open>Interfaces.\<close> \<open>borrow_queue\<close> (\<open>Fifo\<close>) has the interpretations \<open>bytebuf\<close> and \<open>nosplit\<close>; \<open>nor_store\<close> (\<open>Nor_Store\<close>) has \<open>plain\<close>, \<open>xts\<close>,
  \<open>part\<close> and \<open>boot\<close>, one for each layer of flash access; \<open>image_source\<close> (\<open>Image_Boot\<close>) has \<open>loader\<close>. Lemmas on sequences
  of operations are proved once in the locale.

  \<^bold>\<open>Abstract specifications.\<close> Queues of items and of bytes (\<open>ns_queue\<close>, \<open>bb_queue\<close>); the contents of a store; a pair of
  selection records, with choosing, confirming, rejecting and booting as functions on it; an image as a
  header followed by a list of segments (\<open>good_image\<close>); the boot order as a list of partitions.

  \<^bold>\<open>Termination.\<close> Most loops have a measure. The blocking routines of the ring buffer consume a list of
  wake-ups and are \<open>StillBlocked\<close> at its end. \<open>copy_loop\<close> and \<open>label_loop\<close> are partial functions, and theorems say when
  they return. The table has at most 96 entries, a verified image at most 16 segments (a longer list of
  segments stands for writes behind the arrays of the metadata); \<open>fill_obfs\<close> consumes the
  random words, and a theorem that the loader returns assumes a pair without a zero among them.

  \<^bold>\<open>Behaviours the code does not intend\<close> are lemmas as well. Ring buffer: \<open>receive_unwritten_item\<close>,
  \<open>tiny_nosplit_accepts_anything\<close>. Partitions: \<open>table_end_wraps\<close>, \<open>table_digest_in_the_middle\<close>, \<open>register_end_wraps\<close>,
  \<open>register_empty_partition_blocks_chip\<close>. Flash: \<open>flash_read_check_wraps\<close>. Bootloader: \<open>empty_label_hangs\<close>,
  \<open>no_slots_traps\<close>, \<open>bad_table_stays_mapped\<close>, \<open>gap_counts_differ\<close>. Image loader: \<open>unified_ram_skips_loader_check\<close>,
  \<open>inverted_alias_off_by_one\<close>, \<open>get_metadata_overflows\<close>, and the last theorem of \<open>Image_Typed\<close>.

  \<^bold>\<open>Assumptions.\<close> Plain flash access assumes a bounce buffer that is not empty; encrypted access assumes sectors of
  a multiple of 16 bytes and a cipher whose decryption inverts its encryption. The digest, the
  checksum function and the signature check are arbitrary functions. Verification of an image assumes that no debugger is
  attached (the code then skips checks on purpose) and that the partition lies low enough in the address space for
  16 segments of maximal size.

  \<^bold>\<open>Not modelled:\<close> the FreeRTOS kernel (its event lists and scheduling decisions are parameters); register access
  below the driver API, cache and MMU tables, clocks and watchdogs; the primitives of secure boot and flash
  encryption, whose results are parameters; variants of the bootloader for the trusted execution environment, for
  SHA-384 signatures and for FPGA builds; log output; the other components of the SDK (networking, drivers,
  NVS, which is C++, vendored libraries).
\<close>

end
